(* ===== verification/Prelude.thy ===== *)
theory Prelude
  imports Main "HOL-Library.Word"
begin

text \<open>
  Shared vocabulary of the development: the machine types of the C code, the error
  codes of \<^verbatim>\<open>signal_protocol.h\<close>, the shape of a fallible result, and the generic
  facts on results and bounded lists that the component theories rest on.

  A C function that returns an \<^verbatim>\<open>int\<close> status and stores its product through an out
  parameter becomes a function into \<open>sg_error + 'a\<close>: \<open>Inl e\<close> is the negative status,
  \<open>Inr x\<close> the product of a run with status \<open>\<ge> 0\<close>.  Allocation is taken to succeed, so
  the \<^verbatim>\<open>SG_ERR_NOMEM\<close> branches behind \<^verbatim>\<open>malloc\<close> are not modelled; reading through a
  null pointer, running past a buffer or failing an \<^verbatim>\<open>assert\<close> is the outcome
  \<open>C_UNDEFINED\<close>.
\<close>

unbundle bit_operations_syntax

named_theorems result_simps \<open>inversion of results built by early returns\<close>
named_theorems len_simps \<open>lengths of the byte strings and lists the code builds\<close>

section \<open>Machine types\<close>

type_synonym u8 = "8 word"
type_synonym u32 = "32 word"
type_synonym u64 = "64 word"
type_synonym bytes = "u8 list"

lemma unat_byte: "n \<le> 255 \<Longrightarrow> unat (of_nat n :: u8) = n"
  by (simp add: unat_of_nat take_bit_nat_eq_self)

lemma unat_byte_le: "unat (b :: u8) \<le> 255"
  using unsigned_less [of b, where ?'a = nat] by simp

section \<open>Error codes\<close>

datatype sg_error =
    SG_ERR_NOMEM
  | SG_ERR_INVAL
  | SG_ERR_UNKNOWN
  | SG_ERR_DUPLICATE_MESSAGE
  | SG_ERR_INVALID_KEY
  | SG_ERR_INVALID_KEY_ID
  | SG_ERR_INVALID_MAC
  | SG_ERR_INVALID_MESSAGE
  | SG_ERR_INVALID_VERSION
  | SG_ERR_LEGACY_MESSAGE
  | SG_ERR_NO_SESSION
  | SG_ERR_STALE_KEY_EXCHANGE
  | SG_ERR_UNTRUSTED_IDENTITY
  | SG_ERR_INVALID_PROTO_BUF
  | SG_ERR_FP_VERSION_MISMATCH
  | SG_ERR_FP_IDENT_MISMATCH
  | SG_ERR_OTHER int
  | C_UNDEFINED

text \<open>
  Callbacks hand back plain integers; \<open>sg_error_of_code\<close> reads a negative one as the
  error it denotes, an unlisted code staying what it is.
\<close>

definition sg_error_of_code :: "int \<Rightarrow> sg_error" where
  "sg_error_of_code c =
     (if c = -12 then SG_ERR_NOMEM else if c = -22 then SG_ERR_INVAL
      else if c = -1000 then SG_ERR_UNKNOWN else if c = -1001 then SG_ERR_DUPLICATE_MESSAGE
      else if c = -1002 then SG_ERR_INVALID_KEY else if c = -1003 then SG_ERR_INVALID_KEY_ID
      else if c = -1004 then SG_ERR_INVALID_MAC else if c = -1005 then SG_ERR_INVALID_MESSAGE
      else if c = -1006 then SG_ERR_INVALID_VERSION else if c = -1007 then SG_ERR_LEGACY_MESSAGE
      else if c = -1008 then SG_ERR_NO_SESSION else if c = -1009 then SG_ERR_STALE_KEY_EXCHANGE
      else if c = -1010 then SG_ERR_UNTRUSTED_IDENTITY else if c = -1100 then SG_ERR_INVALID_PROTO_BUF
      else if c = -1200 then SG_ERR_FP_VERSION_MISMATCH else if c = -1201 then SG_ERR_FP_IDENT_MISMATCH
      else SG_ERR_OTHER c)"

lemma sg_error_of_code_inject: "sg_error_of_code c = sg_error_of_code d \<longleftrightarrow> c = d"
  by (simp add: sg_error_of_code_def split: if_splits)

section \<open>Results\<close>

type_synonym 'a result = "sg_error + 'a"

text \<open>
  The C pattern \<^verbatim>\<open>result = f(..); if(result < 0) goto complete;\<close> is
  \<open>case f \<dots> of Inl e \<Rightarrow> Inl e | Inr x \<Rightarrow> \<dots>\<close>.  A run that ends in \<open>Inr\<close> went through
  every step, one that ends in \<open>Inl\<close> stopped at the first failing one.
\<close>

lemma case_result_Inr [result_simps]:
  "(case m of Inl e \<Rightarrow> Inl e | Inr x \<Rightarrow> f x) = Inr y \<longleftrightarrow> (\<exists>x. m = Inr x \<and> f x = Inr y)"
  by (cases m) auto

lemma case_result_Inl [result_simps]:
  "(case m of Inl e \<Rightarrow> Inl e | Inr x \<Rightarrow> f x) = Inl d \<longleftrightarrow>
     m = Inl d \<or> (\<exists>x. m = Inr x \<and> f x = Inl d)"
  by (cases m) auto

lemma guard_Inr [result_simps]: "(if b then Inl e else m) = Inr y \<longleftrightarrow> \<not> b \<and> m = Inr y"
  by simp

lemma case_option_Inr [result_simps]:
  "(case m of None \<Rightarrow> Inl e | Some x \<Rightarrow> f x) = Inr y \<longleftrightarrow> (\<exists>x. m = Some x \<and> f x = Inr y)"
  by (cases m) auto

text \<open>
  A local pointer variable that a call may leave dangling: null, a live object, or an
  object that is freed already.  Reading through it, and releasing it on the way out, are
  defined for a live object only, releasing also for null
  (\<^verbatim>\<open>signal_type_unref\<close> of \<^verbatim>\<open>signal_protocol.c\<close> tests for it).
\<close>

datatype 'a c_pointer = Null | Live 'a | Freed

definition deref :: "'a c_pointer \<Rightarrow> 'a result" where
  "deref p = (case p of Live x \<Rightarrow> Inr x | _ \<Rightarrow> Inl C_UNDEFINED)"

definition SIGNAL_UNREF :: "'a c_pointer \<Rightarrow> 'b result \<Rightarrow> 'b result" where
  "SIGNAL_UNREF p result = (case p of Freed \<Rightarrow> Inl C_UNDEFINED | _ \<Rightarrow> result)"

lemma deref_simps [simp]:
  "deref (Live x) = Inr x" "deref Null = Inl C_UNDEFINED" "deref Freed = Inl C_UNDEFINED"
  by (simp_all add: deref_def)

lemma SIGNAL_UNREF_simps [simp]:
  "SIGNAL_UNREF (Live x) r = r" "SIGNAL_UNREF Null r = r" "SIGNAL_UNREF Freed r = Inl C_UNDEFINED"
  by (simp_all add: SIGNAL_UNREF_def)

definition option_pointer :: "'a option \<Rightarrow> 'a c_pointer" where
  "option_pointer x = (case x of None \<Rightarrow> Null | Some y \<Rightarrow> Live y)"

lemma option_pointer_simps [simp]:
  "option_pointer None = Null" "option_pointer (Some y) = Live y" "SIGNAL_UNREF (option_pointer x) r = r"
  by (simp_all add: option_pointer_def split: option.split)

lemma SIGNAL_UNREF_Inr [result_simps]: "SIGNAL_UNREF p r = Inr y \<longleftrightarrow> p \<noteq> Freed \<and> r = Inr y"
  by (cases p) simp_all

text \<open>An operation over a list that stops at the first failure.\<close>

fun map_result :: "('a \<Rightarrow> 'b result) \<Rightarrow> 'a list \<Rightarrow> 'b list result" where
  "map_result f [] = Inr []"
| "map_result f (x # xs) =
     (case f x of Inl e \<Rightarrow> Inl e
      | Inr y \<Rightarrow> (case map_result f xs of Inl e \<Rightarrow> Inl e | Inr ys \<Rightarrow> Inr (y # ys)))"

lemma map_result_Inr: "map_result f xs = Inr ys \<longleftrightarrow> list_all2 (\<lambda>x y. f x = Inr y) xs ys"
  by (induction xs arbitrary: ys)
     (auto simp: result_simps list_all2_Cons1 split: sum.splits)

lemma map_result_map:
  "(\<And>x. x \<in> set xs \<Longrightarrow> f (g x) = Inr (h x)) \<Longrightarrow> map_result f (map g xs) = Inr (map h xs)"
  by (induction xs) auto

lemma map_result_id:
  "(\<And>x. x \<in> set xs \<Longrightarrow> f (g x) = Inr x) \<Longrightarrow> map_result f (map g xs) = Inr xs"
  using map_result_map [of xs f g "\<lambda>x. x"] by simp

text \<open>\<^verbatim>\<open>if(p) { result = f(p); .. }\<close> for a pointer that may be null.\<close>

definition opt_result :: "('a \<Rightarrow> 'b result) \<Rightarrow> 'a option \<Rightarrow> 'b option result" where
  "opt_result f m =
     (case m of None \<Rightarrow> Inr None
      | Some x \<Rightarrow> (case f x of Inl e \<Rightarrow> Inl e | Inr y \<Rightarrow> Inr (Some y)))"

lemma opt_result_simps [simp]:
  "opt_result f None = Inr None"
  "f x = Inr y \<Longrightarrow> opt_result f (Some x) = Inr (Some y)"
  "f x = Inl e \<Longrightarrow> opt_result f (Some x) = Inl e"
  by (simp_all add: opt_result_def)

lemma opt_result_Inr [result_simps]:
  "opt_result f m = Inr y \<longleftrightarrow> rel_option (\<lambda>x k. f x = Inr k) m y"
  by (cases m; cases y) (auto simp: opt_result_def split: sum.splits)

lemma opt_result_map:
  "(\<And>x. m = Some x \<Longrightarrow> f (g x) = Inr (h x)) \<Longrightarrow> opt_result f (map_option g m) = Inr (map_option h m)"
  by (cases m) simp_all

text \<open>A pointer into unpacked data: the empty byte string is the null pointer.\<close>

definition nonnull :: "bytes \<Rightarrow> bytes option" where
  "nonnull d = (if d = [] then None else Some d)"

section \<open>Linked lists\<close>

text \<open>Change of the first node that satisfies a test, and its deletion.\<close>

fun update_first :: "('a \<Rightarrow> bool) \<Rightarrow> ('a \<Rightarrow> 'a) \<Rightarrow> 'a list \<Rightarrow> 'a list" where
  "update_first P f [] = []"
| "update_first P f (x # xs) = (if P x then f x # xs else x # update_first P f xs)"

fun remove_first :: "('a \<Rightarrow> bool) \<Rightarrow> 'a list \<Rightarrow> 'a list" where
  "remove_first P [] = []"
| "remove_first P (x # xs) = (if P x then xs else x # remove_first P xs)"

lemma update_first_length [simp]: "length (update_first P f xs) = length xs"
  by (induction xs) auto

lemma update_first_list_all:
  "\<lbrakk>list_all Q xs; \<And>x. \<lbrakk>Q x; P x\<rbrakk> \<Longrightarrow> Q (f x)\<rbrakk> \<Longrightarrow> list_all Q (update_first P f xs)"
  by (induction xs) auto

lemma update_first_id: "(\<And>x. P x \<Longrightarrow> f x = x) \<Longrightarrow> update_first P f xs = xs"
  by (induction xs) auto

lemma update_first_update_first:
  "(\<And>x. P x \<Longrightarrow> P (f x)) \<Longrightarrow> update_first P g (update_first P f xs) = update_first P (g \<circ> f) xs"
  by (induction xs) auto

lemma update_first_cong_find:
  "\<lbrakk>List.find P xs = Some y; f y = g y\<rbrakk> \<Longrightarrow> update_first P f xs = update_first P g xs"
  by (induction xs) (auto split: if_splits)

lemma find_update_first:
  "(\<And>x. P x \<Longrightarrow> P (f x)) \<Longrightarrow> List.find P (update_first P f xs) = map_option f (List.find P xs)"
  by (induction xs) auto

lemma find_update_other:
  "(\<And>x. P x \<Longrightarrow> \<not> Q x \<and> \<not> Q (f x)) \<Longrightarrow> List.find Q (update_first P f xs) = List.find Q xs"
  by (induction xs) auto

lemma find_Some_set: "List.find P xs = Some x \<Longrightarrow> x \<in> set xs \<and> P x"
  by (induction xs) (auto split: if_splits)

lemma remove_first_subset: "set (remove_first P xs) \<subseteq> set xs"
  by (induction xs) auto

lemma remove_first_length: "length (remove_first P xs) \<le> length xs"
  by (induction xs) auto

lemma remove_first_map_distinct:
  "\<lbrakk>distinct (map f xs); List.find (\<lambda>x. f x = k) xs = Some y\<rbrakk> \<Longrightarrow>
     set (map f (remove_first (\<lambda>x. f x = k) xs)) = set (map f xs) - {k}
     \<and> distinct (map f (remove_first (\<lambda>x. f x = k) xs))"
  by (induction xs) (auto split: if_splits)

section \<open>Bounded lists\<close>

text \<open>
  The doubly linked lists of \<^verbatim>\<open>utlist.h\<close> are lists here.  After an append the code runs
  \<^verbatim>\<open>while(count > MAX) { delete head; --count; }\<close>, after a prepend the same loop deletes
  the last node.
\<close>

function dl_trim_head :: "nat \<Rightarrow> 'a list \<Rightarrow> 'a list" where
  "dl_trim_head limit xs = (if limit < length xs then dl_trim_head limit (tl xs) else xs)"
  by pat_completeness auto
termination
  by (relation "measure (\<lambda>(limit, xs). length xs)") auto

declare dl_trim_head.simps [simp del]

function dl_trim_last :: "nat \<Rightarrow> 'a list \<Rightarrow> 'a list" where
  "dl_trim_last limit xs = (if limit < length xs then dl_trim_last limit (butlast xs) else xs)"
  by pat_completeness auto
termination
  by (relation "measure (\<lambda>(limit, xs). length xs)") auto

declare dl_trim_last.simps [simp del]

lemma dl_trim_head_drop: "dl_trim_head limit xs = drop (length xs - limit) xs"
proof (induction limit xs rule: dl_trim_head.induct)
  case (1 limit xs)
  show ?case
  proof (cases "limit < length xs")
    case True
    then have "length xs - limit = Suc (length (tl xs) - limit)" by simp
    with True 1 show ?thesis by (simp add: dl_trim_head.simps [of limit xs] drop_Suc)
  next
    case False
    then show ?thesis by (simp add: dl_trim_head.simps [of limit xs])
  qed
qed

lemma dl_trim_last_take: "dl_trim_last limit xs = take limit xs"
proof (induction limit xs rule: dl_trim_last.induct)
  case (1 limit xs)
  show ?case
  proof (cases "limit < length xs")
    case True
    then have "take limit (butlast xs) = take limit xs"
      by (auto simp: butlast_conv_take min_def)
    with True 1 show ?thesis by (simp add: dl_trim_last.simps [of limit xs])
  next
    case False
    then show ?thesis by (simp add: dl_trim_last.simps [of limit xs])
  qed
qed

text \<open>
  What every bounded list of the library promises its clients, whichever end it evicts
  from: a new entry is there, nothing else appears, and the bound is kept.
\<close>

locale bounded_list =
  fixes limit :: nat
    and add :: "'a \<Rightarrow> 'a list \<Rightarrow> 'a list"
  assumes add_new: "x \<in> set (add x xs)"
    and add_old: "set (add x xs) \<subseteq> insert x (set xs)"
    and add_bound: "length (add x xs) \<le> limit"
begin

lemma add_fold_bound:
  "length xs \<le> limit \<Longrightarrow> length (fold add ys xs) \<le> limit"
  by (induction ys arbitrary: xs) (simp_all add: add_bound)

lemma add_fold_old: "set (fold add ys xs) \<subseteq> set ys \<union> set xs"
proof (induction ys arbitrary: xs)
  case Nil
  show ?case by simp
next
  case (Cons y ys)
  from Cons [of "add y xs"] add_old [of y xs] show ?case by auto
qed

lemma add_list_all: "list_all P xs \<Longrightarrow> P x \<Longrightarrow> list_all P (add x xs)"
  using add_old [of x xs] by (auto simp: list_all_iff)

end

definition append_bounded :: "nat \<Rightarrow> 'a \<Rightarrow> 'a list \<Rightarrow> 'a list" where
  "append_bounded limit x xs = dl_trim_head limit (xs @ [x])"

definition prepend_bounded :: "nat \<Rightarrow> 'a \<Rightarrow> 'a list \<Rightarrow> 'a list" where
  "prepend_bounded limit x xs = dl_trim_last limit (x # xs)"

lemma append_bounded_room: "length xs < limit \<Longrightarrow> append_bounded limit x xs = xs @ [x]"
  by (simp add: append_bounded_def dl_trim_head_drop)

lemma append_bounded_full:
  "0 < limit \<Longrightarrow> length xs = limit \<Longrightarrow> append_bounded limit x xs = tl xs @ [x]"
  by (cases xs) (simp_all add: append_bounded_def dl_trim_head_drop)

lemma append_bounded_map: "map f (append_bounded limit x xs) = append_bounded limit (f x) (map f xs)"
  by (simp add: append_bounded_def dl_trim_head_drop drop_map [symmetric] del: drop_append)

lemma append_bounded_fold_map:
  "map f (fold (append_bounded limit) ys xs) = fold (append_bounded limit) (map f ys) (map f xs)"
  by (induction ys arbitrary: xs) (simp_all add: append_bounded_map)

lemma append_bounded_fold_room:
  "length xs + length ys \<le> limit \<Longrightarrow> fold (append_bounded limit) ys xs = xs @ ys"
  by (induction ys arbitrary: xs) (simp_all add: append_bounded_room)

lemma append_bounded_distinct:
  assumes "distinct (map f xs)" "f x \<notin> f ` set xs"
  shows "distinct (map f (append_bounded limit x xs))"
proof -
  have "distinct (map f (xs @ [x]))" using assms by simp
  then have "distinct (drop (length (xs @ [x]) - limit) (map f (xs @ [x])))" by (rule distinct_drop)
  then show ?thesis by (simp only: append_bounded_def dl_trim_head_drop drop_map)
qed

lemma find_append_bounded:
  assumes "List.find P xs = None" "P x" "0 < limit"
  shows "List.find P (append_bounded limit x xs) = Some x"
proof -
  let ?k = "Suc (length xs) - limit"
  have "append_bounded limit x xs = drop ?k xs @ [x]"
    using assms(3) by (simp add: append_bounded_def dl_trim_head_drop)
  moreover have "\<forall>y \<in> set (drop ?k xs). \<not> P y" using assms(1) by (auto simp: find_None_iff dest: in_set_dropD)
  moreover have "List.find P (ys @ [x]) = Some x" if "\<forall>y \<in> set ys. \<not> P y" for ys
    using that assms(2) by (induction ys) auto
  ultimately show ?thesis by simp
qed

lemma bounded_list_append: "0 < limit \<Longrightarrow> bounded_list limit (append_bounded limit)"
proof unfold_locales
  fix x :: 'a and xs
  assume pos: "0 < limit"
  then have "length (xs @ [x]) - limit \<le> length xs" by simp
  then show "x \<in> set (append_bounded limit x xs)"
    by (simp add: append_bounded_def dl_trim_head_drop)
  show "set (append_bounded limit x xs) \<subseteq> insert x (set xs)"
    by (auto simp: append_bounded_def dl_trim_head_drop dest: in_set_dropD)
  show "length (append_bounded limit x xs) \<le> limit"
    by (simp add: append_bounded_def dl_trim_head_drop)
qed

lemma bounded_list_prepend: "0 < limit \<Longrightarrow> bounded_list limit (prepend_bounded limit)"
proof unfold_locales
  fix x :: 'a and xs
  assume pos: "0 < limit"
  then show "x \<in> set (prepend_bounded limit x xs)"
    by (cases limit) (simp_all add: prepend_bounded_def dl_trim_last_take)
  show "set (prepend_bounded limit x xs) \<subseteq> insert x (set xs)"
    by (auto simp: prepend_bounded_def dl_trim_last_take dest: in_set_takeD)
  show "length (prepend_bounded limit x xs) \<le> limit"
    by (simp add: prepend_bounded_def dl_trim_last_take)
qed

end
