(* ===== verification/Protobuf.thy ===== *)
theory Protobuf
  imports Prelude
begin

text \<open>
  The part of \<^verbatim>\<open>protobuf-c/protobuf-c.c\<close> that the library's serialisation runs through:
  packing a message by its descriptor, the packed-size computation that the callers
  compare the result with, and unpacking (tag and length scanning, the member parsers,
  merging of repeated occurrences of a sub-message).  The field types are the ones the
  library's descriptors use (\<^verbatim>\<open>uint32\<close>, \<^verbatim>\<open>int32\<close>, \<^verbatim>\<open>bool\<close>, \<^verbatim>\<open>fixed64\<close>, \<^verbatim>\<open>bytes\<close> and
  sub-messages; optional, or repeated for sub-messages).

  A message is the list of its fields in descriptor order, each field the list of its
  values: \<open>[]\<close> for an absent optional field (\<^verbatim>\<open>has_x == 0\<close> or a null pointer).
  Descriptor lookup by tag is a search of the field list (the generated ranges are an
  index of it).  Unknown fields are parsed and dropped: no caller reads them.

  Data is a byte list, and every read of the code is a case distinction on it: reading a
  byte that is not there, or taking a member that reaches past the end, is the outcome
  \<open>Unpack_Fault\<close>.  The bounds of the loops and the length checks are the code's own, so
  that the absence of faults is a fact about them.  (Bytes shifted to the top of a 32-bit
  number are shifted on 32 bits; in ISO C the shift of a promoted \<^verbatim>\<open>int\<close> into its sign bit
  has no defined value.)
\<close>

text \<open>
  \<open>Unpack_Error\<close> is the null result of \<^verbatim>\<open>protobuf_c_message_unpack\<close>; \<open>Unpack_Fault\<close> is a
  run that leaves the bounds of its input.
\<close>

datatype 'a unpacked = Unpack_Error | Unpack_Fault | Unpacked 'a

section \<open>Base-128 varints\<close>

text \<open>\<^verbatim>\<open>uint32_pack\<close>: the nested conditionals, at most four continuation bytes.\<close>

fun uint32_pack_from :: "nat \<Rightarrow> u32 \<Rightarrow> bytes" where
  "uint32_pack_from 0 v = [ucast v]"
| "uint32_pack_from (Suc n) v =
     (if 0x80 \<le> v then ucast (v OR 0x80) # uint32_pack_from n (drop_bit 7 v) else [ucast v])"

definition uint32_pack :: "u32 \<Rightarrow> bytes" where
  "uint32_pack v = uint32_pack_from 4 v"

definition uint32_size :: "u32 \<Rightarrow> nat" where
  "uint32_size v =
     (if v < 2 ^ 7 then 1 else if v < 2 ^ 14 then 2 else if v < 2 ^ 21 then 3
      else if v < 2 ^ 28 then 4 else 5)"

text \<open>\<^verbatim>\<open>int32_pack\<close>: a negative number is sign-extended to ten bytes.\<close>

definition int32_pack :: "u32 \<Rightarrow> bytes" where
  "int32_pack v =
     (if sint v < 0 then
        [ucast (v OR 0x80), ucast (signed_drop_bit 7 v OR 0x80), ucast (signed_drop_bit 14 v OR 0x80),
         ucast (signed_drop_bit 21 v OR 0x80), ucast (signed_drop_bit 28 v OR 0x80),
         0xff, 0xff, 0xff, 0xff, 0x01]
      else uint32_pack v)"

definition int32_size :: "u32 \<Rightarrow> nat" where
  "int32_size v = (if sint v < 0 then 10 else uint32_size v)"

definition fixed64_pack :: "u64 \<Rightarrow> bytes" where
  "fixed64_pack v = map (\<lambda>i. ucast (drop_bit (8 * i) v)) [0..<8]"

text \<open>\<^verbatim>\<open>parse_uint32(len, data)\<close>, the list being the \<^verbatim>\<open>len\<close> bytes of the member.\<close>

definition parse_uint32 :: "bytes \<Rightarrow> u32" where
  "parse_uint32 d =
     (ucast (d ! 0) AND 0x7f) OR
     (if 1 < length d then push_bit 7 (ucast (d ! 1) AND 0x7f) OR
       (if 2 < length d then push_bit 14 (ucast (d ! 2) AND 0x7f) OR
         (if 3 < length d then push_bit 21 (ucast (d ! 3) AND 0x7f) OR
           (if 4 < length d then push_bit 28 (ucast (d ! 4)) else 0)
          else 0)
        else 0)
      else 0)"

definition parse_boolean :: "bytes \<Rightarrow> bool" where
  "parse_boolean d = list_ex (\<lambda>b. b AND 0x7f \<noteq> 0) d"

definition parse_fixed_uint64 :: "bytes \<Rightarrow> u64" where
  "parse_fixed_uint64 d = fold (\<lambda>i acc. acc OR push_bit (8 * i) (ucast (d ! i))) [0..<8] 0"

text \<open>
  \<^verbatim>\<open>scan_varint\<close> and the identical loop of \<^verbatim>\<open>protobuf_c_message_unpack\<close>: the length of the
  varint that starts here, if it ends within the first \<open>n\<close> bytes.
\<close>

fun scan_varint :: "nat \<Rightarrow> bytes \<Rightarrow> nat unpacked" where
  "scan_varint 0 d = Unpack_Error"
| "scan_varint (Suc n) [] = Unpack_Fault"
| "scan_varint (Suc n) (b # d) =
     (if b AND 0x80 = 0 then Unpacked 1 else map_unpacked Suc (scan_varint n d))"

section \<open>Scanning tags and payload lengths\<close>

text \<open>The loop of \<^verbatim>\<open>parse_tag_and_wiretype\<close> with \<open>n\<close> rounds left.\<close>

fun parse_tag_from :: "nat \<Rightarrow> u32 \<Rightarrow> nat \<Rightarrow> nat \<Rightarrow> bytes \<Rightarrow> (u32 \<times> nat) unpacked" where
  "parse_tag_from 0 tag shift rv d = Unpack_Error"
| "parse_tag_from (Suc n) tag shift rv [] = Unpack_Fault"
| "parse_tag_from (Suc n) tag shift rv (b # d) =
     (if b AND 0x80 \<noteq> 0
      then parse_tag_from n (tag OR push_bit shift (ucast (b AND 0x7f))) (shift + 7) (Suc rv) d
      else Unpacked (tag OR push_bit shift (ucast b), Suc rv))"

text \<open>\<^verbatim>\<open>parse_tag_and_wiretype\<close>: tag, wire type and bytes used; an error for a bad header.\<close>

definition parse_tag_and_wiretype :: "bytes \<Rightarrow> (u32 \<times> u8 \<times> nat) unpacked" where
  "parse_tag_and_wiretype d =
     (let max_rv = (if 5 < length d then 5 else length d) in
      case d of [] \<Rightarrow> Unpack_Fault
      | b # bs \<Rightarrow>
         (let tag = drop_bit 3 (ucast (b AND 0x7f)); wire = b AND 7 in
          if b AND 0x80 = 0 then Unpacked (tag, wire, 1)
          else map_unpacked (\<lambda>(t, used). (t, wire, used)) (parse_tag_from (max_rv - 1) tag 4 1 bs)))"

text \<open>The loop of \<^verbatim>\<open>scan_length_prefixed_data\<close> with \<open>n\<close> rounds left.\<close>

fun length_prefix_from :: "nat \<Rightarrow> nat \<Rightarrow> u32 \<Rightarrow> nat \<Rightarrow> bytes \<Rightarrow> (u32 \<times> nat) unpacked" where
  "length_prefix_from 0 shift val i d = Unpack_Error"
| "length_prefix_from (Suc n) shift val i [] = Unpack_Fault"
| "length_prefix_from (Suc n) shift val i (b # d) =
     (let val' = val OR push_bit shift (ucast (b AND 0x7f)) in
      if b AND 0x80 = 0 then Unpacked (val', Suc i)
      else length_prefix_from n (shift + 7) val' (Suc i) d)"

text \<open>
  \<^verbatim>\<open>scan_length_prefixed_data\<close>: total length and prefix length.  The sum
  \<^verbatim>\<open>hdr_len + val\<close> is computed in 32 bits; a total of 0 is the error value.
\<close>

definition scan_length_prefixed_data :: "bytes \<Rightarrow> (nat \<times> nat) unpacked" where
  "scan_length_prefixed_data d =
     (let hdr_max = (if length d < 5 then length d else 5) in
      case length_prefix_from hdr_max 0 0 0 d of
        Unpack_Error \<Rightarrow> Unpack_Error | Unpack_Fault \<Rightarrow> Unpack_Fault
      | Unpacked (val, hdr_len) \<Rightarrow>
         (let total = of_nat hdr_len + val in
          if length d < unat total then Unpack_Error
          else if total = 0 then Unpack_Error
          else Unpacked (unat total, hdr_len)))"

record scanned_member =
  sm_tag :: u32
  sm_wire_type :: u8
  sm_length_prefix_len :: nat
  sm_data :: bytes

text \<open>The \<^verbatim>\<open>switch (wire_type)\<close> of the scan: length and prefix length of the payload at \<open>at\<close>.\<close>

definition scan_payload :: "u8 \<Rightarrow> bytes \<Rightarrow> (nat \<times> nat) unpacked" where
  "scan_payload wire at =
     (if wire = 0 then map_unpacked (\<lambda>n. (n, 0)) (scan_varint (if length at < 10 then length at else 10) at)
      else if wire = 1 then (if length at < 8 then Unpack_Error else Unpacked (8, 0))
      else if wire = 2 then scan_length_prefixed_data at
      else if wire = 5 then (if length at < 4 then Unpack_Error else Unpacked (4, 0))
      else Unpack_Error)"

text \<open>
  The scanned members are kept in slabs, each twice the size of the one before; when the
  last slab is full there are too many fields.  The state is the current slab and the
  number of members in it.
\<close>

definition FIRST_SCANNED_MEMBER_SLAB_SIZE_LOG2 :: nat where
  "FIRST_SCANNED_MEMBER_SLAB_SIZE_LOG2 = 4"

definition MAX_SCANNED_MEMBER_SLAB :: nat where
  "MAX_SCANNED_MEMBER_SLAB = 4 * 8 - 1 - 5 - FIRST_SCANNED_MEMBER_SLAB_SIZE_LOG2"

definition next_slot :: "nat \<times> nat \<Rightarrow> (nat \<times> nat) option" where
  "next_slot slot =
     (case slot of (which_slab, in_slab_index) \<Rightarrow>
        if in_slab_index = 2 ^ (which_slab + FIRST_SCANNED_MEMBER_SLAB_SIZE_LOG2)
        then (if which_slab = MAX_SCANNED_MEMBER_SLAB then None else Some (Suc which_slab, 1))
        else Some (which_slab, Suc in_slab_index))"

text \<open>A well-formed tag uses at least one byte, so the scan of the members ends.\<close>

lemma parse_tag_from_used:
  "parse_tag_from n tag shift rv d = Unpacked (t, used) \<Longrightarrow> rv < used \<and> used \<le> rv + length d"
  by (induction n tag shift rv d rule: parse_tag_from.induct) (auto split: if_splits)

lemma map_unpacked_eq [simp]:
  "map_unpacked f m = Unpacked y \<longleftrightarrow> (\<exists>x. m = Unpacked x \<and> y = f x)"
  "map_unpacked f m = Unpack_Error \<longleftrightarrow> m = Unpack_Error"
  "map_unpacked f m = Unpack_Fault \<longleftrightarrow> m = Unpack_Fault"
  by (cases m; auto)+

lemma parse_tag_and_wiretype_used:
  "parse_tag_and_wiretype d = Unpacked (t, w, used) \<Longrightarrow> d \<noteq> [] \<and> 0 < used \<and> used \<le> length d"
  by (cases d) (auto simp: parse_tag_and_wiretype_def Let_def split: if_splits dest!: parse_tag_from_used)

function scan_members :: "nat \<times> nat \<Rightarrow> bytes \<Rightarrow> scanned_member list unpacked" where
  "scan_members slot d =
     (if d = [] then Unpacked []
      else (case parse_tag_and_wiretype d of
          Unpack_Error \<Rightarrow> Unpack_Error | Unpack_Fault \<Rightarrow> Unpack_Fault
        | Unpacked (tag, wire, used) \<Rightarrow>
           (case scan_payload wire (drop used d) of
              Unpack_Error \<Rightarrow> Unpack_Error | Unpack_Fault \<Rightarrow> Unpack_Fault
            | Unpacked (len, pref) \<Rightarrow>
               (case next_slot slot of None \<Rightarrow> Unpack_Error
                | Some slot' \<Rightarrow>
                   (if length (drop used d) < len then Unpack_Fault
                    else map_unpacked
                      (\<lambda>ms. \<lparr>sm_tag = tag, sm_wire_type = wire, sm_length_prefix_len = pref,
                             sm_data = take len (drop used d)\<rparr> # ms)
                      (scan_members slot' (drop len (drop used d))))))))"
  by pat_completeness auto
termination
  by (relation "measure (\<lambda>(slot, d). length d)") (auto dest!: parse_tag_and_wiretype_used)

declare scan_members.simps [simp del]

section \<open>Descriptors and messages\<close>

datatype pb_label = LABEL_OPTIONAL | LABEL_REPEATED

datatype pb_type =
    TYPE_UINT32 | TYPE_INT32 | TYPE_BOOL | TYPE_FIXED64 | TYPE_BYTES
  | TYPE_MESSAGE "pb_field list"
and pb_field = PB_Field (pf_id: u32) (pf_label: pb_label) (pf_type: pb_type)

datatype pb_value =
    PV_32 u32 | PV_bool bool | PV_64 u64 | PV_bytes bytes | PV_msg "pb_value list list"

type_synonym pb_message = "pb_value list list"

fun pb_wire_type :: "pb_type \<Rightarrow> u8" where
  "pb_wire_type TYPE_UINT32 = 0"
| "pb_wire_type TYPE_INT32 = 0"
| "pb_wire_type TYPE_BOOL = 0"
| "pb_wire_type TYPE_FIXED64 = 1"
| "pb_wire_type TYPE_BYTES = 2"
| "pb_wire_type (TYPE_MESSAGE fs) = 2"

section \<open>Packing\<close>

text \<open>\<^verbatim>\<open>tag_pack\<close> for the tags below \<open>2 ^ 29\<close>, with the wire type or-ed into the first byte.\<close>

definition tag_pack :: "u32 \<Rightarrow> u8 \<Rightarrow> bytes" where
  "tag_pack fid wire =
     (case uint32_pack (push_bit 3 fid) of [] \<Rightarrow> [] | b # bs \<Rightarrow> (b OR wire) # bs)"

fun pb_pack_value :: "pb_type \<Rightarrow> pb_value \<Rightarrow> bytes"
and pb_pack_values :: "u32 \<Rightarrow> pb_type \<Rightarrow> pb_value list \<Rightarrow> bytes"
and pb_pack :: "pb_field list \<Rightarrow> pb_message \<Rightarrow> bytes" where
  "pb_pack_value TYPE_UINT32 (PV_32 v) = uint32_pack v"
| "pb_pack_value TYPE_INT32 (PV_32 v) = int32_pack v"
| "pb_pack_value TYPE_BOOL (PV_bool b) = [if b then 1 else 0]"
| "pb_pack_value TYPE_FIXED64 (PV_64 v) = fixed64_pack v"
| "pb_pack_value TYPE_BYTES (PV_bytes bs) = uint32_pack (of_nat (length bs)) @ bs"
| "pb_pack_value (TYPE_MESSAGE fs) (PV_msg m) =
     (let body = pb_pack fs m in uint32_pack (of_nat (length body)) @ body)"
| "pb_pack_value _ _ = []"
| "pb_pack_values fid ty [] = []"
| "pb_pack_values fid ty (v # vs) =
     tag_pack fid (pb_wire_type ty) @ pb_pack_value ty v @ pb_pack_values fid ty vs"
| "pb_pack (PB_Field fid lab ty # fs) (vs # m) = pb_pack_values fid ty vs @ pb_pack fs m"
| "pb_pack _ _ = []"

definition get_tag_size :: "u32 \<Rightarrow> nat" where
  "get_tag_size n =
     (if n < 2 ^ 4 then 1 else if n < 2 ^ 11 then 2 else if n < 2 ^ 18 then 3
      else if n < 2 ^ 25 then 4 else 5)"

fun pb_value_size :: "pb_type \<Rightarrow> pb_value \<Rightarrow> nat"
and pb_values_size :: "u32 \<Rightarrow> pb_type \<Rightarrow> pb_value list \<Rightarrow> nat"
and pb_get_packed_size :: "pb_field list \<Rightarrow> pb_message \<Rightarrow> nat" where
  "pb_value_size TYPE_UINT32 (PV_32 v) = uint32_size v"
| "pb_value_size TYPE_INT32 (PV_32 v) = int32_size v"
| "pb_value_size TYPE_BOOL (PV_bool b) = 1"
| "pb_value_size TYPE_FIXED64 (PV_64 v) = 8"
| "pb_value_size TYPE_BYTES (PV_bytes bs) = uint32_size (of_nat (length bs)) + length bs"
| "pb_value_size (TYPE_MESSAGE fs) (PV_msg m) =
     (let n = pb_get_packed_size fs m in uint32_size (of_nat n) + n)"
| "pb_value_size _ _ = 0"
| "pb_values_size fid ty [] = 0"
| "pb_values_size fid ty (v # vs) = get_tag_size fid + pb_value_size ty v + pb_values_size fid ty vs"
| "pb_get_packed_size (PB_Field fid lab ty # fs) (vs # m) =
     pb_values_size fid ty vs + pb_get_packed_size fs m"
| "pb_get_packed_size _ _ = 0"

section \<open>Unpacking\<close>

fun pb_lookup :: "pb_field list \<Rightarrow> u32 \<Rightarrow> nat option" where
  "pb_lookup [] tag = None"
| "pb_lookup (f # fs) tag = (if pf_id f = tag then Some 0 else map_option Suc (pb_lookup fs tag))"

lemma pb_lookup_nth: "pb_lookup fs tag = Some i \<Longrightarrow> i < length fs \<and> pf_id (fs ! i) = tag"
  by (induction fs arbitrary: i) (auto split: if_splits)

text \<open>
  \<^verbatim>\<open>merge_messages\<close>: the earlier occurrence supplies what the later one leaves out,
  repeated fields are concatenated.  For \<^verbatim>\<open>bytes\<close> the test is the data pointer, which is
  null for an empty string.
\<close>

fun pb_merge_field :: "pb_label \<Rightarrow> pb_type \<Rightarrow> pb_value list \<Rightarrow> pb_value list \<Rightarrow> pb_value list"
and pb_merge :: "pb_field list \<Rightarrow> pb_message \<Rightarrow> pb_message \<Rightarrow> pb_message" where
  "pb_merge_field LABEL_REPEATED ty e l = e @ l"
| "pb_merge_field LABEL_OPTIONAL (TYPE_MESSAGE fs) [PV_msg e] [PV_msg l] = [PV_msg (pb_merge fs e l)]"
| "pb_merge_field LABEL_OPTIONAL TYPE_BYTES [PV_bytes (b # bs)] [PV_bytes []] = [PV_bytes (b # bs)]"
| "pb_merge_field LABEL_OPTIONAL TYPE_BYTES [PV_bytes []] [] = []"
| "pb_merge_field LABEL_OPTIONAL ty e [] = e"
| "pb_merge_field LABEL_OPTIONAL ty e l = l"
| "pb_merge (PB_Field fid lab ty # fs) (e # es) (l # ls) = pb_merge_field lab ty e l # pb_merge fs es ls"
| "pb_merge fs es ls = ls"

definition pb_store_value :: "pb_label \<Rightarrow> pb_type \<Rightarrow> pb_value list \<Rightarrow> pb_value \<Rightarrow> pb_value list" where
  "pb_store_value lab ty old v =
     (case lab of LABEL_REPEATED \<Rightarrow> old @ [v]
      | LABEL_OPTIONAL \<Rightarrow>
         (case (ty, old, v) of
            (TYPE_MESSAGE fs, [PV_msg e], PV_msg l) \<Rightarrow> [PV_msg (pb_merge fs e l)]
          | _ \<Rightarrow> [v]))"

lemma size_field_type: "i < length fs \<Longrightarrow> size (pf_type (fs ! i)) < size_list size fs"
proof -
  assume "i < length fs"
  then have mem: "fs ! i \<in> set fs" by simp
  have "size (pf_type (fs ! i)) < size (fs ! i)" by (cases "fs ! i") simp
  also have "size (fs ! i) \<le> size_list size fs"
    using mem by (simp add: less_imp_le_nat size_list_estimation')
  finally show ?thesis .
qed

function pb_parse_required :: "pb_type \<Rightarrow> scanned_member \<Rightarrow> pb_value unpacked"
and pb_parse_members :: "pb_field list \<Rightarrow> scanned_member list \<Rightarrow> pb_message \<Rightarrow> pb_message unpacked"
and pb_unpack :: "pb_field list \<Rightarrow> bytes \<Rightarrow> pb_message unpacked" where
  "pb_parse_required TYPE_UINT32 sm =
     (if sm_wire_type sm \<noteq> 0 then Unpack_Error
      else if sm_data sm = [] then Unpack_Fault else Unpacked (PV_32 (parse_uint32 (sm_data sm))))"
| "pb_parse_required TYPE_INT32 sm =
     (if sm_wire_type sm \<noteq> 0 then Unpack_Error
      else if sm_data sm = [] then Unpack_Fault else Unpacked (PV_32 (parse_uint32 (sm_data sm))))"
| "pb_parse_required TYPE_BOOL sm = Unpacked (PV_bool (parse_boolean (sm_data sm)))"
| "pb_parse_required TYPE_FIXED64 sm =
     (if sm_wire_type sm \<noteq> 1 then Unpack_Error
      else if length (sm_data sm) < 8 then Unpack_Fault
      else Unpacked (PV_64 (parse_fixed_uint64 (sm_data sm))))"
| "pb_parse_required TYPE_BYTES sm =
     (if sm_wire_type sm \<noteq> 2 then Unpack_Error
      else if length (sm_data sm) < sm_length_prefix_len sm then Unpack_Fault
      else Unpacked (PV_bytes (drop (sm_length_prefix_len sm) (sm_data sm))))"
| "pb_parse_required (TYPE_MESSAGE fs) sm =
     (if sm_wire_type sm \<noteq> 2 then Unpack_Error
      else if length (sm_data sm) < sm_length_prefix_len sm then Unpack_Fault
      else (case pb_unpack fs (drop (sm_length_prefix_len sm) (sm_data sm)) of
              Unpack_Error \<Rightarrow> Unpack_Error | Unpack_Fault \<Rightarrow> Unpack_Fault
            | Unpacked m \<Rightarrow> Unpacked (PV_msg m)))"
| "pb_parse_members fs [] acc = Unpacked acc"
| "pb_parse_members fs (sm # sms) acc =
     (case pb_lookup fs (sm_tag sm) of
        None \<Rightarrow> pb_parse_members fs sms acc
      | Some i \<Rightarrow>
         (case pb_parse_required (pf_type (fs ! i)) sm of
            Unpack_Error \<Rightarrow> Unpack_Error | Unpack_Fault \<Rightarrow> Unpack_Fault
          | Unpacked v \<Rightarrow>
              pb_parse_members fs sms
                (acc[i := pb_store_value (pf_label (fs ! i)) (pf_type (fs ! i)) (acc ! i) v])))"
| "pb_unpack fs d =
     (case scan_members (0, 0) d of
        Unpack_Error \<Rightarrow> Unpack_Error | Unpack_Fault \<Rightarrow> Unpack_Fault
      | Unpacked sms \<Rightarrow> pb_parse_members fs sms (replicate (length fs) []))"
  by pat_completeness auto

termination
proof (relation "measures
    [\<lambda>x. case x of Inl (ty, sm) \<Rightarrow> size ty
        | Inr y \<Rightarrow> (case y of Inl (fs, sms, acc) \<Rightarrow> size_list size fs | Inr (fs, d) \<Rightarrow> size_list size fs),
     \<lambda>x. case x of Inl _ \<Rightarrow> 0 | Inr y \<Rightarrow> (case y of Inl _ \<Rightarrow> 0 | Inr _ \<Rightarrow> 1),
     \<lambda>x. case x of Inl _ \<Rightarrow> 0
        | Inr y \<Rightarrow> (case y of Inl (fs, sms, acc) \<Rightarrow> length sms | Inr _ \<Rightarrow> 0)]")
qed (auto dest!: pb_lookup_nth intro: size_field_type)

end
