(* ===== verification/Protobuf_Laws.thy ===== *)
theory Protobuf_Laws
  imports Protobuf
begin

text \<open>
  What the serialisation layer promises the rest of the library: numbers, tags and
  length prefixes read back as written, the computed packed size is the size written,
  unpacking a packed message returns it, and no input makes the unpacker leave its
  bounds.
\<close>

section \<open>Varints read back\<close>

lemma bit_127 [simp]: "bit (127 :: int) n \<longleftrightarrow> n < 7"
proof -
  have "(127 :: int) = mask 7" by (simp add: mask_eq_exp_minus_1)
  then show ?thesis by (simp only: bit_mask_iff) auto
qed

lemma bit_128 [simp]: "bit (128 :: int) n \<longleftrightarrow> n = 7"
proof -
  have "(128 :: int) = 2 ^ 7" by simp
  then show ?thesis by (simp only: bit_exp_iff) auto
qed

lemma byte_cont: "(ucast (v OR 0x80 :: u32) :: u8) AND 0x80 \<noteq> 0"
proof -
  have "bit ((ucast (v OR 0x80 :: u32) :: u8) AND 0x80) 7"
    by (simp add: bit_simps)
  then show ?thesis by fastforce
qed

lemma high_bits_zero: "\<lbrakk>unat (v :: u32) < 2 ^ n; n \<le> k\<rbrakk> \<Longrightarrow> \<not> bit v k"
proof -
  assume a: "unat v < 2 ^ n" "n \<le> k"
  then have "unat v < 2 ^ k" by (meson less_le_trans one_le_numeral power_increasing)
  then show ?thesis by (metis bit_take_bit_iff less_irrefl take_bit_nat_eq_self_iff unsigned_take_bit_eq word_unat_eq_iff)
qed

lemma byte_last: "unat v < 128 \<Longrightarrow> (ucast (v :: u32) :: u8) AND 0x80 = 0"
  using high_bits_zero [of v 7 7] by (intro bit_word_eqI) (auto simp: bit_simps)

lemma cont_low7: "(ucast ((ucast (v OR 0x80 :: u32) :: u8) AND 0x7f) :: u32) = v AND 0x7f"
  by (rule bit_word_eqI) (auto simp: bit_simps)

lemma last_low7: "unat v < 128 \<Longrightarrow> (ucast ((ucast (v :: u32) :: u8) AND 0x7f) :: u32) = v"
  using high_bits_zero [of v 7]
  by (intro bit_word_eqI) (auto simp: bit_simps not_le [symmetric])

lemma last_ucast: "unat v < 256 \<Longrightarrow> (ucast (ucast (v :: u32) :: u8) :: u32) = v"
  using high_bits_zero [of v 8]
  by (intro bit_word_eqI) (auto simp: bit_simps not_le [symmetric])

lemma shift_low7: "push_bit s (v AND 0x7f :: u32) OR push_bit (s + 7) (drop_bit 7 v) = push_bit s v"
proof (rule bit_word_eqI)
  fix n :: nat
  show "bit (push_bit s (v AND 0x7f) OR push_bit (s + 7) (drop_bit 7 v)) n = bit (push_bit s v) n"
    if "n < LENGTH(32)"
    using that by (cases "s + 7 \<le> n") (auto simp: bit_simps)
qed

lemma unat_drop7: "unat (v :: u32) < 2 ^ (7 * Suc n) \<Longrightarrow> unat (drop_bit 7 v) < 2 ^ (7 * n)"
  by (simp add: unat_drop_bit_eq drop_bit_eq_div [of 7 "unat v"] less_mult_imp_div_less power_add mult.commute)

lemma ge_128: "\<not> 0x80 \<le> (v :: u32) \<Longrightarrow> unat v < 128"
  by (simp add: word_le_nat_alt)

text \<open>How the scanners see a packed number, whatever follows it.\<close>

lemma scan_varint_pack:
  "\<lbrakk>k < n; unat v < 2 ^ (7 * Suc k)\<rbrakk> \<Longrightarrow>
     scan_varint n (uint32_pack_from k v @ rest) = Unpacked (length (uint32_pack_from k v))"
proof (induction k v arbitrary: n rule: uint32_pack_from.induct)
  case (1 v)
  then show ?case by (cases n) (simp_all add: byte_last)
next
  case (2 k v)
  then obtain n' where n: "n = Suc n'" "k < n'" by (cases n) auto
  show ?case
  proof (cases "0x80 \<le> v")
    case True
    with 2 n unat_drop7 [of v "Suc k"] show ?thesis by (simp add: byte_cont)
  next
    case False
    with n show ?thesis by (simp add: byte_last ge_128)
  qed
qed

lemma length_prefix_pack:
  "\<lbrakk>k < n; unat v < 2 ^ (7 * Suc k)\<rbrakk> \<Longrightarrow>
     length_prefix_from n s acc i (uint32_pack_from k v @ rest)
       = Unpacked (acc OR push_bit s v, i + length (uint32_pack_from k v))"
proof (induction k v arbitrary: n s acc i rule: uint32_pack_from.induct)
  case (1 v)
  then show ?case by (cases n) (simp_all add: byte_last last_low7)
next
  case (2 k v)
  then obtain n' where n: "n = Suc n'" "k < n'" by (cases n) auto
  show ?case
  proof (cases "0x80 \<le> v")
    case True
    from 2 unat_drop7 [of v "Suc k"] have "unat (drop_bit 7 v) < 2 ^ (7 * Suc k)" by simp
    from 2(1) [OF True \<open>k < n'\<close> this, of "s + 7" "acc OR push_bit s (v AND 127)" "Suc i"] True n
    show ?thesis by (simp add: byte_cont cont_low7 Let_def or.assoc shift_low7 del: push_bit_and)
  next
    case False
    with n show ?thesis by (simp add: byte_last last_low7 ge_128 Let_def)
  qed
qed

lemma unat_32_35: "unat (v :: u32) < 2 ^ (7 * Suc 4)"
  using unsigned_less [of v] by (rule less_trans) simp

lemma uint32_pack_length: "length (uint32_pack_from k v) \<le> Suc k \<and> 0 < length (uint32_pack_from k v)"
  by (induction k v rule: uint32_pack_from.induct) auto

lemma uint32_pack_bounds [len_simps]: "0 < length (uint32_pack v)" "length (uint32_pack v) \<le> 5"
  using uint32_pack_length [of 4 v] by (auto simp: uint32_pack_def)

text \<open>
  A loop bound beyond the end of the number changes nothing: the scanners stop at the
  first byte without a continuation bit.
\<close>

lemma scan_varint_bound:
  "\<lbrakk>scan_varint n d = Unpacked k; k \<le> m\<rbrakk> \<Longrightarrow> scan_varint m d = Unpacked k"
proof (induction n d arbitrary: m k rule: scan_varint.induct)
  case (3 n b d)
  show ?case
  proof (cases "b AND 0x80 = 0")
    case True
    with 3(2,3) show ?thesis by (cases m) simp_all
  next
    case False
    with 3(2) obtain k' where "scan_varint n d = Unpacked k'" "k = Suc k'" by auto
    with False 3(1,3) show ?thesis by (cases m) simp_all
  qed
qed auto

lemma length_prefix_from_used: "length_prefix_from n s acc i d = Unpacked (v, h) \<Longrightarrow> i < h"
proof (induction n s acc i d rule: length_prefix_from.induct)
  case (3 n s acc i b d)
  then show ?case by (cases "b AND 0x80 = 0") (simp_all add: Let_def)
qed simp_all

lemma length_prefix_bound:
  "\<lbrakk>length_prefix_from n s acc i d = Unpacked (v, h); h \<le> i + m\<rbrakk> \<Longrightarrow> length_prefix_from m s acc i d = Unpacked (v, h)"
proof (induction n s acc i d arbitrary: m rule: length_prefix_from.induct)
  case (3 n s acc i b d)
  have "i < h" using 3(2) by (rule length_prefix_from_used)
  then obtain m' where "m = Suc m'" using 3(3) by (cases m) auto
  with 3 show ?case by (auto simp: Let_def split: if_splits)
qed auto

lemma scan_varint_uint32 [simp]:
  "length (uint32_pack v) \<le> n \<Longrightarrow> scan_varint n (uint32_pack v @ rest) = Unpacked (length (uint32_pack v))"
  unfolding uint32_pack_def by (rule scan_varint_bound [OF scan_varint_pack [OF lessI unat_32_35]])

lemma scan_length_prefixed_pack:
  assumes "length bs < 2 ^ 31"
  shows "scan_length_prefixed_data (uint32_pack (of_nat (length bs)) @ bs @ rest)
    = Unpacked (length (uint32_pack (of_nat (length bs))) + length bs, length (uint32_pack (of_nat (length bs))))"
proof -
  let ?v = "of_nat (length bs) :: u32" and ?n = "length (uint32_pack (of_nat (length bs)))"
  let ?d = "uint32_pack ?v @ bs @ rest"
  have le: "?n \<le> 5" "0 < ?n" by (rule uint32_pack_bounds)+
  have pre: "length_prefix_from (if length ?d < 5 then length ?d else 5) 0 0 0 ?d = Unpacked (?v, ?n)"
    using length_prefix_bound [OF length_prefix_pack [of 4 5 ?v 0 0 0 "bs @ rest", OF _ unat_32_35]] le
    by (simp add: uint32_pack_def)
  have "unat ?v = length bs" using assms by (simp add: unat_of_nat take_bit_nat_eq_self)
  then have tot: "unat (of_nat ?n + ?v) = ?n + length bs"
    using assms le by (simp add: of_nat_add [symmetric] unat_of_nat take_bit_nat_eq_self del: of_nat_add)
  then have "of_nat ?n + ?v \<noteq> 0" using le by (metis add_is_0 less_numeral_extra(3) unat_0)
  with pre tot show ?thesis by (simp add: scan_length_prefixed_data_def Let_def)
qed

lemma ucast_and_127: "(ucast (b :: u8) :: u32) AND 0x7f = ucast (b AND 0x7f)"
  by (rule bit_word_eqI) (auto simp: bit_simps)

lemma low7_step: "(v AND 0x7f :: u32) OR push_bit 7 (drop_bit 7 v) = v"
  using shift_low7 [of 0 v] by simp

lemma low7_steps:
  "push_bit 7 (drop_bit 7 v AND 0x7f :: u32) OR push_bit 14 (drop_bit 14 v) = push_bit 7 (drop_bit 7 v)"
  "push_bit 14 (drop_bit 14 v AND 0x7f :: u32) OR push_bit 21 (drop_bit 21 v) = push_bit 14 (drop_bit 14 v)"
  "push_bit 21 (drop_bit 21 v AND 0x7f :: u32) OR push_bit 28 (drop_bit 28 v) = push_bit 21 (drop_bit 21 v)"
  using shift_low7 [of 7 "drop_bit 7 v"] shift_low7 [of 14 "drop_bit 14 v"] shift_low7 [of 21 "drop_bit 21 v"]
  by (simp_all del: push_bit_and)

lemma uint32_pack_from_numeral:
  "uint32_pack_from (numeral k) v =
     (if 0x80 \<le> v then ucast (v OR 0x80) # uint32_pack_from (pred_numeral k) (drop_bit 7 v) else [ucast v])"
  by (simp add: numeral_eq_Suc)

lemma parse_uint32_pack [simp]: "parse_uint32 (uint32_pack v) = v"
proof -
  have "unat v < 2 ^ LENGTH(32)" by (rule unsigned_less)
  then have top: "unat (drop_bit 28 v) < 256"
    by (simp add: unat_drop_bit_eq drop_bit_eq_div [of 28 "unat v"])
  show ?thesis
    by (simp add: parse_uint32_def uint32_pack_def uint32_pack_from_numeral
      ucast_and_127 cont_low7 last_low7 last_ucast [OF top] ge_128 low7_step low7_steps del: push_bit_and)
qed

lemma signed_drop_low7: "k \<le> 21 \<Longrightarrow> (signed_drop_bit k v AND 0x7f :: u32) = drop_bit k v AND 0x7f"
  by (rule bit_word_eqI) (auto simp: bit_simps)

lemma signed_drop_top:
  "push_bit 28 (ucast (ucast (signed_drop_bit 28 v OR 0x80 :: u32) :: u8)) = push_bit 28 (drop_bit 28 v)"
proof (rule bit_word_eqI)
  fix n :: nat
  assume "n < LENGTH(32)"
  then consider "n < 28" | "n = 28" | "n = 29" | "n = 30" | "n = 31" by fastforce
  then show "bit (push_bit 28 (ucast (ucast (signed_drop_bit 28 v OR 0x80 :: u32) :: u8)) :: u32) n
      = bit (push_bit 28 (drop_bit 28 v)) n"
    by cases (simp_all add: bit_simps)
qed

lemma parse_int32_pack: "parse_uint32 (int32_pack v) = v"
proof (cases "sint v < 0")
  case True
  then show ?thesis
    by (simp add: int32_pack_def parse_uint32_def ucast_and_127 cont_low7 signed_drop_low7
        signed_drop_top low7_step low7_steps del: push_bit_and)
next
  case False
  then show ?thesis by (simp add: int32_pack_def)
qed

lemma scan_varint_int32:
  assumes "length (int32_pack v) \<le> n"
  shows "scan_varint n (int32_pack v @ rest) = Unpacked (length (int32_pack v))"
proof (cases "sint v < 0")
  case True
  have "scan_varint (Suc (Suc (Suc (Suc (Suc (Suc (Suc (Suc (Suc (Suc 0)))))))))) (int32_pack v @ rest)
      = Unpacked (length (int32_pack v))"
    using True by (simp add: int32_pack_def byte_cont)
  then show ?thesis using assms by (rule scan_varint_bound)
next
  case False
  then show ?thesis using assms by (simp add: int32_pack_def)
qed

lemma int32_pack_bounds [len_simps]: "0 < length (int32_pack v)" "length (int32_pack v) \<le> 10"
  using uint32_pack_bounds [of v] by (simp_all add: int32_pack_def)

lemma bit_fold_bytes:
  "bit (fold (\<lambda>i acc. acc OR push_bit (8 * i) (ucast ((d :: bytes) ! i))) xs (a :: u64)) n \<longleftrightarrow>
     bit a n \<or> (\<exists>i \<in> set xs. 8 * i \<le> n \<and> n < 64 \<and> bit (d ! i) (n - 8 * i))"
  by (induction xs arbitrary: a) (auto simp: bit_simps)

lemma fixed64_pack_length [simp]: "length (fixed64_pack v) = 8"
  by (simp add: fixed64_pack_def)

lemma parse_fixed64_pack: "parse_fixed_uint64 (fixed64_pack v) = v"
proof (rule bit_word_eqI)
  fix n :: nat
  assume n: "n < LENGTH(64)"
  have byte: "bit (fixed64_pack v ! i) (n - 8 * i) \<longleftrightarrow> n - 8 * i < 8 \<and> bit v n"
    if "8 * i \<le> n" "i < 8" for i
    using that by (auto simp: fixed64_pack_def bit_simps)
  have "8 * (n div 8) \<le> n" "n div 8 < 8" "n - 8 * (n div 8) < 8"
    using n by (auto simp: minus_mult_div_eq_mod)
  then show "bit (parse_fixed_uint64 (fixed64_pack v)) n = bit v n"
    using n byte unfolding parse_fixed_uint64_def bit_fold_bytes
    by (auto intro!: bexI [of _ "n div 8"])
qed

lemma uint32_size_pack: "length (uint32_pack v) = uint32_size v"
proof -
  have sh: "0x80 \<le> drop_bit k v \<longleftrightarrow> 2 ^ (k + 7) \<le> unat v" if "k \<le> 21" for k
    using that by (simp add: word_le_nat_alt unat_drop_bit_eq drop_bit_eq_div [of k "unat v"]
      power_add less_eq_div_iff_mult_less_eq mult.commute)
  have b: "v < 2 ^ 7 \<longleftrightarrow> unat v < 2 ^ 7" "v < 2 ^ 14 \<longleftrightarrow> unat v < 2 ^ 14" "v < 2 ^ 21 \<longleftrightarrow> unat v < 2 ^ 21"
    "v < 2 ^ 28 \<longleftrightarrow> unat v < 2 ^ 28" "0x80 \<le> v \<longleftrightarrow> 2 ^ 7 \<le> unat v"
    by (simp_all add: word_less_nat_alt word_le_nat_alt)
  show ?thesis
    unfolding uint32_size_def b
    by (simp add: uint32_pack_def uint32_pack_from_numeral b sh)
qed

lemma int32_size_pack: "length (int32_pack v) = int32_size v"
  by (simp add: int32_pack_def int32_size_def uint32_size_pack)

lemma tag_pack_small:
  "tag < 16 \<Longrightarrow> wire < 8 \<Longrightarrow> tag_pack tag wire = [ucast (push_bit 3 tag) OR wire]"
proof -
  assume "tag < 16" "wire < 8"
  then have "\<not> 0x80 \<le> push_bit 3 tag"
    by (simp add: word_le_nat_alt word_less_nat_alt push_bit_eq_mult unat_word_ariths)
  then show ?thesis by (simp add: tag_pack_def uint32_pack_def uint32_pack_from_numeral)
qed

lemma bit_7 [simp]: "bit (7 :: int) n \<longleftrightarrow> n < 3"
proof -
  have "(7 :: int) = mask 3" by (simp add: mask_eq_exp_minus_1)
  then show ?thesis by (simp only: bit_mask_iff) auto
qed

lemma high_bits_zero8: "\<lbrakk>unat (w :: u8) < 2 ^ n; n \<le> k\<rbrakk> \<Longrightarrow> \<not> bit w k"
proof -
  assume a: "unat w < 2 ^ n" "n \<le> k"
  then have "unat w < 2 ^ k" by (meson less_le_trans one_le_numeral power_increasing)
  then show ?thesis by (metis bit_take_bit_iff less_irrefl take_bit_nat_eq_self_iff unsigned_take_bit_eq word_unat_eq_iff)
qed

lemma parse_tag_small:
  assumes "tag < 16" "wire < 8"
  shows "parse_tag_and_wiretype (tag_pack tag wire @ d) = Unpacked (tag, wire, 1)"
proof -
  let ?b = "ucast (push_bit 3 tag) OR wire :: u8"
  from assms have t: "\<And>k. 4 \<le> k \<Longrightarrow> \<not> bit tag k" and w: "\<And>k. 3 \<le> k \<Longrightarrow> \<not> bit wire k"
    using high_bits_zero [of tag 4] high_bits_zero8 [of wire 3]
    by (simp_all add: word_less_nat_alt)
  have hi: "?b AND 0x80 = 0"
    using t [of 4] w [of 7] by (intro bit_word_eqI) (auto simp: bit_simps)
  have wt: "?b AND 7 = wire"
    using w by (intro bit_word_eqI) (auto simp: bit_simps not_le [symmetric])
  have tg: "drop_bit 3 (ucast (?b AND 0x7f) :: u32) = tag"
    using t w by (intro bit_word_eqI) (auto simp: bit_simps not_le [symmetric])
  show ?thesis using hi wt tg tag_pack_small [OF assms] by (simp add: parse_tag_and_wiretype_def Let_def)
qed

section \<open>The packed size is the size packed\<close>

text \<open>
  A descriptor of the library: distinct tags below 16 at every level, repeated fields of
  a length-delimited type.
\<close>

primrec pb_desc_ok_type :: "pb_type \<Rightarrow> bool" and pb_desc_ok_field :: "pb_field \<Rightarrow> bool" where
  "pb_desc_ok_type TYPE_UINT32 = True"
| "pb_desc_ok_type TYPE_INT32 = True"
| "pb_desc_ok_type TYPE_BOOL = True"
| "pb_desc_ok_type TYPE_FIXED64 = True"
| "pb_desc_ok_type TYPE_BYTES = True"
| "pb_desc_ok_type (TYPE_MESSAGE fs) =
     (distinct (map pf_id fs) \<and> list_all (\<lambda>b. b) (map pb_desc_ok_field fs))"
| "pb_desc_ok_field (PB_Field fid lab ty) =
     (fid < 16 \<and> pb_desc_ok_type ty \<and> (lab = LABEL_REPEATED \<longrightarrow> pb_wire_type ty = 2))"

definition pb_desc_ok :: "pb_field list \<Rightarrow> bool" where
  "pb_desc_ok fs = pb_desc_ok_type (TYPE_MESSAGE fs)"

text \<open>
  A message that fits its descriptor, with every length-delimited part below \<open>2 ^ 31\<close>
  bytes.
\<close>

fun pb_wt_value :: "pb_type \<Rightarrow> pb_value \<Rightarrow> bool"
and pb_wt :: "pb_field list \<Rightarrow> pb_message \<Rightarrow> bool" where
  "pb_wt_value TYPE_UINT32 (PV_32 v) = True"
| "pb_wt_value TYPE_INT32 (PV_32 v) = True"
| "pb_wt_value TYPE_BOOL (PV_bool b) = True"
| "pb_wt_value TYPE_FIXED64 (PV_64 v) = True"
| "pb_wt_value TYPE_BYTES (PV_bytes bs) = (length bs < 2 ^ 31)"
| "pb_wt_value (TYPE_MESSAGE fs) (PV_msg m) = (pb_wt fs m \<and> length (pb_pack fs m) < 2 ^ 31)"
| "pb_wt_value _ _ = False"
| "pb_wt [] [] = True"
| "pb_wt (PB_Field fid lab ty # fs) (vs # m) =
     (list_all (pb_wt_value ty) vs \<and> (lab = LABEL_OPTIONAL \<longrightarrow> length vs \<le> 1) \<and> pb_wt fs m)"
| "pb_wt _ _ = False"

lemma pb_wire_type_less: "pb_wire_type ty < 8"
  by (cases ty) (simp_all add: word_less_nat_alt)

lemma pb_packed_size_pack:
  "pb_desc_ok_type ty \<Longrightarrow> pb_value_size ty v = length (pb_pack_value ty v)"
  "\<lbrakk>fid < 16; pb_desc_ok_type ty\<rbrakk> \<Longrightarrow> pb_values_size fid ty vs = length (pb_pack_values fid ty vs)"
  "list_all pb_desc_ok_field fs \<Longrightarrow> pb_get_packed_size fs m = length (pb_pack fs m)"
proof (induction ty v and fid ty vs and fs m rule: pb_pack_value_pb_pack_values_pb_pack.induct)
qed (auto simp: uint32_size_pack int32_size_pack fixed64_pack_def Let_def list.pred_map comp_def
       get_tag_size_def tag_pack_small pb_wire_type_less)

section \<open>Packing and unpacking are inverse\<close>

definition pb_prefix_len :: "pb_type \<Rightarrow> pb_value \<Rightarrow> nat" where
  "pb_prefix_len ty v =
     (case (ty, v) of
        (TYPE_BYTES, PV_bytes bs) \<Rightarrow> length (uint32_pack (of_nat (length bs)))
      | (TYPE_MESSAGE fs, PV_msg m) \<Rightarrow> length (uint32_pack (of_nat (length (pb_pack fs m))))
      | _ \<Rightarrow> 0)"

definition pb_member :: "u32 \<Rightarrow> pb_type \<Rightarrow> pb_value \<Rightarrow> scanned_member" where
  "pb_member fid ty v =
     \<lparr>sm_tag = fid, sm_wire_type = pb_wire_type ty, sm_length_prefix_len = pb_prefix_len ty v,
      sm_data = pb_pack_value ty v\<rparr>"

fun pb_members :: "pb_field list \<Rightarrow> pb_message \<Rightarrow> scanned_member list" where
  "pb_members (PB_Field fid lab ty # fs) (vs # m) = map (pb_member fid ty) vs @ pb_members fs m"
| "pb_members _ _ = []"

lemma pb_wt_Nil [simp]: "pb_wt [] m \<longleftrightarrow> m = []" "pb_wt fs [] \<longleftrightarrow> fs = []"
  by (cases m; simp) (cases fs; simp)

lemma pb_wt_length: "pb_wt fs m \<Longrightarrow> length fs = length m"
  by (induction fs m rule: pb_members.induct) auto

lemma scan_varint_bool: "0 < n \<Longrightarrow> scan_varint n ((if b then 1 else 0) # rest) = Unpacked (Suc 0)"
  by (cases n) simp_all

lemma scan_payload_pack:
  "pb_wt_value ty v \<Longrightarrow>
     scan_payload (pb_wire_type ty) (pb_pack_value ty v @ rest)
       = Unpacked (length (pb_pack_value ty v), pb_prefix_len ty v)"
  using uint32_pack_bounds(1) le_trans [OF uint32_pack_bounds(2), of 10] int32_pack_bounds
  by (cases ty; cases v)
     (simp_all add: scan_payload_def pb_prefix_len_def scan_varint_int32 Let_def fixed64_pack_def
        scan_length_prefixed_pack scan_varint_bool)

text \<open>The slab position after \<open>n\<close> more members, if there is one.\<close>

fun next_slots :: "nat \<Rightarrow> nat \<times> nat \<Rightarrow> (nat \<times> nat) option" where
  "next_slots 0 slot = Some slot"
| "next_slots (Suc n) slot = (case next_slot slot of None \<Rightarrow> None | Some slot' \<Rightarrow> next_slots n slot')"

lemma next_slots_add:
  "next_slots (a + b) slot = (case next_slots a slot of None \<Rightarrow> None | Some slot' \<Rightarrow> next_slots b slot')"
  by (induction a arbitrary: slot) (auto split: option.splits)

lemma scan_members_values:
  "\<lbrakk>fid < 16; list_all (pb_wt_value ty) vs\<rbrakk> \<Longrightarrow>
     scan_members slot (pb_pack_values fid ty vs @ rest)
       = (case next_slots (length vs) slot of None \<Rightarrow> Unpack_Error
          | Some slot' \<Rightarrow> map_unpacked ((@) (map (pb_member fid ty) vs)) (scan_members slot' rest))"
proof (induction vs arbitrary: slot)
  case Nil
  show ?case by (cases "scan_members slot rest") simp_all
next
  case (Cons v vs)
  let ?more = "pb_pack_value ty v @ pb_pack_values fid ty vs @ rest"
  have len: "length (tag_pack fid (pb_wire_type ty)) = 1"
    using Cons.prems by (simp add: tag_pack_small pb_wire_type_less)
  have tag: "parse_tag_and_wiretype (tag_pack fid (pb_wire_type ty) @ ?more) = Unpacked (fid, pb_wire_type ty, 1)"
    using Cons.prems by (intro parse_tag_small) (simp_all add: pb_wire_type_less)
  have pay: "scan_payload (pb_wire_type ty) ?more = Unpacked (length (pb_pack_value ty v), pb_prefix_len ty v)"
    using Cons.prems scan_payload_pack [of ty v "pb_pack_values fid ty vs @ rest"] by simp
  have ne: "tag_pack fid (pb_wire_type ty) \<noteq> []" using len by auto
  from Cons len tag pay ne show ?case
    by (simp add: scan_members.simps [of slot "tag_pack fid (pb_wire_type ty) @ ?more"] pb_member_def [of fid ty v]
        unpacked.map_comp comp_def split: option.split)
qed

lemma scan_members_pack:
  "\<lbrakk>list_all pb_desc_ok_field fs; pb_wt fs m\<rbrakk> \<Longrightarrow>
     scan_members slot (pb_pack fs m)
       = (case next_slots (length (concat m)) slot of None \<Rightarrow> Unpack_Error | Some _ \<Rightarrow> Unpacked (pb_members fs m))"
proof (induction fs m arbitrary: slot rule: pb_members.induct)
  case (1 fid lab ty fs vs m)
  then show ?case by (simp add: scan_members_values next_slots_add split: option.split)
qed (simp_all add: scan_members.simps [of _ "[]"])

text \<open>The slabs have room for \<open>2 ^ 27 - 16\<close> members altogether.\<close>

definition MAX_SCANNED_MEMBERS :: nat where "MAX_SCANNED_MEMBERS = 2 ^ 27 - 16"

lemma next_slots_room:
  "\<lbrakk>w \<le> 22; i \<le> 2 ^ (w + 4)\<rbrakk> \<Longrightarrow> next_slots n (w, i) = None \<longleftrightarrow> 2 ^ 27 < 2 ^ (w + 4) + i + n"
proof (induction n arbitrary: w i)
  case 0
  have "(2 :: nat) ^ (w + 4) \<le> 2 ^ 26" using 0(1) by (intro power_increasing) simp_all
  with 0 show ?case by simp
next
  case (Suc n)
  consider "i \<noteq> 2 ^ (w + 4)" | "i = 2 ^ (w + 4)" "w = 22" | "i = 2 ^ (w + 4)" "w \<le> 21"
    using Suc.prems(1) by fastforce
  then show ?case
  proof cases
    case 1
    then show ?thesis
      using Suc.IH [of w "Suc i"] Suc.prems by (simp add: next_slot_def FIRST_SCANNED_MEMBER_SLAB_SIZE_LOG2_def)
  next
    case 2
    then show ?thesis
      by (simp add: next_slot_def FIRST_SCANNED_MEMBER_SLAB_SIZE_LOG2_def MAX_SCANNED_MEMBER_SLAB_def)
  next
    case 3
    then have "next_slots (Suc n) (w, i) = next_slots n (Suc w, 1)"
      by (simp add: next_slot_def FIRST_SCANNED_MEMBER_SLAB_SIZE_LOG2_def MAX_SCANNED_MEMBER_SLAB_def)
    with 3 show ?thesis using Suc.IH [of "Suc w" 1] by (simp add: power_add)
  qed
qed

lemma next_slots_first: "next_slots n (0, 0) = None \<longleftrightarrow> MAX_SCANNED_MEMBERS < n"
  using next_slots_room [of 0 0 n] by (auto simp: MAX_SCANNED_MEMBERS_def)

text \<open>
  A message that the slabs can take: few enough fields at every level.
\<close>

fun pb_few_value :: "pb_value \<Rightarrow> bool" where
  "pb_few_value (PV_msg m) =
     (length (concat m) \<le> MAX_SCANNED_MEMBERS \<and> list_all (list_all pb_few_value) m)"
| "pb_few_value _ = True"

definition pb_few :: "pb_message \<Rightarrow> bool" where
  "pb_few m = pb_few_value (PV_msg m)"

lemma pb_lookup_distinct:
  "\<lbrakk>distinct (map pf_id fs); i < length fs\<rbrakk> \<Longrightarrow> pb_lookup fs (pf_id (fs ! i)) = Some i"
  by (induction fs arbitrary: i) (auto simp: less_Suc_eq_0_disj nth_Cons')

lemma pb_parse_field:
  assumes look: "pb_lookup FS fid = Some i" "FS ! i = PB_Field fid lab ty"
    and one: "lab = LABEL_OPTIONAL \<Longrightarrow> length old + length vs \<le> 1"
    and i: "i < length acc" "acc ! i = old"
    and ok: "\<And>v. v \<in> set vs \<Longrightarrow> pb_parse_required ty (pb_member fid ty v) = Unpacked v"
  shows "pb_parse_members FS (map (pb_member fid ty) vs @ sms) acc
    = pb_parse_members FS sms (acc[i := old @ vs])"
  using one i ok
proof (induction vs arbitrary: acc old)
  case Nil
  then show ?case using list_update_id [of acc i] by simp
next
  case (Cons v vs)
  have st: "pb_store_value lab ty old v = old @ [v]"
    using Cons.prems(1) by (cases lab) (auto simp: pb_store_value_def split: pb_type.splits)
  have "pb_parse_members FS (map (pb_member fid ty) (v # vs) @ sms) acc
      = pb_parse_members FS (map (pb_member fid ty) vs @ sms) (acc[i := old @ [v]])"
    using look Cons.prems st by (simp add: pb_member_def)
  also have "\<dots> = pb_parse_members FS sms (acc[i := old @ [v], i := (old @ [v]) @ vs])"
    by (rule Cons.IH) (use Cons.prems in auto)
  finally show ?case by simp
qed

lemma pb_parse_fields:
  assumes "distinct (map pf_id FS)" "FS = pre @ fs" "length am = length pre" "pb_wt fs m"
    and "\<And>f vs v. \<lbrakk>(f, vs) \<in> set (zip fs m); v \<in> set vs\<rbrakk> \<Longrightarrow>
           pb_parse_required (pf_type f) (pb_member (pf_id f) (pf_type f) v) = Unpacked v"
  shows "pb_parse_members FS (pb_members fs m) (am @ replicate (length fs) []) = Unpacked (am @ m)"
  using assms
proof (induction fs m arbitrary: pre am rule: pb_members.induct)
  case (1 fid lab ty fs vs m)
  let ?i = "length pre"
  have i: "?i < length FS" "FS ! ?i = PB_Field fid lab ty" using 1 by auto
  then have look: "pb_lookup FS fid = Some ?i"
    using pb_lookup_distinct [OF 1(2), of ?i] by simp
  have ok: "pb_parse_required ty (pb_member fid ty v) = Unpacked v" if "v \<in> set vs" for v
    using 1(6) [of "PB_Field fid lab ty" vs v] that by simp
  have "pb_parse_members FS (map (pb_member fid ty) vs @ pb_members fs m)
          (am @ [] # replicate (length fs) [])
      = pb_parse_members FS (pb_members fs m) ((am @ [] # replicate (length fs) [])[?i := [] @ vs])"
    by (rule pb_parse_field [OF look i(2)]) (use 1(4,5) ok in \<open>auto simp: nth_append\<close>)
  also have "(am @ [] # replicate (length fs) [])[?i := [] @ vs] = (am @ [vs]) @ replicate (length fs) []"
    using 1(4) by (simp add: list_update_append)
  also have "pb_parse_members FS (pb_members fs m) \<dots> = Unpacked ((am @ [vs]) @ m)"
  proof (rule 1(1) [OF 1(2), of "pre @ [PB_Field fid lab ty]"])
    show "FS = (pre @ [PB_Field fid lab ty]) @ fs" using 1(3) by simp
    show "length (am @ [vs]) = length (pre @ [PB_Field fid lab ty])" using 1(4) by simp
    show "pb_wt fs m" using 1(5) by simp
    show "\<And>f ws v. \<lbrakk>(f, ws) \<in> set (zip fs m); v \<in> set ws\<rbrakk> \<Longrightarrow>
        pb_parse_required (pf_type f) (pb_member (pf_id f) (pf_type f) v) = Unpacked v"
      by (rule 1(6)) auto
  qed
  finally show ?case by simp
qed auto

lemma pb_members_set:
  "set (pb_members fs m) = (\<Union>(f, vs) \<in> set (zip fs m). pb_member (pf_id f) (pf_type f) ` set vs)"
  by (induction fs m rule: pb_members.induct) auto

lemma pb_parse_members_error:
  assumes "\<And>sm i. \<lbrakk>sm \<in> set sms; pb_lookup FS (sm_tag sm) = Some i\<rbrakk> \<Longrightarrow>
      pb_parse_required (pf_type (FS ! i)) sm \<noteq> Unpack_Fault"
    and "sm \<in> set sms" "pb_lookup FS (sm_tag sm) = Some i" "pb_parse_required (pf_type (FS ! i)) sm = Unpack_Error"
  shows "pb_parse_members FS sms acc = Unpack_Error"
  using assms(1,2)
proof (induction sms arbitrary: acc)
  case (Cons x sms)
  show ?case
  proof (cases "x = sm")
    case True
    with assms(3,4) show ?thesis by simp
  next
    case False
    with Cons.prems(2) have "sm \<in> set sms" by simp
    with Cons have "pb_parse_members FS sms acc' = Unpack_Error" for acc' by simp
    with Cons.prems(1) [of x] show ?thesis by (auto split: option.split unpacked.split)
  qed
qed simp

lemma pb_lookup_mem:
  assumes "distinct (map pf_id fs)" "f \<in> set fs"
  obtains i where "pb_lookup fs (pf_id f) = Some i" "fs ! i = f"
  using assms pb_lookup_distinct by (metis in_set_conv_nth)

lemma pb_few_iff:
  "pb_few m \<longleftrightarrow> length (concat m) \<le> MAX_SCANNED_MEMBERS \<and> (\<forall>vs \<in> set m. \<forall>v \<in> set vs. pb_few_value v)"
  by (simp add: pb_few_def list_all_iff)

lemma pb_unpack_pack_aux:
  assumes ok: "pb_desc_ok fs" "pb_wt fs m"
    and parse: "\<And>f vs v. \<lbrakk>(f, vs) \<in> set (zip fs m); v \<in> set vs\<rbrakk> \<Longrightarrow>
           pb_parse_required (pf_type f) (pb_member (pf_id f) (pf_type f) v)
             = (if pb_few_value v then Unpacked v else Unpack_Error)"
  shows "pb_unpack fs (pb_pack fs m) = (if pb_few m then Unpacked m else Unpack_Error)"
proof -
  have desc: "distinct (map pf_id fs)" "list_all pb_desc_ok_field fs"
    using ok(1) by (simp_all add: pb_desc_ok_def list.pred_map comp_def)
  note scan = scan_members_pack [OF desc(2) ok(2), of "(0, 0)"]
  consider "MAX_SCANNED_MEMBERS < length (concat m)"
    | "length (concat m) \<le> MAX_SCANNED_MEMBERS" "\<forall>vs \<in> set m. \<forall>v \<in> set vs. pb_few_value v"
    | vs v where "length (concat m) \<le> MAX_SCANNED_MEMBERS" "vs \<in> set m" "v \<in> set vs" "\<not> pb_few_value v"
    using not_le by blast
  then show ?thesis
  proof cases
    case 1
    then show ?thesis using scan next_slots_first [of "length (concat m)"] by (auto simp: pb_few_iff)
  next
    case 2
    then have few: "pb_few m" by (simp add: pb_few_iff)
    obtain slot where "next_slots (length (concat m)) (0, 0) = Some slot"
      using 2(1) next_slots_first [of "length (concat m)"] by fastforce
    moreover have "pb_parse_members fs (pb_members fs m) ([] @ replicate (length fs) []) = Unpacked ([] @ m)"
      by (rule pb_parse_fields [of fs "[]"])
         (use desc(1) ok(2) parse 2(2) in \<open>auto dest: set_zip_rightD\<close>)
    ultimately show ?thesis using scan few by simp
  next
    case 3
    obtain slot where slot: "next_slots (length (concat m)) (0, 0) = Some slot"
      using 3(1) next_slots_first [of "length (concat m)"] by fastforce
    obtain f where f: "(f, vs) \<in> set (zip fs m)"
      using 3(2) pb_wt_length [OF ok(2)] by (metis in_set_impl_in_set_zip2)
    then obtain i where i: "pb_lookup fs (pf_id f) = Some i" "fs ! i = f"
      using pb_lookup_mem [OF desc(1)] by (metis set_zip_leftD)
    have "pb_parse_members fs (pb_members fs m) (replicate (length fs) []) = Unpack_Error"
    proof (rule pb_parse_members_error)
      fix sm k
      assume "sm \<in> set (pb_members fs m)" "pb_lookup fs (sm_tag sm) = Some k"
      then obtain g ws w where g: "(g, ws) \<in> set (zip fs m)" "w \<in> set ws" "sm = pb_member (pf_id g) (pf_type g) w"
        "pb_lookup fs (pf_id g) = Some k" by (auto simp: pb_members_set pb_member_def)
      then have "fs ! k = g"
        using pb_lookup_mem [OF desc(1) set_zip_leftD [OF g(1)]] by (metis option.inject)
      then show "pb_parse_required (pf_type (fs ! k)) sm \<noteq> Unpack_Fault" using parse [OF g(1,2)] g(3) by simp
    next
      show "pb_member (pf_id f) (pf_type f) v \<in> set (pb_members fs m)"
        using f 3(3) by (auto simp: pb_members_set)
      show "pb_lookup fs (sm_tag (pb_member (pf_id f) (pf_type f) v)) = Some i"
        using i by (simp add: pb_member_def)
      show "pb_parse_required (pf_type (fs ! i)) (pb_member (pf_id f) (pf_type f) v) = Unpack_Error"
        using parse [OF f 3(3)] 3(4) i(2) by simp
    qed
    moreover have "\<not> pb_few m" using 3 by (auto simp: pb_few_iff)
    ultimately show ?thesis using scan slot by simp
  qed
qed

lemma pb_wt_zip: "\<lbrakk>pb_wt fs m; (f, vs) \<in> set (zip fs m); v \<in> set vs\<rbrakk> \<Longrightarrow> pb_wt_value (pf_type f) v"
  by (induction fs m rule: pb_members.induct) (auto simp: list_all_iff)

lemma pb_desc_ok_mem: "\<lbrakk>pb_desc_ok fs; f \<in> set fs\<rbrakk> \<Longrightarrow> pb_desc_ok_type (pf_type f)"
  by (cases f) (auto simp: pb_desc_ok_def list_all_iff)

lemma pb_parse_required_pack:
  "\<lbrakk>pb_desc_ok_type ty; pb_wt_value ty v\<rbrakk> \<Longrightarrow>
     pb_parse_required ty (pb_member fid ty v) = (if pb_few_value v then Unpacked v else Unpack_Error)"
proof (induction v arbitrary: ty fid)
  case (PV_msg m)
  then obtain fs where ty: "ty = TYPE_MESSAGE fs" by (cases ty) auto
  with PV_msg.prems have ok: "pb_desc_ok fs" "pb_wt fs m" by (auto simp: pb_desc_ok_def)
  have "pb_unpack fs (pb_pack fs m) = (if pb_few m then Unpacked m else Unpack_Error)"
  proof (rule pb_unpack_pack_aux [OF ok])
    fix f vs v
    assume fv: "(f, vs) \<in> set (zip fs m)" "v \<in> set vs"
    then have "f \<in> set fs" "vs \<in> set m" by (auto dest: set_zip_leftD set_zip_rightD)
    with PV_msg.IH [OF \<open>vs \<in> set m\<close> fv(2)] pb_wt_zip [OF ok(2) fv] pb_desc_ok_mem [OF ok(1)]
    show "pb_parse_required (pf_type f) (pb_member (pf_id f) (pf_type f) v)
        = (if pb_few_value v then Unpacked v else Unpack_Error)" by blast
  qed
  then show ?case using ty by (simp add: pb_member_def pb_prefix_len_def Let_def pb_few_def)
next
  case (PV_32 x)
  then show ?case
    using uint32_pack_bounds(1) [of x] int32_pack_bounds(1) [of x]
    by (cases ty) (simp_all add: pb_member_def parse_int32_pack)
next
  case (PV_bool x)
  then show ?case by (cases ty) (simp_all add: pb_member_def parse_boolean_def)
next
  case (PV_64 x)
  then show ?case by (cases ty) (simp_all add: pb_member_def parse_fixed64_pack)
next
  case (PV_bytes x)
  then show ?case by (cases ty) (simp_all add: pb_member_def pb_prefix_len_def)
qed

lemma pb_unpack_pack:
  assumes "pb_desc_ok fs" "pb_wt fs m"
  shows "pb_unpack fs (pb_pack fs m) = (if pb_few m then Unpacked m else Unpack_Error)"
proof (rule pb_unpack_pack_aux [OF assms])
  fix f vs v
  assume fv: "(f, vs) \<in> set (zip fs m)" "v \<in> set vs"
  then show "pb_parse_required (pf_type f) (pb_member (pf_id f) (pf_type f) v)
      = (if pb_few_value v then Unpacked v else Unpack_Error)"
    by (intro pb_parse_required_pack pb_desc_ok_mem [OF assms(1)] pb_wt_zip [OF assms(2)])
       (auto dest: set_zip_leftD)
qed

section \<open>Unpacking stays inside its input\<close>

text \<open>
  The bytes of a length prefix show in the bits of the number read from it.
\<close>

lemma length_prefix_from_bits:
  assumes "length_prefix_from n s acc i d = Unpacked (v, h)"
  shows "i < h \<and> h \<le> i + n \<and> h \<le> i + length d
    \<and> (\<forall>m. bit v m \<longrightarrow> m < s + 7 * (h - i) \<or> bit acc m)
    \<and> (\<forall>m < s. bit v m = bit acc m)
    \<and> (\<forall>j b. j < h - i \<longrightarrow> b < 7 \<longrightarrow> s + 7 * j + b < 32 \<longrightarrow>
          bit v (s + 7 * j + b) = (bit acc (s + 7 * j + b) \<or> bit (d ! j) b))"
  using assms
proof (induction n s acc i d rule: length_prefix_from.induct)
  case (3 n s acc i b d)
  let ?val = "acc OR push_bit s (ucast (b AND 0x7f))"
  show ?case
  proof (cases "b AND 0x80 = 0")
    case True
    with 3(2) show ?thesis by (auto simp: Let_def bit_simps)
  next
    case False
    with 3(2) have "length_prefix_from n (s + 7) ?val (Suc i) d = Unpacked (v, h)" by (simp add: Let_def)
    note IH = 3(1) [OF refl False this]
    have "bit v (s + 7 * j + k) = (bit acc (s + 7 * j + k) \<or> bit ((b # d) ! j) k)"
      if "j < h - i" "k < 7" "s + 7 * j + k < 32" for j k
      using IH that by (cases j) (auto simp: bit_simps add.assoc add.left_commute)
    with IH show ?thesis by (auto simp: bit_simps)
  qed
qed auto

lemma word_upper_bits:
  "\<lbrakk>2 ^ 32 - 8 \<le> unat (v :: u32); 3 \<le> k; k < 32\<rbrakk> \<Longrightarrow> bit v k"
proof -
  assume a: "2 ^ 32 - 8 \<le> unat v" "3 \<le> k" "k < 32"
  have "NOT v = - 1 - v" by (simp add: not_eq_complement)
  then have "unat (NOT v) = unat (- 1 :: u32) - unat v" by (simp add: unat_sub word_order.extremum)
  then have "NOT v \<le> 7" using a(1) by (simp add: word_le_nat_alt unsigned_minus_1_eq_mask mask_eq_exp_minus_1)
  then have "\<not> bit (NOT v) k"
    using high_bits_zero [of "NOT v" 3 k] a(2) by (simp add: word_le_nat_alt)
  with a(3) show "bit v k" by (simp add: bit_simps)
qed

lemma byte_wire_7: "\<lbrakk>bit (b :: u8) 0; bit b 1; bit b 2\<rbrakk> \<Longrightarrow> b AND 7 = 7"
  by (rule bit_word_eqI) (auto simp: bit_simps less_Suc_eq numeral_eq_Suc)

lemma parse_tag_wire:
  "parse_tag_and_wiretype d = Unpacked (t, w, used) \<Longrightarrow> w = hd d AND 7"
  by (cases d) (auto simp: parse_tag_and_wiretype_def Let_def split: if_splits)

text \<open>The loops of the scanners stay within the bytes that are left.\<close>

lemma scan_varint_no_fault: "n \<le> length d \<Longrightarrow> scan_varint n d \<noteq> Unpack_Fault"
  by (induction n d rule: scan_varint.induct) auto

lemma scan_varint_used: "scan_varint n d = Unpacked k \<Longrightarrow> 0 < k \<and> k \<le> n"
  by (induction n d arbitrary: k rule: scan_varint.induct) (auto split: if_splits)

lemma parse_tag_from_no_fault: "n \<le> length d \<Longrightarrow> parse_tag_from n tag s rv d \<noteq> Unpack_Fault"
  by (induction n tag s rv d rule: parse_tag_from.induct) auto

lemma parse_tag_no_fault: "d \<noteq> [] \<Longrightarrow> parse_tag_and_wiretype d \<noteq> Unpack_Fault"
  using parse_tag_from_no_fault [of _ "tl d"]
  by (cases d) (auto simp: parse_tag_and_wiretype_def Let_def)

lemma length_prefix_no_fault: "n \<le> length d \<Longrightarrow> length_prefix_from n s acc i d \<noteq> Unpack_Fault"
  by (induction n s acc i d rule: length_prefix_from.induct) (auto simp: Let_def)

lemma scan_length_prefixed_no_fault: "scan_length_prefixed_data d \<noteq> Unpack_Fault"
  using length_prefix_no_fault [of "length d" d 0 0 0] length_prefix_no_fault [of 5 d 0 0 0]
  by (cases "length d < 5") (auto simp: scan_length_prefixed_data_def Let_def split: unpacked.splits)

lemma scan_payload_no_fault: "scan_payload w d \<noteq> Unpack_Fault"
  using scan_varint_no_fault [of "length d" d] scan_varint_no_fault [of 10 d]
  by (auto simp: scan_payload_def scan_length_prefixed_no_fault)

lemma scan_length_prefixed_used:
  "scan_length_prefixed_data d = Unpacked (len, pref) \<Longrightarrow> len \<le> length d"
  by (auto simp: scan_length_prefixed_data_def Let_def split: unpacked.splits if_splits)

text \<open>Every payload lies within the bytes that are left, and has the size its wire type needs.\<close>

lemma scan_payload_used:
  assumes "scan_payload w d = Unpacked (len, pref)"
  shows "len \<le> length d" "w = 0 \<Longrightarrow> 0 < len" "w = 1 \<Longrightarrow> len = 8" "w \<noteq> 2 \<Longrightarrow> pref = 0"
    "w = 2 \<Longrightarrow> scan_length_prefixed_data d = Unpacked (len, pref)"
  using assms scan_varint_used scan_length_prefixed_used
  by (fastforce simp: scan_payload_def split: if_splits)+

lemma scan_members_wire_7: "\<lbrakk>d \<noteq> []; hd d AND 7 = 7\<rbrakk> \<Longrightarrow> scan_members slot d = Unpack_Error"
  using parse_tag_no_fault [of d]
  by (auto simp: scan_members.simps [of slot d] scan_payload_def split: unpacked.splits dest!: parse_tag_wire)

text \<open>
  The 32-bit sum of prefix length and payload length can wrap, and such a member passes
  the length check.  Its prefix then consists of one bits from bit 3 on, so the scan goes
  on at a byte of the prefix whose wire type is 7, and fails there.
\<close>

lemma scan_length_prefixed_wrap:
  assumes "scan_length_prefixed_data d = Unpacked (len, pref)" "len < pref"
  shows "scan_members slot (drop len d) = Unpack_Error"
proof -
  from assms obtain v n where pre: "length_prefix_from n 0 0 0 d = Unpacked (v, pref)" and n: "n \<le> 5"
    and len: "len = unat (of_nat pref + v)" "len \<noteq> 0" "len \<le> length d"
    by (auto simp: scan_length_prefixed_data_def Let_def unat_eq_0 split: unpacked.splits if_splits)
  note bits = length_prefix_from_bits [OF pre]
  have sum: "unat (of_nat pref + v) = (pref + unat v) mod 2 ^ 32"
    using bits n by (simp add: unat_word_ariths unat_of_nat take_bit_nat_eq_self)
  have wrap: "2 ^ 32 \<le> pref + unat v"
    using sum assms(2) len(1) by (cases "pref + unat v < 2 ^ 32") auto
  with bits n have big: "2 ^ 32 - 8 \<le> unat v" by simp
  have five: "pref = 5"
  proof (rule ccontr)
    assume "pref \<noteq> 5"
    then have "31 \<ge> 7 * pref" using bits n by simp
    moreover have "bit v 31" using big by (rule word_upper_bits) simp_all
    ultimately show False using bits by force
  qed
  have at: "bit (d ! len) k" if "k < 3" for k
  proof -
    have "bit v (7 * len + k)" using big by (rule word_upper_bits) (use len assms(2) five that in auto)
    moreover have "7 * len + k < 32" using assms(2) five that by simp
    ultimately show ?thesis using bits five assms(2) that by auto
  qed
  have "len < length d" using bits five assms(2) by simp
  then have "drop len d \<noteq> []" "hd (drop len d) = d ! len" by (simp_all add: hd_drop_conv_nth)
  then show ?thesis using scan_members_wire_7 byte_wire_7 [OF at at at] by simp
qed

text \<open>
  The scan has no fault, and what it hands to the parsers is large enough for what they
  read without looking at the length.
\<close>

definition member_ok :: "scanned_member \<Rightarrow> bool" where
  "member_ok sm \<longleftrightarrow> sm_length_prefix_len sm \<le> length (sm_data sm) \<and>
     (sm_wire_type sm = 0 \<longrightarrow> sm_data sm \<noteq> []) \<and> (sm_wire_type sm = 1 \<longrightarrow> 8 \<le> length (sm_data sm))"

lemma scan_members_no_fault: "scan_members slot d \<noteq> Unpack_Fault"
proof (induction slot d rule: scan_members.induct)
  case (1 slot d)
  show ?case
  proof (cases "d = []")
    case False
    have "(if length (drop used d) < len then Unpack_Fault else map_unpacked f (scan_members slot' (drop len (drop used d))))
        \<noteq> Unpack_Fault"
      if "parse_tag_and_wiretype d = Unpacked (tag, wire, used)"
        "scan_payload wire (drop used d) = Unpacked (len, pref)" "next_slot slot = Some slot'"
      for tag wire used len pref slot' and f :: "scanned_member list \<Rightarrow> scanned_member list"
      using 1 [OF False that(1) refl refl that(2) refl that(3)] scan_payload_used(1) [OF that(2)] by simp
    then show ?thesis
      using False parse_tag_no_fault [OF False] scan_payload_no_fault
      by (simp add: scan_members.simps [of slot d] split: unpacked.split option.split)
  qed (simp add: scan_members.simps)
qed

lemma scan_members_ok:
  "scan_members slot d = Unpacked ms \<Longrightarrow> sm \<in> set ms \<Longrightarrow> member_ok sm"
proof (induction slot d arbitrary: ms rule: scan_members.induct)
  case (1 slot d)
  show ?case
  proof (cases "d = []")
    case True
    with 1 show ?thesis by (simp add: scan_members.simps)
  next
    case False
    with 1(2) obtain tag wire used len pref slot' ms'
      where tag: "parse_tag_and_wiretype d = Unpacked (tag, wire, used)"
        and pay: "scan_payload wire (drop used d) = Unpacked (len, pref)"
        and slot: "next_slot slot = Some slot'" and le: "\<not> length (drop used d) < len"
        and rest: "scan_members slot' (drop len (drop used d)) = Unpacked ms'"
        and ms: "ms = \<lparr>sm_tag = tag, sm_wire_type = wire, sm_length_prefix_len = pref,
                        sm_data = take len (drop used d)\<rparr> # ms'"
      by (auto simp: scan_members.simps [of slot d] split: unpacked.splits option.splits if_splits)
    note used = scan_payload_used [OF pay]
    have "pref \<le> len"
      using used(4,5) scan_length_prefixed_wrap [of "drop used d" len pref slot'] rest
      by (cases "wire = 2") (auto simp: not_le [symmetric])
    with used le have "member_ok (hd ms)" by (auto simp: ms member_ok_def)
    moreover have "member_ok sm" if "sm \<in> set ms'"
      using 1(1) [OF False tag refl refl pay refl slot le rest that] .
    ultimately show ?thesis using 1(3) ms by auto
  qed
qed

lemma pb_no_fault:
  "member_ok sm \<Longrightarrow> pb_parse_required ty sm \<noteq> Unpack_Fault"
  "(\<forall>sm \<in> set sms. member_ok sm) \<Longrightarrow> pb_parse_members fs sms acc \<noteq> Unpack_Fault"
  "pb_unpack fs d \<noteq> Unpack_Fault"
proof (induction ty sm and fs sms acc and fs d rule: pb_parse_required_pb_parse_members_pb_unpack.induct)
  case (8 fs sm sms acc)
  then show ?case by (auto split: option.splits unpacked.splits)
next
  case (9 fs d)
  then show ?case by (auto simp: scan_members_no_fault split: unpacked.splits dest: scan_members_ok)
qed (auto simp: member_ok_def not_le [symmetric] split: unpacked.splits)

section \<open>Messages that fit their descriptor\<close>

text \<open>
  \<open>pb_fits\<close> is the part of \<open>pb_wt\<close> that the generated C types guarantee.  The length
  bounds of the inner parts follow from a bound on the whole, because every part is
  written inside it.
\<close>

fun pb_fits_value :: "pb_type \<Rightarrow> pb_value \<Rightarrow> bool"
and pb_fits :: "pb_field list \<Rightarrow> pb_message \<Rightarrow> bool" where
  "pb_fits_value TYPE_UINT32 (PV_32 v) = True"
| "pb_fits_value TYPE_INT32 (PV_32 v) = True"
| "pb_fits_value TYPE_BOOL (PV_bool b) = True"
| "pb_fits_value TYPE_FIXED64 (PV_64 v) = True"
| "pb_fits_value TYPE_BYTES (PV_bytes bs) = True"
| "pb_fits_value (TYPE_MESSAGE fs) (PV_msg m) = pb_fits fs m"
| "pb_fits_value _ _ = False"
| "pb_fits [] [] = True"
| "pb_fits (PB_Field fid lab ty # fs) (vs # m) =
     (list_all (pb_fits_value ty) vs \<and> (lab = LABEL_OPTIONAL \<longrightarrow> length vs \<le> 1) \<and> pb_fits fs m)"
| "pb_fits _ _ = False"

lemma pb_fits_Nil [simp]: "pb_fits [] m \<longleftrightarrow> m = []" "pb_fits fs [] \<longleftrightarrow> fs = []"
  by (cases m; simp) (cases fs; simp)

lemma pb_pack_values_part:
  "v \<in> set vs \<Longrightarrow> length (pb_pack_value ty v) \<le> length (pb_pack_values fid ty vs)"
  by (induction vs) auto

lemma pb_fits_wt:
  "\<lbrakk>pb_fits_value ty v; length (pb_pack_value ty v) < 2 ^ 31\<rbrakk> \<Longrightarrow> pb_wt_value ty v"
  "\<lbrakk>pb_fits fs m; length (pb_pack fs m) < 2 ^ 31\<rbrakk> \<Longrightarrow> pb_wt fs m"
proof (induction ty v and fs m rule: pb_fits_value_pb_fits.induct)
  case (9 fid lab ty fs vs m)
  have "pb_wt_value ty v" if "v \<in> set vs" for v
    using 9 that pb_pack_values_part [OF that, of ty fid] by (auto simp: list_all_iff)
  with 9 show ?case by (auto simp: list_all_iff)
qed (auto simp: Let_def)

text \<open>
  When the slabs suffice.  Every member takes two bytes, so a message of at most
  \<open>2 ^ 28 - 32\<close> bytes has few enough; and so has a message of any size whose type has no
  repeated field, at any level.
\<close>

lemma pb_pack_value_pos:
  "pb_fits_value ty v \<Longrightarrow> 1 \<le> length (pb_pack_value ty v)"
  using uint32_pack_bounds(1) int32_pack_bounds(1)
  by (cases ty; cases v) (simp_all add: Let_def Suc_le_eq)

lemma pb_pack_values_count:
  "\<lbrakk>fid < 16; list_all (pb_fits_value ty) vs\<rbrakk> \<Longrightarrow> 2 * length vs \<le> length (pb_pack_values fid ty vs)"
proof (induction vs)
  case (Cons v vs)
  then show ?case
    using pb_pack_value_pos [of ty v] by (simp add: tag_pack_small pb_wire_type_less)
qed simp

lemma pb_pack_count:
  "\<lbrakk>list_all pb_desc_ok_field fs; pb_fits fs m\<rbrakk> \<Longrightarrow> 2 * length (concat m) \<le> length (pb_pack fs m)"
proof (induction fs m rule: pb_members.induct)
  case (1 fid lab ty fs vs m)
  then show ?case using pb_pack_values_count [of fid ty vs] by simp
qed auto

lemma pb_small_few:
  "\<lbrakk>pb_desc_ok_type ty; pb_fits_value ty v; length (pb_pack_value ty v) \<le> 2 ^ 28 - 32\<rbrakk> \<Longrightarrow> pb_few_value v"
  "\<lbrakk>list_all pb_desc_ok_field fs; pb_fits fs m; length (pb_pack fs m) \<le> 2 ^ 28 - 32\<rbrakk> \<Longrightarrow>
     list_all (list_all pb_few_value) m"
proof (induction ty v and fs m rule: pb_fits_value_pb_fits.induct)
  case (6 fs m)
  then have "2 * length (concat m) \<le> length (pb_pack fs m)"
    by (intro pb_pack_count) (simp_all add: list.pred_map comp_def)
  with 6 show ?case by (simp add: MAX_SCANNED_MEMBERS_def list.pred_map comp_def Let_def)
next
  case (9 fid lab ty fs vs m)
  have "pb_few_value v" if "v \<in> set vs" for v
    using 9 that pb_pack_values_part [OF that, of ty fid] by (auto simp: list_all_iff)
  with 9 show ?case by (auto simp: list_all_iff)
qed (simp_all add: Let_def)

lemma pb_few_small:
  assumes "pb_desc_ok fs" "pb_fits fs m" "length (pb_pack fs m) \<le> 2 ^ 28 - 32"
  shows "pb_few m"
  using assms pb_small_few(2) [of fs m] pb_pack_count [of fs m]
  by (simp add: pb_few_def pb_desc_ok_def list.pred_map comp_def MAX_SCANNED_MEMBERS_def)

primrec pb_singular_type :: "pb_type \<Rightarrow> bool" and pb_singular_field :: "pb_field \<Rightarrow> bool" where
  "pb_singular_type TYPE_UINT32 = True"
| "pb_singular_type TYPE_INT32 = True"
| "pb_singular_type TYPE_BOOL = True"
| "pb_singular_type TYPE_FIXED64 = True"
| "pb_singular_type TYPE_BYTES = True"
| "pb_singular_type (TYPE_MESSAGE fs) = list_all (\<lambda>b. b) (map pb_singular_field fs)"
| "pb_singular_field (PB_Field fid lab ty) = (lab = LABEL_OPTIONAL \<and> pb_singular_type ty)"

lemma pb_desc_ok_length: "pb_desc_ok fs \<Longrightarrow> length fs \<le> 16"
proof -
  assume ok: "pb_desc_ok fs"
  have "pf_id f < 16" if "f \<in> set fs" for f
    using ok that by (cases f) (auto simp: pb_desc_ok_def list_all_iff)
  then have "set (map (\<lambda>f. unat (pf_id f)) fs) \<subseteq> {..<16}" by (auto simp: word_less_nat_alt)
  then have le: "card (set (map (\<lambda>f. unat (pf_id f)) fs)) \<le> card {..<16 :: nat}"
    by (rule card_mono [OF finite_lessThan])
  have "distinct (map (\<lambda>f. unat (pf_id f)) fs)"
    using ok by (auto simp: pb_desc_ok_def distinct_map inj_on_def word_unat_eq_iff)
  from distinct_card [OF this] le show ?thesis by simp
qed

lemma pb_singular_few:
  "\<lbrakk>pb_desc_ok_type ty; pb_singular_type ty; pb_fits_value ty v\<rbrakk> \<Longrightarrow> pb_few_value v"
  "\<lbrakk>list_all pb_desc_ok_field fs; list_all pb_singular_field fs; pb_fits fs m\<rbrakk> \<Longrightarrow>
     length (concat m) \<le> length fs \<and> list_all (list_all pb_few_value) m"
proof (induction ty v and fs m rule: pb_fits_value_pb_fits.induct)
  case (6 fs m)
  then show ?case
    using pb_desc_ok_length [of fs]
    by (simp add: MAX_SCANNED_MEMBERS_def pb_desc_ok_def list.pred_map comp_def)
next
  case (9 fid lab ty fs vs m)
  then show ?case by (auto simp: list_all_iff)
qed simp_all

lemma pb_few_singular:
  assumes "pb_desc_ok fs" "pb_singular_type (TYPE_MESSAGE fs)" "pb_fits fs m"
  shows "pb_few m"
  using assms pb_singular_few(2) [of fs m] pb_desc_ok_length [of fs]
  by (simp add: pb_few_def pb_desc_ok_def list.pred_map comp_def MAX_SCANNED_MEMBERS_def)

section \<open>The contract of a codec\<close>

text \<open>
  \<^verbatim>\<open>x__get_packed_size\<close>, allocation, \<^verbatim>\<open>x__pack\<close> and the comparison of the two sizes, the
  sequence every \<^verbatim>\<open>*_serialize\<close> of the library runs; and \<^verbatim>\<open>x__unpack\<close> with its null result.
\<close>

definition pb_serialize :: "pb_field list \<Rightarrow> pb_message \<Rightarrow> bytes result" where
  "pb_serialize fs m =
     (if length (pb_pack fs m) \<noteq> pb_get_packed_size fs m then Inl SG_ERR_INVALID_PROTO_BUF
      else Inr (pb_pack fs m))"

definition pb_deserialize :: "pb_field list \<Rightarrow> bytes \<Rightarrow> pb_message result" where
  "pb_deserialize fs d =
     (case pb_unpack fs d of
        Unpacked m \<Rightarrow> Inr m | Unpack_Error \<Rightarrow> Inl SG_ERR_INVALID_PROTO_BUF
      | Unpack_Fault \<Rightarrow> Inl C_UNDEFINED)"

lemma pb_deserialize_defined: "pb_deserialize fs d \<noteq> Inl C_UNDEFINED"
  using pb_no_fault(3) [of fs d] by (auto simp: pb_deserialize_def split: unpacked.splits)

text \<open>
  A generated message type: its descriptor, and the passage between the C struct and the
  generic message.  Serialising never reports a size mismatch, and what is serialised in
  at most \<open>2 ^ 28 - 32\<close> bytes is read back.
\<close>

locale pb_codec =
  fixes desc :: "pb_field list"
    and to_pb :: "'s \<Rightarrow> pb_message"
    and of_pb :: "pb_message \<Rightarrow> 's"
  assumes desc_ok: "pb_desc_ok desc"
    and fits: "pb_fits desc (to_pb s)"
    and of_to: "of_pb (to_pb s) = s"
begin

lemma serialize_ok: "pb_serialize desc (to_pb s) = Inr (pb_pack desc (to_pb s))"
  using pb_packed_size_pack(3) [of desc "to_pb s"] desc_ok
  by (simp add: pb_serialize_def pb_desc_ok_def list.pred_map comp_def)

lemma deserialize_few:
  "\<lbrakk>pb_serialize desc (to_pb s) = Inr d; length d < 2 ^ 31; pb_few (to_pb s)\<rbrakk> \<Longrightarrow>
     pb_deserialize desc d = Inr (to_pb s) \<and> of_pb (to_pb s) = s"
  using pb_unpack_pack [OF desc_ok pb_fits_wt(2) [OF fits]]
  by (auto simp: serialize_ok pb_deserialize_def of_to)

lemma deserialize_small:
  "\<lbrakk>pb_serialize desc (to_pb s) = Inr d; length d \<le> 2 ^ 28 - 32\<rbrakk> \<Longrightarrow>
     pb_deserialize desc d = Inr (to_pb s) \<and> of_pb (to_pb s) = s"
  using deserialize_few [of s d] pb_few_small [OF desc_ok fits, of s] by (simp add: serialize_ok)

end

text \<open>
  A type without repeated fields is read back up to \<open>2 ^ 31\<close> bytes.
\<close>

locale pb_flat_codec = pb_codec +
  assumes singular: "pb_singular_type (TYPE_MESSAGE desc)"
begin

lemma deserialize_serialize:
  "\<lbrakk>pb_serialize desc (to_pb s) = Inr d; length d < 2 ^ 31\<rbrakk> \<Longrightarrow>
     pb_deserialize desc d = Inr (to_pb s) \<and> of_pb (to_pb s) = s"
  using deserialize_few pb_few_singular [OF desc_ok singular fits] by blast

lemma serialize_inject:
  "\<lbrakk>pb_serialize desc (to_pb s) = Inr d; pb_serialize desc (to_pb t) = Inr d; length d < 2 ^ 31\<rbrakk> \<Longrightarrow> s = t"
  using deserialize_serialize [of s d] deserialize_serialize [of t d] by (metis sum.inject(2))

end

section \<open>Reading and writing single fields\<close>

definition pb_opt :: "('a \<Rightarrow> pb_value) \<Rightarrow> 'a option \<Rightarrow> pb_value list" where
  "pb_opt con x = (case x of None \<Rightarrow> [] | Some v \<Rightarrow> [con v])"

fun pb_get_32 :: "pb_value list \<Rightarrow> u32 option" where
  "pb_get_32 [PV_32 v] = Some v"
| "pb_get_32 _ = None"

fun pb_get_64 :: "pb_value list \<Rightarrow> u64 option" where
  "pb_get_64 [PV_64 v] = Some v"
| "pb_get_64 _ = None"

fun pb_get_bool :: "pb_value list \<Rightarrow> bool option" where
  "pb_get_bool [PV_bool v] = Some v"
| "pb_get_bool _ = None"

fun pb_get_bytes :: "pb_value list \<Rightarrow> bytes option" where
  "pb_get_bytes [PV_bytes v] = Some v"
| "pb_get_bytes _ = None"

fun pb_get_msg :: "(pb_message \<Rightarrow> 'a) \<Rightarrow> pb_value list \<Rightarrow> 'a option" where
  "pb_get_msg f [PV_msg m] = Some (f m)"
| "pb_get_msg f _ = None"

fun pb_get_msgs :: "(pb_message \<Rightarrow> 'a) \<Rightarrow> pb_value list \<Rightarrow> 'a list" where
  "pb_get_msgs f (PV_msg m # vs) = f m # pb_get_msgs f vs"
| "pb_get_msgs f _ = []"

lemma pb_get_opt [simp]:
  "pb_get_32 (pb_opt PV_32 a) = a" "pb_get_64 (pb_opt PV_64 b) = b"
  "pb_get_bool (pb_opt PV_bool c) = c" "pb_get_bytes (pb_opt PV_bytes d) = d"
  by (simp_all add: pb_opt_def split: option.split)

lemma pb_get_msg_opt [simp]:
  "(\<And>x. g (f x) = x) \<Longrightarrow> pb_get_msg g (pb_opt (\<lambda>x. PV_msg (f x)) a) = a"
  by (cases a) (simp_all add: pb_opt_def)

lemma pb_get_msgs_map [simp]:
  "(\<And>x. g (f x) = x) \<Longrightarrow> pb_get_msgs g (map (\<lambda>x. PV_msg (f x)) xs) = xs"
  by (induction xs) simp_all

lemma pb_opt_length [simp]: "length (pb_opt f a) \<le> Suc 0"
  by (cases a) (simp_all add: pb_opt_def)

lemma pb_opt_fits [simp]:
  "list_all (pb_fits_value ty) (pb_opt con a) \<longleftrightarrow> (case a of None \<Rightarrow> True | Some x \<Rightarrow> pb_fits_value ty (con x))"
  by (cases a) (simp_all add: pb_opt_def)

lemma pb_map_fits [simp]:
  "(\<And>x. pb_fits_value ty (con x)) \<Longrightarrow> list_all (pb_fits_value ty) (map (\<lambda>x. con x) xs)"
  by (induction xs) simp_all

section \<open>Bounds on the packed size\<close>

named_theorems pb_bounds \<open>how much room the occurrences of a field take at most\<close>

lemma pb_bound_32 [pb_bounds]:
  "fid < 16 \<Longrightarrow> length (pb_pack_values fid TYPE_UINT32 (pb_opt PV_32 a)) \<le> 6"
  using uint32_pack_bounds by (cases a) (auto simp: pb_opt_def tag_pack_small word_less_nat_alt)

lemma pb_bound_int32 [pb_bounds]:
  "fid < 16 \<Longrightarrow> length (pb_pack_values fid TYPE_INT32 (pb_opt PV_32 a)) \<le> 11"
  using uint32_pack_bounds(2) [of "the a"]
  by (cases a) (auto simp: pb_opt_def tag_pack_small word_less_nat_alt int32_pack_def)

lemma pb_bound_bool [pb_bounds]:
  "fid < 16 \<Longrightarrow> length (pb_pack_values fid TYPE_BOOL (pb_opt PV_bool a)) \<le> 2"
  by (cases a) (auto simp: pb_opt_def tag_pack_small word_less_nat_alt)

lemma pb_bound_64 [pb_bounds]:
  "fid < 16 \<Longrightarrow> length (pb_pack_values fid TYPE_FIXED64 (pb_opt PV_64 a)) \<le> 9"
  by (cases a) (auto simp: pb_opt_def tag_pack_small word_less_nat_alt fixed64_pack_def)

lemma pb_bound_bytes [pb_bounds]:
  "\<lbrakk>fid < 16; pred_option (\<lambda>d. length d \<le> b) a\<rbrakk> \<Longrightarrow>
     length (pb_pack_values fid TYPE_BYTES (pb_opt PV_bytes a)) \<le> 6 + b"
  using uint32_pack_bounds(2) [of "of_nat (length (the a))"]
  by (cases a) (auto simp: pb_opt_def tag_pack_small word_less_nat_alt)

lemma pb_bound_msg [pb_bounds]:
  "\<lbrakk>fid < 16; pred_option (\<lambda>x. length (pb_pack fs (f x)) \<le> b) a\<rbrakk> \<Longrightarrow>
     length (pb_pack_values fid (TYPE_MESSAGE fs) (pb_opt (\<lambda>x. PV_msg (f x)) a)) \<le> 6 + b"
  using uint32_pack_bounds(2) [of "of_nat (length (pb_pack fs (f (the a))))"]
  by (cases a) (auto simp: pb_opt_def tag_pack_small word_less_nat_alt Let_def)

lemma pb_bound_msgs [pb_bounds]:
  "\<lbrakk>fid < 16; list_all (\<lambda>x. length (pb_pack fs (f x)) \<le> b) xs; length xs \<le> n\<rbrakk> \<Longrightarrow>
     length (pb_pack_values fid (TYPE_MESSAGE fs) (map (\<lambda>x. PV_msg (f x)) xs)) \<le> n * (6 + b)"
proof (induction xs arbitrary: n)
  case (Cons x xs)
  then obtain n' where n: "n = Suc n'" "length xs \<le> n'" by (cases n) auto
  with Cons have "length (pb_pack_values fid (TYPE_MESSAGE fs) (map (\<lambda>x. PV_msg (f x)) xs)) \<le> n' * (6 + b)" by simp
  moreover have "length (pb_pack_value (TYPE_MESSAGE fs) (PV_msg (f x))) \<le> 5 + b"
    using uint32_pack_bounds(2) [of "of_nat (length (pb_pack fs (f x)))"] Cons.prems by (simp add: Let_def)
  ultimately show ?case using Cons.prems n by (simp add: tag_pack_small word_less_nat_alt)
qed simp

end
