(* ===== verification/Structures.thy ===== *)
theory Structures
  imports Protobuf_Laws
begin

text \<open>
  The message types of \<^verbatim>\<open>LocalStorageProtocol.pb-c.c\<close> and \<^verbatim>\<open>WhisperTextProtocol.pb-c.c\<close>.
  For each: the field descriptors in tag order, the C struct as a record (a \<^verbatim>\<open>has_x\<close> flag
  with its field is an option, an array with its \<^verbatim>\<open>n_x\<close> a list), and the passage between
  the struct and the generic message.  Every type is an instance of \<open>pb_codec\<close>, those
  without repeated fields of \<open>pb_flat_codec\<close>.
\<close>

section \<open>LocalStorageProtocol\<close>

subsection \<open>ChainKey\<close>

definition sck_desc :: "pb_field list" where
  "sck_desc =
     [PB_Field 1 LABEL_OPTIONAL TYPE_UINT32,
      PB_Field 2 LABEL_OPTIONAL TYPE_BYTES]"

record ChainKey =
  sck_index :: "u32 option"
  sck_key :: "bytes option"

definition sck_to_pb :: "ChainKey \<Rightarrow> pb_message" where
  "sck_to_pb s =
     [pb_opt PV_32 (sck_index s),
      pb_opt PV_bytes (sck_key s)]"

definition sck_of_pb :: "pb_message \<Rightarrow> ChainKey" where
  "sck_of_pb m =
     \<lparr>sck_index = pb_get_32 (m ! 0),
      sck_key = pb_get_bytes (m ! 1)\<rparr>"

interpretation sck: pb_flat_codec sck_desc sck_to_pb sck_of_pb
proof
  show "pb_desc_ok sck_desc"
    by (simp add: pb_desc_ok_def sck_desc_def)
  show "pb_singular_type (TYPE_MESSAGE sck_desc)"
    by (simp add: sck_desc_def)
  fix s
  show "pb_fits sck_desc (sck_to_pb s)"
    by (simp add: sck_desc_def sck_to_pb_def split: option.split)
  show "sck_of_pb (sck_to_pb s) = s"
    by (simp add: sck_of_pb_def sck_to_pb_def)
qed

subsection \<open>MessageKey\<close>

definition smk_desc :: "pb_field list" where
  "smk_desc =
     [PB_Field 1 LABEL_OPTIONAL TYPE_UINT32,
      PB_Field 2 LABEL_OPTIONAL TYPE_BYTES,
      PB_Field 3 LABEL_OPTIONAL TYPE_BYTES,
      PB_Field 4 LABEL_OPTIONAL TYPE_BYTES]"

record MessageKey =
  smk_index :: "u32 option"
  smk_cipherkey :: "bytes option"
  smk_mackey :: "bytes option"
  smk_iv :: "bytes option"

definition smk_to_pb :: "MessageKey \<Rightarrow> pb_message" where
  "smk_to_pb s =
     [pb_opt PV_32 (smk_index s),
      pb_opt PV_bytes (smk_cipherkey s),
      pb_opt PV_bytes (smk_mackey s),
      pb_opt PV_bytes (smk_iv s)]"

definition smk_of_pb :: "pb_message \<Rightarrow> MessageKey" where
  "smk_of_pb m =
     \<lparr>smk_index = pb_get_32 (m ! 0),
      smk_cipherkey = pb_get_bytes (m ! 1),
      smk_mackey = pb_get_bytes (m ! 2),
      smk_iv = pb_get_bytes (m ! 3)\<rparr>"

interpretation smk: pb_flat_codec smk_desc smk_to_pb smk_of_pb
proof
  show "pb_desc_ok smk_desc"
    by (simp add: pb_desc_ok_def smk_desc_def)
  show "pb_singular_type (TYPE_MESSAGE smk_desc)"
    by (simp add: smk_desc_def)
  fix s
  show "pb_fits smk_desc (smk_to_pb s)"
    by (simp add: smk_desc_def smk_to_pb_def split: option.split)
  show "smk_of_pb (smk_to_pb s) = s"
    by (simp add: smk_of_pb_def smk_to_pb_def)
qed

subsection \<open>Chain\<close>

definition sch_desc :: "pb_field list" where
  "sch_desc =
     [PB_Field 1 LABEL_OPTIONAL TYPE_BYTES,
      PB_Field 2 LABEL_OPTIONAL TYPE_BYTES,
      PB_Field 3 LABEL_OPTIONAL (TYPE_MESSAGE sck_desc),
      PB_Field 4 LABEL_REPEATED (TYPE_MESSAGE smk_desc)]"

record Chain =
  sch_senderratchetkey :: "bytes option"
  sch_senderratchetkeyprivate :: "bytes option"
  sch_chainkey :: "ChainKey option"
  sch_messagekeys :: "MessageKey list"

definition sch_to_pb :: "Chain \<Rightarrow> pb_message" where
  "sch_to_pb s =
     [pb_opt PV_bytes (sch_senderratchetkey s),
      pb_opt PV_bytes (sch_senderratchetkeyprivate s),
      pb_opt (\<lambda>x. PV_msg (sck_to_pb x)) (sch_chainkey s),
      map (\<lambda>x. PV_msg (smk_to_pb x)) (sch_messagekeys s)]"

definition sch_of_pb :: "pb_message \<Rightarrow> Chain" where
  "sch_of_pb m =
     \<lparr>sch_senderratchetkey = pb_get_bytes (m ! 0),
      sch_senderratchetkeyprivate = pb_get_bytes (m ! 1),
      sch_chainkey = pb_get_msg sck_of_pb (m ! 2),
      sch_messagekeys = pb_get_msgs smk_of_pb (m ! 3)\<rparr>"

interpretation sch: pb_codec sch_desc sch_to_pb sch_of_pb
proof
  show "pb_desc_ok sch_desc"
    using sck.desc_ok smk.desc_ok by (simp add: pb_desc_ok_def sch_desc_def)
  fix s
  show "pb_fits sch_desc (sch_to_pb s)"
    by (simp add: sch_desc_def sch_to_pb_def sck.fits smk.fits split: option.split)
  show "sch_of_pb (sch_to_pb s) = s"
    by (simp add: sch_of_pb_def sch_to_pb_def sck.of_to smk.of_to)
qed

subsection \<open>PendingKeyExchange\<close>

definition ske_desc :: "pb_field list" where
  "ske_desc =
     [PB_Field 1 LABEL_OPTIONAL TYPE_UINT32,
      PB_Field 2 LABEL_OPTIONAL TYPE_BYTES,
      PB_Field 3 LABEL_OPTIONAL TYPE_BYTES,
      PB_Field 4 LABEL_OPTIONAL TYPE_BYTES,
      PB_Field 5 LABEL_OPTIONAL TYPE_BYTES,
      PB_Field 7 LABEL_OPTIONAL TYPE_BYTES,
      PB_Field 8 LABEL_OPTIONAL TYPE_BYTES]"

record PendingKeyExchange =
  ske_sequence :: "u32 option"
  ske_localbasekey :: "bytes option"
  ske_localbasekeyprivate :: "bytes option"
  ske_localratchetkey :: "bytes option"
  ske_localratchetkeyprivate :: "bytes option"
  ske_localidentitykey :: "bytes option"
  ske_localidentitykeyprivate :: "bytes option"

definition ske_to_pb :: "PendingKeyExchange \<Rightarrow> pb_message" where
  "ske_to_pb s =
     [pb_opt PV_32 (ske_sequence s),
      pb_opt PV_bytes (ske_localbasekey s),
      pb_opt PV_bytes (ske_localbasekeyprivate s),
      pb_opt PV_bytes (ske_localratchetkey s),
      pb_opt PV_bytes (ske_localratchetkeyprivate s),
      pb_opt PV_bytes (ske_localidentitykey s),
      pb_opt PV_bytes (ske_localidentitykeyprivate s)]"

definition ske_of_pb :: "pb_message \<Rightarrow> PendingKeyExchange" where
  "ske_of_pb m =
     \<lparr>ske_sequence = pb_get_32 (m ! 0),
      ske_localbasekey = pb_get_bytes (m ! 1),
      ske_localbasekeyprivate = pb_get_bytes (m ! 2),
      ske_localratchetkey = pb_get_bytes (m ! 3),
      ske_localratchetkeyprivate = pb_get_bytes (m ! 4),
      ske_localidentitykey = pb_get_bytes (m ! 5),
      ske_localidentitykeyprivate = pb_get_bytes (m ! 6)\<rparr>"

interpretation ske: pb_flat_codec ske_desc ske_to_pb ske_of_pb
proof
  show "pb_desc_ok ske_desc"
    by (simp add: pb_desc_ok_def ske_desc_def)
  show "pb_singular_type (TYPE_MESSAGE ske_desc)"
    by (simp add: ske_desc_def)
  fix s
  show "pb_fits ske_desc (ske_to_pb s)"
    by (simp add: ske_desc_def ske_to_pb_def split: option.split)
  show "ske_of_pb (ske_to_pb s) = s"
    by (simp add: ske_of_pb_def ske_to_pb_def)
qed

subsection \<open>PendingPreKey\<close>

definition spp_desc :: "pb_field list" where
  "spp_desc =
     [PB_Field 1 LABEL_OPTIONAL TYPE_UINT32,
      PB_Field 2 LABEL_OPTIONAL TYPE_BYTES,
      PB_Field 3 LABEL_OPTIONAL TYPE_INT32]"

record PendingPreKey =
  spp_prekeyid :: "u32 option"
  spp_basekey :: "bytes option"
  spp_signedprekeyid :: "u32 option"

definition spp_to_pb :: "PendingPreKey \<Rightarrow> pb_message" where
  "spp_to_pb s =
     [pb_opt PV_32 (spp_prekeyid s),
      pb_opt PV_bytes (spp_basekey s),
      pb_opt PV_32 (spp_signedprekeyid s)]"

definition spp_of_pb :: "pb_message \<Rightarrow> PendingPreKey" where
  "spp_of_pb m =
     \<lparr>spp_prekeyid = pb_get_32 (m ! 0),
      spp_basekey = pb_get_bytes (m ! 1),
      spp_signedprekeyid = pb_get_32 (m ! 2)\<rparr>"

interpretation spp: pb_flat_codec spp_desc spp_to_pb spp_of_pb
proof
  show "pb_desc_ok spp_desc"
    by (simp add: pb_desc_ok_def spp_desc_def)
  show "pb_singular_type (TYPE_MESSAGE spp_desc)"
    by (simp add: spp_desc_def)
  fix s
  show "pb_fits spp_desc (spp_to_pb s)"
    by (simp add: spp_desc_def spp_to_pb_def split: option.split)
  show "spp_of_pb (spp_to_pb s) = s"
    by (simp add: spp_of_pb_def spp_to_pb_def)
qed

subsection \<open>SessionStructure\<close>

definition sst_desc :: "pb_field list" where
  "sst_desc =
     [PB_Field 1 LABEL_OPTIONAL TYPE_UINT32,
      PB_Field 2 LABEL_OPTIONAL TYPE_BYTES,
      PB_Field 3 LABEL_OPTIONAL TYPE_BYTES,
      PB_Field 4 LABEL_OPTIONAL TYPE_BYTES,
      PB_Field 5 LABEL_OPTIONAL TYPE_UINT32,
      PB_Field 6 LABEL_OPTIONAL (TYPE_MESSAGE sch_desc),
      PB_Field 7 LABEL_REPEATED (TYPE_MESSAGE sch_desc),
      PB_Field 8 LABEL_OPTIONAL (TYPE_MESSAGE ske_desc),
      PB_Field 9 LABEL_OPTIONAL (TYPE_MESSAGE spp_desc),
      PB_Field 10 LABEL_OPTIONAL TYPE_UINT32,
      PB_Field 11 LABEL_OPTIONAL TYPE_UINT32,
      PB_Field 12 LABEL_OPTIONAL TYPE_BOOL,
      PB_Field 13 LABEL_OPTIONAL TYPE_BYTES]"

record SessionStructure =
  sst_sessionversion :: "u32 option"
  sst_localidentitypublic :: "bytes option"
  sst_remoteidentitypublic :: "bytes option"
  sst_rootkey :: "bytes option"
  sst_previouscounter :: "u32 option"
  sst_senderchain :: "Chain option"
  sst_receiverchains :: "Chain list"
  sst_pendingkeyexchange :: "PendingKeyExchange option"
  sst_pendingprekey :: "PendingPreKey option"
  sst_remoteregistrationid :: "u32 option"
  sst_localregistrationid :: "u32 option"
  sst_needsrefresh :: "bool option"
  sst_alicebasekey :: "bytes option"

definition sst_to_pb :: "SessionStructure \<Rightarrow> pb_message" where
  "sst_to_pb s =
     [pb_opt PV_32 (sst_sessionversion s),
      pb_opt PV_bytes (sst_localidentitypublic s),
      pb_opt PV_bytes (sst_remoteidentitypublic s),
      pb_opt PV_bytes (sst_rootkey s),
      pb_opt PV_32 (sst_previouscounter s),
      pb_opt (\<lambda>x. PV_msg (sch_to_pb x)) (sst_senderchain s),
      map (\<lambda>x. PV_msg (sch_to_pb x)) (sst_receiverchains s),
      pb_opt (\<lambda>x. PV_msg (ske_to_pb x)) (sst_pendingkeyexchange s),
      pb_opt (\<lambda>x. PV_msg (spp_to_pb x)) (sst_pendingprekey s),
      pb_opt PV_32 (sst_remoteregistrationid s),
      pb_opt PV_32 (sst_localregistrationid s),
      pb_opt PV_bool (sst_needsrefresh s),
      pb_opt PV_bytes (sst_alicebasekey s)]"

definition sst_of_pb :: "pb_message \<Rightarrow> SessionStructure" where
  "sst_of_pb m =
     \<lparr>sst_sessionversion = pb_get_32 (m ! 0),
      sst_localidentitypublic = pb_get_bytes (m ! 1),
      sst_remoteidentitypublic = pb_get_bytes (m ! 2),
      sst_rootkey = pb_get_bytes (m ! 3),
      sst_previouscounter = pb_get_32 (m ! 4),
      sst_senderchain = pb_get_msg sch_of_pb (m ! 5),
      sst_receiverchains = pb_get_msgs sch_of_pb (m ! 6),
      sst_pendingkeyexchange = pb_get_msg ske_of_pb (m ! 7),
      sst_pendingprekey = pb_get_msg spp_of_pb (m ! 8),
      sst_remoteregistrationid = pb_get_32 (m ! 9),
      sst_localregistrationid = pb_get_32 (m ! 10),
      sst_needsrefresh = pb_get_bool (m ! 11),
      sst_alicebasekey = pb_get_bytes (m ! 12)\<rparr>"

interpretation sst: pb_codec sst_desc sst_to_pb sst_of_pb
proof
  show "pb_desc_ok sst_desc"
    using sch.desc_ok ske.desc_ok spp.desc_ok by (simp add: pb_desc_ok_def sst_desc_def)
  fix s
  show "pb_fits sst_desc (sst_to_pb s)"
    by (simp add: sst_desc_def sst_to_pb_def sch.fits ske.fits spp.fits split: option.split)
  show "sst_of_pb (sst_to_pb s) = s"
    by (simp add: sst_of_pb_def sst_to_pb_def sch.of_to ske.of_to spp.of_to)
qed

subsection \<open>RecordStructure\<close>

definition srs_desc :: "pb_field list" where
  "srs_desc =
     [PB_Field 1 LABEL_OPTIONAL (TYPE_MESSAGE sst_desc),
      PB_Field 2 LABEL_REPEATED (TYPE_MESSAGE sst_desc)]"

record RecordStructure =
  srs_currentsession :: "SessionStructure option"
  srs_previoussessions :: "SessionStructure list"

definition srs_to_pb :: "RecordStructure \<Rightarrow> pb_message" where
  "srs_to_pb s =
     [pb_opt (\<lambda>x. PV_msg (sst_to_pb x)) (srs_currentsession s),
      map (\<lambda>x. PV_msg (sst_to_pb x)) (srs_previoussessions s)]"

definition srs_of_pb :: "pb_message \<Rightarrow> RecordStructure" where
  "srs_of_pb m =
     \<lparr>srs_currentsession = pb_get_msg sst_of_pb (m ! 0),
      srs_previoussessions = pb_get_msgs sst_of_pb (m ! 1)\<rparr>"

interpretation srs: pb_codec srs_desc srs_to_pb srs_of_pb
proof
  show "pb_desc_ok srs_desc"
    using sst.desc_ok by (simp add: pb_desc_ok_def srs_desc_def)
  fix s
  show "pb_fits srs_desc (srs_to_pb s)"
    by (simp add: srs_desc_def srs_to_pb_def sst.fits split: option.split)
  show "srs_of_pb (srs_to_pb s) = s"
    by (simp add: srs_of_pb_def srs_to_pb_def sst.of_to)
qed

subsection \<open>PreKeyRecordStructure\<close>

definition spk_desc :: "pb_field list" where
  "spk_desc =
     [PB_Field 1 LABEL_OPTIONAL TYPE_UINT32,
      PB_Field 2 LABEL_OPTIONAL TYPE_BYTES,
      PB_Field 3 LABEL_OPTIONAL TYPE_BYTES]"

record PreKeyRecordStructure =
  spk_id :: "u32 option"
  spk_publickey :: "bytes option"
  spk_privatekey :: "bytes option"

definition spk_to_pb :: "PreKeyRecordStructure \<Rightarrow> pb_message" where
  "spk_to_pb s =
     [pb_opt PV_32 (spk_id s),
      pb_opt PV_bytes (spk_publickey s),
      pb_opt PV_bytes (spk_privatekey s)]"

definition spk_of_pb :: "pb_message \<Rightarrow> PreKeyRecordStructure" where
  "spk_of_pb m =
     \<lparr>spk_id = pb_get_32 (m ! 0),
      spk_publickey = pb_get_bytes (m ! 1),
      spk_privatekey = pb_get_bytes (m ! 2)\<rparr>"

interpretation spk: pb_flat_codec spk_desc spk_to_pb spk_of_pb
proof
  show "pb_desc_ok spk_desc"
    by (simp add: pb_desc_ok_def spk_desc_def)
  show "pb_singular_type (TYPE_MESSAGE spk_desc)"
    by (simp add: spk_desc_def)
  fix s
  show "pb_fits spk_desc (spk_to_pb s)"
    by (simp add: spk_desc_def spk_to_pb_def split: option.split)
  show "spk_of_pb (spk_to_pb s) = s"
    by (simp add: spk_of_pb_def spk_to_pb_def)
qed

subsection \<open>SignedPreKeyRecordStructure\<close>

definition ssp_desc :: "pb_field list" where
  "ssp_desc =
     [PB_Field 1 LABEL_OPTIONAL TYPE_UINT32,
      PB_Field 2 LABEL_OPTIONAL TYPE_BYTES,
      PB_Field 3 LABEL_OPTIONAL TYPE_BYTES,
      PB_Field 4 LABEL_OPTIONAL TYPE_BYTES,
      PB_Field 5 LABEL_OPTIONAL TYPE_FIXED64]"

record SignedPreKeyRecordStructure =
  ssp_id :: "u32 option"
  ssp_publickey :: "bytes option"
  ssp_privatekey :: "bytes option"
  ssp_signature :: "bytes option"
  ssp_timestamp :: "u64 option"

definition ssp_to_pb :: "SignedPreKeyRecordStructure \<Rightarrow> pb_message" where
  "ssp_to_pb s =
     [pb_opt PV_32 (ssp_id s),
      pb_opt PV_bytes (ssp_publickey s),
      pb_opt PV_bytes (ssp_privatekey s),
      pb_opt PV_bytes (ssp_signature s),
      pb_opt PV_64 (ssp_timestamp s)]"

definition ssp_of_pb :: "pb_message \<Rightarrow> SignedPreKeyRecordStructure" where
  "ssp_of_pb m =
     \<lparr>ssp_id = pb_get_32 (m ! 0),
      ssp_publickey = pb_get_bytes (m ! 1),
      ssp_privatekey = pb_get_bytes (m ! 2),
      ssp_signature = pb_get_bytes (m ! 3),
      ssp_timestamp = pb_get_64 (m ! 4)\<rparr>"

interpretation ssp: pb_flat_codec ssp_desc ssp_to_pb ssp_of_pb
proof
  show "pb_desc_ok ssp_desc"
    by (simp add: pb_desc_ok_def ssp_desc_def)
  show "pb_singular_type (TYPE_MESSAGE ssp_desc)"
    by (simp add: ssp_desc_def)
  fix s
  show "pb_fits ssp_desc (ssp_to_pb s)"
    by (simp add: ssp_desc_def ssp_to_pb_def split: option.split)
  show "ssp_of_pb (ssp_to_pb s) = s"
    by (simp add: ssp_of_pb_def ssp_to_pb_def)
qed

subsection \<open>IdentityKeyPairStructure\<close>

definition sik_desc :: "pb_field list" where
  "sik_desc =
     [PB_Field 1 LABEL_OPTIONAL TYPE_BYTES,
      PB_Field 2 LABEL_OPTIONAL TYPE_BYTES]"

record IdentityKeyPairStructure =
  sik_publickey :: "bytes option"
  sik_privatekey :: "bytes option"

definition sik_to_pb :: "IdentityKeyPairStructure \<Rightarrow> pb_message" where
  "sik_to_pb s =
     [pb_opt PV_bytes (sik_publickey s),
      pb_opt PV_bytes (sik_privatekey s)]"

definition sik_of_pb :: "pb_message \<Rightarrow> IdentityKeyPairStructure" where
  "sik_of_pb m =
     \<lparr>sik_publickey = pb_get_bytes (m ! 0),
      sik_privatekey = pb_get_bytes (m ! 1)\<rparr>"

interpretation sik: pb_flat_codec sik_desc sik_to_pb sik_of_pb
proof
  show "pb_desc_ok sik_desc"
    by (simp add: pb_desc_ok_def sik_desc_def)
  show "pb_singular_type (TYPE_MESSAGE sik_desc)"
    by (simp add: sik_desc_def)
  fix s
  show "pb_fits sik_desc (sik_to_pb s)"
    by (simp add: sik_desc_def sik_to_pb_def split: option.split)
  show "sik_of_pb (sik_to_pb s) = s"
    by (simp add: sik_of_pb_def sik_to_pb_def)
qed

subsection \<open>SenderChainKey\<close>

definition sgc_desc :: "pb_field list" where
  "sgc_desc =
     [PB_Field 1 LABEL_OPTIONAL TYPE_UINT32,
      PB_Field 2 LABEL_OPTIONAL TYPE_BYTES]"

record SenderChainKey =
  sgc_iteration :: "u32 option"
  sgc_seed :: "bytes option"

definition sgc_to_pb :: "SenderChainKey \<Rightarrow> pb_message" where
  "sgc_to_pb s =
     [pb_opt PV_32 (sgc_iteration s),
      pb_opt PV_bytes (sgc_seed s)]"

definition sgc_of_pb :: "pb_message \<Rightarrow> SenderChainKey" where
  "sgc_of_pb m =
     \<lparr>sgc_iteration = pb_get_32 (m ! 0),
      sgc_seed = pb_get_bytes (m ! 1)\<rparr>"

interpretation sgc: pb_flat_codec sgc_desc sgc_to_pb sgc_of_pb
proof
  show "pb_desc_ok sgc_desc"
    by (simp add: pb_desc_ok_def sgc_desc_def)
  show "pb_singular_type (TYPE_MESSAGE sgc_desc)"
    by (simp add: sgc_desc_def)
  fix s
  show "pb_fits sgc_desc (sgc_to_pb s)"
    by (simp add: sgc_desc_def sgc_to_pb_def split: option.split)
  show "sgc_of_pb (sgc_to_pb s) = s"
    by (simp add: sgc_of_pb_def sgc_to_pb_def)
qed

subsection \<open>SenderMessageKey\<close>

definition sgm_desc :: "pb_field list" where
  "sgm_desc =
     [PB_Field 1 LABEL_OPTIONAL TYPE_UINT32,
      PB_Field 2 LABEL_OPTIONAL TYPE_BYTES]"

record SenderMessageKey =
  sgm_iteration :: "u32 option"
  sgm_seed :: "bytes option"

definition sgm_to_pb :: "SenderMessageKey \<Rightarrow> pb_message" where
  "sgm_to_pb s =
     [pb_opt PV_32 (sgm_iteration s),
      pb_opt PV_bytes (sgm_seed s)]"

definition sgm_of_pb :: "pb_message \<Rightarrow> SenderMessageKey" where
  "sgm_of_pb m =
     \<lparr>sgm_iteration = pb_get_32 (m ! 0),
      sgm_seed = pb_get_bytes (m ! 1)\<rparr>"

interpretation sgm: pb_flat_codec sgm_desc sgm_to_pb sgm_of_pb
proof
  show "pb_desc_ok sgm_desc"
    by (simp add: pb_desc_ok_def sgm_desc_def)
  show "pb_singular_type (TYPE_MESSAGE sgm_desc)"
    by (simp add: sgm_desc_def)
  fix s
  show "pb_fits sgm_desc (sgm_to_pb s)"
    by (simp add: sgm_desc_def sgm_to_pb_def split: option.split)
  show "sgm_of_pb (sgm_to_pb s) = s"
    by (simp add: sgm_of_pb_def sgm_to_pb_def)
qed

subsection \<open>SenderSigningKey\<close>

definition sgs_desc :: "pb_field list" where
  "sgs_desc =
     [PB_Field 1 LABEL_OPTIONAL TYPE_BYTES,
      PB_Field 2 LABEL_OPTIONAL TYPE_BYTES]"

record SenderSigningKey =
  sgs_public :: "bytes option"
  sgs_private :: "bytes option"

definition sgs_to_pb :: "SenderSigningKey \<Rightarrow> pb_message" where
  "sgs_to_pb s =
     [pb_opt PV_bytes (sgs_public s),
      pb_opt PV_bytes (sgs_private s)]"

definition sgs_of_pb :: "pb_message \<Rightarrow> SenderSigningKey" where
  "sgs_of_pb m =
     \<lparr>sgs_public = pb_get_bytes (m ! 0),
      sgs_private = pb_get_bytes (m ! 1)\<rparr>"

interpretation sgs: pb_flat_codec sgs_desc sgs_to_pb sgs_of_pb
proof
  show "pb_desc_ok sgs_desc"
    by (simp add: pb_desc_ok_def sgs_desc_def)
  show "pb_singular_type (TYPE_MESSAGE sgs_desc)"
    by (simp add: sgs_desc_def)
  fix s
  show "pb_fits sgs_desc (sgs_to_pb s)"
    by (simp add: sgs_desc_def sgs_to_pb_def split: option.split)
  show "sgs_of_pb (sgs_to_pb s) = s"
    by (simp add: sgs_of_pb_def sgs_to_pb_def)
qed

subsection \<open>SenderKeyStateStructure\<close>

definition sgk_desc :: "pb_field list" where
  "sgk_desc =
     [PB_Field 1 LABEL_OPTIONAL TYPE_UINT32,
      PB_Field 2 LABEL_OPTIONAL (TYPE_MESSAGE sgc_desc),
      PB_Field 3 LABEL_OPTIONAL (TYPE_MESSAGE sgs_desc),
      PB_Field 4 LABEL_REPEATED (TYPE_MESSAGE sgm_desc)]"

record SenderKeyStateStructure =
  sgk_senderkeyid :: "u32 option"
  sgk_senderchainkey :: "SenderChainKey option"
  sgk_sendersigningkey :: "SenderSigningKey option"
  sgk_sendermessagekeys :: "SenderMessageKey list"

definition sgk_to_pb :: "SenderKeyStateStructure \<Rightarrow> pb_message" where
  "sgk_to_pb s =
     [pb_opt PV_32 (sgk_senderkeyid s),
      pb_opt (\<lambda>x. PV_msg (sgc_to_pb x)) (sgk_senderchainkey s),
      pb_opt (\<lambda>x. PV_msg (sgs_to_pb x)) (sgk_sendersigningkey s),
      map (\<lambda>x. PV_msg (sgm_to_pb x)) (sgk_sendermessagekeys s)]"

definition sgk_of_pb :: "pb_message \<Rightarrow> SenderKeyStateStructure" where
  "sgk_of_pb m =
     \<lparr>sgk_senderkeyid = pb_get_32 (m ! 0),
      sgk_senderchainkey = pb_get_msg sgc_of_pb (m ! 1),
      sgk_sendersigningkey = pb_get_msg sgs_of_pb (m ! 2),
      sgk_sendermessagekeys = pb_get_msgs sgm_of_pb (m ! 3)\<rparr>"

interpretation sgk: pb_codec sgk_desc sgk_to_pb sgk_of_pb
proof
  show "pb_desc_ok sgk_desc"
    using sgc.desc_ok sgm.desc_ok sgs.desc_ok by (simp add: pb_desc_ok_def sgk_desc_def)
  fix s
  show "pb_fits sgk_desc (sgk_to_pb s)"
    by (simp add: sgk_desc_def sgk_to_pb_def sgc.fits sgm.fits sgs.fits split: option.split)
  show "sgk_of_pb (sgk_to_pb s) = s"
    by (simp add: sgk_of_pb_def sgk_to_pb_def sgc.of_to sgm.of_to sgs.of_to)
qed

subsection \<open>SenderKeyRecordStructure\<close>

definition sgr_desc :: "pb_field list" where
  "sgr_desc =
     [PB_Field 1 LABEL_REPEATED (TYPE_MESSAGE sgk_desc)]"

record SenderKeyRecordStructure =
  sgr_senderkeystates :: "SenderKeyStateStructure list"

definition sgr_to_pb :: "SenderKeyRecordStructure \<Rightarrow> pb_message" where
  "sgr_to_pb s =
     [map (\<lambda>x. PV_msg (sgk_to_pb x)) (sgr_senderkeystates s)]"

definition sgr_of_pb :: "pb_message \<Rightarrow> SenderKeyRecordStructure" where
  "sgr_of_pb m =
     \<lparr>sgr_senderkeystates = pb_get_msgs sgk_of_pb (m ! 0)\<rparr>"

interpretation sgr: pb_codec sgr_desc sgr_to_pb sgr_of_pb
proof
  show "pb_desc_ok sgr_desc"
    using sgk.desc_ok by (simp add: pb_desc_ok_def sgr_desc_def)
  fix s
  show "pb_fits sgr_desc (sgr_to_pb s)"
    by (simp add: sgr_desc_def sgr_to_pb_def sgk.fits split: option.split)
  show "sgr_of_pb (sgr_to_pb s) = s"
    by (simp add: sgr_of_pb_def sgr_to_pb_def sgk.of_to)
qed

section \<open>WhisperTextProtocol\<close>

subsection \<open>SignalMessage\<close>

definition wsm_desc :: "pb_field list" where
  "wsm_desc =
     [PB_Field 1 LABEL_OPTIONAL TYPE_BYTES,
      PB_Field 2 LABEL_OPTIONAL TYPE_UINT32,
      PB_Field 3 LABEL_OPTIONAL TYPE_UINT32,
      PB_Field 4 LABEL_OPTIONAL TYPE_BYTES]"

record SignalMessage =
  wsm_ratchetkey :: "bytes option"
  wsm_counter :: "u32 option"
  wsm_previouscounter :: "u32 option"
  wsm_ciphertext :: "bytes option"

definition wsm_to_pb :: "SignalMessage \<Rightarrow> pb_message" where
  "wsm_to_pb s =
     [pb_opt PV_bytes (wsm_ratchetkey s),
      pb_opt PV_32 (wsm_counter s),
      pb_opt PV_32 (wsm_previouscounter s),
      pb_opt PV_bytes (wsm_ciphertext s)]"

definition wsm_of_pb :: "pb_message \<Rightarrow> SignalMessage" where
  "wsm_of_pb m =
     \<lparr>wsm_ratchetkey = pb_get_bytes (m ! 0),
      wsm_counter = pb_get_32 (m ! 1),
      wsm_previouscounter = pb_get_32 (m ! 2),
      wsm_ciphertext = pb_get_bytes (m ! 3)\<rparr>"

interpretation wsm: pb_flat_codec wsm_desc wsm_to_pb wsm_of_pb
proof
  show "pb_desc_ok wsm_desc"
    by (simp add: pb_desc_ok_def wsm_desc_def)
  show "pb_singular_type (TYPE_MESSAGE wsm_desc)"
    by (simp add: wsm_desc_def)
  fix s
  show "pb_fits wsm_desc (wsm_to_pb s)"
    by (simp add: wsm_desc_def wsm_to_pb_def split: option.split)
  show "wsm_of_pb (wsm_to_pb s) = s"
    by (simp add: wsm_of_pb_def wsm_to_pb_def)
qed

subsection \<open>PreKeySignalMessage\<close>

definition wpk_desc :: "pb_field list" where
  "wpk_desc =
     [PB_Field 1 LABEL_OPTIONAL TYPE_UINT32,
      PB_Field 2 LABEL_OPTIONAL TYPE_BYTES,
      PB_Field 3 LABEL_OPTIONAL TYPE_BYTES,
      PB_Field 4 LABEL_OPTIONAL TYPE_BYTES,
      PB_Field 5 LABEL_OPTIONAL TYPE_UINT32,
      PB_Field 6 LABEL_OPTIONAL TYPE_UINT32]"

record PreKeySignalMessage =
  wpk_prekeyid :: "u32 option"
  wpk_basekey :: "bytes option"
  wpk_identitykey :: "bytes option"
  wpk_message :: "bytes option"
  wpk_registrationid :: "u32 option"
  wpk_signedprekeyid :: "u32 option"

definition wpk_to_pb :: "PreKeySignalMessage \<Rightarrow> pb_message" where
  "wpk_to_pb s =
     [pb_opt PV_32 (wpk_prekeyid s),
      pb_opt PV_bytes (wpk_basekey s),
      pb_opt PV_bytes (wpk_identitykey s),
      pb_opt PV_bytes (wpk_message s),
      pb_opt PV_32 (wpk_registrationid s),
      pb_opt PV_32 (wpk_signedprekeyid s)]"

definition wpk_of_pb :: "pb_message \<Rightarrow> PreKeySignalMessage" where
  "wpk_of_pb m =
     \<lparr>wpk_prekeyid = pb_get_32 (m ! 0),
      wpk_basekey = pb_get_bytes (m ! 1),
      wpk_identitykey = pb_get_bytes (m ! 2),
      wpk_message = pb_get_bytes (m ! 3),
      wpk_registrationid = pb_get_32 (m ! 4),
      wpk_signedprekeyid = pb_get_32 (m ! 5)\<rparr>"

interpretation wpk: pb_flat_codec wpk_desc wpk_to_pb wpk_of_pb
proof
  show "pb_desc_ok wpk_desc"
    by (simp add: pb_desc_ok_def wpk_desc_def)
  show "pb_singular_type (TYPE_MESSAGE wpk_desc)"
    by (simp add: wpk_desc_def)
  fix s
  show "pb_fits wpk_desc (wpk_to_pb s)"
    by (simp add: wpk_desc_def wpk_to_pb_def split: option.split)
  show "wpk_of_pb (wpk_to_pb s) = s"
    by (simp add: wpk_of_pb_def wpk_to_pb_def)
qed

subsection \<open>KeyExchangeMessage\<close>

definition wke_desc :: "pb_field list" where
  "wke_desc =
     [PB_Field 1 LABEL_OPTIONAL TYPE_UINT32,
      PB_Field 2 LABEL_OPTIONAL TYPE_BYTES,
      PB_Field 3 LABEL_OPTIONAL TYPE_BYTES,
      PB_Field 4 LABEL_OPTIONAL TYPE_BYTES,
      PB_Field 5 LABEL_OPTIONAL TYPE_BYTES]"

record KeyExchangeMessage =
  wke_id :: "u32 option"
  wke_basekey :: "bytes option"
  wke_ratchetkey :: "bytes option"
  wke_identitykey :: "bytes option"
  wke_basekeysignature :: "bytes option"

definition wke_to_pb :: "KeyExchangeMessage \<Rightarrow> pb_message" where
  "wke_to_pb s =
     [pb_opt PV_32 (wke_id s),
      pb_opt PV_bytes (wke_basekey s),
      pb_opt PV_bytes (wke_ratchetkey s),
      pb_opt PV_bytes (wke_identitykey s),
      pb_opt PV_bytes (wke_basekeysignature s)]"

definition wke_of_pb :: "pb_message \<Rightarrow> KeyExchangeMessage" where
  "wke_of_pb m =
     \<lparr>wke_id = pb_get_32 (m ! 0),
      wke_basekey = pb_get_bytes (m ! 1),
      wke_ratchetkey = pb_get_bytes (m ! 2),
      wke_identitykey = pb_get_bytes (m ! 3),
      wke_basekeysignature = pb_get_bytes (m ! 4)\<rparr>"

interpretation wke: pb_flat_codec wke_desc wke_to_pb wke_of_pb
proof
  show "pb_desc_ok wke_desc"
    by (simp add: pb_desc_ok_def wke_desc_def)
  show "pb_singular_type (TYPE_MESSAGE wke_desc)"
    by (simp add: wke_desc_def)
  fix s
  show "pb_fits wke_desc (wke_to_pb s)"
    by (simp add: wke_desc_def wke_to_pb_def split: option.split)
  show "wke_of_pb (wke_to_pb s) = s"
    by (simp add: wke_of_pb_def wke_to_pb_def)
qed

subsection \<open>SenderKeyMessage\<close>

definition wsk_desc :: "pb_field list" where
  "wsk_desc =
     [PB_Field 1 LABEL_OPTIONAL TYPE_UINT32,
      PB_Field 2 LABEL_OPTIONAL TYPE_UINT32,
      PB_Field 3 LABEL_OPTIONAL TYPE_BYTES]"

record SenderKeyMessage =
  wsk_id :: "u32 option"
  wsk_iteration :: "u32 option"
  wsk_ciphertext :: "bytes option"

definition wsk_to_pb :: "SenderKeyMessage \<Rightarrow> pb_message" where
  "wsk_to_pb s =
     [pb_opt PV_32 (wsk_id s),
      pb_opt PV_32 (wsk_iteration s),
      pb_opt PV_bytes (wsk_ciphertext s)]"

definition wsk_of_pb :: "pb_message \<Rightarrow> SenderKeyMessage" where
  "wsk_of_pb m =
     \<lparr>wsk_id = pb_get_32 (m ! 0),
      wsk_iteration = pb_get_32 (m ! 1),
      wsk_ciphertext = pb_get_bytes (m ! 2)\<rparr>"

interpretation wsk: pb_flat_codec wsk_desc wsk_to_pb wsk_of_pb
proof
  show "pb_desc_ok wsk_desc"
    by (simp add: pb_desc_ok_def wsk_desc_def)
  show "pb_singular_type (TYPE_MESSAGE wsk_desc)"
    by (simp add: wsk_desc_def)
  fix s
  show "pb_fits wsk_desc (wsk_to_pb s)"
    by (simp add: wsk_desc_def wsk_to_pb_def split: option.split)
  show "wsk_of_pb (wsk_to_pb s) = s"
    by (simp add: wsk_of_pb_def wsk_to_pb_def)
qed

subsection \<open>SenderKeyDistributionMessage\<close>

definition wsd_desc :: "pb_field list" where
  "wsd_desc =
     [PB_Field 1 LABEL_OPTIONAL TYPE_UINT32,
      PB_Field 2 LABEL_OPTIONAL TYPE_UINT32,
      PB_Field 3 LABEL_OPTIONAL TYPE_BYTES,
      PB_Field 4 LABEL_OPTIONAL TYPE_BYTES]"

record SenderKeyDistributionMessage =
  wsd_id :: "u32 option"
  wsd_iteration :: "u32 option"
  wsd_chainkey :: "bytes option"
  wsd_signingkey :: "bytes option"

definition wsd_to_pb :: "SenderKeyDistributionMessage \<Rightarrow> pb_message" where
  "wsd_to_pb s =
     [pb_opt PV_32 (wsd_id s),
      pb_opt PV_32 (wsd_iteration s),
      pb_opt PV_bytes (wsd_chainkey s),
      pb_opt PV_bytes (wsd_signingkey s)]"

definition wsd_of_pb :: "pb_message \<Rightarrow> SenderKeyDistributionMessage" where
  "wsd_of_pb m =
     \<lparr>wsd_id = pb_get_32 (m ! 0),
      wsd_iteration = pb_get_32 (m ! 1),
      wsd_chainkey = pb_get_bytes (m ! 2),
      wsd_signingkey = pb_get_bytes (m ! 3)\<rparr>"

interpretation wsd: pb_flat_codec wsd_desc wsd_to_pb wsd_of_pb
proof
  show "pb_desc_ok wsd_desc"
    by (simp add: pb_desc_ok_def wsd_desc_def)
  show "pb_singular_type (TYPE_MESSAGE wsd_desc)"
    by (simp add: wsd_desc_def)
  fix s
  show "pb_fits wsd_desc (wsd_to_pb s)"
    by (simp add: wsd_desc_def wsd_to_pb_def split: option.split)
  show "wsd_of_pb (wsd_to_pb s) = s"
    by (simp add: wsd_of_pb_def wsd_to_pb_def)
qed

end
