(* ===== verification/Crypto.thy ===== *)
theory Crypto
  imports Prelude
begin

text \<open>
  The global context of \<^verbatim>\<open>signal_protocol.c\<close> as far as it computes: the callbacks of the
  application's crypto provider, the vendored Curve25519 primitives, and the byte buffer
  helpers.  The callbacks and the primitives are parameters, the fields of
  \<open>signal_context\<close>; what a property needs of them is a hypothesis of that property.

  An HMAC context is the key it was initialised with and the chunks fed to it so far, so
  a provider that fails on a particular chunk is covered.  The random source is numbered:
  \<open>random_func n len\<close> is the outcome of call number \<open>n\<close>, and every definition that draws
  randomness threads the call number.
\<close>

section \<open>The provider\<close>

record signal_context =
  random_func :: "nat \<Rightarrow> nat \<Rightarrow> (nat \<Rightarrow> u8) result"
  hmac_sha256_init_func :: "bytes \<Rightarrow> unit result"
  hmac_sha256_update_func :: "bytes \<Rightarrow> bytes list \<Rightarrow> bytes \<Rightarrow> unit result"
  hmac_sha256_final_func :: "bytes \<Rightarrow> bytes list \<Rightarrow> bytes result"
  sha512_digest_func :: "bytes \<Rightarrow> bytes result"
  encrypt_func :: "int \<Rightarrow> bytes \<Rightarrow> bytes \<Rightarrow> bytes \<Rightarrow> bytes result"
  decrypt_func :: "int \<Rightarrow> bytes \<Rightarrow> bytes \<Rightarrow> bytes \<Rightarrow> bytes result"
  curve25519_donna :: "bytes \<Rightarrow> bytes \<Rightarrow> int \<times> bytes"
  curve25519_verify :: "bytes \<Rightarrow> bytes \<Rightarrow> bytes \<Rightarrow> int"
  curve25519_sign :: "bytes \<Rightarrow> bytes \<Rightarrow> bytes \<Rightarrow> int \<times> bytes"

type_synonym rng = nat

definition signal_crypto_random :: "signal_context \<Rightarrow> nat \<Rightarrow> rng \<Rightarrow> bytes result \<times> rng" where
  "signal_crypto_random G len r =
     ((case random_func G r len of Inl e \<Rightarrow> Inl e | Inr f \<Rightarrow> Inr (map f [0..<len])), Suc r)"

fun signal_hmac_sha256_update :: "signal_context \<Rightarrow> bytes \<Rightarrow> bytes list \<Rightarrow> bytes list \<Rightarrow> unit result" where
  "signal_hmac_sha256_update G key fed [] = Inr ()"
| "signal_hmac_sha256_update G key fed (c # cs) =
     (case hmac_sha256_update_func G key fed c of Inl e \<Rightarrow> Inl e
      | Inr _ \<Rightarrow> signal_hmac_sha256_update G key (fed @ [c]) cs)"

text \<open>
  The sequence init, update for each chunk, final, that every caller spells out; the
  second part is what runs on an initialised context.
\<close>

definition signal_hmac_sha256_feed :: "signal_context \<Rightarrow> bytes \<Rightarrow> bytes list \<Rightarrow> bytes result" where
  "signal_hmac_sha256_feed G key chunks =
     (case signal_hmac_sha256_update G key [] chunks of Inl e \<Rightarrow> Inl e
      | Inr _ \<Rightarrow> hmac_sha256_final_func G key chunks)"

definition signal_hmac_sha256 :: "signal_context \<Rightarrow> bytes \<Rightarrow> bytes list \<Rightarrow> bytes result" where
  "signal_hmac_sha256 G key chunks =
     (case hmac_sha256_init_func G key of Inl e \<Rightarrow> Inl e
      | Inr _ \<Rightarrow> signal_hmac_sha256_feed G key chunks)"

text \<open>
  Two callers declare the context pointer without initialising it and hand it to
  \<^verbatim>\<open>signal_hmac_sha256_cleanup\<close> on every exit.  When the init callback fails and, as it may,
  has not set the pointer, the cleanup callback receives an indeterminate value.
\<close>

definition signal_hmac_sha256_uninitialised :: "signal_context \<Rightarrow> bytes \<Rightarrow> bytes result \<Rightarrow> bytes result" where
  "signal_hmac_sha256_uninitialised G key rest =
     (case hmac_sha256_init_func G key of Inl e \<Rightarrow> Inl C_UNDEFINED | Inr _ \<Rightarrow> rest)"

definition signal_encrypt :: "signal_context \<Rightarrow> int \<Rightarrow> bytes \<Rightarrow> bytes \<Rightarrow> bytes \<Rightarrow> bytes result" where
  "signal_encrypt G cipher key iv plaintext = encrypt_func G cipher key iv plaintext"

definition signal_decrypt :: "signal_context \<Rightarrow> int \<Rightarrow> bytes \<Rightarrow> bytes \<Rightarrow> bytes \<Rightarrow> bytes result" where
  "signal_decrypt G cipher key iv ciphertext = decrypt_func G cipher key iv ciphertext"

section \<open>Hypotheses on the provider\<close>

text \<open>
  A provider whose HMAC callbacks compute a 32-byte function of the key and the
  concatenated chunks and do not fail (\<open>hmac_sha256_of\<close>), whose ciphers decrypt what they
  encrypted (\<open>cipher_inverse\<close>), and primitives with the Diffie-Hellman law
  (\<open>curve25519_dh\<close>): the product of two secrets does not depend on their order.
\<close>

definition hmac_sha256_of :: "signal_context \<Rightarrow> (bytes \<Rightarrow> bytes \<Rightarrow> bytes) \<Rightarrow> bool" where
  "hmac_sha256_of G hm \<longleftrightarrow>
     (\<forall>key. hmac_sha256_init_func G key = Inr ()) \<and>
     (\<forall>key fed c. hmac_sha256_update_func G key fed c = Inr ()) \<and>
     (\<forall>key fed. hmac_sha256_final_func G key fed = Inr (hm key (concat fed))) \<and>
     (\<forall>key d. length (hm key d) = 32)"

definition cipher_inverse :: "signal_context \<Rightarrow> bool" where
  "cipher_inverse G \<longleftrightarrow>
     (\<forall>cipher key iv p. length key = 32 \<longrightarrow> length iv = 16 \<longrightarrow>
        (\<exists>c. encrypt_func G cipher key iv p = Inr c \<and> decrypt_func G cipher key iv c = Inr p))"

definition curve25519_basepoint :: bytes where
  "curve25519_basepoint = 9 # replicate 31 0"

lemma curve25519_basepoint_length [simp]: "length curve25519_basepoint = 32"
  by (simp add: curve25519_basepoint_def)

text \<open>
  A Curve25519 private key in the form that RFC 7748 prescribes and
  \<^verbatim>\<open>curve_generate_private_key\<close> produces: a multiple of 8 between \<open>2 ^ 254\<close> and \<open>2 ^ 255\<close>.
\<close>

definition clamp :: "bytes \<Rightarrow> bytes" where
  "clamp d = d[0 := d ! 0 AND 248, 31 := (d ! 31 AND 127) OR 64]"

definition clamped :: "bytes \<Rightarrow> bool" where
  "clamped d \<longleftrightarrow> length d = 32 \<and> clamp d = d"

lemma clamp_length [simp]: "length (clamp d) = length d"
  by (simp add: clamp_def)

lemma clamped_clamp: "length d = 32 \<Longrightarrow> clamped (clamp d)"
proof -
  assume len: "length d = 32"
  have "((d ! 31 AND 127 OR 64) AND 127) OR 64 = (d ! 31 AND 127 OR 64 :: u8)"
    by (rule bit_word_eqI) (auto simp: bit_simps)
  moreover have "(d ! 0 AND 248) AND 248 = (d ! 0 AND 248 :: u8)" by (simp add: and.assoc)
  ultimately have "clamp (clamp d) = clamp d"
    using len by (simp add: clamp_def list_update_swap [of 31 0])
  with len show ?thesis by (simp add: clamped_def)
qed

definition curve25519_dh :: "signal_context \<Rightarrow> bool" where
  "curve25519_dh G \<longleftrightarrow>
     (\<forall>s p. length s = 32 \<longrightarrow> length p = 32 \<longrightarrow>
        fst (curve25519_donna G s p) = 0 \<and> length (snd (curve25519_donna G s p)) = 32) \<and>
     (\<forall>a b. length a = 32 \<longrightarrow> length b = 32 \<longrightarrow>
        snd (curve25519_donna G a (snd (curve25519_donna G b curve25519_basepoint)))
          = snd (curve25519_donna G b (snd (curve25519_donna G a curve25519_basepoint))))"

lemma curve25519_donna_ok:
  "\<lbrakk>curve25519_dh G; length s = 32; length p = 32\<rbrakk> \<Longrightarrow>
     \<exists>k. curve25519_donna G s p = (0, k) \<and> length k = 32"
  unfolding curve25519_dh_def by (metis prod.collapse)

lemma signal_hmac_sha256_update_ok:
  "hmac_sha256_of G hm \<Longrightarrow> signal_hmac_sha256_update G key fed cs = Inr ()"
  by (induction cs arbitrary: fed) (simp_all add: hmac_sha256_of_def)

lemma signal_hmac_sha256_ok:
  "hmac_sha256_of G hm \<Longrightarrow> signal_hmac_sha256 G key cs = Inr (hm key (concat cs))"
  using signal_hmac_sha256_update_ok [of G hm key "[]" cs]
  by (simp add: signal_hmac_sha256_def signal_hmac_sha256_feed_def hmac_sha256_of_def)

lemma signal_hmac_sha256_uninitialised_ok:
  "hmac_sha256_of G hm \<Longrightarrow> signal_hmac_sha256_uninitialised G key rest = rest"
  "hmac_sha256_of G hm \<Longrightarrow> signal_hmac_sha256_feed G key cs = Inr (hm key (concat cs))"
  using signal_hmac_sha256_update_ok [of G hm key "[]" cs]
  by (simp_all add: signal_hmac_sha256_uninitialised_def signal_hmac_sha256_feed_def hmac_sha256_of_def)

lemma hmac_sha256_of_length [len_simps]: "hmac_sha256_of G hm \<Longrightarrow> length (hm key d) = 32"
  by (simp add: hmac_sha256_of_def)

section \<open>Byte buffers\<close>

text \<open>\<^verbatim>\<open>signal_constant_memcmp\<close>: all \<open>n\<close> bytes are visited, the differences or-ed together.\<close>

definition signal_constant_memcmp :: "bytes \<Rightarrow> bytes \<Rightarrow> nat \<Rightarrow> int" where
  "signal_constant_memcmp s1 s2 n = uint (fold (\<lambda>i result. result OR (s1 ! i XOR s2 ! i)) [0..<n] 0)"

definition signal_buffer_compare :: "bytes option \<Rightarrow> bytes option \<Rightarrow> int" where
  "signal_buffer_compare buffer1 buffer2 =
     (case (buffer1, buffer2) of
        (None, None) \<Rightarrow> 0 | (None, Some _) \<Rightarrow> -1 | (Some _, None) \<Rightarrow> 1
      | (Some b1, Some b2) \<Rightarrow>
          if length b1 < length b2 then -1 else if length b2 < length b1 then 1
          else signal_constant_memcmp b1 b2 (length b1))"

lemma or_eq_0: "(a OR b = 0) \<longleftrightarrow> a = 0 \<and> b = (0 :: u8)"
  by (auto simp: bit_eq_iff bit_simps)

lemma xor_eq_0: "(a XOR b = 0) \<longleftrightarrow> a = (b :: u8)"
proof -
  have "a = b" if "a XOR b = 0"
    using arg_cong [OF that, of "\<lambda>x. x XOR b"] by (simp add: xor.assoc)
  then show ?thesis by auto
qed

lemma fold_or_eq_0:
  "fold (\<lambda>i r. r OR (s1 ! i XOR s2 ! i)) xs r = (0 :: u8) \<longleftrightarrow> r = 0 \<and> (\<forall>i \<in> set xs. s1 ! i = s2 ! i)"
  by (induction xs arbitrary: r) (auto simp: or_eq_0 xor_eq_0)

text \<open>The comparison is 0 exactly when the two buffers agree.\<close>

lemma signal_constant_memcmp_eq [simp]:
  "\<lbrakk>length s1 = n; length s2 = n\<rbrakk> \<Longrightarrow> signal_constant_memcmp s1 s2 n = 0 \<longleftrightarrow> s1 = s2"
  by (auto simp: signal_constant_memcmp_def fold_or_eq_0 unsigned_eq_0_iff intro: nth_equalityI)

lemma signal_buffer_compare_eq: "signal_buffer_compare b1 b2 = 0 \<longleftrightarrow> b1 = b2"
  by (cases b1; cases b2) (auto simp: signal_buffer_compare_def)

end
