(* ===== verification/Curve.thy ===== *)
theory Curve
  imports Crypto
begin

text \<open>
  \<^verbatim>\<open>curve.c\<close>: Curve25519 keys, their encodings, key agreement and signatures.  A key is
  the 32-byte array of the C struct; \<open>pub_ok\<close> and \<open>priv_ok\<close> say that the list has that
  length, which every operation that makes a key establishes.
\<close>

definition DJB_TYPE :: u8 where "DJB_TYPE = 0x05"
definition DJB_KEY_LEN :: nat where "DJB_KEY_LEN = 32"
definition CURVE_SIGNATURE_LEN :: nat where "CURVE_SIGNATURE_LEN = 64"

lemmas curve_consts [simp] = DJB_TYPE_def DJB_KEY_LEN_def CURVE_SIGNATURE_LEN_def

datatype ec_public_key = EC_Public_Key (pub_data: bytes)
datatype ec_private_key = EC_Private_Key (priv_data: bytes)

record ec_key_pair =
  kp_public_key :: ec_public_key
  kp_private_key :: ec_private_key

definition pub_ok :: "ec_public_key \<Rightarrow> bool" where
  "pub_ok k \<longleftrightarrow> length (pub_data k) = DJB_KEY_LEN"

definition priv_ok :: "ec_private_key \<Rightarrow> bool" where
  "priv_ok k \<longleftrightarrow> length (priv_data k) = DJB_KEY_LEN"

section \<open>Encodings\<close>

definition curve_decode_point :: "bytes \<Rightarrow> ec_public_key result" where
  "curve_decode_point key_data =
     (if 0 < length key_data \<and> key_data ! 0 \<noteq> DJB_TYPE then Inl SG_ERR_INVALID_KEY
      else if length key_data \<noteq> DJB_KEY_LEN + 1 then Inl SG_ERR_INVALID_KEY
      else Inr (EC_Public_Key (take DJB_KEY_LEN (drop 1 key_data))))"

definition ec_public_key_serialize :: "ec_public_key option \<Rightarrow> bytes result" where
  "ec_public_key_serialize key =
     (case key of None \<Rightarrow> Inl SG_ERR_INVAL | Some k \<Rightarrow> Inr (DJB_TYPE # pub_data k))"

definition ec_public_key_serialize_protobuf :: "ec_public_key option \<Rightarrow> bytes result" where
  "ec_public_key_serialize_protobuf key =
     (case key of None \<Rightarrow> Inl C_UNDEFINED | Some k \<Rightarrow> Inr (DJB_TYPE # pub_data k))"

definition curve_decode_private_point :: "bytes \<Rightarrow> ec_private_key result" where
  "curve_decode_private_point key_data =
     (if length key_data \<noteq> DJB_KEY_LEN then Inl SG_ERR_INVALID_KEY
      else Inr (EC_Private_Key (take DJB_KEY_LEN key_data)))"

definition ec_private_key_serialize :: "ec_private_key option \<Rightarrow> bytes result" where
  "ec_private_key_serialize key =
     (case key of None \<Rightarrow> Inl C_UNDEFINED | Some k \<Rightarrow> Inr (priv_data k))"

definition ec_private_key_serialize_protobuf :: "ec_private_key option \<Rightarrow> bytes result" where
  "ec_private_key_serialize_protobuf key =
     (case key of None \<Rightarrow> Inl C_UNDEFINED | Some k \<Rightarrow> Inr (priv_data k))"

definition ec_public_key_compare :: "ec_public_key option \<Rightarrow> ec_public_key option \<Rightarrow> int" where
  "ec_public_key_compare key1 key2 =
     (case (key1, key2) of
        (None, None) \<Rightarrow> 0 | (None, Some _) \<Rightarrow> -1 | (Some _, None) \<Rightarrow> 1
      | (Some k1, Some k2) \<Rightarrow> signal_constant_memcmp (pub_data k1) (pub_data k2) DJB_KEY_LEN)"

definition ec_private_key_compare :: "ec_private_key option \<Rightarrow> ec_private_key option \<Rightarrow> int" where
  "ec_private_key_compare key1 key2 =
     (case (key1, key2) of
        (None, None) \<Rightarrow> 0 | (None, Some _) \<Rightarrow> -1 | (Some _, None) \<Rightarrow> 1
      | (Some k1, Some k2) \<Rightarrow> signal_constant_memcmp (priv_data k1) (priv_data k2) DJB_KEY_LEN)"

section \<open>Key generation, agreement and signatures\<close>

definition curve_generate_private_key :: "signal_context \<Rightarrow> rng \<Rightarrow> ec_private_key result \<times> rng" where
  "curve_generate_private_key G r =
     (case signal_crypto_random G DJB_KEY_LEN r of
        (Inl e, r') \<Rightarrow> (Inl e, r')
      | (Inr d, r') \<Rightarrow>
          (let d0 = d[0 := d ! 0 AND 248]; d1 = d0[31 := d0 ! 31 AND 127];
               d2 = d1[31 := d1 ! 31 OR 64]
           in (Inr (EC_Private_Key d2), r')))"

definition curve_generate_public_key :: "signal_context \<Rightarrow> ec_private_key \<Rightarrow> ec_public_key result" where
  "curve_generate_public_key G private_key =
     (case curve25519_donna G (priv_data private_key) curve25519_basepoint of
        (result, key) \<Rightarrow> if result = 0 then Inr (EC_Public_Key key) else Inl SG_ERR_UNKNOWN)"

definition ec_key_pair_create :: "ec_public_key \<Rightarrow> ec_private_key \<Rightarrow> ec_key_pair" where
  "ec_key_pair_create public_key private_key =
     \<lparr>kp_public_key = public_key, kp_private_key = private_key\<rparr>"

definition curve_generate_key_pair :: "signal_context \<Rightarrow> rng \<Rightarrow> ec_key_pair result \<times> rng" where
  "curve_generate_key_pair G r =
     (case curve_generate_private_key G r of
        (Inl e, r') \<Rightarrow> (Inl e, r')
      | (Inr key_private, r') \<Rightarrow>
          ((case curve_generate_public_key G key_private of Inl e \<Rightarrow> Inl e
            | Inr key_public \<Rightarrow> Inr (ec_key_pair_create key_public key_private)), r'))"

definition curve_calculate_agreement ::
  "signal_context \<Rightarrow> ec_public_key option \<Rightarrow> ec_private_key option \<Rightarrow> bytes result" where
  "curve_calculate_agreement G public_key private_key =
     (case (public_key, private_key) of
        (Some pk, Some sk) \<Rightarrow>
          (case curve25519_donna G (priv_data sk) (pub_data pk) of
             (result, key) \<Rightarrow> if result = 0 then Inr key else Inl SG_ERR_UNKNOWN)
      | _ \<Rightarrow> Inl SG_ERR_INVALID_KEY)"

definition curve_verify_signature :: "signal_context \<Rightarrow> ec_public_key \<Rightarrow> bytes \<Rightarrow> bytes \<Rightarrow> bool result" where
  "curve_verify_signature G signing_key message_data signature_data =
     (if length signature_data \<noteq> 64 then Inl SG_ERR_INVAL
      else Inr (curve25519_verify G signature_data (pub_data signing_key) message_data = 0))"

definition curve_calculate_signature ::
  "signal_context \<Rightarrow> ec_private_key \<Rightarrow> bytes \<Rightarrow> rng \<Rightarrow> bytes result \<times> rng" where
  "curve_calculate_signature G signing_key message_data r =
     (case signal_crypto_random G CURVE_SIGNATURE_LEN r of
        (Inl e, r') \<Rightarrow> (Inl e, r')
      | (Inr random_data, r') \<Rightarrow>
          (case curve25519_sign G (priv_data signing_key) message_data random_data of
             (result, buffer) \<Rightarrow>
               (if result < 0 then Inl (sg_error_of_code result) else Inr buffer, r')))"

section \<open>Properties\<close>

lemma curve_decode_serialize [simp]: "pub_ok k \<Longrightarrow> curve_decode_point (DJB_TYPE # pub_data k) = Inr k"
  by (cases k) (simp add: curve_decode_point_def pub_ok_def)

lemma curve_decode_point_inv:
  "curve_decode_point d = Inr k \<longleftrightarrow> pub_ok k \<and> d = DJB_TYPE # pub_data k"
  by (cases d; cases k) (auto simp: curve_decode_point_def pub_ok_def)

lemma curve_decode_private_inv:
  "curve_decode_private_point d = Inr k \<longleftrightarrow> priv_ok k \<and> d = priv_data k"
  by (cases k) (auto simp: curve_decode_private_point_def priv_ok_def)

lemma ec_public_key_compare_eq:
  "\<lbrakk>pred_option pub_ok k1; pred_option pub_ok k2\<rbrakk> \<Longrightarrow> ec_public_key_compare k1 k2 = 0 \<longleftrightarrow> k1 = k2"
  by (cases k1; cases k2)
     (auto simp: ec_public_key_compare_def pub_ok_def intro: ec_public_key.expand)

lemma ec_private_key_compare_eq:
  "\<lbrakk>pred_option priv_ok k1; pred_option priv_ok k2\<rbrakk> \<Longrightarrow> ec_private_key_compare k1 k2 = 0 \<longleftrightarrow> k1 = k2"
  by (cases k1; cases k2)
     (auto simp: ec_private_key_compare_def priv_ok_def intro: ec_private_key.expand)

text \<open>A key pair is matched when its public half is the one generated from its private half.\<close>

definition key_pair_ok :: "signal_context \<Rightarrow> ec_key_pair \<Rightarrow> bool" where
  "key_pair_ok G p \<longleftrightarrow>
     priv_ok (kp_private_key p) \<and> pub_ok (kp_public_key p) \<and>
     curve_generate_public_key G (kp_private_key p) = Inr (kp_public_key p)"

lemma curve_generate_private_key_ok:
  assumes "curve_generate_private_key G r = (Inr k, r')"
  shows "priv_ok k \<and> r' = Suc r \<and> priv_data k ! 0 AND 7 = 0 \<and> bit (priv_data k ! 31) 6
    \<and> \<not> bit (priv_data k ! 31) 7"
proof -
  obtain d where k: "priv_data k = (d[0 := d ! 0 AND 248])[31 := (d ! 31 AND 127) OR 64]"
    and len: "length d = 32" and r: "r' = Suc r"
  proof -
    obtain f where f: "random_func G r 32 = Inr f"
      using assms by (auto simp: curve_generate_private_key_def signal_crypto_random_def
          split: prod.splits sum.splits)
    with assms show thesis
      by (intro that [of "map f [0..<32]"])
         (auto simp: curve_generate_private_key_def signal_crypto_random_def Let_def)
  qed
  have "(d ! 0 AND 248) AND 7 = (0 :: u8)"
    by (simp add: and.assoc)
  moreover have "bit ((d ! 31 AND 127) OR 64) 6" "\<not> bit ((d ! 31 AND 127) OR 64) 7"
    by (simp_all add: bit_simps)
  ultimately show ?thesis using k len r by (simp add: priv_ok_def nth_list_update)
qed

lemma curve_generate_private_key_clamped:
  assumes "curve_generate_private_key G r = (Inr k, r')"
  shows "clamped (priv_data k)"
proof -
  obtain f where f: "random_func G r 32 = Inr f"
    using assms by (auto simp: curve_generate_private_key_def signal_crypto_random_def
        split: prod.splits sum.splits)
  have "clamped (clamp (map f [0..<32]))" by (rule clamped_clamp) simp
  with f assms show ?thesis
    by (auto simp: curve_generate_private_key_def signal_crypto_random_def Let_def clamp_def)
qed

text \<open>A matched pair whose private half is clamped can sign.\<close>

definition signing_pair_ok :: "signal_context \<Rightarrow> ec_key_pair \<Rightarrow> bool" where
  "signing_pair_ok G p \<longleftrightarrow> key_pair_ok G p \<and> clamped (priv_data (kp_private_key p))"

lemma curve_generate_key_pair_clamped:
  "curve_generate_key_pair G r = (Inr p, r') \<Longrightarrow> clamped (priv_data (kp_private_key p))"
  by (auto simp: curve_generate_key_pair_def ec_key_pair_create_def split: prod.splits sum.splits
      dest: curve_generate_private_key_clamped)

lemma curve_generate_key_pair_ok:
  assumes "curve25519_dh G" "curve_generate_key_pair G r = (Inr p, r')"
  shows "key_pair_ok G p"
proof -
  from assms(2) obtain sk pk
    where sk: "curve_generate_private_key G r = (Inr sk, r')"
      and pk: "curve_generate_public_key G sk = Inr pk" and p: "p = ec_key_pair_create pk sk"
    by (auto simp: curve_generate_key_pair_def split: prod.splits sum.splits)
  note ok = curve_generate_private_key_ok [OF sk]
  have "pub_ok pk"
    using pk ok curve25519_donna_ok [OF assms(1), of "priv_data sk" curve25519_basepoint]
    by (auto simp: curve_generate_public_key_def pub_ok_def priv_ok_def)
  with sk pk p ok show ?thesis
    by (simp add: key_pair_ok_def ec_key_pair_create_def)
qed

text \<open>Both sides of an exchange of public keys compute the same secret.\<close>

definition agreed :: "signal_context \<Rightarrow> ec_private_key \<Rightarrow> ec_public_key \<Rightarrow> bytes" where
  "agreed G sk pk = snd (curve25519_donna G (priv_data sk) (pub_data pk))"

lemma curve_calculate_agreement_ok:
  "\<lbrakk>curve25519_dh G; pub_ok pk; priv_ok sk\<rbrakk> \<Longrightarrow>
     curve_calculate_agreement G (Some pk) (Some sk) = Inr (agreed G sk pk)"
  using curve25519_donna_ok [of G "priv_data sk" "pub_data pk"]
  by (auto simp: curve_calculate_agreement_def agreed_def pub_ok_def priv_ok_def)

lemma agreed_length [len_simps]:
  "\<lbrakk>curve25519_dh G; pub_ok pk; priv_ok sk\<rbrakk> \<Longrightarrow> length (agreed G sk pk) = 32"
  by (simp add: agreed_def curve25519_dh_def pub_ok_def priv_ok_def)

lemma agreed_commute:
  assumes "curve25519_dh G" "key_pair_ok G p" "key_pair_ok G q"
  shows "agreed G (kp_private_key p) (kp_public_key q) = agreed G (kp_private_key q) (kp_public_key p)"
proof -
  have "pub_data (kp_public_key x) = snd (curve25519_donna G (priv_data (kp_private_key x)) curve25519_basepoint)"
    if "key_pair_ok G x" for x
    using that
    by (cases "kp_public_key x")
       (auto simp: key_pair_ok_def curve_generate_public_key_def split: prod.splits if_splits)
  with assms show ?thesis by (simp add: agreed_def curve25519_dh_def key_pair_ok_def priv_ok_def)
qed

end
