(* ===== verification/Hkdf.thy ===== *)
theory Hkdf
  imports Crypto
begin

text \<open>
  \<^verbatim>\<open>hkdf.c\<close>: HMAC-based key derivation.  The expansion loop counts in a \<^verbatim>\<open>uint8_t\<close> and
  compares with an \<^verbatim>\<open>int\<close>, so it may run for ever; it is a \<open>partial_function\<close>, with \<open>None\<close>
  for a loop that never ends.  \<open>hkdf_derive_secrets\<close> turns that into \<open>C_UNDEFINED\<close>.
  The laws: the result equals the derivation of RFC 5869 as long as the counter does not
  wrap, and the loop does not return as soon as it does, up to the output length where
  the number of blocks no longer fits in an \<^verbatim>\<open>int\<close>.
\<close>

definition HASH_OUTPUT_SIZE :: nat where "HASH_OUTPUT_SIZE = 32"

record hkdf_context =
  iteration_start_offset :: nat

text \<open>
  \<^verbatim>\<open>hkdf_create\<close> returns a status and what it leaves in \<^verbatim>\<open>*context\<close>: for an unknown version
  the new object is freed and the pointer to it stays.
\<close>

definition hkdf_create :: "u32 \<Rightarrow> unit result \<times> hkdf_context c_pointer" where
  "hkdf_create message_version =
     (if message_version = 2 then (Inr (), Live \<lparr>iteration_start_offset = 0\<rparr>)
      else if message_version = 3 then (Inr (), Live \<lparr>iteration_start_offset = 1\<rparr>)
      else (Inl SG_ERR_INVAL, Freed))"

definition hkdf_extract :: "signal_context \<Rightarrow> bytes \<Rightarrow> bytes \<Rightarrow> bytes result" where
  "hkdf_extract G salt input_key_material =
     signal_hmac_sha256_uninitialised G salt (signal_hmac_sha256_feed G salt [input_key_material])"

text \<open>
  The loop of \<^verbatim>\<open>hkdf_expand\<close> at counter \<open>i\<close>: \<open>bound\<close> is \<^verbatim>\<open>iterations + iteration_start_offset\<close>,
  \<open>step\<close> the previous block if there is one, \<open>buf\<close> the output so far.
\<close>

partial_function (option) hkdf_expand_loop ::
  "signal_context \<Rightarrow> bytes \<Rightarrow> bytes option \<Rightarrow> nat \<Rightarrow> u8 \<Rightarrow> nat \<Rightarrow> bytes option \<Rightarrow> bytes \<Rightarrow> bytes result option"
where
  [code]: "hkdf_expand_loop G prk info bound i remaining step buf =
     (if unat i < bound then
        (case signal_hmac_sha256 G prk
               ((case step of None \<Rightarrow> [] | Some s \<Rightarrow> [s]) @ (case info of None \<Rightarrow> [] | Some s \<Rightarrow> [s]) @ [[i]]) of
           Inl e \<Rightarrow> Some (Inl e)
         | Inr s \<Rightarrow>
             hkdf_expand_loop G prk info bound (i + 1) (remaining - min remaining (length s)) (Some s)
               (buf @ take (min remaining (length s)) s))
      else Some (Inr buf))"

definition hkdf_iterations :: "nat \<Rightarrow> nat" where
  "hkdf_iterations output_len = (output_len + HASH_OUTPUT_SIZE - 1) div HASH_OUTPUT_SIZE"

text \<open>
  The number of blocks is a \<^verbatim>\<open>double\<close> cast to \<^verbatim>\<open>int\<close>, and the bound of the loop an \<^verbatim>\<open>int\<close> sum:
  neither is defined beyond \<open>INT_MAX\<close>.  (Below it the quotient is exact.)
\<close>

definition INT_MAX :: int where "INT_MAX = 2 ^ 31 - 1"

definition hkdf_expand ::
  "signal_context \<Rightarrow> hkdf_context \<Rightarrow> bytes \<Rightarrow> bytes option \<Rightarrow> nat \<Rightarrow> bytes result option" where
  "hkdf_expand G context prk info output_len =
     (if INT_MAX < int (hkdf_iterations output_len) + int (iteration_start_offset context)
      then Some (Inl C_UNDEFINED)
      else hkdf_expand_loop G prk info (hkdf_iterations output_len + iteration_start_offset context)
             (of_nat (iteration_start_offset context)) output_len None [])"

definition hkdf_derive_secrets ::
  "signal_context \<Rightarrow> hkdf_context \<Rightarrow> bytes \<Rightarrow> bytes \<Rightarrow> bytes option \<Rightarrow> nat \<Rightarrow> bytes result" where
  "hkdf_derive_secrets G context input_key_material salt info output_len =
     (case hkdf_extract G salt input_key_material of Inl e \<Rightarrow> Inl e
      | Inr prk \<Rightarrow>
         (case hkdf_expand G context prk info output_len of None \<Rightarrow> Inl C_UNDEFINED | Some res \<Rightarrow> res))"

definition hkdf_compare :: "hkdf_context option \<Rightarrow> hkdf_context option \<Rightarrow> int" where
  "hkdf_compare context1 context2 =
     (case (context1, context2) of
        (None, None) \<Rightarrow> 0 | (None, Some _) \<Rightarrow> -1 | (Some _, None) \<Rightarrow> 1
      | (Some c1, Some c2) \<Rightarrow>
          if iteration_start_offset c1 < iteration_start_offset c2 then -1
          else if iteration_start_offset c2 < iteration_start_offset c1 then 1 else 0)"

lemma hkdf_compare_eq: "hkdf_compare c1 c2 = 0 \<longleftrightarrow> c1 = c2"
  by (cases c1; cases c2) (auto simp: hkdf_compare_def intro: hkdf_context.equality)

lemma hkdf_create_simps [simp]:
  "hkdf_create 2 = (Inr (), Live \<lparr>iteration_start_offset = 0\<rparr>)"
  "hkdf_create 3 = (Inr (), Live \<lparr>iteration_start_offset = 1\<rparr>)"
  by (simp_all add: hkdf_create_def)

lemma hkdf_create_inject:
  "\<lbrakk>hkdf_create v = (Inr (), Live c); hkdf_create w = (Inr (), Live c)\<rbrakk> \<Longrightarrow> v = w"
  by (auto simp: hkdf_create_def split: if_splits)

section \<open>The derivation of RFC 5869\<close>

text \<open>
  The reference: block \<open>k\<close> is the HMAC of the previous block, the info and the counter,
  and the output is the prefix of the concatenated blocks.  Version 2 sessions start the
  counter at 0, the RFC and version 3 at 1.
\<close>

fun rfc_block :: "(bytes \<Rightarrow> bytes \<Rightarrow> bytes) \<Rightarrow> bytes \<Rightarrow> bytes \<Rightarrow> nat \<Rightarrow> nat \<Rightarrow> bytes" where
  "rfc_block hm prk info off 0 = []"
| "rfc_block hm prk info off (Suc k) =
     hm prk (rfc_block hm prk info off k @ info @ [of_nat (off + k)])"

definition rfc_hkdf :: "(bytes \<Rightarrow> bytes \<Rightarrow> bytes) \<Rightarrow> nat \<Rightarrow> bytes \<Rightarrow> bytes \<Rightarrow> bytes \<Rightarrow> nat \<Rightarrow> bytes" where
  "rfc_hkdf hm off ikm salt info len =
     take len (concat (map (rfc_block hm (hm salt ikm) info off) [1..<Suc (hkdf_iterations len)]))"

lemma hkdf_iterations_bounds:
  "len \<le> 32 * hkdf_iterations len" "k < hkdf_iterations len \<Longrightarrow> 32 * k < len"
  by (simp_all add: hkdf_iterations_def HASH_OUTPUT_SIZE_def)

lemma rfc_block_concat_length:
  assumes "hmac_sha256_of G hm"
  shows "length (concat (map (rfc_block hm prk info off) [1..<Suc k])) = 32 * k"
  using hmac_sha256_of_length [OF assms] by (induction k) simp_all

lemma rfc_hkdf_length [len_simps]:
  "hmac_sha256_of G hm \<Longrightarrow> length (rfc_hkdf hm off ikm salt info len) = len"
  using rfc_block_concat_length [of G hm "hm salt ikm" info off "hkdf_iterations len"]
    hkdf_iterations_bounds(1) [of len]
  by (simp add: rfc_hkdf_def del: upt_Suc)

text \<open>
  The loop, started after \<open>k\<close> of \<open>n\<close> blocks, completes them.
\<close>

lemma hkdf_expand_loop_blocks:
  assumes hm: "hmac_sha256_of G hm" and wrap: "n + off \<le> 255"
    and k: "k \<le> n" "32 * (n - 1) < len \<or> n = 0"
  shows "hkdf_expand_loop G prk info (n + off) (of_nat (k + off)) (len - 32 * k)
      (if k = 0 then None else Some (rfc_block hm prk (case info of None \<Rightarrow> [] | Some s \<Rightarrow> s) off k))
      (take len (concat (map (rfc_block hm prk (case info of None \<Rightarrow> [] | Some s \<Rightarrow> s) off) [1..<Suc k])))
    = Some (Inr (take len (concat (map (rfc_block hm prk (case info of None \<Rightarrow> [] | Some s \<Rightarrow> s) off) [1..<Suc n]))))"
  using k(1)
proof (induction "n - k" arbitrary: k)
  case 0
  then have "unat (of_nat (k + off) :: u8) = n + off"
    using wrap unat_byte [of "k + off"] by simp
  with 0 show ?case by (simp add: hkdf_expand_loop.simps)
next
  case (Suc d)
  let ?info = "case info of None \<Rightarrow> [] | Some s \<Rightarrow> s" and ?T = "rfc_block hm prk (case info of None \<Rightarrow> [] | Some s \<Rightarrow> s) off"
  let ?buf = "concat (map ?T [1..<Suc k])"
  have kn: "k < n" using Suc by simp
  have i: "unat (of_nat (k + off) :: u8) = k + off"
    using wrap kn unat_byte [of "k + off"] by simp
  have T: "?T (Suc k) = hm prk (?T k @ ?info @ [of_nat (k + off)])" "length (?T (Suc k)) = 32"
    using hmac_sha256_of_length [OF hm] by (simp_all add: add.commute)
  have step: "signal_hmac_sha256 G prk
      ((case (if k = 0 then None else Some (?T k)) of None \<Rightarrow> [] | Some s \<Rightarrow> [s])
        @ (case info of None \<Rightarrow> [] | Some s \<Rightarrow> [s]) @ [[of_nat (k + off)]]) = Inr (?T (Suc k))"
    unfolding signal_hmac_sha256_ok [OF hm] T(1) by (cases k; cases info) simp_all
  have len: "length ?buf = 32 * k" by (rule rfc_block_concat_length [OF hm])
  have buf: "take len ?buf @ take (min (len - 32 * k) 32) (?T (Suc k))
      = take len (concat (map ?T [1..<Suc (Suc k)]))"
    using len T(2) by (cases "len - 32 * k \<le> 32") (simp_all add: min_def)
  have rem: "len - (32 * k + min (len - 32 * k) 32) = len - (32 + 32 * k)"
    by (simp add: min_def add.commute)
  have "hkdf_expand_loop G prk info (n + off) (of_nat (Suc k + off)) (len - 32 * Suc k)
      (if Suc k = 0 then None else Some (?T (Suc k))) (take len (concat (map ?T [1..<Suc (Suc k)])))
    = Some (Inr (take len (concat (map ?T [1..<Suc n]))))"
    using Suc by (intro Suc(1)) auto
  then show ?case
    using i kn T(2) buf step
    by (subst hkdf_expand_loop.simps) (simp add: add.commute rem del: rfc_block.simps upt_Suc)
qed

lemma hkdf_expand_rfc:
  assumes "hmac_sha256_of G hm" "hkdf_iterations len + iteration_start_offset c \<le> 255"
  shows "hkdf_expand G c prk info len
    = Some (Inr (take len (concat (map (rfc_block hm prk (case info of None \<Rightarrow> [] | Some s \<Rightarrow> s)
        (iteration_start_offset c)) [1..<Suc (hkdf_iterations len)]))))"
  using hkdf_expand_loop_blocks [OF assms, of 0 len prk info] assms(2)
    hkdf_iterations_bounds(2) [of "hkdf_iterations len - 1" len]
  by (auto simp: hkdf_expand_def INT_MAX_def)

lemma hkdf_derive_secrets_rfc:
  assumes "hmac_sha256_of G hm" "hkdf_iterations len + iteration_start_offset c \<le> 255"
  shows "hkdf_derive_secrets G c ikm salt info len
    = Inr (rfc_hkdf hm (iteration_start_offset c) ikm salt (case info of None \<Rightarrow> [] | Some s \<Rightarrow> s) len)"
  using hkdf_expand_rfc [OF assms]
  by (simp add: hkdf_derive_secrets_def hkdf_extract_def signal_hmac_sha256_uninitialised_ok [OF assms(1)]
      rfc_hkdf_def del: upt_Suc)

text \<open>
  Past that limit the counter never reaches the bound: with an HMAC that does not fail,
  the loop does not return.
\<close>

lemma hkdf_expand_loop_returns:
  assumes "hkdf_expand_loop G prk info bound i remaining step buf = Some res" "hmac_sha256_of G hm"
  shows "bound \<le> 255"
proof -
  have "hmac_sha256_of G hm \<longrightarrow> bound \<le> 255"
  proof (rule hkdf_expand_loop.raw_induct
      [of "\<lambda>G prk info bound i remaining step buf y. hmac_sha256_of G hm \<longrightarrow> bound \<le> 255", OF _ assms(1)])
    fix loop G prk info bound i remaining step buf and y :: "bytes result"
    assume IH: "\<And>G prk info bound i remaining step buf y.
        loop G prk info bound i remaining step buf = Some y \<Longrightarrow> hmac_sha256_of G hm \<longrightarrow> bound \<le> 255"
      and body: "(if unat (i :: u8) < bound then
        (case signal_hmac_sha256 G prk
               ((case step of None \<Rightarrow> [] | Some s \<Rightarrow> [s]) @ (case info of None \<Rightarrow> [] | Some s \<Rightarrow> [s]) @ [[i]]) of
           Inl e \<Rightarrow> Some (Inl e)
         | Inr s \<Rightarrow> loop G prk info bound (i + 1) (remaining - min remaining (length s)) (Some s)
               (buf @ take (min remaining (length s)) s))
        else Some (Inr buf)) = Some y"
    show "hmac_sha256_of G hm \<longrightarrow> bound \<le> 255"
    proof
      assume hm: "hmac_sha256_of G hm"
      show "bound \<le> 255"
      proof (cases "unat i < bound")
        case True
        with body hm IH show ?thesis by (auto simp: signal_hmac_sha256_ok [OF hm])
      next
        case False
        with unat_byte_le [of i] show ?thesis by simp
      qed
    qed
  qed
  with assms(2) show ?thesis by simp
qed

lemma hkdf_expand_diverges:
  "\<lbrakk>hmac_sha256_of G hm; 255 < hkdf_iterations len + iteration_start_offset c;
     int (hkdf_iterations len) + int (iteration_start_offset c) \<le> INT_MAX\<rbrakk> \<Longrightarrow>
     hkdf_expand G c prk info len = None"
  by (cases "hkdf_expand G c prk info len")
     (auto simp: hkdf_expand_def dest: hkdf_expand_loop_returns)

end
