(* ===== verification/Ratchet.thy ===== *)
theory Ratchet
  imports Structures Curve Hkdf
begin

text \<open>
  The keys of \<^verbatim>\<open>ratchet.c\<close>: chain keys, the message keys derived from them, root keys, and
  identity key pairs with their serialised form.  The symmetric step of a chain is
  \<open>ratchet_chain_key_create_next\<close>, the Diffie-Hellman step of a root
  \<open>ratchet_root_key_create_chain\<close>.
\<close>

definition ascii :: "string \<Rightarrow> bytes" where
  "ascii s = map of_char s"

definition RATCHET_CIPHER_KEY_LENGTH :: nat where "RATCHET_CIPHER_KEY_LENGTH = 32"
definition RATCHET_MAC_KEY_LENGTH :: nat where "RATCHET_MAC_KEY_LENGTH = 32"
definition RATCHET_IV_LENGTH :: nat where "RATCHET_IV_LENGTH = 16"
definition DERIVED_MESSAGE_SECRETS_SIZE :: nat where "DERIVED_MESSAGE_SECRETS_SIZE = 80"
definition DERIVED_ROOT_SECRETS_SIZE :: nat where "DERIVED_ROOT_SECRETS_SIZE = 64"

lemmas ratchet_consts [simp] = RATCHET_CIPHER_KEY_LENGTH_def RATCHET_MAC_KEY_LENGTH_def
  RATCHET_IV_LENGTH_def DERIVED_MESSAGE_SECRETS_SIZE_def DERIVED_ROOT_SECRETS_SIZE_def

record ratchet_message_keys =
  mk_cipher_key :: bytes
  mk_mac_key :: bytes
  mk_iv :: bytes
  mk_counter :: u32

record ratchet_chain_key =
  ck_kdf :: hkdf_context
  ck_key :: bytes
  ck_index :: u32

record ratchet_root_key =
  rk_kdf :: hkdf_context
  rk_key :: bytes

record ratchet_identity_key_pair =
  ik_public_key :: ec_public_key
  ik_private_key :: ec_private_key

section \<open>Chain keys\<close>

definition ratchet_chain_key_create ::
  "hkdf_context option \<Rightarrow> bytes option \<Rightarrow> u32 \<Rightarrow> ratchet_chain_key result" where
  "ratchet_chain_key_create kdf key index =
     (case (kdf, key) of
        (Some c, Some k) \<Rightarrow> Inr \<lparr>ck_kdf = c, ck_key = k, ck_index = index\<rparr>
      | _ \<Rightarrow> Inl SG_ERR_INVAL)"

definition ratchet_chain_key_get_base_material ::
  "signal_context \<Rightarrow> ratchet_chain_key \<Rightarrow> bytes \<Rightarrow> bytes result" where
  "ratchet_chain_key_get_base_material G chain_key seed = signal_hmac_sha256 G (ck_key chain_key) [seed]"

definition ratchet_chain_key_get_message_keys ::
  "signal_context \<Rightarrow> ratchet_chain_key \<Rightarrow> ratchet_message_keys result" where
  "ratchet_chain_key_get_message_keys G chain_key =
     (case ratchet_chain_key_get_base_material G chain_key [0x01] of Inl e \<Rightarrow> Inl e
      | Inr input_key_material \<Rightarrow>
         (case hkdf_derive_secrets G (ck_kdf chain_key) input_key_material (replicate HASH_OUTPUT_SIZE 0)
                 (Some (ascii ''WhisperMessageKeys'')) DERIVED_MESSAGE_SECRETS_SIZE of Inl e \<Rightarrow> Inl e
          | Inr key_material_data \<Rightarrow>
             (if length key_material_data \<noteq>
                 RATCHET_CIPHER_KEY_LENGTH + RATCHET_MAC_KEY_LENGTH + RATCHET_IV_LENGTH
              then Inl SG_ERR_UNKNOWN
              else Inr
                \<lparr>mk_cipher_key = take RATCHET_CIPHER_KEY_LENGTH key_material_data,
                 mk_mac_key = take RATCHET_MAC_KEY_LENGTH (drop RATCHET_CIPHER_KEY_LENGTH key_material_data),
                 mk_iv = take RATCHET_IV_LENGTH
                   (drop (RATCHET_CIPHER_KEY_LENGTH + RATCHET_MAC_KEY_LENGTH) key_material_data),
                 mk_counter = ck_index chain_key\<rparr>)))"

definition ratchet_chain_key_create_next ::
  "signal_context \<Rightarrow> ratchet_chain_key \<Rightarrow> ratchet_chain_key result" where
  "ratchet_chain_key_create_next G chain_key =
     (case ratchet_chain_key_get_base_material G chain_key [0x02] of Inl e \<Rightarrow> Inl e
      | Inr next_key \<Rightarrow>
          ratchet_chain_key_create (Some (ck_kdf chain_key)) (Some next_key) (ck_index chain_key + 1))"

section \<open>Root keys\<close>

definition ratchet_root_key_create ::
  "hkdf_context option \<Rightarrow> bytes option \<Rightarrow> ratchet_root_key result" where
  "ratchet_root_key_create kdf key =
     (case (kdf, key) of
        (Some c, Some k) \<Rightarrow> Inr \<lparr>rk_kdf = c, rk_key = k\<rparr>
      | _ \<Rightarrow> Inl SG_ERR_INVAL)"

definition ratchet_root_key_create_chain ::
  "signal_context \<Rightarrow> ratchet_root_key \<Rightarrow> ec_public_key option \<Rightarrow> ec_private_key option
     \<Rightarrow> (ratchet_root_key \<times> ratchet_chain_key) result" where
  "ratchet_root_key_create_chain G root_key their_ratchet_key our_ratchet_key_private =
     (if their_ratchet_key = None \<or> our_ratchet_key_private = None then Inl SG_ERR_INVAL
      else (case curve_calculate_agreement G their_ratchet_key our_ratchet_key_private of Inl e \<Rightarrow> Inl e
        | Inr shared_secret \<Rightarrow>
           (case hkdf_derive_secrets G (rk_kdf root_key) shared_secret (rk_key root_key)
                   (Some (ascii ''WhisperRatchet'')) DERIVED_ROOT_SECRETS_SIZE of Inl e \<Rightarrow> Inl e
            | Inr derived_secret \<Rightarrow>
               (if length derived_secret \<noteq> DERIVED_ROOT_SECRETS_SIZE then Inl SG_ERR_UNKNOWN
                else (case ratchet_root_key_create (Some (rk_kdf root_key)) (Some (take 32 derived_secret)) of
                    Inl e \<Rightarrow> Inl e
                  | Inr new_root_key \<Rightarrow>
                     (case ratchet_chain_key_create (Some (rk_kdf root_key))
                             (Some (take 32 (drop 32 derived_secret))) 0 of
                        Inl e \<Rightarrow> Inl e
                      | Inr new_chain_key \<Rightarrow> Inr (new_root_key, new_chain_key)))))))"

definition ratchet_root_key_compare :: "ratchet_root_key option \<Rightarrow> ratchet_root_key option \<Rightarrow> int" where
  "ratchet_root_key_compare key1 key2 =
     (case (key1, key2) of
        (None, None) \<Rightarrow> 0 | (None, Some _) \<Rightarrow> -1 | (Some _, None) \<Rightarrow> 1
      | (Some k1, Some k2) \<Rightarrow>
          (let kdf_compare = hkdf_compare (Some (rk_kdf k1)) (Some (rk_kdf k2)) in
           if kdf_compare \<noteq> 0 then kdf_compare
           else if length (rk_key k1) < length (rk_key k2) then -1
           else if length (rk_key k2) < length (rk_key k1) then 1
           else signal_constant_memcmp (rk_key k1) (rk_key k2) (length (rk_key k1))))"

text \<open>\<^verbatim>\<open>ratcheting_session_calculate_derived_keys\<close>: any size but 64 is \<^verbatim>\<open>SG_ERR_UNKNOWN\<close>.\<close>

definition ratcheting_session_calculate_derived_keys ::
  "signal_context \<Rightarrow> bytes \<Rightarrow> (ratchet_root_key \<times> ratchet_chain_key) result" where
  "ratcheting_session_calculate_derived_keys G secret =
     (case hkdf_create 3 of (status, kdf) \<Rightarrow>
        SIGNAL_UNREF kdf
          (case status of Inl e \<Rightarrow> Inl e
           | Inr _ \<Rightarrow>
          (case deref kdf of Inl e \<Rightarrow> Inl e
           | Inr context \<Rightarrow>
          (case hkdf_derive_secrets G context secret (replicate HASH_OUTPUT_SIZE 0)
                  (Some (ascii ''WhisperText'')) 64 of
             Inl e \<Rightarrow> Inl (if e = C_UNDEFINED then C_UNDEFINED else SG_ERR_UNKNOWN)
           | Inr out \<Rightarrow>
              (if length out \<noteq> 64 then Inl SG_ERR_UNKNOWN
               else (case ratchet_root_key_create (Some context) (Some (take 32 out)) of Inl e \<Rightarrow> Inl e
                 | Inr root_key \<Rightarrow>
                    (case ratchet_chain_key_create (Some context) (Some (take 32 (drop 32 out))) 0 of
                       Inl e \<Rightarrow> Inl e | Inr chain_key \<Rightarrow> Inr (root_key, chain_key))))))))"

section \<open>Identity key pairs\<close>

definition ratchet_identity_key_pair_create ::
  "ec_public_key \<Rightarrow> ec_private_key \<Rightarrow> ratchet_identity_key_pair" where
  "ratchet_identity_key_pair_create public_key private_key =
     \<lparr>ik_public_key = public_key, ik_private_key = private_key\<rparr>"

definition ratchet_identity_key_pair_serialize :: "ratchet_identity_key_pair option \<Rightarrow> bytes result" where
  "ratchet_identity_key_pair_serialize key_pair =
     (case key_pair of None \<Rightarrow> Inl SG_ERR_INVAL
      | Some kp \<Rightarrow>
         (case ec_public_key_serialize_protobuf (Some (ik_public_key kp)) of Inl e \<Rightarrow> Inl e
          | Inr pub \<Rightarrow>
             (case ec_private_key_serialize_protobuf (Some (ik_private_key kp)) of Inl e \<Rightarrow> Inl e
              | Inr priv \<Rightarrow>
                  pb_serialize sik_desc (sik_to_pb \<lparr>sik_publickey = Some pub, sik_privatekey = Some priv\<rparr>))))"

definition ratchet_identity_key_pair_deserialize :: "bytes \<Rightarrow> ratchet_identity_key_pair result" where
  "ratchet_identity_key_pair_deserialize data =
     (case pb_deserialize sik_desc data of Inl e \<Rightarrow> Inl e
      | Inr m \<Rightarrow>
         (case (sik_publickey (sik_of_pb m), sik_privatekey (sik_of_pb m)) of
            (Some pub, Some priv) \<Rightarrow>
              (case curve_decode_point pub of Inl e \<Rightarrow> Inl e
               | Inr public_key \<Rightarrow>
                  (case curve_decode_private_point priv of Inl e \<Rightarrow> Inl e
                   | Inr private_key \<Rightarrow> Inr (ratchet_identity_key_pair_create public_key private_key)))
          | _ \<Rightarrow> Inl SG_ERR_INVALID_KEY))"

section \<open>Invariants\<close>

text \<open>
  Message keys have the sizes of the C arrays; the context of a key comes from
  \<^verbatim>\<open>hkdf_create\<close> and its bytes are one HMAC output.
\<close>

definition mk_ok :: "ratchet_message_keys \<Rightarrow> bool" where
  "mk_ok mk \<longleftrightarrow> length (mk_cipher_key mk) = 32 \<and> length (mk_mac_key mk) = 32 \<and> length (mk_iv mk) = 16"

definition ck_ok :: "u32 \<Rightarrow> ratchet_chain_key \<Rightarrow> bool" where
  "ck_ok v ck \<longleftrightarrow> hkdf_create v = (Inr (), Live (ck_kdf ck)) \<and> length (ck_key ck) = 32"

definition rk_ok :: "u32 \<Rightarrow> ratchet_root_key \<Rightarrow> bool" where
  "rk_ok v rk \<longleftrightarrow> hkdf_create v = (Inr (), Live (rk_kdf rk)) \<and> length (rk_key rk) = 32"

definition ik_ok :: "signal_context \<Rightarrow> ratchet_identity_key_pair \<Rightarrow> bool" where
  "ik_ok G kp \<longleftrightarrow> key_pair_ok G \<lparr>kp_public_key = ik_public_key kp, kp_private_key = ik_private_key kp\<rparr>"

lemma hkdf_create_offset: "hkdf_create v = (Inr (), Live c) \<Longrightarrow> iteration_start_offset c \<le> 1"
  by (auto simp: hkdf_create_def split: if_splits)

text \<open>The chain counts its steps, and message keys carry the position they were made at.\<close>

lemma ratchet_chain_key_create_next_index:
  "ratchet_chain_key_create_next G ck = Inr ck' \<Longrightarrow>
     ck_index ck' = ck_index ck + 1 \<and> ck_kdf ck' = ck_kdf ck"
  by (auto simp: ratchet_chain_key_create_next_def ratchet_chain_key_create_def result_simps)

lemma ratchet_chain_key_get_message_keys_ok:
  "ratchet_chain_key_get_message_keys G ck = Inr mk \<Longrightarrow> mk_counter mk = ck_index ck \<and> mk_ok mk"
  by (auto simp: ratchet_chain_key_get_message_keys_def mk_ok_def result_simps)

text \<open>With a provider that computes HMAC, a chain never gets stuck.\<close>

lemma ratchet_chain_key_create_next_hmac:
  "hmac_sha256_of G hm \<Longrightarrow>
     ratchet_chain_key_create_next G ck
       = Inr \<lparr>ck_kdf = ck_kdf ck, ck_key = hm (ck_key ck) [2], ck_index = ck_index ck + 1\<rparr>"
  by (simp add: ratchet_chain_key_create_next_def ratchet_chain_key_get_base_material_def
      signal_hmac_sha256_ok ratchet_chain_key_create_def)

lemma ck_ok_next:
  "\<lbrakk>hmac_sha256_of G hm; ck_ok v ck; ratchet_chain_key_create_next G ck = Inr ck'\<rbrakk> \<Longrightarrow> ck_ok v ck'"
  using hmac_sha256_of_length [of G hm "ck_key ck" "[2]"]
  by (auto simp: ratchet_chain_key_create_next_hmac ck_ok_def)

lemma hkdf_derive_secrets_small:
  assumes "hmac_sha256_of G hm" "hkdf_create v = (Inr (), Live c)" "len \<le> 128"
  shows "hkdf_derive_secrets G c ikm salt info len
    = Inr (rfc_hkdf hm (iteration_start_offset c) ikm salt (case info of None \<Rightarrow> [] | Some s \<Rightarrow> s) len)"
  using assms(3) hkdf_create_offset [OF assms(2)]
  by (intro hkdf_derive_secrets_rfc [OF assms(1)])
     (simp add: hkdf_iterations_def HASH_OUTPUT_SIZE_def)

lemma ratchet_chain_key_get_message_keys_total:
  assumes "hmac_sha256_of G hm" "ck_ok v ck"
  shows "\<exists>mk. ratchet_chain_key_get_message_keys G ck = Inr mk"
  using assms hkdf_derive_secrets_small [of G hm v "ck_kdf ck" 80]
  by (simp add: ratchet_chain_key_get_message_keys_def ratchet_chain_key_get_base_material_def
      signal_hmac_sha256_ok ck_ok_def rfc_hkdf_length)

lemma ratchet_root_key_create_chain_total:
  assumes "hmac_sha256_of G hm" "curve25519_dh G" "rk_ok v rk" "pub_ok pk" "priv_ok sk"
  shows "\<exists>rk' ck. ratchet_root_key_create_chain G rk (Some pk) (Some sk) = Inr (rk', ck) \<and>
    rk_ok v rk' \<and> ck_ok v ck \<and> ck_index ck = 0"
proof -
  let ?d = "rfc_hkdf hm (iteration_start_offset (rk_kdf rk)) (agreed G sk pk) (rk_key rk) (ascii ''WhisperRatchet'') 64"
  have "hkdf_derive_secrets G (rk_kdf rk) (agreed G sk pk) (rk_key rk) (Some (ascii ''WhisperRatchet'')) 64 = Inr ?d"
    using assms(3) hkdf_derive_secrets_small [OF assms(1), of v "rk_kdf rk" 64] by (simp add: rk_ok_def)
  moreover have "length ?d = 64" using assms(1) by (rule rfc_hkdf_length)
  ultimately show ?thesis
    using assms by (simp add: ratchet_root_key_create_chain_def curve_calculate_agreement_ok
        ratchet_root_key_create_def ratchet_chain_key_create_def rk_ok_def ck_ok_def)
qed

lemma ratcheting_session_calculate_derived_keys_total:
  assumes "hmac_sha256_of G hm"
  shows "\<exists>rk ck. ratcheting_session_calculate_derived_keys G secret = Inr (rk, ck) \<and>
    rk_ok 3 rk \<and> ck_ok 3 ck \<and> ck_index ck = 0"
proof -
  let ?d = "rfc_hkdf hm 1 secret (replicate 32 0) (ascii ''WhisperText'') 64"
  have "hkdf_derive_secrets G \<lparr>iteration_start_offset = 1\<rparr> secret (replicate 32 0) (Some (ascii ''WhisperText'')) 64 = Inr ?d"
    using hkdf_derive_secrets_small [OF assms, of 3 "\<lparr>iteration_start_offset = 1\<rparr>" 64]
    by (simp add: hkdf_create_def)
  moreover have "length ?d = 64" using assms by (rule rfc_hkdf_length)
  ultimately show ?thesis
    by (simp add: ratcheting_session_calculate_derived_keys_def hkdf_create_def HASH_OUTPUT_SIZE_def
        ratchet_root_key_create_def ratchet_chain_key_create_def rk_ok_def ck_ok_def)
qed

lemma ratchet_root_key_compare_eq: "ratchet_root_key_compare k1 k2 = 0 \<longleftrightarrow> k1 = k2"
  using hkdf_compare_eq [of "map_option rk_kdf k1" "map_option rk_kdf k2"]
  by (cases k1; cases k2)
     (auto simp: ratchet_root_key_compare_def Let_def intro: ratchet_root_key.equality)

lemma identity_key_pair_roundtrip:
  assumes "ratchet_identity_key_pair_serialize (Some kp) = Inr d" "length d < 2 ^ 31"
    and "pub_ok (ik_public_key kp)" "priv_ok (ik_private_key kp)"
  shows "ratchet_identity_key_pair_deserialize d = Inr kp"
proof -
  let ?s = "\<lparr>sik_publickey = Some (DJB_TYPE # pub_data (ik_public_key kp)),
    sik_privatekey = Some (priv_data (ik_private_key kp))\<rparr>"
  from assms(1) have "pb_serialize sik_desc (sik_to_pb ?s) = Inr d"
    by (simp add: ratchet_identity_key_pair_serialize_def ec_public_key_serialize_protobuf_def
        ec_private_key_serialize_protobuf_def)
  from sik.deserialize_serialize [OF this assms(2)] show ?thesis
    using assms(3,4) curve_decode_serialize [OF assms(3)]
      curve_decode_private_inv [of "priv_data (ik_private_key kp)" "ik_private_key kp"]
    by (simp add: ratchet_identity_key_pair_deserialize_def ratchet_identity_key_pair_create_def)
qed

end
