(* ===== verification/Session_State.thy ===== *)
theory Session_State
  imports Ratchet
begin

text \<open>
  \<^verbatim>\<open>session_state.c\<close>: the state of one session, its bounded lists of receiver chains and
  stored message keys, and its serialised form.  A flag \<^verbatim>\<open>has_x\<close> keeps its own field as in
  the struct, because the code reads the guarded part without looking at the flag in some
  places; a pointer that may be null is an option.
\<close>

definition MAX_MESSAGE_KEYS :: nat where "MAX_MESSAGE_KEYS = 2000"
definition MAX_RECEIVER_CHAINS :: nat where "MAX_RECEIVER_CHAINS = 5"

record session_state_sender_chain =
  sc_sender_ratchet_key_pair :: "ec_key_pair option"
  sc_chain_key :: "ratchet_chain_key option"
  sc_message_keys :: "ratchet_message_keys list"

record session_state_receiver_chain =
  rc_sender_ratchet_key :: "ec_public_key option"
  rc_chain_key :: "ratchet_chain_key option"
  rc_message_keys :: "ratchet_message_keys list"

record session_pending_key_exchange =
  pke_sequence :: u32
  pke_local_base_key :: "ec_key_pair option"
  pke_local_ratchet_key :: "ec_key_pair option"
  pke_local_identity_key :: "ratchet_identity_key_pair option"

record session_pending_pre_key =
  ppk_has_pre_key_id :: bool
  ppk_pre_key_id :: u32
  ppk_signed_pre_key_id :: u32
  ppk_base_key :: "ec_public_key option"

record session_state =
  ss_session_version :: u32
  ss_local_identity_public :: "ec_public_key option"
  ss_remote_identity_public :: "ec_public_key option"
  ss_root_key :: "ratchet_root_key option"
  ss_previous_counter :: u32
  ss_has_sender_chain :: bool
  ss_sender_chain :: session_state_sender_chain
  ss_receiver_chains :: "session_state_receiver_chain list"
  ss_has_pending_key_exchange :: bool
  ss_pending_key_exchange :: session_pending_key_exchange
  ss_has_pending_pre_key :: bool
  ss_pending_pre_key :: session_pending_pre_key
  ss_remote_registration_id :: u32
  ss_local_registration_id :: u32
  ss_needs_refresh :: bool
  ss_alice_base_key :: "ec_public_key option"

definition sender_chain_zero :: session_state_sender_chain where
  "sender_chain_zero = \<lparr>sc_sender_ratchet_key_pair = None, sc_chain_key = None, sc_message_keys = []\<rparr>"

definition pending_key_exchange_zero :: session_pending_key_exchange where
  "pending_key_exchange_zero = \<lparr>pke_sequence = 0, pke_local_base_key = None,
     pke_local_ratchet_key = None, pke_local_identity_key = None\<rparr>"

definition pending_pre_key_zero :: session_pending_pre_key where
  "pending_pre_key_zero = \<lparr>ppk_has_pre_key_id = False, ppk_pre_key_id = 0,
     ppk_signed_pre_key_id = 0, ppk_base_key = None\<rparr>"

definition session_state_create :: session_state where
  "session_state_create =
     \<lparr>ss_session_version = 2, ss_local_identity_public = None, ss_remote_identity_public = None,
      ss_root_key = None, ss_previous_counter = 0, ss_has_sender_chain = False,
      ss_sender_chain = sender_chain_zero, ss_receiver_chains = [],
      ss_has_pending_key_exchange = False, ss_pending_key_exchange = pending_key_exchange_zero,
      ss_has_pending_pre_key = False, ss_pending_pre_key = pending_pre_key_zero,
      ss_remote_registration_id = 0, ss_local_registration_id = 0, ss_needs_refresh = False,
      ss_alice_base_key = None\<rparr>"

section \<open>Serialisation\<close>

definition session_state_serialize_prepare_chain_chain_key :: "ratchet_chain_key \<Rightarrow> ChainKey" where
  "session_state_serialize_prepare_chain_chain_key chain_key =
     \<lparr>sck_index = Some (ck_index chain_key), sck_key = Some (ck_key chain_key)\<rparr>"

definition session_state_serialize_prepare_message_keys :: "ratchet_message_keys \<Rightarrow> MessageKey" where
  "session_state_serialize_prepare_message_keys message_key =
     \<lparr>smk_index = Some (mk_counter message_key), smk_cipherkey = Some (mk_cipher_key message_key),
      smk_mackey = Some (mk_mac_key message_key), smk_iv = Some (mk_iv message_key)\<rparr>"

definition session_state_serialize_prepare_chain_message_keys_list ::
  "ratchet_message_keys list \<Rightarrow> MessageKey list" where
  "session_state_serialize_prepare_chain_message_keys_list mks =
     map session_state_serialize_prepare_message_keys mks"

definition session_state_serialize_prepare_sender_chain ::
  "session_state_sender_chain \<Rightarrow> Chain result" where
  "session_state_serialize_prepare_sender_chain chain =
     (case opt_result (\<lambda>p. ec_public_key_serialize_protobuf (Some (kp_public_key p)))
             (sc_sender_ratchet_key_pair chain) of Inl e \<Rightarrow> Inl e
      | Inr pub \<Rightarrow>
         (case opt_result (\<lambda>p. ec_private_key_serialize_protobuf (Some (kp_private_key p)))
                 (sc_sender_ratchet_key_pair chain) of Inl e \<Rightarrow> Inl e
          | Inr priv \<Rightarrow>
             Inr \<lparr>sch_senderratchetkey = pub, sch_senderratchetkeyprivate = priv,
                  sch_chainkey = map_option session_state_serialize_prepare_chain_chain_key (sc_chain_key chain),
                  sch_messagekeys =
                    session_state_serialize_prepare_chain_message_keys_list (sc_message_keys chain)\<rparr>))"

definition session_state_serialize_prepare_receiver_chain ::
  "session_state_receiver_chain \<Rightarrow> Chain result" where
  "session_state_serialize_prepare_receiver_chain chain =
     (case opt_result (\<lambda>k. ec_public_key_serialize_protobuf (Some k)) (rc_sender_ratchet_key chain) of
        Inl e \<Rightarrow> Inl e
      | Inr pub \<Rightarrow>
         Inr \<lparr>sch_senderratchetkey = pub, sch_senderratchetkeyprivate = None,
              sch_chainkey = map_option session_state_serialize_prepare_chain_chain_key (rc_chain_key chain),
              sch_messagekeys =
                session_state_serialize_prepare_chain_message_keys_list (rc_message_keys chain)\<rparr>)"

definition serialize_key_pair :: "ec_key_pair option \<Rightarrow> (bytes option \<times> bytes option) result" where
  "serialize_key_pair p =
     (case opt_result (\<lambda>p. ec_public_key_serialize_protobuf (Some (kp_public_key p))) p of Inl e \<Rightarrow> Inl e
      | Inr pub \<Rightarrow>
         (case opt_result (\<lambda>p. ec_private_key_serialize_protobuf (Some (kp_private_key p))) p of Inl e \<Rightarrow> Inl e
          | Inr priv \<Rightarrow> Inr (pub, priv)))"

definition session_state_serialize_prepare_pending_key_exchange ::
  "session_pending_key_exchange \<Rightarrow> PendingKeyExchange result" where
  "session_state_serialize_prepare_pending_key_exchange exchange =
     (case serialize_key_pair (pke_local_base_key exchange) of Inl e \<Rightarrow> Inl e
      | Inr (base, base_private) \<Rightarrow>
         (case serialize_key_pair (pke_local_ratchet_key exchange) of Inl e \<Rightarrow> Inl e
          | Inr (ratchet, ratchet_private) \<Rightarrow>
             (case serialize_key_pair
                     (map_option (\<lambda>k. ec_key_pair_create (ik_public_key k) (ik_private_key k))
                       (pke_local_identity_key exchange)) of Inl e \<Rightarrow> Inl e
              | Inr (identity, identity_private) \<Rightarrow>
                 Inr \<lparr>ske_sequence = Some (pke_sequence exchange), ske_localbasekey = base,
                      ske_localbasekeyprivate = base_private, ske_localratchetkey = ratchet,
                      ske_localratchetkeyprivate = ratchet_private, ske_localidentitykey = identity,
                      ske_localidentitykeyprivate = identity_private\<rparr>)))"

definition session_state_serialize_prepare_pending_pre_key ::
  "session_pending_pre_key \<Rightarrow> PendingPreKey result" where
  "session_state_serialize_prepare_pending_pre_key pre_key =
     (case opt_result (\<lambda>k. ec_public_key_serialize_protobuf (Some k)) (ppk_base_key pre_key) of
        Inl e \<Rightarrow> Inl e
      | Inr base \<Rightarrow>
         Inr \<lparr>spp_prekeyid = (if ppk_has_pre_key_id pre_key then Some (ppk_pre_key_id pre_key) else None),
              spp_basekey = base, spp_signedprekeyid = Some (ppk_signed_pre_key_id pre_key)\<rparr>)"

definition session_state_serialize_prepare :: "session_state \<Rightarrow> SessionStructure result" where
  "session_state_serialize_prepare state =
     (case opt_result (\<lambda>k. ec_public_key_serialize_protobuf (Some k)) (ss_local_identity_public state) of
        Inl e \<Rightarrow> Inl e
      | Inr local_identity \<Rightarrow>
     (case opt_result (\<lambda>k. ec_public_key_serialize_protobuf (Some k)) (ss_remote_identity_public state) of
        Inl e \<Rightarrow> Inl e
      | Inr remote_identity \<Rightarrow>
     (case (if ss_has_sender_chain state
            then opt_result session_state_serialize_prepare_sender_chain (Some (ss_sender_chain state))
            else Inr None) of Inl e \<Rightarrow> Inl e
      | Inr sender_chain \<Rightarrow>
     (case map_result session_state_serialize_prepare_receiver_chain (ss_receiver_chains state) of
        Inl e \<Rightarrow> Inl e
      | Inr receiver_chains \<Rightarrow>
     (case (if ss_has_pending_key_exchange state
            then opt_result session_state_serialize_prepare_pending_key_exchange (Some (ss_pending_key_exchange state))
            else Inr None) of Inl e \<Rightarrow> Inl e
      | Inr pending_key_exchange \<Rightarrow>
     (case (if ss_has_pending_pre_key state
            then opt_result session_state_serialize_prepare_pending_pre_key (Some (ss_pending_pre_key state))
            else Inr None) of Inl e \<Rightarrow> Inl e
      | Inr pending_pre_key \<Rightarrow>
     (case opt_result (\<lambda>k. ec_public_key_serialize_protobuf (Some k)) (ss_alice_base_key state) of
        Inl e \<Rightarrow> Inl e
      | Inr alice_base_key \<Rightarrow>
         Inr \<lparr>sst_sessionversion = Some (ss_session_version state),
              sst_localidentitypublic = local_identity, sst_remoteidentitypublic = remote_identity,
              sst_rootkey = map_option rk_key (ss_root_key state),
              sst_previouscounter = Some (ss_previous_counter state),
              sst_senderchain = sender_chain, sst_receiverchains = receiver_chains,
              sst_pendingkeyexchange = pending_key_exchange, sst_pendingprekey = pending_pre_key,
              sst_remoteregistrationid = Some (ss_remote_registration_id state),
              sst_localregistrationid = Some (ss_local_registration_id state),
              sst_needsrefresh = Some (ss_needs_refresh state),
              sst_alicebasekey = alice_base_key\<rparr>)))))))"

definition session_state_serialize :: "session_state \<Rightarrow> bytes result" where
  "session_state_serialize state =
     (case session_state_serialize_prepare state of Inl e \<Rightarrow> Inl e
      | Inr s \<Rightarrow> pb_serialize sst_desc (sst_to_pb s))"

section \<open>Deserialisation\<close>

definition deserialize_key_pair :: "bytes option \<Rightarrow> bytes option \<Rightarrow> ec_key_pair option result" where
  "deserialize_key_pair pub priv =
     (case (pub, priv) of
        (Some d, Some pd) \<Rightarrow>
          (case curve_decode_point d of Inl e \<Rightarrow> Inl e
           | Inr public_key \<Rightarrow>
              (case curve_decode_private_point pd of Inl e \<Rightarrow> Inl e
               | Inr private_key \<Rightarrow> Inr (Some (ec_key_pair_create public_key private_key))))
      | _ \<Rightarrow> Inr None)"

text \<open>
  The chain key of a chain, present when both of its fields are, together with what the
  block leaves in the local variable \<^verbatim>\<open>kdf\<close>, which both callers hand to \<^verbatim>\<open>SIGNAL_UNREF\<close> at
  their end.
\<close>

definition deserialize_chain_key ::
  "u32 \<Rightarrow> ChainKey option \<Rightarrow> ratchet_chain_key option result \<times> hkdf_context c_pointer" where
  "deserialize_chain_key session_version chainkey =
     (case chainkey of
        Some ck \<Rightarrow>
          (case (sck_key ck, sck_index ck) of
             (Some key, Some index) \<Rightarrow>
               (case hkdf_create session_version of (status, kdf) \<Rightarrow>
                  ((case status of Inl e \<Rightarrow> Inl e
                    | Inr _ \<Rightarrow>
                   (case deref kdf of Inl e \<Rightarrow> Inl e
                    | Inr context \<Rightarrow>
                   (case ratchet_chain_key_create (Some context) (nonnull key) index of Inl e \<Rightarrow> Inl e
                    | Inr c \<Rightarrow> Inr (Some c)))), kdf))
           | _ \<Rightarrow> (Inr None, Null))
      | None \<Rightarrow> (Inr None, Null))"

definition session_state_deserialize_protobuf_sender_chain ::
  "u32 \<Rightarrow> Chain \<Rightarrow> session_state_sender_chain result" where
  "session_state_deserialize_protobuf_sender_chain session_version s =
     (case deserialize_key_pair (sch_senderratchetkey s) (sch_senderratchetkeyprivate s) of Inl e \<Rightarrow> Inl e
      | Inr key_pair \<Rightarrow>
         (case deserialize_chain_key session_version (sch_chainkey s) of (result, kdf) \<Rightarrow>
            SIGNAL_UNREF kdf
              (case result of Inl e \<Rightarrow> Inl e
               | Inr chain_key \<Rightarrow>
                  Inr \<lparr>sc_sender_ratchet_key_pair = key_pair, sc_chain_key = chain_key, sc_message_keys = []\<rparr>)))"

definition deserialize_array :: "nat \<Rightarrow> bytes option \<Rightarrow> bytes" where
  "deserialize_array n d = (case d of Some b \<Rightarrow> if length b = n then b else replicate n 0 | None \<Rightarrow> replicate n 0)"

definition deserialize_message_key :: "MessageKey \<Rightarrow> ratchet_message_keys" where
  "deserialize_message_key s =
     \<lparr>mk_cipher_key = deserialize_array RATCHET_CIPHER_KEY_LENGTH (smk_cipherkey s),
      mk_mac_key = deserialize_array RATCHET_MAC_KEY_LENGTH (smk_mackey s),
      mk_iv = deserialize_array RATCHET_IV_LENGTH (smk_iv s),
      mk_counter = (case smk_index s of Some i \<Rightarrow> i | None \<Rightarrow> 0)\<rparr>"

definition session_state_deserialize_protobuf_receiver_chain ::
  "u32 \<Rightarrow> Chain \<Rightarrow> session_state_receiver_chain result" where
  "session_state_deserialize_protobuf_receiver_chain session_version s =
     (case opt_result curve_decode_point (sch_senderratchetkey s) of Inl e \<Rightarrow> Inl e
      | Inr key \<Rightarrow>
         (case deserialize_chain_key session_version (sch_chainkey s) of (result, kdf) \<Rightarrow>
            SIGNAL_UNREF kdf
              (case result of Inl e \<Rightarrow> Inl e
               | Inr chain_key \<Rightarrow>
                  Inr \<lparr>rc_sender_ratchet_key = key, rc_chain_key = chain_key,
                       rc_message_keys = map deserialize_message_key (sch_messagekeys s)\<rparr>)))"

definition session_state_deserialize_protobuf_pending_key_exchange ::
  "PendingKeyExchange \<Rightarrow> session_pending_key_exchange result" where
  "session_state_deserialize_protobuf_pending_key_exchange s =
     (case deserialize_key_pair (ske_localbasekey s) (ske_localbasekeyprivate s) of Inl e \<Rightarrow> Inl e
      | Inr base \<Rightarrow>
         (case deserialize_key_pair (ske_localratchetkey s) (ske_localratchetkeyprivate s) of Inl e \<Rightarrow> Inl e
          | Inr ratchet \<Rightarrow>
             (case deserialize_key_pair (ske_localidentitykey s) (ske_localidentitykeyprivate s) of Inl e \<Rightarrow> Inl e
              | Inr identity \<Rightarrow>
                 Inr \<lparr>pke_sequence = (case ske_sequence s of Some n \<Rightarrow> n | None \<Rightarrow> 0),
                      pke_local_base_key = base, pke_local_ratchet_key = ratchet,
                      pke_local_identity_key =
                        map_option (\<lambda>p. ratchet_identity_key_pair_create (kp_public_key p) (kp_private_key p))
                          identity\<rparr>)))"

definition session_state_deserialize_protobuf_pending_pre_key ::
  "PendingPreKey \<Rightarrow> session_pending_pre_key result" where
  "session_state_deserialize_protobuf_pending_pre_key s =
     (case opt_result curve_decode_point (spp_basekey s) of Inl e \<Rightarrow> Inl e
      | Inr base \<Rightarrow>
         Inr \<lparr>ppk_has_pre_key_id = (spp_prekeyid s \<noteq> None),
              ppk_pre_key_id = (case spp_prekeyid s of Some n \<Rightarrow> n | None \<Rightarrow> 0),
              ppk_signed_pre_key_id = (case spp_signedprekeyid s of Some n \<Rightarrow> n | None \<Rightarrow> 0),
              ppk_base_key = base\<rparr>)"

text \<open>
  The status of the sender chain's deserialisation is not assigned to \<^verbatim>\<open>result\<close>: a failing
  one leaves the zeroed chain and the run goes on, with \<^verbatim>\<open>has_sender_chain\<close> set.
\<close>

definition deserialize_sender_chain_unchecked ::
  "u32 \<Rightarrow> Chain option \<Rightarrow> session_state_sender_chain result" where
  "deserialize_sender_chain_unchecked session_version chain =
     (case chain of None \<Rightarrow> Inr sender_chain_zero
      | Some s \<Rightarrow>
         (case session_state_deserialize_protobuf_sender_chain session_version s of
            Inl e \<Rightarrow> if e = C_UNDEFINED then Inl C_UNDEFINED else Inr sender_chain_zero
          | Inr c \<Rightarrow> Inr c))"

text \<open>Here a failing \<^verbatim>\<open>hkdf_create\<close> returns at once: its dangling pointer is out of scope.\<close>

definition deserialize_root_key :: "u32 \<Rightarrow> bytes \<Rightarrow> ratchet_root_key result" where
  "deserialize_root_key session_version key =
     (case hkdf_create session_version of (status, kdf) \<Rightarrow>
        (case status of Inl e \<Rightarrow> Inl e
         | Inr _ \<Rightarrow>
            (case deref kdf of Inl e \<Rightarrow> Inl e
             | Inr context \<Rightarrow> SIGNAL_UNREF kdf (ratchet_root_key_create (Some context) (nonnull key)))))"

definition session_state_deserialize_protobuf :: "SessionStructure \<Rightarrow> session_state result" where
  "session_state_deserialize_protobuf s =
     (let version = (case sst_sessionversion s of Some v \<Rightarrow> v | None \<Rightarrow> 2) in
     (case opt_result curve_decode_point (sst_localidentitypublic s) of Inl e \<Rightarrow> Inl e
      | Inr local_identity \<Rightarrow>
     (case opt_result curve_decode_point (sst_remoteidentitypublic s) of Inl e \<Rightarrow> Inl e
      | Inr remote_identity \<Rightarrow>
     (case opt_result (deserialize_root_key version) (sst_rootkey s) of Inl e \<Rightarrow> Inl e
      | Inr root_key \<Rightarrow>
     (case deserialize_sender_chain_unchecked version (sst_senderchain s) of Inl e \<Rightarrow> Inl e
      | Inr sender_chain \<Rightarrow>
     (case map_result (session_state_deserialize_protobuf_receiver_chain version) (sst_receiverchains s) of
        Inl e \<Rightarrow> Inl e
      | Inr receiver_chains \<Rightarrow>
     (case opt_result session_state_deserialize_protobuf_pending_key_exchange (sst_pendingkeyexchange s) of
        Inl e \<Rightarrow> Inl e
      | Inr pending_key_exchange \<Rightarrow>
     (case opt_result session_state_deserialize_protobuf_pending_pre_key (sst_pendingprekey s) of
        Inl e \<Rightarrow> Inl e
      | Inr pending_pre_key \<Rightarrow>
     (case opt_result curve_decode_point (sst_alicebasekey s) of Inl e \<Rightarrow> Inl e
      | Inr alice_base_key \<Rightarrow>
         Inr \<lparr>ss_session_version = version, ss_local_identity_public = local_identity,
              ss_remote_identity_public = remote_identity, ss_root_key = root_key,
              ss_previous_counter = (case sst_previouscounter s of Some n \<Rightarrow> n | None \<Rightarrow> 0),
              ss_has_sender_chain = (sst_senderchain s \<noteq> None), ss_sender_chain = sender_chain,
              ss_receiver_chains = receiver_chains,
              ss_has_pending_key_exchange = (sst_pendingkeyexchange s \<noteq> None),
              ss_pending_key_exchange =
                (case pending_key_exchange of Some x \<Rightarrow> x | None \<Rightarrow> pending_key_exchange_zero),
              ss_has_pending_pre_key = (sst_pendingprekey s \<noteq> None),
              ss_pending_pre_key = (case pending_pre_key of Some x \<Rightarrow> x | None \<Rightarrow> pending_pre_key_zero),
              ss_remote_registration_id = (case sst_remoteregistrationid s of Some n \<Rightarrow> n | None \<Rightarrow> 0),
              ss_local_registration_id = (case sst_localregistrationid s of Some n \<Rightarrow> n | None \<Rightarrow> 0),
              ss_needs_refresh = (case sst_needsrefresh s of Some b \<Rightarrow> b | None \<Rightarrow> False),
              ss_alice_base_key = alice_base_key\<rparr>)))))))))"

definition session_state_deserialize :: "bytes \<Rightarrow> session_state result" where
  "session_state_deserialize data =
     (case pb_deserialize sst_desc data of Inl e \<Rightarrow> Inl e
      | Inr m \<Rightarrow> session_state_deserialize_protobuf (sst_of_pb m))"

definition session_state_copy :: "session_state \<Rightarrow> session_state result" where
  "session_state_copy other_state =
     (case session_state_serialize other_state of Inl e \<Rightarrow> Inl e
      | Inr data \<Rightarrow> session_state_deserialize data)"

section \<open>Chains and message keys\<close>

definition session_state_set_session_version :: "u32 \<Rightarrow> session_state \<Rightarrow> session_state" where
  "session_state_set_session_version version state = state\<lparr>ss_session_version := version\<rparr>"

definition session_state_set_local_identity_key :: "ec_public_key \<Rightarrow> session_state \<Rightarrow> session_state" where
  "session_state_set_local_identity_key identity_key state =
     state\<lparr>ss_local_identity_public := Some identity_key\<rparr>"

definition session_state_set_remote_identity_key :: "ec_public_key \<Rightarrow> session_state \<Rightarrow> session_state" where
  "session_state_set_remote_identity_key identity_key state =
     state\<lparr>ss_remote_identity_public := Some identity_key\<rparr>"

definition session_state_set_root_key :: "ratchet_root_key \<Rightarrow> session_state \<Rightarrow> session_state" where
  "session_state_set_root_key root_key state = state\<lparr>ss_root_key := Some root_key\<rparr>"

definition session_state_set_previous_counter :: "u32 \<Rightarrow> session_state \<Rightarrow> session_state" where
  "session_state_set_previous_counter counter state = state\<lparr>ss_previous_counter := counter\<rparr>"

definition session_state_set_sender_chain ::
  "ec_key_pair \<Rightarrow> ratchet_chain_key \<Rightarrow> session_state \<Rightarrow> session_state" where
  "session_state_set_sender_chain key_pair chain_key state =
     state\<lparr>ss_has_sender_chain := True,
           ss_sender_chain := (ss_sender_chain state)
             \<lparr>sc_sender_ratchet_key_pair := Some key_pair, sc_chain_key := Some chain_key\<rparr>\<rparr>"

definition session_state_get_sender_ratchet_key :: "session_state \<Rightarrow> ec_public_key option" where
  "session_state_get_sender_ratchet_key state =
     map_option kp_public_key (sc_sender_ratchet_key_pair (ss_sender_chain state))"

definition session_state_set_sender_chain_key ::
  "ratchet_chain_key \<Rightarrow> session_state \<Rightarrow> session_state result" where
  "session_state_set_sender_chain_key chain_key state =
     (if ss_has_sender_chain state
      then Inr (state\<lparr>ss_sender_chain := (ss_sender_chain state)\<lparr>sc_chain_key := Some chain_key\<rparr>\<rparr>)
      else Inl SG_ERR_UNKNOWN)"

definition rc_matches :: "ec_public_key \<Rightarrow> session_state_receiver_chain \<Rightarrow> bool" where
  "rc_matches sender_ephemeral node \<longleftrightarrow>
     ec_public_key_compare (rc_sender_ratchet_key node) (Some sender_ephemeral) = 0"

definition session_state_find_receiver_chain ::
  "session_state \<Rightarrow> ec_public_key \<Rightarrow> session_state_receiver_chain option" where
  "session_state_find_receiver_chain state sender_ephemeral =
     List.find (rc_matches sender_ephemeral) (ss_receiver_chains state)"

definition update_receiver_chain ::
  "ec_public_key \<Rightarrow> (session_state_receiver_chain \<Rightarrow> session_state_receiver_chain)
     \<Rightarrow> session_state \<Rightarrow> session_state" where
  "update_receiver_chain sender_ephemeral f state =
     state\<lparr>ss_receiver_chains := update_first (rc_matches sender_ephemeral) f (ss_receiver_chains state)\<rparr>"

definition session_state_has_message_keys :: "session_state \<Rightarrow> ec_public_key \<Rightarrow> u32 \<Rightarrow> bool" where
  "session_state_has_message_keys state sender_ephemeral counter =
     (case session_state_find_receiver_chain state sender_ephemeral of None \<Rightarrow> False
      | Some chain \<Rightarrow> list_ex (\<lambda>mk. mk_counter mk = counter) (rc_message_keys chain))"

definition session_state_remove_message_keys ::
  "session_state \<Rightarrow> ec_public_key \<Rightarrow> u32 \<Rightarrow> ratchet_message_keys option \<times> session_state" where
  "session_state_remove_message_keys state sender_ephemeral counter =
     (case session_state_find_receiver_chain state sender_ephemeral of None \<Rightarrow> (None, state)
      | Some chain \<Rightarrow>
         (case List.find (\<lambda>mk. mk_counter mk = counter) (rc_message_keys chain) of None \<Rightarrow> (None, state)
          | Some mk \<Rightarrow>
             (Some mk, update_receiver_chain sender_ephemeral
                (\<lambda>n. n\<lparr>rc_message_keys :=
                   remove_first (\<lambda>mk. mk_counter mk = counter) (rc_message_keys n)\<rparr>) state)))"

definition message_keys_add ::
  "ratchet_message_keys \<Rightarrow> ratchet_message_keys list \<Rightarrow> ratchet_message_keys list" where
  "message_keys_add mk mks = append_bounded MAX_MESSAGE_KEYS mk mks"

definition session_state_set_message_keys ::
  "session_state \<Rightarrow> ec_public_key \<Rightarrow> ratchet_message_keys \<Rightarrow> session_state" where
  "session_state_set_message_keys state sender_ephemeral message_keys =
     (case session_state_find_receiver_chain state sender_ephemeral of None \<Rightarrow> state
      | Some chain \<Rightarrow>
         update_receiver_chain sender_ephemeral
           (\<lambda>n. n\<lparr>rc_message_keys := message_keys_add message_keys (rc_message_keys n)\<rparr>) state)"

definition receiver_chains_add ::
  "session_state_receiver_chain \<Rightarrow> session_state_receiver_chain list \<Rightarrow> session_state_receiver_chain list" where
  "receiver_chains_add node nodes = append_bounded MAX_RECEIVER_CHAINS node nodes"

definition session_state_add_receiver_chain ::
  "ec_public_key \<Rightarrow> ratchet_chain_key \<Rightarrow> session_state \<Rightarrow> session_state" where
  "session_state_add_receiver_chain sender_ratchet_key chain_key state =
     state\<lparr>ss_receiver_chains := receiver_chains_add
       \<lparr>rc_sender_ratchet_key = Some sender_ratchet_key, rc_chain_key = Some chain_key, rc_message_keys = []\<rparr>
       (ss_receiver_chains state)\<rparr>"

definition session_state_set_receiver_chain_key ::
  "session_state \<Rightarrow> ec_public_key \<Rightarrow> ratchet_chain_key \<Rightarrow> session_state result" where
  "session_state_set_receiver_chain_key state sender_ephemeral chain_key =
     (case session_state_find_receiver_chain state sender_ephemeral of None \<Rightarrow> Inl SG_ERR_UNKNOWN
      | Some node \<Rightarrow> Inr (update_receiver_chain sender_ephemeral (\<lambda>n. n\<lparr>rc_chain_key := Some chain_key\<rparr>) state))"

definition session_state_get_receiver_chain_key ::
  "session_state \<Rightarrow> ec_public_key \<Rightarrow> ratchet_chain_key option" where
  "session_state_get_receiver_chain_key state sender_ephemeral =
     (case session_state_find_receiver_chain state sender_ephemeral of None \<Rightarrow> None
      | Some node \<Rightarrow> rc_chain_key node)"

section \<open>Pending exchanges and the remaining fields\<close>

definition session_state_set_pending_key_exchange ::
  "u32 \<Rightarrow> ec_key_pair \<Rightarrow> ec_key_pair \<Rightarrow> ratchet_identity_key_pair \<Rightarrow> session_state \<Rightarrow> session_state" where
  "session_state_set_pending_key_exchange sequence our_base_key our_ratchet_key our_identity_key state =
     state\<lparr>ss_has_pending_key_exchange := True,
           ss_pending_key_exchange := \<lparr>pke_sequence = sequence, pke_local_base_key = Some our_base_key,
             pke_local_ratchet_key = Some our_ratchet_key,
             pke_local_identity_key = Some our_identity_key\<rparr>\<rparr>"

definition session_state_get_pending_key_exchange_sequence :: "session_state \<Rightarrow> u32" where
  "session_state_get_pending_key_exchange_sequence state =
     (if ss_has_pending_key_exchange state then pke_sequence (ss_pending_key_exchange state) else 0)"

definition session_state_get_pending_key_exchange_base_key :: "session_state \<Rightarrow> ec_key_pair option" where
  "session_state_get_pending_key_exchange_base_key state =
     (if ss_has_pending_key_exchange state then pke_local_base_key (ss_pending_key_exchange state) else None)"

definition session_state_get_pending_key_exchange_ratchet_key :: "session_state \<Rightarrow> ec_key_pair option" where
  "session_state_get_pending_key_exchange_ratchet_key state =
     (if ss_has_pending_key_exchange state then pke_local_ratchet_key (ss_pending_key_exchange state) else None)"

definition session_state_get_pending_key_exchange_identity_key ::
  "session_state \<Rightarrow> ratchet_identity_key_pair option" where
  "session_state_get_pending_key_exchange_identity_key state =
     (if ss_has_pending_key_exchange state then pke_local_identity_key (ss_pending_key_exchange state) else None)"

definition session_state_set_unacknowledged_pre_key_message ::
  "u32 option \<Rightarrow> u32 \<Rightarrow> ec_public_key \<Rightarrow> session_state \<Rightarrow> session_state" where
  "session_state_set_unacknowledged_pre_key_message pre_key_id signed_pre_key_id base_key state =
     state\<lparr>ss_has_pending_pre_key := True,
           ss_pending_pre_key :=
             \<lparr>ppk_has_pre_key_id = (pre_key_id \<noteq> None),
              ppk_pre_key_id = (case pre_key_id of Some n \<Rightarrow> n | None \<Rightarrow> 0),
              ppk_signed_pre_key_id = signed_pre_key_id, ppk_base_key = Some base_key\<rparr>\<rparr>"

definition session_state_clear_unacknowledged_pre_key_message :: "session_state \<Rightarrow> session_state" where
  "session_state_clear_unacknowledged_pre_key_message state =
     state\<lparr>ss_pending_pre_key := pending_pre_key_zero, ss_has_pending_pre_key := False\<rparr>"

definition session_state_set_remote_registration_id :: "u32 \<Rightarrow> session_state \<Rightarrow> session_state" where
  "session_state_set_remote_registration_id rid state = state\<lparr>ss_remote_registration_id := rid\<rparr>"

definition session_state_set_local_registration_id :: "u32 \<Rightarrow> session_state \<Rightarrow> session_state" where
  "session_state_set_local_registration_id rid state = state\<lparr>ss_local_registration_id := rid\<rparr>"

definition session_state_set_needs_refresh :: "bool \<Rightarrow> session_state \<Rightarrow> session_state" where
  "session_state_set_needs_refresh value state = state\<lparr>ss_needs_refresh := value\<rparr>"

definition session_state_set_alice_base_key :: "ec_public_key \<Rightarrow> session_state \<Rightarrow> session_state" where
  "session_state_set_alice_base_key key state = state\<lparr>ss_alice_base_key := Some key\<rparr>"

end
