(* ===== verification/Session_State_Laws.thy ===== *)
theory Session_State_Laws
  imports Session_State
begin

text \<open>
  The invariant of a session state and the contract of its operations: every operation
  keeps the invariant, the two lists stay within their bounds, a stored message key is
  found and removed exactly once, and a state in the invariant survives serialisation.  The
  last section says which stored sessions are read with undefined behaviour.
\<close>

section \<open>The bounded lists\<close>

interpretation mks: bounded_list MAX_MESSAGE_KEYS message_keys_add
  unfolding message_keys_add_def [abs_def] MAX_MESSAGE_KEYS_def
  by (rule bounded_list_append) simp

interpretation rcs: bounded_list MAX_RECEIVER_CHAINS receiver_chains_add
  unfolding receiver_chains_add_def [abs_def] MAX_RECEIVER_CHAINS_def
  by (rule bounded_list_append) simp

section \<open>The invariant\<close>

definition kp_ok :: "ec_key_pair \<Rightarrow> bool" where
  "kp_ok p \<longleftrightarrow> pub_ok (kp_public_key p) \<and> priv_ok (kp_private_key p)"

definition rc_ok :: "u32 \<Rightarrow> session_state_receiver_chain \<Rightarrow> bool" where
  "rc_ok v c \<longleftrightarrow>
     pred_option pub_ok (rc_sender_ratchet_key c) \<and> pred_option (ck_ok v) (rc_chain_key c) \<and>
     list_all mk_ok (rc_message_keys c) \<and> length (rc_message_keys c) \<le> MAX_MESSAGE_KEYS"

definition sc_ok :: "u32 \<Rightarrow> session_state_sender_chain \<Rightarrow> bool" where
  "sc_ok v c \<longleftrightarrow>
     pred_option kp_ok (sc_sender_ratchet_key_pair c) \<and> pred_option (ck_ok v) (sc_chain_key c) \<and>
     sc_message_keys c = []"

definition pke_ok :: "session_pending_key_exchange \<Rightarrow> bool" where
  "pke_ok x \<longleftrightarrow>
     pred_option kp_ok (pke_local_base_key x) \<and> pred_option kp_ok (pke_local_ratchet_key x) \<and>
     pred_option (\<lambda>k. pub_ok (ik_public_key k) \<and> priv_ok (ik_private_key k)) (pke_local_identity_key x)"

definition ppk_ok :: "session_pending_pre_key \<Rightarrow> bool" where
  "ppk_ok x \<longleftrightarrow> pred_option pub_ok (ppk_base_key x) \<and> (\<not> ppk_has_pre_key_id x \<longrightarrow> ppk_pre_key_id x = 0)"

definition ss_ok :: "session_state \<Rightarrow> bool" where
  "ss_ok st \<longleftrightarrow>
     pred_option pub_ok (ss_local_identity_public st) \<and> pred_option pub_ok (ss_remote_identity_public st) \<and>
     pred_option (rk_ok (ss_session_version st)) (ss_root_key st) \<and>
     sc_ok (ss_session_version st) (ss_sender_chain st) \<and>
     (\<not> ss_has_sender_chain st \<longrightarrow> ss_sender_chain st = sender_chain_zero) \<and>
     list_all (rc_ok (ss_session_version st)) (ss_receiver_chains st) \<and>
     length (ss_receiver_chains st) \<le> MAX_RECEIVER_CHAINS \<and>
     pke_ok (ss_pending_key_exchange st) \<and>
     (\<not> ss_has_pending_key_exchange st \<longrightarrow> ss_pending_key_exchange st = pending_key_exchange_zero) \<and>
     ppk_ok (ss_pending_pre_key st) \<and>
     (\<not> ss_has_pending_pre_key st \<longrightarrow> ss_pending_pre_key st = pending_pre_key_zero) \<and>
     pred_option pub_ok (ss_alice_base_key st)"

lemmas ss_ok_defs = ss_ok_def sc_ok_def sender_chain_zero_def pke_ok_def pending_key_exchange_zero_def
  ppk_ok_def pending_pre_key_zero_def

lemma ss_ok_create: "ss_ok session_state_create"
  by (simp add: ss_ok_defs session_state_create_def)

named_theorems ss_ok_intros \<open>operations that keep the invariant of a session state\<close>
named_theorems ss_ok_results \<open>the same for the operations that may fail or return a value beside the state\<close>

text \<open>
  The version fixes the key derivation of every key, so it may only change while the state
  holds no keys.
\<close>

definition ss_keyless :: "session_state \<Rightarrow> bool" where
  "ss_keyless st \<longleftrightarrow>
     ss_root_key st = None \<and> sc_chain_key (ss_sender_chain st) = None \<and> ss_receiver_chains st = []"

lemma ss_ok_set_session_version:
  "\<lbrakk>ss_ok st; ss_keyless st\<rbrakk> \<Longrightarrow> ss_ok (session_state_set_session_version v st)"
  by (simp add: ss_ok_def sc_ok_def ss_keyless_def session_state_set_session_version_def)

lemma ss_ok_setters [ss_ok_intros]:
  "\<lbrakk>ss_ok st; pub_ok k\<rbrakk> \<Longrightarrow> ss_ok (session_state_set_local_identity_key k st)"
  "\<lbrakk>ss_ok st; pub_ok k\<rbrakk> \<Longrightarrow> ss_ok (session_state_set_remote_identity_key k st)"
  "\<lbrakk>ss_ok st; rk_ok (ss_session_version st) rk\<rbrakk> \<Longrightarrow> ss_ok (session_state_set_root_key rk st)"
  "ss_ok st \<Longrightarrow> ss_ok (session_state_set_previous_counter n st)"
  "\<lbrakk>ss_ok st; kp_ok kp; ck_ok (ss_session_version st) ck\<rbrakk> \<Longrightarrow> ss_ok (session_state_set_sender_chain kp ck st)"
  "ss_ok st \<Longrightarrow> ss_ok (session_state_set_remote_registration_id n st)"
  "ss_ok st \<Longrightarrow> ss_ok (session_state_set_local_registration_id n st)"
  "ss_ok st \<Longrightarrow> ss_ok (session_state_set_needs_refresh b st)"
  "\<lbrakk>ss_ok st; pub_ok k\<rbrakk> \<Longrightarrow> ss_ok (session_state_set_alice_base_key k st)"
  "\<lbrakk>ss_ok st; pub_ok k\<rbrakk> \<Longrightarrow> ss_ok (session_state_set_unacknowledged_pre_key_message pid sid k st)"
  "ss_ok st \<Longrightarrow> ss_ok (session_state_clear_unacknowledged_pre_key_message st)"
  "\<lbrakk>ss_ok st; kp_ok p; kp_ok q; pub_ok (ik_public_key i); priv_ok (ik_private_key i)\<rbrakk> \<Longrightarrow>
     ss_ok (session_state_set_pending_key_exchange n p q i st)"
  by (auto simp: ss_ok_def sc_ok_def pke_ok_def ppk_ok_def pending_pre_key_zero_def
      session_state_set_local_identity_key_def
      session_state_set_remote_identity_key_def session_state_set_root_key_def
      session_state_set_previous_counter_def session_state_set_sender_chain_def
      session_state_set_remote_registration_id_def session_state_set_local_registration_id_def
      session_state_set_needs_refresh_def session_state_set_alice_base_key_def
      session_state_set_unacknowledged_pre_key_message_def
      session_state_clear_unacknowledged_pre_key_message_def session_state_set_pending_key_exchange_def)

lemma ss_ok_set_sender_chain_key [ss_ok_results]:
  "\<lbrakk>session_state_set_sender_chain_key ck st = Inr st'; ss_ok st; ck_ok (ss_session_version st) ck\<rbrakk> \<Longrightarrow> ss_ok st'"
  by (auto simp: session_state_set_sender_chain_key_def ss_ok_def sc_ok_def split: if_splits)

lemma ss_ok_receiver_chains:
  "\<lbrakk>ss_ok st; list_all (rc_ok (ss_session_version st)) cs; length cs \<le> MAX_RECEIVER_CHAINS\<rbrakk> \<Longrightarrow>
     ss_ok (st\<lparr>ss_receiver_chains := cs\<rparr>)"
  by (simp add: ss_ok_def)

lemma ss_ok_add_receiver_chain [ss_ok_intros]:
  assumes "ss_ok st" "pub_ok k" "ck_ok (ss_session_version st) ck"
  shows "ss_ok (session_state_add_receiver_chain k ck st)"
  unfolding session_state_add_receiver_chain_def using assms
  by (intro ss_ok_receiver_chains rcs.add_bound rcs.add_list_all) (simp_all add: ss_ok_def rc_ok_def)

lemma ss_ok_update_receiver_chain:
  assumes "ss_ok st"
    and "\<And>c. rc_ok (ss_session_version st) c \<Longrightarrow> rc_ok (ss_session_version st) (f c)"
  shows "ss_ok (update_receiver_chain k f st)"
  unfolding update_receiver_chain_def using assms
  by (intro ss_ok_receiver_chains update_first_list_all) (simp_all add: ss_ok_def)

lemma ss_ok_set_receiver_chain_key [ss_ok_results]:
  "\<lbrakk>session_state_set_receiver_chain_key st k ck = Inr st'; ss_ok st; ck_ok (ss_session_version st) ck\<rbrakk> \<Longrightarrow> ss_ok st'"
  by (auto simp: session_state_set_receiver_chain_key_def rc_ok_def split: option.splits
      intro!: ss_ok_update_receiver_chain)

lemma ss_ok_set_message_keys [ss_ok_intros]:
  "\<lbrakk>ss_ok st; mk_ok mk\<rbrakk> \<Longrightarrow> ss_ok (session_state_set_message_keys st k mk)"
  by (auto simp: session_state_set_message_keys_def rc_ok_def split: option.splits
      intro!: ss_ok_update_receiver_chain mks.add_list_all mks.add_bound)

lemma rc_ok_remove_first:
  assumes "rc_ok v c"
  shows "rc_ok v (c\<lparr>rc_message_keys := remove_first P (rc_message_keys c)\<rparr>)"
  using assms remove_first_subset [of P "rc_message_keys c"] remove_first_length [of P "rc_message_keys c"]
  by (auto simp: rc_ok_def list_all_iff)

lemma ss_ok_remove_message_keys [ss_ok_results]:
  "\<lbrakk>session_state_remove_message_keys st k n = (r, st'); ss_ok st\<rbrakk> \<Longrightarrow> ss_ok st'"
  by (auto simp: session_state_remove_message_keys_def split: option.splits
      intro!: ss_ok_update_receiver_chain rc_ok_remove_first)

lemma mk_ok_remove_message_keys:
  "\<lbrakk>session_state_remove_message_keys st k n = (Some mk, st'); ss_ok st\<rbrakk> \<Longrightarrow> mk_ok mk"
  by (auto simp: session_state_remove_message_keys_def session_state_find_receiver_chain_def ss_ok_def
      rc_ok_def list_all_iff split: option.splits dest!: find_Some_set)

lemma ck_ok_get_receiver_chain_key:
  "\<lbrakk>session_state_get_receiver_chain_key st k = Some ck; ss_ok st\<rbrakk> \<Longrightarrow> ck_ok (ss_session_version st) ck"
  by (auto simp: session_state_get_receiver_chain_key_def session_state_find_receiver_chain_def ss_ok_def
      rc_ok_def list_all_iff split: option.splits dest!: find_Some_set)

section \<open>Serialisation and back\<close>

lemma opt_pub_roundtrip:
  assumes "pred_option pub_ok k"
  obtains d where "opt_result (\<lambda>k. ec_public_key_serialize_protobuf (Some k)) k = Inr d"
    "opt_result curve_decode_point d = Inr k"
proof (cases k)
  case None
  then show ?thesis using that [of None] by simp
next
  case (Some x)
  then show ?thesis
    using assms that [of "Some (DJB_TYPE # pub_data x)"]
    by (simp add: ec_public_key_serialize_protobuf_def opt_result_def del: curve_consts)
qed

lemma key_pair_roundtrip:
  assumes "pred_option kp_ok p"
  obtains d pd where
    "opt_result (\<lambda>p. ec_public_key_serialize_protobuf (Some (kp_public_key p))) p = Inr d"
    "opt_result (\<lambda>p. ec_private_key_serialize_protobuf (Some (kp_private_key p))) p = Inr pd"
    "deserialize_key_pair d pd = Inr p"
proof (cases p)
  case None
  then show ?thesis using that [of None None] by (simp add: deserialize_key_pair_def)
next
  case (Some x)
  have "curve_decode_private_point (priv_data (kp_private_key x)) = Inr (kp_private_key x)"
    using assms Some by (simp add: curve_decode_private_inv kp_ok_def)
  then show ?thesis
    using assms Some that [of "Some (DJB_TYPE # pub_data (kp_public_key x))" "Some (priv_data (kp_private_key x))"]
    by (simp add: ec_public_key_serialize_protobuf_def ec_private_key_serialize_protobuf_def opt_result_def
        deserialize_key_pair_def kp_ok_def ec_key_pair_create_def del: curve_consts)
qed

lemma serialize_key_pair_roundtrip:
  assumes "pred_option kp_ok p"
  obtains d pd where "serialize_key_pair p = Inr (d, pd)" "deserialize_key_pair d pd = Inr p"
  using key_pair_roundtrip [OF assms] that by (metis (no_types, lifting) old.sum.simps(6) serialize_key_pair_def)

lemma chain_key_roundtrip:
  "pred_option (ck_ok v) ck \<Longrightarrow>
     deserialize_chain_key v (map_option session_state_serialize_prepare_chain_chain_key ck)
       = (Inr ck, option_pointer (map_option ck_kdf ck))"
  by (cases ck) (auto simp: deserialize_chain_key_def session_state_serialize_prepare_chain_chain_key_def
      ck_ok_def nonnull_def ratchet_chain_key_create_def)

lemma message_key_roundtrip:
  "mk_ok mk \<Longrightarrow> deserialize_message_key (session_state_serialize_prepare_message_keys mk) = mk"
  by (simp add: deserialize_message_key_def session_state_serialize_prepare_message_keys_def
      deserialize_array_def mk_ok_def)

lemma sender_chain_roundtrip:
  assumes "sc_ok v c"
  obtains s where "session_state_serialize_prepare_sender_chain c = Inr s"
    "session_state_deserialize_protobuf_sender_chain v s = Inr c"
proof -
  from assms have "pred_option kp_ok (sc_sender_ratchet_key_pair c)" by (simp add: sc_ok_def)
  from key_pair_roundtrip [OF this] obtain d pd where
    "opt_result (\<lambda>p. ec_public_key_serialize_protobuf (Some (kp_public_key p))) (sc_sender_ratchet_key_pair c) = Inr d"
    "opt_result (\<lambda>p. ec_private_key_serialize_protobuf (Some (kp_private_key p))) (sc_sender_ratchet_key_pair c) = Inr pd"
    "deserialize_key_pair d pd = Inr (sc_sender_ratchet_key_pair c)" by blast
  with assms that show ?thesis
    by (simp add: session_state_serialize_prepare_sender_chain_def chain_key_roundtrip sc_ok_def
        session_state_deserialize_protobuf_sender_chain_def)
qed

lemma receiver_chain_roundtrip:
  assumes "rc_ok v c"
  obtains s where "session_state_serialize_prepare_receiver_chain c = Inr s"
    "session_state_deserialize_protobuf_receiver_chain v s = Inr c"
proof -
  from assms have "pred_option pub_ok (rc_sender_ratchet_key c)" by (simp add: rc_ok_def)
  from opt_pub_roundtrip [OF this] obtain d where
    "opt_result (\<lambda>k. ec_public_key_serialize_protobuf (Some k)) (rc_sender_ratchet_key c) = Inr d"
    "opt_result curve_decode_point d = Inr (rc_sender_ratchet_key c)" by blast
  moreover have "map deserialize_message_key (map session_state_serialize_prepare_message_keys (rc_message_keys c))
      = rc_message_keys c"
    using assms by (auto simp: rc_ok_def list_all_iff message_key_roundtrip intro: map_idI)
  ultimately show ?thesis
    using assms that
    by (simp add: session_state_serialize_prepare_receiver_chain_def chain_key_roundtrip rc_ok_def
        session_state_deserialize_protobuf_receiver_chain_def
        session_state_serialize_prepare_chain_message_keys_list_def)
qed

lemma receiver_chains_roundtrip:
  "list_all (rc_ok v) cs \<Longrightarrow>
     \<exists>ss. map_result session_state_serialize_prepare_receiver_chain cs = Inr ss \<and>
          map_result (session_state_deserialize_protobuf_receiver_chain v) ss = Inr cs"
proof (induction cs)
  case (Cons c cs)
  then obtain ss where "map_result session_state_serialize_prepare_receiver_chain cs = Inr ss"
    "map_result (session_state_deserialize_protobuf_receiver_chain v) ss = Inr cs" by auto
  moreover from Cons.prems have "rc_ok v c" by simp
  from receiver_chain_roundtrip [OF this] obtain s where
    "session_state_serialize_prepare_receiver_chain c = Inr s"
    "session_state_deserialize_protobuf_receiver_chain v s = Inr c" by blast
  ultimately show ?case by (intro exI [of _ "s # ss"]) simp
qed simp

lemma pending_key_exchange_roundtrip:
  assumes "pke_ok x"
  obtains s where "session_state_serialize_prepare_pending_key_exchange x = Inr s"
    "session_state_deserialize_protobuf_pending_key_exchange s = Inr x"
proof -
  let ?i = "map_option (\<lambda>k. ec_key_pair_create (ik_public_key k) (ik_private_key k)) (pke_local_identity_key x)"
  from assms have ok: "pred_option kp_ok (pke_local_base_key x)" "pred_option kp_ok (pke_local_ratchet_key x)"
    "pred_option kp_ok ?i"
    by (auto simp: pke_ok_def option.pred_map kp_ok_def ec_key_pair_create_def comp_def)
  obtain b bp where b: "serialize_key_pair (pke_local_base_key x) = Inr (b, bp)"
    "deserialize_key_pair b bp = Inr (pke_local_base_key x)" by (rule serialize_key_pair_roundtrip [OF ok(1)])
  obtain r rp where r: "serialize_key_pair (pke_local_ratchet_key x) = Inr (r, rp)"
    "deserialize_key_pair r rp = Inr (pke_local_ratchet_key x)" by (rule serialize_key_pair_roundtrip [OF ok(2)])
  obtain i ip where i: "serialize_key_pair ?i = Inr (i, ip)" "deserialize_key_pair i ip = Inr ?i"
    by (rule serialize_key_pair_roundtrip [OF ok(3)])
  have id: "map_option (\<lambda>p. ratchet_identity_key_pair_create (kp_public_key p) (kp_private_key p)) ?i
      = pke_local_identity_key x"
    by (cases "pke_local_identity_key x")
       (simp_all add: ratchet_identity_key_pair_create_def ec_key_pair_create_def)
  show ?thesis using that b r i id
    by (simp add: session_state_serialize_prepare_pending_key_exchange_def
        session_state_deserialize_protobuf_pending_key_exchange_def)
qed

lemma pending_pre_key_roundtrip:
  assumes "ppk_ok x"
  obtains s where "session_state_serialize_prepare_pending_pre_key x = Inr s"
    "session_state_deserialize_protobuf_pending_pre_key s = Inr x"
proof -
  from assms have "pred_option pub_ok (ppk_base_key x)" by (simp add: ppk_ok_def)
  from opt_pub_roundtrip [OF this] obtain d where
    "opt_result (\<lambda>k. ec_public_key_serialize_protobuf (Some k)) (ppk_base_key x) = Inr d"
    "opt_result curve_decode_point d = Inr (ppk_base_key x)" by blast
  with assms that show ?thesis
    by (simp add: session_state_serialize_prepare_pending_pre_key_def ppk_ok_def
        session_state_deserialize_protobuf_pending_pre_key_def)
qed

lemma root_key_roundtrip:
  "pred_option (rk_ok v) rk \<Longrightarrow> opt_result (deserialize_root_key v) (map_option rk_key rk) = Inr rk"
  by (cases rk) (auto simp: opt_result_def deserialize_root_key_def rk_ok_def nonnull_def ratchet_root_key_create_def)

text \<open>The three guarded parts: nothing is written for a cleared flag, and the zeroed part comes back.\<close>

lemma guarded_sender_chain_roundtrip:
  assumes "sc_ok v c" "\<not> b \<longrightarrow> c = sender_chain_zero"
  obtains s where
    "(if b then opt_result session_state_serialize_prepare_sender_chain (Some c) else Inr None) = Inr s"
    "deserialize_sender_chain_unchecked v s = Inr c" "(s \<noteq> None) = b"
proof (cases b)
  case True
  obtain s where "session_state_serialize_prepare_sender_chain c = Inr s"
    "session_state_deserialize_protobuf_sender_chain v s = Inr c"
    by (rule sender_chain_roundtrip [OF assms(1)])
  with True that [of "Some s"] show ?thesis by (simp add: deserialize_sender_chain_unchecked_def)
next
  case False
  with assms(2) that [of None] show ?thesis by (simp add: deserialize_sender_chain_unchecked_def)
qed

lemma guarded_roundtrip:
  assumes "b \<Longrightarrow> \<exists>s. ser c = Inr s \<and> des s = Inr c" "\<not> b \<longrightarrow> c = zero"
  obtains s d where "(if b then opt_result ser (Some c) else Inr None) = Inr s" "opt_result des s = Inr d"
    "(case d of Some x \<Rightarrow> x | None \<Rightarrow> zero) = c" "(s \<noteq> None) = b"
proof (cases b)
  case True
  with assms(1) obtain s where "ser c = Inr s" "des s = Inr c" by blast
  with True that [of "Some s" "Some c"] show ?thesis by simp
next
  case False
  with assms(2) that [of None None] show ?thesis by simp
qed

lemma session_state_protobuf_roundtrip:
  assumes "ss_ok st"
  obtains s where "session_state_serialize_prepare st = Inr s"
    "session_state_deserialize_protobuf s = Inr st"
proof -
  let ?v = "ss_session_version st"
  from assms have ok: "pred_option pub_ok (ss_local_identity_public st)"
    "pred_option pub_ok (ss_remote_identity_public st)" "pred_option (rk_ok ?v) (ss_root_key st)"
    "sc_ok ?v (ss_sender_chain st)" "\<not> ss_has_sender_chain st \<longrightarrow> ss_sender_chain st = sender_chain_zero"
    "list_all (rc_ok ?v) (ss_receiver_chains st)" "pke_ok (ss_pending_key_exchange st)"
    "\<not> ss_has_pending_key_exchange st \<longrightarrow> ss_pending_key_exchange st = pending_key_exchange_zero"
    "ppk_ok (ss_pending_pre_key st)"
    "\<not> ss_has_pending_pre_key st \<longrightarrow> ss_pending_pre_key st = pending_pre_key_zero"
    "pred_option pub_ok (ss_alice_base_key st)"
    by (simp_all add: ss_ok_def)
  obtain li where li: "opt_result (\<lambda>k. ec_public_key_serialize_protobuf (Some k)) (ss_local_identity_public st) = Inr li"
    "opt_result curve_decode_point li = Inr (ss_local_identity_public st)" by (rule opt_pub_roundtrip [OF ok(1)])
  obtain ri where ri: "opt_result (\<lambda>k. ec_public_key_serialize_protobuf (Some k)) (ss_remote_identity_public st) = Inr ri"
    "opt_result curve_decode_point ri = Inr (ss_remote_identity_public st)" by (rule opt_pub_roundtrip [OF ok(2)])
  obtain ab where ab: "opt_result (\<lambda>k. ec_public_key_serialize_protobuf (Some k)) (ss_alice_base_key st) = Inr ab"
    "opt_result curve_decode_point ab = Inr (ss_alice_base_key st)" by (rule opt_pub_roundtrip [OF ok(11)])
  obtain sc where sc: "(if ss_has_sender_chain st
      then opt_result session_state_serialize_prepare_sender_chain (Some (ss_sender_chain st)) else Inr None) = Inr sc"
    "deserialize_sender_chain_unchecked ?v sc = Inr (ss_sender_chain st)" "(sc \<noteq> None) = ss_has_sender_chain st"
    by (rule guarded_sender_chain_roundtrip [OF ok(4,5)])
  obtain rcs where rcs: "map_result session_state_serialize_prepare_receiver_chain (ss_receiver_chains st) = Inr rcs"
    "map_result (session_state_deserialize_protobuf_receiver_chain ?v) rcs = Inr (ss_receiver_chains st)"
    using receiver_chains_roundtrip [OF ok(6)] by blast
  have "\<exists>s. session_state_serialize_prepare_pending_key_exchange (ss_pending_key_exchange st) = Inr s \<and>
      session_state_deserialize_protobuf_pending_key_exchange s = Inr (ss_pending_key_exchange st)"
    by (rule pending_key_exchange_roundtrip [OF ok(7)]) blast
  then obtain ke kd where ke: "(if ss_has_pending_key_exchange st
      then opt_result session_state_serialize_prepare_pending_key_exchange (Some (ss_pending_key_exchange st))
      else Inr None) = Inr ke"
    "opt_result session_state_deserialize_protobuf_pending_key_exchange ke = Inr kd"
    "(case kd of Some x \<Rightarrow> x | None \<Rightarrow> pending_key_exchange_zero) = ss_pending_key_exchange st"
    "(ke \<noteq> None) = ss_has_pending_key_exchange st"
    by (rule guarded_roundtrip [OF _ ok(8)])
  have "\<exists>s. session_state_serialize_prepare_pending_pre_key (ss_pending_pre_key st) = Inr s \<and>
      session_state_deserialize_protobuf_pending_pre_key s = Inr (ss_pending_pre_key st)"
    by (rule pending_pre_key_roundtrip [OF ok(9)]) blast
  then obtain pk pd where pk: "(if ss_has_pending_pre_key st
      then opt_result session_state_serialize_prepare_pending_pre_key (Some (ss_pending_pre_key st))
      else Inr None) = Inr pk"
    "opt_result session_state_deserialize_protobuf_pending_pre_key pk = Inr pd"
    "(case pd of Some x \<Rightarrow> x | None \<Rightarrow> pending_pre_key_zero) = ss_pending_pre_key st"
    "(pk \<noteq> None) = ss_has_pending_pre_key st"
    by (rule guarded_roundtrip [OF _ ok(10)])
  show ?thesis
    using that li ri ab sc rcs ke pk root_key_roundtrip [OF ok(3)]
    by (simp add: session_state_serialize_prepare_def session_state_deserialize_protobuf_def Let_def)
qed

section \<open>The serialised size\<close>

text \<open>
  A state in the invariant is far below the limit of the wire format, so the size
  hypothesis of the codec is always met.
\<close>

lemma ec_serialize_length:
  "opt_result (\<lambda>k. ec_public_key_serialize_protobuf (Some k)) k = Inr d \<Longrightarrow> pred_option pub_ok k \<Longrightarrow>
     pred_option (\<lambda>d. length d \<le> 33) d"
  by (cases k) (auto simp: opt_result_def ec_public_key_serialize_protobuf_def pub_ok_def)

lemma serialize_key_pair_length:
  "serialize_key_pair p = Inr (d, pd) \<Longrightarrow> pred_option kp_ok p \<Longrightarrow>
     pred_option (\<lambda>d. length d \<le> 33) d \<and> pred_option (\<lambda>d. length d \<le> 32) pd"
  by (cases p) (auto simp: serialize_key_pair_def opt_result_def ec_public_key_serialize_protobuf_def
      ec_private_key_serialize_protobuf_def kp_ok_def pub_ok_def priv_ok_def)

lemma chain_key_size:
  "ck_ok v ck \<Longrightarrow> length (pb_pack sck_desc (sck_to_pb (session_state_serialize_prepare_chain_chain_key ck))) \<le> 44"
  using pb_bound_32 [of 1 "Some (ck_index ck)"] pb_bound_bytes [of 2 32 "Some (ck_key ck)"]
  by (simp add: sck_desc_def sck_to_pb_def session_state_serialize_prepare_chain_chain_key_def ck_ok_def
      word_less_nat_alt)

lemma message_key_size:
  "mk_ok mk \<Longrightarrow> length (pb_pack smk_desc (smk_to_pb (session_state_serialize_prepare_message_keys mk))) \<le> 104"
  using pb_bound_32 [of 1 "Some (mk_counter mk)"] pb_bound_bytes [of 2 32 "Some (mk_cipher_key mk)"]
    pb_bound_bytes [of 3 32 "Some (mk_mac_key mk)"] pb_bound_bytes [of 4 16 "Some (mk_iv mk)"]
  by (simp add: smk_desc_def smk_to_pb_def session_state_serialize_prepare_message_keys_def mk_ok_def
      word_less_nat_alt)

lemma chain_size:
  assumes "pred_option (\<lambda>d. length d \<le> 33) (sch_senderratchetkey s)"
    "pred_option (\<lambda>d. length d \<le> 32) (sch_senderratchetkeyprivate s)"
    "sch_chainkey s = map_option session_state_serialize_prepare_chain_chain_key ck" "pred_option (ck_ok v) ck"
    "sch_messagekeys s = map session_state_serialize_prepare_message_keys mks" "list_all mk_ok mks" "length mks \<le> 2000"
  shows "length (pb_pack sch_desc (sch_to_pb s)) \<le> 220127"
proof -
  have "pred_option (\<lambda>x. length (pb_pack sck_desc (sck_to_pb x)) \<le> 44) (sch_chainkey s)"
    using assms(3,4) chain_key_size by (cases ck) auto
  moreover have "list_all (\<lambda>x. length (pb_pack smk_desc (smk_to_pb x)) \<le> 104) (sch_messagekeys s)"
    using assms(5,6) message_key_size by (auto simp: list_all_iff)
  ultimately show ?thesis
    using assms pb_bound_bytes [of 1 33 "sch_senderratchetkey s"] pb_bound_bytes [of 2 32 "sch_senderratchetkeyprivate s"]
      pb_bound_msg [of 3 sck_desc sck_to_pb 44 "sch_chainkey s"]
      pb_bound_msgs [of 4 smk_desc smk_to_pb 104 "sch_messagekeys s" 2000]
    by (simp add: sch_desc_def sch_to_pb_def word_less_nat_alt)
qed

lemma sender_chain_size:
  assumes "session_state_serialize_prepare_sender_chain c = Inr s" "sc_ok v c"
  shows "length (pb_pack sch_desc (sch_to_pb s)) \<le> 220127"
proof -
  obtain d pd where k: "serialize_key_pair (sc_sender_ratchet_key_pair c) = Inr (d, pd)"
    and s: "s = \<lparr>sch_senderratchetkey = d, sch_senderratchetkeyprivate = pd,
      sch_chainkey = map_option session_state_serialize_prepare_chain_chain_key (sc_chain_key c),
      sch_messagekeys = []\<rparr>"
    using assms by (auto simp: session_state_serialize_prepare_sender_chain_def serialize_key_pair_def
        session_state_serialize_prepare_chain_message_keys_list_def sc_ok_def split: sum.splits)
  show ?thesis
    using serialize_key_pair_length [OF k] assms(2) unfolding s sc_ok_def
    by (intro chain_size [of _ "sc_chain_key c" v "[]"]) auto
qed

lemma receiver_chain_size:
  assumes "session_state_serialize_prepare_receiver_chain c = Inr s" "rc_ok v c"
  shows "length (pb_pack sch_desc (sch_to_pb s)) \<le> 220127"
proof -
  obtain d where k: "opt_result (\<lambda>k. ec_public_key_serialize_protobuf (Some k)) (rc_sender_ratchet_key c) = Inr d"
    and s: "s = \<lparr>sch_senderratchetkey = d, sch_senderratchetkeyprivate = None,
      sch_chainkey = map_option session_state_serialize_prepare_chain_chain_key (rc_chain_key c),
      sch_messagekeys = map session_state_serialize_prepare_message_keys (rc_message_keys c)\<rparr>"
    using assms by (auto simp: session_state_serialize_prepare_receiver_chain_def
        session_state_serialize_prepare_chain_message_keys_list_def split: sum.splits)
  show ?thesis
    using ec_serialize_length [OF k] assms(2) unfolding s rc_ok_def MAX_MESSAGE_KEYS_def
    by (intro chain_size [of _ "rc_chain_key c" v "rc_message_keys c"]) auto
qed

lemma pending_key_exchange_size:
  assumes "session_state_serialize_prepare_pending_key_exchange x = Inr s" "pke_ok x"
  shows "length (pb_pack ske_desc (ske_to_pb s)) \<le> 237"
proof -
  let ?i = "map_option (\<lambda>k. ec_key_pair_create (ik_public_key k) (ik_private_key k)) (pke_local_identity_key x)"
  obtain b bp r rp i ip where k: "serialize_key_pair (pke_local_base_key x) = Inr (b, bp)"
    "serialize_key_pair (pke_local_ratchet_key x) = Inr (r, rp)" "serialize_key_pair ?i = Inr (i, ip)"
    and s: "s = \<lparr>ske_sequence = Some (pke_sequence x), ske_localbasekey = b, ske_localbasekeyprivate = bp,
      ske_localratchetkey = r, ske_localratchetkeyprivate = rp, ske_localidentitykey = i,
      ske_localidentitykeyprivate = ip\<rparr>"
    using assms(1) by (auto simp: session_state_serialize_prepare_pending_key_exchange_def result_simps)
  have "pred_option kp_ok ?i"
    using assms(2) by (auto simp: pke_ok_def option.pred_map kp_ok_def ec_key_pair_create_def comp_def)
  with serialize_key_pair_length [OF k(1)] serialize_key_pair_length [OF k(2)] serialize_key_pair_length [OF k(3)]
    assms(2)
  show ?thesis
    using pb_bound_32 [of 1 "Some (pke_sequence x)"] pb_bound_bytes [of 2 33 b] pb_bound_bytes [of 3 32 bp]
      pb_bound_bytes [of 4 33 r] pb_bound_bytes [of 5 32 rp] pb_bound_bytes [of 7 33 i] pb_bound_bytes [of 8 32 ip]
    by (simp add: s ske_desc_def ske_to_pb_def pke_ok_def word_less_nat_alt)
qed

lemma pending_pre_key_size:
  assumes "session_state_serialize_prepare_pending_pre_key x = Inr s" "ppk_ok x"
  shows "length (pb_pack spp_desc (spp_to_pb s)) \<le> 56"
proof -
  obtain d where k: "opt_result (\<lambda>k. ec_public_key_serialize_protobuf (Some k)) (ppk_base_key x) = Inr d"
    and s: "spp_basekey s = d"
    using assms by (auto simp: session_state_serialize_prepare_pending_pre_key_def split: sum.splits)
  show ?thesis
    using ec_serialize_length [OF k] assms(2) s pb_bound_32 [of 1 "spp_prekeyid s"]
      pb_bound_bytes [of 2 33 "spp_basekey s"] pb_bound_int32 [of 3 "spp_signedprekeyid s"]
    by (simp add: spp_desc_def spp_to_pb_def ppk_ok_def word_less_nat_alt)
qed

definition session_structure_small :: "SessionStructure \<Rightarrow> bool" where
  "session_structure_small s \<longleftrightarrow>
     pred_option (\<lambda>d. length d \<le> 33) (sst_localidentitypublic s) \<and>
     pred_option (\<lambda>d. length d \<le> 33) (sst_remoteidentitypublic s) \<and>
     pred_option (\<lambda>d. length d \<le> 32) (sst_rootkey s) \<and>
     pred_option (\<lambda>x. length (pb_pack sch_desc (sch_to_pb x)) \<le> 220127) (sst_senderchain s) \<and>
     list_all (\<lambda>x. length (pb_pack sch_desc (sch_to_pb x)) \<le> 220127) (sst_receiverchains s) \<and>
     length (sst_receiverchains s) \<le> 5 \<and>
     pred_option (\<lambda>x. length (pb_pack ske_desc (ske_to_pb x)) \<le> 237) (sst_pendingkeyexchange s) \<and>
     pred_option (\<lambda>x. length (pb_pack spp_desc (spp_to_pb x)) \<le> 56) (sst_pendingprekey s) \<and>
     pred_option (\<lambda>d. length d \<le> 33) (sst_alicebasekey s)"

lemma session_structure_small_size:
  "session_structure_small s \<Longrightarrow> length (pb_pack sst_desc (sst_to_pb s)) \<le> 1321320"
  using pb_bound_32 [of 1 "sst_sessionversion s"] pb_bound_bytes [of 2 33 "sst_localidentitypublic s"]
    pb_bound_bytes [of 3 33 "sst_remoteidentitypublic s"] pb_bound_bytes [of 4 32 "sst_rootkey s"]
    pb_bound_32 [of 5 "sst_previouscounter s"] pb_bound_msg [of 6 sch_desc sch_to_pb 220127 "sst_senderchain s"]
    pb_bound_msgs [of 7 sch_desc sch_to_pb 220127 "sst_receiverchains s" 5]
    pb_bound_msg [of 8 ske_desc ske_to_pb 237 "sst_pendingkeyexchange s"]
    pb_bound_msg [of 9 spp_desc spp_to_pb 56 "sst_pendingprekey s"]
    pb_bound_32 [of 10 "sst_remoteregistrationid s"] pb_bound_32 [of 11 "sst_localregistrationid s"]
    pb_bound_bool [of 12 "sst_needsrefresh s"] pb_bound_bytes [of 13 33 "sst_alicebasekey s"]
  by (simp add: session_structure_small_def sst_desc_def sst_to_pb_def word_less_nat_alt)

lemma session_state_prepare_fields:
  assumes "session_state_serialize_prepare st = Inr s"
  shows "opt_result (\<lambda>k. ec_public_key_serialize_protobuf (Some k)) (ss_local_identity_public st) = Inr (sst_localidentitypublic s)"
    "opt_result (\<lambda>k. ec_public_key_serialize_protobuf (Some k)) (ss_remote_identity_public st) = Inr (sst_remoteidentitypublic s)"
    "opt_result (\<lambda>k. ec_public_key_serialize_protobuf (Some k)) (ss_alice_base_key st) = Inr (sst_alicebasekey s)"
    "sst_rootkey s = map_option rk_key (ss_root_key st)"
    "(if ss_has_sender_chain st then opt_result session_state_serialize_prepare_sender_chain (Some (ss_sender_chain st))
      else Inr None) = Inr (sst_senderchain s)"
    "map_result session_state_serialize_prepare_receiver_chain (ss_receiver_chains st) = Inr (sst_receiverchains s)"
    "(if ss_has_pending_key_exchange st
      then opt_result session_state_serialize_prepare_pending_key_exchange (Some (ss_pending_key_exchange st))
      else Inr None) = Inr (sst_pendingkeyexchange s)"
    "(if ss_has_pending_pre_key st
      then opt_result session_state_serialize_prepare_pending_pre_key (Some (ss_pending_pre_key st))
      else Inr None) = Inr (sst_pendingprekey s)"
  using assms unfolding session_state_serialize_prepare_def case_result_Inr by (auto simp del: opt_result_simps)

lemma guarded_pred:
  "\<lbrakk>(if b then opt_result ser (Some c) else Inr None) = Inr s; \<And>x. ser c = Inr x \<Longrightarrow> P x\<rbrakk> \<Longrightarrow> pred_option P s"
  by (auto simp: opt_result_def split: if_splits sum.splits)

lemma session_state_prepare_small:
  assumes prep: "session_state_serialize_prepare st = Inr s" and ok: "ss_ok st"
  shows "session_structure_small s"
proof -
  let ?v = "ss_session_version st"
  note f = session_state_prepare_fields [OF prep]
  from f(6) ok have "list_all2 (\<lambda>c x. session_state_serialize_prepare_receiver_chain c = Inr x \<and> rc_ok ?v c)
      (ss_receiver_chains st) (sst_receiverchains s)"
    by (auto simp: map_result_Inr ss_ok_def list_all_iff list_all2_conv_all_nth)
  then have "list_all (\<lambda>x. length (pb_pack sch_desc (sch_to_pb x)) \<le> 220127) (sst_receiverchains s)"
    "length (sst_receiverchains s) = length (ss_receiver_chains st)"
    using receiver_chain_size by (auto simp: list_all_length list_all2_conv_all_nth)
  moreover have "pred_option (\<lambda>x. length (pb_pack sch_desc (sch_to_pb x)) \<le> 220127) (sst_senderchain s)"
    using ok sender_chain_size by (intro guarded_pred [OF f(5)]) (auto simp: ss_ok_def)
  moreover have "pred_option (\<lambda>x. length (pb_pack ske_desc (ske_to_pb x)) \<le> 237) (sst_pendingkeyexchange s)"
    using ok pending_key_exchange_size by (intro guarded_pred [OF f(7)]) (auto simp: ss_ok_def)
  moreover have "pred_option (\<lambda>x. length (pb_pack spp_desc (spp_to_pb x)) \<le> 56) (sst_pendingprekey s)"
    using ok pending_pre_key_size by (intro guarded_pred [OF f(8)]) (auto simp: ss_ok_def)
  moreover have "pred_option (\<lambda>d. length d \<le> 32) (sst_rootkey s)"
    using f(4) ok by (cases "ss_root_key st") (auto simp: ss_ok_def rk_ok_def)
  ultimately show ?thesis
    using f(1-3) ok ec_serialize_length by (auto simp: session_structure_small_def ss_ok_def MAX_RECEIVER_CHAINS_def)
qed

lemma session_state_serialize_total: "ss_ok st \<Longrightarrow> \<exists>d. session_state_serialize st = Inr d"
  by (rule session_state_protobuf_roundtrip [of st])
     (auto simp: session_state_serialize_def sst.serialize_ok)

lemma session_state_size: "\<lbrakk>ss_ok st; session_state_serialize st = Inr d\<rbrakk> \<Longrightarrow> length d \<le> 2 ^ 28 - 32"
  using session_structure_small_size session_state_prepare_small
  by (fastforce simp: session_state_serialize_def result_simps sst.serialize_ok)

lemma session_state_roundtrip:
  assumes "ss_ok st" "session_state_serialize st = Inr d"
  shows "session_state_deserialize d = Inr st"
proof -
  obtain s where s: "session_state_serialize_prepare st = Inr s" "session_state_deserialize_protobuf s = Inr st"
    by (rule session_state_protobuf_roundtrip [OF assms(1)])
  with assms(2) have "pb_serialize sst_desc (sst_to_pb s) = Inr d" by (simp add: session_state_serialize_def)
  from sst.deserialize_small [OF this session_state_size [OF assms]] s show ?thesis
    by (simp add: session_state_deserialize_def)
qed

lemma session_state_copy_id: "ss_ok st \<Longrightarrow> session_state_copy st = Inr st"
  using session_state_serialize_total session_state_roundtrip by (fastforce simp: session_state_copy_def)

section \<open>Versions other than 2 and 3\<close>

text \<open>
  The stored sessions that are read with a freed pointer: the version is neither 2 nor 3,
  there is no root key, whose reader would stop the run, and the first chain that stops the
  run is one with a chain key and with keys that decode.
\<close>

definition has_chain_key :: "Chain \<Rightarrow> bool" where
  "has_chain_key s = (case sch_chainkey s of None \<Rightarrow> False | Some ck \<Rightarrow> sck_key ck \<noteq> None \<and> sck_index ck \<noteq> None)"

definition version_known :: "u32 \<Rightarrow> bool" where
  "version_known v \<longleftrightarrow> v = 2 \<or> v = 3"

definition chain_frees_twice :: "bool \<Rightarrow> Chain \<Rightarrow> bool" where
  "chain_frees_twice sending s \<longleftrightarrow> has_chain_key s \<and>
     (if sending then \<not> isl (deserialize_key_pair (sch_senderratchetkey s) (sch_senderratchetkeyprivate s))
      else \<not> isl (opt_result curve_decode_point (sch_senderratchetkey s)))"

definition releases_freed_context :: "SessionStructure \<Rightarrow> bool" where
  "releases_freed_context t \<longleftrightarrow>
     \<not> version_known (case sst_sessionversion t of Some v \<Rightarrow> v | None \<Rightarrow> 2) \<and> sst_rootkey t = None \<and>
     \<not> isl (opt_result curve_decode_point (sst_localidentitypublic t)) \<and>
     \<not> isl (opt_result curve_decode_point (sst_remoteidentitypublic t)) \<and>
     ((case sst_senderchain t of None \<Rightarrow> False | Some s \<Rightarrow> chain_frees_twice True s) \<or>
      (case dropWhile (\<lambda>s. \<not> has_chain_key s \<and> \<not> isl (opt_result curve_decode_point (sch_senderratchetkey s)))
              (sst_receiverchains t) of [] \<Rightarrow> False | s # _ \<Rightarrow> chain_frees_twice False s))"

lemma hkdf_create_known:
  "version_known v \<Longrightarrow> \<exists>c. hkdf_create v = (Inr (), Live c)"
  "\<not> version_known v \<Longrightarrow> hkdf_create v = (Inl SG_ERR_INVAL, Freed)"
  by (auto simp: version_known_def hkdf_create_def)

lemma chain_key_pointer:
  assumes "deserialize_chain_key v (sch_chainkey s) = (x, kdf)"
  shows "version_known v \<Longrightarrow> kdf \<noteq> Freed \<and> x \<noteq> Inl C_UNDEFINED"
    "\<not> version_known v \<Longrightarrow> has_chain_key s \<Longrightarrow> kdf = Freed"
    "\<not> version_known v \<Longrightarrow> \<not> has_chain_key s \<Longrightarrow> kdf = Null \<and> x = Inr None"
  using assms hkdf_create_known [of v]
  by (auto simp: deserialize_chain_key_def has_chain_key_def ratchet_chain_key_create_def
      split: option.splits prod.splits sum.splits)

lemma SIGNAL_UNREF_undefined: "SIGNAL_UNREF p r = Inl C_UNDEFINED \<longleftrightarrow> p = Freed \<or> r = Inl C_UNDEFINED"
  by (cases p) simp_all

lemma decode_defined:
  "opt_result curve_decode_point k \<noteq> Inl C_UNDEFINED" "deserialize_key_pair k p \<noteq> Inl C_UNDEFINED"
  by (auto simp: opt_result_def curve_decode_point_def curve_decode_private_point_def deserialize_key_pair_def
      split: option.splits sum.splits if_splits)

lemma sender_chain_undefined:
  "session_state_deserialize_protobuf_sender_chain v s = Inl C_UNDEFINED \<longleftrightarrow> \<not> version_known v \<and> has_chain_key s \<and>
     (\<exists>kp. deserialize_key_pair (sch_senderratchetkey s) (sch_senderratchetkeyprivate s) = Inr kp)"
  using chain_key_pointer [of v s] decode_defined(2)
  by (cases "version_known v"; cases "has_chain_key s"; cases "deserialize_chain_key v (sch_chainkey s)")
     (auto simp: session_state_deserialize_protobuf_sender_chain_def SIGNAL_UNREF_undefined split: sum.split)

lemma receiver_chain_undefined:
  "session_state_deserialize_protobuf_receiver_chain v s = Inl C_UNDEFINED \<longleftrightarrow> \<not> version_known v \<and> has_chain_key s \<and>
     (\<exists>pk. opt_result curve_decode_point (sch_senderratchetkey s) = Inr pk)"
  using chain_key_pointer [of v s] decode_defined(1)
  by (cases "version_known v"; cases "has_chain_key s"; cases "deserialize_chain_key v (sch_chainkey s)")
     (auto simp: session_state_deserialize_protobuf_receiver_chain_def SIGNAL_UNREF_undefined split: sum.split)

lemma receiver_chain_unknown:
  "\<not> version_known v \<Longrightarrow> (\<exists>c. session_state_deserialize_protobuf_receiver_chain v s = Inr c) \<longleftrightarrow> \<not> has_chain_key s \<and>
     (\<exists>pk. opt_result curve_decode_point (sch_senderratchetkey s) = Inr pk)"
  using chain_key_pointer [of v s]
  by (cases "has_chain_key s"; cases "deserialize_chain_key v (sch_chainkey s)")
     (auto simp: session_state_deserialize_protobuf_receiver_chain_def split: sum.split)

lemma not_isl: "\<not> isl x \<longleftrightarrow> (\<exists>y. x = Inr y)"
  by (cases x) simp_all

lemma sender_unchecked_undefined:
  "deserialize_sender_chain_unchecked v c = Inl e \<longleftrightarrow>
     e = C_UNDEFINED \<and> \<not> version_known v \<and> (\<exists>s. c = Some s \<and> chain_frees_twice True s)"
proof (cases c)
  case (Some s)
  show ?thesis
    using sender_chain_undefined [of v s] Some
    by (cases "session_state_deserialize_protobuf_sender_chain v s")
       (auto simp: deserialize_sender_chain_unchecked_def chain_frees_twice_def not_isl)
qed (simp add: deserialize_sender_chain_unchecked_def)

lemma sender_unchecked_read:
  "(\<exists>y. deserialize_sender_chain_unchecked v c = Inr y) \<longleftrightarrow>
     version_known v \<or> (\<forall>s. c = Some s \<longrightarrow> \<not> chain_frees_twice True s)"
  using sender_unchecked_undefined [of v c] by (cases "deserialize_sender_chain_unchecked v c") auto

lemma map_result_undefined:
  assumes "\<And>x. (\<exists>y. f x = Inr y) \<longleftrightarrow> P x"
  shows "map_result f xs = Inl e \<longleftrightarrow> (case dropWhile P xs of [] \<Rightarrow> False | x # _ \<Rightarrow> f x = Inl e)"
proof (induction xs)
  case (Cons x xs)
  then show ?case using assms [of x] by (cases "f x"; cases "map_result f xs") (auto simp del: dropWhile_eq_Nil_conv)
qed simp

lemma receivers_undefined:
  "map_result (session_state_deserialize_protobuf_receiver_chain v) cs = Inl C_UNDEFINED \<longleftrightarrow> \<not> version_known v \<and>
     (case dropWhile (\<lambda>s. \<not> has_chain_key s \<and> \<not> isl (opt_result curve_decode_point (sch_senderratchetkey s))) cs of
        [] \<Rightarrow> False | s # _ \<Rightarrow> chain_frees_twice False s)"
proof (cases "version_known v")
  case True
  have "map_result (session_state_deserialize_protobuf_receiver_chain v) cs \<noteq> Inl C_UNDEFINED"
  proof (induction cs)
    case (Cons c cs)
    with True receiver_chain_undefined [of v c] show ?case by (auto split: sum.splits)
  qed simp
  with True show ?thesis by simp
next
  case False
  have "map_result (session_state_deserialize_protobuf_receiver_chain v) cs = Inl C_UNDEFINED \<longleftrightarrow>
     (case dropWhile (\<lambda>s. \<not> has_chain_key s \<and> \<not> isl (opt_result curve_decode_point (sch_senderratchetkey s))) cs of
        [] \<Rightarrow> False | s # _ \<Rightarrow> session_state_deserialize_protobuf_receiver_chain v s = Inl C_UNDEFINED)"
    by (rule map_result_undefined) (simp add: receiver_chain_unknown [OF False] not_isl)
  with False show ?thesis
    by (cases "dropWhile (\<lambda>s. \<not> has_chain_key s \<and> \<not> isl (opt_result curve_decode_point (sch_senderratchetkey s))) cs")
       (simp_all add: receiver_chain_undefined chain_frees_twice_def not_isl del: dropWhile_eq_Nil_conv)
qed

lemma root_key_undefined:
  "opt_result (deserialize_root_key v) k = Inl e \<Longrightarrow> e = SG_ERR_INVAL"
  "\<not> version_known v \<Longrightarrow> opt_result (deserialize_root_key v) k = (if k = None then Inr None else Inl SG_ERR_INVAL)"
proof -
  show "e = SG_ERR_INVAL" if "opt_result (deserialize_root_key v) k = Inl e"
    using that hkdf_create_known [of v] 
    by (cases "version_known v")
       (auto simp: opt_result_def deserialize_root_key_def ratchet_root_key_create_def split: option.splits sum.splits)
  show "opt_result (deserialize_root_key v) k = (if k = None then Inr None else Inl SG_ERR_INVAL)" if "\<not> version_known v"
    using hkdf_create_known(2) [OF that] by (simp add: opt_result_def deserialize_root_key_def split: option.split)
qed

lemma pending_defined:
  "opt_result session_state_deserialize_protobuf_pending_key_exchange x \<noteq> Inl C_UNDEFINED"
  "opt_result session_state_deserialize_protobuf_pending_pre_key y \<noteq> Inl C_UNDEFINED"
  using decode_defined
  by (auto simp: opt_result_def [of session_state_deserialize_protobuf_pending_key_exchange]
      opt_result_def [of session_state_deserialize_protobuf_pending_pre_key]
      session_state_deserialize_protobuf_pending_key_exchange_def
      session_state_deserialize_protobuf_pending_pre_key_def split: option.splits sum.splits)

lemma case_undefined:
  "(case x of Inl e \<Rightarrow> Inl e | Inr y \<Rightarrow> f y) = Inl C_UNDEFINED \<longleftrightarrow>
     x = Inl C_UNDEFINED \<or> (\<exists>y. x = Inr y \<and> f y = Inl C_UNDEFINED)"
  by (cases x) simp_all

lemma session_state_undefined:
  "session_state_deserialize_protobuf t = Inl C_UNDEFINED \<longleftrightarrow> releases_freed_context t"
proof -
  have no: "opt_result (deserialize_root_key v) k \<noteq> Inl C_UNDEFINED" for v k using root_key_undefined(1) by fastforce
  show ?thesis
  proof (cases "version_known (case sst_sessionversion t of Some v \<Rightarrow> v | None \<Rightarrow> 2)")
    case True
    then show ?thesis
      unfolding session_state_deserialize_protobuf_def Let_def case_undefined releases_freed_context_def
        sender_unchecked_undefined receivers_undefined by (simp add: decode_defined pending_defined no)
  next
    case False
    then show ?thesis
      unfolding session_state_deserialize_protobuf_def Let_def case_undefined releases_freed_context_def
        sender_unchecked_undefined receivers_undefined root_key_undefined(2) [OF False]
      by (cases "sst_senderchain t") (auto simp: decode_defined pending_defined no not_isl sender_unchecked_read)
  qed
qed

end
