(* ===== verification/Session_Record.thy ===== *)
theory Session_Record
  imports Session_State_Laws
begin

text \<open>
  \<^verbatim>\<open>session_record.c\<close>: the current session state and the archived ones, newest first, at
  most 40.  The laws: the bound is kept, promoting a state makes it current and archives
  the previous one, and a record survives serialisation.
\<close>

definition ARCHIVED_STATES_MAX_LENGTH :: nat where "ARCHIVED_STATES_MAX_LENGTH = 40"

record session_record =
  sr_state :: "session_state option"
  sr_previous_states :: "session_state list"
  sr_is_fresh :: bool

definition session_record_create :: "session_state option \<Rightarrow> session_record" where
  "session_record_create state =
     (case state of
        None \<Rightarrow> \<lparr>sr_state = Some session_state_create, sr_previous_states = [], sr_is_fresh = True\<rparr>
      | Some s \<Rightarrow> \<lparr>sr_state = Some s, sr_previous_states = [], sr_is_fresh = False\<rparr>)"

definition session_record_serialize :: "session_record option \<Rightarrow> bytes result" where
  "session_record_serialize record =
     (case record of None \<Rightarrow> Inl SG_ERR_INVAL
      | Some r \<Rightarrow>
         (case opt_result session_state_serialize_prepare (sr_state r) of Inl e \<Rightarrow> Inl e
          | Inr current \<Rightarrow>
             (case map_result session_state_serialize_prepare (sr_previous_states r) of Inl e \<Rightarrow> Inl e
              | Inr previous \<Rightarrow>
                  pb_serialize srs_desc
                    (srs_to_pb \<lparr>srs_currentsession = current, srs_previoussessions = previous\<rparr>))))"

definition session_record_deserialize :: "bytes \<Rightarrow> session_record result" where
  "session_record_deserialize data =
     (case pb_deserialize srs_desc data of Inl e \<Rightarrow> Inl e
      | Inr m \<Rightarrow>
         (case opt_result session_state_deserialize_protobuf (srs_currentsession (srs_of_pb m)) of Inl e \<Rightarrow> Inl e
          | Inr current_state \<Rightarrow>
             (case map_result session_state_deserialize_protobuf (srs_previoussessions (srs_of_pb m)) of
                Inl e \<Rightarrow> Inl e
              | Inr previous \<Rightarrow>
                 Inr ((session_record_create current_state)
                       \<lparr>sr_is_fresh := False, sr_previous_states := previous\<rparr>))))"

definition session_record_copy :: "session_record \<Rightarrow> session_record result" where
  "session_record_copy other_record =
     (case session_record_serialize (Some other_record) of Inl e \<Rightarrow> Inl e
      | Inr data \<Rightarrow> session_record_deserialize data)"

definition state_matches :: "u32 \<Rightarrow> ec_public_key option \<Rightarrow> session_state \<Rightarrow> bool" where
  "state_matches version alice_base_key state \<longleftrightarrow>
     ss_session_version state = version \<and> ec_public_key_compare (ss_alice_base_key state) alice_base_key = 0"

definition session_record_has_session_state ::
  "session_record \<Rightarrow> u32 \<Rightarrow> ec_public_key option \<Rightarrow> bool result" where
  "session_record_has_session_state record version alice_base_key =
     (case sr_state record of None \<Rightarrow> Inl C_UNDEFINED
      | Some state \<Rightarrow>
         Inr (state_matches version alice_base_key state \<or>
              list_ex (state_matches version alice_base_key) (sr_previous_states record)))"

definition session_record_set_state :: "session_record \<Rightarrow> session_state \<Rightarrow> session_record" where
  "session_record_set_state record state = record\<lparr>sr_state := Some state\<rparr>"

text \<open>\<^verbatim>\<open>session_record_get_previous_states_remove\<close>, the node given by its position.\<close>

definition session_record_get_previous_states_remove :: "session_record \<Rightarrow> nat \<Rightarrow> session_record" where
  "session_record_get_previous_states_remove record i =
     record\<lparr>sr_previous_states := take i (sr_previous_states record) @ drop (Suc i) (sr_previous_states record)\<rparr>"

text \<open>The loop of \<^verbatim>\<open>session_record_promote_state\<close> that counts the nodes and deletes those past the maximum.\<close>

fun previous_states_trim :: "nat \<Rightarrow> 'a list \<Rightarrow> 'a list" where
  "previous_states_trim count [] = []"
| "previous_states_trim count (x # xs) =
     (if Suc count > ARCHIVED_STATES_MAX_LENGTH then previous_states_trim (Suc count) xs
      else x # previous_states_trim (Suc count) xs)"

definition previous_states_add :: "session_state \<Rightarrow> session_state list \<Rightarrow> session_state list" where
  "previous_states_add state previous = previous_states_trim 0 (state # previous)"

definition session_record_promote_state :: "session_record \<Rightarrow> session_state \<Rightarrow> session_record" where
  "session_record_promote_state record promoted_state =
     record\<lparr>sr_state := Some promoted_state,
            sr_previous_states :=
              (case sr_state record of
                 None \<Rightarrow> previous_states_trim 0 (sr_previous_states record)
               | Some state \<Rightarrow> previous_states_add state (sr_previous_states record))\<rparr>"

definition session_record_archive_current_state :: "session_record \<Rightarrow> session_record" where
  "session_record_archive_current_state record = session_record_promote_state record session_state_create"

section \<open>Laws\<close>

lemma previous_states_trim_take:
  "previous_states_trim count xs = take (ARCHIVED_STATES_MAX_LENGTH - count) xs"
  by (induction count xs rule: previous_states_trim.induct) (auto simp: take_Cons' Suc_diff_Suc)

interpretation prev: bounded_list ARCHIVED_STATES_MAX_LENGTH previous_states_add
proof
  fix x :: session_state and xs
  show "x \<in> set (previous_states_add x xs)"
    by (simp add: previous_states_add_def previous_states_trim_take ARCHIVED_STATES_MAX_LENGTH_def)
  show "set (previous_states_add x xs) \<subseteq> insert x (set xs)"
    by (auto simp: previous_states_add_def previous_states_trim_take dest: in_set_takeD)
  show "length (previous_states_add x xs) \<le> ARCHIVED_STATES_MAX_LENGTH"
    by (simp add: previous_states_add_def previous_states_trim_take)
qed

definition sr_ok :: "session_record \<Rightarrow> bool" where
  "sr_ok r \<longleftrightarrow>
     (\<exists>st. sr_state r = Some st \<and> ss_ok st) \<and> list_all ss_ok (sr_previous_states r) \<and>
     length (sr_previous_states r) \<le> ARCHIVED_STATES_MAX_LENGTH"

lemma sr_ok_create: "pred_option ss_ok st \<Longrightarrow> sr_ok (session_record_create st)"
  by (cases st) (simp_all add: sr_ok_def session_record_create_def ss_ok_create)

lemma sr_ok_set_state: "\<lbrakk>sr_ok r; ss_ok st\<rbrakk> \<Longrightarrow> sr_ok (session_record_set_state r st)"
  by (simp add: sr_ok_def session_record_set_state_def)

lemma sr_ok_previous_states_remove: "sr_ok r \<Longrightarrow> sr_ok (session_record_get_previous_states_remove r i)"
  by (auto simp: sr_ok_def session_record_get_previous_states_remove_def list_all_iff
      dest: in_set_takeD in_set_dropD)

lemma sr_ok_promote_state: "\<lbrakk>sr_ok r; ss_ok st\<rbrakk> \<Longrightarrow> sr_ok (session_record_promote_state r st)"
  by (auto simp: sr_ok_def session_record_promote_state_def intro: prev.add_list_all prev.add_bound)

lemma sr_ok_archive: "sr_ok r \<Longrightarrow> sr_ok (session_record_archive_current_state r)"
  unfolding session_record_archive_current_state_def by (rule sr_ok_promote_state [OF _ ss_ok_create])

text \<open>Below the bound nothing is lost by archiving.\<close>

lemma promote_state_room:
  "\<lbrakk>sr_state r = Some st; length (sr_previous_states r) < ARCHIVED_STATES_MAX_LENGTH\<rbrakk> \<Longrightarrow>
     sr_previous_states (session_record_promote_state r new) = st # sr_previous_states r
     \<and> sr_state (session_record_promote_state r new) = Some new"
  by (simp add: session_record_promote_state_def previous_states_add_def previous_states_trim_take)

lemma session_states_roundtrip:
  "list_all ss_ok sts \<Longrightarrow>
     \<exists>ss. map_result session_state_serialize_prepare sts = Inr ss \<and>
          map_result session_state_deserialize_protobuf ss = Inr sts \<and>
          list_all session_structure_small ss \<and> length ss = length sts"
proof (induction sts)
  case (Cons st sts)
  then obtain ss where "map_result session_state_serialize_prepare sts = Inr ss"
    "map_result session_state_deserialize_protobuf ss = Inr sts" "list_all session_structure_small ss"
    "length ss = length sts" by auto
  moreover from Cons.prems have "ss_ok st" by simp
  from session_state_protobuf_roundtrip [OF this] obtain s where
    "session_state_serialize_prepare st = Inr s" "session_state_deserialize_protobuf s = Inr st" by blast
  moreover from this(1) \<open>ss_ok st\<close> have "session_structure_small s" by (rule session_state_prepare_small)
  ultimately show ?case by (intro exI [of _ "s # ss"]) simp
qed simp

lemma session_record_serialize_prepared:
  assumes "sr_ok r"
  obtains s where "session_record_serialize (Some r) = pb_serialize srs_desc (srs_to_pb s)"
    "opt_result session_state_deserialize_protobuf (srs_currentsession s) = Inr (sr_state r)"
    "map_result session_state_deserialize_protobuf (srs_previoussessions s) = Inr (sr_previous_states r)"
    "pred_option session_structure_small (srs_currentsession s)"
    "list_all session_structure_small (srs_previoussessions s)" "length (srs_previoussessions s) \<le> 40"
proof -
  from assms obtain st where st: "sr_state r = Some st" "ss_ok st" by (auto simp: sr_ok_def)
  obtain c where c: "session_state_serialize_prepare st = Inr c" "session_state_deserialize_protobuf c = Inr st"
    by (rule session_state_protobuf_roundtrip [OF st(2)])
  obtain ps where ps: "map_result session_state_serialize_prepare (sr_previous_states r) = Inr ps"
    "map_result session_state_deserialize_protobuf ps = Inr (sr_previous_states r)"
    "list_all session_structure_small ps" "length ps = length (sr_previous_states r)"
    using session_states_roundtrip [of "sr_previous_states r"] assms by (auto simp: sr_ok_def)
  have len: "length ps \<le> 40" using ps(4) assms by (simp add: sr_ok_def ARCHIVED_STATES_MAX_LENGTH_def)
  show ?thesis
    by (rule that [of "\<lparr>srs_currentsession = Some c, srs_previoussessions = ps\<rparr>"])
       (use st c ps len session_state_prepare_small [OF c(1) st(2)] in \<open>simp_all add: session_record_serialize_def\<close>)
qed

lemma record_structure_size:
  assumes "pred_option session_structure_small (srs_currentsession s)"
    "list_all session_structure_small (srs_previoussessions s)" "length (srs_previoussessions s) \<le> 40"
  shows "length (pb_pack srs_desc (srs_to_pb s)) \<le> 2 ^ 28 - 32"
proof -
  have "pred_option (\<lambda>x. length (pb_pack sst_desc (sst_to_pb x)) \<le> 1321320) (srs_currentsession s)"
    using assms(1) session_structure_small_size by (rule option.pred_mono_strong)
  moreover have "list_all (\<lambda>x. length (pb_pack sst_desc (sst_to_pb x)) \<le> 1321320) (srs_previoussessions s)"
    using assms(2) session_structure_small_size by (auto simp: list_all_iff)
  ultimately show ?thesis
    using assms(3) pb_bound_msg [of 1 sst_desc sst_to_pb 1321320 "srs_currentsession s"]
      pb_bound_msgs [of 2 sst_desc sst_to_pb 1321320 "srs_previoussessions s" 40]
    by (simp add: srs_desc_def srs_to_pb_def word_less_nat_alt)
qed

lemma session_record_roundtrip:
  assumes "sr_ok r" "session_record_serialize (Some r) = Inr d"
  shows "session_record_deserialize d = Inr (r\<lparr>sr_is_fresh := False\<rparr>)"
proof -
  obtain s where s: "session_record_serialize (Some r) = pb_serialize srs_desc (srs_to_pb s)"
    "opt_result session_state_deserialize_protobuf (srs_currentsession s) = Inr (sr_state r)"
    "map_result session_state_deserialize_protobuf (srs_previoussessions s) = Inr (sr_previous_states r)"
    and small: "pred_option session_structure_small (srs_currentsession s)"
    "list_all session_structure_small (srs_previoussessions s)" "length (srs_previoussessions s) \<le> 40"
    by (rule session_record_serialize_prepared [OF assms(1)])
  have "length d \<le> 2 ^ 28 - 32" using record_structure_size [OF small] s(1) assms(2) by (simp add: srs.serialize_ok)
  moreover obtain st where "sr_state r = Some st" using assms(1) by (auto simp: sr_ok_def)
  ultimately show ?thesis
    using s srs.deserialize_small [of s d] assms(2)
    by (simp add: session_record_deserialize_def session_record_create_def)
qed

lemma session_record_serialize_total: "sr_ok r \<Longrightarrow> \<exists>d. session_record_serialize (Some r) = Inr d"
  by (rule session_record_serialize_prepared [of r]) (auto simp: srs.serialize_ok)

lemma session_record_copy_id: "sr_ok r \<Longrightarrow> session_record_copy r = Inr (r\<lparr>sr_is_fresh := False\<rparr>)"
  using session_record_serialize_total session_record_roundtrip by (fastforce simp: session_record_copy_def)

end
