(* ===== verification/Store.thy ===== *)
theory Store
  imports Session_Record
begin

text \<open>
  The session store of \<^verbatim>\<open>signal_protocol_store_context\<close> (\<^verbatim>\<open>signal_protocol.c\<close>): the callbacks of
  the application over its own state \<open>'s\<close>, and the wrappers that (de)serialise around
  them.  A callback returns the plain \<^verbatim>\<open>int\<close> of the C interface and the application's new
  state; a buffer handed out through a pointer is an option.  The state a handler works in
  is the application's together with the number of random draws so far.
\<close>

record signal_protocol_address =
  addr_name :: bytes
  addr_device_id :: u32

record 's signal_protocol_session_store =
  load_session_func :: "signal_protocol_address \<Rightarrow> 's \<Rightarrow> (int \<times> bytes option) \<times> 's"
  get_sub_device_sessions_func :: "bytes \<Rightarrow> 's \<Rightarrow> (int \<times> int list) \<times> 's"
  store_session_func :: "signal_protocol_address \<Rightarrow> bytes \<Rightarrow> 's \<Rightarrow> int \<times> 's"
  contains_session_func :: "signal_protocol_address \<Rightarrow> 's \<Rightarrow> int \<times> 's"
  delete_session_func :: "signal_protocol_address \<Rightarrow> 's \<Rightarrow> int \<times> 's"
  delete_all_sessions_func :: "bytes \<Rightarrow> 's \<Rightarrow> int \<times> 's"

record 's world =
  w_store :: 's
  w_rng :: rng

definition status_result :: "int \<Rightarrow> unit result" where
  "status_result result = (if result < 0 then Inl (sg_error_of_code result) else Inr ())"

definition signal_protocol_session_load_session ::
  "'s signal_protocol_session_store \<Rightarrow> signal_protocol_address \<Rightarrow> 's \<Rightarrow> session_record result \<times> 's" where
  "signal_protocol_session_load_session S address s =
     (case load_session_func S address s of
        ((result, buffer), s') \<Rightarrow>
          ((if result < 0 then Inl (sg_error_of_code result)
            else if result = 0 then
              (case buffer of Some _ \<Rightarrow> Inl SG_ERR_UNKNOWN | None \<Rightarrow> Inr (session_record_create None))
            else if result = 1 then
              (case buffer of None \<Rightarrow> Inl (sg_error_of_code (-1)) | Some data \<Rightarrow> session_record_deserialize data)
            else Inl SG_ERR_UNKNOWN), s'))"

definition signal_protocol_session_get_sub_device_sessions ::
  "'s signal_protocol_session_store \<Rightarrow> bytes \<Rightarrow> 's \<Rightarrow> (int \<times> int list) \<times> 's" where
  "signal_protocol_session_get_sub_device_sessions S nm s = get_sub_device_sessions_func S nm s"

definition signal_protocol_session_store_session ::
  "'s signal_protocol_session_store \<Rightarrow> signal_protocol_address \<Rightarrow> session_record \<Rightarrow> 's \<Rightarrow> unit result \<times> 's" where
  "signal_protocol_session_store_session S address record s =
     (case session_record_serialize (Some record) of Inl e \<Rightarrow> (Inl e, s)
      | Inr buffer \<Rightarrow>
         (case store_session_func S address buffer s of (result, s') \<Rightarrow> (status_result result, s')))"

definition signal_protocol_session_contains_session ::
  "'s signal_protocol_session_store \<Rightarrow> signal_protocol_address \<Rightarrow> 's \<Rightarrow> int \<times> 's" where
  "signal_protocol_session_contains_session S address s = contains_session_func S address s"

definition signal_protocol_session_delete_session ::
  "'s signal_protocol_session_store \<Rightarrow> signal_protocol_address \<Rightarrow> 's \<Rightarrow> int \<times> 's" where
  "signal_protocol_session_delete_session S address s = delete_session_func S address s"

definition signal_protocol_session_delete_all_sessions ::
  "'s signal_protocol_session_store \<Rightarrow> bytes \<Rightarrow> 's \<Rightarrow> int \<times> 's" where
  "signal_protocol_session_delete_all_sessions S nm s = delete_all_sessions_func S nm s"

section \<open>What a session store promises\<close>

text \<open>
  The behaviour of the callbacks, relative to a view \<open>get\<close> of the application's state, in
  two grades.  \<open>session_store_atomic\<close> allows every callback to fail, with a negative result as
  \<^verbatim>\<open>signal_protocol.h\<close> documents: loading and asking leave the view alone whatever they
  report, and storing changes the one entry, or nothing when it reports a failure.
  \<open>session_store_of\<close> is a store at work, the hypothesis of the properties that say a run
  succeeds: besides, no callback fails, and loading hands out the last bytes stored.
\<close>

definition session_store_atomic ::
  "'s signal_protocol_session_store \<Rightarrow> ('s \<Rightarrow> signal_protocol_address \<Rightarrow> bytes option) \<Rightarrow> bool" where
  "session_store_atomic S get \<longleftrightarrow>
     (\<forall>a s. get (snd (load_session_func S a s)) = get s) \<and>
     (\<forall>a s. get (snd (contains_session_func S a s)) = get s) \<and>
     (\<forall>a d s. get (snd (store_session_func S a d s))
        = (if fst (store_session_func S a d s) < 0 then get s else (get s)(a := Some d)))"

definition session_store_of ::
  "'s signal_protocol_session_store \<Rightarrow> ('s \<Rightarrow> signal_protocol_address \<Rightarrow> bytes option) \<Rightarrow> bool" where
  "session_store_of S get \<longleftrightarrow>
     (\<forall>a s. load_session_func S a s = ((case get s a of None \<Rightarrow> (0, None) | Some d \<Rightarrow> (1, Some d)), s)) \<and>
     (\<forall>a s. contains_session_func S a s = ((case get s a of None \<Rightarrow> 0 | Some _ \<Rightarrow> 1), s)) \<and>
     (\<forall>a d s. fst (store_session_func S a d s) = 0 \<and>
        get (snd (store_session_func S a d s)) = (get s)(a := Some d))"

lemma session_store_of_atomic: "session_store_of S get \<Longrightarrow> session_store_atomic S get"
  by (simp add: session_store_of_def session_store_atomic_def)

lemma load_session_snd: "snd (signal_protocol_session_load_session S a s) = snd (load_session_func S a s)"
  by (simp add: signal_protocol_session_load_session_def split: prod.split)

lemma load_session_atomic:
  assumes "session_store_atomic S get" "signal_protocol_session_load_session S a s = (x, s')"
  shows "get s' = get s"
  using assms load_session_snd [of S a s] by (simp add: session_store_atomic_def)

lemma contains_session_atomic:
  "\<lbrakk>session_store_atomic S get; signal_protocol_session_contains_session S a s = (x, s')\<rbrakk> \<Longrightarrow> get s' = get s"
  unfolding session_store_atomic_def signal_protocol_session_contains_session_def by (metis snd_conv)

text \<open>Storing a record that fails leaves the sessions alone.\<close>

lemma store_session_failure:
  assumes "session_store_atomic S get" "signal_protocol_session_store_session S a rec s = (Inl e, s')"
  shows "get s' = get s"
proof (cases "session_record_serialize (Some rec)")
  case (Inr d)
  then have "fst (store_session_func S a d s) < 0 \<and> snd (store_session_func S a d s) = s'"
    using assms(2) by (auto simp: signal_protocol_session_store_session_def status_result_def split: prod.splits if_splits)
  with assms(1) show ?thesis by (auto simp: session_store_atomic_def)
qed (use assms(2) in \<open>simp add: signal_protocol_session_store_session_def\<close>)

lemma load_session_of:
  assumes "session_store_of S get"
  shows "signal_protocol_session_load_session S a s =
    ((case get s a of None \<Rightarrow> Inr (session_record_create None) | Some d \<Rightarrow> session_record_deserialize d), s)"
  using assms by (simp add: signal_protocol_session_load_session_def session_store_of_def split: option.split)

text \<open>A stored record is loaded again, no longer fresh.\<close>

lemma store_load_session:
  assumes store: "session_store_of S get" and ok: "sr_ok rec"
    and put: "signal_protocol_session_store_session S a rec s = (Inr (), s')"
  shows "signal_protocol_session_load_session S a s' = (Inr (rec\<lparr>sr_is_fresh := False\<rparr>), s')"
proof -
  obtain d where d: "session_record_serialize (Some rec) = Inr d"
    using session_record_serialize_total [OF ok] by blast
  have "s' = snd (store_session_func S a d s)"
    using put d by (auto simp: signal_protocol_session_store_session_def split: prod.splits)
  then have "get s' a = Some d" using store by (simp add: session_store_of_def)
  with load_session_of [OF store, of a s'] session_record_roundtrip [OF ok d] show ?thesis
    by simp
qed

lemma store_session_total:
  assumes "session_store_of S get" "sr_ok rec"
  shows "\<exists>s' d. signal_protocol_session_store_session S a rec s = (Inr (), s') \<and>
    session_record_serialize (Some rec) = Inr d \<and> get s' = (get s)(a := Some d)"
proof -
  obtain d where d: "session_record_serialize (Some rec) = Inr d"
    using session_record_serialize_total [OF assms(2)] by blast
  obtain s' where "store_session_func S a d s = (0, s')" "get s' = (get s)(a := Some d)"
    using assms(1) unfolding session_store_of_def by (metis prod.collapse)
  with d show ?thesis by (simp add: signal_protocol_session_store_session_def status_result_def)
qed

end
