(* ===== verification/Protocol.thy ===== *)
theory Protocol
  imports Ratchet
begin

text \<open>
  The ciphertext messages of \<^verbatim>\<open>protocol.c\<close>: the signal message with its truncated MAC and
  the pre-key message that wraps one.  A message object carries its wire form in the
  \<open>serialized\<close> field, as in the C structs.
\<close>

definition CIPHERTEXT_UNSUPPORTED_VERSION :: u8 where "CIPHERTEXT_UNSUPPORTED_VERSION = 1"
definition CIPHERTEXT_CURRENT_VERSION :: u8 where "CIPHERTEXT_CURRENT_VERSION = 3"
definition SIGNAL_MESSAGE_MAC_LENGTH :: nat where "SIGNAL_MESSAGE_MAC_LENGTH = 8"

lemmas protocol_consts [simp] = CIPHERTEXT_UNSUPPORTED_VERSION_def CIPHERTEXT_CURRENT_VERSION_def
  SIGNAL_MESSAGE_MAC_LENGTH_def

record signal_message =
  sm_message_version :: u8
  sm_sender_ratchet_key :: ec_public_key
  sm_counter :: u32
  sm_previous_counter :: u32
  sm_ciphertext :: bytes
  sm_serialized :: bytes

record pre_key_signal_message =
  pksm_version :: u8
  pksm_registration_id :: u32
  pksm_has_pre_key_id :: bool
  pksm_pre_key_id :: u32
  pksm_signed_pre_key_id :: u32
  pksm_base_key :: ec_public_key
  pksm_identity_key :: ec_public_key
  pksm_message :: signal_message
  pksm_serialized :: bytes

text \<open>The first byte of a message: its version above the current one, and how a reader takes it.\<close>

definition version_byte :: "u8 \<Rightarrow> u8" where
  "version_byte v = push_bit 4 v OR CIPHERTEXT_CURRENT_VERSION"

definition version_of_byte :: "u8 \<Rightarrow> u8" where
  "version_of_byte b = drop_bit 4 (b AND 0xF0)"

section \<open>Signal messages\<close>

definition signal_message_get_mac ::
  "signal_context \<Rightarrow> u8 \<Rightarrow> ec_public_key option \<Rightarrow> ec_public_key option \<Rightarrow> bytes \<Rightarrow> bytes \<Rightarrow> bytes result" where
  "signal_message_get_mac G message_version sender_identity_key receiver_identity_key mac_key serialized =
     signal_hmac_sha256_uninitialised G mac_key
       (case (if 3 \<le> message_version
              then (case ec_public_key_serialize sender_identity_key of Inl e \<Rightarrow> Inl e
                | Inr sender \<Rightarrow>
                   (case signal_hmac_sha256_update G mac_key [] [sender] of Inl e \<Rightarrow> Inl e
                    | Inr _ \<Rightarrow>
                       (case ec_public_key_serialize receiver_identity_key of Inl e \<Rightarrow> Inl e
                        | Inr receiver \<Rightarrow>
                           (case signal_hmac_sha256_update G mac_key [sender] [receiver] of Inl e \<Rightarrow> Inl e
                            | Inr _ \<Rightarrow> Inr [sender, receiver]))))
              else Inr []) of Inl e \<Rightarrow> Inl e
        | Inr keys \<Rightarrow>
           (case signal_hmac_sha256_update G mac_key keys [serialized] of Inl e \<Rightarrow> Inl e
            | Inr _ \<Rightarrow>
               (case hmac_sha256_final_func G mac_key (keys @ [serialized]) of Inl e \<Rightarrow> Inl e
                | Inr full_mac \<Rightarrow>
                   (if length full_mac < SIGNAL_MESSAGE_MAC_LENGTH then Inl SG_ERR_UNKNOWN
                    else Inr (take SIGNAL_MESSAGE_MAC_LENGTH full_mac)))))"

definition signal_message_serialize ::
  "u8 \<Rightarrow> ec_public_key \<Rightarrow> u32 \<Rightarrow> u32 \<Rightarrow> bytes \<Rightarrow> bytes result" where
  "signal_message_serialize message_version sender_ratchet_key counter previous_counter ciphertext =
     (case ec_public_key_serialize_protobuf (Some sender_ratchet_key) of Inl e \<Rightarrow> Inl e
      | Inr ratchetkey \<Rightarrow>
         (case pb_serialize wsm_desc
                 (wsm_to_pb \<lparr>wsm_ratchetkey = Some ratchetkey, wsm_counter = Some counter,
                    wsm_previouscounter = Some previous_counter, wsm_ciphertext = Some ciphertext\<rparr>) of
            Inl e \<Rightarrow> Inl e
          | Inr body \<Rightarrow> Inr (version_byte message_version # body)))"

definition signal_message_create ::
  "signal_context \<Rightarrow> u8 \<Rightarrow> bytes \<Rightarrow> ec_public_key \<Rightarrow> u32 \<Rightarrow> u32 \<Rightarrow> bytes
     \<Rightarrow> ec_public_key \<Rightarrow> ec_public_key \<Rightarrow> signal_message result" where
  "signal_message_create G message_version mac_key sender_ratchet_key counter previous_counter ciphertext
       sender_identity_key receiver_identity_key =
     (case signal_message_serialize message_version sender_ratchet_key counter previous_counter ciphertext of
        Inl e \<Rightarrow> Inl e
      | Inr message_buf \<Rightarrow>
         (case signal_message_get_mac G message_version (Some sender_identity_key) (Some receiver_identity_key)
                 mac_key message_buf of
            Inl e \<Rightarrow> Inl e
          | Inr mac_buf \<Rightarrow>
             Inr \<lparr>sm_message_version = message_version, sm_sender_ratchet_key = sender_ratchet_key,
                  sm_counter = counter, sm_previous_counter = previous_counter, sm_ciphertext = ciphertext,
                  sm_serialized = message_buf @ mac_buf\<rparr>))"

definition signal_message_deserialize :: "bytes \<Rightarrow> signal_message result" where
  "signal_message_deserialize data =
     (if length data \<le> 1 + SIGNAL_MESSAGE_MAC_LENGTH then Inl SG_ERR_INVAL
      else
       (let version = version_of_byte (data ! 0);
            message_data = take (length data - 1 - SIGNAL_MESSAGE_MAC_LENGTH) (drop 1 data)
        in if version \<le> CIPHERTEXT_UNSUPPORTED_VERSION then Inl SG_ERR_LEGACY_MESSAGE
           else if CIPHERTEXT_CURRENT_VERSION < version then Inl SG_ERR_INVALID_MESSAGE
           else
            (case pb_deserialize wsm_desc message_data of Inl e \<Rightarrow> Inl e
             | Inr m \<Rightarrow>
                (case (wsm_ciphertext (wsm_of_pb m), wsm_counter (wsm_of_pb m), wsm_ratchetkey (wsm_of_pb m)) of
                   (Some ciphertext, Some counter, Some ratchetkey) \<Rightarrow>
                     (case curve_decode_point ratchetkey of Inl e \<Rightarrow> Inl e
                      | Inr key \<Rightarrow>
                         Inr \<lparr>sm_message_version = version, sm_sender_ratchet_key = key, sm_counter = counter,
                              sm_previous_counter =
                                (case wsm_previouscounter (wsm_of_pb m) of Some n \<Rightarrow> n | None \<Rightarrow> 0),
                              sm_ciphertext = ciphertext, sm_serialized = data\<rparr>)
                 | _ \<Rightarrow> Inl SG_ERR_INVALID_MESSAGE))))"

definition signal_message_copy :: "signal_message \<Rightarrow> signal_message result" where
  "signal_message_copy other_message = signal_message_deserialize (sm_serialized other_message)"

text \<open>The MAC is checked over the message's own version, not over the parameter.\<close>

definition signal_message_verify_mac ::
  "signal_context \<Rightarrow> signal_message \<Rightarrow> ec_public_key option \<Rightarrow> ec_public_key option \<Rightarrow> bytes \<Rightarrow> bool result" where
  "signal_message_verify_mac G message sender_identity_key receiver_identity_key mac_key =
     (let serialized = sm_serialized message; serialized_message_len = length serialized - SIGNAL_MESSAGE_MAC_LENGTH
      in if length serialized < SIGNAL_MESSAGE_MAC_LENGTH then Inl C_UNDEFINED
         else
          (case signal_message_get_mac G (sm_message_version message) sender_identity_key receiver_identity_key
                  mac_key (take serialized_message_len serialized) of Inl e \<Rightarrow> Inl e
           | Inr our_mac \<Rightarrow>
              (if length our_mac \<noteq> SIGNAL_MESSAGE_MAC_LENGTH then Inl SG_ERR_UNKNOWN
               else Inr (signal_constant_memcmp our_mac (drop serialized_message_len serialized)
                      (length our_mac) = 0))))"

definition signal_message_is_legacy :: "bytes \<Rightarrow> bool" where
  "signal_message_is_legacy data \<longleftrightarrow>
     1 \<le> length data \<and> version_of_byte (data ! 0) \<le> CIPHERTEXT_UNSUPPORTED_VERSION"

section \<open>Pre-key messages\<close>

definition pre_key_signal_message_serialize ::
  "u8 \<Rightarrow> u32 \<Rightarrow> u32 option \<Rightarrow> u32 \<Rightarrow> ec_public_key \<Rightarrow> ec_public_key \<Rightarrow> signal_message \<Rightarrow> bytes result" where
  "pre_key_signal_message_serialize message_version registration_id pre_key_id signed_pre_key_id base_key
       identity_key message =
     (case ec_public_key_serialize_protobuf (Some base_key) of Inl e \<Rightarrow> Inl e
      | Inr base \<Rightarrow>
         (case ec_public_key_serialize_protobuf (Some identity_key) of Inl e \<Rightarrow> Inl e
          | Inr identity \<Rightarrow>
             (case pb_serialize wpk_desc
                     (wpk_to_pb \<lparr>wpk_prekeyid = pre_key_id, wpk_basekey = Some base,
                        wpk_identitykey = Some identity, wpk_message = Some (sm_serialized message),
                        wpk_registrationid = Some registration_id,
                        wpk_signedprekeyid = Some signed_pre_key_id\<rparr>) of
                Inl e \<Rightarrow> Inl e
              | Inr body \<Rightarrow> Inr (version_byte message_version # body))))"

definition pre_key_signal_message_create ::
  "u8 \<Rightarrow> u32 \<Rightarrow> u32 option \<Rightarrow> u32 \<Rightarrow> ec_public_key \<Rightarrow> ec_public_key \<Rightarrow> signal_message
     \<Rightarrow> pre_key_signal_message result" where
  "pre_key_signal_message_create message_version registration_id pre_key_id signed_pre_key_id base_key
       identity_key message =
     (case pre_key_signal_message_serialize message_version registration_id pre_key_id signed_pre_key_id
             base_key identity_key message of
        Inl e \<Rightarrow> Inl e
      | Inr serialized \<Rightarrow>
         Inr \<lparr>pksm_version = message_version, pksm_registration_id = registration_id,
              pksm_has_pre_key_id = (pre_key_id \<noteq> None),
              pksm_pre_key_id = (case pre_key_id of Some n \<Rightarrow> n | None \<Rightarrow> 0),
              pksm_signed_pre_key_id = signed_pre_key_id, pksm_base_key = base_key,
              pksm_identity_key = identity_key, pksm_message = message, pksm_serialized = serialized\<rparr>)"

definition pre_key_signal_message_deserialize :: "bytes \<Rightarrow> pre_key_signal_message result" where
  "pre_key_signal_message_deserialize data =
     (if length data \<le> 1 then Inl SG_ERR_INVAL
      else
       (let version = version_of_byte (data ! 0); message_data = drop 1 data
        in if version < CIPHERTEXT_CURRENT_VERSION then Inl SG_ERR_LEGACY_MESSAGE
           else if CIPHERTEXT_CURRENT_VERSION < version then Inl SG_ERR_INVALID_VERSION
           else
            (case pb_deserialize wpk_desc message_data of Inl e \<Rightarrow> Inl e
             | Inr m \<Rightarrow>
                (let s = wpk_of_pb m in
                 (case (wpk_signedprekeyid s, wpk_basekey s, wpk_identitykey s, wpk_message s) of
                    (Some signed_pre_key_id, Some base, Some identity, Some inner) \<Rightarrow>
                      (case curve_decode_point base of Inl e \<Rightarrow> Inl e
                       | Inr base_key \<Rightarrow>
                          (case curve_decode_point identity of Inl e \<Rightarrow> Inl e
                           | Inr identity_key \<Rightarrow>
                              (case signal_message_deserialize inner of Inl e \<Rightarrow> Inl e
                               | Inr message \<Rightarrow>
                                  (if sm_message_version message \<noteq> version then Inl SG_ERR_INVALID_VERSION
                                   else Inr
                                     \<lparr>pksm_version = version,
                                      pksm_registration_id = (case wpk_registrationid s of Some n \<Rightarrow> n | None \<Rightarrow> 0),
                                      pksm_has_pre_key_id = (wpk_prekeyid s \<noteq> None),
                                      pksm_pre_key_id = (case wpk_prekeyid s of Some n \<Rightarrow> n | None \<Rightarrow> 0),
                                      pksm_signed_pre_key_id = signed_pre_key_id, pksm_base_key = base_key,
                                      pksm_identity_key = identity_key, pksm_message = message,
                                      pksm_serialized = data\<rparr>))))
                  | _ \<Rightarrow> Inl SG_ERR_INVALID_MESSAGE)))))"

definition pre_key_signal_message_copy :: "pre_key_signal_message \<Rightarrow> pre_key_signal_message result" where
  "pre_key_signal_message_copy other_message =
     pre_key_signal_message_deserialize (pksm_serialized other_message)"

section \<open>Laws\<close>

lemma version_of_version_byte: "v < 16 \<Longrightarrow> version_of_byte (version_byte v) = v"
proof -
  assume "v < 16"
  then have hi: "\<And>k. 4 \<le> k \<Longrightarrow> \<not> bit v k"
    using high_bits_zero8 [of v 4] by (simp add: word_less_nat_alt)
  have lo: "bit (15 :: int) n \<longleftrightarrow> n < 4" for n
  proof -
    have "(15 :: int) = mask 4" by (simp add: mask_eq_exp_minus_1)
    then show ?thesis by (simp only: bit_mask_iff) auto
  qed
  have "(0xF0 :: u8) = push_bit 4 0xF" by simp
  then show ?thesis
    using hi by (intro bit_word_eqI)
      (auto simp: version_of_byte_def version_byte_def bit_simps lo not_le [symmetric])
qed

lemma signal_message_get_mac_length:
  "signal_message_get_mac G v s r k d = Inr mac \<Longrightarrow> length mac = SIGNAL_MESSAGE_MAC_LENGTH"
  by (auto simp: signal_message_get_mac_def signal_hmac_sha256_uninitialised_def result_simps split: sum.splits)

text \<open>The bytes that a MAC covers: from version 3 on the two identity keys come first.\<close>

definition mac_input :: "u8 \<Rightarrow> ec_public_key \<Rightarrow> ec_public_key \<Rightarrow> bytes \<Rightarrow> bytes" where
  "mac_input v sender receiver d =
     (if 3 \<le> v then (DJB_TYPE # pub_data sender) @ (DJB_TYPE # pub_data receiver) @ d else d)"

lemma signal_message_get_mac_hmac:
  assumes "hmac_sha256_of G hm"
  shows "signal_message_get_mac G v (Some s) (Some r) k d
    = Inr (take SIGNAL_MESSAGE_MAC_LENGTH (hm k (mac_input v s r d)))"
  using hmac_sha256_of_length [OF assms] assms
  by (simp add: signal_message_get_mac_def ec_public_key_serialize_def mac_input_def hmac_sha256_of_def
      signal_hmac_sha256_uninitialised_ok [OF assms] signal_hmac_sha256_update_ok [OF assms])

lemma signal_message_get_mac_total:
  "hmac_sha256_of G hm \<Longrightarrow> \<exists>mac. signal_message_get_mac G v (Some s) (Some r) k d = Inr mac"
  by (simp add: signal_message_get_mac_hmac)

text \<open>The receiver of an untampered message accepts its MAC.\<close>

lemma signal_message_create_verify:
  assumes "signal_message_create G v mac_key rk n pn ct sender receiver = Inr m"
  shows "signal_message_verify_mac G m (Some sender) (Some receiver) mac_key = Inr True"
proof -
  from assms obtain buf mac where
    mac: "signal_message_get_mac G v (Some sender) (Some receiver) mac_key buf = Inr mac"
    and m: "sm_message_version m = v" "sm_serialized m = buf @ mac"
    by (auto simp: signal_message_create_def result_simps)
  note len = signal_message_get_mac_length [OF mac]
  with m have "length (sm_serialized m) - SIGNAL_MESSAGE_MAC_LENGTH = length buf" by simp
  with mac m len show ?thesis by (simp add: signal_message_verify_mac_def Let_def)
qed

lemma signal_message_create_fields:
  "signal_message_create G v mac_key rk n pn ct sender receiver = Inr m \<Longrightarrow>
     sm_message_version m = v \<and> sm_sender_ratchet_key m = rk \<and> sm_counter m = n \<and>
     sm_previous_counter m = pn \<and> sm_ciphertext m = ct"
  by (auto simp: signal_message_create_def result_simps)

lemma signal_message_serialize_total:
  "\<exists>d. signal_message_serialize v rk n pn ct = Inr d"
  by (simp add: signal_message_serialize_def ec_public_key_serialize_protobuf_def wsm.serialize_ok)

lemma signal_message_create_total:
  assumes "hmac_sha256_of G hm"
  shows "\<exists>m. signal_message_create G v mac_key rk n pn ct sender receiver = Inr m"
proof -
  obtain d where d: "signal_message_serialize v rk n pn ct = Inr d"
    using signal_message_serialize_total by blast
  obtain mac where "signal_message_get_mac G v (Some sender) (Some receiver) mac_key d = Inr mac"
    using signal_message_get_mac_total [OF assms] by blast
  with d show ?thesis by (simp add: signal_message_create_def)
qed

lemma signal_message_roundtrip:
  assumes create: "signal_message_create G v mac_key rk n pn ct sender receiver = Inr m"
    and v: "v = 2 \<or> v = 3" and rk: "pub_ok rk" and len: "length (sm_serialized m) < 2 ^ 31"
  shows "signal_message_deserialize (sm_serialized m) = Inr m"
proof -
  let ?s = "\<lparr>wsm_ratchetkey = Some (DJB_TYPE # pub_data rk), wsm_counter = Some n,
    wsm_previouscounter = Some pn, wsm_ciphertext = Some ct\<rparr>"
  from create obtain body mac where body: "pb_serialize wsm_desc (wsm_to_pb ?s) = Inr body"
    and mac: "length mac = 8"
    and m: "m = \<lparr>sm_message_version = v, sm_sender_ratchet_key = rk, sm_counter = n, sm_previous_counter = pn,
      sm_ciphertext = ct, sm_serialized = version_byte v # body @ mac\<rparr>"
    by (auto simp: signal_message_create_def signal_message_serialize_def
        ec_public_key_serialize_protobuf_def result_simps dest!: signal_message_get_mac_length)
  have ne: "body \<noteq> []"
    using body [unfolded wsm.serialize_ok]
    by (auto simp: wsm_desc_def wsm_to_pb_def pb_opt_def tag_pack_small word_less_nat_alt)
  have ver: "version_of_byte (version_byte v) = v"
    using v by (intro version_of_version_byte) (auto simp: word_less_nat_alt)
  have lim: "\<not> v \<le> 1" "\<not> 3 < v" using v by (auto simp: word_le_nat_alt word_less_nat_alt)
  have "length body < 2 ^ 31" using len m by simp
  from wsm.deserialize_serialize [OF body this] show ?thesis
    using m mac ne ver lim curve_decode_serialize [OF rk]
    by (simp add: signal_message_deserialize_def Let_def not_le)
qed

lemma pre_key_signal_message_roundtrip:
  assumes create: "pre_key_signal_message_create 3 rid pid sid bk ik m = Inr pm"
    and keys: "pub_ok bk" "pub_ok ik"
    and inner: "signal_message_deserialize (sm_serialized m) = Inr m" "sm_message_version m = 3"
    and len: "length (pksm_serialized pm) < 2 ^ 31"
  shows "pre_key_signal_message_deserialize (pksm_serialized pm) = Inr pm"
proof -
  let ?s = "\<lparr>wpk_prekeyid = pid, wpk_basekey = Some (DJB_TYPE # pub_data bk),
    wpk_identitykey = Some (DJB_TYPE # pub_data ik), wpk_message = Some (sm_serialized m),
    wpk_registrationid = Some rid, wpk_signedprekeyid = Some sid\<rparr>"
  from create obtain body where body: "pb_serialize wpk_desc (wpk_to_pb ?s) = Inr body"
    and pm: "pm = \<lparr>pksm_version = 3, pksm_registration_id = rid, pksm_has_pre_key_id = (pid \<noteq> None),
      pksm_pre_key_id = (case pid of Some n \<Rightarrow> n | None \<Rightarrow> 0), pksm_signed_pre_key_id = sid,
      pksm_base_key = bk, pksm_identity_key = ik, pksm_message = m, pksm_serialized = version_byte 3 # body\<rparr>"
    by (auto simp: pre_key_signal_message_create_def pre_key_signal_message_serialize_def
        ec_public_key_serialize_protobuf_def result_simps)
  have ne: "body \<noteq> []"
    using body [unfolded wpk.serialize_ok]
    by (auto simp: wpk_desc_def wpk_to_pb_def pb_opt_def tag_pack_small word_less_nat_alt)
  have ver: "version_of_byte (version_byte 3) = 3"
    by (rule version_of_version_byte) (simp add: word_less_nat_alt)
  have "length body < 2 ^ 31" using len pm by simp
  from wpk.deserialize_serialize [OF body this] show ?thesis
    using pm ne ver inner curve_decode_serialize [OF keys(1)] curve_decode_serialize [OF keys(2)]
    by (simp add: pre_key_signal_message_deserialize_def Let_def)
qed

lemma signal_message_length:
  assumes "signal_message_create G v mac_key rk n pn ct sender receiver = Inr m" "pub_ok rk"
  shows "length (sm_serialized m) \<le> length ct + 70"
proof -
  let ?s = "\<lparr>wsm_ratchetkey = Some (DJB_TYPE # pub_data rk), wsm_counter = Some n,
    wsm_previouscounter = Some pn, wsm_ciphertext = Some ct\<rparr>"
  have "length (pb_pack wsm_desc (wsm_to_pb ?s)) \<le> length ct + 61"
    using assms(2) pb_bound_bytes [of 1 33 "wsm_ratchetkey ?s"] pb_bound_32 [of 2 "wsm_counter ?s"]
      pb_bound_32 [of 3 "wsm_previouscounter ?s"] pb_bound_bytes [of 4 "length ct" "wsm_ciphertext ?s"]
    by (simp add: wsm_desc_def wsm_to_pb_def pub_ok_def word_less_nat_alt)
  with assms(1) show ?thesis
    by (auto simp: signal_message_create_def signal_message_serialize_def ec_public_key_serialize_protobuf_def
        wsm.serialize_ok result_simps dest!: signal_message_get_mac_length)
qed

lemma pre_key_signal_message_length:
  assumes "pre_key_signal_message_create v rid pid sid bk ik m = Inr pm" "pub_ok bk" "pub_ok ik"
  shows "length (pksm_serialized pm) \<le> length (sm_serialized m) + 120"
proof -
  let ?s = "\<lparr>wpk_prekeyid = pid, wpk_basekey = Some (DJB_TYPE # pub_data bk),
    wpk_identitykey = Some (DJB_TYPE # pub_data ik), wpk_message = Some (sm_serialized m),
    wpk_registrationid = Some rid, wpk_signedprekeyid = Some sid\<rparr>"
  have "length (pb_pack wpk_desc (wpk_to_pb ?s)) \<le> length (sm_serialized m) + 119"
    using assms(2,3) pb_bound_32 [of 1 "wpk_prekeyid ?s"] pb_bound_bytes [of 2 33 "wpk_basekey ?s"]
      pb_bound_bytes [of 3 33 "wpk_identitykey ?s"] pb_bound_bytes [of 4 "length (sm_serialized m)" "wpk_message ?s"]
      pb_bound_32 [of 5 "wpk_registrationid ?s"] pb_bound_32 [of 6 "wpk_signedprekeyid ?s"]
    by (simp add: wpk_desc_def wpk_to_pb_def pub_ok_def word_less_nat_alt)
  with assms(1) show ?thesis
    by (auto simp: pre_key_signal_message_create_def pre_key_signal_message_serialize_def
        ec_public_key_serialize_protobuf_def wpk.serialize_ok result_simps)
qed

text \<open>What a verified MAC means, of either version.\<close>

lemma verify_mac_true:
  assumes hm: "hmac_sha256_of G hm"
    and mac: "signal_message_verify_mac G m (Some A) (Some B) key = Inr True"
  shows "drop (length (sm_serialized m) - 8) (sm_serialized m)
    = take 8 (hm key (mac_input (sm_message_version m) A B
        (take (length (sm_serialized m) - 8) (sm_serialized m))))"
proof -
  have "8 \<le> length (sm_serialized m)"
    using mac by (auto simp: signal_message_verify_mac_def Let_def split: if_splits)
  with mac show ?thesis
    using hmac_sha256_of_length [OF hm]
    by (simp add: signal_message_verify_mac_def signal_message_get_mac_hmac [OF hm] Let_def not_less)
qed

end
