(* ===== verification/Ratcheting_Session.thy ===== *)
theory Ratcheting_Session
  imports Session_State_Laws Protocol
begin

text \<open>
  The session initialisation of \<^verbatim>\<open>ratchet.c\<close>: the parameters of the two roles, the key
  agreement of each role, and the symmetric variant that picks the role by comparing base
  keys.  The secret is assembled in a \<^verbatim>\<open>vpool\<close>, here a byte list that grows at its end.
  The main law is the agreement of the two roles.
\<close>

section \<open>Parameters\<close>

record symmetric_signal_protocol_parameters =
  symp_our_identity_key :: ratchet_identity_key_pair
  symp_our_base_key :: ec_key_pair
  symp_our_ratchet_key :: ec_key_pair
  symp_their_base_key :: ec_public_key
  symp_their_ratchet_key :: ec_public_key
  symp_their_identity_key :: ec_public_key

record alice_signal_protocol_parameters =
  ap_our_identity_key :: ratchet_identity_key_pair
  ap_our_base_key :: ec_key_pair
  ap_their_identity_key :: ec_public_key
  ap_their_signed_pre_key :: ec_public_key
  ap_their_one_time_pre_key :: "ec_public_key option"
  ap_their_ratchet_key :: ec_public_key

record bob_signal_protocol_parameters =
  bp_our_identity_key :: ratchet_identity_key_pair
  bp_our_signed_pre_key :: ec_key_pair
  bp_our_one_time_pre_key :: "ec_key_pair option"
  bp_our_ratchet_key :: ec_key_pair
  bp_their_identity_key :: ec_public_key
  bp_their_base_key :: ec_public_key

definition symmetric_signal_protocol_parameters_create ::
  "ratchet_identity_key_pair option \<Rightarrow> ec_key_pair option \<Rightarrow> ec_key_pair option \<Rightarrow> ec_public_key option
     \<Rightarrow> ec_public_key option \<Rightarrow> ec_public_key option \<Rightarrow> symmetric_signal_protocol_parameters result" where
  "symmetric_signal_protocol_parameters_create our_identity_key our_base_key our_ratchet_key
       their_base_key their_ratchet_key their_identity_key =
     (case (our_identity_key, our_base_key, our_ratchet_key, their_base_key, their_ratchet_key, their_identity_key) of
        (Some i, Some b, Some r, Some tb, Some tr, Some ti) \<Rightarrow>
          Inr \<lparr>symp_our_identity_key = i, symp_our_base_key = b, symp_our_ratchet_key = r,
               symp_their_base_key = tb, symp_their_ratchet_key = tr, symp_their_identity_key = ti\<rparr>
      | _ \<Rightarrow> Inl SG_ERR_INVAL)"

definition alice_signal_protocol_parameters_create ::
  "ratchet_identity_key_pair option \<Rightarrow> ec_key_pair option \<Rightarrow> ec_public_key option \<Rightarrow> ec_public_key option
     \<Rightarrow> ec_public_key option \<Rightarrow> ec_public_key option \<Rightarrow> alice_signal_protocol_parameters result" where
  "alice_signal_protocol_parameters_create our_identity_key our_base_key their_identity_key
       their_signed_pre_key their_one_time_pre_key their_ratchet_key =
     (case (our_identity_key, our_base_key, their_identity_key, their_signed_pre_key, their_ratchet_key) of
        (Some i, Some b, Some ti, Some ts, Some tr) \<Rightarrow>
          Inr \<lparr>ap_our_identity_key = i, ap_our_base_key = b, ap_their_identity_key = ti,
               ap_their_signed_pre_key = ts, ap_their_one_time_pre_key = their_one_time_pre_key,
               ap_their_ratchet_key = tr\<rparr>
      | _ \<Rightarrow> Inl SG_ERR_INVAL)"

definition bob_signal_protocol_parameters_create ::
  "ratchet_identity_key_pair option \<Rightarrow> ec_key_pair option \<Rightarrow> ec_key_pair option \<Rightarrow> ec_key_pair option
     \<Rightarrow> ec_public_key option \<Rightarrow> ec_public_key option \<Rightarrow> bob_signal_protocol_parameters result" where
  "bob_signal_protocol_parameters_create our_identity_key our_signed_pre_key our_one_time_pre_key
       our_ratchet_key their_identity_key their_base_key =
     (case (our_identity_key, our_signed_pre_key, our_ratchet_key, their_identity_key, their_base_key) of
        (Some i, Some s, Some r, Some ti, Some tb) \<Rightarrow>
          Inr \<lparr>bp_our_identity_key = i, bp_our_signed_pre_key = s, bp_our_one_time_pre_key = our_one_time_pre_key,
               bp_our_ratchet_key = r, bp_their_identity_key = ti, bp_their_base_key = tb\<rparr>
      | _ \<Rightarrow> Inl SG_ERR_INVAL)"

section \<open>Initialisation\<close>

definition discontinuity_data :: bytes where
  "discontinuity_data = replicate 32 0xFF"

text \<open>The agreements of a role, appended to the pool in order; the first failure ends the run.\<close>

fun agreements :: "signal_context \<Rightarrow> (ec_public_key \<times> ec_private_key) list \<Rightarrow> bytes \<Rightarrow> bytes result" where
  "agreements G [] pool = Inr pool"
| "agreements G ((pk, sk) # ks) pool =
     (case curve_calculate_agreement G (Some pk) (Some sk) of Inl e \<Rightarrow> Inl e
      | Inr agreement \<Rightarrow> agreements G ks (pool @ agreement))"

definition alice_agreements :: "alice_signal_protocol_parameters \<Rightarrow> (ec_public_key \<times> ec_private_key) list" where
  "alice_agreements p =
     [(ap_their_signed_pre_key p, ik_private_key (ap_our_identity_key p)),
      (ap_their_identity_key p, kp_private_key (ap_our_base_key p)),
      (ap_their_signed_pre_key p, kp_private_key (ap_our_base_key p))] @
     (case ap_their_one_time_pre_key p of None \<Rightarrow> []
      | Some k \<Rightarrow> [(k, kp_private_key (ap_our_base_key p))])"

definition bob_agreements :: "bob_signal_protocol_parameters \<Rightarrow> (ec_public_key \<times> ec_private_key) list" where
  "bob_agreements p =
     [(bp_their_identity_key p, kp_private_key (bp_our_signed_pre_key p)),
      (bp_their_base_key p, ik_private_key (bp_our_identity_key p)),
      (bp_their_base_key p, kp_private_key (bp_our_signed_pre_key p))] @
     (case bp_our_one_time_pre_key p of None \<Rightarrow> []
      | Some k \<Rightarrow> [(bp_their_base_key p, kp_private_key k)])"

definition ratcheting_session_alice_initialize ::
  "signal_context \<Rightarrow> session_state \<Rightarrow> alice_signal_protocol_parameters \<Rightarrow> rng \<Rightarrow> session_state result \<times> rng" where
  "ratcheting_session_alice_initialize G state p r =
     (case curve_generate_key_pair G r of
        (Inl e, r') \<Rightarrow> (Inl e, r')
      | (Inr sending_ratchet_key, r') \<Rightarrow>
          ((case agreements G (alice_agreements p) discontinuity_data of Inl e \<Rightarrow> Inl e
            | Inr secret \<Rightarrow>
               (case ratcheting_session_calculate_derived_keys G secret of Inl e \<Rightarrow> Inl e
                | Inr (derived_root, derived_chain) \<Rightarrow>
                   (case ratchet_root_key_create_chain G derived_root (Some (ap_their_ratchet_key p))
                           (Some (kp_private_key sending_ratchet_key)) of Inl e \<Rightarrow> Inl e
                    | Inr (sending_chain_root, sending_chain_key) \<Rightarrow>
                       Inr (session_state_set_root_key sending_chain_root
                             (session_state_set_sender_chain sending_ratchet_key sending_chain_key
                               (session_state_add_receiver_chain (ap_their_ratchet_key p) derived_chain
                                 (session_state_set_local_identity_key (ik_public_key (ap_our_identity_key p))
                                   (session_state_set_remote_identity_key (ap_their_identity_key p)
                                     (session_state_set_session_version
                                       (ucast CIPHERTEXT_CURRENT_VERSION) state))))))))), r'))"

definition ratcheting_session_bob_initialize ::
  "signal_context \<Rightarrow> session_state \<Rightarrow> bob_signal_protocol_parameters \<Rightarrow> session_state result" where
  "ratcheting_session_bob_initialize G state p =
     (case agreements G (bob_agreements p) discontinuity_data of Inl e \<Rightarrow> Inl e
      | Inr secret \<Rightarrow>
         (case ratcheting_session_calculate_derived_keys G secret of Inl e \<Rightarrow> Inl e
          | Inr (derived_root, derived_chain) \<Rightarrow>
             Inr (session_state_set_root_key derived_root
                   (session_state_set_sender_chain (bp_our_ratchet_key p) derived_chain
                     (session_state_set_local_identity_key (ik_public_key (bp_our_identity_key p))
                       (session_state_set_remote_identity_key (bp_their_identity_key p)
                         (session_state_set_session_version
                           (ucast CIPHERTEXT_CURRENT_VERSION) state)))))))"

text \<open>\<^verbatim>\<open>memcmp\<close>, of which only the sign is specified.\<close>

fun memcmp :: "bytes \<Rightarrow> bytes \<Rightarrow> int" where
  "memcmp (a # as) (b # bs) = (if a < b then -1 else if b < a then 1 else memcmp as bs)"
| "memcmp _ _ = 0"

definition ec_public_key_memcmp :: "ec_public_key \<Rightarrow> ec_public_key \<Rightarrow> int" where
  "ec_public_key_memcmp key1 key2 =
     memcmp (take DJB_KEY_LEN (pub_data key1)) (take DJB_KEY_LEN (pub_data key2))"

definition ratcheting_session_symmetric_is_alice :: "symmetric_signal_protocol_parameters \<Rightarrow> bool" where
  "ratcheting_session_symmetric_is_alice p \<longleftrightarrow>
     ec_public_key_memcmp (kp_public_key (symp_our_base_key p)) (symp_their_base_key p) < 0"

definition ratcheting_session_symmetric_initialize ::
  "signal_context \<Rightarrow> session_state \<Rightarrow> symmetric_signal_protocol_parameters \<Rightarrow> rng \<Rightarrow> session_state result \<times> rng" where
  "ratcheting_session_symmetric_initialize G state p r =
     (if ratcheting_session_symmetric_is_alice p then
        (case alice_signal_protocol_parameters_create (Some (symp_our_identity_key p))
                (Some (symp_our_base_key p)) (Some (symp_their_identity_key p)) (Some (symp_their_base_key p))
                None (Some (symp_their_ratchet_key p)) of
           Inl e \<Rightarrow> (Inl e, r)
         | Inr a \<Rightarrow> ratcheting_session_alice_initialize G state a r)
      else
        (case bob_signal_protocol_parameters_create (Some (symp_our_identity_key p))
                (Some (symp_our_base_key p)) None (Some (symp_our_ratchet_key p))
                (Some (symp_their_identity_key p)) (Some (symp_their_base_key p)) of
           Inl e \<Rightarrow> (Inl e, r)
         | Inr b \<Rightarrow> (ratcheting_session_bob_initialize G state b, r)))"

section \<open>The two roles agree\<close>

text \<open>
  The parameters that two parties feed to one session: Bob holds the pairs whose public
  halves Alice was given, and the other way round.
\<close>

definition matched_parameters ::
  "signal_context \<Rightarrow> alice_signal_protocol_parameters \<Rightarrow> bob_signal_protocol_parameters \<Rightarrow> bool" where
  "matched_parameters G a b \<longleftrightarrow>
     ik_ok G (ap_our_identity_key a) \<and> key_pair_ok G (ap_our_base_key a) \<and>
     ik_ok G (bp_our_identity_key b) \<and> key_pair_ok G (bp_our_signed_pre_key b) \<and>
     key_pair_ok G (bp_our_ratchet_key b) \<and> pred_option (key_pair_ok G) (bp_our_one_time_pre_key b) \<and>
     bp_their_identity_key b = ik_public_key (ap_our_identity_key a) \<and>
     bp_their_base_key b = kp_public_key (ap_our_base_key a) \<and>
     ap_their_identity_key a = ik_public_key (bp_our_identity_key b) \<and>
     ap_their_signed_pre_key a = kp_public_key (bp_our_signed_pre_key b) \<and>
     ap_their_one_time_pre_key a = map_option kp_public_key (bp_our_one_time_pre_key b) \<and>
     ap_their_ratchet_key a = kp_public_key (bp_our_ratchet_key b)"

lemma key_pair_okD: "key_pair_ok G p \<Longrightarrow> pub_ok (kp_public_key p) \<and> priv_ok (kp_private_key p) \<and> kp_ok p"
  by (simp add: key_pair_ok_def kp_ok_def)

lemma ik_okD: "ik_ok G p \<Longrightarrow> pub_ok (ik_public_key p) \<and> priv_ok (ik_private_key p)"
  by (simp add: ik_ok_def key_pair_ok_def)

lemma agreements_ok:
  "\<lbrakk>curve25519_dh G; list_all (\<lambda>(pk, sk). pub_ok pk \<and> priv_ok sk) ks\<rbrakk> \<Longrightarrow>
     agreements G ks pool = Inr (pool @ concat (map (\<lambda>(pk, sk). agreed G sk pk) ks))"
  by (induction G ks pool rule: agreements.induct) (auto simp: curve_calculate_agreement_ok)

lemma matched_agreements:
  assumes dh: "curve25519_dh G" and m: "matched_parameters G a b"
  shows "agreements G (alice_agreements a) pool = agreements G (bob_agreements b) pool"
    and "\<exists>secret. agreements G (alice_agreements a) pool = Inr secret"
proof -
  let ?I = "\<lambda>i. \<lparr>kp_public_key = ik_public_key i, kp_private_key = ik_private_key i\<rparr>"
  have kp: "key_pair_ok G (?I (ap_our_identity_key a))" "key_pair_ok G (?I (bp_our_identity_key b))"
    using m by (simp_all add: matched_parameters_def ik_ok_def)
  have swap: "agreed G (ik_private_key (ap_our_identity_key a)) (kp_public_key (bp_our_signed_pre_key b))
        = agreed G (kp_private_key (bp_our_signed_pre_key b)) (ik_public_key (ap_our_identity_key a))"
    "agreed G (kp_private_key (ap_our_base_key a)) (ik_public_key (bp_our_identity_key b))
        = agreed G (ik_private_key (bp_our_identity_key b)) (kp_public_key (ap_our_base_key a))"
    "agreed G (kp_private_key (ap_our_base_key a)) (kp_public_key (bp_our_signed_pre_key b))
        = agreed G (kp_private_key (bp_our_signed_pre_key b)) (kp_public_key (ap_our_base_key a))"
    "\<And>k. bp_our_one_time_pre_key b = Some k \<Longrightarrow>
       agreed G (kp_private_key (ap_our_base_key a)) (kp_public_key k)
        = agreed G (kp_private_key k) (kp_public_key (ap_our_base_key a))"
    using m kp agreed_commute [OF dh kp(1), of "bp_our_signed_pre_key b"]
      agreed_commute [OF dh kp(2), of "ap_our_base_key a"]
      agreed_commute [OF dh, of "ap_our_base_key a" "bp_our_signed_pre_key b"]
      agreed_commute [OF dh, of "ap_our_base_key a"]
    by (auto simp: matched_parameters_def)
  have ok: "list_all (\<lambda>(pk, sk). pub_ok pk \<and> priv_ok sk) (alice_agreements a)"
    "list_all (\<lambda>(pk, sk). pub_ok pk \<and> priv_ok sk) (bob_agreements b)"
    using m by (auto simp: matched_parameters_def alice_agreements_def bob_agreements_def
        split: option.split dest!: key_pair_okD ik_okD)
  show "agreements G (alice_agreements a) pool = agreements G (bob_agreements b) pool"
    unfolding agreements_ok [OF dh ok(1)] agreements_ok [OF dh ok(2)] using m swap
    by (cases "bp_our_one_time_pre_key b")
       (simp_all add: alice_agreements_def bob_agreements_def matched_parameters_def)
  show "\<exists>secret. agreements G (alice_agreements a) pool = Inr secret"
    using agreements_ok [OF dh ok(1)] by blast
qed

text \<open>A Diffie-Hellman step of the root with the two halves exchanged gives the same keys.\<close>

lemma root_key_create_chain_commute:
  assumes "curve25519_dh G" "key_pair_ok G p" "key_pair_ok G q"
  shows "ratchet_root_key_create_chain G rk (Some (kp_public_key q)) (Some (kp_private_key p))
    = ratchet_root_key_create_chain G rk (Some (kp_public_key p)) (Some (kp_private_key q))"
  using assms agreed_commute [OF assms]
  by (simp add: ratchet_root_key_create_chain_def curve_calculate_agreement_ok key_pair_okD)

lemma alice_initialize_cases:
  assumes "ratcheting_session_alice_initialize G st a r = (Inr sa, r')"
  obtains kp secret dr dc sr sc where
    "curve_generate_key_pair G r = (Inr kp, r')"
    "agreements G (alice_agreements a) discontinuity_data = Inr secret"
    "ratcheting_session_calculate_derived_keys G secret = Inr (dr, dc)"
    "ratchet_root_key_create_chain G dr (Some (ap_their_ratchet_key a)) (Some (kp_private_key kp)) = Inr (sr, sc)"
    "sa = session_state_set_root_key sr
      (session_state_set_sender_chain kp sc
        (session_state_add_receiver_chain (ap_their_ratchet_key a) dc
          (session_state_set_local_identity_key (ik_public_key (ap_our_identity_key a))
            (session_state_set_remote_identity_key (ap_their_identity_key a)
              (session_state_set_session_version 3 st)))))"
  using assms that
  by (auto simp: ratcheting_session_alice_initialize_def result_simps split: prod.splits sum.splits)

lemma x3dh_agreement:
  assumes dh: "curve25519_dh G" and m: "matched_parameters G a b"
    and fresh: "session_state_find_receiver_chain sta (kp_public_key (bp_our_ratchet_key b)) = None"
    and alice: "ratcheting_session_alice_initialize G sta a r = (Inr sa, r')"
    and bob: "ratcheting_session_bob_initialize G stb b = Inr sb"
  shows "\<exists>rk ck kp. ss_root_key sb = Some rk \<and> sc_chain_key (ss_sender_chain sb) = Some ck \<and>
    session_state_get_receiver_chain_key sa (kp_public_key (bp_our_ratchet_key b)) = Some ck \<and>
    sc_sender_ratchet_key_pair (ss_sender_chain sb) = Some (bp_our_ratchet_key b) \<and>
    sc_sender_ratchet_key_pair (ss_sender_chain sa) = Some kp \<and>
    (\<exists>rk' ck'. ratchet_root_key_create_chain G rk (Some (kp_public_key kp))
        (Some (kp_private_key (bp_our_ratchet_key b))) = Inr (rk', ck') \<and>
      ss_root_key sa = Some rk' \<and> sc_chain_key (ss_sender_chain sa) = Some ck')"
proof -
  obtain kp secret dr dc sr sc where kp: "curve_generate_key_pair G r = (Inr kp, r')"
    and agr: "agreements G (alice_agreements a) discontinuity_data = Inr secret"
    and der: "ratcheting_session_calculate_derived_keys G secret = Inr (dr, dc)"
    and root: "ratchet_root_key_create_chain G dr (Some (ap_their_ratchet_key a)) (Some (kp_private_key kp)) = Inr (sr, sc)"
    and sa: "sa = session_state_set_root_key sr
      (session_state_set_sender_chain kp sc
        (session_state_add_receiver_chain (ap_their_ratchet_key a) dc
          (session_state_set_local_identity_key (ik_public_key (ap_our_identity_key a))
            (session_state_set_remote_identity_key (ap_their_identity_key a)
              (session_state_set_session_version 3 sta)))))"
    by (rule alice_initialize_cases [OF alice])
  have "agreements G (bob_agreements b) discontinuity_data = Inr secret"
    using matched_agreements(1) [OF dh m] agr by simp
  with bob der have sb: "ss_root_key sb = Some dr" "sc_chain_key (ss_sender_chain sb) = Some dc"
    "sc_sender_ratchet_key_pair (ss_sender_chain sb) = Some (bp_our_ratchet_key b)"
    by (auto simp: ratcheting_session_bob_initialize_def session_state_set_root_key_def
        session_state_set_sender_chain_def)
  have rk: "key_pair_ok G (bp_our_ratchet_key b)" "ap_their_ratchet_key a = kp_public_key (bp_our_ratchet_key b)"
    using m by (auto simp: matched_parameters_def)
  have "ratchet_root_key_create_chain G dr (Some (kp_public_key kp)) (Some (kp_private_key (bp_our_ratchet_key b)))
      = Inr (sr, sc)"
    using root root_key_create_chain_commute [OF dh curve_generate_key_pair_ok [OF dh kp] rk(1)] rk(2) by simp
  moreover have "session_state_get_receiver_chain_key sa (kp_public_key (bp_our_ratchet_key b)) = Some dc"
  proof -
    let ?new = "\<lparr>rc_sender_ratchet_key = Some (kp_public_key (bp_our_ratchet_key b)), rc_chain_key = Some dc, rc_message_keys = []\<rparr>"
    have "rc_matches (kp_public_key (bp_our_ratchet_key b)) ?new"
      using key_pair_okD [OF rk(1)] by (simp add: rc_matches_def ec_public_key_compare_eq)
    then have "List.find (rc_matches (kp_public_key (bp_our_ratchet_key b))) (append_bounded 5 ?new (ss_receiver_chains sta)) = Some ?new"
      using fresh by (intro find_append_bounded) (simp_all add: session_state_find_receiver_chain_def)
    then show ?thesis
      using sa rk(2)
      by (simp add: session_state_get_receiver_chain_key_def session_state_find_receiver_chain_def
          session_state_set_root_key_def session_state_set_sender_chain_def session_state_add_receiver_chain_def
          session_state_set_local_identity_key_def session_state_set_remote_identity_key_def
          session_state_set_session_version_def receiver_chains_add_def MAX_RECEIVER_CHAINS_def)
  qed
  ultimately show ?thesis
    using sa sb by (simp add: session_state_set_root_key_def session_state_set_sender_chain_def)
qed

section \<open>Initialisation establishes the invariant\<close>

lemma alice_initialize_total:
  assumes "curve25519_dh G" "hmac_sha256_of G hm" "matched_parameters G a b"
    and "\<exists>kp. curve_generate_key_pair G r = (Inr kp, r')"
  shows "\<exists>sa. ratcheting_session_alice_initialize G st a r = (Inr sa, r')"
proof -
  obtain kp where kp: "curve_generate_key_pair G r = (Inr kp, r')" using assms(4) by blast
  obtain secret where s: "agreements G (alice_agreements a) discontinuity_data = Inr secret"
    using matched_agreements(2) [OF assms(1,3)] by blast
  obtain dr dc where d: "ratcheting_session_calculate_derived_keys G secret = Inr (dr, dc)" "rk_ok 3 dr"
    using ratcheting_session_calculate_derived_keys_total [OF assms(2)] by blast
  have "pub_ok (ap_their_ratchet_key a)" "priv_ok (kp_private_key kp)"
    using assms(3) key_pair_okD curve_generate_key_pair_ok [OF assms(1) kp] by (auto simp: matched_parameters_def)
  from ratchet_root_key_create_chain_total [OF assms(2,1) d(2) this] kp s d show ?thesis
    by (auto simp: ratcheting_session_alice_initialize_def)
qed

lemma bob_initialize_total:
  assumes "curve25519_dh G" "hmac_sha256_of G hm" "matched_parameters G a b"
  shows "\<exists>sb. ratcheting_session_bob_initialize G st b = Inr sb"
proof -
  obtain secret where s: "agreements G (bob_agreements b) discontinuity_data = Inr secret"
    using matched_agreements [OF assms(1,3)] by metis
  then show ?thesis
    using ratcheting_session_calculate_derived_keys_total [OF assms(2), of secret]
    by (auto simp: ratcheting_session_bob_initialize_def)
qed

lemma alice_initialize_ok:
  assumes dh: "curve25519_dh G" and hm: "hmac_sha256_of G hm" and st: "ss_ok st" "ss_keyless st"
    and keys: "pub_ok (ap_their_ratchet_key a)" "pub_ok (ap_their_identity_key a)"
      "pub_ok (ik_public_key (ap_our_identity_key a))"
    and alice: "ratcheting_session_alice_initialize G st a r = (Inr sa, r')"
  shows "ss_ok sa"
proof -
  obtain kp secret dr dc sr sc where kp: "curve_generate_key_pair G r = (Inr kp, r')"
    and der: "ratcheting_session_calculate_derived_keys G secret = Inr (dr, dc)"
    and root: "ratchet_root_key_create_chain G dr (Some (ap_their_ratchet_key a)) (Some (kp_private_key kp)) = Inr (sr, sc)"
    and sa: "sa = session_state_set_root_key sr
      (session_state_set_sender_chain kp sc
        (session_state_add_receiver_chain (ap_their_ratchet_key a) dc
          (session_state_set_local_identity_key (ik_public_key (ap_our_identity_key a))
            (session_state_set_remote_identity_key (ap_their_identity_key a)
              (session_state_set_session_version 3 st)))))"
    by (rule alice_initialize_cases [OF alice])
  note kpo = key_pair_okD [OF curve_generate_key_pair_ok [OF dh kp]]
  have d: "rk_ok 3 dr" "ck_ok 3 dc"
    using ratcheting_session_calculate_derived_keys_total [OF hm, of secret] der by auto
  have "rk_ok 3 sr" "ck_ok 3 sc"
    using ratchet_root_key_create_chain_total [OF hm dh d(1) keys(1), of "kp_private_key kp"] root kpo by auto
  with d kpo keys show ?thesis
    unfolding sa
    by (intro ss_ok_intros ss_ok_set_session_version st)
       (simp_all add: session_state_set_sender_chain_def session_state_add_receiver_chain_def
         session_state_set_local_identity_key_def session_state_set_remote_identity_key_def
         session_state_set_session_version_def)
qed

section \<open>The symmetric exchange\<close>

text \<open>Two parties of a symmetric exchange, each holding the pairs whose public halves the other was given.\<close>

definition symmetric_partners ::
  "signal_context \<Rightarrow> symmetric_signal_protocol_parameters \<Rightarrow> symmetric_signal_protocol_parameters \<Rightarrow> bool" where
  "symmetric_partners G p q \<longleftrightarrow>
     ik_ok G (symp_our_identity_key p) \<and> key_pair_ok G (symp_our_base_key p) \<and> key_pair_ok G (symp_our_ratchet_key p) \<and>
     ik_ok G (symp_our_identity_key q) \<and> key_pair_ok G (symp_our_base_key q) \<and> key_pair_ok G (symp_our_ratchet_key q) \<and>
     symp_their_base_key p = kp_public_key (symp_our_base_key q) \<and>
     symp_their_ratchet_key p = kp_public_key (symp_our_ratchet_key q) \<and>
     symp_their_identity_key p = ik_public_key (symp_our_identity_key q) \<and>
     symp_their_base_key q = kp_public_key (symp_our_base_key p) \<and>
     symp_their_ratchet_key q = kp_public_key (symp_our_ratchet_key p) \<and>
     symp_their_identity_key q = ik_public_key (symp_our_identity_key p) \<and>
     kp_public_key (symp_our_base_key p) \<noteq> kp_public_key (symp_our_base_key q)"

lemma memcmp_sign:
  "\<lbrakk>length as = length bs; as \<noteq> bs\<rbrakk> \<Longrightarrow> memcmp as bs < 0 \<longleftrightarrow> \<not> memcmp bs as < 0"
  by (induction as bs rule: memcmp.induct) auto

lemma symmetric_one_alice:
  assumes "symmetric_partners G p q"
  shows "ratcheting_session_symmetric_is_alice p \<longleftrightarrow> \<not> ratcheting_session_symmetric_is_alice q"
proof -
  let ?a = "kp_public_key (symp_our_base_key p)" and ?b = "kp_public_key (symp_our_base_key q)"
  have "pub_ok ?a" "pub_ok ?b" "?a \<noteq> ?b" using assms key_pair_okD by (auto simp: symmetric_partners_def)
  then have "length (pub_data ?a) = 32" "length (pub_data ?b) = 32" "pub_data ?a \<noteq> pub_data ?b"
    by (auto simp: pub_ok_def ec_public_key.expand)
  with memcmp_sign [of "pub_data ?a" "pub_data ?b"] assms show ?thesis
    by (simp add: ratcheting_session_symmetric_is_alice_def ec_public_key_memcmp_def symmetric_partners_def)
qed

lemma symmetric_roles:
  assumes "symmetric_partners G p q" "ratcheting_session_symmetric_is_alice p"
  shows "\<exists>a b. matched_parameters G a b \<and>
    ap_our_identity_key a = symp_our_identity_key p \<and> bp_our_identity_key b = symp_our_identity_key q \<and>
    (\<forall>st r. ratcheting_session_symmetric_initialize G st p r = ratcheting_session_alice_initialize G st a r) \<and>
    (\<forall>st r. ratcheting_session_symmetric_initialize G st q r = (ratcheting_session_bob_initialize G st b, r))"
proof -
  let ?a = "\<lparr>ap_our_identity_key = symp_our_identity_key p, ap_our_base_key = symp_our_base_key p,
    ap_their_identity_key = symp_their_identity_key p, ap_their_signed_pre_key = symp_their_base_key p,
    ap_their_one_time_pre_key = None, ap_their_ratchet_key = symp_their_ratchet_key p\<rparr>"
  let ?b = "\<lparr>bp_our_identity_key = symp_our_identity_key q, bp_our_signed_pre_key = symp_our_base_key q,
    bp_our_one_time_pre_key = None, bp_our_ratchet_key = symp_our_ratchet_key q,
    bp_their_identity_key = symp_their_identity_key q, bp_their_base_key = symp_their_base_key q\<rparr>"
  have "matched_parameters G ?a ?b"
    using assms(1) by (simp add: matched_parameters_def symmetric_partners_def)
  moreover have "\<not> ratcheting_session_symmetric_is_alice q" using symmetric_one_alice [OF assms(1)] assms(2) by simp
  ultimately show ?thesis
    using assms(2) by (intro exI [of _ ?a] exI [of _ ?b])
      (simp add: ratcheting_session_symmetric_initialize_def alice_signal_protocol_parameters_create_def
        bob_signal_protocol_parameters_create_def)
qed

end
