(* ===== verification/Session_Cipher.thy ===== *)
theory Session_Cipher
  imports Store Ratcheting_Session
begin

text \<open>
  \<^verbatim>\<open>session_cipher.c\<close>: encryption, decryption with the choice among the current and the
  archived states, the Diffie-Hellman step on a new ratchet key, and the derivation of
  message keys with storage of the skipped ones.  A failing call leaves the loaded record
  behind; what reaches the store is what the last step writes.
\<close>

definition SG_CIPHER_AES_CTR_NOPADDING :: int where "SG_CIPHER_AES_CTR_NOPADDING = 1"
definition SG_CIPHER_AES_CBC_PKCS5 :: int where "SG_CIPHER_AES_CBC_PKCS5 = 2"

datatype ciphertext_message = CIPHERTEXT_SIGNAL signal_message | CIPHERTEXT_PREKEY pre_key_signal_message

record 's session_cipher =
  cipher_remote_address :: signal_protocol_address
  cipher_decrypt_callback :: "(bytes \<Rightarrow> 's \<Rightarrow> int \<times> 's) option"
  cipher_inside_callback :: bool

section \<open>Payload encryption\<close>

definition counter_iv :: "u32 \<Rightarrow> bytes" where
  "counter_iv counter =
     [ucast (drop_bit 24 counter), ucast (drop_bit 16 counter), ucast (drop_bit 8 counter), ucast counter]
       @ replicate 12 0"

definition session_cipher_get_ciphertext ::
  "signal_context \<Rightarrow> u32 \<Rightarrow> ratchet_message_keys \<Rightarrow> bytes \<Rightarrow> bytes result" where
  "session_cipher_get_ciphertext G version message_keys plaintext =
     (if 3 \<le> version then
        signal_encrypt G SG_CIPHER_AES_CBC_PKCS5 (mk_cipher_key message_keys) (mk_iv message_keys) plaintext
      else
        signal_encrypt G SG_CIPHER_AES_CTR_NOPADDING (mk_cipher_key message_keys)
          (counter_iv (mk_counter message_keys)) plaintext)"

definition session_cipher_get_plaintext ::
  "signal_context \<Rightarrow> u32 \<Rightarrow> ratchet_message_keys \<Rightarrow> bytes \<Rightarrow> bytes result" where
  "session_cipher_get_plaintext G version message_keys ciphertext =
     (if 3 \<le> version then
        signal_decrypt G SG_CIPHER_AES_CBC_PKCS5 (mk_cipher_key message_keys) (mk_iv message_keys) ciphertext
      else
        signal_decrypt G SG_CIPHER_AES_CTR_NOPADDING (mk_cipher_key message_keys)
          (counter_iv (mk_counter message_keys)) ciphertext)"

section \<open>Message keys\<close>

lemma skip_measure:
  "\<lbrakk>i < (counter :: u32); j = i + 1\<rbrakk> \<Longrightarrow> unat (counter - j) < unat (counter - i)"
  by unat_arith

text \<open>The \<^verbatim>\<open>while\<close> loop that stores the keys of the messages not received yet.\<close>

function skip_message_keys ::
  "signal_context \<Rightarrow> ec_public_key \<Rightarrow> u32 \<Rightarrow> ratchet_chain_key \<Rightarrow> session_state
     \<Rightarrow> (ratchet_chain_key \<times> session_state) result" where
  "skip_message_keys G their_ephemeral counter cur_chain_key state =
     (if ck_index cur_chain_key < counter then
        (case ratchet_chain_key_get_message_keys G cur_chain_key of Inl e \<Rightarrow> Inl e
         | Inr mk \<Rightarrow>
            (case ratchet_chain_key_create_next G cur_chain_key of Inl e \<Rightarrow> Inl e
             | Inr next_chain_key \<Rightarrow>
                skip_message_keys G their_ephemeral counter next_chain_key
                  (session_state_set_message_keys state their_ephemeral mk)))
      else Inr (cur_chain_key, state))"
  by pat_completeness auto
termination
  by (relation "measure (\<lambda>(G, k, counter, ck, st). unat (counter - ck_index ck))")
     (auto dest!: ratchet_chain_key_create_next_index intro: skip_measure)

declare skip_message_keys.simps [simp del]

definition session_cipher_get_or_create_message_keys ::
  "signal_context \<Rightarrow> session_state \<Rightarrow> ec_public_key \<Rightarrow> ratchet_chain_key \<Rightarrow> u32
     \<Rightarrow> (ratchet_message_keys \<times> session_state) result" where
  "session_cipher_get_or_create_message_keys G state their_ephemeral chain_key counter =
     (if counter < ck_index chain_key then
        (case session_state_remove_message_keys state their_ephemeral counter of
           (Some mk, state') \<Rightarrow> Inr (mk, state')
         | (None, _) \<Rightarrow> Inl SG_ERR_DUPLICATE_MESSAGE)
      else if 2000 < counter - ck_index chain_key then Inl SG_ERR_INVALID_MESSAGE
      else
        (case skip_message_keys G their_ephemeral counter chain_key state of Inl e \<Rightarrow> Inl e
         | Inr (cur_chain_key, state1) \<Rightarrow>
            (case ratchet_chain_key_create_next G cur_chain_key of Inl e \<Rightarrow> Inl e
             | Inr next_chain_key \<Rightarrow>
                (case session_state_set_receiver_chain_key state1 their_ephemeral next_chain_key of Inl e \<Rightarrow> Inl e
                 | Inr state2 \<Rightarrow>
                    (case ratchet_chain_key_get_message_keys G cur_chain_key of Inl e \<Rightarrow> Inl e
                     | Inr mk \<Rightarrow> Inr (mk, state2))))))"

section \<open>The Diffie-Hellman step\<close>

definition session_cipher_get_or_create_chain_key ::
  "signal_context \<Rightarrow> session_state \<Rightarrow> ec_public_key \<Rightarrow> rng \<Rightarrow> (ratchet_chain_key \<times> session_state) result \<times> rng" where
  "session_cipher_get_or_create_chain_key G state their_ephemeral r =
     (case session_state_get_receiver_chain_key state their_ephemeral of
        Some result_key \<Rightarrow> (Inr (result_key, state), r)
      | None \<Rightarrow>
     (case ss_root_key state of None \<Rightarrow> (Inl SG_ERR_UNKNOWN, r)
      | Some root_key \<Rightarrow>
     (case sc_sender_ratchet_key_pair (ss_sender_chain state) of None \<Rightarrow> (Inl SG_ERR_UNKNOWN, r)
      | Some our_ephemeral \<Rightarrow>
     (case ratchet_root_key_create_chain G root_key (Some their_ephemeral) (Some (kp_private_key our_ephemeral)) of
        Inl e \<Rightarrow> (Inl e, r)
      | Inr (receiver_root_key, receiver_chain_key) \<Rightarrow>
     (case curve_generate_key_pair G r of
        (Inl e, r') \<Rightarrow> (Inl e, r')
      | (Inr our_new_ephemeral, r') \<Rightarrow>
          ((case ratchet_root_key_create_chain G receiver_root_key (Some their_ephemeral)
                   (Some (kp_private_key our_new_ephemeral)) of Inl e \<Rightarrow> Inl e
            | Inr (sender_root_key, sender_chain_key) \<Rightarrow>
               (case sc_chain_key (ss_sender_chain state) of None \<Rightarrow> Inl SG_ERR_UNKNOWN
                | Some previous_sender_chain_key \<Rightarrow>
                   (let index = ck_index previous_sender_chain_key;
                        index' = (if 0 < index then index - 1 else index)
                    in Inr (receiver_chain_key,
                         session_state_set_sender_chain our_new_ephemeral sender_chain_key
                           (session_state_set_previous_counter index'
                             (session_state_add_receiver_chain their_ephemeral receiver_chain_key
                               (session_state_set_root_key sender_root_key state))))))), r'))))))"

section \<open>Decryption\<close>

definition session_cipher_decrypt_from_state_and_signal_message ::
  "signal_context \<Rightarrow> session_state \<Rightarrow> signal_message \<Rightarrow> rng \<Rightarrow> (bytes \<times> session_state) result \<times> rng" where
  "session_cipher_decrypt_from_state_and_signal_message G state ciphertext r =
     (if \<not> ss_has_sender_chain state then (Inl SG_ERR_INVALID_MESSAGE, r)
      else if ucast (sm_message_version ciphertext) \<noteq> ss_session_version state
      then (Inl SG_ERR_INVALID_MESSAGE, r)
      else
       (case session_cipher_get_or_create_chain_key G state (sm_sender_ratchet_key ciphertext) r of
          (Inl e, r') \<Rightarrow> (Inl e, r')
        | (Inr (chain_key, state1), r') \<Rightarrow>
            ((case session_cipher_get_or_create_message_keys G state1 (sm_sender_ratchet_key ciphertext)
                     chain_key (sm_counter ciphertext) of Inl e \<Rightarrow> Inl e
              | Inr (message_keys, state2) \<Rightarrow>
                 (case ss_remote_identity_public state2 of None \<Rightarrow> Inl SG_ERR_UNKNOWN
                  | Some remote_identity_key \<Rightarrow>
                     (case ss_local_identity_public state2 of None \<Rightarrow> Inl SG_ERR_UNKNOWN
                      | Some local_identity_key \<Rightarrow>
                         (case signal_message_verify_mac G ciphertext (Some remote_identity_key)
                                 (Some local_identity_key) (mk_mac_key message_keys) of Inl e \<Rightarrow> Inl e
                          | Inr verified \<Rightarrow>
                             (if \<not> verified then Inl SG_ERR_INVALID_MESSAGE
                              else
                               (case session_cipher_get_plaintext G (ucast (sm_message_version ciphertext))
                                       message_keys (sm_ciphertext ciphertext) of Inl e \<Rightarrow> Inl e
                                | Inr plaintext \<Rightarrow>
                                   Inr (plaintext, session_state_clear_unacknowledged_pre_key_message state2))))))),
             r')))"

text \<open>The loop over the archived states; \<open>i\<close> is the position of the node looked at.\<close>

fun decrypt_from_previous_states ::
  "signal_context \<Rightarrow> session_record \<Rightarrow> signal_message \<Rightarrow> nat \<Rightarrow> session_state list \<Rightarrow> rng
     \<Rightarrow> (bytes \<times> session_record) result \<times> rng" where
  "decrypt_from_previous_states G record ciphertext i [] r = (Inl SG_ERR_INVALID_MESSAGE, r)"
| "decrypt_from_previous_states G record ciphertext i (state # states) r =
     (case session_state_copy state of Inl e \<Rightarrow> (Inl e, r)
      | Inr state_copy \<Rightarrow>
         (case session_cipher_decrypt_from_state_and_signal_message G state_copy ciphertext r of
            (Inr (plaintext, state'), r') \<Rightarrow>
              (Inr (plaintext, session_record_promote_state
                     (session_record_get_previous_states_remove record i) state'), r')
          | (Inl e, r') \<Rightarrow>
              (if e \<noteq> SG_ERR_INVALID_MESSAGE then (Inl e, r')
               else decrypt_from_previous_states G record ciphertext (Suc i) states r')))"

definition session_cipher_decrypt_from_record_and_signal_message ::
  "signal_context \<Rightarrow> session_record \<Rightarrow> signal_message \<Rightarrow> rng \<Rightarrow> (bytes \<times> session_record) result \<times> rng" where
  "session_cipher_decrypt_from_record_and_signal_message G record ciphertext r =
     (case sr_state record of
        None \<Rightarrow> decrypt_from_previous_states G record ciphertext 0 (sr_previous_states record) r
      | Some state \<Rightarrow>
         (case session_state_copy state of Inl e \<Rightarrow> (Inl e, r)
          | Inr state_copy \<Rightarrow>
             (case session_cipher_decrypt_from_state_and_signal_message G state_copy ciphertext r of
                (Inr (plaintext, state'), r') \<Rightarrow> (Inr (plaintext, session_record_set_state record state'), r')
              | (Inl e, r') \<Rightarrow>
                  (if e \<noteq> SG_ERR_INVALID_MESSAGE then (Inl e, r')
                   else decrypt_from_previous_states G record ciphertext 0 (sr_previous_states record) r'))))"

definition session_cipher_decrypt_callback ::
  "'s session_cipher \<Rightarrow> bytes \<Rightarrow> 's \<Rightarrow> unit result \<times> 's" where
  "session_cipher_decrypt_callback cipher plaintext s =
     (case cipher_decrypt_callback cipher of None \<Rightarrow> (Inr (), s)
      | Some callback \<Rightarrow> (case callback plaintext s of (result, s') \<Rightarrow> (status_result result, s')))"

definition session_cipher_decrypt_signal_message ::
  "'s signal_protocol_session_store \<Rightarrow> signal_context \<Rightarrow> 's session_cipher \<Rightarrow> signal_message \<Rightarrow> 's world
     \<Rightarrow> bytes result \<times> 's world" where
  "session_cipher_decrypt_signal_message S G cipher ciphertext w =
     (if cipher_inside_callback cipher then (Inl SG_ERR_INVAL, w)
      else
       (case signal_protocol_session_contains_session S (cipher_remote_address cipher) (w_store w) of
          (result, s1) \<Rightarrow>
            if result = 0 then (Inl SG_ERR_NO_SESSION, w\<lparr>w_store := s1\<rparr>)
            else if result < 0 then (Inl (sg_error_of_code result), w\<lparr>w_store := s1\<rparr>)
            else
             (case signal_protocol_session_load_session S (cipher_remote_address cipher) s1 of
                (Inl e, s2) \<Rightarrow> (Inl e, w\<lparr>w_store := s2\<rparr>)
              | (Inr record, s2) \<Rightarrow>
                 (case session_cipher_decrypt_from_record_and_signal_message G record ciphertext (w_rng w) of
                    (Inl e, r) \<Rightarrow> (Inl e, \<lparr>w_store = s2, w_rng = r\<rparr>)
                  | (Inr (plaintext, record'), r) \<Rightarrow>
                     (case session_cipher_decrypt_callback cipher plaintext s2 of
                        (Inl e, s3) \<Rightarrow> (Inl e, \<lparr>w_store = s3, w_rng = r\<rparr>)
                      | (Inr _, s3) \<Rightarrow>
                         (case signal_protocol_session_store_session S (cipher_remote_address cipher) record' s3 of
                            (Inl e, s4) \<Rightarrow> (Inl e, \<lparr>w_store = s4, w_rng = r\<rparr>)
                          | (Inr _, s4) \<Rightarrow> (Inr plaintext, \<lparr>w_store = s4, w_rng = r\<rparr>)))))))"

section \<open>Encryption\<close>

text \<open>\<^verbatim>\<open>session_cipher_encrypt\<close> between loading the record and storing it.\<close>

definition encrypt_from_state ::
  "signal_context \<Rightarrow> session_state \<Rightarrow> bytes \<Rightarrow> (ciphertext_message \<times> session_state) result" where
  "encrypt_from_state G state padded_message =
     (case sc_chain_key (ss_sender_chain state) of None \<Rightarrow> Inl SG_ERR_UNKNOWN
      | Some chain_key \<Rightarrow>
     (case ratchet_chain_key_get_message_keys G chain_key of Inl e \<Rightarrow> Inl e
      | Inr message_keys \<Rightarrow>
     (case session_state_get_sender_ratchet_key state of None \<Rightarrow> Inl SG_ERR_UNKNOWN
      | Some sender_ephemeral \<Rightarrow>
     (case session_cipher_get_ciphertext G (ss_session_version state) message_keys padded_message of Inl e \<Rightarrow> Inl e
      | Inr ciphertext \<Rightarrow>
     (case ss_local_identity_public state of None \<Rightarrow> Inl SG_ERR_UNKNOWN
      | Some local_identity_key \<Rightarrow>
     (case ss_remote_identity_public state of None \<Rightarrow> Inl SG_ERR_UNKNOWN
      | Some remote_identity_key \<Rightarrow>
     (case signal_message_create G (ucast (ss_session_version state)) (mk_mac_key message_keys) sender_ephemeral
             (ck_index chain_key) (ss_previous_counter state) ciphertext local_identity_key remote_identity_key of
        Inl e \<Rightarrow> Inl e
      | Inr message \<Rightarrow>
     (case (if ss_has_pending_pre_key state then
              (let pk = ss_pending_pre_key state in
               (case ppk_base_key pk of None \<Rightarrow> Inl SG_ERR_UNKNOWN
                | Some base_key \<Rightarrow>
                   (case pre_key_signal_message_create (ucast (ss_session_version state))
                           (ss_local_registration_id state)
                           (if ppk_has_pre_key_id pk then Some (ppk_pre_key_id pk) else None)
                           (ppk_signed_pre_key_id pk) base_key local_identity_key message of
                      Inl e \<Rightarrow> Inl e
                    | Inr pre_key_message \<Rightarrow> Inr (CIPHERTEXT_PREKEY pre_key_message))))
            else Inr (CIPHERTEXT_SIGNAL message)) of Inl e \<Rightarrow> Inl e
      | Inr encrypted_message \<Rightarrow>
     (case ratchet_chain_key_create_next G chain_key of Inl e \<Rightarrow> Inl e
      | Inr next_chain_key \<Rightarrow>
     (case session_state_set_sender_chain_key next_chain_key state of Inl e \<Rightarrow> Inl e
      | Inr state' \<Rightarrow> Inr (encrypted_message, state')))))))))))"

definition session_cipher_encrypt ::
  "'s signal_protocol_session_store \<Rightarrow> signal_context \<Rightarrow> 's session_cipher \<Rightarrow> bytes \<Rightarrow> 's world
     \<Rightarrow> ciphertext_message result \<times> 's world" where
  "session_cipher_encrypt S G cipher padded_message w =
     (if cipher_inside_callback cipher then (Inl SG_ERR_INVAL, w)
      else
       (case signal_protocol_session_load_session S (cipher_remote_address cipher) (w_store w) of
          (Inl e, s1) \<Rightarrow> (Inl e, w\<lparr>w_store := s1\<rparr>)
        | (Inr record, s1) \<Rightarrow>
           (case sr_state record of None \<Rightarrow> (Inl SG_ERR_UNKNOWN, w\<lparr>w_store := s1\<rparr>)
            | Some state \<Rightarrow>
               (case encrypt_from_state G state padded_message of
                  Inl e \<Rightarrow> (Inl e, w\<lparr>w_store := s1\<rparr>)
                | Inr (encrypted_message, state') \<Rightarrow>
                   (case signal_protocol_session_store_session S (cipher_remote_address cipher)
                           (session_record_set_state record state') s1 of
                      (Inl e, s2) \<Rightarrow> (Inl e, w\<lparr>w_store := s2\<rparr>)
                    | (Inr _, s2) \<Rightarrow> (Inr encrypted_message, w\<lparr>w_store := s2\<rparr>))))))"

section \<open>Queries\<close>

definition session_cipher_get_remote_registration_id ::
  "'s signal_protocol_session_store \<Rightarrow> 's session_cipher \<Rightarrow> 's \<Rightarrow> u32 result \<times> 's" where
  "session_cipher_get_remote_registration_id S cipher s =
     (case signal_protocol_session_load_session S (cipher_remote_address cipher) s of
        (Inl e, s1) \<Rightarrow> (Inl e, s1)
      | (Inr record, s1) \<Rightarrow>
         ((case sr_state record of None \<Rightarrow> Inl SG_ERR_UNKNOWN
           | Some state \<Rightarrow> Inr (ss_remote_registration_id state)), s1))"

definition session_cipher_get_session_version ::
  "'s signal_protocol_session_store \<Rightarrow> 's session_cipher \<Rightarrow> 's \<Rightarrow> u32 result \<times> 's" where
  "session_cipher_get_session_version S cipher s =
     (case signal_protocol_session_contains_session S (cipher_remote_address cipher) s of
        (result, s1) \<Rightarrow>
          if result \<noteq> 1 then
            (if result = 0 then (Inl SG_ERR_NO_SESSION, s1)
             else if result < 0 then (Inl (sg_error_of_code result), s1)
             else (Inr 0, s1))
          else
           (case signal_protocol_session_load_session S (cipher_remote_address cipher) s1 of
              (Inl e, s2) \<Rightarrow> (Inl e, s2)
            | (Inr record, s2) \<Rightarrow>
               ((case sr_state record of None \<Rightarrow> Inl SG_ERR_UNKNOWN
                 | Some state \<Rightarrow> Inr (ss_session_version state)), s2)))"

end
