(* ===== verification/Skipping_Chain.thy ===== *)
theory Skipping_Chain
  imports Prelude
begin

text \<open>
  The contract shared by the receiving side of a pairwise session
  (\<^verbatim>\<open>session_cipher_get_or_create_message_keys\<close>) and of a group session
  (\<^verbatim>\<open>group_cipher_get_sender_key\<close>): a hash chain that only moves forward, whose position is a
  32-bit counter, and a store for the keys of the positions that were passed over.
\<close>

section \<open>Positions of a chain\<close>

primrec chain_at :: "('c \<Rightarrow> 'c result) \<Rightarrow> 'c \<Rightarrow> nat \<Rightarrow> 'c result" where
  "chain_at nx c 0 = Inr c"
| "chain_at nx c (Suc k) = (case nx c of Inl e \<Rightarrow> Inl e | Inr c' \<Rightarrow> chain_at nx c' k)"

definition message_at :: "('c \<Rightarrow> 'c result) \<Rightarrow> ('c \<Rightarrow> 'm result) \<Rightarrow> 'c \<Rightarrow> nat \<Rightarrow> 'm result" where
  "message_at nx key c k = (case chain_at nx c k of Inl e \<Rightarrow> Inl e | Inr c' \<Rightarrow> key c')"

lemma chain_at_add:
  "chain_at nx c (j + k) = (case chain_at nx c j of Inl e \<Rightarrow> Inl e | Inr c' \<Rightarrow> chain_at nx c' k)"
  by (induction j arbitrary: c) (auto split: sum.splits)

lemma chain_at_step: "\<lbrakk>chain_at nx c j = Inr c'; nx c' = Inr c''\<rbrakk> \<Longrightarrow> chain_at nx c (Suc j) = Inr c''"
  using chain_at_add [of nx c j 1] by simp

lemma message_at_add:
  "chain_at nx c j = Inr c' \<Longrightarrow> message_at nx key c (j + k) = message_at nx key c' k"
  by (simp add: message_at_def chain_at_add)

text \<open>
  The invariant of a receiving chain that started at \<open>base\<close>: its current link is a later
  link of the same chain, and every stored key is the key of a different earlier position.
  No position has wrapped.
\<close>

definition chain_inv ::
  "('c \<Rightarrow> u32) \<Rightarrow> ('c \<Rightarrow> 'c result) \<Rightarrow> ('c \<Rightarrow> 'm result) \<Rightarrow> ('m \<Rightarrow> u32) \<Rightarrow> 'c \<Rightarrow> 'c \<Rightarrow> 'm list \<Rightarrow> bool" where
  "chain_inv index nx key pos base c ms \<longleftrightarrow>
     index base \<le> index c \<and>
     chain_at nx base (unat (index c) - unat (index base)) = Inr c \<and>
     distinct (map pos ms) \<and>
     (\<forall>m \<in> set ms. index base \<le> pos m \<and> pos m < index c \<and>
        message_at nx key base (unat (pos m) - unat (index base)) = Inr m)"

lemma chain_inv_start: "chain_inv index nx key pos c c []"
  by (simp add: chain_inv_def)

lemma chain_inv_lookup:
  "\<lbrakk>chain_inv index nx key pos base c ms; m \<in> set ms\<rbrakk> \<Longrightarrow>
     message_at nx key base (unat (pos m) - unat (index base)) = Inr m"
  by (simp add: chain_inv_def)

lemma chain_inv_subset:
  "\<lbrakk>chain_inv index nx key pos base c ms; set ms' \<subseteq> set ms; distinct (map pos ms')\<rbrakk> \<Longrightarrow>
     chain_inv index nx key pos base c ms'"
  by (auto simp: chain_inv_def)

section \<open>The contract\<close>

locale skipping_chain =
  fixes index :: "'c \<Rightarrow> u32"
    and nx :: "'c \<Rightarrow> 'c result"
    and key :: "'c \<Rightarrow> 'm result"
    and pos :: "'m \<Rightarrow> u32"
    and add :: "'m \<Rightarrow> 's \<Rightarrow> 's"
    and stored :: "'s \<Rightarrow> 'm list"
    and loop :: "u32 \<Rightarrow> 'c \<Rightarrow> 's \<Rightarrow> ('c \<times> 's) result"
  assumes next_index: "nx c = Inr c' \<Longrightarrow> index c' = index c + 1"
    and key_pos: "key c = Inr m \<Longrightarrow> pos m = index c"
    and stored_add: "set (stored (add m s)) \<subseteq> insert m (set (stored s))"
    and stored_distinct:
      "\<lbrakk>distinct (map pos (stored s)); pos m \<notin> pos ` set (stored s)\<rbrakk> \<Longrightarrow> distinct (map pos (stored (add m s)))"
    and loop_unfold:
      "loop n c s =
         (if index c < n then
            (case key c of Inl e \<Rightarrow> Inl e
             | Inr m \<Rightarrow> (case nx c of Inl e \<Rightarrow> Inl e | Inr c' \<Rightarrow> loop n c' (add m s)))
          else Inr (c, s))"
begin

lemma index_step: "\<lbrakk>index c < n; nx c = Inr c'\<rbrakk> \<Longrightarrow> unat (index c') = Suc (unat (index c)) \<and> index c' \<le> n"
  using next_index [of c c'] by (simp add: word_le_nat_alt) unat_arith

lemma next_index_unat: "\<lbrakk>nx c = Inr c'; index c \<noteq> - 1\<rbrakk> \<Longrightarrow> unat (index c') = Suc (unat (index c))"
  using next_index [of c c'] by (simp add: unatSuc add.commute) (metis add.commute unatSuc add_eq_0_iff)

text \<open>One forward step, storing the key that is passed.\<close>

lemma chain_inv_add:
  assumes inv: "chain_inv index nx key pos base c (stored s)"
    and step: "nx c = Inr c'" "key c = Inr m" "unat (index c') = Suc (unat (index c))"
  shows "chain_inv index nx key pos base c' (stored (add m s))"
proof -
  have le: "index base \<le> index c" "unat (index base) \<le> unat (index c)"
    using inv by (simp_all add: chain_inv_def word_le_nat_alt)
  have at: "chain_at nx base (unat (index c) - unat (index base)) = Inr c" using inv by (simp add: chain_inv_def)
  have "unat (index c') - unat (index base) = Suc (unat (index c) - unat (index base))"
    using le step(3) by simp
  then have at': "chain_at nx base (unat (index c') - unat (index base)) = Inr c'"
    using chain_at_step [OF at step(1)] by simp
  have less: "index c < index c'" using step(3) by (simp add: word_less_nat_alt)
  have m: "pos m = index c" "message_at nx key base (unat (pos m) - unat (index base)) = Inr m"
    using key_pos [OF step(2)] at step(2) by (simp_all add: message_at_def)
  have "pos m \<notin> pos ` set (stored s)" using inv m(1) by (auto simp: chain_inv_def)
  then have "distinct (map pos (stored (add m s)))"
    using inv by (intro stored_distinct) (simp_all add: chain_inv_def)
  moreover have "index base \<le> pos x \<and> pos x < index c' \<and>
      message_at nx key base (unat (pos x) - unat (index base)) = Inr x" if "x \<in> set (stored (add m s))" for x
  proof (cases "x = m")
    case False
    with that stored_add [of m s] have "x \<in> set (stored s)" by auto
    then have "pos x < index c" using inv by (simp add: chain_inv_def)
    with less have "pos x < index c'" by (rule order.strict_trans [rotated])
    with inv \<open>x \<in> set (stored s)\<close> show ?thesis by (simp add: chain_inv_def)
  qed (use m le less in auto)
  ultimately show ?thesis using at' le less by (auto simp: chain_inv_def)
qed

lemma loop_inv:
  assumes "chain_inv index nx key pos base c (stored s)" "index c \<le> n" "loop n c s = Inr (c', s')"
  shows "chain_inv index nx key pos base c' (stored s') \<and> index c' = n"
  using assms
proof (induction "unat n - unat (index c)" arbitrary: c s)
  case 0
  then have "\<not> index c < n" by (simp add: word_less_nat_alt)
  with 0 show ?case by (subst (asm) loop_unfold) auto
next
  case (Suc d)
  then have lt: "index c < n" by (simp add: word_less_nat_alt)
  with Suc.prems obtain m c1 where st: "key c = Inr m" "nx c = Inr c1" "loop n c1 (add m s) = Inr (c', s')"
    by (subst (asm) loop_unfold) (auto simp: result_simps)
  note i = index_step [OF lt st(2)]
  show ?case
  proof (rule Suc.hyps(1))
    show "d = unat n - unat (index c1)" using Suc.hyps(2) i by simp
    show "chain_inv index nx key pos base c1 (stored (add m s))"
      using Suc.prems(1) st i by (intro chain_inv_add) auto
  qed (use i st in auto)
qed

lemma loop_index:
  assumes "index c \<le> n" "loop n c s = Inr (c', s')"
  shows "index c' = n"
  using assms
proof (induction "unat n - unat (index c)" arbitrary: c s)
  case 0
  then have "\<not> index c < n" by (simp add: word_less_nat_alt)
  with 0 show ?case by (subst (asm) loop_unfold) auto
next
  case (Suc d)
  then have lt: "index c < n" by (simp add: word_less_nat_alt)
  with Suc.prems obtain m c1 where st: "nx c = Inr c1" "loop n c1 (add m s) = Inr (c', s')"
    by (subst (asm) loop_unfold) (auto simp: result_simps)
  have "d = unat n - unat (index c1)" using Suc.hyps(2) index_step [OF lt st(1)] by simp
  from Suc.hyps(1) [OF this _ st(2)] index_step [OF lt st(1)] show ?case by simp
qed

text \<open>
  With links and keys that never fail, the loop ends at its target: it terminates and
  succeeds.
\<close>

lemma loop_total:
  assumes "\<And>c. P c \<Longrightarrow> \<exists>m. key c = Inr m" "\<And>c. P c \<Longrightarrow> \<exists>c'. nx c = Inr c' \<and> P c'" "P c"
  shows "\<exists>c' s'. loop n c s = Inr (c', s') \<and> P c'"
  using assms(3)
proof (induction "unat n - unat (index c)" arbitrary: c s)
  case 0
  then have "\<not> index c < n" by (simp add: word_less_nat_alt)
  with 0 show ?case by (subst loop_unfold) auto
next
  case (Suc d)
  then have lt: "index c < n" by (simp add: word_less_nat_alt)
  from assms(1,2) [OF Suc.prems] obtain m c1 where st: "key c = Inr m" "nx c = Inr c1" "P c1" by blast
  have "d = unat n - unat (index c1)" using Suc.hyps(2) index_step [OF lt st(2)] by simp
  from Suc.hyps(1) [OF this st(3), of "add m s"] lt st show ?case
    by (subst loop_unfold) simp
qed

text \<open>
  Taking position \<open>n\<close> of a chain: the key is the one the sender has at that position, and
  the chain that moves past it keeps the invariant and holds no key for \<open>n\<close>.
\<close>

lemma take_position:
  assumes inv: "chain_inv index nx key pos base c (stored s)" and n: "index c \<le> n" "n \<noteq> - 1"
    and run: "loop n c s = Inr (c1, s1)" and key: "key c1 = Inr m" and nxt: "nx c1 = Inr c2"
  shows "message_at nx key base (unat n - unat (index base)) = Inr m \<and> pos m = n
    \<and> chain_inv index nx key pos base c2 (stored s1) \<and> index c2 = n + 1 \<and> n < index c2
    \<and> n \<notin> pos ` set (stored s1)"
proof -
  have i: "chain_inv index nx key pos base c1 (stored s1)" "index c1 = n"
    using loop_inv [OF inv n(1) run] by auto
  have n': "unat (index c2) = Suc (unat n)" using next_index_unat [OF nxt] i(2) n(2) by simp
  have at: "chain_at nx base (unat n - unat (index base)) = Inr c1" "index base \<le> n"
    using i by (auto simp: chain_inv_def)
  have at': "chain_at nx base (unat (index c2) - unat (index base)) = Inr c2"
  proof -
    have "unat (index c2) - unat (index base) = Suc (unat n - unat (index base))"
      using n' at(2) by (simp add: word_le_nat_alt Suc_diff_le)
    then show ?thesis using chain_at_step [OF at(1) nxt] by simp
  qed
  have less: "n < index c2" using n' by (simp add: word_less_nat_alt)
  have "chain_inv index nx key pos base c2 (stored s1)"
    using i at' less at(2) by (auto simp: chain_inv_def)
  moreover have "n \<notin> pos ` set (stored s1)" using i by (auto simp: chain_inv_def)
  ultimately show ?thesis
    using at key key_pos [OF key] i(2) less next_index [OF nxt] by (simp add: message_at_def)
qed

end

section \<open>Chains that retain what they skip\<close>

text \<open>
  The store of a live chain is a bounded list: while there is room it only grows, so every
  skipped position stays available; at the limit the oldest key goes.
\<close>

locale retaining_chain = skipping_chain +
  fixes live :: "'s \<Rightarrow> bool" and limit :: nat
  assumes live_add: "live s \<Longrightarrow> live (add m s)"
    and stored_append: "live s \<Longrightarrow> stored (add m s) = append_bounded limit m (stored s)"
begin

lemma loop_appends:
  assumes "live s" "index c \<le> n" "loop n c s = Inr (c', s')"
  shows "live s' \<and> (\<exists>ms. stored s' = fold (append_bounded limit) ms (stored s) \<and>
    map (unat \<circ> pos) ms = [unat (index c)..<unat n])"
  using assms
proof (induction "unat n - unat (index c)" arbitrary: c s)
  case 0
  then have "\<not> index c < n" by (simp add: word_less_nat_alt)
  with 0 show ?case by (subst (asm) loop_unfold) (auto intro: exI [of _ "[]"])
next
  case (Suc d)
  then have lt: "index c < n" "unat (index c) < unat n" by (simp_all add: word_less_nat_alt)
  with Suc.prems obtain m c1 where st: "key c = Inr m" "nx c = Inr c1" "loop n c1 (add m s) = Inr (c', s')"
    by (subst (asm) loop_unfold) (auto simp: result_simps)
  note i = index_step [OF lt(1) st(2)]
  have "live s' \<and> (\<exists>ms. stored s' = fold (append_bounded limit) ms (stored (add m s)) \<and>
      map (unat \<circ> pos) ms = [unat (index c1)..<unat n])"
    using Suc st i by (intro Suc.hyps(1)) (auto intro: live_add)
  then obtain ms where ms: "live s'" "stored s' = fold (append_bounded limit) (m # ms) (stored s)"
    "map (unat \<circ> pos) ms = [unat (index c1)..<unat n]"
    using stored_append [OF Suc.prems(1)] by auto
  then have "map (unat \<circ> pos) (m # ms) = [unat (index c)..<unat n]"
    using i key_pos [OF st(1)] lt(2) by (simp add: upt_conv_Cons)
  with ms show ?case by blast
qed

lemma loop_stores:
  assumes "live s" "index c \<le> n" "length (stored s) + (unat n - unat (index c)) \<le> limit"
    and "loop n c s = Inr (c', s')"
  shows "live s' \<and> (\<exists>ms. stored s' = stored s @ ms \<and>
    map (unat \<circ> pos) ms = [unat (index c)..<unat n])"
proof -
  from loop_appends [OF assms(1,2,4)] obtain ms where ms: "live s'"
    "stored s' = fold (append_bounded limit) ms (stored s)" "map (unat \<circ> pos) ms = [unat (index c)..<unat n]"
    by blast
  have "length ms = unat n - unat (index c)" using arg_cong [OF ms(3), of length] by simp
  with ms assms(3) show ?thesis by (auto simp: append_bounded_fold_room)
qed

end

end
