(* ===== verification/Key_Dispenser.thy ===== *)
theory Key_Dispenser
  imports Skipping_Chain "HOL-Library.Multiset"
begin

text \<open>
  The abstract specification of a receiving chain: a dispenser that hands out every
  position at most once.  It keeps the next position and the positions that were passed
  over, oldest first and at most \<open>limit\<close> of them; it knows nothing of hash chains, words
  or keys.  \<open>key_dispenser\<close> is the interface of a concrete chain, and under it every step of
  the code is the step of the dispenser, with the key the sender has at that position.
\<close>

section \<open>The specification\<close>

record dispenser =
  d_next :: nat
  d_left :: "nat list"

definition dispense :: "nat \<Rightarrow> nat \<Rightarrow> dispenser \<Rightarrow> dispenser result" where
  "dispense limit n d =
     (if n < d_next d then
        (if n \<in> set (d_left d) then Inr (d\<lparr>d_left := remove1 n (d_left d)\<rparr>) else Inl SG_ERR_DUPLICATE_MESSAGE)
      else if 2000 < n - d_next d then Inl SG_ERR_INVALID_MESSAGE
      else Inr \<lparr>d_next = Suc n, d_left = fold (append_bounded limit) [d_next d..<n] (d_left d)\<rparr>)"

definition dispenser_ok :: "dispenser \<Rightarrow> bool" where
  "dispenser_ok d \<longleftrightarrow> distinct (d_left d) \<and> (\<forall>i \<in> set (d_left d). i < d_next d)"

lemma append_bounded_subset: "set (append_bounded limit y xs) \<subseteq> insert y (set xs)"
  by (auto simp: append_bounded_def dl_trim_head_drop dest: in_set_dropD)

lemma fold_append_bounded_subset: "set (fold (append_bounded limit) ys xs) \<subseteq> set xs \<union> set ys"
proof (induction ys arbitrary: xs)
  case (Cons y ys)
  with append_bounded_subset [of limit y xs] show ?case by fastforce
qed simp

lemma fold_append_bounded_distinct:
  "distinct (xs @ ys) \<Longrightarrow> distinct (fold (append_bounded limit) ys xs)"
proof (induction ys arbitrary: xs)
  case (Cons y ys)
  have "distinct (append_bounded limit y xs)"
    using Cons.prems append_bounded_distinct [of "\<lambda>x. x" xs y limit] by simp
  moreover from Cons.prems have "y \<notin> set ys" "set xs \<inter> set ys = {}" "distinct ys" by auto
  ultimately have "distinct (append_bounded limit y xs @ ys)"
    using append_bounded_subset [of limit y xs] unfolding distinct_append by blast
  from Cons.IH [OF this] show ?case by simp
qed simp

lemma dispenser_ok_step: "\<lbrakk>dispenser_ok d; dispense limit n d = Inr d'\<rbrakk> \<Longrightarrow> dispenser_ok d'"
  using fold_append_bounded_subset [of limit "[d_next d..<n]" "d_left d"]
    fold_append_bounded_distinct [of "d_left d" "[d_next d..<n]" limit]
  by (fastforce simp: dispense_def dispenser_ok_def split: if_splits)

text \<open>A position that was handed out is refused by every later step.\<close>

definition spent :: "nat \<Rightarrow> dispenser \<Rightarrow> bool" where
  "spent n d \<longleftrightarrow> n < d_next d \<and> n \<notin> set (d_left d)"

lemma dispense_spent: "\<lbrakk>dispenser_ok d; dispense limit n d = Inr d'\<rbrakk> \<Longrightarrow> spent n d'"
  using fold_append_bounded_subset [of limit "[d_next d..<n]" "d_left d"]
  by (fastforce simp: dispense_def dispenser_ok_def spent_def split: if_splits)

lemma spent_step: "\<lbrakk>spent n d; dispense limit m d = Inr d'\<rbrakk> \<Longrightarrow> spent n d'"
  using fold_append_bounded_subset [of limit "[d_next d..<m]" "d_left d"]
  by (auto simp: dispense_def spent_def split: if_splits dest: notin_set_remove1)

lemma spent_refused: "spent n d \<Longrightarrow> dispense limit n d = Inl SG_ERR_DUPLICATE_MESSAGE"
  by (simp add: dispense_def spent_def)

text \<open>
  Availability: as long as a window of at most \<open>limit\<close> positions is asked for, each of
  them is handed out, in whatever order.
\<close>

definition window_inv :: "nat \<Rightarrow> nat set \<Rightarrow> dispenser \<Rightarrow> bool" where
  "window_inv a R d \<longleftrightarrow> a \<le> d_next d \<and> dispenser_ok d \<and> (\<forall>i \<in> set (d_left d). a \<le> i) \<and>
     (\<forall>i. a \<le> i \<longrightarrow> i < d_next d \<longrightarrow> i \<notin> R \<longrightarrow> i \<in> set (d_left d))"

lemma window_inv_left: "window_inv a R d \<Longrightarrow> length (d_left d) \<le> d_next d - a"
proof -
  assume w: "window_inv a R d"
  then have "set (d_left d) \<subseteq> {a..<d_next d}" by (auto simp: window_inv_def dispenser_ok_def)
  from card_mono [OF _ this] w show ?thesis by (simp add: window_inv_def dispenser_ok_def distinct_card)
qed

lemma window_inv_step:
  assumes w: "window_inv a R d" and n: "a \<le> n" "n < a + limit" "n \<notin> R" "limit \<le> 2000"
  shows "\<exists>d'. dispense limit n d = Inr d' \<and> window_inv a (insert n R) d'"
proof (cases "n < d_next d")
  case True
  with w n have "n \<in> set (d_left d)" by (simp add: window_inv_def)
  with True have d: "dispense limit n d = Inr (d\<lparr>d_left := remove1 n (d_left d)\<rparr>)" by (simp add: dispense_def)
  have "distinct (d_left d)" using w by (simp add: window_inv_def dispenser_ok_def)
  with w dispenser_ok_step [OF _ d] have "window_inv a (insert n R) (d\<lparr>d_left := remove1 n (d_left d)\<rparr>)"
    by (simp add: window_inv_def)
  with d show ?thesis by blast
next
  case False
  have ge: "a \<le> d_next d" using w by (simp add: window_inv_def)
  have "length (d_left d) + length [d_next d..<n] \<le> limit" "n - d_next d \<le> 2000"
    using window_inv_left [OF w] False ge n by auto
  then have d: "dispense limit n d = Inr \<lparr>d_next = Suc n, d_left = d_left d @ [d_next d..<n]\<rparr>"
    using False by (simp add: dispense_def append_bounded_fold_room)
  have "i \<in> set (d_left d @ [d_next d..<n])" if "a \<le> i" "i < Suc n" "i \<notin> insert n R" for i
    using that w by (cases "i < d_next d") (auto simp: window_inv_def)
  with w False ge dispenser_ok_step [OF _ d]
  have "window_inv a (insert n R) \<lparr>d_next = Suc n, d_left = d_left d @ [d_next d..<n]\<rparr>"
    unfolding window_inv_def by auto
  with d show ?thesis by blast
qed

text \<open>
  Messages numbered in the order they were sent, and an arrival: some of them, in any
  order.  No number arrives twice, all are in range, and what holds of message and
  plaintext when sent holds on arrival.
\<close>

lemma arrivals:
  assumes all: "list_all2 R ms ps" "map c ms = [a..<a + length ps]" and sub: "mset xs \<subseteq># mset (zip ms ps)"
  shows "distinct (map (c \<circ> fst) xs)" "(c \<circ> fst) ` set xs \<subseteq> {a..<a + length ps}" "\<forall>(m, p) \<in> set xs. R m p"
proof -
  have set: "set xs \<subseteq> set (zip ms ps)" using set_mset_mono [OF sub] by simp
  have im: "map (c \<circ> fst) (zip ms ps) = [a..<a + length ps]"
    using all(2) map_fst_zip [OF list_all2_lengthD [OF all(1)]] by (metis map_map)
  obtain zs where "mset (xs @ zs) = mset (zip ms ps)"
    using sub by (metis ex_mset mset_append subset_mset.add_diff_inverse)
  then have "mset (map (c \<circ> fst) (xs @ zs)) = mset [a..<a + length ps]" by (metis im mset_map)
  then have "distinct (map (c \<circ> fst) (xs @ zs))" by (metis distinct_upt mset_eq_imp_distinct_iff)
  then show "distinct (map (c \<circ> fst) xs)" by simp
  show "(c \<circ> fst) ` set xs \<subseteq> {a..<a + length ps}"
    using image_mono [OF set, of "c \<circ> fst"] arg_cong [OF im, of set] by simp
  show "\<forall>(m, p) \<in> set xs. R m p" using set all(1) by (auto simp: list_all2_iff)
qed

section \<open>The interface of a concrete chain\<close>

definition dispenser_view ::
  "('c \<Rightarrow> u32) \<Rightarrow> ('m \<Rightarrow> u32) \<Rightarrow> ('s \<Rightarrow> 'c) \<Rightarrow> ('s \<Rightarrow> 'm list) \<Rightarrow> 's \<Rightarrow> dispenser" where
  "dispenser_view index pos current stored s =
     \<lparr>d_next = unat (index (current s)), d_left = map (unat \<circ> pos) (stored s)\<rparr>"

text \<open>A sequence of takes, up to the first refusal.\<close>

fun take_all :: "('s \<Rightarrow> 'n \<Rightarrow> ('m \<times> 's) result) \<Rightarrow> 's \<Rightarrow> 'n list \<Rightarrow> ('m list \<times> 's) result" where
  "take_all f s [] = Inr ([], s)"
| "take_all f s (n # ns) =
     (case f s n of Inl e \<Rightarrow> Inl e
      | Inr (m, s') \<Rightarrow> (case take_all f s' ns of Inl e \<Rightarrow> Inl e | Inr (ms, s'') \<Rightarrow> Inr (m # ms, s'')))"

locale key_dispenser = retaining_chain +
  fixes current :: "'c \<Rightarrow> 'a"
    and take_key :: "'c \<Rightarrow> u32 \<Rightarrow> ('b \<times> 'c) result"
    and advance :: "'a \<Rightarrow> 'c \<Rightarrow> 'c"
    and discard :: "u32 \<Rightarrow> 'c \<Rightarrow> 'c"
  assumes take_stored:
      "\<lbrakk>live s; n < index (current s)\<rbrakk> \<Longrightarrow>
         take_key s n = (case List.find (\<lambda>m. pos m = n) (stored s) of
           None \<Rightarrow> Inl SG_ERR_DUPLICATE_MESSAGE | Some m \<Rightarrow> Inr (m, discard n s))"
    and discard_laws:
      "\<lbrakk>live s; List.find (\<lambda>m. pos m = n) (stored s) = Some m\<rbrakk> \<Longrightarrow>
         live (discard n s) \<and> current (discard n s) = current s \<and>
         stored (discard n s) = remove_first (\<lambda>m. pos m = n) (stored s)"
    and take_ahead:
      "\<lbrakk>live s; index (current s) \<le> n\<rbrakk> \<Longrightarrow>
         take_key s n = (if 2000 < n - index (current s) then Inl SG_ERR_INVALID_MESSAGE
           else (case loop n (current s) s of Inl e \<Rightarrow> Inl e
             | Inr (c, s1) \<Rightarrow> (case nx c of Inl e \<Rightarrow> Inl e
                | Inr c' \<Rightarrow> (case key c of Inl e \<Rightarrow> Inl e | Inr m \<Rightarrow> Inr (m, advance c' s1)))))"
    and advance_laws:
      "live s \<Longrightarrow> live (advance c s) \<and> current (advance c s) = c \<and> stored (advance c s) = stored s"
begin

abbreviation view :: "'c \<Rightarrow> dispenser" where
  "view \<equiv> dispenser_view index pos current stored"

abbreviation inv :: "'a \<Rightarrow> 'c \<Rightarrow> bool" where
  "inv base s \<equiv> chain_inv index nx key pos base (current s) (stored s)"

lemma view_ok: "inv base s \<Longrightarrow> dispenser_ok (view s)"
  by (auto simp: chain_inv_def dispenser_ok_def dispenser_view_def word_less_nat_alt distinct_map
      inj_on_def word_unat_eq_iff)

lemma view_left: "n < index (current s) \<Longrightarrow> unat n < d_next (view s)"
  by (simp add: dispenser_view_def word_less_nat_alt)

lemma take_stored_refines:
  assumes live: "live s" and inv: "inv base s" and n: "n < index (current s)"
  shows "case dispense limit (unat n) (view s) of Inl e \<Rightarrow> take_key s n = Inl e
    | Inr d \<Rightarrow> \<exists>m s'. take_key s n = Inr (m, s') \<and> live s' \<and> current s' = current s \<and> inv base s' \<and> view s' = d \<and>
        message_at nx key base (unat n - unat (index base)) = Inr m"
proof (cases "List.find (\<lambda>m. pos m = n) (stored s)")
  case None
  then have "unat n \<notin> set (d_left (view s))"
    by (auto simp: find_None_iff dispenser_view_def word_unat_eq_iff)
  then show ?thesis
    using take_stored [OF live n] None view_left [OF n] by (simp add: dispense_def)
next
  case (Some m)
  have m: "m \<in> set (stored s)" "pos m = n" using find_Some_set [OF Some] by auto
  have dist: "distinct (map pos (stored s))" using inv by (simp add: chain_inv_def)
  note rm = remove_first_map_distinct [OF dist Some] and dl = discard_laws [OF live Some]
  have "remove1 (unat n) (map (unat \<circ> pos) xs) = map (unat \<circ> pos) (remove_first (\<lambda>m. pos m = n) xs)" for xs
    by (induction xs) (auto simp: word_unat_eq_iff)
  then have view: "view (discard n s) = (view s)\<lparr>d_left := remove1 (unat n) (d_left (view s))\<rparr>"
    using dl by (simp add: dispenser_view_def)
  have "unat n \<in> set (d_left (view s))" using m by (auto simp: dispenser_view_def)
  then have "dispense limit (unat n) (view s) = Inr (view (discard n s))"
    using view_left [OF n] view by (simp add: dispense_def)
  moreover have "inv base (discard n s)"
    using dl rm chain_inv_subset [OF inv remove_first_subset] by simp
  moreover have "message_at nx key base (unat n - unat (index base)) = Inr m"
    using chain_inv_lookup [OF inv m(1)] m(2) by simp
  ultimately show ?thesis using take_stored [OF live n] Some dl by simp
qed

lemma take_ahead_refines:
  assumes ok: "\<And>c. P c \<Longrightarrow> \<exists>m. key c = Inr m" "\<And>c. P c \<Longrightarrow> \<exists>c'. nx c = Inr c' \<and> P c'" "P (current s)"
    and live: "live s" and inv: "inv base s" and n: "index (current s) \<le> n" "n \<noteq> - 1"
  shows "case dispense limit (unat n) (view s) of Inl e \<Rightarrow> take_key s n = Inl e
    | Inr d \<Rightarrow> \<exists>m s'. take_key s n = Inr (m, s') \<and> live s' \<and> P (current s') \<and> inv base s' \<and> view s' = d \<and>
        message_at nx key base (unat n - unat (index base)) = Inr m"
proof -
  have ge: "\<not> unat n < d_next (view s)" using n(1) by (simp add: dispenser_view_def word_le_nat_alt)
  have sub: "2000 < n - index (current s) \<longleftrightarrow> 2000 < unat n - d_next (view s)"
    using n(1) by (simp add: dispenser_view_def word_less_nat_alt unat_sub)
  show ?thesis
  proof (cases "2000 < n - index (current s)")
    case True
    with take_ahead [OF live n(1)] sub ge show ?thesis by (simp add: dispense_def)
  next
    case False
    obtain c s1 where l: "loop n (current s) s = Inr (c, s1)" "P c" using loop_total [of P, OF ok] by blast
    from ok(1,2) [OF l(2)] obtain m c' where c: "key c = Inr m" "nx c = Inr c'" "P c'" by blast
    note tp = take_position [OF inv n l(1) c(1,2)]
    from loop_appends [OF live n(1) l(1)] obtain ms where ms: "live s1"
      "stored s1 = fold (append_bounded limit) ms (stored s)" "map (unat \<circ> pos) ms = [d_next (view s)..<unat n]"
      by (auto simp: dispenser_view_def)
    note al = advance_laws [OF ms(1), of c']
    have "unat (index c') = Suc (unat n)" using tp n(2) by (simp add: unatSuc add.commute) (metis add.commute unatSuc add_eq_0_iff)
    then have "view (advance c' s1) =
        \<lparr>d_next = Suc (unat n), d_left = fold (append_bounded limit) [d_next (view s)..<unat n] (d_left (view s))\<rparr>"
      using al ms(2,3) by (simp add: dispenser_view_def append_bounded_fold_map)
    then have "dispense limit (unat n) (view s) = Inr (view (advance c' s1))"
      using ge False sub by (simp add: dispense_def)
    then show ?thesis using take_ahead [OF live n(1)] False l(1) c tp al by simp
  qed
qed

text \<open>Every step of the chain is the step of the dispenser on its view.\<close>

lemma take_refines:
  assumes ok: "\<And>c. P c \<Longrightarrow> \<exists>m. key c = Inr m" "\<And>c. P c \<Longrightarrow> \<exists>c'. nx c = Inr c' \<and> P c'" "P (current s)"
    and live: "live s" and inv: "inv base s" and n: "n \<noteq> - 1"
  shows "case dispense limit (unat n) (view s) of Inl e \<Rightarrow> take_key s n = Inl e
    | Inr d \<Rightarrow> \<exists>m s'. take_key s n = Inr (m, s') \<and> live s' \<and> P (current s') \<and> inv base s' \<and> view s' = d \<and>
        message_at nx key base (unat n - unat (index base)) = Inr m"
proof (cases "n < index (current s)")
  case True
  from take_stored_refines [OF live inv True] ok(3) show ?thesis by (force split: sum.splits)
next
  case False
  then have "index (current s) \<le> n" by simp
  from take_ahead_refines [of P, OF ok live inv this n] show ?thesis .
qed

end

end
