(* ===== verification/Session_Cipher_Laws.thy ===== *)
theory Session_Cipher_Laws
  imports Session_Cipher Key_Dispenser "HOL-Library.Multiset"
begin

text \<open>
  The receiving chain of a session meets the contract of \<open>Skipping_Chain\<close>, and what follows
  from it: a received message is decrypted with the key it was encrypted with, in whatever
  order messages arrive, and a second copy is refused.
\<close>

abbreviation next_ck :: "signal_context \<Rightarrow> ratchet_chain_key \<Rightarrow> ratchet_chain_key result" where
  "next_ck \<equiv> ratchet_chain_key_create_next"

abbreviation ck_keys :: "signal_context \<Rightarrow> ratchet_chain_key \<Rightarrow> ratchet_message_keys result" where
  "ck_keys \<equiv> ratchet_chain_key_get_message_keys"

section \<open>The receiving chain\<close>

definition stored_keys :: "ec_public_key \<Rightarrow> session_state \<Rightarrow> ratchet_message_keys list" where
  "stored_keys k st =
     (case session_state_find_receiver_chain st k of None \<Rightarrow> [] | Some ch \<Rightarrow> rc_message_keys ch)"

lemma find_update_receiver_chain:
  assumes "\<And>n. rc_sender_ratchet_key (f n) = rc_sender_ratchet_key n"
  shows "session_state_find_receiver_chain (update_receiver_chain k f st) k
    = map_option f (session_state_find_receiver_chain st k)"
  unfolding session_state_find_receiver_chain_def update_receiver_chain_def
  by (simp, rule find_update_first, simp add: rc_matches_def assms)

lemma find_set_message_keys [simp]:
  "session_state_find_receiver_chain (session_state_set_message_keys st k mk) k
     = map_option (\<lambda>n. n\<lparr>rc_message_keys := message_keys_add mk (rc_message_keys n)\<rparr>)
         (session_state_find_receiver_chain st k)"
  by (auto simp: session_state_set_message_keys_def find_update_receiver_chain split: option.splits)

text \<open>The skipping loop touches nothing but the message keys of its chain.\<close>

lemma skip_message_keys_frame:
  assumes "skip_message_keys G k n c st = Inr (c', st')"
  shows "(\<exists>cs. st' = st\<lparr>ss_receiver_chains := cs\<rparr>) \<and>
    (\<forall>ch. session_state_find_receiver_chain st k = Some ch \<longrightarrow>
      (\<exists>mks. session_state_find_receiver_chain st' k = Some (ch\<lparr>rc_message_keys := mks\<rparr>)))"
  using assms
proof (induction G k n c st rule: skip_message_keys.induct)
  case (1 G k n c st)
  show ?case
  proof (cases "ck_index c < n")
    case False
    have "\<exists>mks. ch = ch\<lparr>rc_message_keys := mks\<rparr>" for ch :: session_state_receiver_chain
      by (rule exI [of _ "rc_message_keys ch"]) simp
    moreover have "\<exists>cs. st = st\<lparr>ss_receiver_chains := cs\<rparr>"
      by (rule exI [of _ "ss_receiver_chains st"]) simp
    ultimately show ?thesis
      using False 1(2) by (auto simp: skip_message_keys.simps [of G k n c st])
  next
    case True
    with 1(2) obtain mk c1 where mk: "ck_keys G c = Inr mk" and c1: "next_ck G c = Inr c1"
      and run: "skip_message_keys G k n c1 (session_state_set_message_keys st k mk) = Inr (c', st')"
      by (auto simp: skip_message_keys.simps [of G k n c st] result_simps)
    have "\<exists>cs. session_state_set_message_keys st k mk = st\<lparr>ss_receiver_chains := cs\<rparr>"
      by (auto simp: session_state_set_message_keys_def update_receiver_chain_def split: option.splits
          intro: exI [of _ "ss_receiver_chains st"])
    with 1(1) [OF True mk c1 run] show ?thesis by auto
  qed
qed

text \<open>
  The chain of one sender in a session state as a dispenser: its current link, and the two
  updates that \<^verbatim>\<open>session_cipher_get_or_create_message_keys\<close> ends with.
\<close>

definition current_ck :: "ec_public_key \<Rightarrow> session_state \<Rightarrow> ratchet_chain_key" where
  "current_ck k st = the (session_state_get_receiver_chain_key st k)"

definition advance_ck :: "ec_public_key \<Rightarrow> ratchet_chain_key \<Rightarrow> session_state \<Rightarrow> session_state" where
  "advance_ck k c st = update_receiver_chain k (\<lambda>n. n\<lparr>rc_chain_key := Some c\<rparr>) st"

definition discard_ck :: "ec_public_key \<Rightarrow> u32 \<Rightarrow> session_state \<Rightarrow> session_state" where
  "discard_ck k n st = snd (session_state_remove_message_keys st k n)"

definition take_ck ::
  "signal_context \<Rightarrow> ec_public_key \<Rightarrow> session_state \<Rightarrow> u32 \<Rightarrow> (ratchet_message_keys \<times> session_state) result" where
  "take_ck G k st n = session_cipher_get_or_create_message_keys G st k (current_ck k st) n"

lemma get_chain_key_live:
  "session_state_get_receiver_chain_key st k \<noteq> None \<longleftrightarrow>
     (\<exists>ch c. session_state_find_receiver_chain st k = Some ch \<and> rc_chain_key ch = Some c)"
  by (auto simp: session_state_get_receiver_chain_key_def split: option.splits)

lemma get_chain_key_set [simp]:
  "session_state_get_receiver_chain_key (session_state_set_message_keys st k m) k
     = session_state_get_receiver_chain_key st k"
  by (cases "session_state_find_receiver_chain st k") (simp_all add: session_state_get_receiver_chain_key_def)

interpretation sk: key_dispenser ck_index "next_ck G" "ck_keys G" mk_counter
  "\<lambda>mk st. session_state_set_message_keys st k mk" "stored_keys k" "skip_message_keys G k"
  "\<lambda>st. session_state_get_receiver_chain_key st k \<noteq> None" MAX_MESSAGE_KEYS
  "current_ck k" "take_ck G k" "advance_ck k" "discard_ck k" for G k
proof
  show "next_ck G c = Inr c' \<Longrightarrow> ck_index c' = ck_index c + 1" for c c'
    by (simp add: ratchet_chain_key_create_next_index)
  show "ck_keys G c = Inr m \<Longrightarrow> mk_counter m = ck_index c" for c m
    by (simp add: ratchet_chain_key_get_message_keys_ok)
  show "set (stored_keys k (session_state_set_message_keys s k m)) \<subseteq> insert m (set (stored_keys k s))" for m s
    using mks.add_old by (auto simp: stored_keys_def split: option.splits)
  show "distinct (map mk_counter (stored_keys k (session_state_set_message_keys s k m)))"
    if "distinct (map mk_counter (stored_keys k s))" "mk_counter m \<notin> mk_counter ` set (stored_keys k s)" for s m
    using that append_bounded_distinct
    by (auto simp: stored_keys_def message_keys_add_def split: option.splits)
  show "skip_message_keys G k n c s =
         (if ck_index c < n then
            (case ck_keys G c of Inl e \<Rightarrow> Inl e
             | Inr m \<Rightarrow> (case next_ck G c of Inl e \<Rightarrow> Inl e
                | Inr c' \<Rightarrow> skip_message_keys G k n c' (session_state_set_message_keys s k m)))
          else Inr (c, s))" for n c s
    by (subst skip_message_keys.simps) simp
  show "session_state_get_receiver_chain_key s k \<noteq> None \<Longrightarrow>
      session_state_get_receiver_chain_key (session_state_set_message_keys s k m) k \<noteq> None" for s m
    by simp
  show "stored_keys k (session_state_set_message_keys s k m) = append_bounded MAX_MESSAGE_KEYS m (stored_keys k s)"
    if "session_state_get_receiver_chain_key s k \<noteq> None" for s m
    using that unfolding get_chain_key_live by (auto simp: stored_keys_def message_keys_add_def)
  show "take_ck G k s n = (case List.find (\<lambda>m. mk_counter m = n) (stored_keys k s) of
      None \<Rightarrow> Inl SG_ERR_DUPLICATE_MESSAGE | Some m \<Rightarrow> Inr (m, discard_ck k n s))"
    if "session_state_get_receiver_chain_key s k \<noteq> None" "n < ck_index (current_ck k s)" for s n
    using that unfolding get_chain_key_live
    by (auto simp: take_ck_def session_cipher_get_or_create_message_keys_def session_state_remove_message_keys_def
        discard_ck_def stored_keys_def split: option.splits)
  show "session_state_get_receiver_chain_key (discard_ck k n s) k \<noteq> None \<and>
      current_ck k (discard_ck k n s) = current_ck k s \<and>
      stored_keys k (discard_ck k n s) = remove_first (\<lambda>m. mk_counter m = n) (stored_keys k s)"
    if "session_state_get_receiver_chain_key s k \<noteq> None" "List.find (\<lambda>m. mk_counter m = n) (stored_keys k s) = Some m"
    for s n m
    using that unfolding get_chain_key_live
    by (auto simp: discard_ck_def session_state_remove_message_keys_def stored_keys_def current_ck_def
        session_state_get_receiver_chain_key_def find_update_receiver_chain)
  show "session_state_get_receiver_chain_key (advance_ck k c s) k \<noteq> None \<and>
      current_ck k (advance_ck k c s) = c \<and> stored_keys k (advance_ck k c s) = stored_keys k s"
    if "session_state_get_receiver_chain_key s k \<noteq> None" for s c
    using that unfolding get_chain_key_live
    by (auto simp: advance_ck_def stored_keys_def current_ck_def session_state_get_receiver_chain_key_def
        find_update_receiver_chain)
  show "take_ck G k s n = (if 2000 < n - ck_index (current_ck k s) then Inl SG_ERR_INVALID_MESSAGE
      else (case skip_message_keys G k n (current_ck k s) s of Inl e \<Rightarrow> Inl e
        | Inr (c, s1) \<Rightarrow> (case next_ck G c of Inl e \<Rightarrow> Inl e
           | Inr c' \<Rightarrow> (case ck_keys G c of Inl e \<Rightarrow> Inl e | Inr m \<Rightarrow> Inr (m, advance_ck k c' s1)))))"
    if live: "session_state_get_receiver_chain_key s k \<noteq> None" and n: "ck_index (current_ck k s) \<le> n" for s n
  proof (cases "skip_message_keys G k n (current_ck k s) s")
    case (Inr cs)
    obtain c s1 where cs: "cs = (c, s1)" by (cases cs)
    with Inr live skip_message_keys_frame [of G k n "current_ck k s" s c s1]
    have "session_state_find_receiver_chain s1 k \<noteq> None" unfolding get_chain_key_live by auto
    then have "session_state_set_receiver_chain_key s1 k c' = Inr (advance_ck k c' s1)" for c'
      by (auto simp: session_state_set_receiver_chain_key_def advance_ck_def)
    with Inr cs n show ?thesis
      by (auto simp: take_ck_def session_cipher_get_or_create_message_keys_def split: sum.splits)
  qed (use n in \<open>simp add: take_ck_def session_cipher_get_or_create_message_keys_def not_less [symmetric]\<close>)
qed

abbreviation ck_view :: "ec_public_key \<Rightarrow> session_state \<Rightarrow> dispenser" where
  "ck_view k \<equiv> dispenser_view ck_index mk_counter (current_ck k) (stored_keys k)"

definition receiver_in_sync ::
  "signal_context \<Rightarrow> ratchet_chain_key \<Rightarrow> ec_public_key \<Rightarrow> session_state \<Rightarrow> bool" where
  "receiver_in_sync G base k st \<longleftrightarrow>
     (\<exists>ch ck. session_state_find_receiver_chain st k = Some ch \<and> rc_chain_key ch = Some ck \<and>
        chain_inv ck_index (next_ck G) (ck_keys G) mk_counter base ck (rc_message_keys ch))"

text \<open>
  Every success of \<^verbatim>\<open>session_cipher_get_or_create_message_keys\<close>: the two branches, a stored
  key and a key ahead.
\<close>

lemma get_or_create_message_keys_cases:
  assumes "session_cipher_get_or_create_message_keys G st k ck n = Inr (mk, st')"
  obtains (stored) "n < ck_index ck" "session_state_remove_message_keys st k n = (Some mk, st')"
  | (ahead) c1 st1 c2 where "ck_index ck \<le> n" "skip_message_keys G k n ck st = Inr (c1, st1)"
      "next_ck G c1 = Inr c2" "session_state_set_receiver_chain_key st1 k c2 = Inr st'" "ck_keys G c1 = Inr mk"
proof (cases "n < ck_index ck")
  case True
  with assms stored show ?thesis
    by (auto simp: session_cipher_get_or_create_message_keys_def split: prod.splits option.splits)
next
  case False
  with assms ahead show ?thesis
    by (auto simp: session_cipher_get_or_create_message_keys_def result_simps not_less split: if_splits)
qed

lemma find_remove_first_distinct:
  assumes "distinct (map f xs)" "List.find (\<lambda>x. f x = k) xs = Some y"
  shows "List.find (\<lambda>x. f x = k) (remove_first (\<lambda>x. f x = k) xs) = None"
  using remove_first_map_distinct [OF assms] by (auto simp: find_None_iff)

lemma message_keys_stored:
  assumes sync: "session_state_find_receiver_chain st k = Some ch" "rc_chain_key ch = Some ck"
      "chain_inv ck_index (next_ck G) (ck_keys G) mk_counter base ck (rc_message_keys ch)"
    and rem: "session_state_remove_message_keys st k n = (Some mk, st')"
  shows "ck_index base \<le> n \<and> message_at (next_ck G) (ck_keys G) base (unat n - unat (ck_index base)) = Inr mk
    \<and> (\<exists>ch'. session_state_find_receiver_chain st' k = Some ch' \<and> rc_chain_key ch' = Some ck \<and>
        chain_inv ck_index (next_ck G) (ck_keys G) mk_counter base ck (rc_message_keys ch') \<and>
        mk_counter ` set (rc_message_keys ch') = mk_counter ` set (rc_message_keys ch) - {n})
    \<and> (\<exists>cs. st' = st\<lparr>ss_receiver_chains := cs\<rparr>)"
proof -
  let ?rm = "remove_first (\<lambda>mk. mk_counter mk = n) (rc_message_keys ch)"
  from rem sync(1) have f: "List.find (\<lambda>mk. mk_counter mk = n) (rc_message_keys ch) = Some mk"
    and st': "st' = update_receiver_chain k
      (\<lambda>c. c\<lparr>rc_message_keys := remove_first (\<lambda>mk. mk_counter mk = n) (rc_message_keys c)\<rparr>) st"
    by (auto simp: session_state_remove_message_keys_def split: option.splits)
  have mk: "mk \<in> set (rc_message_keys ch)" "mk_counter mk = n" using find_Some_set [OF f] by auto
  have dist: "distinct (map mk_counter (rc_message_keys ch))" using sync(3) by (simp add: chain_inv_def)
  note rm = remove_first_map_distinct [OF dist f]
  have "chain_inv ck_index (next_ck G) (ck_keys G) mk_counter base ck ?rm"
    using sync(3) rm by (intro chain_inv_subset [OF sync(3)]) (auto simp: remove_first_subset)
  moreover have "session_state_find_receiver_chain st' k = Some (ch\<lparr>rc_message_keys := ?rm\<rparr>)"
    unfolding st' using sync(1) by (simp add: find_update_receiver_chain)
  moreover have "\<exists>cs. st' = st\<lparr>ss_receiver_chains := cs\<rparr>"
    unfolding st' by (auto simp: update_receiver_chain_def)
  moreover have "ck_index base \<le> n" using sync(3) mk by (auto simp: chain_inv_def)
  ultimately show ?thesis
    using chain_inv_lookup [OF sync(3) mk(1)] mk sync(2) rm by auto
qed

lemma message_keys_ahead:
  assumes sync: "session_state_find_receiver_chain st k = Some ch" "rc_chain_key ch = Some ck"
      "chain_inv ck_index (next_ck G) (ck_keys G) mk_counter base ck (rc_message_keys ch)"
    and n: "ck_index ck \<le> n" "n \<noteq> - 1"
    and run: "skip_message_keys G k n ck st = Inr (c1, st1)" "next_ck G c1 = Inr c2"
      "session_state_set_receiver_chain_key st1 k c2 = Inr st'" "ck_keys G c1 = Inr mk"
  shows "ck_index base \<le> n \<and> message_at (next_ck G) (ck_keys G) base (unat n - unat (ck_index base)) = Inr mk
    \<and> (\<exists>ch'. session_state_find_receiver_chain st' k = Some ch' \<and> rc_chain_key ch' = Some c2 \<and>
        chain_inv ck_index (next_ck G) (ck_keys G) mk_counter base c2 (rc_message_keys ch') \<and>
        n \<notin> mk_counter ` set (rc_message_keys ch') \<and> rc_message_keys ch' = stored_keys k st1)
    \<and> ck_index c2 = n + 1 \<and> n < ck_index c2
    \<and> (\<exists>cs. st' = st\<lparr>ss_receiver_chains := cs\<rparr>)"
proof -
  have stored: "stored_keys k st = rc_message_keys ch" using sync(1) by (simp add: stored_keys_def)
  from skip_message_keys_frame [OF run(1)] sync(1) obtain mks cs
    where st1: "session_state_find_receiver_chain st1 k = Some (ch\<lparr>rc_message_keys := mks\<rparr>)"
      "st1 = st\<lparr>ss_receiver_chains := cs\<rparr>" by blast
  then have mks: "stored_keys k st1 = mks" by (simp add: stored_keys_def)
  note tp = sk.take_position [of G base ck k st n c1 st1 mk c2, unfolded stored mks, OF sync(3) n run(1,4,2)]
  have st': "st' = update_receiver_chain k (\<lambda>n. n\<lparr>rc_chain_key := Some c2\<rparr>) st1"
    using run(3) st1(1) by (simp add: session_state_set_receiver_chain_key_def)
  have "session_state_find_receiver_chain st' k = Some (ch\<lparr>rc_message_keys := mks, rc_chain_key := Some c2\<rparr>)"
    unfolding st' using st1(1) by (simp add: find_update_receiver_chain)
  moreover have "\<exists>cs. st' = st\<lparr>ss_receiver_chains := cs\<rparr>"
    unfolding st' st1(2) by (auto simp: update_receiver_chain_def)
  moreover have "ck_index base \<le> n" using sync(3) n(1) by (auto simp: chain_inv_def)
  ultimately show ?thesis using tp mks by auto
qed

text \<open>
  A key that is handed out is the one the sender has at that counter, the chain stays in
  sync, and nothing but the chains changes.
\<close>

lemma get_or_create_message_keys_sync:
  assumes "receiver_in_sync G base k st" "session_state_get_receiver_chain_key st k = Some ck" "n \<noteq> - 1"
    and "session_cipher_get_or_create_message_keys G st k ck n = Inr (mk, st')"
  shows "ck_index base \<le> n \<and> message_at (next_ck G) (ck_keys G) base (unat n - unat (ck_index base)) = Inr mk
    \<and> receiver_in_sync G base k st' \<and> (\<exists>cs. st' = st\<lparr>ss_receiver_chains := cs\<rparr>)"
proof -
  from assms(1,2) obtain ch where sync: "session_state_find_receiver_chain st k = Some ch" "rc_chain_key ch = Some ck"
      "chain_inv ck_index (next_ck G) (ck_keys G) mk_counter base ck (rc_message_keys ch)"
    by (auto simp: receiver_in_sync_def session_state_get_receiver_chain_key_def)
  show ?thesis
    using assms(4)
  proof (cases rule: get_or_create_message_keys_cases)
    case stored
    from message_keys_stored [OF sync this(2)] show ?thesis unfolding receiver_in_sync_def by blast
  next
    case (ahead c1 st1 c2)
    from message_keys_ahead [OF sync ahead(1) assms(3) ahead(2-5)] show ?thesis
      unfolding receiver_in_sync_def by blast
  qed
qed

text \<open>A counter that was handed out once is refused from then on.\<close>

lemma get_or_create_message_keys_once:
  assumes "receiver_in_sync G base k st" "session_state_get_receiver_chain_key st k = Some ck" "n \<noteq> - 1"
    and "session_cipher_get_or_create_message_keys G st k ck n = Inr (mk, st')"
    and "session_state_get_receiver_chain_key st' k = Some ck'"
  shows "n < ck_index ck' \<and> session_cipher_get_or_create_message_keys G st' k ck' n = Inl SG_ERR_DUPLICATE_MESSAGE"
proof -
  from assms(1,2) obtain ch where sync: "session_state_find_receiver_chain st k = Some ch" "rc_chain_key ch = Some ck"
      "chain_inv ck_index (next_ck G) (ck_keys G) mk_counter base ck (rc_message_keys ch)"
    by (auto simp: receiver_in_sync_def session_state_get_receiver_chain_key_def)
  have "\<exists>ch'. session_state_find_receiver_chain st' k = Some ch' \<and> n \<notin> mk_counter ` set (rc_message_keys ch')
      \<and> n < ck_index ck'"
    using assms(4)
  proof (cases rule: get_or_create_message_keys_cases)
    case stored
    from message_keys_stored [OF sync this(2)] stored(1) assms(5) show ?thesis
      by (auto simp: session_state_get_receiver_chain_key_def)
  next
    case (ahead c1 st1 c2)
    from message_keys_ahead [OF sync ahead(1) assms(3) ahead(2-5)] assms(5) show ?thesis
      by (auto simp: session_state_get_receiver_chain_key_def)
  qed
  then obtain ch' where ch': "session_state_find_receiver_chain st' k = Some ch'"
    "List.find (\<lambda>mk. mk_counter mk = n) (rc_message_keys ch') = None" "n < ck_index ck'"
    by (auto simp: find_None_iff)
  then show ?thesis
    by (simp add: session_cipher_get_or_create_message_keys_def session_state_remove_message_keys_def)
qed

text \<open>The receiving chain of a session is the dispenser of \<open>Key_Dispenser\<close>.\<close>

lemma receiver_in_sync_view:
  "receiver_in_sync G base k st \<longleftrightarrow> session_state_get_receiver_chain_key st k \<noteq> None \<and>
     chain_inv ck_index (next_ck G) (ck_keys G) mk_counter base (current_ck k st) (stored_keys k st)"
  by (auto simp: receiver_in_sync_def stored_keys_def current_ck_def session_state_get_receiver_chain_key_def
      split: option.splits)

lemma get_or_create_message_keys_refines:
  assumes hm: "hmac_sha256_of G hm" and sync: "receiver_in_sync G base k st" and n: "n \<noteq> - 1"
    and ck: "session_state_get_receiver_chain_key st k = Some ck" "ck_ok v ck"
  shows "case dispense MAX_MESSAGE_KEYS (unat n) (ck_view k st) of
      Inl e \<Rightarrow> session_cipher_get_or_create_message_keys G st k ck n = Inl e
    | Inr d \<Rightarrow> \<exists>mk st'. session_cipher_get_or_create_message_keys G st k ck n = Inr (mk, st') \<and>
        receiver_in_sync G base k st' \<and> ck_view k st' = d \<and>
        message_at (next_ck G) (ck_keys G) base (unat n - unat (ck_index base)) = Inr mk"
proof -
  have cur: "current_ck k st = ck" using ck(1) by (simp add: current_ck_def)
  have ok: "\<exists>m. ck_keys G c = Inr m" "\<exists>c'. next_ck G c = Inr c' \<and> ck_ok v c'" if "ck_ok v c" for c
    using that ratchet_chain_key_get_message_keys_total [OF hm that] ratchet_chain_key_create_next_hmac [OF hm, of c]
      ck_ok_next [OF hm that] by auto
  from sk.take_refines [of "ck_ok v" G k st base n] ok ck cur sync n show ?thesis
    unfolding receiver_in_sync_view by (force simp: take_ck_def split: sum.splits)
qed

section \<open>One message\<close>

fun signal_part :: "ciphertext_message \<Rightarrow> signal_message" where
  "signal_part (CIPHERTEXT_SIGNAL m) = m"
| "signal_part (CIPHERTEXT_PREKEY pm) = pksm_message pm"

lemma pre_key_signal_message_create_message:
  "pre_key_signal_message_create v rid pid sid bk ik m = Inr pm \<Longrightarrow> pksm_message pm = m"
  by (auto simp: pre_key_signal_message_create_def result_simps)

lemma encrypt_from_state_cases:
  assumes "encrypt_from_state G sa pt = Inr (em, sa')"
  obtains ck mk k ct A B nx where
    "sc_chain_key (ss_sender_chain sa) = Some ck" "ck_keys G ck = Inr mk"
    "session_state_get_sender_ratchet_key sa = Some k"
    "session_cipher_get_ciphertext G (ss_session_version sa) mk pt = Inr ct"
    "ss_local_identity_public sa = Some A" "ss_remote_identity_public sa = Some B"
    "signal_message_create G (ucast (ss_session_version sa)) (mk_mac_key mk) k (ck_index ck)
       (ss_previous_counter sa) ct A B = Inr (signal_part em)"
    "next_ck G ck = Inr nx"
    "sa' = sa\<lparr>ss_sender_chain := (ss_sender_chain sa)\<lparr>sc_chain_key := Some nx\<rparr>\<rparr>"
  using assms that
  by (auto simp: encrypt_from_state_def result_simps Let_def session_state_set_sender_chain_key_def
      split: if_splits dest!: pre_key_signal_message_create_message)

lemma counter_iv_length: "length (counter_iv n) = 16"
  by (simp add: counter_iv_def)

lemma get_plaintext_ciphertext:
  assumes "cipher_inverse G" "mk_ok mk" "session_cipher_get_ciphertext G v mk pt = Inr ct"
  shows "session_cipher_get_plaintext G v mk ct = Inr pt"
proof -
  have "decrypt_func G c (mk_cipher_key mk) iv ct = Inr pt"
    if "encrypt_func G c (mk_cipher_key mk) iv pt = Inr ct" "length iv = 16" for c iv
    using assms(1,2) that unfolding cipher_inverse_def mk_ok_def by (metis sum.inject(2))
  with assms(2,3) show ?thesis
    by (auto simp: session_cipher_get_ciphertext_def session_cipher_get_plaintext_def signal_encrypt_def
        signal_decrypt_def counter_iv_length mk_ok_def split: if_splits)
qed

text \<open>
  A message made for position \<open>counter\<close> of the chain that starts at \<open>base\<close>, from \<open>A\<close> to \<open>B\<close>.
\<close>

definition sent_as ::
  "signal_context \<Rightarrow> ratchet_chain_key \<Rightarrow> ec_public_key \<Rightarrow> u32 \<Rightarrow> ec_public_key \<Rightarrow> ec_public_key
     \<Rightarrow> signal_message \<Rightarrow> bytes \<Rightarrow> bool" where
  "sent_as G base k v A B m pt \<longleftrightarrow>
     (\<exists>mk ct pn. message_at (next_ck G) (ck_keys G) base (unat (sm_counter m) - unat (ck_index base)) = Inr mk \<and>
        mk_ok mk \<and> session_cipher_get_ciphertext G v mk pt = Inr ct \<and>
        signal_message_create G (ucast v) (mk_mac_key mk) k (sm_counter m) pn ct A B = Inr m)"

definition paired :: "u32 \<Rightarrow> ec_public_key \<Rightarrow> ec_public_key \<Rightarrow> session_state \<Rightarrow> bool" where
  "paired v A B sb \<longleftrightarrow>
     (v = 2 \<or> v = 3) \<and> ss_session_version sb = v \<and> ss_has_sender_chain sb \<and>
     ss_remote_identity_public sb = Some A \<and> ss_local_identity_public sb = Some B"

lemma version_casts: "v = 2 \<or> v = 3 \<Longrightarrow> (ucast (ucast (v :: u32) :: u8) :: u32) = v"
  by auto

text \<open>Decryption with the right message key gives back the plaintext.\<close>

lemma decrypt_sent:
  assumes inv: "cipher_inverse G" and sent: "sent_as G base k v A B m pt" and p: "paired v A B sb"
    and ck: "session_state_get_receiver_chain_key sb k = Some ck"
    and keys: "session_cipher_get_or_create_message_keys G sb k ck (sm_counter m) = Inr (mk, sb1)"
    and mk: "message_at (next_ck G) (ck_keys G) base (unat (sm_counter m) - unat (ck_index base)) = Inr mk"
    and frame: "\<exists>cs. sb1 = sb\<lparr>ss_receiver_chains := cs\<rparr>"
  shows "session_cipher_decrypt_from_state_and_signal_message G sb m r
    = (Inr (pt, session_state_clear_unacknowledged_pre_key_message sb1), r)"
proof -
  from sent mk obtain ct pn where s: "mk_ok mk" "session_cipher_get_ciphertext G v mk pt = Inr ct"
    "signal_message_create G (ucast v) (mk_mac_key mk) k (sm_counter m) pn ct A B = Inr m"
    by (auto simp: sent_as_def)
  note f = signal_message_create_fields [OF s(3)]
  have "signal_message_verify_mac G m (Some A) (Some B) (mk_mac_key mk) = Inr True"
    by (rule signal_message_create_verify [OF s(3)])
  moreover have "session_cipher_get_plaintext G v mk ct = Inr pt"
    by (rule get_plaintext_ciphertext [OF inv s(1,2)])
  ultimately show ?thesis
    using p f ck keys frame version_casts [of v]
    by (auto simp: session_cipher_decrypt_from_state_and_signal_message_def paired_def
        session_cipher_get_or_create_chain_key_def)
qed

section \<open>Delivery in any order\<close>

text \<open>
  What a receiver still has to offer: of the positions up to its current link, all but those
  in \<open>R\<close> are in its store.
\<close>

definition delivery_inv ::
  "signal_context \<Rightarrow> ratchet_chain_key \<Rightarrow> ec_public_key \<Rightarrow> nat set \<Rightarrow> session_state \<Rightarrow> bool" where
  "delivery_inv G base k R sb \<longleftrightarrow>
     (\<exists>ch ck. session_state_find_receiver_chain sb k = Some ch \<and> rc_chain_key ch = Some ck \<and>
        chain_inv ck_index (next_ck G) (ck_keys G) mk_counter base ck (rc_message_keys ch) \<and>
        (\<forall>i. unat (ck_index base) \<le> i \<longrightarrow> i < unat (ck_index ck) \<longrightarrow> i \<notin> R \<longrightarrow>
           i \<in> (unat \<circ> mk_counter) ` set (rc_message_keys ch)))"

lemma chain_at_ck_ok:
  "\<lbrakk>hmac_sha256_of G hm; ck_ok v c; chain_at (next_ck G) c j = Inr c'\<rbrakk> \<Longrightarrow> ck_ok v c'"
  by (induction j arbitrary: c) (auto simp: result_simps intro: ck_ok_next)

lemma chain_inv_length:
  assumes "chain_inv ck_index nx key mk_counter base ck ms"
  shows "length ms \<le> unat (ck_index ck) - unat (ck_index base)"
proof -
  have "distinct (map (unat \<circ> mk_counter) ms)"
    using assms by (auto simp: chain_inv_def distinct_map inj_on_def word_unat_eq_iff [symmetric])
  then have "length ms = card (set (map (unat \<circ> mk_counter) ms))" using distinct_card by fastforce
  also have "\<dots> \<le> card {unat (ck_index base)..<unat (ck_index ck)}"
    using assms by (intro card_mono) (auto simp: chain_inv_def word_le_nat_alt word_less_nat_alt)
  finally show ?thesis by simp
qed

lemma skip_total:
  assumes "hmac_sha256_of G hm" "ck_ok v ck"
  shows "\<exists>c1 st1. skip_message_keys G k n ck st = Inr (c1, st1) \<and> ck_ok v c1"
  using assms(2)
  by (intro sk.loop_total [where P = "ck_ok v"])
     (auto intro: ratchet_chain_key_get_message_keys_total [OF assms(1)] ck_ok_next [OF assms(1)]
       simp: ratchet_chain_key_create_next_hmac [OF assms(1)])

text \<open>Ahead of the chain, within the window of 2000, the key can be made.\<close>

lemma get_or_create_message_keys_ahead_total:
  assumes hm: "hmac_sha256_of G hm" and ok: "ck_ok v ck"
    and find: "session_state_find_receiver_chain st k = Some ch"
    and n: "ck_index ck \<le> n" "unat n - unat (ck_index ck) \<le> 2000"
  shows "\<exists>mk st' c1 st1 c2. session_cipher_get_or_create_message_keys G st k ck n = Inr (mk, st') \<and>
    skip_message_keys G k n ck st = Inr (c1, st1) \<and> next_ck G c1 = Inr c2 \<and>
    session_state_set_receiver_chain_key st1 k c2 = Inr st' \<and> ck_keys G c1 = Inr mk"
proof -
  obtain c1 st1 where run: "skip_message_keys G k n ck st = Inr (c1, st1)" "ck_ok v c1"
    using skip_total [OF hm ok] by blast
  obtain c2 where c2: "next_ck G c1 = Inr c2" using ratchet_chain_key_create_next_hmac [OF hm] by blast
  obtain mk where mk: "ck_keys G c1 = Inr mk"
    using ratchet_chain_key_get_message_keys_total [OF hm run(2)] by blast
  obtain st' where st': "session_state_set_receiver_chain_key st1 k c2 = Inr st'"
    using skip_message_keys_frame [OF run(1)] find by (auto simp: session_state_set_receiver_chain_key_def)
  have "unat (n - ck_index ck) = unat n - unat (ck_index ck)" using n(1) by (simp add: unat_sub)
  then have "\<not> 2000 < n - ck_index ck" using n(2) by (simp add: word_less_nat_alt)
  moreover have "\<not> n < ck_index ck" using n(1) by simp
  ultimately show ?thesis using run c2 mk st'
    by (simp add: session_cipher_get_or_create_message_keys_def)
qed

lemma delivery_inv_stored:
  assumes sync: "session_state_find_receiver_chain sb k = Some ch" "rc_chain_key ch = Some ck"
      "chain_inv ck_index (next_ck G) (ck_keys G) mk_counter base ck (rc_message_keys ch)"
    and avail: "\<And>i. \<lbrakk>unat (ck_index base) \<le> i; i < unat (ck_index ck); i \<notin> R\<rbrakk> \<Longrightarrow>
           i \<in> (unat \<circ> mk_counter) ` set (rc_message_keys ch)"
    and n: "unat (ck_index base) \<le> unat n" "n < ck_index ck" "unat n \<notin> R"
  shows "\<exists>mk sb1. session_cipher_get_or_create_message_keys G sb k ck n = Inr (mk, sb1) \<and>
    delivery_inv G base k (insert (unat n) R) sb1"
proof -
  from n avail [of "unat n"] obtain mk0 where "mk0 \<in> set (rc_message_keys ch)" "mk_counter mk0 = n"
    by (auto simp: word_less_nat_alt word_unat_eq_iff [symmetric])
  then have "List.find (\<lambda>mk. mk_counter mk = n) (rc_message_keys ch) \<noteq> None"
    by (auto simp: find_None_iff)
  then obtain mk sb1 where rem: "session_state_remove_message_keys sb k n = (Some mk, sb1)"
    using sync(1) by (auto simp: session_state_remove_message_keys_def)
  from message_keys_stored [OF sync rem]
  obtain ch' where ch': "session_state_find_receiver_chain sb1 k = Some ch'" "rc_chain_key ch' = Some ck"
    "chain_inv ck_index (next_ck G) (ck_keys G) mk_counter base ck (rc_message_keys ch')"
    "mk_counter ` set (rc_message_keys ch') = mk_counter ` set (rc_message_keys ch) - {n}" by blast
  have "i \<in> (unat \<circ> mk_counter) ` set (rc_message_keys ch')"
    if "unat (ck_index base) \<le> i" "i < unat (ck_index ck)" "i \<notin> insert (unat n) R" for i
  proof -
    have "i \<in> unat ` (mk_counter ` set (rc_message_keys ch))" using avail that by (simp add: image_comp)
    with that have "i \<in> unat ` (mk_counter ` set (rc_message_keys ch'))" unfolding ch'(4) by auto
    then show ?thesis by (simp add: image_comp)
  qed
  with ch' have "delivery_inv G base k (insert (unat n) R) sb1" unfolding delivery_inv_def by blast
  moreover have "session_cipher_get_or_create_message_keys G sb k ck n = Inr (mk, sb1)"
    using n(2) rem by (simp add: session_cipher_get_or_create_message_keys_def)
  ultimately show ?thesis by blast
qed

lemma delivery_inv_ahead:
  assumes hm: "hmac_sha256_of G hm" and ok: "ck_ok v base"
    and sync: "session_state_find_receiver_chain sb k = Some ch" "rc_chain_key ch = Some ck"
      "chain_inv ck_index (next_ck G) (ck_keys G) mk_counter base ck (rc_message_keys ch)"
    and avail: "\<And>i. \<lbrakk>unat (ck_index base) \<le> i; i < unat (ck_index ck); i \<notin> R\<rbrakk> \<Longrightarrow>
           i \<in> (unat \<circ> mk_counter) ` set (rc_message_keys ch)"
    and n: "ck_index ck \<le> n" "unat n < unat (ck_index base) + MAX_MESSAGE_KEYS" "n \<noteq> - 1"
  shows "\<exists>mk sb1. session_cipher_get_or_create_message_keys G sb k ck n = Inr (mk, sb1) \<and>
    delivery_inv G base k (insert (unat n) R) sb1"
proof -
  have ge: "unat (ck_index ck) \<le> unat n" using n(1) by (simp add: word_le_nat_alt)
  have ckok: "ck_ok v ck" using sync(3) chain_at_ck_ok [OF hm ok] by (auto simp: chain_inv_def)
  have base: "unat (ck_index base) \<le> unat (ck_index ck)"
    using sync(3) by (simp add: chain_inv_def word_le_nat_alt)
  have "unat n - unat (ck_index ck) \<le> 2000" using n(2) base by (simp add: MAX_MESSAGE_KEYS_def)
  then obtain mk sb1 c1 st1 c2 where run: "session_cipher_get_or_create_message_keys G sb k ck n = Inr (mk, sb1)"
    "skip_message_keys G k n ck sb = Inr (c1, st1)" "next_ck G c1 = Inr c2"
    "session_state_set_receiver_chain_key st1 k c2 = Inr sb1" "ck_keys G c1 = Inr mk"
    using get_or_create_message_keys_ahead_total [OF hm ckok sync(1) n(1)] by blast
  from message_keys_ahead [OF sync n(1,3) run(2-5)]
  obtain ch' where ch': "session_state_find_receiver_chain sb1 k = Some ch'" "rc_chain_key ch' = Some c2"
    "chain_inv ck_index (next_ck G) (ck_keys G) mk_counter base c2 (rc_message_keys ch')"
    "rc_message_keys ch' = stored_keys k st1" by blast
  have stored: "stored_keys k sb = rc_message_keys ch" using sync(1) by (simp add: stored_keys_def)
  have "length (rc_message_keys ch) + (unat n - unat (ck_index ck)) \<le> MAX_MESSAGE_KEYS"
    using chain_inv_length [OF sync(3)] ge base n(2) by simp
  then obtain ms where ms: "stored_keys k st1 = rc_message_keys ch @ ms"
    "map (unat \<circ> mk_counter) ms = [unat (ck_index ck)..<unat n]"
    using sk.loop_stores [of sb k ck n G c1 st1] sync(1,2) n(1) run(2) stored
    by (auto simp: session_state_get_receiver_chain_key_def)
  have c2: "unat (ck_index c2) = Suc (unat n)"
    using sk.next_index_unat [OF run(3)] sk.loop_inv [of G base ck k sb n c1 st1] sync(3) n run(2) stored
    by simp
  have "i \<in> (unat \<circ> mk_counter) ` set (rc_message_keys ch')"
    if i: "unat (ck_index base) \<le> i" "i < unat (ck_index c2)" "i \<notin> insert (unat n) R" for i
  proof (cases "i < unat (ck_index ck)")
    case True
    with avail i ch'(4) ms(1) show ?thesis by auto
  next
    case False
    with i c2 have "i \<in> set (map (unat \<circ> mk_counter) ms)" unfolding ms(2) by auto
    with ch'(4) ms(1) show ?thesis by auto
  qed
  with ch' have "delivery_inv G base k (insert (unat n) R) sb1" unfolding delivery_inv_def by blast
  with run(1) show ?thesis by blast
qed

lemma key_available:
  assumes hm: "hmac_sha256_of G hm" and ok: "ck_ok v base" and inv: "delivery_inv G base k R sb"
    and n: "unat (ck_index base) \<le> unat n" "unat n < unat (ck_index base) + MAX_MESSAGE_KEYS" "unat n \<notin> R" "n \<noteq> - 1"
  shows "\<exists>ck mk sb1. session_state_get_receiver_chain_key sb k = Some ck \<and>
    session_cipher_get_or_create_message_keys G sb k ck n = Inr (mk, sb1) \<and>
    message_at (next_ck G) (ck_keys G) base (unat n - unat (ck_index base)) = Inr mk \<and>
    delivery_inv G base k (insert (unat n) R) sb1 \<and> (\<exists>cs. sb1 = sb\<lparr>ss_receiver_chains := cs\<rparr>)"
proof -
  obtain ch ck where sync: "session_state_find_receiver_chain sb k = Some ch" "rc_chain_key ch = Some ck"
      "chain_inv ck_index (next_ck G) (ck_keys G) mk_counter base ck (rc_message_keys ch)"
    and avail: "\<And>i. \<lbrakk>unat (ck_index base) \<le> i; i < unat (ck_index ck); i \<notin> R\<rbrakk> \<Longrightarrow>
           i \<in> (unat \<circ> mk_counter) ` set (rc_message_keys ch)"
    using inv by (auto simp: delivery_inv_def)
  have get: "session_state_get_receiver_chain_key sb k = Some ck" and rs: "receiver_in_sync G base k sb"
    using sync by (auto simp: session_state_get_receiver_chain_key_def receiver_in_sync_def)
  have "\<exists>mk sb1. session_cipher_get_or_create_message_keys G sb k ck n = Inr (mk, sb1) \<and>
      delivery_inv G base k (insert (unat n) R) sb1"
  proof (cases "n < ck_index ck")
    case True
    show ?thesis by (rule delivery_inv_stored [OF sync avail n(1) True n(3)])
  next
    case False
    then show ?thesis by (intro delivery_inv_ahead [OF hm ok sync avail _ n(2,4)]) auto
  qed
  with get_or_create_message_keys_sync [OF rs get n(4)] get show ?thesis by blast
qed

text \<open>Runs: a sender's messages in order, a receiver's in the order of arrival.\<close>

fun send_all :: "signal_context \<Rightarrow> session_state \<Rightarrow> bytes list \<Rightarrow> (signal_message list \<times> session_state) result" where
  "send_all G sa [] = Inr ([], sa)"
| "send_all G sa (p # ps) =
     (case encrypt_from_state G sa p of Inl e \<Rightarrow> Inl e
      | Inr (em, sa1) \<Rightarrow>
         (case send_all G sa1 ps of Inl e \<Rightarrow> Inl e | Inr (ms, sa2) \<Rightarrow> Inr (signal_part em # ms, sa2)))"

fun receive_all ::
  "signal_context \<Rightarrow> session_state \<Rightarrow> signal_message list \<Rightarrow> rng \<Rightarrow> (bytes list \<times> session_state) result \<times> rng" where
  "receive_all G sb [] r = (Inr ([], sb), r)"
| "receive_all G sb (m # ms) r =
     (case session_cipher_decrypt_from_state_and_signal_message G sb m r of
        (Inl e, r1) \<Rightarrow> (Inl e, r1)
      | (Inr (p, sb1), r1) \<Rightarrow>
         (case receive_all G sb1 ms r1 of
            (Inl e, r2) \<Rightarrow> (Inl e, r2)
          | (Inr (ps, sb2), r2) \<Rightarrow> (Inr (p # ps, sb2), r2)))"

text \<open>The chain a sender is on, at or after \<open>base\<close>.\<close>

definition sender_on ::
  "signal_context \<Rightarrow> ratchet_chain_key \<Rightarrow> ec_public_key \<Rightarrow> u32 \<Rightarrow> ec_public_key \<Rightarrow> ec_public_key
     \<Rightarrow> nat \<Rightarrow> session_state \<Rightarrow> bool" where
  "sender_on G base k v A B i sa \<longleftrightarrow>
     session_state_get_sender_ratchet_key sa = Some k \<and> ss_session_version sa = v \<and>
     ss_local_identity_public sa = Some A \<and> ss_remote_identity_public sa = Some B \<and>
     (\<exists>ck. sc_chain_key (ss_sender_chain sa) = Some ck \<and> unat (ck_index ck) = i \<and>
        chain_inv ck_index (next_ck G) (ck_keys G) mk_counter base ck [])"

lemma encrypt_sent:
  assumes on: "sender_on G base k v A B i sa" and i: "i < 2 ^ 32 - 1"
    and enc: "encrypt_from_state G sa p = Inr (em, sa1)"
  shows "sent_as G base k v A B (signal_part em) p \<and> unat (sm_counter (signal_part em)) = i
    \<and> sender_on G base k v A B (Suc i) sa1"
proof -
  from on obtain ck where ck: "sc_chain_key (ss_sender_chain sa) = Some ck" "unat (ck_index ck) = i"
    "chain_inv ck_index (next_ck G) (ck_keys G) mk_counter base ck []"
    by (auto simp: sender_on_def)
  obtain mk ct nx where
    mk: "ck_keys G ck = Inr mk" and ct: "session_cipher_get_ciphertext G v mk p = Inr ct"
    and m: "signal_message_create G (ucast v) (mk_mac_key mk) k (ck_index ck) (ss_previous_counter sa) ct A B
      = Inr (signal_part em)"
    and nx: "next_ck G ck = Inr nx"
    and sa1: "sa1 = sa\<lparr>ss_sender_chain := (ss_sender_chain sa)\<lparr>sc_chain_key := Some nx\<rparr>\<rparr>"
    by (rule encrypt_from_state_cases [OF enc]) (use on ck(1) in \<open>auto simp: sender_on_def\<close>)
  note f = signal_message_create_fields [OF m]
  have at: "chain_at (next_ck G) base (i - unat (ck_index base)) = Inr ck" and le: "unat (ck_index base) \<le> i"
    using ck(2,3) by (auto simp: chain_inv_def word_le_nat_alt)
  have "ck_index ck \<noteq> - 1" using ck(2) i by (auto simp: unsigned_minus_1_eq_mask mask_eq_exp_minus_1)
  then have nxi: "unat (ck_index nx) = Suc i" using sk.next_index_unat [OF nx] ck(2) by simp
  have "chain_at (next_ck G) base (Suc i - unat (ck_index base)) = Inr nx"
    using chain_at_step [OF at nx] le by (simp add: Suc_diff_le)
  then have "chain_inv ck_index (next_ck G) (ck_keys G) mk_counter base nx []"
    using nxi le by (simp add: chain_inv_def word_le_nat_alt)
  moreover have "sent_as G base k v A B (signal_part em) p"
    using f mk ct m at ck(2) ratchet_chain_key_get_message_keys_ok [OF mk]
    by (auto simp: sent_as_def message_at_def)
  ultimately show ?thesis
    using on f ck(2) nxi by (simp add: sender_on_def sa1 session_state_get_sender_ratchet_key_def)
qed

lemma send_all_sent:
  assumes "sender_on G base k v A B i sa" "i + length ps \<le> 2 ^ 32 - 1" "send_all G sa ps = Inr (ms, sa')"
  shows "list_all2 (sent_as G base k v A B) ms ps \<and> map (unat \<circ> sm_counter) ms = [i..<i + length ps]"
  using assms
proof (induction ps arbitrary: i sa ms)
  case Nil
  then show ?case by simp
next
  case (Cons p ps)
  then obtain em sa1 ms1 where e: "encrypt_from_state G sa p = Inr (em, sa1)"
    "send_all G sa1 ps = Inr (ms1, sa')" "ms = signal_part em # ms1"
    by (auto simp: result_simps)
  have s: "sent_as G base k v A B (signal_part em) p \<and> unat (sm_counter (signal_part em)) = i
    \<and> sender_on G base k v A B (Suc i) sa1"
    using Cons.prems by (intro encrypt_sent [OF _ _ e(1)]) simp_all
  moreover have "[i..<i + length (p # ps)] = i # [Suc i..<Suc i + length ps]"
    by (simp add: upt_conv_Cons del: upt_Suc)
  ultimately show ?case
    using Cons.IH [of "Suc i" sa1 ms1] Cons.prems e by (simp del: upt_Suc)
qed

lemma delivery_inv_clear:
  "delivery_inv G base k R (session_state_clear_unacknowledged_pre_key_message sb) = delivery_inv G base k R sb"
  by (simp add: delivery_inv_def session_state_find_receiver_chain_def
      session_state_clear_unacknowledged_pre_key_message_def)

lemma paired_frame:
  "paired v A B (session_state_clear_unacknowledged_pre_key_message (sb\<lparr>ss_receiver_chains := cs\<rparr>)) = paired v A B sb"
  by (simp add: paired_def session_state_clear_unacknowledged_pre_key_message_def)

lemma receive_step:
  assumes "hmac_sha256_of G hm" "cipher_inverse G" "ck_ok v base"
    and "delivery_inv G base k R sb" "paired v A B sb" "sent_as G base k v A B m p"
    and "unat (ck_index base) \<le> unat (sm_counter m)"
      "unat (sm_counter m) < unat (ck_index base) + MAX_MESSAGE_KEYS" "unat (sm_counter m) \<notin> R" "sm_counter m \<noteq> - 1"
  shows "\<exists>sb1. session_cipher_decrypt_from_state_and_signal_message G sb m r = (Inr (p, sb1), r) \<and>
    delivery_inv G base k (insert (unat (sm_counter m)) R) sb1 \<and> paired v A B sb1"
proof -
  from key_available [OF assms(1,3,4,7-10)] obtain ck mk sb0
    where a: "session_state_get_receiver_chain_key sb k = Some ck"
      "session_cipher_get_or_create_message_keys G sb k ck (sm_counter m) = Inr (mk, sb0)"
      "message_at (next_ck G) (ck_keys G) base (unat (sm_counter m) - unat (ck_index base)) = Inr mk"
      "delivery_inv G base k (insert (unat (sm_counter m)) R) sb0"
      and f: "\<exists>cs. sb0 = sb\<lparr>ss_receiver_chains := cs\<rparr>" by blast
  from decrypt_sent [OF assms(2,6,5) a(1-3) f] a(4) f assms(5) show ?thesis
    by (auto simp: delivery_inv_clear paired_frame)
qed

lemma receive_all_any_order:
  assumes "hmac_sha256_of G hm" "cipher_inverse G" "ck_ok v base"
    and "delivery_inv G base k R sb" "paired v A B sb"
    and "\<forall>(m, p) \<in> set xs. sent_as G base k v A B m p"
    and "distinct (map (unat \<circ> sm_counter \<circ> fst) xs)"
    and "(unat \<circ> sm_counter \<circ> fst) ` set xs \<subseteq> {unat (ck_index base)..<unat (ck_index base) + n}"
    and "R \<inter> (unat \<circ> sm_counter \<circ> fst) ` set xs = {}"
    and "n \<le> MAX_MESSAGE_KEYS" "unat (ck_index base) + n \<le> 2 ^ 32 - 1"
  shows "\<exists>sb'. receive_all G sb (map fst xs) r = (Inr (map snd xs, sb'), r)"
  using assms(4-9)
proof (induction xs arbitrary: R sb)
  case Nil
  then show ?case by simp
next
  case (Cons x xs)
  obtain m p where x: "x = (m, p)" by (cases x)
  have b: "unat (ck_index base) \<le> unat (sm_counter m)" "unat (sm_counter m) < unat (ck_index base) + n"
    "unat (sm_counter m) \<notin> R" using Cons.prems x by auto
  have "unat (sm_counter m) \<noteq> unat (- 1 :: u32)"
    using b(2) assms(11) by (simp add: unsigned_minus_1_eq_mask mask_eq_exp_minus_1)
  then have "sm_counter m \<noteq> - 1" by auto
  with b assms(10) Cons.prems x obtain sb1
    where s: "session_cipher_decrypt_from_state_and_signal_message G sb m r = (Inr (p, sb1), r)"
      "delivery_inv G base k (insert (unat (sm_counter m)) R) sb1" "paired v A B sb1"
    using receive_step [OF assms(1-3) Cons.prems(1,2), of m p r] by auto
  have "\<exists>sb'. receive_all G sb1 (map fst xs) r = (Inr (map snd xs, sb'), r)"
    using Cons.prems x s(2,3) by (intro Cons.IH [of "insert (unat (sm_counter m)) R"]) auto
  with s(1) x show ?case by auto
qed

end
