(* ===== verification/Conversation.thy ===== *)
theory Conversation
  imports Session_Handlers
begin

text \<open>
  Two parties in conversation: a party that is set up can always encrypt, the other one
  decrypts everything that was sent on a chain whatever the order of arrival, also when
  the first message to arrive turns the Diffie-Hellman ratchet, and the handlers do so
  through their stores.
\<close>

section \<open>Sending never gets stuck\<close>

definition can_send :: "u32 \<Rightarrow> ec_public_key \<Rightarrow> ec_public_key \<Rightarrow> session_state \<Rightarrow> bool" where
  "can_send v A B sa \<longleftrightarrow>
     ss_ok sa \<and> (v = 2 \<or> v = 3) \<and> ss_session_version sa = v \<and> ss_has_sender_chain sa \<and>
     sc_chain_key (ss_sender_chain sa) \<noteq> None \<and> sc_sender_ratchet_key_pair (ss_sender_chain sa) \<noteq> None \<and>
     ss_local_identity_public sa = Some A \<and> ss_remote_identity_public sa = Some B \<and>
     (ss_has_pending_pre_key sa \<longrightarrow> ppk_base_key (ss_pending_pre_key sa) \<noteq> None)"

lemma pre_key_signal_message_create_total:
  "\<exists>pm. pre_key_signal_message_create v rid pid sid bk ik m = Inr pm"
  by (simp add: pre_key_signal_message_create_def pre_key_signal_message_serialize_def
      ec_public_key_serialize_protobuf_def wpk.serialize_ok)

lemma get_ciphertext_total:
  assumes "cipher_inverse G" "mk_ok mk"
  shows "\<exists>ct. session_cipher_get_ciphertext G v mk p = Inr ct"
proof -
  have "\<exists>ct. encrypt_func G c (mk_cipher_key mk) iv p = Inr ct" if "length iv = 16" for c iv
    using assms that unfolding cipher_inverse_def mk_ok_def by blast
  with assms(2) show ?thesis
    by (simp add: session_cipher_get_ciphertext_def signal_encrypt_def mk_ok_def counter_iv_length)
qed

lemma encrypt_from_state_total:
  assumes hm: "hmac_sha256_of G hm" and inv: "cipher_inverse G" and can: "can_send v A B sa"
  shows "\<exists>em sa'. encrypt_from_state G sa p = Inr (em, sa') \<and> can_send v A B sa'"
proof -
  obtain ck kp where ck0: "sc_chain_key (ss_sender_chain sa) = Some ck"
    and kp: "sc_sender_ratchet_key_pair (ss_sender_chain sa) = Some kp"
    using can by (auto simp: can_send_def)
  then have ck: "sc_chain_key (ss_sender_chain sa) = Some ck" "ck_ok v ck"
    using can by (auto simp add: can_send_def ss_ok_def sc_ok_def simp del: not_None_eq)
  obtain mk where mk: "ck_keys G ck = Inr mk"
    using ratchet_chain_key_get_message_keys_total [OF hm ck(2)] by blast
  obtain ct where ct: "session_cipher_get_ciphertext G v mk p = Inr ct"
    using get_ciphertext_total [OF inv] ratchet_chain_key_get_message_keys_ok [OF mk] by blast
  obtain m where m: "signal_message_create G (ucast v) (mk_mac_key mk) (kp_public_key kp) (ck_index ck)
      (ss_previous_counter sa) ct A B = Inr m"
    using signal_message_create_total [OF hm] by blast
  obtain nx where nx: "next_ck G ck = Inr nx" using ratchet_chain_key_create_next_hmac [OF hm] by blast
  obtain bk pm where pm: "ss_has_pending_pre_key sa \<longrightarrow> ppk_base_key (ss_pending_pre_key sa) = Some bk \<and>
      pre_key_signal_message_create (ucast v) (ss_local_registration_id sa)
        (if ppk_has_pre_key_id (ss_pending_pre_key sa) then Some (ppk_pre_key_id (ss_pending_pre_key sa)) else None)
        (ppk_signed_pre_key_id (ss_pending_pre_key sa)) bk A m = Inr pm"
    using can pre_key_signal_message_create_total unfolding can_send_def by (metis not_Some_eq)
  obtain em sa' where run: "encrypt_from_state G sa p = Inr (em, sa')"
    "sa' = sa\<lparr>ss_sender_chain := (ss_sender_chain sa)\<lparr>sc_chain_key := Some nx\<rparr>\<rparr>"
    using can ck kp mk ct m nx pm
    by (cases "ss_has_pending_pre_key sa")
       (auto simp: encrypt_from_state_def can_send_def session_state_get_sender_ratchet_key_def Let_def
         session_state_set_sender_chain_key_def)
  have "ss_ok sa'" using encrypt_from_state_ok [OF hm _ run(1)] can by (simp add: can_send_def)
  with run can have "can_send v A B sa'" by (simp add: can_send_def)
  with run(1) show ?thesis by blast
qed

lemma send_all_total:
  assumes hm: "hmac_sha256_of G hm" and inv: "cipher_inverse G" and can: "can_send v A B sa"
  shows "\<exists>ms sa'. send_all G sa ps = Inr (ms, sa') \<and> can_send v A B sa'"
  using can
proof (induction ps arbitrary: sa)
  case (Cons p ps)
  obtain em sa1 where e: "encrypt_from_state G sa p = Inr (em, sa1)" "can_send v A B sa1"
    using encrypt_from_state_total [OF hm inv Cons.prems] by blast
  with Cons.IH [OF e(2)] show ?case by auto
qed simp

section \<open>The first message of a chain\<close>

text \<open>After the Diffie-Hellman step the message is treated as one of a known chain.\<close>

lemma turn_frame:
  assumes "session_cipher_get_or_create_chain_key G sb k r = (Inr (ck, sb1), r1)"
  shows "ss_session_version sb1 = ss_session_version sb \<and>
    ss_remote_identity_public sb1 = ss_remote_identity_public sb \<and>
    ss_local_identity_public sb1 = ss_local_identity_public sb \<and>
    (ss_has_sender_chain sb \<longrightarrow> ss_has_sender_chain sb1)"
  using assms
  by (cases rule: get_or_create_chain_key_cases)
     (auto simp: session_state_set_sender_chain_def session_state_set_previous_counter_def
       session_state_add_receiver_chain_def session_state_set_root_key_def)

lemma find_after_turn:
  assumes "session_state_find_receiver_chain sb k = None" "pub_ok k"
    and "session_cipher_get_or_create_chain_key G sb k r = (Inr (ck, sb1), r1)"
  shows "session_state_find_receiver_chain sb1 k
    = Some \<lparr>rc_sender_ratchet_key = Some k, rc_chain_key = Some ck, rc_message_keys = []\<rparr>"
  using assms(3)
proof (cases rule: get_or_create_chain_key_cases)
  case known
  with assms(1) show ?thesis by (simp add: session_state_get_receiver_chain_key_def)
next
  case (turn rk pb rk1 pb' rk2 ck1 cks)
  have "session_state_find_receiver_chain (session_state_add_receiver_chain k ck (session_state_set_root_key rk2 sb)) k
      = Some \<lparr>rc_sender_ratchet_key = Some k, rc_chain_key = Some ck, rc_message_keys = []\<rparr>"
    using assms(1,2) by (intro find_add_receiver_chain)
      (simp_all add: session_state_find_receiver_chain_def session_state_set_root_key_def)
  then show ?thesis
    unfolding turn(8) by (simp add: session_state_find_receiver_chain_def session_state_set_sender_chain_def
        session_state_set_previous_counter_def)
qed

lemma decrypt_after_turn:
  assumes new: "session_state_find_receiver_chain sb k = None" "pub_ok k" "ss_has_sender_chain sb"
    and turn: "session_cipher_get_or_create_chain_key G sb k r = (Inr (ck, sb1), r1)"
    and m: "sm_sender_ratchet_key m = k" "ucast (sm_message_version m) = ss_session_version sb"
  shows "session_cipher_decrypt_from_state_and_signal_message G sb m r
    = session_cipher_decrypt_from_state_and_signal_message G sb1 m r1"
proof -
  have "session_cipher_get_or_create_chain_key G sb1 k r1 = (Inr (ck, sb1), r1)"
    using find_after_turn [OF new(1,2) turn]
    by (simp add: session_cipher_get_or_create_chain_key_def session_state_get_receiver_chain_key_def)
  with turn_frame [OF turn] new(3) turn m show ?thesis
    by (simp add: session_cipher_decrypt_from_state_and_signal_message_def)
qed

lemma turn_delivery:
  assumes "session_state_find_receiver_chain sb k = None" "pub_ok k" "paired v A B sb"
    and "session_cipher_get_or_create_chain_key G sb k r = (Inr (ck, sb1), r1)"
  shows "delivery_inv G ck k {} sb1 \<and> paired v A B sb1"
proof -
  have "chain_inv ck_index (next_ck G) (ck_keys G) mk_counter ck ck []" by (simp add: chain_inv_def)
  with find_after_turn [OF assms(1,2,4)] have "delivery_inv G ck k {} sb1" by (simp add: delivery_inv_def)
  with turn_frame [OF assms(4)] assms(3) show ?thesis by (simp add: paired_def)
qed

text \<open>The step itself cannot fail when the parties are linked and randomness is available.\<close>

lemma turn_total:
  assumes hm: "hmac_sha256_of G hm" and dh: "curve25519_dh G" and link: "dh_linked G ck0 sa sb"
    and ok: "ss_ok sb" "sc_chain_key (ss_sender_chain sb) \<noteq> None"
    and k: "session_state_get_sender_ratchet_key sa = Some k"
    and new: "session_state_find_receiver_chain sb k = None"
    and rnd: "curve_generate_key_pair G r = (Inr pb', r1)"
  shows "\<exists>sb1. session_cipher_get_or_create_chain_key G sb k r = (Inr (ck0, sb1), r1)"
proof -
  obtain rk rk' pa pb where l: "ss_root_key sb = Some rk" "sc_sender_ratchet_key_pair (ss_sender_chain sb) = Some pb"
    "sc_sender_ratchet_key_pair (ss_sender_chain sa) = Some pa" "key_pair_ok G pa" "key_pair_ok G pb"
    "ratchet_root_key_create_chain G rk (Some (kp_public_key pb)) (Some (kp_private_key pa)) = Inr (rk', ck0)"
    using link by (auto simp: dh_linked_def)
  have kp: "k = kp_public_key pa" using k l(3) by (simp add: session_state_get_sender_ratchet_key_def)
  have first: "ratchet_root_key_create_chain G rk (Some k) (Some (kp_private_key pb)) = Inr (rk', ck0)"
    using root_key_create_chain_commute [OF dh l(4,5), of rk] l(6) kp by simp
  have "rk_ok (ss_session_version sb) rk" using ok(1) l(1) by (simp add: ss_ok_def)
  then have "rk_ok (ss_session_version sb) rk'"
    using ratchet_root_key_create_chain_total [OF hm dh, of _ rk k "kp_private_key pb"] first
      key_pair_okD [OF l(4)] key_pair_okD [OF l(5)] kp by auto
  then obtain rk2 ck1 where "ratchet_root_key_create_chain G rk' (Some k) (Some (kp_private_key pb')) = Inr (rk2, ck1)"
    using ratchet_root_key_create_chain_total [OF hm dh] kp key_pair_okD [OF l(4)]
      key_pair_okD [OF curve_generate_key_pair_ok [OF dh rnd]] by blast
  with new l first rnd ok(2) show ?thesis
    by (auto simp: session_cipher_get_or_create_chain_key_def session_state_get_receiver_chain_key_def Let_def)
qed

section \<open>Delivery\<close>

text \<open>Every order in which the messages of one chain, or some of them, can arrive.\<close>

lemma receive_all_sent:
  assumes hm: "hmac_sha256_of G hm" and inv: "cipher_inverse G" and ok: "ck_ok v base"
    and del: "delivery_inv G base k {} sb" "paired v A B sb"
    and on: "sender_on G base k v A B (unat (ck_index base)) sa"
    and len: "length ps \<le> MAX_MESSAGE_KEYS" "unat (ck_index base) + length ps \<le> 2 ^ 32 - 1"
    and sent: "send_all G sa ps = Inr (ms, sa')"
    and arrive: "mset xs \<subseteq># mset (zip ms ps)"
  shows "\<exists>sb'. receive_all G sb (map fst xs) r = (Inr (map snd xs, sb'), r)"
proof -
  let ?c = "unat \<circ> sm_counter"
  have all: "list_all2 (sent_as G base k v A B) ms ps"
    "map ?c ms = [unat (ck_index base)..<unat (ck_index base) + length ps]"
    using send_all_sent [OF on len(2) sent] by auto
  note arr = arrivals [OF all arrive]
  show ?thesis
    by (rule receive_all_any_order [OF hm inv ok del arr(3,1,2) _ len]) simp
qed

lemma sender_on_start:
  assumes "can_send v A B sa" "session_state_get_sender_ratchet_key sa = Some k"
    and "sc_chain_key (ss_sender_chain sa) = Some base"
  shows "sender_on G base k v A B (unat (ck_index base)) sa" "ck_ok v base" "pub_ok k"
  using assms by (auto simp: sender_on_def can_send_def chain_inv_def ss_ok_def sc_ok_def kp_ok_def
      session_state_get_sender_ratchet_key_def simp del: not_None_eq split: option.splits)

text \<open>
  The whole of a chain's traffic between linked parties: the receiver does not know the
  chain yet, and the first message to arrive, whichever it is, makes it known.
\<close>

lemma receive_all_linked:
  assumes hm: "hmac_sha256_of G hm" and inv: "cipher_inverse G" and dh: "curve25519_dh G"
    and link: "dh_linked G ck0 sa sb" "sc_chain_key (ss_sender_chain sa) = Some ck0"
    and k: "session_state_get_sender_ratchet_key sa = Some k" "session_state_find_receiver_chain sb k = None"
    and can: "can_send v A B sa" "can_send v B A sb"
    and rnd: "curve_generate_key_pair G r = (Inr pb, r1)"
    and len: "length ps \<le> MAX_MESSAGE_KEYS" "unat (ck_index ck0) + length ps \<le> 2 ^ 32 - 1"
    and sent: "send_all G sa ps = Inr (ms, sa')"
    and arrive: "mset xs \<subseteq># mset (zip ms ps)" "xs \<noteq> []"
  shows "\<exists>sb'. receive_all G sb (map fst xs) r = (Inr (map snd xs, sb'), r1)"
proof -
  have paired: "paired v A B sb" using can(2) by (auto simp: can_send_def paired_def)
  have okb: "ss_ok sb" "sc_chain_key (ss_sender_chain sb) \<noteq> None" using can(2) by (auto simp: can_send_def)
  note on = sender_on_start [OF can(1) k(1) link(2)]
  obtain sb1 where turn: "session_cipher_get_or_create_chain_key G sb k r = (Inr (ck0, sb1), r1)"
    using turn_total [OF hm dh link(1) okb k rnd] by blast
  have del: "delivery_inv G ck0 k {} sb1" "paired v A B sb1"
    using turn_delivery [OF k(2) on(3) paired turn] by auto
  obtain m p ys where xs: "xs = (m, p) # ys" using arrive(2) by (metis list.exhaust surj_pair)
  have "(m, p) \<in> set (zip ms ps)" using arrive(1) xs by (auto dest: set_mset_mono)
  then have "sent_as G ck0 k v A B m p"
    using send_all_sent [OF on(1) len(2) sent] by (auto simp: list_all2_iff)
  then have "sm_sender_ratchet_key m = k" "sm_message_version m = ucast v"
    by (auto simp: sent_as_def dest!: signal_message_create_fields)
  moreover have "ss_session_version sb = v" "(ucast (ucast v :: u8) :: u32) = v" "ss_has_sender_chain sb"
    using paired version_casts [of v] by (auto simp: paired_def)
  ultimately have "session_cipher_decrypt_from_state_and_signal_message G sb m r
      = session_cipher_decrypt_from_state_and_signal_message G sb1 m r1"
    by (intro decrypt_after_turn [OF k(2) on(3) _ turn]) simp_all
  then have "receive_all G sb (map fst xs) r = receive_all G sb1 (map fst xs) r1" by (simp add: xs)
  with receive_all_sent [OF hm inv on(2) del on(1) len sent arrive(1), of r1] show ?thesis by simp
qed

section \<open>Replays\<close>

definition synced :: "signal_context \<Rightarrow> ec_public_key \<Rightarrow> session_state \<Rightarrow> bool" where
  "synced G k st \<longleftrightarrow> session_state_find_receiver_chain st k = None \<or> (\<exists>base. receiver_in_sync G base k st)"

lemma find_clear [simp]:
  "session_state_find_receiver_chain (session_state_clear_unacknowledged_pre_key_message st) k
    = session_state_find_receiver_chain st k"
  by (simp add: session_state_find_receiver_chain_def session_state_clear_unacknowledged_pre_key_message_def)

lemma clear_frame [simp]:
  "ss_has_sender_chain (session_state_clear_unacknowledged_pre_key_message st) = ss_has_sender_chain st"
  "ss_session_version (session_state_clear_unacknowledged_pre_key_message st) = ss_session_version st"
  by (simp_all add: session_state_clear_unacknowledged_pre_key_message_def)

lemma remove_message_keys_clear:
  "fst (session_state_remove_message_keys (session_state_clear_unacknowledged_pre_key_message st) k n)
    = fst (session_state_remove_message_keys st k n)"
  by (simp add: session_state_remove_message_keys_def split: option.split)

lemma duplicate_clear:
  assumes "session_cipher_get_or_create_message_keys G st k ck n = Inl SG_ERR_DUPLICATE_MESSAGE" "n < ck_index ck"
  shows "session_cipher_get_or_create_message_keys G (session_state_clear_unacknowledged_pre_key_message st) k ck n
    = Inl SG_ERR_DUPLICATE_MESSAGE"
  using assms remove_message_keys_clear [of st k n]
  by (auto simp: session_cipher_get_or_create_message_keys_def split: prod.splits option.splits)

lemma chain_known:
  assumes sync: "synced G k sb" and k: "pub_ok k"
    and run: "session_cipher_get_or_create_chain_key G sb k r = (Inr (ck, sb1), r1)"
  shows "(\<exists>base. receiver_in_sync G base k sb1) \<and> session_state_get_receiver_chain_key sb1 k = Some ck"
proof (cases "session_state_find_receiver_chain sb k")
  case None
  have "chain_inv ck_index (next_ck G) (ck_keys G) mk_counter ck ck []" by (simp add: chain_inv_def)
  with find_after_turn [OF None k run] show ?thesis
    by (auto simp: receiver_in_sync_def session_state_get_receiver_chain_key_def)
next
  case (Some ch)
  with sync run show ?thesis
    by (auto simp: synced_def receiver_in_sync_def session_state_get_receiver_chain_key_def
        session_cipher_get_or_create_chain_key_def)
qed

lemma replay_refused:
  assumes sync: "synced G (sm_sender_ratchet_key m) sb" and k: "pub_ok (sm_sender_ratchet_key m)"
    and n: "sm_counter m \<noteq> - 1"
    and run: "session_cipher_decrypt_from_state_and_signal_message G sb m r = (Inr (p, sb'), r')"
  shows "session_cipher_decrypt_from_state_and_signal_message G sb' m r'' = (Inl SG_ERR_DUPLICATE_MESSAGE, r'')"
proof -
  let ?k = "sm_sender_ratchet_key m"
  obtain ck st1 mk st2 where s: "ss_has_sender_chain sb" "ucast (sm_message_version m) = ss_session_version sb"
    and c: "session_cipher_get_or_create_chain_key G sb ?k r = (Inr (ck, st1), r')"
    and g: "session_cipher_get_or_create_message_keys G st1 ?k ck (sm_counter m) = Inr (mk, st2)"
    and sb': "sb' = session_state_clear_unacknowledged_pre_key_message st2"
    by (rule decrypt_from_state_cases [OF run])
  obtain base where b: "receiver_in_sync G base ?k st1" "session_state_get_receiver_chain_key st1 ?k = Some ck"
    using chain_known [OF sync k c] by blast
  obtain cs where st2: "receiver_in_sync G base ?k st2" "st2 = st1\<lparr>ss_receiver_chains := cs\<rparr>"
    using get_or_create_message_keys_sync [OF b n g] by blast
  obtain ck' where ck': "session_state_get_receiver_chain_key st2 ?k = Some ck'"
    using st2(1) by (auto simp: receiver_in_sync_def session_state_get_receiver_chain_key_def)
  have dup: "sm_counter m < ck_index ck'"
    "session_cipher_get_or_create_message_keys G st2 ?k ck' (sm_counter m) = Inl SG_ERR_DUPLICATE_MESSAGE"
    using get_or_create_message_keys_once [OF b n g ck'] by auto
  note dup' = duplicate_clear [OF dup(2,1)]
  have "session_cipher_get_or_create_chain_key G sb' ?k r'' = (Inr (ck', sb'), r'')"
    using ck' by (simp add: session_cipher_get_or_create_chain_key_def session_state_get_receiver_chain_key_def sb')
  moreover have "ss_has_sender_chain sb'" "ss_session_version sb' = ss_session_version sb"
    using turn_frame [OF c] s st2(2) by (simp_all add: sb')
  ultimately show ?thesis
    using s dup' by (simp add: session_cipher_decrypt_from_state_and_signal_message_def sb')
qed

text \<open>The same for a record, whichever of its states decrypted the message.\<close>

lemma decrypt_from_previous_states_cases:
  assumes "list_all ss_ok sts" "decrypt_from_previous_states G rec m i sts r = (Inr (p, rec'), r')"
  obtains st st' r0 where "st \<in> set sts"
    "session_cipher_decrypt_from_state_and_signal_message G st m r0 = (Inr (p, st'), r')" "sr_state rec' = Some st'"
  using assms
proof (induction sts arbitrary: i r thesis)
  case (Cons st sts)
  then have st: "ss_ok st" by simp
  obtain res r1 where d: "session_cipher_decrypt_from_state_and_signal_message G st m r = (res, r1)"
    by (cases "session_cipher_decrypt_from_state_and_signal_message G st m r")
  show ?case
  proof (cases res)
    case (Inl e)
    with Cons.prems(3) d have "decrypt_from_previous_states G rec m (Suc i) sts r1 = (Inr (p, rec'), r')"
      by (simp add: session_state_copy_id [OF st] split: if_splits)
    moreover have "list_all ss_ok sts" using Cons.prems(2) by simp
    ultimately show ?thesis using Cons.IH Cons.prems(1) by (metis list.set_intros(2))
  next
    case (Inr ps)
    then obtain q st' where "ps = (q, st')" by (cases ps)
    with Cons.prems(3) d Inr show ?thesis
      by (intro Cons.prems(1) [of st r st'])
         (auto simp: session_state_copy_id [OF st] session_record_promote_state_def)
  qed
qed simp

lemma decrypt_from_record_cases:
  assumes ok: "sr_ok rec"
    and run: "session_cipher_decrypt_from_record_and_signal_message G rec m r = (Inr (p, rec'), r')"
  obtains st st' r0 where "sr_state rec = Some st \<or> st \<in> set (sr_previous_states rec)"
    "session_cipher_decrypt_from_state_and_signal_message G st m r0 = (Inr (p, st'), r')" "sr_state rec' = Some st'"
proof -
  obtain cur where cur: "sr_state rec = Some cur" "ss_ok cur" and prev: "list_all ss_ok (sr_previous_states rec)"
    using ok by (auto simp: sr_ok_def)
  obtain res r1 where d: "session_cipher_decrypt_from_state_and_signal_message G cur m r = (res, r1)"
    by (cases "session_cipher_decrypt_from_state_and_signal_message G cur m r")
  show thesis
  proof (cases res)
    case (Inl e)
    with d run cur have "decrypt_from_previous_states G rec m 0 (sr_previous_states rec) r1 = (Inr (p, rec'), r')"
      by (simp add: session_cipher_decrypt_from_record_and_signal_message_def session_state_copy_id split: if_splits)
    then show ?thesis by (rule decrypt_from_previous_states_cases [OF prev]) (use that in blast)
  next
    case (Inr ps)
    then obtain q st' where "ps = (q, st')" by (cases ps)
    with d Inr run cur show ?thesis
      by (intro that [of cur r st'])
         (auto simp: session_cipher_decrypt_from_record_and_signal_message_def session_state_copy_id
           session_record_set_state_def)
  qed
qed

lemma record_replay_refused:
  assumes hm: "hmac_sha256_of G hm" and dh: "curve25519_dh G" and ok: "sr_ok rec"
    and k: "pub_ok (sm_sender_ratchet_key m)" and n: "sm_counter m \<noteq> - 1"
    and sync: "\<And>st. \<lbrakk>sr_state rec = Some st \<or> st \<in> set (sr_previous_states rec)\<rbrakk> \<Longrightarrow>
      synced G (sm_sender_ratchet_key m) st"
    and run: "session_cipher_decrypt_from_record_and_signal_message G rec m r = (Inr (p, rec'), r')"
    and same: "sr_state rec'' = sr_state rec'"
  shows "session_cipher_decrypt_from_record_and_signal_message G rec'' m r'' = (Inl SG_ERR_DUPLICATE_MESSAGE, r'')"
proof -
  obtain st st' r0 where st: "sr_state rec = Some st \<or> st \<in> set (sr_previous_states rec)"
    and d: "session_cipher_decrypt_from_state_and_signal_message G st m r0 = (Inr (p, st'), r')"
    and st': "sr_state rec' = Some st'"
    by (rule decrypt_from_record_cases [OF ok run])
  have "ss_ok st'" using decrypt_from_record_ok [OF hm dh k ok run] st' by (simp add: sr_ok_def)
  with replay_refused [OF sync [OF st] k n d] st' same show ?thesis
    by (simp add: session_cipher_decrypt_from_record_and_signal_message_def session_state_copy_id)
qed

section \<open>The handlers and their stores\<close>

text \<open>The contents of a session store entry that a handler loads.\<close>

definition holds_record ::
  "'s signal_protocol_session_store \<Rightarrow> ('s \<Rightarrow> signal_protocol_address \<Rightarrow> bytes option)
     \<Rightarrow> signal_protocol_address \<Rightarrow> session_record \<Rightarrow> 's \<Rightarrow> bool" where
  "holds_record S get a rec s \<longleftrightarrow>
     session_store_of S get \<and> sr_ok rec \<and> (\<exists>d. get s a = Some d \<and> session_record_deserialize d = Inr rec)"

lemma holds_record_load:
  "holds_record S get a rec s \<Longrightarrow>
     contains_session_func S a s = (1, s) \<and> signal_protocol_session_load_session S a s = (Inr rec, s)"
  by (auto simp: holds_record_def load_session_of) (auto simp: session_store_of_def)

lemma holds_record_store:
  assumes "session_store_of S get" "sr_ok rec"
  shows "\<exists>s'. signal_protocol_session_store_session S a rec s = (Inr (), s') \<and>
    holds_record S get a (rec\<lparr>sr_is_fresh := False\<rparr>) s' \<and> (\<forall>b. b \<noteq> a \<longrightarrow> get s' b = get s b)"
proof -
  obtain s' d where s': "signal_protocol_session_store_session S a rec s = (Inr (), s')"
    "session_record_serialize (Some rec) = Inr d" "get s' = (get s)(a := Some d)"
    using store_session_total [OF assms] by blast
  have "sr_ok (rec\<lparr>sr_is_fresh := False\<rparr>)" using assms(2) by (simp add: sr_ok_def)
  with s' assms session_record_roundtrip [OF assms(2) s'(2)] show ?thesis
    by (auto simp: holds_record_def)
qed

lemma encrypt_handler:
  assumes hm: "hmac_sha256_of G hm" and inv: "cipher_inverse G"
    and holds: "holds_record S get (cipher_remote_address c) rec (w_store w)"
    and cur: "sr_state rec = Some sa" "can_send v A B sa" and idle: "\<not> cipher_inside_callback c"
  shows "\<exists>em sa' w'. encrypt_from_state G sa p = Inr (em, sa') \<and> can_send v A B sa' \<and>
    session_cipher_encrypt S G c p w = (Inr em, w') \<and>
    holds_record S get (cipher_remote_address c)
      ((session_record_set_state rec sa')\<lparr>sr_is_fresh := False\<rparr>) (w_store w') \<and> w_rng w' = w_rng w"
proof -
  obtain em sa' where e: "encrypt_from_state G sa p = Inr (em, sa')" "can_send v A B sa'"
    using encrypt_from_state_total [OF hm inv cur(2)] by blast
  have ok: "session_store_of S get" "sr_ok (session_record_set_state rec sa')"
    using holds e(2) by (auto simp: holds_record_def can_send_def intro: sr_ok_set_state)
  from holds_record_store [OF ok, of "cipher_remote_address c" "w_store w"] holds_record_load [OF holds] cur(1) idle e
  show ?thesis by (auto simp: session_cipher_encrypt_def)
qed

lemma decrypt_handler:
  assumes hm: "hmac_sha256_of G hm" and dh: "curve25519_dh G" and k: "pub_ok (sm_sender_ratchet_key m)"
    and holds: "holds_record S get (cipher_remote_address c) rec (w_store w)"
    and idle: "\<not> cipher_inside_callback c" "cipher_decrypt_callback c = None"
    and run: "session_cipher_decrypt_from_record_and_signal_message G rec m (w_rng w) = (Inr (p, rec'), r')"
  shows "\<exists>w'. session_cipher_decrypt_signal_message S G c m w = (Inr p, w') \<and>
    holds_record S get (cipher_remote_address c) (rec'\<lparr>sr_is_fresh := False\<rparr>) (w_store w') \<and> w_rng w' = r'"
proof -
  have ok: "session_store_of S get" "sr_ok rec'"
    using holds decrypt_from_record_ok [OF hm dh k _ run] by (auto simp: holds_record_def)
  from holds_record_store [OF ok, of "cipher_remote_address c" "w_store w"] holds_record_load [OF holds] idle run
  show ?thesis
    by (auto simp: session_cipher_decrypt_signal_message_def session_cipher_decrypt_callback_def
        signal_protocol_session_contains_session_def)
qed

lemma decrypt_handler_run:
  assumes holds: "holds_record S get (cipher_remote_address c) rec (w_store w)"
    and run: "session_cipher_decrypt_signal_message S G c m w = (Inr p, w')"
  shows "\<not> cipher_inside_callback c \<and>
    (\<exists>rec' r'. session_cipher_decrypt_from_record_and_signal_message G rec m (w_rng w) = (Inr (p, rec'), r'))"
  using holds_record_load [OF holds] run
  by (auto simp: session_cipher_decrypt_signal_message_def signal_protocol_session_contains_session_def
      split: if_splits sum.splits prod.splits)

lemma handler_replay_refused:
  assumes hm: "hmac_sha256_of G hm" and dh: "curve25519_dh G"
    and holds: "holds_record S get (cipher_remote_address c) rec (w_store w)"
    and k: "pub_ok (sm_sender_ratchet_key m)" and n: "sm_counter m \<noteq> - 1"
    and sync: "\<And>st. \<lbrakk>sr_state rec = Some st \<or> st \<in> set (sr_previous_states rec)\<rbrakk> \<Longrightarrow>
      synced G (sm_sender_ratchet_key m) st"
    and nocb: "cipher_decrypt_callback c = None"
    and run: "session_cipher_decrypt_signal_message S G c m w = (Inr p, w')"
  shows "session_cipher_decrypt_signal_message S G c m w' = (Inl SG_ERR_DUPLICATE_MESSAGE, w')"
proof -
  obtain rec' r' where d: "session_cipher_decrypt_from_record_and_signal_message G rec m (w_rng w) = (Inr (p, rec'), r')"
    and idle: "\<not> cipher_inside_callback c"
    using decrypt_handler_run [OF holds run] by blast
  have ok: "sr_ok rec" using holds by (simp add: holds_record_def)
  have holds': "holds_record S get (cipher_remote_address c) (rec'\<lparr>sr_is_fresh := False\<rparr>) (w_store w')"
    using decrypt_handler [OF hm dh k holds idle nocb d] run by auto
  have "session_cipher_decrypt_from_record_and_signal_message G (rec'\<lparr>sr_is_fresh := False\<rparr>) m (w_rng w')
      = (Inl SG_ERR_DUPLICATE_MESSAGE, w_rng w')"
    by (rule record_replay_refused [OF hm dh ok k n sync d]) auto
  with holds_record_load [OF holds'] idle show ?thesis
    by (simp add: session_cipher_decrypt_signal_message_def signal_protocol_session_contains_session_def)
qed

text \<open>A handler that fails, for whatever reason, leaves the stored sessions as they were.\<close>

lemma decrypt_handler_failure:
  assumes store: "session_store_atomic S get" and nocb: "cipher_decrypt_callback c = None"
    and run: "session_cipher_decrypt_signal_message S G c m w = (Inl e, w')"
  shows "get (w_store w') = get (w_store w)"
  using run nocb
  by (auto simp: session_cipher_decrypt_signal_message_def session_cipher_decrypt_callback_def
      split: if_splits sum.splits prod.splits
      dest!: store_session_failure [OF store] load_session_atomic [OF store] contains_session_atomic [OF store])

lemma encrypt_handler_failure:
  assumes store: "session_store_atomic S get" and run: "session_cipher_encrypt S G c p w = (Inl e, w')"
  shows "get (w_store w') = get (w_store w) \<and> w_rng w' = w_rng w"
  using run
  by (auto simp: session_cipher_encrypt_def split: if_splits option.splits sum.splits prod.splits
      dest!: store_session_failure [OF store] load_session_atomic [OF store])

section \<open>Fresh sessions\<close>

text \<open>What initialisation of a new session state leaves each party with.\<close>

lemma alice_initialize_ready:
  assumes dh: "curve25519_dh G" and hm: "hmac_sha256_of G hm" and m: "matched_parameters G a b"
    and alice: "ratcheting_session_alice_initialize G session_state_create a r = (Inr sa, r')"
  shows "can_send 3 (ik_public_key (ap_our_identity_key a)) (ik_public_key (bp_our_identity_key b)) sa"
    and "\<exists>k. session_state_get_sender_ratchet_key sa = Some k"
proof -
  have keys: "pub_ok (ap_their_ratchet_key a)" "pub_ok (ap_their_identity_key a)"
      "pub_ok (ik_public_key (ap_our_identity_key a))"
      and their: "ap_their_identity_key a = ik_public_key (bp_our_identity_key b)"
    using m by (auto simp: matched_parameters_def dest!: key_pair_okD ik_okD)
  have "ss_ok sa"
    using alice_initialize_ok [OF dh hm ss_ok_create _ keys alice] by (simp add: ss_keyless_def session_state_create_def sender_chain_zero_def)
  then show "can_send 3 (ik_public_key (ap_our_identity_key a)) (ik_public_key (bp_our_identity_key b)) sa"
    "\<exists>k. session_state_get_sender_ratchet_key sa = Some k"
    by (rule_tac [!] alice_initialize_cases [OF alice],
        simp_all add: can_send_def their session_state_set_root_key_def session_state_set_sender_chain_def
          session_state_add_receiver_chain_def session_state_set_local_identity_key_def
          session_state_set_remote_identity_key_def session_state_set_session_version_def session_state_create_def
          session_state_get_sender_ratchet_key_def)
qed

lemma bob_initialize_ready:
  assumes dh: "curve25519_dh G" and hm: "hmac_sha256_of G hm" and m: "matched_parameters G a b"
    and bob: "ratcheting_session_bob_initialize G session_state_create b = Inr sb"
  shows "can_send 3 (ik_public_key (bp_our_identity_key b)) (ik_public_key (ap_our_identity_key a)) sb"
    and "session_state_find_receiver_chain sb k = None"
proof -
  have keys: "pub_ok (ik_public_key (bp_our_identity_key b))" "pub_ok (bp_their_identity_key b)"
      "kp_ok (bp_our_ratchet_key b)" and their: "bp_their_identity_key b = ik_public_key (ap_our_identity_key a)"
    using m by (auto simp: matched_parameters_def dest!: key_pair_okD ik_okD)
  from bob obtain secret dr dc where der: "ratcheting_session_calculate_derived_keys G secret = Inr (dr, dc)"
    and sb: "sb = session_state_set_root_key dr (session_state_set_sender_chain (bp_our_ratchet_key b) dc
      (session_state_set_local_identity_key (ik_public_key (bp_our_identity_key b))
        (session_state_set_remote_identity_key (bp_their_identity_key b)
          (session_state_set_session_version 3 session_state_create))))"
    by (auto simp: ratcheting_session_bob_initialize_def result_simps)
  have "rk_ok 3 dr" "ck_ok 3 dc"
    using ratcheting_session_calculate_derived_keys_total [OF hm, of secret] der by auto
  with keys have "ss_ok sb" unfolding sb
    by (intro ss_ok_intros ss_ok_set_session_version ss_ok_create)
       (simp_all add: session_state_set_sender_chain_def session_state_set_local_identity_key_def
         session_state_set_remote_identity_key_def session_state_set_session_version_def ss_keyless_def
         session_state_create_def sender_chain_zero_def)
  then show "can_send 3 (ik_public_key (bp_our_identity_key b)) (ik_public_key (ap_our_identity_key a)) sb"
    "session_state_find_receiver_chain sb k = None"
    by (simp_all add: can_send_def sb their session_state_set_root_key_def session_state_set_sender_chain_def
        session_state_set_local_identity_key_def session_state_set_remote_identity_key_def
        session_state_set_session_version_def session_state_create_def session_state_find_receiver_chain_def)
qed

lemma alice_chain_start:
  assumes dh: "curve25519_dh G" and hm: "hmac_sha256_of G hm" and m: "matched_parameters G a b"
    and alice: "ratcheting_session_alice_initialize G st a r = (Inr sa, r')"
    and ck: "sc_chain_key (ss_sender_chain sa) = Some ck0"
  shows "ck_index ck0 = 0"
proof -
  obtain kp secret dr dc sr sc where kp: "curve_generate_key_pair G r = (Inr kp, r')"
    and der: "ratcheting_session_calculate_derived_keys G secret = Inr (dr, dc)"
    and root: "ratchet_root_key_create_chain G dr (Some (ap_their_ratchet_key a)) (Some (kp_private_key kp)) = Inr (sr, sc)"
    and sc: "sc_chain_key (ss_sender_chain sa) = Some sc"
    by (rule alice_initialize_cases [OF alice])
       (simp add: session_state_set_root_key_def session_state_set_sender_chain_def)
  have "rk_ok 3 dr" using ratcheting_session_calculate_derived_keys_total [OF hm, of secret] der by auto
  moreover have "pub_ok (ap_their_ratchet_key a)" using m by (auto simp: matched_parameters_def dest!: key_pair_okD)
  ultimately show ?thesis
    using ratchet_root_key_create_chain_total [OF hm dh, of 3 dr "ap_their_ratchet_key a" "kp_private_key kp"]
      root sc ck key_pair_okD [OF curve_generate_key_pair_ok [OF dh kp]] by auto
qed

section \<open>In step\<close>

text \<open>
  The next message of \<open>sa\<close> is one that \<open>sb\<close> can take: its chain is known to \<open>sb\<close> and the
  position is not taken yet, or the chain is new and the parties are linked.
\<close>

definition in_step ::
  "signal_context \<Rightarrow> u32 \<Rightarrow> ec_public_key \<Rightarrow> ec_public_key \<Rightarrow> session_state \<Rightarrow> session_state \<Rightarrow> rng \<Rightarrow> rng \<Rightarrow> bool" where
  "in_step G v A B sa sb r r' \<longleftrightarrow>
     can_send v A B sa \<and> can_send v B A sb \<and>
     (\<exists>base k i. sender_on G base k v A B i sa \<and> ck_ok v base \<and> pub_ok k \<and>
        i < unat (ck_index base) + MAX_MESSAGE_KEYS \<and> i < 2 ^ 32 - 1 \<and>
        ((\<exists>R. delivery_inv G base k R sb \<and> i \<notin> R) \<and> r' = r \<or>
         session_state_find_receiver_chain sb k = None \<and> dh_linked G base sa sb \<and>
           (\<exists>pb. curve_generate_key_pair G r = (Inr pb, r'))))"

lemma sender_on_index: "sender_on G base k v A B i sa \<Longrightarrow> unat (ck_index base) \<le> i"
  by (auto simp: sender_on_def chain_inv_def word_le_nat_alt)

lemma in_step_decrypt:
  assumes hm: "hmac_sha256_of G hm" and inv: "cipher_inverse G" and dh: "curve25519_dh G"
    and step: "in_step G v A B sa sb r r'" and enc: "encrypt_from_state G sa p = Inr (em, sa')"
  shows "\<exists>sb'. session_cipher_decrypt_from_state_and_signal_message G sb (signal_part em) r = (Inr (p, sb'), r')"
    and "pub_ok (sm_sender_ratchet_key (signal_part em))"
    and "sm_message_version (signal_part em) = ucast v"
    and "sm_counter (signal_part em) \<noteq> - 1"
proof -
  obtain base k i where b: "sender_on G base k v A B i sa" "ck_ok v base" "pub_ok k"
      "i < unat (ck_index base) + MAX_MESSAGE_KEYS" "i < 2 ^ 32 - 1"
    and side: "(\<exists>R. delivery_inv G base k R sb \<and> i \<notin> R) \<and> r' = r \<or>
      session_state_find_receiver_chain sb k = None \<and> dh_linked G base sa sb \<and>
           (\<exists>pb. curve_generate_key_pair G r = (Inr pb, r'))"
    using step unfolding in_step_def by blast
  have can: "can_send v A B sa" "can_send v B A sb" using step by (auto simp: in_step_def)
  have paired: "paired v A B sb" using can(2) by (auto simp: can_send_def paired_def)
  let ?m = "signal_part em"
  have sent: "sent_as G base k v A B ?m p" and n: "unat (sm_counter ?m) = i"
    using encrypt_sent [OF b(1,5) enc] by auto
  have "unat (sm_counter ?m) \<noteq> unat (- 1 :: u32)"
    using n b(5) by (simp add: unsigned_minus_1_eq_mask mask_eq_exp_minus_1)
  then show n1: "sm_counter ?m \<noteq> - 1" by auto
  have mk: "sm_sender_ratchet_key ?m = k" "sm_message_version ?m = ucast v"
    using sent by (auto simp: sent_as_def dest!: signal_message_create_fields)
  then show "pub_ok (sm_sender_ratchet_key ?m)" "sm_message_version ?m = ucast v" using b(3) by auto
  note recv = receive_step [OF hm inv b(2) _ _ sent, unfolded n, OF _ _ sender_on_index [OF b(1)] b(4) _ n1]
  from side show "\<exists>sb'. session_cipher_decrypt_from_state_and_signal_message G sb ?m r = (Inr (p, sb'), r')"
  proof (elim disjE conjE exE)
    fix R
    assume "delivery_inv G base k R sb" "i \<notin> R" "r' = r"
    with recv [OF _ paired] show ?thesis by blast
  next
    fix pb
    assume new: "session_state_find_receiver_chain sb k = None" and link: "dh_linked G base sa sb"
      and rnd: "curve_generate_key_pair G r = (Inr pb, r')"
    have okb: "ss_ok sb" "sc_chain_key (ss_sender_chain sb) \<noteq> None" using can(2) by (auto simp: can_send_def)
    have k: "session_state_get_sender_ratchet_key sa = Some k" using b(1) by (simp add: sender_on_def)
    obtain sb1 where turn: "session_cipher_get_or_create_chain_key G sb k r = (Inr (base, sb1), r')"
      using turn_total [OF hm dh link okb k new rnd] by blast
    have "session_cipher_decrypt_from_state_and_signal_message G sb ?m r
      = session_cipher_decrypt_from_state_and_signal_message G sb1 ?m r'"
      using paired mk version_casts [of v]
      by (intro decrypt_after_turn [OF new b(3) _ turn]) (auto simp: paired_def)
    moreover have "delivery_inv G base k {} sb1" "paired v A B sb1"
      using turn_delivery [OF new b(3) paired turn] by auto
    ultimately show ?thesis using recv [of "{}" sb1 r'] by auto
  qed
qed

lemma encrypted_message_roundtrip:
  assumes enc: "encrypt_from_state G sa p = Inr (em, sa')"
    and v: "ss_session_version sa = 2 \<or> ss_session_version sa = 3"
    and k: "pub_ok (sm_sender_ratchet_key (signal_part em))" "length (sm_serialized (signal_part em)) < 2 ^ 31"
  shows "signal_message_deserialize (sm_serialized (signal_part em)) = Inr (signal_part em)"
proof -
  obtain mac k n ct A B where m: "signal_message_create G (ucast (ss_session_version sa)) mac k n
       (ss_previous_counter sa) ct A B = Inr (signal_part em)"
    by (rule encrypt_from_state_cases [OF enc]) blast
  have "ucast (ss_session_version sa) = (2 :: u8) \<or> ucast (ss_session_version sa) = (3 :: u8)" using v by auto
  then show ?thesis
    using k signal_message_create_fields [OF m] by (intro signal_message_roundtrip [OF m]) auto
qed

text \<open>Fresh sessions are in step.\<close>

lemma initialized_in_step:
  assumes dh: "curve25519_dh G" and hm: "hmac_sha256_of G hm" and m: "matched_parameters G a b"
    and alice: "ratcheting_session_alice_initialize G session_state_create a r = (Inr sa, r')"
    and bob: "ratcheting_session_bob_initialize G session_state_create b = Inr sb"
    and rnd: "curve_generate_key_pair G r1 = (Inr pb, r2)"
  shows "in_step G 3 (ik_public_key (ap_our_identity_key a)) (ik_public_key (bp_our_identity_key b)) sa sb r1 r2"
proof -
  note ra = alice_initialize_ready [OF dh hm m alice] and rb = bob_initialize_ready [OF dh hm m bob]
  obtain k where k: "session_state_get_sender_ratchet_key sa = Some k" using ra(2) by blast
  obtain ck0 where ck0: "sc_chain_key (ss_sender_chain sa) = Some ck0" "dh_linked G ck0 sa sb"
    using initialized_linked [OF dh m _ alice bob] by (auto simp: session_state_create_def)
  have "ck_index ck0 = 0" by (rule alice_chain_start [OF dh hm m alice ck0(1)])
  with sender_on_start [OF ra(1) k ck0(1)] ra(1) rb ck0 rnd show ?thesis
    unfolding in_step_def MAX_MESSAGE_KEYS_def by fastforce
qed

section \<open>From handler to handler\<close>

lemma handlers_deliver:
  assumes hm: "hmac_sha256_of G hm" and inv: "cipher_inverse G" and dh: "curve25519_dh G"
    and a: "holds_record SA getA (cipher_remote_address ca) reca (w_store wa)" "sr_state reca = Some sa"
      "\<not> cipher_inside_callback ca"
    and b: "holds_record SB getB (cipher_remote_address cb) recb (w_store wb)" "sr_state recb = Some sb"
      "\<not> cipher_inside_callback cb" "cipher_decrypt_callback cb = None"
    and step: "in_step G v A B sa sb (w_rng wb) r'"
  shows "\<exists>em wa' wb'. session_cipher_encrypt SA G ca p wa = (Inr em, wa') \<and>
    (length (sm_serialized (signal_part em)) < 2 ^ 31 \<longrightarrow>
      signal_message_deserialize (sm_serialized (signal_part em)) = Inr (signal_part em)) \<and>
    session_cipher_decrypt_signal_message SB G cb (signal_part em) wb = (Inr p, wb') \<and>
    pub_ok (sm_sender_ratchet_key (signal_part em)) \<and> sm_counter (signal_part em) \<noteq> - 1"
proof -
  have can: "can_send v A B sa" and v: "v = 2 \<or> v = 3" using step by (auto simp: in_step_def can_send_def)
  obtain em sa' wa' where e: "encrypt_from_state G sa p = Inr (em, sa')"
    "session_cipher_encrypt SA G ca p wa = (Inr em, wa')"
    using encrypt_handler [OF hm inv a(1,2) can a(3)] by blast
  note d = in_step_decrypt [OF hm inv dh step e(1)]
  obtain sb' where sb': "session_cipher_decrypt_from_state_and_signal_message G sb (signal_part em) (w_rng wb) = (Inr (p, sb'), r')"
    using d(1) by blast
  have "ss_ok sb" using b(1,2) by (simp add: holds_record_def sr_ok_def)
  then have "session_cipher_decrypt_from_record_and_signal_message G recb (signal_part em) (w_rng wb)
      = (Inr (p, session_record_set_state recb sb'), r')"
    using sb' b(2) by (simp add: session_cipher_decrypt_from_record_and_signal_message_def session_state_copy_id)
  from decrypt_handler [OF hm dh d(2) b(1,3,4) this]
  obtain wb' where "session_cipher_decrypt_signal_message SB G cb (signal_part em) wb = (Inr p, wb')" by blast
  moreover have "signal_message_deserialize (sm_serialized (signal_part em)) = Inr (signal_part em)"
    if "length (sm_serialized (signal_part em)) < 2 ^ 31"
    using encrypted_message_roundtrip [OF e(1)] d(2) v can that by (auto simp: can_send_def)
  ultimately show ?thesis using e(2) d(2,4) by blast
qed

end
