(* ===== verification/Samples.thy ===== *)
theory Samples
  imports Conversation
begin

text \<open>
  A small provider, a map-backed session store and sample sessions, on which the
  properties are instantiated.  The primitives are toys with the laws that the hypotheses
  name: a 32-byte prefix for HMAC, the identity for the ciphers, addition for Curve25519.
\<close>

definition sample_hmac :: "bytes \<Rightarrow> bytes \<Rightarrow> bytes" where
  "sample_hmac key d = take 32 (d @ key @ replicate 32 0)"

definition sample_context :: signal_context where
  "sample_context =
     \<lparr>random_func = \<lambda>n len. Inr (\<lambda>i. of_nat (n + i)),
      hmac_sha256_init_func = \<lambda>key. Inr (),
      hmac_sha256_update_func = \<lambda>key fed c. Inr (),
      hmac_sha256_final_func = \<lambda>key fed. Inr (sample_hmac key (concat fed)),
      sha512_digest_func = \<lambda>d. Inr (take 64 (d @ replicate 64 0)),
      encrypt_func = \<lambda>cipher key iv p. Inr p,
      decrypt_func = \<lambda>cipher key iv c. Inr c,
      curve25519_donna = \<lambda>s p. (0, map2 (+) s p),
      curve25519_verify = \<lambda>sig pk msg. if sig = take 64 (pk @ pk) then 0 else -1,
      curve25519_sign = \<lambda>sk msg rnd. (0, take 64 (map2 (+) sk curve25519_basepoint @ map2 (+) sk curve25519_basepoint))\<rparr>"

lemma sample_hmac_ok: "hmac_sha256_of sample_context sample_hmac"
  by (auto simp: hmac_sha256_of_def sample_context_def sample_hmac_def min_def)

lemma sample_cipher_ok: "cipher_inverse sample_context"
  by (simp add: cipher_inverse_def sample_context_def)

lemma map2_add_left_commute:
  "length ys = length xs \<Longrightarrow> length zs = length xs \<Longrightarrow>
     map2 (+) xs (map2 (+) ys zs) = map2 (+) ys (map2 (+) xs (zs :: u8 list))"
  by (rule nth_equalityI) (simp_all add: algebra_simps)

lemma sample_dh_ok: "curve25519_dh sample_context"
  using map2_add_left_commute by (simp add: curve25519_dh_def sample_context_def)

definition sample_pair :: "nat \<Rightarrow> ec_key_pair" where
  "sample_pair n = ec_key_pair_create (EC_Public_Key (map2 (+) (clamp (replicate 32 (of_nat n))) curve25519_basepoint))
     (EC_Private_Key (clamp (replicate 32 (of_nat n))))"

definition sample_identity :: "nat \<Rightarrow> ratchet_identity_key_pair" where
  "sample_identity n =
     \<lparr>ik_public_key = kp_public_key (sample_pair n), ik_private_key = kp_private_key (sample_pair n)\<rparr>"

lemma sample_pair_ok: "key_pair_ok sample_context (sample_pair n)"
  by (simp add: key_pair_ok_def sample_pair_def ec_key_pair_create_def priv_ok_def pub_ok_def
      curve_generate_public_key_def sample_context_def)

lemma sample_pair_clamped: "clamped (priv_data (kp_private_key (sample_pair n)))"
  by (simp add: sample_pair_def ec_key_pair_create_def clamped_clamp)

lemma sample_identity_clamped: "clamped (priv_data (ik_private_key (sample_identity n)))"
  using sample_pair_clamped by (simp add: sample_identity_def)

lemma sample_identity_ok: "ik_ok sample_context (sample_identity n)"
  using sample_pair_ok [of n] by (simp add: ik_ok_def sample_identity_def key_pair_ok_def)

lemma sample_random: "\<exists>kp. curve_generate_key_pair sample_context r = (Inr kp, Suc r)"
  by (simp add: curve_generate_key_pair_def curve_generate_private_key_def signal_crypto_random_def
      curve_generate_public_key_def sample_context_def Let_def)

section \<open>A session between two parties\<close>

definition sample_alice_parameters :: alice_signal_protocol_parameters where
  "sample_alice_parameters =
     \<lparr>ap_our_identity_key = sample_identity 1, ap_our_base_key = sample_pair 2,
      ap_their_identity_key = ik_public_key (sample_identity 3),
      ap_their_signed_pre_key = kp_public_key (sample_pair 4),
      ap_their_one_time_pre_key = Some (kp_public_key (sample_pair 5)),
      ap_their_ratchet_key = kp_public_key (sample_pair 4)\<rparr>"

definition sample_bob_parameters :: bob_signal_protocol_parameters where
  "sample_bob_parameters =
     \<lparr>bp_our_identity_key = sample_identity 3, bp_our_signed_pre_key = sample_pair 4,
      bp_our_one_time_pre_key = Some (sample_pair 5), bp_our_ratchet_key = sample_pair 4,
      bp_their_identity_key = ik_public_key (sample_identity 1), bp_their_base_key = kp_public_key (sample_pair 2)\<rparr>"

lemma sample_matched: "matched_parameters sample_context sample_alice_parameters sample_bob_parameters"
  using sample_pair_ok sample_identity_ok
  by (simp add: matched_parameters_def sample_alice_parameters_def sample_bob_parameters_def)

definition sample_alice :: session_state where
  "sample_alice =
     projr (fst (ratcheting_session_alice_initialize sample_context session_state_create sample_alice_parameters 0))"

definition sample_bob :: session_state where
  "sample_bob = projr (ratcheting_session_bob_initialize sample_context session_state_create sample_bob_parameters)"

lemma sample_alice_run:
  "ratcheting_session_alice_initialize sample_context session_state_create sample_alice_parameters 0
    = (Inr sample_alice, Suc 0)"
  using alice_initialize_total [OF sample_dh_ok sample_hmac_ok sample_matched sample_random, of session_state_create 0]
  by (auto simp: sample_alice_def)

lemma sample_bob_run:
  "ratcheting_session_bob_initialize sample_context session_state_create sample_bob_parameters = Inr sample_bob"
  using bob_initialize_total [OF sample_dh_ok sample_hmac_ok sample_matched, of session_state_create]
  by (auto simp: sample_bob_def)

definition sample_state :: session_state where
  "sample_state = sample_alice\<lparr>ss_local_registration_id := 7, ss_needs_refresh := True\<rparr>"

definition sample_symmetric :: "nat \<Rightarrow> nat \<Rightarrow> symmetric_signal_protocol_parameters" where
  "sample_symmetric i j =
     \<lparr>symp_our_identity_key = sample_identity i, symp_our_base_key = sample_pair (i + 1),
      symp_our_ratchet_key = sample_pair (i + 2), symp_their_base_key = kp_public_key (sample_pair (j + 1)),
      symp_their_ratchet_key = kp_public_key (sample_pair (j + 2)),
      symp_their_identity_key = ik_public_key (sample_identity j)\<rparr>"

lemma sample_partners: "symmetric_partners sample_context (sample_symmetric 1 4) (sample_symmetric 4 1)"
proof -
  have "kp_public_key (sample_pair 2) \<noteq> kp_public_key (sample_pair 5)" by code_simp
  then show ?thesis
    using sample_pair_ok sample_identity_ok by (simp add: symmetric_partners_def sample_symmetric_def numeral_2_eq_2)
qed

section \<open>A store\<close>

type_synonym sample_store = "signal_protocol_address \<Rightarrow> bytes option"

definition sample_session_store :: "sample_store signal_protocol_session_store" where
  "sample_session_store =
     \<lparr>load_session_func = \<lambda>a s. ((case s a of None \<Rightarrow> (0, None) | Some d \<Rightarrow> (1, Some d)), s),
      get_sub_device_sessions_func = \<lambda>nm s. ((0, []), s),
      store_session_func = \<lambda>a d s. (0, s(a := Some d)),
      contains_session_func = \<lambda>a s. ((case s a of None \<Rightarrow> 0 | Some _ \<Rightarrow> 1), s),
      delete_session_func = \<lambda>a s. ((case s a of None \<Rightarrow> 0 | Some _ \<Rightarrow> 1), s(a := None)),
      delete_all_sessions_func = \<lambda>nm s. (0, \<lambda>a. if addr_name a = nm then None else s a)\<rparr>"

lemma sample_session_store_ok: "session_store_of sample_session_store (\<lambda>s. s)"
  by (simp add: session_store_of_def sample_session_store_def)

definition sample_address :: signal_protocol_address where
  "sample_address = \<lparr>addr_name = [1, 2, 3], addr_device_id = 1\<rparr>"

definition sample_cipher :: "sample_store session_cipher" where
  "sample_cipher =
     \<lparr>cipher_remote_address = sample_address, cipher_decrypt_callback = None, cipher_inside_callback = False\<rparr>"

definition sample_record :: "session_state \<Rightarrow> session_record" where
  "sample_record st = \<lparr>sr_state = Some st, sr_previous_states = [], sr_is_fresh = False\<rparr>"

definition sample_world :: "session_state \<Rightarrow> sample_store world" where
  "sample_world st =
     \<lparr>w_store = [sample_address \<mapsto> projr (session_record_serialize (Some (sample_record st)))], w_rng = 0\<rparr>"

lemma sample_holds:
  assumes "ss_ok st"
  shows "holds_record sample_session_store (\<lambda>s. s) sample_address (sample_record st) (w_store (sample_world st))"
proof -
  have ok: "sr_ok (sample_record st)" using assms by (simp add: sr_ok_def sample_record_def)
  obtain d where d: "session_record_serialize (Some (sample_record st)) = Inr d"
    using session_record_serialize_total [OF ok] by blast
  with session_record_roundtrip [OF ok d] ok sample_session_store_ok show ?thesis
    by (simp add: holds_record_def sample_world_def) (simp add: sample_record_def)
qed

lemma sample_state_ok: "ss_ok sample_state"
proof -
  have "ss_ok sample_alice"
    using alice_initialize_ready(1) [OF sample_dh_ok sample_hmac_ok sample_matched sample_alice_run]
    by (simp add: can_send_def)
  then show ?thesis by (simp add: sample_state_def ss_ok_def)
qed

section \<open>Messages\<close>

definition sample_message :: "bytes \<Rightarrow> signal_message" where
  "sample_message ct = projr (signal_message_create sample_context 3 [1, 2] (kp_public_key (sample_pair 4)) 17 3 ct
     (kp_public_key (sample_pair 1)) (kp_public_key (sample_pair 2)))"

lemma sample_message_run:
  "signal_message_create sample_context 3 [1, 2] (kp_public_key (sample_pair 4)) 17 3 ct
     (kp_public_key (sample_pair 1)) (kp_public_key (sample_pair 2)) = Inr (sample_message ct)"
  using signal_message_create_total [OF sample_hmac_ok, of 3 "[1, 2]" "kp_public_key (sample_pair 4)" 17 3 ct
     "kp_public_key (sample_pair 1)" "kp_public_key (sample_pair 2)"]
  by (auto simp: sample_message_def)

section \<open>An exchange\<close>

lemma sample_in_step:
  "in_step sample_context 3 (ik_public_key (sample_identity 1)) (ik_public_key (sample_identity 3))
     sample_alice sample_bob (w_rng (sample_world sample_bob)) (Suc 0)"
proof -
  obtain pb where "curve_generate_key_pair sample_context 0 = (Inr pb, Suc 0)" using sample_random by blast
  from initialized_in_step [OF sample_dh_ok sample_hmac_ok sample_matched sample_alice_run sample_bob_run this]
  show ?thesis by (simp add: sample_alice_parameters_def sample_bob_parameters_def sample_world_def)
qed

lemma sample_states_ok: "ss_ok sample_alice" "ss_ok sample_bob"
  using sample_in_step by (auto simp: in_step_def can_send_def)

lemma sample_holds_cipher:
  "holds_record sample_session_store (\<lambda>s. s) (cipher_remote_address sample_cipher) (sample_record sample_alice)
     (w_store (sample_world sample_alice))"
  "holds_record sample_session_store (\<lambda>s. s) (cipher_remote_address sample_cipher) (sample_record sample_bob)
     (w_store (sample_world sample_bob))"
  using sample_holds sample_states_ok by (simp_all add: sample_cipher_def)

lemma sample_exchange:
  "\<exists>em wa' wb'. session_cipher_encrypt sample_session_store sample_context sample_cipher p (sample_world sample_alice)
      = (Inr em, wa') \<and>
    session_cipher_decrypt_signal_message sample_session_store sample_context sample_cipher (signal_part em)
      (sample_world sample_bob) = (Inr p, wb') \<and>
    pub_ok (sm_sender_ratchet_key (signal_part em)) \<and> sm_counter (signal_part em) \<noteq> - 1"
  using handlers_deliver [OF sample_hmac_ok sample_cipher_ok sample_dh_ok sample_holds_cipher(1) _ _
      sample_holds_cipher(2) _ _ _ sample_in_step, of p]
  by (auto simp: sample_cipher_def sample_record_def)

section \<open>A receiving chain\<close>

definition sample_key :: ec_public_key where
  "sample_key = kp_public_key (sample_pair 6)"

definition sample_chain :: ratchet_chain_key where
  "sample_chain = \<lparr>ck_kdf = \<lparr>iteration_start_offset = 1\<rparr>, ck_key = replicate 32 7, ck_index = 0\<rparr>"

definition sample_receiving :: session_state_receiver_chain where
  "sample_receiving = \<lparr>rc_sender_ratchet_key = Some sample_key, rc_chain_key = Some sample_chain, rc_message_keys = []\<rparr>"

definition sample_receiver :: session_state where
  "sample_receiver = session_state_create\<lparr>ss_session_version := 3, ss_receiver_chains := [sample_receiving]\<rparr>"

lemma sample_chain_ok: "ck_ok 3 sample_chain"
  by (simp add: ck_ok_def sample_chain_def hkdf_create_def)

lemma sample_receiver_find: "session_state_find_receiver_chain sample_receiver sample_key = Some sample_receiving"
proof -
  have "pub_ok sample_key" using key_pair_okD [OF sample_pair_ok] by (simp add: sample_key_def)
  then show ?thesis
    by (simp add: session_state_find_receiver_chain_def sample_receiver_def sample_receiving_def rc_matches_def
        ec_public_key_compare_eq)
qed

lemma sample_receiver_sync: "receiver_in_sync sample_context sample_chain sample_key sample_receiver"
  using sample_receiver_find by (simp add: receiver_in_sync_def sample_receiving_def chain_inv_def)

lemma sample_receiver_chain: "session_state_get_receiver_chain_key sample_receiver sample_key = Some sample_chain"
  using sample_receiver_find by (simp add: session_state_get_receiver_chain_key_def sample_receiving_def)

section \<open>Stored structures\<close>

definition sample_structure :: SessionStructure where
  "sample_structure =
     \<lparr>sst_sessionversion = Some 3, sst_localidentitypublic = None, sst_remoteidentitypublic = None,
      sst_rootkey = None, sst_previouscounter = None, sst_senderchain = None, sst_receiverchains = [],
      sst_pendingkeyexchange = None, sst_pendingprekey = None, sst_remoteregistrationid = None,
      sst_localregistrationid = None, sst_needsrefresh = None, sst_alicebasekey = None\<rparr>"

definition sample_bad_chain :: Chain where
  "sample_bad_chain = \<lparr>sch_senderratchetkey = Some [0], sch_senderratchetkeyprivate = Some [0],
     sch_chainkey = None, sch_messagekeys = []\<rparr>"

definition sample_v4_chain :: Chain where
  "sample_v4_chain = \<lparr>sch_senderratchetkey = None, sch_senderratchetkeyprivate = None,
     sch_chainkey = Some \<lparr>sck_index = Some 0, sck_key = Some [1]\<rparr>, sch_messagekeys = []\<rparr>"

end
