(* ===== verification/Codec_Properties.thy ===== *)
theory Codec_Properties
  imports Samples
begin

text \<open>
  The properties of the encodings and of the key derivation: the protobuf runtime, the
  serialised forms of sessions, keys and messages, and HKDF.
\<close>

section \<open>The protobuf runtime\<close>

text \<open>
  C31. What \<^verbatim>\<open>protobuf_c_message_pack\<close> writes, \<^verbatim>\<open>protobuf_c_message_unpack\<close> reads back as the
  same message, and \<^verbatim>\<open>protobuf_c_message_get_packed_size\<close> announces the exact number of
  bytes, for every descriptor with small distinct field numbers and every message that fits
  it and packs to less than \<open>2 ^ 31\<close> bytes.  The one exception is a message with more than
  \<open>2 ^ 27 - 16\<close> fields at some level, which the scan refuses as having too many fields; no
  message of at most \<open>2 ^ 28 - 32\<close> bytes and no message without repeated fields is one.
\<close>

theorem protobuf_roundtrip:
  assumes "pb_desc_ok fs" "pb_fits fs m" "length (pb_pack fs m) < 2 ^ 31"
  shows "pb_unpack fs (pb_pack fs m) = (if pb_few m then Unpacked m else Unpack_Error) \<and>
    pb_get_packed_size fs m = length (pb_pack fs m) \<and>
    (length (pb_pack fs m) \<le> 2 ^ 28 - 32 \<or> pb_singular_type (TYPE_MESSAGE fs) \<longrightarrow> pb_few m)"
  using pb_unpack_pack [OF assms(1) pb_fits_wt(2) [OF assms(2,3)]] pb_packed_size_pack(3) [of fs m] assms(1)
    pb_few_small [OF assms(1,2)] pb_few_singular [OF assms(1) _ assms(2)]
  by (simp add: pb_desc_ok_def list.pred_map comp_def)

theorem protobuf_roundtrip_witness:
  "pb_unpack sck_desc (pb_pack sck_desc [[PV_32 300], [PV_bytes [1, 2, 3]]]) = Unpacked [[PV_32 300], [PV_bytes [1, 2, 3]]]
    \<and> pb_get_packed_size sck_desc [[PV_32 300], [PV_bytes [1, 2, 3]]] = 8"
proof -
  have "length (pb_pack sck_desc [[PV_32 300], [PV_bytes [1, 2, 3]]]) = 8" by code_simp
  moreover have "pb_desc_ok sck_desc" "pb_fits sck_desc [[PV_32 300], [PV_bytes [1, 2, 3]]]"
    by (simp_all add: sck_desc_def pb_desc_ok_def word_less_nat_alt)
  ultimately show ?thesis using protobuf_roundtrip [of sck_desc "[[PV_32 300], [PV_bytes [1, 2, 3]]]"] by simp
qed

text \<open>
  C32. Unpacking arbitrary bytes with any descriptor never leaves its input: every byte that
  the tag, varint and length scanners look at is there, every member lies within the data,
  and the parsers of its value find as many bytes as they read, also where the 32-bit sum of
  a length and its prefix wraps.
\<close>

theorem protobuf_unpack_safe: "pb_unpack fs d \<noteq> Unpack_Fault"
  by (rule pb_no_fault(3))

text \<open>
  The bounds checks at work: a length that promises five bytes where one is left, and a
  length whose sum with its five-byte prefix wraps to 4.
\<close>

theorem protobuf_unpack_safe_witness:
  "pb_unpack sck_desc [0x12, 5, 1] \<noteq> Unpack_Fault \<and> pb_unpack sck_desc [0x12, 5, 1] = Unpack_Error \<and>
    pb_unpack sck_desc [0x12, 0xff, 0xff, 0xff, 0xff, 0x0f, 1, 1] = Unpack_Error"
proof -
  have "pb_unpack sck_desc [0x12, 5, 1] = Unpack_Error" by code_simp
  moreover have "pb_unpack sck_desc [0x12, 0xff, 0xff, 0xff, 0xff, 0x0f, 1, 1] = Unpack_Error" by code_simp
  ultimately show ?thesis using protobuf_unpack_safe [of sck_desc "[0x12, 5, 1]"] by simp
qed

text \<open>
  When the 32-bit sum in \<^verbatim>\<open>scan_length_prefixed_data\<close> wraps below the size of the prefix,
  the check against the end of the data passes, but the rest of the scan always fails: the
  message is rejected.
\<close>

lemma wrapped_length_rejected:
  assumes "scan_length_prefixed_data d = Unpacked (len, pref)" "len < pref"
  shows "scan_members slot (drop len d) = Unpack_Error"
  using assms by (rule scan_length_prefixed_wrap)

section \<open>Key derivation\<close>

text \<open>
  C33. \<^verbatim>\<open>hkdf_derive_secrets\<close> returns the output keying material of RFC 5869 (with the block
  counter starting at the offset of the session version), whenever the number of blocks
  plus the offset is at most 255.
\<close>

theorem hkdf_rfc5869:
  assumes "hmac_sha256_of G hm" "hkdf_iterations len + iteration_start_offset c \<le> 255"
  shows "hkdf_derive_secrets G c ikm salt (Some info) len
    = Inr (rfc_hkdf hm (iteration_start_offset c) ikm salt info len)"
  using hkdf_derive_secrets_rfc [OF assms, of ikm salt "Some info"] by simp

theorem hkdf_rfc5869_witness:
  "hkdf_derive_secrets sample_context \<lparr>iteration_start_offset = 1\<rparr> [1, 2] [3] (Some [4]) 64
    = Inr (rfc_hkdf sample_hmac 1 [1, 2] [3] [4] 64)"
  using hkdf_rfc5869 [OF sample_hmac_ok, of 64 "\<lparr>iteration_start_offset = 1\<rparr>" "[1, 2]" "[3]" "[4]"]
  by (simp add: hkdf_iterations_def HASH_OUTPUT_SIZE_def)

text \<open>
  C35. Beyond that bound \<^verbatim>\<open>hkdf_expand\<close> does not return: the loop counter is a \<^verbatim>\<open>uint8_t\<close> and
  wraps before it reaches the bound.  RFC 5869 allows 255 blocks, a version 3 context
  supports 254.  This holds as long as the number of blocks plus the offset is an \<^verbatim>\<open>int\<close>;
  for a longer output its computation has no defined result.
\<close>

theorem hkdf_expand_never_returns:
  assumes "hmac_sha256_of G hm" "255 < hkdf_iterations len + iteration_start_offset c"
    and "int (hkdf_iterations len) + int (iteration_start_offset c) \<le> INT_MAX"
  shows "hkdf_expand G c prk info len = None"
  using assms by (rule hkdf_expand_diverges)

theorem hkdf_expand_never_returns_witness:
  "hkdf_iterations 8160 = 255 \<and> hkdf_expand sample_context \<lparr>iteration_start_offset = 1\<rparr> [] None 8160 = None"
  using hkdf_expand_never_returns [OF sample_hmac_ok, of 8160 "\<lparr>iteration_start_offset = 1\<rparr>" "[]" None]
  by (simp add: hkdf_iterations_def HASH_OUTPUT_SIZE_def INT_MAX_def)

section \<open>Keys\<close>

text \<open>
  \<^verbatim>\<open>curve_decode_point\<close> accepts exactly the 33-byte encodings that
  \<^verbatim>\<open>ec_public_key_serialize\<close> produces, and gives back the key that was encoded.
\<close>

lemma curve_point_codec:
  "curve_decode_point d = Inr k \<longleftrightarrow> pub_ok k \<and> ec_public_key_serialize (Some k) = Inr d"
  by (auto simp: curve_decode_point_inv ec_public_key_serialize_def)

text \<open>
  A generated key pair is clamped for Curve25519 (low three bits clear, bit 254 set, bit
  255 clear), its public half belongs to its private half, and one random draw was used.
\<close>

lemma generated_key_pair:
  assumes "curve25519_dh G" "curve_generate_key_pair G r = (Inr p, r')"
  shows "key_pair_ok G p \<and> r' = Suc r \<and> priv_data (kp_private_key p) ! 0 AND 7 = 0 \<and>
    bit (priv_data (kp_private_key p) ! 31) 6 \<and> \<not> bit (priv_data (kp_private_key p) ! 31) 7"
proof -
  obtain sk where "curve_generate_private_key G r = (Inr sk, r')" "kp_private_key p = sk"
    using assms(2) by (auto simp: curve_generate_key_pair_def ec_key_pair_create_def split: prod.splits sum.splits)
  with curve_generate_private_key_ok curve_generate_key_pair_ok [OF assms] show ?thesis by blast
qed

text \<open>
  Two parties that exchange the public halves of their key pairs compute the same shared
  secret, of 32 bytes, with \<^verbatim>\<open>curve_calculate_agreement\<close>.
\<close>

lemma agreement_commutes:
  assumes "curve25519_dh G" "key_pair_ok G p" "key_pair_ok G q"
  shows "\<exists>s. curve_calculate_agreement G (Some (kp_public_key q)) (Some (kp_private_key p)) = Inr s \<and>
    curve_calculate_agreement G (Some (kp_public_key p)) (Some (kp_private_key q)) = Inr s \<and> length s = 32"
  using assms agreed_commute [OF assms] agreed_length [of G "kp_public_key p" "kp_private_key q"]
  by (simp add: curve_calculate_agreement_ok key_pair_okD)

text \<open>
  \<^verbatim>\<open>signal_constant_memcmp\<close> over \<open>n\<close> bytes is zero exactly when the two arrays are equal,
  although it never leaves its loop early.
\<close>

lemma constant_memcmp_equal:
  assumes "length s1 = n" "length s2 = n"
  shows "signal_constant_memcmp s1 s2 n = 0 \<longleftrightarrow> s1 = s2"
  using assms by simp

text \<open>
  An identity key pair always serialises, and deserialising the bytes gives the same pair.
\<close>

lemma identity_key_pair_codec:
  assumes "pub_ok (ik_public_key kp)" "priv_ok (ik_private_key kp)"
  shows "\<exists>d. ratchet_identity_key_pair_serialize (Some kp) = Inr d \<and> ratchet_identity_key_pair_deserialize d = Inr kp"
proof -
  let ?s = "\<lparr>sik_publickey = Some (DJB_TYPE # pub_data (ik_public_key kp)),
    sik_privatekey = Some (priv_data (ik_private_key kp))\<rparr>"
  obtain d where d: "ratchet_identity_key_pair_serialize (Some kp) = Inr d" "d = pb_pack sik_desc (sik_to_pb ?s)"
    by (simp add: ratchet_identity_key_pair_serialize_def ec_public_key_serialize_protobuf_def
        ec_private_key_serialize_protobuf_def sik.serialize_ok)
  have "length d < 2 ^ 31"
    using assms pb_bound_bytes [of 1 33 "sik_publickey ?s"] pb_bound_bytes [of 2 32 "sik_privatekey ?s"]
    by (simp add: d(2) sik_desc_def sik_to_pb_def pub_ok_def priv_ok_def word_less_nat_alt)
  with identity_key_pair_roundtrip [OF d(1) _ assms] d(1) show ?thesis by blast
qed

section \<open>Sessions and messages\<close>

text \<open>
  A session state in its invariant always serialises, the bytes are at most
  \<open>2 ^ 28 - 32\<close>, they deserialise to the same state, and \<^verbatim>\<open>session_state_copy\<close> is a faithful copy.
\<close>

lemma session_state_codec:
  assumes "ss_ok st"
  shows "\<exists>d. session_state_serialize st = Inr d \<and> length d \<le> 2 ^ 28 - 32 \<and> session_state_deserialize d = Inr st \<and>
    session_state_copy st = Inr st"
  using assms session_state_serialize_total [OF assms] session_state_size [OF assms]
    session_state_roundtrip [OF assms] session_state_copy_id [OF assms] by blast

text \<open>
  C27. A session record in its invariant, with its current state and up to 40 archived ones,
  always serialises and is read back with every state in its place; only the flag that
  marks a record never stored is cleared.
\<close>

theorem session_record_codec:
  assumes "sr_ok rec"
  shows "\<exists>d. session_record_serialize (Some rec) = Inr d \<and>
    session_record_deserialize d = Inr (rec\<lparr>sr_is_fresh := False\<rparr>) \<and>
    session_record_copy rec = Inr (rec\<lparr>sr_is_fresh := False\<rparr>)"
  using assms session_record_serialize_total [OF assms] session_record_roundtrip [OF assms]
    session_record_copy_id [OF assms] by blast

theorem session_record_codec_witness:
  "\<exists>d. session_record_serialize (Some (session_record_archive_current_state (sample_record sample_state))) = Inr d \<and>
    session_record_deserialize d
      = Inr ((session_record_archive_current_state (sample_record sample_state))\<lparr>sr_is_fresh := False\<rparr>)"
proof -
  have "sr_ok (session_record_archive_current_state (sample_record sample_state))"
    using sample_state_ok by (intro sr_ok_archive) (simp add: sr_ok_def sample_record_def)
  from session_record_codec [OF this] show ?thesis by blast
qed

text \<open>
  C29. A message made by \<^verbatim>\<open>signal_message_create\<close> is parsed back by
  \<^verbatim>\<open>signal_message_deserialize\<close> with all its fields, and its MAC verifies for the two
  identity keys it was made for.
\<close>

theorem signal_message_codec:
  assumes "signal_message_create G v mac_key rk n pn ct sender receiver = Inr m"
    and "v = 2 \<or> v = 3" "pub_ok rk" "length ct < 2 ^ 30"
  shows "signal_message_deserialize (sm_serialized m) = Inr m \<and>
    signal_message_verify_mac G m (Some sender) (Some receiver) mac_key = Inr True \<and>
    sm_sender_ratchet_key m = rk \<and> sm_counter m = n \<and> sm_previous_counter m = pn \<and> sm_ciphertext m = ct"
  using signal_message_roundtrip [OF assms(1-3)] signal_message_length [OF assms(1,3)] assms(4)
    signal_message_create_verify [OF assms(1)] signal_message_create_fields [OF assms(1)] by simp

theorem signal_message_codec_witness:
  "signal_message_deserialize (sm_serialized (sample_message [9, 9])) = Inr (sample_message [9, 9]) \<and>
    sm_ciphertext (sample_message [9, 9]) = [9, 9]"
  using signal_message_codec [OF sample_message_run, of "[9, 9]"]
    key_pair_okD [OF sample_pair_ok, of 4] by simp

text \<open>
  The same for a pre-key message: its registration id, pre-key ids, keys and the embedded
  signal message come back from the serialised form.
\<close>

lemma pre_key_signal_message_codec:
  assumes "pre_key_signal_message_create 3 rid pid sid bk ik m = Inr pm" "pub_ok bk" "pub_ok ik"
    and "signal_message_deserialize (sm_serialized m) = Inr m" "sm_message_version m = 3"
    and "length (sm_serialized m) < 2 ^ 30"
  shows "pre_key_signal_message_deserialize (pksm_serialized pm) = Inr pm \<and> pksm_message pm = m \<and>
    (pksm_has_pre_key_id pm \<longleftrightarrow> pid \<noteq> None) \<and> pksm_base_key pm = bk \<and> pksm_identity_key pm = ik"
proof -
  have "length (pksm_serialized pm) < 2 ^ 31"
    using pre_key_signal_message_length [OF assms(1-3)] assms(6) by simp
  from pre_key_signal_message_roundtrip [OF assms(1-5) this] show ?thesis
    using assms(1) by (auto simp: pre_key_signal_message_create_def result_simps)
qed

end
