(* ===== verification/Sender_Key.thy ===== *)
theory Sender_Key
  imports Ratchet
begin

text \<open>
  \<^verbatim>\<open>sender_key.c\<close>: the hash chain of a group sender.  A chain key yields the message key of
  its iteration and the next chain key; a message key is the expansion of a seed, so that
  only the seed has to be stored.  The laws: the chain counts its steps, the keys have the
  sizes of the cipher, and with a provider that computes HMAC no link of a chain fails.
\<close>

record sender_message_key =
  smkey_iteration :: u32
  smkey_iv :: bytes
  smkey_cipher_key :: bytes
  smkey_seed :: bytes

record sender_chain_key =
  sckey_iteration :: u32
  sckey_chain_key :: bytes

text \<open>
  The struct is allocated without being cleared, and its destructor frees the three
  buffers it points to: every error after the allocation reads uninitialised pointers.
\<close>

definition sender_message_key_create ::
  "signal_context \<Rightarrow> u32 \<Rightarrow> bytes option \<Rightarrow> sender_message_key result" where
  "sender_message_key_create G iteration seed =
     (case seed of None \<Rightarrow> Inl SG_ERR_INVAL
      | Some s \<Rightarrow>
         (case hkdf_create 3 of (status, kdf) \<Rightarrow>
            SIGNAL_UNREF kdf
              (case status of Inl e \<Rightarrow> Inl C_UNDEFINED
               | Inr _ \<Rightarrow>
              (case deref kdf of Inl e \<Rightarrow> Inl e
               | Inr context \<Rightarrow>
              (case hkdf_derive_secrets G context s (replicate HASH_OUTPUT_SIZE 0)
                      (Some (ascii ''WhisperGroup'')) 48 of Inl e \<Rightarrow> Inl C_UNDEFINED
               | Inr derivative \<Rightarrow>
                  (if length derivative \<noteq> 48 then Inl C_UNDEFINED
                   else Inr \<lparr>smkey_iteration = iteration, smkey_iv = take 16 derivative,
                             smkey_cipher_key = take 32 (drop 16 derivative), smkey_seed = s\<rparr>))))))"

definition sender_chain_key_create :: "u32 \<Rightarrow> bytes option \<Rightarrow> sender_chain_key result" where
  "sender_chain_key_create iteration chain_key =
     (case chain_key of None \<Rightarrow> Inl SG_ERR_INVAL
      | Some k \<Rightarrow> Inr \<lparr>sckey_iteration = iteration, sckey_chain_key = k\<rparr>)"

definition sender_chain_key_get_derivative :: "signal_context \<Rightarrow> u8 \<Rightarrow> bytes \<Rightarrow> bytes result" where
  "sender_chain_key_get_derivative G seed key = signal_hmac_sha256 G key [[seed]]"

definition sender_chain_key_create_message_key ::
  "signal_context \<Rightarrow> sender_chain_key \<Rightarrow> sender_message_key result" where
  "sender_chain_key_create_message_key G key =
     (case sender_chain_key_get_derivative G 0x01 (sckey_chain_key key) of Inl e \<Rightarrow> Inl e
      | Inr derivative \<Rightarrow> sender_message_key_create G (sckey_iteration key) (Some derivative))"

definition sender_chain_key_create_next :: "signal_context \<Rightarrow> sender_chain_key \<Rightarrow> sender_chain_key result" where
  "sender_chain_key_create_next G key =
     (case sender_chain_key_get_derivative G 0x02 (sckey_chain_key key) of Inl e \<Rightarrow> Inl e
      | Inr derivative \<Rightarrow> sender_chain_key_create (sckey_iteration key + 1) (Some derivative))"

section \<open>Laws\<close>

text \<open>
  A message key is the expansion of its seed: the key that \<open>sender_message_key_create\<close>
  makes of the stored iteration and seed is the stored key.
\<close>

definition smkey_ok :: "signal_context \<Rightarrow> sender_message_key \<Rightarrow> bool" where
  "smkey_ok G k \<longleftrightarrow>
     sender_message_key_create G (smkey_iteration k) (Some (smkey_seed k)) = Inr k \<and> length (smkey_seed k) = 32"

text \<open>
  The chain key of a distribution message has whatever length the sender gave it; a chain
  key is taken to be small when it has at most \<open>2 ^ 24\<close> bytes, far more than the 32 bytes
  of an HMAC, so that a record of such states fits the serialiser.
\<close>

definition sckey_ok :: "sender_chain_key \<Rightarrow> bool" where
  "sckey_ok k \<longleftrightarrow> length (sckey_chain_key k) \<le> 2 ^ 24"

lemma sender_message_key_create_inv:
  "sender_message_key_create G n s = Inr k \<Longrightarrow>
     smkey_iteration k = n \<and> s = Some (smkey_seed k) \<and> length (smkey_iv k) = 16 \<and> length (smkey_cipher_key k) = 32"
  by (auto simp: sender_message_key_create_def split: option.splits sum.splits if_splits)

lemma sender_chain_key_create_next_index:
  "sender_chain_key_create_next G ck = Inr ck' \<Longrightarrow> sckey_iteration ck' = sckey_iteration ck + 1"
  by (auto simp: sender_chain_key_create_next_def sender_chain_key_create_def result_simps)

lemma sender_chain_key_create_message_key_inv:
  "sender_chain_key_create_message_key G ck = Inr mk \<Longrightarrow>
     smkey_iteration mk = sckey_iteration ck \<and> length (smkey_iv mk) = 16 \<and> length (smkey_cipher_key mk) = 32 \<and>
     sender_message_key_create G (smkey_iteration mk) (Some (smkey_seed mk)) = Inr mk"
  using sender_message_key_create_inv [of G "sckey_iteration ck" _ mk]
  by (auto simp: sender_chain_key_create_message_key_def result_simps)

lemma sender_chain_key_create_next_hmac:
  "hmac_sha256_of G hm \<Longrightarrow>
     sender_chain_key_create_next G ck
       = Inr \<lparr>sckey_iteration = sckey_iteration ck + 1, sckey_chain_key = hm (sckey_chain_key ck) [2]\<rparr>"
  by (simp add: sender_chain_key_create_next_def sender_chain_key_get_derivative_def
      sender_chain_key_create_def signal_hmac_sha256_ok)

lemma sender_message_key_create_total:
  assumes "hmac_sha256_of G hm"
  shows "\<exists>k. sender_message_key_create G n (Some s) = Inr k"
  using hkdf_derive_secrets_small [OF assms, of 3 "\<lparr>iteration_start_offset = 1\<rparr>" 48] rfc_hkdf_length [OF assms]
  by (simp add: sender_message_key_create_def hkdf_create_def)

lemma sender_chain_key_create_message_key_total:
  assumes "hmac_sha256_of G hm"
  shows "\<exists>mk. sender_chain_key_create_message_key G ck = Inr mk \<and> smkey_ok G mk"
proof -
  let ?s = "hm (sckey_chain_key ck) [1]"
  have d: "sender_chain_key_get_derivative G 1 (sckey_chain_key ck) = Inr ?s"
    by (simp add: sender_chain_key_get_derivative_def signal_hmac_sha256_ok [OF assms])
  obtain k where k: "sender_message_key_create G (sckey_iteration ck) (Some ?s) = Inr k"
    using sender_message_key_create_total [OF assms] by blast
  with d have "sender_chain_key_create_message_key G ck = Inr k"
    by (simp add: sender_chain_key_create_message_key_def)
  moreover have "smkey_ok G k"
    using k sender_message_key_create_inv [OF k] hmac_sha256_of_length [OF assms, of "sckey_chain_key ck" "[1]"]
    by (simp add: smkey_ok_def)
  ultimately show ?thesis by blast
qed

lemma sckey_ok_next:
  "\<lbrakk>hmac_sha256_of G hm; sender_chain_key_create_next G ck = Inr ck'\<rbrakk> \<Longrightarrow> sckey_ok ck'"
  by (auto simp: sender_chain_key_create_next_hmac sckey_ok_def hmac_sha256_of_length)

lemma smkey_ok_made:
  "\<lbrakk>hmac_sha256_of G hm; sender_chain_key_create_message_key G ck = Inr mk\<rbrakk> \<Longrightarrow> smkey_ok G mk"
  using sender_chain_key_create_message_key_total [of G hm ck] by auto

end
