(* ===== verification/Sender_Key_State.thy ===== *)
theory Sender_Key_State
  imports Sender_Key Session_State_Laws
begin

text \<open>
  \<^verbatim>\<open>sender_key_state.c\<close> and \<^verbatim>\<open>sender_key_record.c\<close>: what a group member keeps of one sender,
  the chain with the keys of the messages it has skipped and the signature key, and the
  record of at most five such states, newest first.  The laws: the two bounds, a new state
  is the first one found under its id, the invariant of states and records, and the
  serialised form, which stores seeds and derives the keys again when it is read.
\<close>

definition SENDER_MAX_MESSAGE_KEYS :: nat where "SENDER_MAX_MESSAGE_KEYS = 2000"
definition MAX_STATES :: nat where "MAX_STATES = 5"

record sender_key_state =
  sks_key_id :: u32
  sks_chain_key :: sender_chain_key
  sks_signature_public_key :: ec_public_key
  sks_signature_private_key :: "ec_private_key option"
  sks_message_keys :: "sender_message_key list"

definition sender_key_state_create ::
  "u32 \<Rightarrow> sender_chain_key option \<Rightarrow> ec_public_key option \<Rightarrow> ec_private_key option \<Rightarrow> sender_key_state result" where
  "sender_key_state_create key_id chain_key signature_public_key signature_private_key =
     (case (chain_key, signature_public_key) of
        (Some c, Some k) \<Rightarrow>
          Inr \<lparr>sks_key_id = key_id, sks_chain_key = c, sks_signature_public_key = k,
               sks_signature_private_key = signature_private_key, sks_message_keys = []\<rparr>
      | _ \<Rightarrow> Inl SG_ERR_INVAL)"

section \<open>Stored message keys\<close>

definition sender_key_state_set_chain_key :: "sender_key_state \<Rightarrow> sender_chain_key \<Rightarrow> sender_key_state" where
  "sender_key_state_set_chain_key state chain_key = state\<lparr>sks_chain_key := chain_key\<rparr>"

definition sender_key_state_has_sender_message_key :: "sender_key_state \<Rightarrow> u32 \<Rightarrow> bool" where
  "sender_key_state_has_sender_message_key state iteration \<longleftrightarrow>
     list_ex (\<lambda>k. smkey_iteration k = iteration) (sks_message_keys state)"

definition sender_key_state_add_sender_message_key ::
  "sender_key_state \<Rightarrow> sender_message_key \<Rightarrow> sender_key_state" where
  "sender_key_state_add_sender_message_key state message_key =
     state\<lparr>sks_message_keys := append_bounded SENDER_MAX_MESSAGE_KEYS message_key (sks_message_keys state)\<rparr>"

definition sender_key_state_remove_sender_message_key ::
  "sender_key_state \<Rightarrow> u32 \<Rightarrow> sender_message_key option \<times> sender_key_state" where
  "sender_key_state_remove_sender_message_key state iteration =
     (case List.find (\<lambda>k. smkey_iteration k = iteration) (sks_message_keys state) of
        None \<Rightarrow> (None, state)
      | Some k \<Rightarrow>
          (Some k, state\<lparr>sks_message_keys :=
             remove_first (\<lambda>k. smkey_iteration k = iteration) (sks_message_keys state)\<rparr>))"

section \<open>Serialised states\<close>

definition sender_key_state_serialize_prepare :: "sender_key_state \<Rightarrow> SenderKeyStateStructure result" where
  "sender_key_state_serialize_prepare state =
     (case ec_public_key_serialize_protobuf (Some (sks_signature_public_key state)) of Inl e \<Rightarrow> Inl e
      | Inr public \<Rightarrow>
         (case opt_result (\<lambda>k. ec_private_key_serialize_protobuf (Some k)) (sks_signature_private_key state) of
            Inl e \<Rightarrow> Inl e
          | Inr private \<Rightarrow>
             Inr \<lparr>sgk_senderkeyid = Some (sks_key_id state),
                  sgk_senderchainkey = Some \<lparr>sgc_iteration = Some (sckey_iteration (sks_chain_key state)),
                    sgc_seed = Some (sckey_chain_key (sks_chain_key state))\<rparr>,
                  sgk_sendersigningkey = Some \<lparr>sgs_public = Some public, sgs_private = private\<rparr>,
                  sgk_sendermessagekeys =
                    map (\<lambda>k. \<lparr>sgm_iteration = Some (smkey_iteration k), sgm_seed = Some (smkey_seed k)\<rparr>)
                      (sks_message_keys state)\<rparr>))"

definition sender_key_state_serialize :: "sender_key_state \<Rightarrow> bytes result" where
  "sender_key_state_serialize state =
     (case sender_key_state_serialize_prepare state of Inl e \<Rightarrow> Inl e
      | Inr s \<Rightarrow> pb_serialize sgk_desc (sgk_to_pb s))"

text \<open>The loop over the stored keys; an entry without iteration or seed is passed over.\<close>

fun deserialize_sender_message_keys ::
  "signal_context \<Rightarrow> sender_key_state \<Rightarrow> SenderMessageKey list \<Rightarrow> sender_key_state result" where
  "deserialize_sender_message_keys G state [] = Inr state"
| "deserialize_sender_message_keys G state (m # ms) =
     (case (sgm_iteration m, sgm_seed m) of
        (Some iteration, Some seed) \<Rightarrow>
          (case sender_message_key_create G iteration (Some seed) of Inl e \<Rightarrow> Inl e
           | Inr message_key \<Rightarrow>
               deserialize_sender_message_keys G
                 (sender_key_state_add_sender_message_key state message_key) ms)
      | _ \<Rightarrow> deserialize_sender_message_keys G state ms)"

definition deserialize_sender_chain_key :: "SenderChainKey option \<Rightarrow> sender_chain_key option result" where
  "deserialize_sender_chain_key senderchainkey =
     (case senderchainkey of None \<Rightarrow> Inr None
      | Some s \<Rightarrow>
         (case (sgc_iteration s, sgc_seed s) of
            (Some iteration, Some seed) \<Rightarrow>
              (case sender_chain_key_create iteration (Some seed) of Inl e \<Rightarrow> Inl e | Inr c \<Rightarrow> Inr (Some c))
          | _ \<Rightarrow> Inr None))"

definition sender_key_state_deserialize_protobuf ::
  "signal_context \<Rightarrow> SenderKeyStateStructure \<Rightarrow> sender_key_state result" where
  "sender_key_state_deserialize_protobuf G s =
     (case deserialize_sender_chain_key (sgk_senderchainkey s) of Inl e \<Rightarrow> Inl e
      | Inr chain_key \<Rightarrow>
     (case opt_result curve_decode_point (Option.bind (sgk_sendersigningkey s) sgs_public) of Inl e \<Rightarrow> Inl e
      | Inr signature_public_key \<Rightarrow>
     (case opt_result curve_decode_private_point (Option.bind (sgk_sendersigningkey s) sgs_private) of Inl e \<Rightarrow> Inl e
      | Inr signature_private_key \<Rightarrow>
     (case sgk_senderkeyid s of None \<Rightarrow> Inl SG_ERR_INVALID_PROTO_BUF
      | Some key_id \<Rightarrow>
         (if chain_key = None \<or> signature_public_key = None then Inl SG_ERR_INVALID_PROTO_BUF
          else
           (case sender_key_state_create key_id chain_key signature_public_key signature_private_key of Inl e \<Rightarrow> Inl e
            | Inr state \<Rightarrow> deserialize_sender_message_keys G state (sgk_sendermessagekeys s)))))))"

definition sender_key_state_deserialize :: "signal_context \<Rightarrow> bytes \<Rightarrow> sender_key_state result" where
  "sender_key_state_deserialize G data =
     (case pb_deserialize sgk_desc data of Inl e \<Rightarrow> Inl e
      | Inr m \<Rightarrow> sender_key_state_deserialize_protobuf G (sgk_of_pb m))"

definition sender_key_state_copy :: "signal_context \<Rightarrow> sender_key_state \<Rightarrow> sender_key_state result" where
  "sender_key_state_copy G other_state =
     (case sender_key_state_serialize other_state of Inl e \<Rightarrow> Inl e
      | Inr data \<Rightarrow> sender_key_state_deserialize G data)"

section \<open>Records\<close>

datatype sender_key_record = Sender_Key_Record (skr_states: "sender_key_state list")

definition sender_key_record_create :: sender_key_record where
  "sender_key_record_create = Sender_Key_Record []"

definition sender_key_record_serialize :: "sender_key_record \<Rightarrow> bytes result" where
  "sender_key_record_serialize record =
     (case map_result sender_key_state_serialize_prepare (skr_states record) of Inl e \<Rightarrow> Inl e
      | Inr states \<Rightarrow> pb_serialize sgr_desc (sgr_to_pb \<lparr>sgr_senderkeystates = states\<rparr>))"

definition sender_key_record_deserialize :: "signal_context \<Rightarrow> bytes \<Rightarrow> sender_key_record result" where
  "sender_key_record_deserialize G data =
     (case pb_deserialize sgr_desc data of Inl e \<Rightarrow> Inl e
      | Inr m \<Rightarrow>
         (case map_result (sender_key_state_deserialize_protobuf G) (sgr_senderkeystates (sgr_of_pb m)) of
            Inl e \<Rightarrow> Inl e
          | Inr states \<Rightarrow> Inr (Sender_Key_Record (skr_states sender_key_record_create @ states))))"

definition sender_key_record_copy :: "signal_context \<Rightarrow> sender_key_record \<Rightarrow> sender_key_record result" where
  "sender_key_record_copy G other_record =
     (case sender_key_record_serialize other_record of Inl e \<Rightarrow> Inl e
      | Inr data \<Rightarrow> sender_key_record_deserialize G data)"

definition sender_key_record_is_empty :: "sender_key_record \<Rightarrow> bool" where
  "sender_key_record_is_empty record \<longleftrightarrow> skr_states record = []"

definition sender_key_record_get_sender_key_state :: "sender_key_record \<Rightarrow> sender_key_state result" where
  "sender_key_record_get_sender_key_state record =
     (case skr_states record of [] \<Rightarrow> Inl SG_ERR_INVALID_KEY_ID | state # _ \<Rightarrow> Inr state)"

definition sender_key_record_get_sender_key_state_by_id ::
  "sender_key_record \<Rightarrow> u32 \<Rightarrow> sender_key_state result" where
  "sender_key_record_get_sender_key_state_by_id record key_id =
     (case List.find (\<lambda>state. sks_key_id state = key_id) (skr_states record) of
        None \<Rightarrow> Inl SG_ERR_INVALID_KEY_ID | Some state \<Rightarrow> Inr state)"

definition sender_key_record_add_sender_key_state_impl ::
  "sender_key_record \<Rightarrow> u32 \<Rightarrow> u32 \<Rightarrow> bytes option \<Rightarrow> ec_public_key option \<Rightarrow> ec_private_key option
     \<Rightarrow> sender_key_record result" where
  "sender_key_record_add_sender_key_state_impl record key_id iteration chain_key signature_public_key
       signature_private_key =
     (case sender_chain_key_create iteration chain_key of Inl e \<Rightarrow> Inl e
      | Inr chain_key_element \<Rightarrow>
         (case sender_key_state_create key_id (Some chain_key_element) signature_public_key signature_private_key of
            Inl e \<Rightarrow> Inl e
          | Inr state \<Rightarrow> Inr (Sender_Key_Record (prepend_bounded MAX_STATES state (skr_states record)))))"

definition sender_key_record_add_sender_key_state ::
  "sender_key_record \<Rightarrow> u32 \<Rightarrow> u32 \<Rightarrow> bytes option \<Rightarrow> ec_public_key option \<Rightarrow> sender_key_record result" where
  "sender_key_record_add_sender_key_state record key_id iteration chain_key signature_key =
     sender_key_record_add_sender_key_state_impl record key_id iteration chain_key signature_key None"

definition sender_key_record_set_sender_key_state ::
  "sender_key_record \<Rightarrow> u32 \<Rightarrow> u32 \<Rightarrow> bytes option \<Rightarrow> ec_key_pair \<Rightarrow> sender_key_record result" where
  "sender_key_record_set_sender_key_state record key_id iteration chain_key signature_key_pair =
     sender_key_record_add_sender_key_state_impl (Sender_Key_Record []) key_id iteration chain_key
       (Some (kp_public_key signature_key_pair)) (Some (kp_private_key signature_key_pair))"

section \<open>Invariants\<close>

definition sks_ok :: "signal_context \<Rightarrow> sender_key_state \<Rightarrow> bool" where
  "sks_ok G st \<longleftrightarrow>
     sckey_ok (sks_chain_key st) \<and> pub_ok (sks_signature_public_key st) \<and>
     pred_option priv_ok (sks_signature_private_key st) \<and>
     list_all (smkey_ok G) (sks_message_keys st) \<and> length (sks_message_keys st) \<le> SENDER_MAX_MESSAGE_KEYS"

definition skr_ok :: "signal_context \<Rightarrow> sender_key_record \<Rightarrow> bool" where
  "skr_ok G r \<longleftrightarrow> list_all (sks_ok G) (skr_states r) \<and> length (skr_states r) \<le> MAX_STATES"

interpretation smks: bounded_list SENDER_MAX_MESSAGE_KEYS "append_bounded SENDER_MAX_MESSAGE_KEYS"
  by (rule bounded_list_append) (simp add: SENDER_MAX_MESSAGE_KEYS_def)

interpretation skss: bounded_list MAX_STATES "prepend_bounded MAX_STATES"
  by (rule bounded_list_prepend) (simp add: MAX_STATES_def)

lemma sks_ok_add:
  "\<lbrakk>sks_ok G st; smkey_ok G k\<rbrakk> \<Longrightarrow> sks_ok G (sender_key_state_add_sender_message_key st k)"
  by (simp add: sks_ok_def sender_key_state_add_sender_message_key_def smks.add_list_all smks.add_bound)

lemma sks_ok_set_chain_key:
  "\<lbrakk>sks_ok G st; sckey_ok c\<rbrakk> \<Longrightarrow> sks_ok G (sender_key_state_set_chain_key st c)"
  by (simp add: sks_ok_def sender_key_state_set_chain_key_def)

lemma sks_ok_remove:
  "\<lbrakk>sender_key_state_remove_sender_message_key st n = (k, st'); sks_ok G st\<rbrakk> \<Longrightarrow> sks_ok G st'"
  using remove_first_subset [of "\<lambda>k. smkey_iteration k = n" "sks_message_keys st"]
    remove_first_length [of "\<lambda>k. smkey_iteration k = n" "sks_message_keys st"]
  by (auto simp: sender_key_state_remove_sender_message_key_def sks_ok_def list_all_iff split: option.splits)

lemma skr_ok_add_impl:
  assumes "sender_key_record_add_sender_key_state_impl r kid n ck pk sk = Inr r'" "skr_ok G r"
    and "pred_option (\<lambda>d. length d \<le> 2 ^ 24) ck" "pred_option pub_ok pk" "pred_option priv_ok sk"
  shows "skr_ok G r'"
  using assms
  by (auto simp: sender_key_record_add_sender_key_state_impl_def sender_chain_key_create_def
      sender_key_state_create_def result_simps skr_ok_def sks_ok_def sckey_ok_def
      intro!: skss.add_list_all skss.add_bound split: option.splits)

text \<open>A state that was added is the one found under its id, and the one the sender uses.\<close>

lemma add_sender_key_state_first:
  assumes "sender_key_record_add_sender_key_state_impl r kid n ck pk sk = Inr r'"
  obtains c k where "ck = Some c" "pk = Some k"
    "skr_states r' = take MAX_STATES (\<lparr>sks_key_id = kid,
       sks_chain_key = \<lparr>sckey_iteration = n, sckey_chain_key = c\<rparr>, sks_signature_public_key = k,
       sks_signature_private_key = sk, sks_message_keys = []\<rparr> # skr_states r)"
  using assms that
  by (auto simp: sender_key_record_add_sender_key_state_impl_def sender_chain_key_create_def
      sender_key_state_create_def prepend_bounded_def dl_trim_last_take result_simps split: option.splits)

section \<open>Round trips\<close>

lemma deserialize_sender_message_keys_map:
  "\<lbrakk>list_all (smkey_ok G) ks; length (sks_message_keys st) + length ks \<le> SENDER_MAX_MESSAGE_KEYS\<rbrakk> \<Longrightarrow>
     deserialize_sender_message_keys G st
       (map (\<lambda>k. \<lparr>sgm_iteration = Some (smkey_iteration k), sgm_seed = Some (smkey_seed k)\<rparr>) ks)
     = Inr (st\<lparr>sks_message_keys := sks_message_keys st @ ks\<rparr>)"
  by (induction ks arbitrary: st)
     (simp_all add: smkey_ok_def sender_key_state_add_sender_message_key_def append_bounded_room)

definition sender_structure_small :: "SenderKeyStateStructure \<Rightarrow> bool" where
  "sender_structure_small s \<longleftrightarrow> length (pb_pack sgk_desc (sgk_to_pb s)) \<le> 2 ^ 25"

definition sender_key_structure :: "sender_key_state \<Rightarrow> SenderKeyStateStructure" where
  "sender_key_structure st =
     \<lparr>sgk_senderkeyid = Some (sks_key_id st),
      sgk_senderchainkey = Some \<lparr>sgc_iteration = Some (sckey_iteration (sks_chain_key st)),
        sgc_seed = Some (sckey_chain_key (sks_chain_key st))\<rparr>,
      sgk_sendersigningkey = Some \<lparr>sgs_public = Some (DJB_TYPE # pub_data (sks_signature_public_key st)),
        sgs_private = map_option priv_data (sks_signature_private_key st)\<rparr>,
      sgk_sendermessagekeys =
        map (\<lambda>k. \<lparr>sgm_iteration = Some (smkey_iteration k), sgm_seed = Some (smkey_seed k)\<rparr>) (sks_message_keys st)\<rparr>"

lemma sender_key_state_prepare_eq: "sender_key_state_serialize_prepare st = Inr (sender_key_structure st)"
  by (cases "sks_signature_private_key st")
     (simp_all add: sender_key_state_serialize_prepare_def ec_public_key_serialize_protobuf_def
       ec_private_key_serialize_protobuf_def sender_key_structure_def)

lemma sender_key_structure_size:
  assumes ok: "sks_ok G st"
  shows "sender_structure_small (sender_key_structure st)"
proof -
  have c: "length (pb_pack sgc_desc (sgc_to_pb \<lparr>sgc_iteration = Some n, sgc_seed = Some d\<rparr>)) \<le> 12 + 2 ^ 24"
    if "length d \<le> 2 ^ 24" for n d
    using that pb_bound_32 [of 1 "Some n"] pb_bound_bytes [of 2 "2 ^ 24" "Some d"]
    by (simp add: sgc_desc_def sgc_to_pb_def word_less_nat_alt)
  have g: "length (pb_pack sgs_desc (sgs_to_pb \<lparr>sgs_public = Some d, sgs_private = p\<rparr>)) \<le> 77"
    if "length d \<le> 33" "pred_option (\<lambda>d. length d \<le> 32) p" for d p
    using that pb_bound_bytes [of 1 33 "Some d"] pb_bound_bytes [of 2 32 p]
    by (simp add: sgs_desc_def sgs_to_pb_def word_less_nat_alt)
  have m: "length (pb_pack sgm_desc (sgm_to_pb \<lparr>sgm_iteration = Some n, sgm_seed = Some d\<rparr>)) \<le> 44"
    if "length d = 32" for n d
    using that pb_bound_32 [of 1 "Some n"] pb_bound_bytes [of 2 32 "Some d"]
    by (simp add: sgm_desc_def sgm_to_pb_def word_less_nat_alt)
  let ?s = "sender_key_structure st"
  have "pred_option (\<lambda>c. length (pb_pack sgc_desc (sgc_to_pb c)) \<le> 12 + 2 ^ 24) (sgk_senderchainkey ?s)"
    using ok c by (simp add: sender_key_structure_def sks_ok_def sckey_ok_def)
  moreover have "pred_option (\<lambda>g. length (pb_pack sgs_desc (sgs_to_pb g)) \<le> 77) (sgk_sendersigningkey ?s)"
    using ok g by (cases "sks_signature_private_key st")
      (simp_all add: sender_key_structure_def sks_ok_def pub_ok_def priv_ok_def)
  moreover have "list_all (\<lambda>m. length (pb_pack sgm_desc (sgm_to_pb m)) \<le> 44) (sgk_sendermessagekeys ?s)"
    using ok m by (auto simp: sender_key_structure_def sks_ok_def smkey_ok_def list_all_iff)
  moreover have "length (sgk_sendermessagekeys ?s) \<le> 2000"
    using ok by (simp add: sender_key_structure_def sks_ok_def SENDER_MAX_MESSAGE_KEYS_def)
  ultimately show ?thesis
    using pb_bound_32 [of 1 "sgk_senderkeyid ?s"]
      pb_bound_msg [of 2 sgc_desc sgc_to_pb "12 + 2 ^ 24" "sgk_senderchainkey ?s"]
      pb_bound_msg [of 3 sgs_desc sgs_to_pb 77 "sgk_sendersigningkey ?s"]
      pb_bound_msgs [of 4 sgm_desc sgm_to_pb 44 "sgk_sendermessagekeys ?s" 2000]
    by (simp add: sender_structure_small_def sgk_desc_def sgk_to_pb_def word_less_nat_alt)
qed

lemma sender_key_structure_read:
  assumes "sks_ok G st"
  shows "sender_key_state_deserialize_protobuf G (sender_key_structure st) = Inr st"
proof -
  have "opt_result curve_decode_private_point (map_option priv_data (sks_signature_private_key st))
      = Inr (sks_signature_private_key st)"
    using assms by (cases "sks_signature_private_key st") (auto simp: sks_ok_def curve_decode_private_inv)
  with assms show ?thesis
    by (simp add: sender_key_state_deserialize_protobuf_def deserialize_sender_chain_key_def
        sender_chain_key_create_def sender_key_state_create_def sks_ok_def deserialize_sender_message_keys_map
        sender_key_structure_def del: curve_consts)
qed

lemma sender_key_state_roundtrip:
  assumes "sks_ok G st" "sender_key_state_serialize st = Inr d"
  shows "sender_key_state_deserialize G d = Inr st"
proof -
  have d: "pb_serialize sgk_desc (sgk_to_pb (sender_key_structure st)) = Inr d"
    using assms(2) by (simp add: sender_key_state_serialize_def sender_key_state_prepare_eq)
  have "length d \<le> 2 ^ 28 - 32"
    using d sender_key_structure_size [OF assms(1)] by (simp add: sgk.serialize_ok sender_structure_small_def)
  from sgk.deserialize_small [OF d this] sender_key_structure_read [OF assms(1)] show ?thesis
    by (simp add: sender_key_state_deserialize_def)
qed

lemma sender_key_record_codec:
  assumes "skr_ok G r"
  obtains d where "sender_key_record_serialize r = Inr d" "sender_key_record_deserialize G d = Inr r"
    "length d < 2 ^ 31"
proof -
  let ?ss = "map sender_key_structure (skr_states r)"
  let ?s = "\<lparr>sgr_senderkeystates = ?ss\<rparr>"
  let ?d = "pb_pack sgr_desc (sgr_to_pb ?s)"
  have pack: "map_result sender_key_state_serialize_prepare (skr_states r) = Inr ?ss"
    using map_result_map [of "skr_states r" sender_key_state_serialize_prepare "\<lambda>x. x" sender_key_structure]
    by (simp add: sender_key_state_prepare_eq)
  have unpack: "map_result (sender_key_state_deserialize_protobuf G) ?ss = Inr (skr_states r)"
    using assms by (intro map_result_id) (auto simp: skr_ok_def list_all_iff sender_key_structure_read)
  have "list_all (\<lambda>s. length (pb_pack sgk_desc (sgk_to_pb s)) \<le> 2 ^ 25) ?ss"
    using assms sender_key_structure_size by (auto simp: skr_ok_def list_all_iff sender_structure_small_def)
  then have len: "length ?d \<le> 2 ^ 28 - 32"
    using assms pb_bound_msgs [of 1 sgk_desc sgk_to_pb "2 ^ 25" ?ss 5]
    by (simp add: sgr_desc_def sgr_to_pb_def skr_ok_def MAX_STATES_def word_less_nat_alt)
  have d: "pb_serialize sgr_desc (sgr_to_pb ?s) = Inr ?d" by (rule sgr.serialize_ok)
  show ?thesis
  proof (rule that)
    show "sender_key_record_serialize r = Inr ?d" using pack d by (simp add: sender_key_record_serialize_def)
    show "sender_key_record_deserialize G ?d = Inr r"
      using sgr.deserialize_small [OF d len] unpack
      by (simp add: sender_key_record_deserialize_def sender_key_record_create_def)
  qed (use len in simp)
qed

lemma sender_key_record_copy_id: "skr_ok G r \<Longrightarrow> sender_key_record_copy G r = Inr r"
  by (rule sender_key_record_codec [of G r]) (auto simp: sender_key_record_copy_def)

section \<open>Types of what is read\<close>

definition smkey_typed :: "signal_context \<Rightarrow> sender_message_key \<Rightarrow> bool" where
  "smkey_typed G k \<longleftrightarrow> length (smkey_iv k) = 16 \<and> length (smkey_cipher_key k) = 32 \<and>
     sender_message_key_create G (smkey_iteration k) (Some (smkey_seed k)) = Inr k"

definition sks_typed :: "signal_context \<Rightarrow> sender_key_state \<Rightarrow> bool" where
  "sks_typed G st \<longleftrightarrow> pub_ok (sks_signature_public_key st) \<and> pred_option priv_ok (sks_signature_private_key st) \<and>
     length (sks_message_keys st) \<le> SENDER_MAX_MESSAGE_KEYS \<and> list_all (smkey_typed G) (sks_message_keys st)"

lemma deserialize_sender_message_keys_typed:
  "\<lbrakk>deserialize_sender_message_keys G st ms = Inr st'; sks_typed G st\<rbrakk> \<Longrightarrow> sks_typed G st'"
proof (induction ms arbitrary: st)
  case (Cons m ms)
  show ?case
  proof (cases "\<exists>n d. sgm_iteration m = Some n \<and> sgm_seed m = Some d")
    case True
    then obtain n d where nd: "sgm_iteration m = Some n" "sgm_seed m = Some d" by blast
    with Cons.prems(1) obtain k where k: "sender_message_key_create G n (Some d) = Inr k"
      "deserialize_sender_message_keys G (sender_key_state_add_sender_message_key st k) ms = Inr st'"
      by (auto simp: result_simps)
    have "smkey_typed G k" using k(1) sender_message_key_create_inv [OF k(1)] by (auto simp: smkey_typed_def)
    then have "sks_typed G (sender_key_state_add_sender_message_key st k)"
      using Cons.prems(2)
      by (simp add: sks_typed_def sender_key_state_add_sender_message_key_def smks.add_list_all smks.add_bound)
    then show ?thesis by (rule Cons.IH [OF k(2)])
  next
    case False
    then have "deserialize_sender_message_keys G st ms = Inr st'" using Cons.prems(1) by (auto split: option.splits)
    then show ?thesis by (rule Cons.IH [OF _ Cons.prems(2)])
  qed
qed simp

lemma sender_key_state_deserialize_typed:
  assumes "sender_key_state_deserialize_protobuf G s = Inr st"
  shows "sks_typed G st"
proof -
  obtain ck pk' sk kid st0 where "opt_result curve_decode_point (Option.bind (sgk_sendersigningkey s) sgs_public) = Inr pk'"
    "opt_result curve_decode_private_point (Option.bind (sgk_sendersigningkey s) sgs_private) = Inr sk"
    and st0: "sender_key_state_create kid ck pk' sk = Inr st0"
    and run: "deserialize_sender_message_keys G st0 (sgk_sendermessagekeys s) = Inr st"
    using assms unfolding sender_key_state_deserialize_protobuf_def case_result_Inr case_option_Inr guard_Inr by blast
  moreover obtain c pk where c: "ck = Some c" "pk' = Some pk"
    "st0 = \<lparr>sks_key_id = kid, sks_chain_key = c, sks_signature_public_key = pk,
      sks_signature_private_key = sk, sks_message_keys = []\<rparr>"
    using st0 by (auto simp: sender_key_state_create_def split: option.splits)
  ultimately have "pub_ok pk" "pred_option priv_ok sk"
    by (auto simp: opt_result_Inr option_rel_Some2 curve_decode_point_inv curve_decode_private_inv
        elim: option.rel_cases)
  then show ?thesis by (intro deserialize_sender_message_keys_typed [OF run]) (simp add: sks_typed_def c(3))
qed

lemma sender_key_record_deserialize_typed:
  assumes "sender_key_record_deserialize G d = Inr r"
  shows "list_all (sks_typed G) (skr_states r)"
proof -
  obtain m where "map_result (sender_key_state_deserialize_protobuf G) (sgr_senderkeystates (sgr_of_pb m)) = Inr (skr_states r)"
    using assms by (auto simp: sender_key_record_deserialize_def sender_key_record_create_def result_simps)
  then show ?thesis
    using sender_key_state_deserialize_typed by (auto simp: map_result_Inr list_all2_conv_all_nth list_all_length)
qed

end
