(* ===== verification/Group_Message.thy ===== *)
theory Group_Message
  imports Protocol
begin

text \<open>
  The group messages of \<^verbatim>\<open>protocol.c\<close>: the sender key message, signed over its whole wire form,
  and the distribution message that hands the chain of a sender to a group member.  The
  laws: what is created is read back from its wire form, a created message verifies under
  the sender's public key, and every way the two readers reject their input.
\<close>

definition SIGNATURE_LENGTH :: nat where "SIGNATURE_LENGTH = 64"

lemmas group_consts [simp] = SIGNATURE_LENGTH_def

record sender_key_message =
  skm_message_version :: u8
  skm_key_id :: u32
  skm_iteration :: u32
  skm_ciphertext :: bytes
  skm_serialized :: bytes

record sender_key_distribution_message =
  skd_id :: u32
  skd_iteration :: u32
  skd_chain_key :: bytes
  skd_signature_key :: ec_public_key
  skd_serialized :: bytes

section \<open>Sender key messages\<close>

definition sender_key_message_serialize ::
  "signal_context \<Rightarrow> u32 \<Rightarrow> u32 \<Rightarrow> bytes \<Rightarrow> ec_private_key \<Rightarrow> rng \<Rightarrow> bytes result \<times> rng" where
  "sender_key_message_serialize G key_id iteration ciphertext signature_key r =
     (case pb_serialize wsk_desc
             (wsk_to_pb \<lparr>wsk_id = Some key_id, wsk_iteration = Some iteration, wsk_ciphertext = Some ciphertext\<rparr>) of
        Inl e \<Rightarrow> (Inl e, r)
      | Inr body \<Rightarrow>
         (let data = version_byte CIPHERTEXT_CURRENT_VERSION # body in
          (case curve_calculate_signature G signature_key data r of
             (Inl e, r') \<Rightarrow> (Inl (if e = SG_ERR_INVALID_KEY then SG_ERR_UNKNOWN else e), r')
           | (Inr signature_buf, r') \<Rightarrow>
               (if length signature_buf \<noteq> SIGNATURE_LENGTH then (Inl SG_ERR_UNKNOWN, r')
                else (Inr (data @ signature_buf), r')))))"

definition sender_key_message_create ::
  "signal_context \<Rightarrow> u32 \<Rightarrow> u32 \<Rightarrow> bytes \<Rightarrow> ec_private_key \<Rightarrow> rng \<Rightarrow> sender_key_message result \<times> rng" where
  "sender_key_message_create G key_id iteration ciphertext signature_key r =
     (case sender_key_message_serialize G key_id iteration ciphertext signature_key r of
        (Inl e, r') \<Rightarrow> (Inl e, r')
      | (Inr message_buf, r') \<Rightarrow>
          (Inr \<lparr>skm_message_version = CIPHERTEXT_CURRENT_VERSION, skm_key_id = key_id,
                skm_iteration = iteration, skm_ciphertext = ciphertext, skm_serialized = message_buf\<rparr>, r'))"

definition sender_key_message_deserialize :: "bytes \<Rightarrow> sender_key_message result" where
  "sender_key_message_deserialize data =
     (if length data \<le> 1 + SIGNATURE_LENGTH then Inl SG_ERR_INVAL
      else
       (let version = version_of_byte (data ! 0);
            message_data = take (length data - 1 - SIGNATURE_LENGTH) (drop 1 data)
        in if version < CIPHERTEXT_CURRENT_VERSION then Inl SG_ERR_LEGACY_MESSAGE
           else if CIPHERTEXT_CURRENT_VERSION < version then Inl SG_ERR_INVALID_VERSION
           else
            (case pb_deserialize wsk_desc message_data of Inl e \<Rightarrow> Inl e
             | Inr m \<Rightarrow>
                (case (wsk_id (wsk_of_pb m), wsk_iteration (wsk_of_pb m), wsk_ciphertext (wsk_of_pb m)) of
                   (Some key_id, Some iteration, Some ciphertext) \<Rightarrow>
                     Inr \<lparr>skm_message_version = version, skm_key_id = key_id, skm_iteration = iteration,
                          skm_ciphertext = ciphertext, skm_serialized = data\<rparr>
                 | _ \<Rightarrow> Inl SG_ERR_INVALID_MESSAGE))))"

definition sender_key_message_copy :: "sender_key_message \<Rightarrow> sender_key_message result" where
  "sender_key_message_copy other_message = sender_key_message_deserialize (skm_serialized other_message)"

definition sender_key_message_verify_signature ::
  "signal_context \<Rightarrow> sender_key_message \<Rightarrow> ec_public_key \<Rightarrow> unit result" where
  "sender_key_message_verify_signature G message signature_key =
     (let data = skm_serialized message; data_len = length data - SIGNATURE_LENGTH
      in if length data < SIGNATURE_LENGTH then Inl C_UNDEFINED
         else
          (case curve_verify_signature G signature_key (take data_len data) (drop data_len data) of
             Inl e \<Rightarrow> Inl SG_ERR_INVALID_MESSAGE
           | Inr valid \<Rightarrow> (if valid then Inr () else Inl SG_ERR_INVALID_MESSAGE)))"

section \<open>Distribution messages\<close>

definition sender_key_distribution_message_serialize ::
  "u32 \<Rightarrow> u32 \<Rightarrow> bytes \<Rightarrow> ec_public_key \<Rightarrow> bytes result" where
  "sender_key_distribution_message_serialize key_id iteration chain_key signature_key =
     (case ec_public_key_serialize_protobuf (Some signature_key) of Inl e \<Rightarrow> Inl e
      | Inr signingkey \<Rightarrow>
         (case pb_serialize wsd_desc
                 (wsd_to_pb \<lparr>wsd_id = Some key_id, wsd_iteration = Some iteration, wsd_chainkey = Some chain_key,
                    wsd_signingkey = Some signingkey\<rparr>) of Inl e \<Rightarrow> Inl e
          | Inr body \<Rightarrow> Inr (version_byte CIPHERTEXT_CURRENT_VERSION # body)))"

definition sender_key_distribution_message_create ::
  "u32 \<Rightarrow> u32 \<Rightarrow> bytes \<Rightarrow> ec_public_key \<Rightarrow> sender_key_distribution_message result" where
  "sender_key_distribution_message_create key_id iteration chain_key signature_key =
     (case sender_key_distribution_message_serialize key_id iteration chain_key signature_key of Inl e \<Rightarrow> Inl e
      | Inr message_buf \<Rightarrow>
          Inr \<lparr>skd_id = key_id, skd_iteration = iteration, skd_chain_key = chain_key,
               skd_signature_key = signature_key, skd_serialized = message_buf\<rparr>)"

definition sender_key_distribution_message_deserialize :: "bytes \<Rightarrow> sender_key_distribution_message result" where
  "sender_key_distribution_message_deserialize data =
     (if length data \<le> 1 then Inl SG_ERR_INVAL
      else
       (let version = version_of_byte (data ! 0); message_data = drop 1 data
        in if version < CIPHERTEXT_CURRENT_VERSION then Inl SG_ERR_LEGACY_MESSAGE
           else if CIPHERTEXT_CURRENT_VERSION < version then Inl SG_ERR_INVALID_VERSION
           else
            (case pb_deserialize wsd_desc message_data of Inl e \<Rightarrow> Inl e
             | Inr m \<Rightarrow>
                (let s = wsd_of_pb m in
                 (case (wsd_id s, wsd_iteration s, wsd_chainkey s, wsd_signingkey s) of
                    (Some key_id, Some iteration, Some chain_key, Some signingkey) \<Rightarrow>
                      (case curve_decode_point signingkey of Inl e \<Rightarrow> Inl e
                       | Inr signature_key \<Rightarrow>
                          Inr \<lparr>skd_id = key_id, skd_iteration = iteration, skd_chain_key = chain_key,
                               skd_signature_key = signature_key, skd_serialized = data\<rparr>)
                  | _ \<Rightarrow> Inl SG_ERR_INVALID_MESSAGE)))))"

definition sender_key_distribution_message_copy ::
  "sender_key_distribution_message \<Rightarrow> sender_key_distribution_message result" where
  "sender_key_distribution_message_copy other_message =
     sender_key_distribution_message_deserialize (skd_serialized other_message)"

section \<open>Hypotheses on signatures\<close>

text \<open>
  Signing with a clamped private key succeeds with a 64-byte signature that verifies under
  the public half of the key (\<open>curve25519_signs\<close>), and the random source does not fail
  (\<open>random_total\<close>).  The law is for clamped keys only: the scalar multiplication of the signer
  (\<^verbatim>\<open>ge_scalarmult_base\<close>) requires a scalar below \<open>2 ^ 255\<close>.
\<close>

definition curve25519_signs :: "signal_context \<Rightarrow> bool" where
  "curve25519_signs G \<longleftrightarrow>
     (\<forall>sk msg rnd. clamped sk \<longrightarrow> length rnd = 64 \<longrightarrow>
        fst (curve25519_sign G sk msg rnd) = 0 \<and> length (snd (curve25519_sign G sk msg rnd)) = 64 \<and>
        curve25519_verify G (snd (curve25519_sign G sk msg rnd))
          (snd (curve25519_donna G sk curve25519_basepoint)) msg = 0)"

definition random_total :: "signal_context \<Rightarrow> bool" where
  "random_total G \<longleftrightarrow> (\<forall>n len. \<exists>f. random_func G n len = Inr f)"

lemma signal_crypto_random_total:
  "random_total G \<Longrightarrow> \<exists>d. signal_crypto_random G len r = (Inr d, Suc r) \<and> length d = len"
  unfolding random_total_def signal_crypto_random_def by (metis (no_types, lifting) diff_zero length_map length_upt old.sum.simps(6))

lemma curve_generate_key_pair_total:
  assumes "curve25519_dh G" "random_total G"
  shows "\<exists>kp. curve_generate_key_pair G r = (Inr kp, Suc r)"
proof -
  obtain d where d: "signal_crypto_random G 32 r = (Inr d, Suc r)" "length d = 32"
    using signal_crypto_random_total [OF assms(2)] by blast
  let ?sk = "d[0 := d ! 0 AND 248, 31 := d ! 31 AND 127 OR 64]"
  have "length ?sk = 32" using d(2) by simp
  then obtain pk where "curve25519_donna G ?sk curve25519_basepoint = (0, pk)"
    using curve25519_donna_ok [OF assms(1) _ curve25519_basepoint_length] by blast
  with d show ?thesis
    by (simp add: curve_generate_key_pair_def curve_generate_private_key_def curve_generate_public_key_def Let_def)
qed

lemma curve_calculate_signature_total:
  assumes "curve25519_signs G" "random_total G" "signing_pair_ok G p"
  shows "\<exists>sig. curve_calculate_signature G (kp_private_key p) msg r = (Inr sig, Suc r) \<and> length sig = 64 \<and>
    curve_verify_signature G (kp_public_key p) msg sig = Inr True"
proof -
  let ?sk = "priv_data (kp_private_key p)"
  obtain rnd where rnd: "signal_crypto_random G 64 r = (Inr rnd, Suc r)" "length rnd = 64"
    using signal_crypto_random_total [OF assms(2)] by blast
  have len: "clamped ?sk" using assms(3) by (simp add: signing_pair_ok_def)
  have pub: "pub_data (kp_public_key p) = snd (curve25519_donna G ?sk curve25519_basepoint)"
    using assms(3) by (cases "kp_public_key p")
      (auto simp: signing_pair_ok_def key_pair_ok_def curve_generate_public_key_def split: prod.splits if_splits)
  obtain sig where sig: "curve25519_sign G ?sk msg rnd = (0, sig)" "length sig = 64"
    "curve25519_verify G sig (pub_data (kp_public_key p)) msg = 0"
    using assms(1) len rnd(2) pub unfolding curve25519_signs_def by (metis prod.collapse)
  with rnd show ?thesis by (simp add: curve_calculate_signature_def curve_verify_signature_def)
qed

section \<open>Laws\<close>

lemma wsk_body: "pb_serialize wsk_desc (wsk_to_pb s) = Inr body \<Longrightarrow> wsk_id s \<noteq> None \<Longrightarrow> body \<noteq> []"
  unfolding wsk.serialize_ok
  by (auto simp: wsk_desc_def wsk_to_pb_def pb_opt_def tag_pack_small word_less_nat_alt)

lemma sender_key_message_create_cases:
  assumes "sender_key_message_create G kid n ct sk r = (Inr m, r')"
  obtains body sig where
    "pb_serialize wsk_desc (wsk_to_pb \<lparr>wsk_id = Some kid, wsk_iteration = Some n, wsk_ciphertext = Some ct\<rparr>) = Inr body"
    "curve_calculate_signature G sk (version_byte 3 # body) r = (Inr sig, r')" "length sig = 64"
    "m = \<lparr>skm_message_version = 3, skm_key_id = kid, skm_iteration = n, skm_ciphertext = ct,
       skm_serialized = (version_byte 3 # body) @ sig\<rparr>"
  using assms that
  by (auto simp: sender_key_message_create_def sender_key_message_serialize_def Let_def
      split: sum.splits prod.splits if_splits)

lemma sender_key_message_roundtrip:
  assumes create: "sender_key_message_create G kid n ct sk r = (Inr m, r')"
    and len: "length (skm_serialized m) < 2 ^ 31"
  shows "sender_key_message_deserialize (skm_serialized m) = Inr m"
proof -
  obtain body sig where
    body: "pb_serialize wsk_desc (wsk_to_pb \<lparr>wsk_id = Some kid, wsk_iteration = Some n, wsk_ciphertext = Some ct\<rparr>) = Inr body"
    and sig: "length sig = 64" and m: "m = \<lparr>skm_message_version = 3, skm_key_id = kid, skm_iteration = n,
       skm_ciphertext = ct, skm_serialized = (version_byte 3 # body) @ sig\<rparr>"
    by (rule sender_key_message_create_cases [OF create])
  have ne: "body \<noteq> []" using wsk_body [OF body] by simp
  have ver: "version_of_byte (version_byte 3) = 3"
    by (rule version_of_version_byte) (simp add: word_less_nat_alt)
  have "length body < 2 ^ 31" using len m by simp
  from wsk.deserialize_serialize [OF body this] show ?thesis
    using m sig ne ver by (simp add: sender_key_message_deserialize_def Let_def not_le)
qed

lemma sender_key_message_create_verify:
  assumes "sender_key_message_create G kid n ct (kp_private_key p) r = (Inr m, r')"
    and "curve25519_signs G" "random_total G" "signing_pair_ok G p"
  shows "sender_key_message_verify_signature G m (kp_public_key p) = Inr ()"
proof -
  obtain body sig where sig: "curve_calculate_signature G (kp_private_key p) (version_byte 3 # body) r = (Inr sig, r')"
    "length sig = 64" and m: "skm_serialized m = (version_byte 3 # body) @ sig"
    by (rule sender_key_message_create_cases [OF assms(1)]) auto
  have len: "length (skm_serialized m) - 64 = Suc (length body)" using m sig(2) by simp
  have "curve_verify_signature G (kp_public_key p) (version_byte 3 # body) sig = Inr True"
    using curve_calculate_signature_total [OF assms(2-4), of "version_byte 3 # body" r] sig(1) by auto
  with m sig(2) len show ?thesis by (simp add: sender_key_message_verify_signature_def Let_def)
qed

lemma sender_key_message_create_total:
  assumes "curve25519_signs G" "random_total G" "signing_pair_ok G p"
  shows "\<exists>m. sender_key_message_create G kid n ct (kp_private_key p) r = (Inr m, Suc r)
    \<and> skm_key_id m = kid \<and> skm_iteration m = n \<and> skm_ciphertext m = ct"
proof -
  let ?body = "pb_pack wsk_desc (wsk_to_pb \<lparr>wsk_id = Some kid, wsk_iteration = Some n, wsk_ciphertext = Some ct\<rparr>)"
  obtain sig where "curve_calculate_signature G (kp_private_key p) (version_byte 3 # ?body) r = (Inr sig, Suc r)"
    "length sig = 64"
    using curve_calculate_signature_total [OF assms] by blast
  then show ?thesis
    by (simp add: sender_key_message_create_def sender_key_message_serialize_def wsk.serialize_ok)
qed

lemma distribution_message_create_eq:
  "sender_key_distribution_message_create kid n ck pk =
     Inr \<lparr>skd_id = kid, skd_iteration = n, skd_chain_key = ck, skd_signature_key = pk,
       skd_serialized = version_byte 3 # pb_pack wsd_desc (wsd_to_pb \<lparr>wsd_id = Some kid,
         wsd_iteration = Some n, wsd_chainkey = Some ck, wsd_signingkey = Some (DJB_TYPE # pub_data pk)\<rparr>)\<rparr>"
  by (simp add: sender_key_distribution_message_create_def sender_key_distribution_message_serialize_def
      ec_public_key_serialize_protobuf_def wsd.serialize_ok)

lemma distribution_message_roundtrip:
  assumes create: "sender_key_distribution_message_create kid n ck pk = Inr m"
    and pk: "pub_ok pk" and len: "length (skd_serialized m) < 2 ^ 31"
  shows "sender_key_distribution_message_deserialize (skd_serialized m) = Inr m"
proof -
  let ?s = "\<lparr>wsd_id = Some kid, wsd_iteration = Some n, wsd_chainkey = Some ck,
    wsd_signingkey = Some (DJB_TYPE # pub_data pk)\<rparr>"
  let ?body = "pb_pack wsd_desc (wsd_to_pb ?s)"
  have m: "m = \<lparr>skd_id = kid, skd_iteration = n, skd_chain_key = ck, skd_signature_key = pk,
      skd_serialized = version_byte 3 # ?body\<rparr>"
    using create by (simp add: distribution_message_create_eq)
  have ne: "?body \<noteq> []"
    by (simp add: wsd_desc_def wsd_to_pb_def pb_opt_def tag_pack_small word_less_nat_alt)
  have ver: "version_of_byte (version_byte 3) = 3"
    by (rule version_of_version_byte) (simp add: word_less_nat_alt)
  have "length ?body < 2 ^ 31" using len m by simp
  from wsd.deserialize_serialize [OF wsd.serialize_ok this] show ?thesis
    unfolding m using ne ver curve_decode_serialize [OF pk]
    by (simp add: sender_key_distribution_message_deserialize_def Let_def)
qed

end
