(* ===== verification/Pre_Keys.thy ===== *)
theory Pre_Keys
  imports Group_Message
begin

text \<open>
  \<^verbatim>\<open>session_pre_key.c\<close> and \<^verbatim>\<open>key_helper.c\<close>: pre-keys, signed pre-keys and the bundle a client
  publishes, their serialised form, and the generation of all long-term and group keys.
  The laws: both kinds of pre-key survive serialisation, the ids of a generated batch are
  distinct medium values that leave out the one of the last resort key, registration ids
  and sender key ids stay in their range, and a generated signed pre-key carries a
  signature that verifies under the identity key.
\<close>

definition PRE_KEY_MEDIUM_MAX_VALUE :: u32 where "PRE_KEY_MEDIUM_MAX_VALUE = 0xFFFFFF"

record session_pre_key =
  pk_id :: u32
  pk_key_pair :: ec_key_pair

record session_signed_pre_key =
  spk_key_id :: u32
  spk_key_pair :: ec_key_pair
  spk_key_timestamp :: u64
  spk_key_signature :: bytes

record session_pre_key_bundle =
  pkb_registration_id :: u32
  pkb_device_id :: int
  pkb_pre_key_id :: u32
  pkb_pre_key_public :: "ec_public_key option"
  pkb_signed_pre_key_id :: u32
  pkb_signed_pre_key_public :: "ec_public_key option"
  pkb_signed_pre_key_signature :: "bytes option"
  pkb_identity_key :: "ec_public_key option"

section \<open>Pre-keys\<close>

definition session_pre_key_create :: "u32 \<Rightarrow> ec_key_pair \<Rightarrow> session_pre_key" where
  "session_pre_key_create key_id key_pair = \<lparr>pk_id = key_id, pk_key_pair = key_pair\<rparr>"

definition session_pre_key_serialize :: "session_pre_key option \<Rightarrow> bytes result" where
  "session_pre_key_serialize pre_key =
     (case pre_key of None \<Rightarrow> Inl SG_ERR_INVAL
      | Some p \<Rightarrow>
         (case ec_public_key_serialize (Some (kp_public_key (pk_key_pair p))) of Inl e \<Rightarrow> Inl e
          | Inr public_buf \<Rightarrow>
             (case ec_private_key_serialize (Some (kp_private_key (pk_key_pair p))) of Inl e \<Rightarrow> Inl e
              | Inr private_buf \<Rightarrow>
                 pb_serialize spk_desc
                   (spk_to_pb \<lparr>spk_id = Some (pk_id p), spk_publickey = Some public_buf,
                      spk_privatekey = Some private_buf\<rparr>))))"

definition session_pre_key_deserialize :: "bytes \<Rightarrow> session_pre_key result" where
  "session_pre_key_deserialize data =
     (case pb_deserialize spk_desc data of Inl e \<Rightarrow> Inl e
      | Inr m \<Rightarrow>
         (case (spk_id (spk_of_pb m), spk_publickey (spk_of_pb m), spk_privatekey (spk_of_pb m)) of
            (Some key_id, Some publickey, Some privatekey) \<Rightarrow>
              (case curve_decode_point publickey of Inl e \<Rightarrow> Inl e
               | Inr public_key \<Rightarrow>
                  (case curve_decode_private_point privatekey of Inl e \<Rightarrow> Inl e
                   | Inr private_key \<Rightarrow>
                      Inr (session_pre_key_create key_id (ec_key_pair_create public_key private_key))))
          | _ \<Rightarrow> Inl SG_ERR_INVALID_KEY))"

section \<open>Signed pre-keys\<close>

text \<open>The two assertions of the constructor: a signature that is there and not empty.\<close>

definition session_signed_pre_key_create ::
  "u32 \<Rightarrow> u64 \<Rightarrow> ec_key_pair \<Rightarrow> bytes \<Rightarrow> session_signed_pre_key result" where
  "session_signed_pre_key_create key_id timestamp key_pair signature =
     (if signature = [] then Inl C_UNDEFINED
      else Inr \<lparr>spk_key_id = key_id, spk_key_pair = key_pair, spk_key_timestamp = timestamp,
                spk_key_signature = signature\<rparr>)"

definition session_signed_pre_key_serialize :: "session_signed_pre_key \<Rightarrow> bytes result" where
  "session_signed_pre_key_serialize p =
     (case ec_public_key_serialize (Some (kp_public_key (spk_key_pair p))) of Inl e \<Rightarrow> Inl e
      | Inr public_buf \<Rightarrow>
         (case ec_private_key_serialize (Some (kp_private_key (spk_key_pair p))) of Inl e \<Rightarrow> Inl e
          | Inr private_buf \<Rightarrow>
             pb_serialize ssp_desc
               (ssp_to_pb \<lparr>ssp_id = Some (spk_key_id p), ssp_publickey = Some public_buf,
                  ssp_privatekey = Some private_buf, ssp_signature = Some (spk_key_signature p),
                  ssp_timestamp = Some (spk_key_timestamp p)\<rparr>)))"

definition session_signed_pre_key_deserialize :: "bytes \<Rightarrow> session_signed_pre_key result" where
  "session_signed_pre_key_deserialize data =
     (case pb_deserialize ssp_desc data of Inl e \<Rightarrow> Inl e
      | Inr m \<Rightarrow>
         (let s = ssp_of_pb m in
          (case (ssp_id s, ssp_timestamp s, ssp_publickey s, ssp_privatekey s, ssp_signature s) of
             (Some key_id, Some timestamp, Some publickey, Some privatekey, Some signature) \<Rightarrow>
               (case curve_decode_point publickey of Inl e \<Rightarrow> Inl e
                | Inr public_key \<Rightarrow>
                   (case curve_decode_private_point privatekey of Inl e \<Rightarrow> Inl e
                    | Inr private_key \<Rightarrow>
                       session_signed_pre_key_create key_id timestamp
                         (ec_key_pair_create public_key private_key) signature))
           | _ \<Rightarrow> Inl SG_ERR_INVALID_KEY)))"

section \<open>Bundles\<close>

definition session_pre_key_bundle_create ::
  "u32 \<Rightarrow> int \<Rightarrow> u32 \<Rightarrow> ec_public_key option \<Rightarrow> u32 \<Rightarrow> ec_public_key option \<Rightarrow> bytes option
     \<Rightarrow> ec_public_key option \<Rightarrow> session_pre_key_bundle" where
  "session_pre_key_bundle_create registration_id device_id pre_key_id pre_key_public signed_pre_key_id
       signed_pre_key_public signature identity_key =
     \<lparr>pkb_registration_id = registration_id, pkb_device_id = device_id, pkb_pre_key_id = pre_key_id,
      pkb_pre_key_public = pre_key_public, pkb_signed_pre_key_id = signed_pre_key_id,
      pkb_signed_pre_key_public = signed_pre_key_public,
      pkb_signed_pre_key_signature = Option.bind signature nonnull, pkb_identity_key = identity_key\<rparr>"

section \<open>Key generation\<close>

text \<open>Four random bytes read through a \<^verbatim>\<open>uint32_t\<close>, lowest byte first.\<close>

definition random_u32 :: "bytes \<Rightarrow> u32" where
  "random_u32 d =
     ucast (d ! 0) OR push_bit 8 (ucast (d ! 1)) OR push_bit 16 (ucast (d ! 2)) OR push_bit 24 (ucast (d ! 3))"

definition signal_protocol_key_helper_generate_identity_key_pair ::
  "signal_context \<Rightarrow> rng \<Rightarrow> ratchet_identity_key_pair result \<times> rng" where
  "signal_protocol_key_helper_generate_identity_key_pair G r =
     (case curve_generate_key_pair G r of
        (Inl e, r') \<Rightarrow> (Inl e, r')
      | (Inr p, r') \<Rightarrow> (Inr (ratchet_identity_key_pair_create (kp_public_key p) (kp_private_key p)), r'))"

definition signal_protocol_key_helper_generate_registration_id ::
  "signal_context \<Rightarrow> int \<Rightarrow> rng \<Rightarrow> u32 result \<times> rng" where
  "signal_protocol_key_helper_generate_registration_id G extended_range r =
     (if extended_range \<noteq> 0 \<and> extended_range \<noteq> 1 then (Inl SG_ERR_INVAL, r)
      else
       (case signal_crypto_random G 4 r of
          (Inl e, r') \<Rightarrow> (Inl e, r')
        | (Inr d, r') \<Rightarrow>
            (Inr (random_u32 d mod (if extended_range = 0 then 16380 else 0x7FFFFFFE) + 1), r')))"

definition signal_protocol_key_helper_get_random_sequence ::
  "signal_context \<Rightarrow> int \<Rightarrow> rng \<Rightarrow> int result \<times> rng" where
  "signal_protocol_key_helper_get_random_sequence G max_value r =
     (case signal_crypto_random G 4 r of
        (Inl e, r') \<Rightarrow> (Inl e, r')
      | (Inr d, r') \<Rightarrow>
          (if max_value = 0 then Inl C_UNDEFINED
           else Inr (uint (random_u32 d AND 0x7FFFFFFF) mod \<bar>max_value\<bar>), r'))"

definition pre_key_id_at :: "u32 \<Rightarrow> nat \<Rightarrow> u32" where
  "pre_key_id_at start i = (start - 1 + of_nat i) mod (PRE_KEY_MEDIUM_MAX_VALUE - 1) + 1"

text \<open>The loop of \<^verbatim>\<open>signal_protocol_key_helper_generate_pre_keys\<close> from index \<open>i\<close>, \<open>n\<close> keys to go.\<close>

fun generate_pre_keys_from ::
  "signal_context \<Rightarrow> u32 \<Rightarrow> nat \<Rightarrow> nat \<Rightarrow> rng \<Rightarrow> session_pre_key list result \<times> rng" where
  "generate_pre_keys_from G start i 0 r = (Inr [], r)"
| "generate_pre_keys_from G start i (Suc n) r =
     (case curve_generate_key_pair G r of
        (Inl e, r') \<Rightarrow> (Inl e, r')
      | (Inr ec_pair, r') \<Rightarrow>
         (case generate_pre_keys_from G start (Suc i) n r' of
            (Inl e, r'') \<Rightarrow> (Inl e, r'')
          | (Inr nodes, r'') \<Rightarrow> (Inr (session_pre_key_create (pre_key_id_at start i) ec_pair # nodes), r'')))"

definition signal_protocol_key_helper_generate_pre_keys ::
  "signal_context \<Rightarrow> u32 \<Rightarrow> u32 \<Rightarrow> rng \<Rightarrow> session_pre_key list result \<times> rng" where
  "signal_protocol_key_helper_generate_pre_keys G start count r =
     generate_pre_keys_from G start 0 (unat count) r"

definition signal_protocol_key_helper_generate_last_resort_pre_key ::
  "signal_context \<Rightarrow> rng \<Rightarrow> session_pre_key result \<times> rng" where
  "signal_protocol_key_helper_generate_last_resort_pre_key G r =
     (case curve_generate_key_pair G r of
        (Inl e, r') \<Rightarrow> (Inl e, r')
      | (Inr ec_pair, r') \<Rightarrow> (Inr (session_pre_key_create PRE_KEY_MEDIUM_MAX_VALUE ec_pair), r'))"

definition signal_protocol_key_helper_generate_signed_pre_key ::
  "signal_context \<Rightarrow> ratchet_identity_key_pair \<Rightarrow> u32 \<Rightarrow> u64 \<Rightarrow> rng \<Rightarrow> session_signed_pre_key result \<times> rng" where
  "signal_protocol_key_helper_generate_signed_pre_key G identity_key_pair signed_pre_key_id timestamp r =
     (case curve_generate_key_pair G r of
        (Inl e, r1) \<Rightarrow> (Inl e, r1)
      | (Inr ec_pair, r1) \<Rightarrow>
         (case ec_public_key_serialize (Some (kp_public_key ec_pair)) of
            Inl e \<Rightarrow> (Inl e, r1)
          | Inr public_buf \<Rightarrow>
             (case curve_calculate_signature G (ik_private_key identity_key_pair) public_buf r1 of
                (Inl e, r2) \<Rightarrow> (Inl e, r2)
              | (Inr signature_buf, r2) \<Rightarrow>
                  (session_signed_pre_key_create signed_pre_key_id timestamp ec_pair signature_buf, r2))))"

definition signal_protocol_key_helper_generate_sender_signing_key ::
  "signal_context \<Rightarrow> rng \<Rightarrow> ec_key_pair result \<times> rng" where
  "signal_protocol_key_helper_generate_sender_signing_key G r = curve_generate_key_pair G r"

definition signal_protocol_key_helper_generate_sender_key :: "signal_context \<Rightarrow> rng \<Rightarrow> bytes result \<times> rng" where
  "signal_protocol_key_helper_generate_sender_key G r = signal_crypto_random G 32 r"

definition signal_protocol_key_helper_generate_sender_key_id :: "signal_context \<Rightarrow> rng \<Rightarrow> u32 result \<times> rng" where
  "signal_protocol_key_helper_generate_sender_key_id G r =
     (case signal_protocol_key_helper_get_random_sequence G (2 ^ 31 - 1) r of
        (Inl e, r') \<Rightarrow> (Inl e, r')
      | (Inr v, r') \<Rightarrow> (Inr (of_int v), r'))"

section \<open>Laws\<close>

lemma session_pre_key_roundtrip:
  assumes "session_pre_key_serialize (Some p) = Inr d"
    and ok: "pub_ok (kp_public_key (pk_key_pair p))" "priv_ok (kp_private_key (pk_key_pair p))"
  shows "session_pre_key_deserialize d = Inr p"
proof -
  let ?s = "\<lparr>spk_id = Some (pk_id p), spk_publickey = Some (DJB_TYPE # pub_data (kp_public_key (pk_key_pair p))),
    spk_privatekey = Some (priv_data (kp_private_key (pk_key_pair p)))\<rparr>"
  have d: "pb_serialize spk_desc (spk_to_pb ?s) = Inr d"
    using assms(1) by (simp add: session_pre_key_serialize_def ec_public_key_serialize_def ec_private_key_serialize_def)
  have "length (pb_pack spk_desc (spk_to_pb ?s)) < 2 ^ 31"
    using ok pb_bound_32 [of 1 "spk_id ?s"] pb_bound_bytes [of 2 33 "spk_publickey ?s"]
      pb_bound_bytes [of 3 32 "spk_privatekey ?s"]
    by (simp add: spk_desc_def spk_to_pb_def pub_ok_def priv_ok_def word_less_nat_alt)
  then have "length d < 2 ^ 31" using d unfolding spk.serialize_ok by simp
  from spk.deserialize_serialize [OF d this] show ?thesis
    using ok curve_decode_serialize [OF ok(1)]
      curve_decode_private_inv [of "priv_data (kp_private_key (pk_key_pair p))" "kp_private_key (pk_key_pair p)"]
    by (simp add: session_pre_key_deserialize_def session_pre_key_create_def ec_key_pair_create_def)
qed

lemma session_signed_pre_key_roundtrip:
  assumes "session_signed_pre_key_serialize p = Inr d" "length d < 2 ^ 31" "spk_key_signature p \<noteq> []"
    and ok: "pub_ok (kp_public_key (spk_key_pair p))" "priv_ok (kp_private_key (spk_key_pair p))"
  shows "session_signed_pre_key_deserialize d = Inr p"
proof -
  let ?s = "\<lparr>ssp_id = Some (spk_key_id p),
    ssp_publickey = Some (DJB_TYPE # pub_data (kp_public_key (spk_key_pair p))),
    ssp_privatekey = Some (priv_data (kp_private_key (spk_key_pair p))),
    ssp_signature = Some (spk_key_signature p), ssp_timestamp = Some (spk_key_timestamp p)\<rparr>"
  have d: "pb_serialize ssp_desc (ssp_to_pb ?s) = Inr d"
    using assms(1)
    by (simp add: session_signed_pre_key_serialize_def ec_public_key_serialize_def ec_private_key_serialize_def)
  from ssp.deserialize_serialize [OF d assms(2)] show ?thesis
    using assms(3) ok curve_decode_serialize [OF ok(1)]
      curve_decode_private_inv [of "priv_data (kp_private_key (spk_key_pair p))" "kp_private_key (spk_key_pair p)"]
    by (simp add: session_signed_pre_key_deserialize_def session_signed_pre_key_create_def ec_key_pair_create_def
        Let_def)
qed

lemma pre_key_id_unat:
  "unat (start - 1 :: u32) + i < 2 ^ 32 \<Longrightarrow>
     unat (pre_key_id_at start i) = (unat (start - 1) + i) mod 0xFFFFFE + 1"
proof -
  assume b: "unat (start - 1 :: u32) + i < 2 ^ 32"
  then have i: "unat (of_nat i :: u32) = i" by (simp add: unat_of_nat take_bit_nat_eq_self)
  with b have "unat (start - 1 + of_nat i) = unat (start - 1) + i"
    using unat_add_lem [of "start - 1" "of_nat i"] by simp
  then have m: "unat ((start - 1 + of_nat i) mod (PRE_KEY_MEDIUM_MAX_VALUE - 1)) = (unat (start - 1) + i) mod 0xFFFFFE"
    by (simp add: unat_mod PRE_KEY_MEDIUM_MAX_VALUE_def)
  moreover have "(unat (start - 1) + i) mod 0xFFFFFE + 1 < 2 ^ 32"
    using mod_less_divisor [of "0xFFFFFE" "unat (start - 1) + i"] by simp
  ultimately show ?thesis
    using unat_add_lem [of "(start - 1 + of_nat i) mod (PRE_KEY_MEDIUM_MAX_VALUE - 1)" 1]
    by (simp add: pre_key_id_at_def)
qed

lemma pre_key_id_range: "pre_key_id_at start i \<noteq> 0 \<and> pre_key_id_at start i < PRE_KEY_MEDIUM_MAX_VALUE"
proof -
  let ?m = "(start - 1 + of_nat i) mod (PRE_KEY_MEDIUM_MAX_VALUE - 1)"
  have lt: "unat ?m < 0xFFFFFE" by (simp add: unat_mod PRE_KEY_MEDIUM_MAX_VALUE_def)
  then have "unat (?m + 1) = unat ?m + 1" using unat_add_lem [of ?m 1] by simp
  with lt have "unat (pre_key_id_at start i) \<noteq> 0" "unat (pre_key_id_at start i) < 0xFFFFFF"
    unfolding pre_key_id_at_def by auto
  then show ?thesis by (auto simp: PRE_KEY_MEDIUM_MAX_VALUE_def word_less_nat_alt)
qed

lemma mod_inj_window: "\<lbrakk>(i :: nat) < j; j < i + n; (a + i) mod n = (a + j) mod n\<rbrakk> \<Longrightarrow> False"
  using mod_eq_dvd_iff_nat [of "a + i" "a + j" n] by (auto dest: dvd_imp_le)

lemma pre_key_ids_distinct:
  assumes "unat (start - 1 :: u32) + n \<le> 2 ^ 32" "n \<le> 0xFFFFFE"
  shows "distinct (map (pre_key_id_at start) [0..<n])"
proof -
  have "pre_key_id_at start i \<noteq> pre_key_id_at start j" if "i < j" "j < n" for i j
    using that assms mod_inj_window [of i j "0xFFFFFE" "unat (start - 1)"]
      pre_key_id_unat [of start i] pre_key_id_unat [of start j] by auto
  then have "inj_on (pre_key_id_at start) {0..<n}"
    unfolding inj_on_def by (metis atLeastLessThan_iff linorder_neqE_nat)
  then show ?thesis by (simp add: distinct_map)
qed

lemma generate_pre_keys_from_ids:
  "generate_pre_keys_from G start i n r = (Inr ks, r') \<Longrightarrow>
     map pk_id ks = map (pre_key_id_at start) [i..<i + n] \<and> r' = r + n \<and>
     (curve25519_dh G \<longrightarrow> list_all (\<lambda>k. key_pair_ok G (pk_key_pair k)) ks)"
proof (induction n arbitrary: i r ks)
  case (Suc n)
  then obtain p r1 ks1 where p: "curve_generate_key_pair G r = (Inr p, r1)"
    and ks: "generate_pre_keys_from G start (Suc i) n r1 = (Inr ks1, r')"
      "ks = session_pre_key_create (pre_key_id_at start i) p # ks1"
    by (auto split: prod.splits sum.splits)
  have r1: "r1 = Suc r"
    using p by (auto simp: curve_generate_key_pair_def split: prod.splits sum.splits
        dest: curve_generate_private_key_ok)
  have "[i..<i + Suc n] = i # [Suc i..<Suc i + n]" by (simp add: upt_conv_Cons del: upt_Suc)
  with Suc.IH [OF ks(1)] ks(2) p r1 curve_generate_key_pair_ok [OF _ p] show ?case
    by (simp add: session_pre_key_create_def del: upt_Suc)
qed simp

lemma registration_id_range:
  assumes "signal_protocol_key_helper_generate_registration_id G ext r = (Inr rid, r')"
  shows "rid \<noteq> 0 \<and> unat rid \<le> (if ext = 0 then 16380 else 2 ^ 31 - 2)"
proof -
  obtain d where rid: "rid = random_u32 d mod (if ext = 0 then 16380 else 0x7FFFFFFE) + 1"
    using assms by (auto simp: signal_protocol_key_helper_generate_registration_id_def
        split: if_splits prod.splits sum.splits)
  let ?R = "(if ext = 0 then 16380 else 0x7FFFFFFE) :: u32"
  have lt: "unat (random_u32 d mod ?R) < unat ?R" by (simp add: unat_mod)
  have R: "unat ?R = (if ext = 0 then 16380 else 2 ^ 31 - 2)" by simp
  have "unat (random_u32 d mod ?R + 1) = unat (random_u32 d mod ?R) + 1"
    using lt R unat_add_lem [of "random_u32 d mod ?R" 1] by (simp split: if_splits)
  then have "unat rid = unat (random_u32 d mod ?R) + 1" using rid by simp
  then have "unat rid \<noteq> 0" "unat rid \<le> unat ?R" using lt by auto
  then show ?thesis using R by auto
qed

lemma sender_key_id_range:
  assumes "signal_protocol_key_helper_generate_sender_key_id G r = (Inr kid, r')"
  shows "unat kid < 2 ^ 31 - 1"
proof -
  obtain d where "kid = of_int (uint (random_u32 d AND 0x7FFFFFFF) mod (2 ^ 31 - 1))"
    using assms by (auto simp: signal_protocol_key_helper_generate_sender_key_id_def
        signal_protocol_key_helper_get_random_sequence_def split: if_splits prod.splits sum.splits)
  then obtain v :: int where v: "kid = of_int v" "0 \<le> v" "v < 2 ^ 31 - 1" by simp
  then have "uint kid = v" by (simp add: uint_word_of_int take_bit_int_eq_self)
  with v(3) show ?thesis by (simp add: unat_eq_nat_uint nat_less_iff)
qed

lemma generate_signed_pre_key_verifies:
  assumes dh: "curve25519_dh G" "curve25519_signs G" "random_total G" and ik: "ik_ok G ik" "clamped (priv_data (ik_private_key ik))"
    and run: "signal_protocol_key_helper_generate_signed_pre_key G ik kid ts r = (Inr p, r')"
  shows "spk_key_id p = kid \<and> spk_key_timestamp p = ts \<and> key_pair_ok G (spk_key_pair p) \<and>
    curve_verify_signature G (ik_public_key ik) (DJB_TYPE # pub_data (kp_public_key (spk_key_pair p)))
      (spk_key_signature p) = Inr True"
proof -
  let ?ik = "\<lparr>kp_public_key = ik_public_key ik, kp_private_key = ik_private_key ik\<rparr>"
  obtain q r1 sig where q: "curve_generate_key_pair G r = (Inr q, r1)"
    and sig: "curve_calculate_signature G (ik_private_key ik) (DJB_TYPE # pub_data (kp_public_key q)) r1 = (Inr sig, r')"
    and p: "p = \<lparr>spk_key_id = kid, spk_key_pair = q, spk_key_timestamp = ts, spk_key_signature = sig\<rparr>"
    using run by (auto simp: signal_protocol_key_helper_generate_signed_pre_key_def ec_public_key_serialize_def
        session_signed_pre_key_create_def split: prod.splits sum.splits if_splits)
  have "curve_verify_signature G (ik_public_key ik) (DJB_TYPE # pub_data (kp_public_key q)) sig = Inr True"
    using curve_calculate_signature_total [OF dh(2,3), of ?ik "DJB_TYPE # pub_data (kp_public_key q)" r1] ik sig
    by (auto simp: ik_ok_def signing_pair_ok_def)
  with p curve_generate_key_pair_ok [OF dh(1) q] show ?thesis by simp
qed

end
