(* ===== verification/Group_Cipher.thy ===== *)
theory Group_Cipher
  imports Session_Cipher Sender_Key_State Pre_Keys
begin

text \<open>
  \<^verbatim>\<open>group_cipher.c\<close>, \<^verbatim>\<open>group_session_builder.c\<close> and the sender key store of \<^verbatim>\<open>signal_protocol.c\<close>:
  a member encrypts with its own sender chain and decrypts with the chain another member
  distributed.  As for pairwise sessions, a failing call leaves nothing of the loaded
  record behind; what reaches the store is what the last step writes.
\<close>

section \<open>The sender key store\<close>

record signal_protocol_sender_key_name =
  skn_group_id :: bytes
  skn_sender :: signal_protocol_address

record 's signal_protocol_sender_key_store =
  store_sender_key_func :: "signal_protocol_sender_key_name \<Rightarrow> bytes \<Rightarrow> 's \<Rightarrow> int \<times> 's"
  load_sender_key_func :: "signal_protocol_sender_key_name \<Rightarrow> 's \<Rightarrow> (int \<times> bytes option) \<times> 's"

definition signal_protocol_sender_key_store_key ::
  "'s signal_protocol_sender_key_store \<Rightarrow> signal_protocol_sender_key_name \<Rightarrow> sender_key_record \<Rightarrow> 's
     \<Rightarrow> unit result \<times> 's" where
  "signal_protocol_sender_key_store_key K sender_key_name record s =
     (case sender_key_record_serialize record of Inl e \<Rightarrow> (Inl e, s)
      | Inr buffer \<Rightarrow>
         (case store_sender_key_func K sender_key_name buffer s of (result, s') \<Rightarrow> (status_result result, s')))"

definition signal_protocol_sender_key_load_key ::
  "'s signal_protocol_sender_key_store \<Rightarrow> signal_context \<Rightarrow> signal_protocol_sender_key_name \<Rightarrow> 's
     \<Rightarrow> sender_key_record result \<times> 's" where
  "signal_protocol_sender_key_load_key K G sender_key_name s =
     (case load_sender_key_func K sender_key_name s of
        ((result, buffer), s') \<Rightarrow>
          ((if result < 0 then Inl (sg_error_of_code result)
            else if result = 0 then
              (case buffer of Some _ \<Rightarrow> Inl SG_ERR_UNKNOWN | None \<Rightarrow> Inr sender_key_record_create)
            else if result = 1 then
              (case buffer of None \<Rightarrow> Inl (sg_error_of_code (-1)) | Some data \<Rightarrow> sender_key_record_deserialize G data)
            else Inl SG_ERR_UNKNOWN), s'))"

section \<open>Message keys\<close>

text \<open>The \<^verbatim>\<open>while\<close> loop that stores the keys of the messages not received yet.\<close>

function skip_sender_keys ::
  "signal_context \<Rightarrow> u32 \<Rightarrow> sender_chain_key \<Rightarrow> sender_key_state \<Rightarrow> (sender_chain_key \<times> sender_key_state) result" where
  "skip_sender_keys G iteration chain_key state =
     (if sckey_iteration chain_key < iteration then
        (case sender_chain_key_create_message_key G chain_key of Inl e \<Rightarrow> Inl e
         | Inr message_key \<Rightarrow>
            (case sender_chain_key_create_next G chain_key of Inl e \<Rightarrow> Inl e
             | Inr next_chain_key \<Rightarrow>
                skip_sender_keys G iteration next_chain_key
                  (sender_key_state_add_sender_message_key state message_key)))
      else Inr (chain_key, state))"
  by pat_completeness auto
termination
  by (relation "measure (\<lambda>(G, n, ck, st). unat (n - sckey_iteration ck))")
     (auto dest!: sender_chain_key_create_next_index intro: skip_measure)

declare skip_sender_keys.simps [simp del]

definition group_cipher_get_sender_key ::
  "signal_context \<Rightarrow> sender_key_state \<Rightarrow> u32 \<Rightarrow> (sender_message_key \<times> sender_key_state) result" where
  "group_cipher_get_sender_key G state iteration =
     (let chain_key = sks_chain_key state in
      if iteration < sckey_iteration chain_key then
        (if sender_key_state_has_sender_message_key state iteration then
           (case sender_key_state_remove_sender_message_key state iteration of
              (Some result_key, state') \<Rightarrow> Inr (result_key, state')
            | (None, _) \<Rightarrow> Inl SG_ERR_UNKNOWN)
         else Inl SG_ERR_DUPLICATE_MESSAGE)
      else if 2000 < iteration - sckey_iteration chain_key then Inl SG_ERR_INVALID_MESSAGE
      else
        (case skip_sender_keys G iteration chain_key state of Inl e \<Rightarrow> Inl e
         | Inr (chain_key1, state1) \<Rightarrow>
            (case sender_chain_key_create_next G chain_key1 of Inl e \<Rightarrow> Inl e
             | Inr next_chain_key \<Rightarrow>
                (case sender_chain_key_create_message_key G chain_key1 of Inl e \<Rightarrow> Inl e
                 | Inr result_key \<Rightarrow> Inr (result_key, sender_key_state_set_chain_key state1 next_chain_key)))))"

section \<open>The cipher\<close>

record 's group_cipher =
  gc_sender_key_id :: signal_protocol_sender_key_name
  gc_decrypt_callback :: "(bytes \<Rightarrow> 's \<Rightarrow> int \<times> 's) option"
  gc_inside_callback :: bool

text \<open>\<^verbatim>\<open>group_cipher_encrypt\<close> between loading the record and storing it.\<close>

definition group_encrypt_from_record ::
  "signal_context \<Rightarrow> sender_key_record \<Rightarrow> bytes \<Rightarrow> rng \<Rightarrow> (sender_key_message \<times> sender_key_record) result \<times> rng" where
  "group_encrypt_from_record G record padded_plaintext r =
     (case sender_key_record_get_sender_key_state record of Inl e \<Rightarrow> (Inl e, r)
      | Inr state \<Rightarrow>
     (case sks_signature_private_key state of None \<Rightarrow> (Inl SG_ERR_NO_SESSION, r)
      | Some signing_key_private \<Rightarrow>
     (case sender_chain_key_create_message_key G (sks_chain_key state) of Inl e \<Rightarrow> (Inl e, r)
      | Inr sender_key \<Rightarrow>
     (case signal_encrypt G SG_CIPHER_AES_CBC_PKCS5 (smkey_cipher_key sender_key) (smkey_iv sender_key)
             padded_plaintext of Inl e \<Rightarrow> (Inl e, r)
      | Inr ciphertext \<Rightarrow>
     (case sender_key_message_create G (sks_key_id state) (smkey_iteration sender_key) ciphertext
             signing_key_private r of
        (Inl e, r') \<Rightarrow> (Inl e, r')
      | (Inr message, r') \<Rightarrow>
         ((case sender_chain_key_create_next G (sks_chain_key state) of Inl e \<Rightarrow> Inl e
           | Inr next_chain_key \<Rightarrow>
              Inr (message, Sender_Key_Record
                (sender_key_state_set_chain_key state next_chain_key # tl (skr_states record)))), r'))))))"

definition group_cipher_encrypt ::
  "'s signal_protocol_sender_key_store \<Rightarrow> signal_context \<Rightarrow> 's group_cipher \<Rightarrow> bytes \<Rightarrow> 's world
     \<Rightarrow> sender_key_message result \<times> 's world" where
  "group_cipher_encrypt K G cipher padded_plaintext w =
     (case (if gc_inside_callback cipher then (Inl SG_ERR_INVAL, w)
            else
             (case signal_protocol_sender_key_load_key K G (gc_sender_key_id cipher) (w_store w) of
                (Inl e, s1) \<Rightarrow> (Inl e, w\<lparr>w_store := s1\<rparr>)
              | (Inr record, s1) \<Rightarrow>
                 (case group_encrypt_from_record G record padded_plaintext (w_rng w) of
                    (Inl e, r) \<Rightarrow> (Inl e, \<lparr>w_store = s1, w_rng = r\<rparr>)
                  | (Inr (message, record'), r) \<Rightarrow>
                     (case signal_protocol_sender_key_store_key K (gc_sender_key_id cipher) record' s1 of
                        (Inl e, s2) \<Rightarrow> (Inl e, \<lparr>w_store = s2, w_rng = r\<rparr>)
                      | (Inr _, s2) \<Rightarrow> (Inr message, \<lparr>w_store = s2, w_rng = r\<rparr>))))) of
        (Inl e, w') \<Rightarrow> (Inl (if e = SG_ERR_INVALID_KEY_ID then SG_ERR_NO_SESSION else e), w')
      | (Inr message, w') \<Rightarrow> (Inr message, w'))"

text \<open>\<^verbatim>\<open>group_cipher_decrypt\<close> between loading the record and the callback.\<close>

definition group_decrypt_from_record ::
  "signal_context \<Rightarrow> sender_key_record \<Rightarrow> sender_key_message \<Rightarrow> (bytes \<times> sender_key_record) result" where
  "group_decrypt_from_record G record ciphertext =
     (if sender_key_record_is_empty record then Inl SG_ERR_NO_SESSION
      else
       (case sender_key_record_get_sender_key_state_by_id record (skm_key_id ciphertext) of Inl e \<Rightarrow> Inl e
        | Inr state \<Rightarrow>
       (case sender_key_message_verify_signature G ciphertext (sks_signature_public_key state) of Inl e \<Rightarrow> Inl e
        | Inr _ \<Rightarrow>
       (case group_cipher_get_sender_key G state (skm_iteration ciphertext) of Inl e \<Rightarrow> Inl e
        | Inr (sender_key, state') \<Rightarrow>
       (case signal_decrypt G SG_CIPHER_AES_CBC_PKCS5 (smkey_cipher_key sender_key) (smkey_iv sender_key)
               (skm_ciphertext ciphertext) of Inl e \<Rightarrow> Inl e
        | Inr plaintext \<Rightarrow>
           Inr (plaintext, Sender_Key_Record
             (update_first (\<lambda>st. sks_key_id st = skm_key_id ciphertext) (\<lambda>_. state') (skr_states record))))))))"

definition group_cipher_decrypt_callback :: "'s group_cipher \<Rightarrow> bytes \<Rightarrow> 's \<Rightarrow> unit result \<times> 's" where
  "group_cipher_decrypt_callback cipher plaintext s =
     (case gc_decrypt_callback cipher of None \<Rightarrow> (Inr (), s)
      | Some callback \<Rightarrow> (case callback plaintext s of (result, s') \<Rightarrow> (status_result result, s')))"

definition group_cipher_decrypt ::
  "'s signal_protocol_sender_key_store \<Rightarrow> signal_context \<Rightarrow> 's group_cipher \<Rightarrow> sender_key_message \<Rightarrow> 's
     \<Rightarrow> bytes result \<times> 's" where
  "group_cipher_decrypt K G cipher ciphertext s =
     (case (if gc_inside_callback cipher then (Inl SG_ERR_INVAL, s)
            else
             (case signal_protocol_sender_key_load_key K G (gc_sender_key_id cipher) s of
                (Inl e, s1) \<Rightarrow> (Inl e, s1)
              | (Inr record, s1) \<Rightarrow>
                 (case group_decrypt_from_record G record ciphertext of
                    Inl e \<Rightarrow> (Inl e, s1)
                  | Inr (plaintext, record') \<Rightarrow>
                     (case group_cipher_decrypt_callback cipher plaintext s1 of
                        (Inl e, s2) \<Rightarrow> (Inl e, s2)
                      | (Inr _, s2) \<Rightarrow>
                         (case signal_protocol_sender_key_store_key K (gc_sender_key_id cipher) record' s2 of
                            (Inl e, s3) \<Rightarrow> (Inl e, s3)
                          | (Inr _, s3) \<Rightarrow> (Inr plaintext, s3)))))) of
        (Inl e, s') \<Rightarrow>
          (Inl (if e = SG_ERR_INVALID_KEY \<or> e = SG_ERR_INVALID_KEY_ID then SG_ERR_INVALID_MESSAGE else e), s')
      | (Inr plaintext, s') \<Rightarrow> (Inr plaintext, s'))"

section \<open>Sessions\<close>

definition group_session_builder_process_session ::
  "'s signal_protocol_sender_key_store \<Rightarrow> signal_context \<Rightarrow> signal_protocol_sender_key_name
     \<Rightarrow> sender_key_distribution_message \<Rightarrow> 's \<Rightarrow> unit result \<times> 's" where
  "group_session_builder_process_session K G sender_key_name distribution_message s =
     (case signal_protocol_sender_key_load_key K G sender_key_name s of
        (Inl e, s1) \<Rightarrow> (Inl e, s1)
      | (Inr record, s1) \<Rightarrow>
         (case sender_key_record_add_sender_key_state record (skd_id distribution_message)
                 (skd_iteration distribution_message) (Some (skd_chain_key distribution_message))
                 (Some (skd_signature_key distribution_message)) of
            Inl e \<Rightarrow> (Inl e, s1)
          | Inr record' \<Rightarrow> signal_protocol_sender_key_store_key K sender_key_name record' s1))"

text \<open>The three draws for a record that is still empty, and the new state.\<close>

definition create_sender_key_state ::
  "signal_context \<Rightarrow> sender_key_record \<Rightarrow> rng \<Rightarrow> sender_key_record result \<times> rng" where
  "create_sender_key_state G record r =
     (case signal_protocol_key_helper_generate_sender_key_id G r of
        (Inl e, r1) \<Rightarrow> (Inl e, r1)
      | (Inr sender_key_id, r1) \<Rightarrow>
         (case signal_protocol_key_helper_generate_sender_key G r1 of
            (Inl e, r2) \<Rightarrow> (Inl e, r2)
          | (Inr sender_key, r2) \<Rightarrow>
             (case signal_protocol_key_helper_generate_sender_signing_key G r2 of
                (Inl e, r3) \<Rightarrow> (Inl e, r3)
              | (Inr sender_signing_key, r3) \<Rightarrow>
                  (sender_key_record_set_sender_key_state record sender_key_id 0 (Some sender_key) sender_signing_key,
                   r3))))"

definition distribution_of_record :: "sender_key_record \<Rightarrow> sender_key_distribution_message result" where
  "distribution_of_record record =
     (case sender_key_record_get_sender_key_state record of Inl e \<Rightarrow> Inl e
      | Inr state \<Rightarrow>
         sender_key_distribution_message_create (sks_key_id state) (sckey_iteration (sks_chain_key state))
           (sckey_chain_key (sks_chain_key state)) (sks_signature_public_key state))"

definition group_session_builder_create_session ::
  "'s signal_protocol_sender_key_store \<Rightarrow> signal_context \<Rightarrow> signal_protocol_sender_key_name \<Rightarrow> 's world
     \<Rightarrow> sender_key_distribution_message result \<times> 's world" where
  "group_session_builder_create_session K G sender_key_name w =
     (case signal_protocol_sender_key_load_key K G sender_key_name (w_store w) of
        (Inl e, s1) \<Rightarrow> (Inl e, w\<lparr>w_store := s1\<rparr>)
      | (Inr record, s1) \<Rightarrow>
         (if sender_key_record_is_empty record then
            (case create_sender_key_state G record (w_rng w) of
               (Inl e, r) \<Rightarrow> (Inl e, \<lparr>w_store = s1, w_rng = r\<rparr>)
             | (Inr record', r) \<Rightarrow>
                (case signal_protocol_sender_key_store_key K sender_key_name record' s1 of
                   (Inl e, s2) \<Rightarrow> (Inl e, \<lparr>w_store = s2, w_rng = r\<rparr>)
                 | (Inr _, s2) \<Rightarrow> (distribution_of_record record', \<lparr>w_store = s2, w_rng = r\<rparr>)))
          else (distribution_of_record record, w\<lparr>w_store := s1\<rparr>)))"

end
