(* ===== verification/Group_Cipher_Laws.thy ===== *)
theory Group_Cipher_Laws
  imports Group_Cipher Key_Dispenser
begin

text \<open>
  The chain of a group sender is a second instance of \<open>key_dispenser\<close>.  From it and the laws
  of records, messages and stores: the handlers keep the invariant of records, no message
  is decrypted twice, a failing decryption writes nothing, and what a member encrypts after
  distributing its chain every other member decrypts, in whatever order it arrives.
\<close>

abbreviation next_sck :: "signal_context \<Rightarrow> sender_chain_key \<Rightarrow> sender_chain_key result" where
  "next_sck \<equiv> sender_chain_key_create_next"

abbreviation sender_key_of :: "signal_context \<Rightarrow> sender_chain_key \<Rightarrow> sender_message_key result" where
  "sender_key_of \<equiv> sender_chain_key_create_message_key"

section \<open>The chain as a dispenser\<close>

definition discard_sender_key :: "u32 \<Rightarrow> sender_key_state \<Rightarrow> sender_key_state" where
  "discard_sender_key n st = snd (sender_key_state_remove_sender_message_key st n)"

lemma list_ex_find: "list_ex P xs \<longleftrightarrow> List.find P xs \<noteq> None"
  by (auto simp: find_None_iff list_ex_iff)

interpretation gk: key_dispenser sckey_iteration "next_sck G" "sender_key_of G" smkey_iteration
  "\<lambda>mk st. sender_key_state_add_sender_message_key st mk" sks_message_keys "skip_sender_keys G"
  "\<lambda>st. True" SENDER_MAX_MESSAGE_KEYS
  sks_chain_key "group_cipher_get_sender_key G" "\<lambda>c st. sender_key_state_set_chain_key st c" discard_sender_key
  for G
proof
  show "next_sck G c = Inr c' \<Longrightarrow> sckey_iteration c' = sckey_iteration c + 1" for c c'
    by (rule sender_chain_key_create_next_index)
  show "sender_key_of G c = Inr m \<Longrightarrow> smkey_iteration m = sckey_iteration c" for c m
    by (simp add: sender_chain_key_create_message_key_inv)
  show "set (sks_message_keys (sender_key_state_add_sender_message_key s m)) \<subseteq> insert m (set (sks_message_keys s))"
    for m s using smks.add_old by (simp add: sender_key_state_add_sender_message_key_def)
  show "distinct (map smkey_iteration (sks_message_keys (sender_key_state_add_sender_message_key s m)))"
    if "distinct (map smkey_iteration (sks_message_keys s))"
      "smkey_iteration m \<notin> smkey_iteration ` set (sks_message_keys s)" for s m
    using append_bounded_distinct [OF that] by (simp add: sender_key_state_add_sender_message_key_def)
  show "skip_sender_keys G n c s =
         (if sckey_iteration c < n then
            (case sender_key_of G c of Inl e \<Rightarrow> Inl e
             | Inr m \<Rightarrow> (case next_sck G c of Inl e \<Rightarrow> Inl e
                | Inr c' \<Rightarrow> skip_sender_keys G n c' (sender_key_state_add_sender_message_key s m)))
          else Inr (c, s))" for n c s
    by (subst skip_sender_keys.simps) simp
  show "sks_message_keys (sender_key_state_add_sender_message_key s m)
      = append_bounded SENDER_MAX_MESSAGE_KEYS m (sks_message_keys s)" for s m
    by (simp add: sender_key_state_add_sender_message_key_def)
  show "group_cipher_get_sender_key G s n = (case List.find (\<lambda>m. smkey_iteration m = n) (sks_message_keys s) of
      None \<Rightarrow> Inl SG_ERR_DUPLICATE_MESSAGE | Some m \<Rightarrow> Inr (m, discard_sender_key n s))"
    if "n < sckey_iteration (sks_chain_key s)" for s n
    using that by (auto simp: group_cipher_get_sender_key_def sender_key_state_has_sender_message_key_def
        sender_key_state_remove_sender_message_key_def discard_sender_key_def list_ex_find split: option.split)
  show "True \<and> sks_chain_key (discard_sender_key n s) = sks_chain_key s \<and>
      sks_message_keys (discard_sender_key n s) = remove_first (\<lambda>m. smkey_iteration m = n) (sks_message_keys s)"
    if "List.find (\<lambda>m. smkey_iteration m = n) (sks_message_keys s) = Some m" for s n m
    using that by (simp add: discard_sender_key_def sender_key_state_remove_sender_message_key_def)
  show "group_cipher_get_sender_key G s n = (if 2000 < n - sckey_iteration (sks_chain_key s)
      then Inl SG_ERR_INVALID_MESSAGE
      else (case skip_sender_keys G n (sks_chain_key s) s of Inl e \<Rightarrow> Inl e
        | Inr (c, s1) \<Rightarrow> (case next_sck G c of Inl e \<Rightarrow> Inl e
           | Inr c' \<Rightarrow> (case sender_key_of G c of Inl e \<Rightarrow> Inl e
              | Inr m \<Rightarrow> Inr (m, sender_key_state_set_chain_key s1 c')))))"
    if "sckey_iteration (sks_chain_key s) \<le> n" for s n
    using that by (simp add: group_cipher_get_sender_key_def not_less [symmetric])
  show "True \<and> sks_chain_key (sender_key_state_set_chain_key s c) = c \<and>
      sks_message_keys (sender_key_state_set_chain_key s c) = sks_message_keys s" for s c
    by (simp add: sender_key_state_set_chain_key_def)
qed simp_all

text \<open>The loop and the lookup touch the chain and its stored keys only.\<close>

definition same_sender :: "sender_key_state \<Rightarrow> sender_key_state \<Rightarrow> bool" where
  "same_sender st st' \<longleftrightarrow> sks_key_id st' = sks_key_id st \<and>
     sks_signature_public_key st' = sks_signature_public_key st \<and>
     sks_signature_private_key st' = sks_signature_private_key st"

lemma skip_sender_keys_frame: "skip_sender_keys G n c st = Inr (c', st') \<Longrightarrow> same_sender st st'"
proof (induction G n c st rule: skip_sender_keys.induct)
  case (1 G n c st)
  show ?case
  proof (cases "sckey_iteration c < n")
    case True
    with 1(2) obtain m c1 where m: "sender_key_of G c = Inr m" "next_sck G c = Inr c1"
      "skip_sender_keys G n c1 (sender_key_state_add_sender_message_key st m) = Inr (c', st')"
      by (auto simp: skip_sender_keys.simps [of G n c st] result_simps)
    from 1(1) [OF True m] show ?thesis
      by (simp add: same_sender_def sender_key_state_add_sender_message_key_def)
  qed (use 1(2) in \<open>simp add: skip_sender_keys.simps [of G n c st] same_sender_def\<close>)
qed

lemma get_sender_key_cases:
  assumes "group_cipher_get_sender_key G st n = Inr (mk, st')"
  obtains (stored) "n < sckey_iteration (sks_chain_key st)"
      "sender_key_state_remove_sender_message_key st n = (Some mk, st')"
  | (ahead) c st1 c' where "sckey_iteration (sks_chain_key st) \<le> n"
      "skip_sender_keys G n (sks_chain_key st) st = Inr (c, st1)" "next_sck G c = Inr c'" "sender_key_of G c = Inr mk"
      "st' = sender_key_state_set_chain_key st1 c'"
proof (cases "n < sckey_iteration (sks_chain_key st)")
  case True
  with assms stored show ?thesis
    by (auto simp: group_cipher_get_sender_key_def Let_def split: if_splits prod.splits option.splits)
next
  case False
  with assms ahead show ?thesis
    by (auto simp: group_cipher_get_sender_key_def Let_def result_simps not_less split: if_splits)
qed

lemma get_sender_key_frame: "group_cipher_get_sender_key G st n = Inr (mk, st') \<Longrightarrow> same_sender st st'"
  by (erule get_sender_key_cases)
     (auto simp: sender_key_state_remove_sender_message_key_def same_sender_def
       sender_key_state_set_chain_key_def dest!: skip_sender_keys_frame split: option.splits)

section \<open>Invariants\<close>

lemma skip_sender_keys_ok:
  assumes hm: "hmac_sha256_of G hm"
  shows "\<lbrakk>skip_sender_keys G n c st = Inr (c', st'); sks_ok G st\<rbrakk> \<Longrightarrow> sks_ok G st'"
  using hm
proof (induction G n c st rule: skip_sender_keys.induct)
  case (1 G n c st)
  show ?case
  proof (cases "sckey_iteration c < n")
    case True
    with 1(2) obtain m c1 where m: "sender_key_of G c = Inr m" "next_sck G c = Inr c1"
      "skip_sender_keys G n c1 (sender_key_state_add_sender_message_key st m) = Inr (c', st')"
      by (auto simp: skip_sender_keys.simps [of G n c st] result_simps)
    from 1(1) [OF True m sks_ok_add [OF 1(3) smkey_ok_made [OF 1(4) m(1)]] 1(4)] show ?thesis .
  qed (use 1 in \<open>simp add: skip_sender_keys.simps [of G n c st]\<close>)
qed

lemma get_sender_key_ok:
  assumes hm: "hmac_sha256_of G hm" and ok: "sks_ok G st"
    and run: "group_cipher_get_sender_key G st n = Inr (mk, st')"
  shows "sks_ok G st'"
  using run
proof (cases rule: get_sender_key_cases)
  case stored
  show ?thesis by (rule sks_ok_remove [OF stored(2) ok])
next
  case (ahead c st1 c')
  show ?thesis unfolding ahead(5)
    by (rule sks_ok_set_chain_key [OF skip_sender_keys_ok [OF hm ahead(2) ok] sckey_ok_next [OF hm ahead(3)]])
qed

lemma group_decrypt_cases:
  assumes "group_decrypt_from_record G rec m = Inr (p, rec')"
  obtains st mk st' where "List.find (\<lambda>st. sks_key_id st = skm_key_id m) (skr_states rec) = Some st"
    "sender_key_message_verify_signature G m (sks_signature_public_key st) = Inr ()"
    "group_cipher_get_sender_key G st (skm_iteration m) = Inr (mk, st')"
    "signal_decrypt G SG_CIPHER_AES_CBC_PKCS5 (smkey_cipher_key mk) (smkey_iv mk) (skm_ciphertext m) = Inr p"
    "rec' = Sender_Key_Record (update_first (\<lambda>st. sks_key_id st = skm_key_id m) (\<lambda>_. st') (skr_states rec))"
  using assms that
  by (auto simp: group_decrypt_from_record_def sender_key_record_get_sender_key_state_by_id_def result_simps
      split: if_splits option.splits)

lemma group_encrypt_cases:
  assumes "group_encrypt_from_record G rec p r = (Inr (m, rec'), r')"
  obtains st sts sk mk ct c' where "skr_states rec = st # sts" "sks_signature_private_key st = Some sk"
    "sender_key_of G (sks_chain_key st) = Inr mk"
    "signal_encrypt G SG_CIPHER_AES_CBC_PKCS5 (smkey_cipher_key mk) (smkey_iv mk) p = Inr ct"
    "sender_key_message_create G (sks_key_id st) (smkey_iteration mk) ct sk r = (Inr m, r')"
    "next_sck G (sks_chain_key st) = Inr c'"
    "rec' = Sender_Key_Record (sender_key_state_set_chain_key st c' # sts)"
  using assms that
  by (auto simp: group_encrypt_from_record_def sender_key_record_get_sender_key_state_def
      split: list.splits option.splits sum.splits prod.splits)

lemma group_decrypt_ok:
  assumes hm: "hmac_sha256_of G hm" and ok: "skr_ok G rec"
    and run: "group_decrypt_from_record G rec m = Inr (p, rec')"
  shows "skr_ok G rec'"
proof -
  obtain st mk st' where f: "List.find (\<lambda>st. sks_key_id st = skm_key_id m) (skr_states rec) = Some st"
    and k: "group_cipher_get_sender_key G st (skm_iteration m) = Inr (mk, st')"
    and rec': "rec' = Sender_Key_Record (update_first (\<lambda>st. sks_key_id st = skm_key_id m) (\<lambda>_. st') (skr_states rec))"
    by (rule group_decrypt_cases [OF run])
  have "sks_ok G st" using find_Some_set [OF f] ok by (auto simp: skr_ok_def list_all_iff)
  then have "sks_ok G st'" by (rule get_sender_key_ok [OF hm _ k])
  with ok rec' show ?thesis by (simp add: skr_ok_def update_first_list_all)
qed

lemma group_encrypt_ok:
  assumes hm: "hmac_sha256_of G hm" and ok: "skr_ok G rec"
    and run: "group_encrypt_from_record G rec p r = (Inr (m, rec'), r')"
  shows "skr_ok G rec'"
proof -
  obtain st sts c' where st: "skr_states rec = st # sts" "next_sck G (sks_chain_key st) = Inr c'"
    "rec' = Sender_Key_Record (sender_key_state_set_chain_key st c' # sts)"
    by (rule group_encrypt_cases [OF run])
  with ok sckey_ok_next [OF hm st(2)] show ?thesis by (simp add: skr_ok_def sks_ok_set_chain_key)
qed

section \<open>No message twice\<close>

abbreviation sk_view :: "sender_key_state \<Rightarrow> dispenser" where
  "sk_view \<equiv> dispenser_view sckey_iteration smkey_iteration sks_chain_key sks_message_keys"

abbreviation sk_inv :: "signal_context \<Rightarrow> sender_chain_key \<Rightarrow> sender_key_state \<Rightarrow> bool" where
  "sk_inv G base st \<equiv>
     chain_inv sckey_iteration (next_sck G) (sender_key_of G) smkey_iteration base (sks_chain_key st) (sks_message_keys st)"

definition skr_consistent :: "signal_context \<Rightarrow> sender_key_record \<Rightarrow> bool" where
  "skr_consistent G rec \<longleftrightarrow> list_all (\<lambda>st. \<exists>base. sk_inv G base st) (skr_states rec)"

definition message_spent :: "u32 \<times> u32 \<Rightarrow> sender_key_record \<Rightarrow> bool" where
  "message_spent kn rec \<longleftrightarrow>
     (\<exists>st. List.find (\<lambda>st. sks_key_id st = fst kn) (skr_states rec) = Some st \<and> spent (unat (snd kn)) (sk_view st))"

lemma get_sender_key_refines:
  assumes hm: "hmac_sha256_of G hm" and inv: "sk_inv G base st" and n: "n \<noteq> - 1"
  shows "case dispense SENDER_MAX_MESSAGE_KEYS (unat n) (sk_view st) of
      Inl e \<Rightarrow> group_cipher_get_sender_key G st n = Inl e
    | Inr d \<Rightarrow> \<exists>mk st'. group_cipher_get_sender_key G st n = Inr (mk, st') \<and> sk_inv G base st' \<and> sk_view st' = d \<and>
        message_at (next_sck G) (sender_key_of G) base (unat n - unat (sckey_iteration base)) = Inr mk"
  using gk.take_refines [of "\<lambda>_. True" G st base n] sender_chain_key_create_message_key_total [OF hm]
    sender_chain_key_create_next_hmac [OF hm] inv n
  by (fastforce split: sum.splits)

lemma find_update_const:
  assumes "List.find P xs = Some x" "P y"
  shows "List.find P (update_first P (\<lambda>_. y) xs) = Some y"
  using find_update_first [of P "\<lambda>_. y" xs] assms by simp

lemma group_decrypt_step:
  assumes hm: "hmac_sha256_of G hm" and c: "skr_consistent G rec" and n: "skm_iteration m \<noteq> - 1"
    and run: "group_decrypt_from_record G rec m = Inr (p, rec')"
  shows "skr_consistent G rec' \<and> message_spent (skm_key_id m, skm_iteration m) rec' \<and>
    (\<forall>kn. message_spent kn rec \<longrightarrow> kn \<noteq> (skm_key_id m, skm_iteration m) \<and> message_spent kn rec')"
proof -
  let ?P = "\<lambda>k st. sks_key_id st = k" and ?k = "skm_key_id m" and ?n = "unat (skm_iteration m)"
  obtain st mk st' where f: "List.find (?P ?k) (skr_states rec) = Some st"
    and k: "group_cipher_get_sender_key G st (skm_iteration m) = Inr (mk, st')"
    and rec': "rec' = Sender_Key_Record (update_first (?P ?k) (\<lambda>_. st') (skr_states rec))"
    by (rule group_decrypt_cases [OF run])
  have kid: "sks_key_id st = ?k" "sks_key_id st' = ?k"
    using find_Some_set [OF f] get_sender_key_frame [OF k] by (auto simp: same_sender_def)
  from find_Some_set [OF f] c obtain base where inv: "sk_inv G base st" by (auto simp: skr_consistent_def list_all_iff)
  obtain d where d: "dispense SENDER_MAX_MESSAGE_KEYS ?n (sk_view st) = Inr d" "sk_inv G base st'" "sk_view st' = d"
    using get_sender_key_refines [OF hm inv n] k by (auto split: sum.splits)
  have f': "List.find (?P ?k) (skr_states rec') = Some st'"
    using f kid rec' by (simp add: find_update_const)
  have ok: "dispenser_ok (sk_view st)" using inv by (rule gk.view_ok)
  have "skr_consistent G rec'"
    using c d(2) rec' by (auto simp: skr_consistent_def intro!: update_first_list_all)
  moreover have "message_spent (?k, skm_iteration m) rec'"
    using f' dispense_spent [OF ok d(1)] d(3) by (simp add: message_spent_def)
  moreover have "kn \<noteq> (?k, skm_iteration m) \<and> message_spent kn rec'" if s: "message_spent kn rec" for kn
  proof (cases "fst kn = ?k")
    case True
    with s f have "spent (unat (snd kn)) (sk_view st)" by (simp add: message_spent_def)
    with d True f' spent_step [OF this d(1)] spent_refused [OF this, of SENDER_MAX_MESSAGE_KEYS] show ?thesis
      by (auto simp: message_spent_def)
  next
    case False
    then have "List.find (?P (fst kn)) (skr_states rec') = List.find (?P (fst kn)) (skr_states rec)"
      unfolding rec' by (simp, intro find_update_other) (use kid in auto)
    with s False show ?thesis by (auto simp: message_spent_def)
  qed
  ultimately show ?thesis by blast
qed

lemma group_decrypt_once:
  assumes hm: "hmac_sha256_of G hm"
  shows "\<lbrakk>skr_consistent G rec; \<forall>m \<in> set ms. skm_iteration m \<noteq> - 1;
     take_all (group_decrypt_from_record G) rec ms = Inr (ps, rec')\<rbrakk> \<Longrightarrow>
   distinct (map (\<lambda>m. (skm_key_id m, skm_iteration m)) ms) \<and>
   (\<forall>m \<in> set ms. \<not> message_spent (skm_key_id m, skm_iteration m) rec) \<and> skr_consistent G rec'"
proof (induction ms arbitrary: rec ps)
  case (Cons m ms)
  then obtain p rec1 ps1 where m: "group_decrypt_from_record G rec m = Inr (p, rec1)"
    "take_all (group_decrypt_from_record G) rec1 ms = Inr (ps1, rec')"
    by (auto simp: result_simps)
  have st: "skr_consistent G rec1" "message_spent (skm_key_id m, skm_iteration m) rec1"
    "\<And>kn. message_spent kn rec \<Longrightarrow> kn \<noteq> (skm_key_id m, skm_iteration m) \<and> message_spent kn rec1"
    using group_decrypt_step [OF hm Cons.prems(1) _ m(1)] Cons.prems(2) by auto
  from Cons.IH [OF st(1) _ m(2)] Cons.prems(2) st(2,3) show ?case by auto
qed simp

section \<open>What a sender key store promises\<close>

definition sender_key_store_of ::
  "'s signal_protocol_sender_key_store \<Rightarrow> ('s \<Rightarrow> signal_protocol_sender_key_name \<Rightarrow> bytes option) \<Rightarrow> bool" where
  "sender_key_store_of K get \<longleftrightarrow>
     (\<forall>a s. load_sender_key_func K a s = ((case get s a of None \<Rightarrow> (0, None) | Some d \<Rightarrow> (1, Some d)), s)) \<and>
     (\<forall>a d s. fst (store_sender_key_func K a d s) = 0 \<and>
        get (snd (store_sender_key_func K a d s)) = (get s)(a := Some d))"

text \<open>The record a store holds for a sender; none stored is the empty record.\<close>

definition sender_holds ::
  "signal_context \<Rightarrow> ('s \<Rightarrow> signal_protocol_sender_key_name \<Rightarrow> bytes option) \<Rightarrow> 's
     \<Rightarrow> signal_protocol_sender_key_name \<Rightarrow> sender_key_record \<Rightarrow> bool" where
  "sender_holds G get s a rec \<longleftrightarrow> skr_ok G rec \<and>
     (case get s a of None \<Rightarrow> rec = sender_key_record_create | Some d \<Rightarrow> sender_key_record_serialize rec = Inr d)"

lemma sender_holds_load:
  assumes "sender_key_store_of K get" "sender_holds G get s a rec"
  shows "signal_protocol_sender_key_load_key K G a s = (Inr rec, s)"
proof -
  have ok: "skr_ok G rec" using assms(2) by (simp add: sender_holds_def)
  obtain d' where "sender_key_record_serialize rec = Inr d'" "sender_key_record_deserialize G d' = Inr rec"
    by (rule sender_key_record_codec [OF ok])
  with assms show ?thesis
    by (auto simp: signal_protocol_sender_key_load_key_def sender_key_store_of_def sender_holds_def
        split: option.splits)
qed

lemma sender_holds_store:
  assumes "sender_key_store_of K get" "skr_ok G rec"
  obtains s' where "signal_protocol_sender_key_store_key K a rec s = (Inr (), s')" "sender_holds G get s' a rec"
    "\<And>b. b \<noteq> a \<Longrightarrow> get s' b = get s b"
proof -
  obtain d where d: "sender_key_record_serialize rec = Inr d"
    by (rule sender_key_record_codec [OF assms(2)])
  obtain s' where s': "store_sender_key_func K a d s = (0, s')" "get s' = (get s)(a := Some d)"
    using assms(1) unfolding sender_key_store_of_def by (metis prod.collapse)
  show ?thesis
    by (rule that [of s']) (use d s' assms(2) in
      \<open>simp_all add: signal_protocol_sender_key_store_key_def status_result_def sender_holds_def\<close>)
qed

section \<open>The handlers on a store\<close>

definition plain_cipher :: "'s group_cipher \<Rightarrow> signal_protocol_sender_key_name \<Rightarrow> bool" where
  "plain_cipher C a \<longleftrightarrow> gc_sender_key_id C = a \<and> gc_decrypt_callback C = None \<and> \<not> gc_inside_callback C"

definition group_decrypt_error :: "sg_error \<Rightarrow> sg_error" where
  "group_decrypt_error e =
     (if e = SG_ERR_INVALID_KEY \<or> e = SG_ERR_INVALID_KEY_ID then SG_ERR_INVALID_MESSAGE else e)"

lemma group_decrypt_handler_error:
  assumes "sender_key_store_of K get" "sender_holds G get s a rec" "plain_cipher C a"
    and "group_decrypt_from_record G rec m = Inl e"
  shows "group_cipher_decrypt K G C m s = (Inl (group_decrypt_error e), s)"
  using assms sender_holds_load [OF assms(1,2)]
  by (simp add: group_cipher_decrypt_def plain_cipher_def group_decrypt_error_def)

lemma group_decrypt_handler:
  assumes "sender_key_store_of K get" "sender_holds G get s a rec" "plain_cipher C a" "hmac_sha256_of G hm"
    and "group_decrypt_from_record G rec m = Inr (p, rec')"
  shows "\<exists>s'. group_cipher_decrypt K G C m s = (Inr p, s') \<and> sender_holds G get s' a rec'"
proof -
  have "skr_ok G rec'" using assms(2) by (intro group_decrypt_ok [OF assms(4) _ assms(5)]) (simp add: sender_holds_def)
  then obtain s' where "signal_protocol_sender_key_store_key K a rec' s = (Inr (), s')" "sender_holds G get s' a rec'"
    by (rule sender_holds_store [OF assms(1), of G rec' a s]) blast
  with assms sender_holds_load [OF assms(1,2)] show ?thesis
    by (simp add: group_cipher_decrypt_def plain_cipher_def group_cipher_decrypt_callback_def)
qed

lemma group_encrypt_handler:
  assumes "sender_key_store_of K get" "sender_holds G get (w_store w) a rec" "plain_cipher C a" "hmac_sha256_of G hm"
    and "group_encrypt_from_record G rec p (w_rng w) = (Inr (m, rec'), r)"
  shows "\<exists>s'. group_cipher_encrypt K G C p w = (Inr m, \<lparr>w_store = s', w_rng = r\<rparr>) \<and> sender_holds G get s' a rec'"
proof -
  have "skr_ok G rec'" using assms(2) by (intro group_encrypt_ok [OF assms(4) _ assms(5)]) (simp add: sender_holds_def)
  then obtain s' where "signal_protocol_sender_key_store_key K a rec' (w_store w) = (Inr (), s')"
      "sender_holds G get s' a rec'"
    by (rule sender_holds_store [OF assms(1), of G rec' a "w_store w"]) blast
  with assms sender_holds_load [OF assms(1,2)] show ?thesis
    by (simp add: group_cipher_encrypt_def plain_cipher_def)
qed

text \<open>Runs of the handlers: all plaintexts in order, all messages in the order of arrival.\<close>

fun group_encrypt_all ::
  "'s signal_protocol_sender_key_store \<Rightarrow> signal_context \<Rightarrow> 's group_cipher \<Rightarrow> bytes list \<Rightarrow> 's world
     \<Rightarrow> sender_key_message list result \<times> 's world" where
  "group_encrypt_all K G C [] w = (Inr [], w)"
| "group_encrypt_all K G C (p # ps) w =
     (case group_cipher_encrypt K G C p w of
        (Inl e, w1) \<Rightarrow> (Inl e, w1)
      | (Inr m, w1) \<Rightarrow>
         (case group_encrypt_all K G C ps w1 of
            (Inl e, w2) \<Rightarrow> (Inl e, w2) | (Inr ms, w2) \<Rightarrow> (Inr (m # ms), w2)))"

fun group_decrypt_all ::
  "'s signal_protocol_sender_key_store \<Rightarrow> signal_context \<Rightarrow> 's group_cipher \<Rightarrow> sender_key_message list \<Rightarrow> 's
     \<Rightarrow> bytes list result \<times> 's" where
  "group_decrypt_all K G C [] s = (Inr [], s)"
| "group_decrypt_all K G C (m # ms) s =
     (case group_cipher_decrypt K G C m s of
        (Inl e, s1) \<Rightarrow> (Inl e, s1)
      | (Inr p, s1) \<Rightarrow>
         (case group_decrypt_all K G C ms s1 of
            (Inl e, s2) \<Rightarrow> (Inl e, s2) | (Inr ps, s2) \<Rightarrow> (Inr (p # ps), s2)))"

lemma group_decrypt_all_records:
  assumes "sender_key_store_of K get" "plain_cipher C a" "hmac_sha256_of G hm"
  shows "\<lbrakk>sender_holds G get s a rec; group_decrypt_all K G C ms s = (Inr ps, s')\<rbrakk> \<Longrightarrow>
     \<exists>rec'. take_all (group_decrypt_from_record G) rec ms = Inr (ps, rec') \<and> sender_holds G get s' a rec'"
proof (induction ms arbitrary: s rec ps)
  case (Cons m ms)
  then obtain p s1 ps1 where run: "group_cipher_decrypt K G C m s = (Inr p, s1)"
    "group_decrypt_all K G C ms s1 = (Inr ps1, s')" "ps = p # ps1"
    by (auto split: prod.splits sum.splits)
  then obtain q rec1 where d: "group_decrypt_from_record G rec m = Inr (q, rec1)"
    using group_decrypt_handler_error [OF assms(1) Cons.prems(1) assms(2)]
    by (cases "group_decrypt_from_record G rec m") auto
  from group_decrypt_handler [OF assms(1) Cons.prems(1) assms(2,3) d] run(1)
  have q: "q = p" "sender_holds G get s1 a rec1" by auto
  from Cons.IH [OF q(2) run(2)] d q(1) run(3) show ?case by auto
qed simp

section \<open>Delivery\<close>

definition group_sent ::
  "signal_context \<Rightarrow> sender_chain_key \<Rightarrow> u32 \<Rightarrow> ec_public_key \<Rightarrow> sender_key_message \<Rightarrow> bytes \<Rightarrow> bool" where
  "group_sent G base kid pk m p \<longleftrightarrow>
     skm_key_id m = kid \<and> sender_key_message_verify_signature G m pk = Inr () \<and>
     (\<exists>mk. message_at (next_sck G) (sender_key_of G) base (unat (skm_iteration m) - unat (sckey_iteration base)) = Inr mk \<and>
        length (smkey_cipher_key mk) = 32 \<and> length (smkey_iv mk) = 16 \<and>
        signal_encrypt G SG_CIPHER_AES_CBC_PKCS5 (smkey_cipher_key mk) (smkey_iv mk) p = Inr (skm_ciphertext m))"

definition group_sender ::
  "signal_context \<Rightarrow> sender_chain_key \<Rightarrow> u32 \<Rightarrow> ec_key_pair \<Rightarrow> nat \<Rightarrow> sender_key_record \<Rightarrow> bool" where
  "group_sender G base kid kp i rec \<longleftrightarrow>
     (\<exists>st sts. skr_states rec = st # sts \<and> sks_key_id st = kid \<and>
        sks_signature_public_key st = kp_public_key kp \<and> sks_signature_private_key st = Some (kp_private_key kp) \<and>
        unat (sckey_iteration (sks_chain_key st)) = i \<and> unat (sckey_iteration base) \<le> i \<and>
        chain_at (next_sck G) base (i - unat (sckey_iteration base)) = Inr (sks_chain_key st))"

definition group_receiver ::
  "signal_context \<Rightarrow> sender_chain_key \<Rightarrow> u32 \<Rightarrow> ec_public_key \<Rightarrow> nat set \<Rightarrow> sender_key_record \<Rightarrow> bool" where
  "group_receiver G base kid pk R rec \<longleftrightarrow>
     (\<exists>st. List.find (\<lambda>st. sks_key_id st = kid) (skr_states rec) = Some st \<and> sks_signature_public_key st = pk \<and>
        sk_inv G base st \<and> window_inv (unat (sckey_iteration base)) R (sk_view st))"

lemma group_encrypt_step:
  assumes hm: "hmac_sha256_of G hm" and ci: "cipher_inverse G" and sg: "curve25519_signs G" "random_total G" "signing_pair_ok G kp"
    and at: "group_sender G base kid kp i rec" and i: "i < 2 ^ 32 - 1"
  shows "\<exists>m rec'. group_encrypt_from_record G rec p r = (Inr (m, rec'), Suc r) \<and>
    group_sent G base kid (kp_public_key kp) m p \<and> unat (skm_iteration m) = i \<and> group_sender G base kid kp (Suc i) rec'"
proof -
  obtain st sts where st: "skr_states rec = st # sts" "sks_key_id st = kid"
    "sks_signature_public_key st = kp_public_key kp" "sks_signature_private_key st = Some (kp_private_key kp)"
    and c: "unat (sckey_iteration (sks_chain_key st)) = i" "unat (sckey_iteration base) \<le> i"
      "chain_at (next_sck G) base (i - unat (sckey_iteration base)) = Inr (sks_chain_key st)"
    using at by (auto simp: group_sender_def)
  obtain mk where mk: "sender_key_of G (sks_chain_key st) = Inr mk"
    using sender_chain_key_create_message_key_total [OF hm] by blast
  note mi = sender_chain_key_create_message_key_inv [OF mk]
  obtain ct where ct: "signal_encrypt G SG_CIPHER_AES_CBC_PKCS5 (smkey_cipher_key mk) (smkey_iv mk) p = Inr ct"
    using ci mi unfolding cipher_inverse_def signal_encrypt_def by metis
  obtain m where m: "sender_key_message_create G kid (smkey_iteration mk) ct (kp_private_key kp) r = (Inr m, Suc r)"
    "skm_key_id m = kid" "skm_iteration m = smkey_iteration mk" "skm_ciphertext m = ct"
    using sender_key_message_create_total [OF sg] by blast
  let ?c' = "\<lparr>sckey_iteration = sckey_iteration (sks_chain_key st) + 1, sckey_chain_key = hm (sckey_chain_key (sks_chain_key st)) [2]\<rparr>"
  have nx: "next_sck G (sks_chain_key st) = Inr ?c'" by (rule sender_chain_key_create_next_hmac [OF hm])
  have "sckey_iteration (sks_chain_key st) \<noteq> - 1"
    using c(1) i by (auto simp: unsigned_minus_1_eq_mask mask_eq_exp_minus_1)
  then have ui: "unat (sckey_iteration ?c') = Suc i" using gk.next_index_unat [OF nx] c(1) by simp
  have "chain_at (next_sck G) base (Suc i - unat (sckey_iteration base)) = Inr ?c'"
    using chain_at_step [OF c(3) nx] c(2) by (simp add: Suc_diff_le)
  then have "group_sender G base kid kp (Suc i) (Sender_Key_Record (sender_key_state_set_chain_key st ?c' # sts))"
    using st ui c(2) by (simp add: group_sender_def sender_key_state_set_chain_key_def)
  moreover have "group_sent G base kid (kp_public_key kp) m p"
    using m mi ct c mk sender_key_message_create_verify [OF m(1) sg]
    by (auto simp: group_sent_def message_at_def)
  moreover have "group_encrypt_from_record G rec p r
      = (Inr (m, Sender_Key_Record (sender_key_state_set_chain_key st ?c' # sts)), Suc r)"
    using st mk ct m(1) nx
    by (simp add: group_encrypt_from_record_def sender_key_record_get_sender_key_state_def)
  ultimately show ?thesis using m mi c(1) by auto
qed

lemma group_receive_step:
  assumes hm: "hmac_sha256_of G hm" and ci: "cipher_inverse G"
    and rc: "group_receiver G base kid pk R rec" and sent: "group_sent G base kid pk m p"
    and n: "unat (sckey_iteration base) \<le> unat (skm_iteration m)" "unat (skm_iteration m) \<notin> R" "skm_iteration m \<noteq> - 1"
      "unat (skm_iteration m) < unat (sckey_iteration base) + SENDER_MAX_MESSAGE_KEYS"
  shows "\<exists>rec'. group_decrypt_from_record G rec m = Inr (p, rec') \<and>
    group_receiver G base kid pk (insert (unat (skm_iteration m)) R) rec'"
proof -
  let ?P = "\<lambda>st. sks_key_id st = kid" and ?n = "unat (skm_iteration m)"
  obtain st where st: "List.find ?P (skr_states rec) = Some st" "sks_signature_public_key st = pk"
    "sk_inv G base st" "window_inv (unat (sckey_iteration base)) R (sk_view st)"
    using rc by (auto simp: group_receiver_def)
  obtain d where d: "dispense SENDER_MAX_MESSAGE_KEYS ?n (sk_view st) = Inr d"
    "window_inv (unat (sckey_iteration base)) (insert ?n R) d"
    using window_inv_step [OF st(4) n(1,4,2)] by (auto simp: SENDER_MAX_MESSAGE_KEYS_def)
  with get_sender_key_refines [OF hm st(3) n(3)] obtain mk st' where
    k: "group_cipher_get_sender_key G st (skm_iteration m) = Inr (mk, st')" "sk_inv G base st'" "sk_view st' = d"
      "message_at (next_sck G) (sender_key_of G) base (?n - unat (sckey_iteration base)) = Inr mk" by auto
  from sent k(4) have s: "skm_key_id m = kid" "sender_key_message_verify_signature G m pk = Inr ()"
    "length (smkey_cipher_key mk) = 32" "length (smkey_iv mk) = 16"
    "signal_encrypt G SG_CIPHER_AES_CBC_PKCS5 (smkey_cipher_key mk) (smkey_iv mk) p = Inr (skm_ciphertext m)"
    by (auto simp: group_sent_def)
  have dec: "signal_decrypt G SG_CIPHER_AES_CBC_PKCS5 (smkey_cipher_key mk) (smkey_iv mk) (skm_ciphertext m) = Inr p"
    using ci s(3-5) unfolding cipher_inverse_def signal_encrypt_def signal_decrypt_def by (metis sum.inject(2))
  let ?rec = "Sender_Key_Record (update_first ?P (\<lambda>_. st') (skr_states rec))"
  have fr: "sks_key_id st' = kid" "sks_signature_public_key st' = pk"
    using get_sender_key_frame [OF k(1)] find_Some_set [OF st(1)] st(2) by (auto simp: same_sender_def)
  have "group_decrypt_from_record G rec m = Inr (p, ?rec)"
    using st(1,2) s(1,2) k(1) dec
    by (auto simp: group_decrypt_from_record_def sender_key_record_is_empty_def
        sender_key_record_get_sender_key_state_by_id_def)
  moreover have "group_receiver G base kid pk (insert ?n R) ?rec"
    using find_update_const [OF st(1), of st'] fr k d by (simp add: group_receiver_def)
  ultimately show ?thesis by blast
qed

text \<open>Runs.\<close>

lemma group_encrypt_all_sent:
  assumes laws: "sender_key_store_of K get" "plain_cipher C a" "hmac_sha256_of G hm" "cipher_inverse G"
      "curve25519_signs G" "random_total G" "signing_pair_ok G kp"
  shows "\<lbrakk>sender_holds G get (w_store w) a rec; group_sender G base kid kp i rec; i + length ps \<le> 2 ^ 32 - 1\<rbrakk> \<Longrightarrow>
    \<exists>ms w'. group_encrypt_all K G C ps w = (Inr ms, w') \<and>
      list_all2 (group_sent G base kid (kp_public_key kp)) ms ps \<and>
      map (unat \<circ> skm_iteration) ms = [i..<i + length ps]"
proof (induction ps arbitrary: w rec i)
  case (Cons p ps)
  obtain m rec1 where m: "group_encrypt_from_record G rec p (w_rng w) = (Inr (m, rec1), Suc (w_rng w))"
    "group_sent G base kid (kp_public_key kp) m p" "unat (skm_iteration m) = i" "group_sender G base kid kp (Suc i) rec1"
    using group_encrypt_step [OF laws(3-7) Cons.prems(2), of p "w_rng w"] Cons.prems(3) by auto
  obtain s1 where s1: "group_cipher_encrypt K G C p w = (Inr m, \<lparr>w_store = s1, w_rng = Suc (w_rng w)\<rparr>)"
    "sender_holds G get s1 a rec1"
    using group_encrypt_handler [OF laws(1) Cons.prems(1) laws(2,3) m(1)] by blast
  have holds: "sender_holds G get (w_store \<lparr>w_store = s1, w_rng = Suc (w_rng w)\<rparr>) a rec1" using s1(2) by simp
  have le: "Suc i + length ps \<le> 2 ^ 32 - 1" using Cons.prems(3) by simp
  obtain ms w' where "group_encrypt_all K G C ps \<lparr>w_store = s1, w_rng = Suc (w_rng w)\<rparr> = (Inr ms, w')"
    "list_all2 (group_sent G base kid (kp_public_key kp)) ms ps"
    "map (unat \<circ> skm_iteration) ms = [Suc i..<Suc i + length ps]"
    using Cons.IH [OF holds m(4) le] by blast
  moreover have "[i..<i + length (p # ps)] = i # [Suc i..<Suc i + length ps]"
    by (simp add: upt_conv_Cons del: upt_Suc)
  ultimately show ?case using s1(1) m by (simp add: comp_def del: upt_Suc)
qed simp

lemma group_decrypt_any_order:
  assumes laws: "sender_key_store_of K get" "plain_cipher C a" "hmac_sha256_of G hm" "cipher_inverse G"
    and lim: "N \<le> SENDER_MAX_MESSAGE_KEYS" "unat (sckey_iteration base) + N \<le> 2 ^ 32 - 1"
  shows "\<lbrakk>sender_holds G get s a rec; group_receiver G base kid pk R rec;
     \<forall>(m, p) \<in> set xs. group_sent G base kid pk m p; distinct (map (unat \<circ> skm_iteration \<circ> fst) xs);
     (unat \<circ> skm_iteration \<circ> fst) ` set xs \<subseteq> {unat (sckey_iteration base)..<unat (sckey_iteration base) + N};
     R \<inter> (unat \<circ> skm_iteration \<circ> fst) ` set xs = {}\<rbrakk> \<Longrightarrow>
   \<exists>s'. group_decrypt_all K G C (map fst xs) s = (Inr (map snd xs), s')"
proof (induction xs arbitrary: s rec R)
  case (Cons x xs)
  obtain m p where x: "x = (m, p)" by (cases x)
  have b: "unat (sckey_iteration base) \<le> unat (skm_iteration m)" "unat (skm_iteration m) \<notin> R"
    "unat (skm_iteration m) < unat (sckey_iteration base) + N" "group_sent G base kid pk m p"
    using Cons.prems x by auto
  have "unat (skm_iteration m) \<noteq> unat (- 1 :: u32)"
    using b(3) lim by (simp add: unsigned_minus_1_eq_mask mask_eq_exp_minus_1)
  then have "skm_iteration m \<noteq> - 1" by auto
  with b lim obtain rec1 where d: "group_decrypt_from_record G rec m = Inr (p, rec1)"
    "group_receiver G base kid pk (insert (unat (skm_iteration m)) R) rec1"
    using group_receive_step [OF laws(3,4) Cons.prems(2) b(4,1,2)] by auto
  obtain s1 where s1: "group_cipher_decrypt K G C m s = (Inr p, s1)" "sender_holds G get s1 a rec1"
    using group_decrypt_handler [OF laws(1) Cons.prems(1) laws(2,3) d(1)] by blast
  have "\<exists>s'. group_decrypt_all K G C (map fst xs) s1 = (Inr (map snd xs), s')"
    using Cons.prems x by (intro Cons.IH [OF s1(2) d(2)]) auto
  with s1(1) x show ?case by auto
qed simp

section \<open>Setting up a group session\<close>

lemma create_sender_key_state_total:
  assumes "curve25519_dh G" "random_total G"
  obtains kid c kp r' where
    "create_sender_key_state G rec r = (Inr (Sender_Key_Record [\<lparr>sks_key_id = kid,
       sks_chain_key = \<lparr>sckey_iteration = 0, sckey_chain_key = c\<rparr>, sks_signature_public_key = kp_public_key kp,
       sks_signature_private_key = Some (kp_private_key kp), sks_message_keys = []\<rparr>]), r')"
    "length c = 32" "signing_pair_ok G kp"
proof -
  obtain v where v: "signal_protocol_key_helper_generate_sender_key_id G r = (Inr v, Suc r)"
    using signal_crypto_random_total [OF assms(2), of 4 r]
    by (auto simp: signal_protocol_key_helper_generate_sender_key_id_def
        signal_protocol_key_helper_get_random_sequence_def)
  obtain c where c: "signal_protocol_key_helper_generate_sender_key G (Suc r) = (Inr c, Suc (Suc r))" "length c = 32"
    using signal_crypto_random_total [OF assms(2), of 32 "Suc r"]
    by (auto simp: signal_protocol_key_helper_generate_sender_key_def)
  obtain kp where kp: "curve_generate_key_pair G (Suc (Suc r)) = (Inr kp, Suc (Suc (Suc r)))"
    using curve_generate_key_pair_total [OF assms] by blast
  show ?thesis
    by (rule that [of v c kp "Suc (Suc (Suc r))"])
       (use v c kp curve_generate_key_pair_ok [OF assms(1) kp] curve_generate_key_pair_clamped [OF kp] in
         \<open>simp_all add: signing_pair_ok_def create_sender_key_state_def
         signal_protocol_key_helper_generate_sender_signing_key_def sender_key_record_set_sender_key_state_def
         sender_key_record_add_sender_key_state_impl_def sender_chain_key_create_def sender_key_state_create_def
         prepend_bounded_def dl_trim_last_take MAX_STATES_def\<close>)
qed

lemma create_session_total:
  assumes st: "sender_key_store_of K get" and new: "get (w_store w) a = None"
    and laws: "curve25519_dh G" "random_total G"
  obtains dm w' rec kp where
    "group_session_builder_create_session K G a w = (Inr dm, w')" "sender_holds G get (w_store w') a rec"
    "group_sender G \<lparr>sckey_iteration = skd_iteration dm, sckey_chain_key = skd_chain_key dm\<rparr> (skd_id dm) kp 0 rec"
    "skd_iteration dm = 0" "length (skd_chain_key dm) = 32" "skd_signature_key dm = kp_public_key kp" "signing_pair_ok G kp"
proof -
  have empty: "sender_holds G get (w_store w) a sender_key_record_create"
    using new by (simp add: sender_holds_def skr_ok_def sender_key_record_create_def)
  note load = sender_holds_load [OF st empty]
  obtain kid c kp r' where mk: "create_sender_key_state G sender_key_record_create (w_rng w) = (Inr (Sender_Key_Record [\<lparr>sks_key_id = kid,
       sks_chain_key = \<lparr>sckey_iteration = 0, sckey_chain_key = c\<rparr>, sks_signature_public_key = kp_public_key kp,
       sks_signature_private_key = Some (kp_private_key kp), sks_message_keys = []\<rparr>]), r')"
    and c: "length c = 32" "signing_pair_ok G kp"
    by (rule create_sender_key_state_total [OF laws])
  let ?rec = "Sender_Key_Record [\<lparr>sks_key_id = kid,
       sks_chain_key = \<lparr>sckey_iteration = 0, sckey_chain_key = c\<rparr>, sks_signature_public_key = kp_public_key kp,
       sks_signature_private_key = Some (kp_private_key kp), sks_message_keys = []\<rparr>]"
  have "skr_ok G ?rec"
    using c by (simp add: skr_ok_def sks_ok_def sckey_ok_def signing_pair_ok_def key_pair_ok_def MAX_STATES_def)
  then obtain s' where s': "signal_protocol_sender_key_store_key K a ?rec (w_store w) = (Inr (), s')"
    "sender_holds G get s' a ?rec"
    by (rule sender_holds_store [OF st, of G ?rec a "w_store w"]) blast
  obtain dm where dm: "sender_key_distribution_message_create kid 0 c (kp_public_key kp) = Inr dm" "skd_id dm = kid"
    "skd_iteration dm = 0" "skd_chain_key dm = c" "skd_signature_key dm = kp_public_key kp"
    by (simp add: distribution_message_create_eq)
  show ?thesis
    by (rule that [of dm "\<lparr>w_store = s', w_rng = r'\<rparr>" ?rec kp])
       (use load mk s' dm c in \<open>simp_all add: group_session_builder_create_session_def sender_key_record_is_empty_def
         sender_key_record_create_def distribution_of_record_def sender_key_record_get_sender_key_state_def
         group_sender_def\<close>)
qed

lemma process_session_total:
  assumes st: "sender_key_store_of K get" and holds: "sender_holds G get s a rec"
    and dm: "length (skd_chain_key dm) \<le> 2 ^ 24" "pub_ok (skd_signature_key dm)"
  obtains s' rec' where "group_session_builder_process_session K G a dm s = (Inr (), s')" "sender_holds G get s' a rec'"
    "group_receiver G \<lparr>sckey_iteration = skd_iteration dm, sckey_chain_key = skd_chain_key dm\<rparr> (skd_id dm)
       (skd_signature_key dm) {} rec'"
proof -
  let ?c = "\<lparr>sckey_iteration = skd_iteration dm, sckey_chain_key = skd_chain_key dm\<rparr>"
  let ?st = "\<lparr>sks_key_id = skd_id dm, sks_chain_key = ?c, sks_signature_public_key = skd_signature_key dm,
    sks_signature_private_key = None, sks_message_keys = []\<rparr>"
  let ?rec = "Sender_Key_Record (take MAX_STATES (?st # skr_states rec))"
  have add: "sender_key_record_add_sender_key_state rec (skd_id dm) (skd_iteration dm) (Some (skd_chain_key dm))
      (Some (skd_signature_key dm)) = Inr ?rec"
    by (simp add: sender_key_record_add_sender_key_state_def sender_key_record_add_sender_key_state_impl_def
        sender_chain_key_create_def sender_key_state_create_def prepend_bounded_def dl_trim_last_take)
  have "skr_ok G ?rec"
    by (rule skr_ok_add_impl [OF add [unfolded sender_key_record_add_sender_key_state_def]])
       (use holds dm in \<open>simp_all add: sender_holds_def\<close>)
  then obtain s' where s': "signal_protocol_sender_key_store_key K a ?rec s = (Inr (), s')"
    "sender_holds G get s' a ?rec"
    by (rule sender_holds_store [OF st, of G ?rec a s]) blast
  show ?thesis
  proof (rule that [OF _ s'(2)])
    show "group_session_builder_process_session K G a dm s = (Inr (), s')"
      using sender_holds_load [OF st holds] add s'(1) by (simp add: group_session_builder_process_session_def)
    show "group_receiver G ?c (skd_id dm) (skd_signature_key dm) {} ?rec"
      by (simp add: group_receiver_def MAX_STATES_def chain_inv_start dispenser_view_def window_inv_def dispenser_ok_def)
  qed
qed

text \<open>
  A member creates a session and distributes its chain; what it then encrypts another
  member decrypts, whichever messages arrive and in whatever order.
\<close>

lemma group_delivery:
  assumes laws: "hmac_sha256_of G hm" "cipher_inverse G" "curve25519_dh G" "curve25519_signs G" "random_total G"
    and a: "sender_key_store_of KA getA" "getA (w_store w) n = None" "plain_cipher ca n"
    and b: "sender_key_store_of KB getB" "sender_holds G getB s n' rec" "plain_cipher cb n'"
    and len: "length ps \<le> SENDER_MAX_MESSAGE_KEYS"
  shows "\<exists>dm w1 s1 ms w2. group_session_builder_create_session KA G n w = (Inr dm, w1) \<and>
    group_session_builder_process_session KB G n' dm s = (Inr (), s1) \<and>
    group_encrypt_all KA G ca ps w1 = (Inr ms, w2) \<and>
    (\<forall>xs. mset xs \<subseteq># mset (zip ms ps) \<longrightarrow>
      (\<exists>s2. group_decrypt_all KB G cb (map fst xs) s1 = (Inr (map snd xs), s2)))"
proof -
  obtain dm w1 reca kp where c: "group_session_builder_create_session KA G n w = (Inr dm, w1)"
    "sender_holds G getA (w_store w1) n reca"
    "group_sender G \<lparr>sckey_iteration = skd_iteration dm, sckey_chain_key = skd_chain_key dm\<rparr> (skd_id dm) kp 0 reca"
    and dm: "skd_iteration dm = 0" "length (skd_chain_key dm) = 32" "skd_signature_key dm = kp_public_key kp"
      "signing_pair_ok G kp"
    by (rule create_session_total [OF a(1,2) laws(3,5)])
  let ?base = "\<lparr>sckey_iteration = skd_iteration dm, sckey_chain_key = skd_chain_key dm\<rparr>"
  have dm': "length (skd_chain_key dm) \<le> 2 ^ 24" "pub_ok (skd_signature_key dm)"
    using dm by (simp_all add: signing_pair_ok_def key_pair_ok_def)
  obtain s1 recb where p: "group_session_builder_process_session KB G n' dm s = (Inr (), s1)"
    "sender_holds G getB s1 n' recb" "group_receiver G ?base (skd_id dm) (skd_signature_key dm) {} recb"
    by (rule process_session_total [OF b(1,2) dm'])
  have le: "0 + length ps \<le> 2 ^ 32 - 1" using len by (simp add: SENDER_MAX_MESSAGE_KEYS_def)
  obtain ms w2 where e: "group_encrypt_all KA G ca ps w1 = (Inr ms, w2)"
    "list_all2 (group_sent G ?base (skd_id dm) (kp_public_key kp)) ms ps" "map (unat \<circ> skm_iteration) ms = [0..<0 + length ps]"
    using group_encrypt_all_sent [OF a(1,3) laws(1,2,4,5) dm(4) c(2,3) le] by blast
  have "\<exists>s2. group_decrypt_all KB G cb (map fst xs) s1 = (Inr (map snd xs), s2)" if sub: "mset xs \<subseteq># mset (zip ms ps)" for xs
  proof -
    note arr = arrivals [OF e(2,3) sub]
    have rng: "(unat \<circ> skm_iteration \<circ> fst) ` set xs
        \<subseteq> {unat (sckey_iteration ?base)..<unat (sckey_iteration ?base) + length ps}"
      using arr(2) dm(1) by simp
    show ?thesis
      by (rule group_decrypt_any_order [OF b(1,3) laws(1,2) len _ p(2) p(3) [unfolded dm(3)] arr(3,1) rng])
         (use le dm(1) in simp_all)
  qed
  with c(1) p(1) e(1) show ?thesis by blast
qed

end
