(* ===== verification/Group_Properties.thy ===== *)
theory Group_Properties
  imports Samples Group_Cipher_Laws
begin

text \<open>
  The properties of group messaging, from the chain of a sender to the handlers and their
  stores, and of the keys that are generated for it, with a sample group.
\<close>

section \<open>A sample group\<close>

lemma sample_signs_ok: "curve25519_signs sample_context"
  by (simp add: curve25519_signs_def sample_context_def clamped_def)

lemma sample_signing_pair: "signing_pair_ok sample_context (sample_pair n)"
  using sample_pair_ok sample_pair_clamped by (simp add: signing_pair_ok_def)

lemma sample_random_total: "random_total sample_context"
  by (simp add: random_total_def sample_context_def)

type_synonym sample_group_store = "signal_protocol_sender_key_name \<Rightarrow> bytes option"

definition sample_sender_store :: "sample_group_store signal_protocol_sender_key_store" where
  "sample_sender_store =
     \<lparr>store_sender_key_func = \<lambda>a d s. (0, s(a := Some d)),
      load_sender_key_func = \<lambda>a s. ((case s a of None \<Rightarrow> (0, None) | Some d \<Rightarrow> (1, Some d)), s)\<rparr>"

definition sample_name :: signal_protocol_sender_key_name where
  "sample_name = \<lparr>skn_group_id = [9], skn_sender = sample_address\<rparr>"

definition sample_group_cipher :: "sample_group_store group_cipher" where
  "sample_group_cipher = \<lparr>gc_sender_key_id = sample_name, gc_decrypt_callback = None, gc_inside_callback = False\<rparr>"

lemma sample_sender_store_ok: "sender_key_store_of sample_sender_store (\<lambda>s. s)"
  by (simp add: sender_key_store_of_def sample_sender_store_def)

lemma sample_plain_cipher: "plain_cipher sample_group_cipher sample_name"
  by (simp add: plain_cipher_def sample_group_cipher_def)

definition sample_sender_chain :: sender_chain_key where
  "sample_sender_chain = \<lparr>sckey_iteration = 0, sckey_chain_key = replicate 32 7\<rparr>"

definition sample_sender_state :: sender_key_state where
  "sample_sender_state = \<lparr>sks_key_id = 5, sks_chain_key = sample_sender_chain,
     sks_signature_public_key = kp_public_key (sample_pair 6),
     sks_signature_private_key = Some (kp_private_key (sample_pair 6)), sks_message_keys = []\<rparr>"

definition sample_group_record :: sender_key_record where
  "sample_group_record = Sender_Key_Record [sample_sender_state]"

definition sample_group_world :: "sample_group_store world" where
  "sample_group_world =
     \<lparr>w_store = [sample_name \<mapsto> projr (sender_key_record_serialize sample_group_record)], w_rng = 0\<rparr>"

lemma sample_record_ok: "skr_ok sample_context sample_group_record"
  using sample_pair_ok [of 6]
  by (simp add: skr_ok_def sks_ok_def sample_group_record_def sample_sender_state_def sample_sender_chain_def
      sckey_ok_def MAX_STATES_def key_pair_ok_def)

lemma sample_sender_holds:
  "sender_holds sample_context (\<lambda>s. s) (w_store sample_group_world) sample_name sample_group_record"
proof -
  obtain d where "sender_key_record_serialize sample_group_record = Inr d"
    by (rule sender_key_record_codec [OF sample_record_ok])
  with sample_record_ok show ?thesis by (simp add: sender_holds_def sample_group_world_def)
qed

lemma sample_state_inv: "sk_inv sample_context sample_sender_chain sample_sender_state"
  using chain_inv_start by (simp add: sample_sender_state_def)

lemma sample_record_consistent: "skr_consistent sample_context sample_group_record"
  using sample_state_inv by (auto simp: skr_consistent_def sample_group_record_def)

lemma sample_group_run:
  "\<exists>x y w' s'. group_encrypt_all sample_sender_store sample_context sample_group_cipher [[1], [2]] sample_group_world
      = (Inr [x, y], w') \<and>
    group_decrypt_all sample_sender_store sample_context sample_group_cipher [y, x] (w_store sample_group_world)
      = (Inr [[2], [1]], s') \<and> skm_iteration x \<noteq> - 1 \<and> skm_iteration y \<noteq> - 1"
proof -
  have snd: "group_sender sample_context sample_sender_chain 5 (sample_pair 6) 0 sample_group_record"
    by (simp add: group_sender_def sample_group_record_def sample_sender_state_def sample_sender_chain_def)
  have rcv: "group_receiver sample_context sample_sender_chain 5 (kp_public_key (sample_pair 6)) {} sample_group_record"
    using chain_inv_start
    by (simp add: group_receiver_def sample_group_record_def sample_sender_state_def sample_sender_chain_def
        dispenser_view_def window_inv_def dispenser_ok_def)
  obtain ms w' where e: "group_encrypt_all sample_sender_store sample_context sample_group_cipher [[1], [2]] sample_group_world
      = (Inr ms, w')"
    "list_all2 (group_sent sample_context sample_sender_chain 5 (kp_public_key (sample_pair 6))) ms [[1], [2]]"
    "map (unat \<circ> skm_iteration) ms = [0..<0 + length [[1 :: u8], [2]]]"
    using group_encrypt_all_sent [OF sample_sender_store_ok sample_plain_cipher sample_hmac_ok sample_cipher_ok
        sample_signs_ok sample_random_total sample_signing_pair sample_sender_holds snd, of "[[1], [2]]"] by auto
  then obtain x y where ms: "ms = [x, y]" by (auto simp: list_all2_Cons2)
  have it: "unat (skm_iteration x) = 0" "unat (skm_iteration y) = 1" using e(3) ms by (simp_all add: upt_rec)
  have sub: "mset [(y, [2 :: u8]), (x, [1])] \<subseteq># mset (zip ms [[1], [2]])" by (simp add: ms)
  note arr = arrivals [OF e(2,3) sub]
  have "\<exists>s'. group_decrypt_all sample_sender_store sample_context sample_group_cipher [y, x] (w_store sample_group_world)
      = (Inr [[2], [1]], s')"
    using group_decrypt_any_order [OF sample_sender_store_ok sample_plain_cipher sample_hmac_ok sample_cipher_ok _ _
        sample_sender_holds rcv arr(3,1), of 2] it
    by (auto simp: SENDER_MAX_MESSAGE_KEYS_def sample_sender_chain_def simp del: group_decrypt_all.simps)
  moreover have "skm_iteration x \<noteq> - 1" "skm_iteration y \<noteq> - 1"
    using it by (auto simp: unsigned_minus_1_eq_mask mask_eq_exp_minus_1)
  ultimately show ?thesis using e(1) ms by blast
qed

section \<open>Group sessions\<close>

text \<open>
  C6. A group session works from its creation: \<^verbatim>\<open>group_session_builder_create_session\<close> on a
  store without a record for the sender yields a distribution message,
  \<^verbatim>\<open>group_session_builder_process_session\<close> accepts it on any well-formed store, the sender can
  encrypt any list of at most 2000 messages through \<^verbatim>\<open>group_cipher_encrypt\<close>, and whichever of
  these reach the receiver, in whatever order, \<^verbatim>\<open>group_cipher_decrypt\<close> returns the plaintexts.
\<close>

theorem group_session_delivers:
  assumes laws: "hmac_sha256_of G hm" "cipher_inverse G" "curve25519_dh G" "curve25519_signs G" "random_total G"
    and a: "sender_key_store_of KA getA" "getA (w_store w) n = None" "plain_cipher ca n"
    and b: "sender_key_store_of KB getB" "sender_holds G getB s n' rec" "plain_cipher cb n'"
    and len: "length ps \<le> 2000"
  shows "\<exists>dm w1 s1 ms w2. group_session_builder_create_session KA G n w = (Inr dm, w1) \<and>
    group_session_builder_process_session KB G n' dm s = (Inr (), s1) \<and>
    group_encrypt_all KA G ca ps w1 = (Inr ms, w2) \<and>
    (\<forall>xs. mset xs \<subseteq># mset (zip ms ps) \<longrightarrow>
      (\<exists>s2. group_decrypt_all KB G cb (map fst xs) s1 = (Inr (map snd xs), s2)))"
  using group_delivery [OF laws a b, of ps] len by (simp add: SENDER_MAX_MESSAGE_KEYS_def)

theorem group_session_delivers_witness:
  "\<exists>dm w1 s1 x y z w2 s2.
    group_session_builder_create_session sample_sender_store sample_context sample_name
      \<lparr>w_store = (\<lambda>_. None), w_rng = 3\<rparr> = (Inr dm, w1) \<and>
    group_session_builder_process_session sample_sender_store sample_context sample_name dm
      (w_store sample_group_world) = (Inr (), s1) \<and>
    group_encrypt_all sample_sender_store sample_context sample_group_cipher [[1], [2], [3]] w1 = (Inr [x, y, z], w2) \<and>
    group_decrypt_all sample_sender_store sample_context sample_group_cipher [z, x] s1 = (Inr [[3], [1]], s2)"
proof -
  obtain dm w1 s1 ms w2 where run: "group_session_builder_create_session sample_sender_store sample_context sample_name
      \<lparr>w_store = (\<lambda>_. None), w_rng = 3\<rparr> = (Inr dm, w1)"
    "group_session_builder_process_session sample_sender_store sample_context sample_name dm
      (w_store sample_group_world) = (Inr (), s1)"
    "group_encrypt_all sample_sender_store sample_context sample_group_cipher [[1], [2], [3]] w1 = (Inr ms, w2)"
    and arr: "\<And>xs. mset xs \<subseteq># mset (zip ms [[1], [2], [3]]) \<Longrightarrow>
      \<exists>s2. group_decrypt_all sample_sender_store sample_context sample_group_cipher (map fst xs) s1 = (Inr (map snd xs), s2)"
    using group_session_delivers [OF sample_hmac_ok sample_cipher_ok sample_dh_ok sample_signs_ok sample_random_total
        sample_sender_store_ok _ sample_plain_cipher sample_sender_store_ok sample_sender_holds sample_plain_cipher,
        of "\<lparr>w_store = (\<lambda>_. None), w_rng = 3\<rparr>" "[[1], [2], [3]]"] by auto
  obtain x y z where ms: "ms = [x, y, z]" using run(3) by (auto split: prod.splits sum.splits)
  have "mset [(z, [3]), (x, [1])] \<subseteq># mset (zip ms [[1], [2], [3]])" by (simp add: ms)
  from arr [OF this] obtain s2 where
    "group_decrypt_all sample_sender_store sample_context sample_group_cipher [z, x] s1 = (Inr [[3], [1]], s2)"
    by (auto simp del: group_decrypt_all.simps)
  with run ms show ?thesis by blast
qed

text \<open>
  C9. No group message is accepted twice: in every run of \<^verbatim>\<open>group_cipher_decrypt\<close> over a store,
  the messages that were decrypted differ in their key id or their iteration.
\<close>

theorem group_message_accepted_once:
  assumes "hmac_sha256_of G hm" "sender_key_store_of K get" "plain_cipher C n" "sender_holds G get s n rec"
    and "skr_consistent G rec" "\<forall>m \<in> set ms. skm_iteration m \<noteq> - 1"
    and "group_decrypt_all K G C ms s = (Inr ps, s')"
  shows "distinct (map (\<lambda>m. (skm_key_id m, skm_iteration m)) ms)"
  using group_decrypt_all_records [OF assms(2,3,1,4,7)] group_decrypt_once [OF assms(1,5,6)] by blast

theorem group_message_accepted_once_witness:
  "\<exists>x y s'. group_decrypt_all sample_sender_store sample_context sample_group_cipher [y, x]
      (w_store sample_group_world) = (Inr [[2], [1]], s') \<and>
    distinct (map (\<lambda>m. (skm_key_id m, skm_iteration m)) [y, x])"
proof -
  obtain x y s' where run: "group_decrypt_all sample_sender_store sample_context sample_group_cipher [y, x]
      (w_store sample_group_world) = (Inr [[2], [1]], s')" "skm_iteration x \<noteq> - 1" "skm_iteration y \<noteq> - 1"
    using sample_group_run by blast
  have "\<forall>m \<in> set [y, x]. skm_iteration m \<noteq> - 1" using run(2,3) by simp
  from group_message_accepted_once [OF sample_hmac_ok sample_sender_store_ok sample_plain_cipher sample_sender_holds
      sample_record_consistent this run(1)] run(1) show ?thesis by blast
qed

text \<open>
  C16. \<^verbatim>\<open>group_cipher_get_sender_key\<close> refines the dispenser: on the view of a sender's state as
  the next iteration and the iterations passed over, it fails with the dispenser's error
  when the dispenser fails, and otherwise makes the dispenser's step and hands out the
  sender's key at that iteration.
\<close>

theorem group_keys_refine_dispenser:
  assumes "hmac_sha256_of G hm" "sk_inv G base st" "n \<noteq> - 1"
  shows "case dispense SENDER_MAX_MESSAGE_KEYS (unat n) (sk_view st) of
      Inl e \<Rightarrow> group_cipher_get_sender_key G st n = Inl e
    | Inr d \<Rightarrow> \<exists>mk st'. group_cipher_get_sender_key G st n = Inr (mk, st') \<and> sk_inv G base st' \<and> sk_view st' = d \<and>
        message_at (next_sck G) (sender_key_of G) base (unat n - unat (sckey_iteration base)) = Inr mk"
  by (rule get_sender_key_refines [OF assms])

theorem group_keys_refine_dispenser_witness:
  "(\<exists>mk st'. group_cipher_get_sender_key sample_context sample_sender_state 2 = Inr (mk, st') \<and>
      sk_view st' = \<lparr>d_next = 3, d_left = [0, 1]\<rparr>) \<and>
    group_cipher_get_sender_key sample_context sample_sender_state 2001 = Inl SG_ERR_INVALID_MESSAGE"
proof -
  have view: "sk_view sample_sender_state = \<lparr>d_next = 0, d_left = []\<rparr>"
    by (simp add: dispenser_view_def sample_sender_state_def sample_sender_chain_def)
  have "dispense SENDER_MAX_MESSAGE_KEYS 2 (sk_view sample_sender_state) = Inr \<lparr>d_next = 3, d_left = [0, 1]\<rparr>"
    by (simp add: view dispense_def SENDER_MAX_MESSAGE_KEYS_def append_bounded_room upt_rec)
  moreover have "dispense SENDER_MAX_MESSAGE_KEYS 2001 (sk_view sample_sender_state) = Inl SG_ERR_INVALID_MESSAGE"
    by (simp add: view dispense_def)
  ultimately show ?thesis
    using group_keys_refine_dispenser [OF sample_hmac_ok sample_state_inv, of 2]
      group_keys_refine_dispenser [OF sample_hmac_ok sample_state_inv, of 2001] by auto
qed

text \<open>
  C20. What \<^verbatim>\<open>group_cipher_decrypt\<close> refuses, and how: with no record for the sender
  \<^verbatim>\<open>SG_ERR_NO_SESSION\<close>, with an unknown key id or a signature that does not verify under the
  sender's stored key \<^verbatim>\<open>SG_ERR_INVALID_MESSAGE\<close>; the store stays as it was.
\<close>

theorem group_decrypt_refuses:
  assumes st: "sender_key_store_of K get" "sender_holds G get s n rec" "plain_cipher C n"
    and len: "64 \<le> length (skm_serialized m)"
    and why: "skr_states rec = [] \<and> e = SG_ERR_NO_SESSION \<or>
      skr_states rec \<noteq> [] \<and> e = SG_ERR_INVALID_MESSAGE \<and>
        (case List.find (\<lambda>st. sks_key_id st = skm_key_id m) (skr_states rec) of None \<Rightarrow> True
         | Some st \<Rightarrow> curve25519_verify G (drop (length (skm_serialized m) - 64) (skm_serialized m))
             (pub_data (sks_signature_public_key st)) (take (length (skm_serialized m) - 64) (skm_serialized m)) \<noteq> 0)"
  shows "group_cipher_decrypt K G C m s = (Inl e, s)"
proof -
  have "\<exists>e'. group_decrypt_from_record G rec m = Inl e' \<and> group_decrypt_error e' = e"
    using why len
    by (auto simp: group_decrypt_from_record_def sender_key_record_is_empty_def group_decrypt_error_def
        sender_key_record_get_sender_key_state_by_id_def sender_key_message_verify_signature_def
        curve_verify_signature_def Let_def split: option.splits)
  with group_decrypt_handler_error [OF st] show ?thesis by blast
qed

theorem group_decrypt_refuses_witness:
  "group_cipher_decrypt sample_sender_store sample_context sample_group_cipher
     \<lparr>skm_message_version = 3, skm_key_id = 5, skm_iteration = 0, skm_ciphertext = [1],
      skm_serialized = replicate 70 0\<rparr> (w_store sample_group_world)
     = (Inl SG_ERR_INVALID_MESSAGE, w_store sample_group_world)"
proof -
  have "curve25519_verify sample_context (drop (70 - 64) (replicate 70 0)) (pub_data (kp_public_key (sample_pair 6)))
    (take (70 - 64) (replicate 70 0)) \<noteq> 0" by code_simp
  then show ?thesis
    by (intro group_decrypt_refuses [OF sample_sender_store_ok sample_sender_holds sample_plain_cipher])
       (simp_all add: sample_group_record_def sample_sender_state_def)
qed

section \<open>Stored sender keys\<close>

text \<open>
  C28. A well-formed sender key record, its states, chains, signing keys and skipped message
  keys included, serialises, and reading the bytes gives the record back although only the
  seeds of the message keys are stored.
\<close>

theorem sender_key_record_roundtrip:
  assumes "skr_ok G rec"
  shows "\<exists>d. sender_key_record_serialize rec = Inr d \<and> sender_key_record_deserialize G d = Inr rec \<and>
    sender_key_record_copy G rec = Inr rec"
  by (rule sender_key_record_codec [OF assms]) (use sender_key_record_copy_id [OF assms] in auto)

theorem sender_key_record_roundtrip_witness:
  "\<exists>d. sender_key_record_serialize sample_group_record = Inr d \<and>
     sender_key_record_deserialize sample_context d = Inr sample_group_record"
  using sender_key_record_roundtrip [OF sample_record_ok] by blast

text \<open>
  C26. Whatever bytes are read as a sender key record, the result has the types the cipher
  relies on: signing keys of 32 bytes, at most 2000 message keys per state, each with a
  16-byte initialisation vector and a 32-byte key derived from its stored seed.
\<close>

theorem sender_key_record_typed:
  assumes "sender_key_record_deserialize G d = Inr rec"
  shows "list_all (\<lambda>st. pub_ok (sks_signature_public_key st) \<and> pred_option priv_ok (sks_signature_private_key st) \<and>
    length (sks_message_keys st) \<le> 2000 \<and>
    list_all (\<lambda>k. length (smkey_iv k) = 16 \<and> length (smkey_cipher_key k) = 32 \<and>
      sender_message_key_create G (smkey_iteration k) (Some (smkey_seed k)) = Inr k) (sks_message_keys st)) (skr_states rec)"
  using sender_key_record_deserialize_typed [OF assms] by (simp add: SENDER_MAX_MESSAGE_KEYS_def sks_typed_def [abs_def] smkey_typed_def [abs_def])

theorem sender_key_record_typed_witness:
  "\<exists>rec. sender_key_record_deserialize sample_context (projr (sender_key_record_serialize sample_group_record)) = Inr rec \<and>
     list_all (\<lambda>st. pub_ok (sks_signature_public_key st)) (skr_states rec)"
proof -
  obtain d where d: "sender_key_record_serialize sample_group_record = Inr d"
    "sender_key_record_deserialize sample_context d = Inr sample_group_record"
    by (rule sender_key_record_codec [OF sample_record_ok])
  from sender_key_record_typed [OF d(2)] d show ?thesis by (auto simp: list_all_iff)
qed

section \<open>Generated keys\<close>

lemma distinct_ids_bounded:
  assumes "distinct xs" "list_all (\<lambda>i. i \<noteq> 0 \<and> i < PRE_KEY_MEDIUM_MAX_VALUE) xs"
  shows "length xs \<le> 0xFFFFFE"
proof -
  have "set (map unat xs) \<subseteq> {1..<0xFFFFFF}"
    using assms(2) by (auto simp: list_all_iff PRE_KEY_MEDIUM_MAX_VALUE_def word_less_nat_alt Suc_le_eq unat_gt_0)
  then have le: "card (set (map unat xs)) \<le> card {1..<0xFFFFFF :: nat}"
    by (rule card_mono [OF finite_atLeastLessThan])
  have "distinct (map unat xs)" using assms(1) by (simp add: distinct_map inj_on_def word_unat_eq_iff)
  from distinct_card [OF this] le show ?thesis by simp
qed

text \<open>
  C38. \<^verbatim>\<open>signal_protocol_key_helper_generate_pre_keys\<close> makes the number of keys asked for, with
  matched key pairs and ids between 1 and the medium maximum exclusive, so none is the id
  of the last resort key; while \<^verbatim>\<open>start - 1 + count\<close> does not wrap, the ids are distinct
  exactly when the batch is not longer than the range of ids, 16777214.
\<close>

theorem pre_key_batch:
  assumes "signal_protocol_key_helper_generate_pre_keys G start cnt r = (Inr ks, r')"
  shows "length ks = unat cnt \<and>
    list_all (\<lambda>k. pk_id k \<noteq> 0 \<and> pk_id k < PRE_KEY_MEDIUM_MAX_VALUE) ks \<and>
    (unat (start - 1) + unat cnt \<le> 2 ^ 32 \<longrightarrow> (distinct (map pk_id ks) \<longleftrightarrow> unat cnt \<le> 0xFFFFFE)) \<and>
    (curve25519_dh G \<longrightarrow> list_all (\<lambda>k. key_pair_ok G (pk_key_pair k)) ks)"
proof -
  have ids: "map pk_id ks = map (pre_key_id_at start) [0..<unat cnt]"
    and ok: "curve25519_dh G \<longrightarrow> list_all (\<lambda>k. key_pair_ok G (pk_key_pair k)) ks"
    using generate_pre_keys_from_ids [of G start 0 "unat cnt" r ks r'] assms
    by (auto simp: signal_protocol_key_helper_generate_pre_keys_def)
  have "length ks = unat cnt" using arg_cong [OF ids, of length] by simp
  moreover have "list_all (\<lambda>i. i \<noteq> 0 \<and> i < PRE_KEY_MEDIUM_MAX_VALUE) (map pk_id ks)"
    unfolding ids using pre_key_id_range by (simp add: list_all_iff)
  then have "list_all (\<lambda>k. pk_id k \<noteq> 0 \<and> pk_id k < PRE_KEY_MEDIUM_MAX_VALUE) ks"
    by (simp add: list.pred_map comp_def)
  moreover have "length (map pk_id ks) \<le> 0xFFFFFE" if "distinct (map pk_id ks)"
    using that calculation(2) by (intro distinct_ids_bounded) (simp_all add: list.pred_map comp_def)
  ultimately show ?thesis
    using ok pre_key_ids_distinct [of start "unat cnt"] ids by auto
qed

theorem pre_key_batch_witness:
  "\<exists>ks r'. signal_protocol_key_helper_generate_pre_keys sample_context 0xFFFFFE 3 0 = (Inr ks, r') \<and>
     map pk_id ks = [0xFFFFFE, 1, 2] \<and> distinct (map pk_id ks)"
proof -
  have ids: "pre_key_id_at 0xFFFFFE 0 = 0xFFFFFE" "pre_key_id_at 0xFFFFFE (Suc 0) = 1"
    "pre_key_id_at 0xFFFFFE (Suc (Suc 0)) = 2" by code_simp+
  have n: "unat (3 :: u32) = Suc (Suc (Suc 0))" by code_simp
  obtain p q u where "curve_generate_key_pair sample_context 0 = (Inr p, Suc 0)"
    "curve_generate_key_pair sample_context (Suc 0) = (Inr q, Suc (Suc 0))"
    "curve_generate_key_pair sample_context (Suc (Suc 0)) = (Inr u, 3)"
    using sample_random [of 0] sample_random [of "Suc 0"] sample_random [of "Suc (Suc 0)"] by auto
  then obtain ks where ks: "signal_protocol_key_helper_generate_pre_keys sample_context 0xFFFFFE 3 0 = (Inr ks, 3)"
    "map pk_id ks = [0xFFFFFE, 1, 2]"
    unfolding signal_protocol_key_helper_generate_pre_keys_def n by (simp add: ids session_pre_key_create_def)
  from pre_key_batch [OF ks(1)] ks show ?thesis by simp
qed

end
