(* ===== verification/Handler.thy ===== *)
theory Handler
  imports Store
begin

text \<open>
  The shape of the longer handlers: a run over the application's store and the random
  source that may end early with an error.  \<open>andthen\<close> is the C pattern
  \<^verbatim>\<open>result = step(..); if(result < 0) goto complete;\<close>; \<open>in_store\<close>, \<open>draw\<close> and \<open>returning\<close> run a
  step that uses the store, the random source, or neither.  The locale \<open>frame\<close> is the
  contract of a relation between the world before and after that every step keeps, and
  carries it over whole handlers.
\<close>

type_synonym ('s, 'a) handler = "'s world \<Rightarrow> 'a result \<times> 's world"

definition andthen :: "('s, 'a) handler \<Rightarrow> ('a \<Rightarrow> ('s, 'b) handler) \<Rightarrow> ('s, 'b) handler" where
  "andthen m f = (\<lambda>w. case m w of (Inl e, w') \<Rightarrow> (Inl e, w') | (Inr x, w') \<Rightarrow> f x w')"

definition in_store :: "('s \<Rightarrow> 'a result \<times> 's) \<Rightarrow> ('s, 'a) handler" where
  "in_store f = (\<lambda>w. case f (w_store w) of (x, s) \<Rightarrow> (x, w\<lparr>w_store := s\<rparr>))"

definition draw :: "(rng \<Rightarrow> 'a result \<times> rng) \<Rightarrow> ('s, 'a) handler" where
  "draw f = (\<lambda>w. case f (w_rng w) of (x, r) \<Rightarrow> (x, w\<lparr>w_rng := r\<rparr>))"

definition returning :: "'a result \<Rightarrow> ('s, 'a) handler" where
  "returning x = (\<lambda>w. (x, w))"

section \<open>Running a handler\<close>

lemma andthen_step: "m w = (Inr x, w1) \<Longrightarrow> andthen m f w = f x w1"
  by (simp add: andthen_def)

lemma andthen_stop: "m w = (Inl e, w1) \<Longrightarrow> andthen m f w = (Inl e, w1)"
  by (simp add: andthen_def)

lemma andthen_Inr [result_simps]:
  "andthen m f w = (Inr y, w') \<longleftrightarrow> (\<exists>x w1. m w = (Inr x, w1) \<and> f x w1 = (Inr y, w'))"
  by (auto simp: andthen_def split: prod.splits sum.splits)

lemma andthen_Inl [result_simps]:
  "andthen m f w = (Inl e, w') \<longleftrightarrow>
     m w = (Inl e, w') \<or> (\<exists>x w1. m w = (Inr x, w1) \<and> f x w1 = (Inl e, w'))"
  by (auto simp: andthen_def split: prod.splits sum.splits)

lemma in_store_iff [result_simps]:
  "in_store f w = (x, w') \<longleftrightarrow> (\<exists>s. f (w_store w) = (x, s) \<and> w' = w\<lparr>w_store := s\<rparr>)"
  by (auto simp: in_store_def split: prod.splits)

lemma draw_iff [result_simps]:
  "draw f w = (x, w') \<longleftrightarrow> (\<exists>r. f (w_rng w) = (x, r) \<and> w' = w\<lparr>w_rng := r\<rparr>)"
  by (auto simp: draw_def split: prod.splits)

lemma returning_iff [result_simps]: "returning x w = (y, w') \<longleftrightarrow> y = x \<and> w' = w"
  by (auto simp: returning_def)

lemma andthen_returning [simp]: "andthen (returning (Inr x)) f = f x" "andthen (returning (Inl e)) f = returning (Inl e)"
  by (simp_all add: andthen_def returning_def fun_eq_iff)

section \<open>What a handler leaves alone\<close>

definition keeps :: "('s world \<Rightarrow> 's world \<Rightarrow> bool) \<Rightarrow> ('s, 'a) handler \<Rightarrow> bool" where
  "keeps R m \<longleftrightarrow> (\<forall>w. R w (snd (m w)))"

lemma keepsD: "\<lbrakk>keeps R m; m w = (x, w')\<rbrakk> \<Longrightarrow> R w w'"
  unfolding keeps_def by (metis snd_conv)

text \<open>The same for the runs that end with an error, and handlers that never do.\<close>

definition failing :: "('s world \<Rightarrow> 's world \<Rightarrow> bool) \<Rightarrow> ('s, 'a) handler \<Rightarrow> bool" where
  "failing R m \<longleftrightarrow> (\<forall>w e w'. m w = (Inl e, w') \<longrightarrow> R w w')"

definition never_fails :: "('s, 'a) handler \<Rightarrow> bool" where
  "never_fails m \<longleftrightarrow> (\<forall>w e w'. m w \<noteq> (Inl e, w'))"

lemma never_fails_andthen: "\<lbrakk>never_fails m; \<And>x. never_fails (f x)\<rbrakk> \<Longrightarrow> never_fails (andthen m f)"
  by (simp add: never_fails_def andthen_Inl)

lemma never_fails_returning: "never_fails (returning (Inr x))"
  by (simp add: never_fails_def returning_iff)

locale frame =
  fixes R :: "'s world \<Rightarrow> 's world \<Rightarrow> bool"
  assumes frame_refl: "R w w"
    and frame_trans: "\<lbrakk>R w w1; R w1 w'\<rbrakk> \<Longrightarrow> R w w'"
begin

lemma keeps_andthen: "\<lbrakk>keeps R m; \<And>x. keeps R (f x)\<rbrakk> \<Longrightarrow> keeps R (andthen m f)"
  unfolding keeps_def andthen_def
  by (auto split: prod.split sum.split simp: frame_refl) (metis frame_trans snd_conv)+

lemma keeps_returning: "keeps R (returning x)"
  by (simp add: keeps_def returning_def frame_refl)

lemma keeps_if: "\<lbrakk>b \<Longrightarrow> keeps R m; \<not> b \<Longrightarrow> keeps R m'\<rbrakk> \<Longrightarrow> keeps R (if b then m else m')"
  by simp

lemma failing_keeps: "keeps R m \<Longrightarrow> failing R m"
  by (auto simp: failing_def dest: keepsD)

lemma failing_andthen: "\<lbrakk>keeps R m; \<And>x. failing R (f x)\<rbrakk> \<Longrightarrow> failing R (andthen m f)"
  by (auto simp: failing_def andthen_Inl dest: keepsD intro: frame_trans)

lemma failing_if: "\<lbrakk>b \<Longrightarrow> failing R m; \<not> b \<Longrightarrow> failing R m'\<rbrakk> \<Longrightarrow> failing R (if b then m else m')"
  by simp

lemma failing_last: "\<lbrakk>failing R m; \<And>x. never_fails (f x)\<rbrakk> \<Longrightarrow> failing R (andthen m f)"
  by (auto simp: failing_def never_fails_def andthen_Inl)

end

text \<open>A part of the store that stays the same: a frame for every function of the store.\<close>

abbreviation same_part :: "('s \<Rightarrow> 'b) \<Rightarrow> 's world \<Rightarrow> 's world \<Rightarrow> bool" where
  "same_part f \<equiv> \<lambda>w w'. f (w_store w') = f (w_store w)"

interpretation part: frame "same_part f" for f :: "'s \<Rightarrow> 'b"
  by unfold_locales simp_all

lemma part_draw: "keeps (same_part f) (draw g)"
  by (simp add: keeps_def draw_def split: prod.split)

lemma part_in_store: "(\<And>s. f (snd (g s)) = f s) \<Longrightarrow> keeps (same_part f) (in_store g)"
  by (simp add: keeps_def in_store_def split: prod.split) (metis snd_conv)

end
