(* ===== verification/Key_Stores.thy ===== *)
theory Key_Stores
  imports Store Pre_Keys
begin

text \<open>
  The other stores of \<^verbatim>\<open>signal_protocol_store_context\<close> (\<^verbatim>\<open>signal_protocol.c\<close>): pre-keys, signed
  pre-keys and identities, each a record of the application's callbacks over its state
  \<open>'s\<close>, with the wrappers that (de)serialise around them; and the documented behaviour of
  the callbacks, stated against a view of the application's state.
\<close>

section \<open>Callbacks\<close>

record 's signal_protocol_pre_key_store =
  load_pre_key :: "u32 \<Rightarrow> 's \<Rightarrow> (int \<times> bytes option) \<times> 's"
  store_pre_key :: "u32 \<Rightarrow> bytes \<Rightarrow> 's \<Rightarrow> int \<times> 's"
  contains_pre_key :: "u32 \<Rightarrow> 's \<Rightarrow> int \<times> 's"
  remove_pre_key :: "u32 \<Rightarrow> 's \<Rightarrow> int \<times> 's"

record 's signal_protocol_signed_pre_key_store =
  load_signed_pre_key :: "u32 \<Rightarrow> 's \<Rightarrow> (int \<times> bytes option) \<times> 's"
  store_signed_pre_key :: "u32 \<Rightarrow> bytes \<Rightarrow> 's \<Rightarrow> int \<times> 's"
  contains_signed_pre_key :: "u32 \<Rightarrow> 's \<Rightarrow> int \<times> 's"
  remove_signed_pre_key :: "u32 \<Rightarrow> 's \<Rightarrow> int \<times> 's"

record 's signal_protocol_identity_key_store =
  get_identity_key_pair :: "'s \<Rightarrow> (int \<times> bytes option \<times> bytes option) \<times> 's"
  get_local_registration_id :: "'s \<Rightarrow> (int \<times> u32) \<times> 's"
  save_identity :: "signal_protocol_address \<Rightarrow> bytes option \<Rightarrow> 's \<Rightarrow> int \<times> 's"
  is_trusted_identity :: "signal_protocol_address \<Rightarrow> bytes \<Rightarrow> 's \<Rightarrow> int \<times> 's"

text \<open>The sender key store of the context is used by the group operations alone and is their own parameter.\<close>

record 's signal_protocol_store_context =
  session_store :: "'s signal_protocol_session_store"
  pre_key_store :: "'s signal_protocol_pre_key_store"
  signed_pre_key_store :: "'s signal_protocol_signed_pre_key_store"
  identity_key_store :: "'s signal_protocol_identity_key_store"

section \<open>Pre-keys\<close>

text \<open>A callback that reports success without handing out a buffer has a null pointer read.\<close>

definition signal_protocol_pre_key_load_key ::
  "'s signal_protocol_store_context \<Rightarrow> u32 \<Rightarrow> 's \<Rightarrow> session_pre_key result \<times> 's" where
  "signal_protocol_pre_key_load_key C pre_key_id s =
     (case load_pre_key (pre_key_store C) pre_key_id s of
        ((result, buffer), s') \<Rightarrow>
          ((if result < 0 then Inl (sg_error_of_code result)
            else (case buffer of None \<Rightarrow> Inl C_UNDEFINED | Some data \<Rightarrow> session_pre_key_deserialize data)), s'))"

definition signal_protocol_pre_key_store_key ::
  "'s signal_protocol_store_context \<Rightarrow> session_pre_key \<Rightarrow> 's \<Rightarrow> unit result \<times> 's" where
  "signal_protocol_pre_key_store_key C pre_key s =
     (case session_pre_key_serialize (Some pre_key) of Inl e \<Rightarrow> (Inl e, s)
      | Inr buffer \<Rightarrow>
         (case store_pre_key (pre_key_store C) (pk_id pre_key) buffer s of
            (result, s') \<Rightarrow> (status_result result, s')))"

definition signal_protocol_pre_key_contains_key ::
  "'s signal_protocol_store_context \<Rightarrow> u32 \<Rightarrow> 's \<Rightarrow> int \<times> 's" where
  "signal_protocol_pre_key_contains_key C pre_key_id s = contains_pre_key (pre_key_store C) pre_key_id s"

definition signal_protocol_pre_key_remove_key ::
  "'s signal_protocol_store_context \<Rightarrow> u32 \<Rightarrow> 's \<Rightarrow> unit result \<times> 's" where
  "signal_protocol_pre_key_remove_key C pre_key_id s =
     (case remove_pre_key (pre_key_store C) pre_key_id s of (result, s') \<Rightarrow> (status_result result, s'))"

section \<open>Signed pre-keys\<close>

definition signal_protocol_signed_pre_key_load_key ::
  "'s signal_protocol_store_context \<Rightarrow> u32 \<Rightarrow> 's \<Rightarrow> session_signed_pre_key result \<times> 's" where
  "signal_protocol_signed_pre_key_load_key C signed_pre_key_id s =
     (case load_signed_pre_key (signed_pre_key_store C) signed_pre_key_id s of
        ((result, buffer), s') \<Rightarrow>
          ((if result < 0 then Inl (sg_error_of_code result)
            else (case buffer of None \<Rightarrow> Inl C_UNDEFINED
                  | Some data \<Rightarrow> session_signed_pre_key_deserialize data)), s'))"

definition signal_protocol_signed_pre_key_store_key ::
  "'s signal_protocol_store_context \<Rightarrow> session_signed_pre_key \<Rightarrow> 's \<Rightarrow> unit result \<times> 's" where
  "signal_protocol_signed_pre_key_store_key C pre_key s =
     (case session_signed_pre_key_serialize pre_key of Inl e \<Rightarrow> (Inl e, s)
      | Inr buffer \<Rightarrow>
         (case store_signed_pre_key (signed_pre_key_store C) (spk_key_id pre_key) buffer s of
            (result, s') \<Rightarrow> (status_result result, s')))"

definition signal_protocol_signed_pre_key_contains_key ::
  "'s signal_protocol_store_context \<Rightarrow> u32 \<Rightarrow> 's \<Rightarrow> int \<times> 's" where
  "signal_protocol_signed_pre_key_contains_key C signed_pre_key_id s =
     contains_signed_pre_key (signed_pre_key_store C) signed_pre_key_id s"

definition signal_protocol_signed_pre_key_remove_key ::
  "'s signal_protocol_store_context \<Rightarrow> u32 \<Rightarrow> 's \<Rightarrow> unit result \<times> 's" where
  "signal_protocol_signed_pre_key_remove_key C signed_pre_key_id s =
     (case remove_signed_pre_key (signed_pre_key_store C) signed_pre_key_id s of
        (result, s') \<Rightarrow> (status_result result, s'))"

section \<open>Identities\<close>

definition signal_protocol_identity_get_key_pair ::
  "'s signal_protocol_store_context \<Rightarrow> 's \<Rightarrow> ratchet_identity_key_pair result \<times> 's" where
  "signal_protocol_identity_get_key_pair C s =
     (case get_identity_key_pair (identity_key_store C) s of
        ((result, public_buf, private_buf), s') \<Rightarrow>
          ((if result < 0 then Inl (sg_error_of_code result)
            else
             (case public_buf of None \<Rightarrow> Inl C_UNDEFINED
              | Some public_data \<Rightarrow>
             (case curve_decode_point public_data of Inl e \<Rightarrow> Inl e
              | Inr public_key \<Rightarrow>
             (case private_buf of None \<Rightarrow> Inl C_UNDEFINED
              | Some private_data \<Rightarrow>
             (case curve_decode_private_point private_data of Inl e \<Rightarrow> Inl e
              | Inr private_key \<Rightarrow> Inr (ratchet_identity_key_pair_create public_key private_key)))))), s'))"

definition signal_protocol_identity_get_local_registration_id ::
  "'s signal_protocol_store_context \<Rightarrow> 's \<Rightarrow> u32 result \<times> 's" where
  "signal_protocol_identity_get_local_registration_id C s =
     (case get_local_registration_id (identity_key_store C) s of
        ((result, registration_id), s') \<Rightarrow>
          ((if result < 0 then Inl (sg_error_of_code result) else Inr registration_id), s'))"

definition signal_protocol_identity_save_identity ::
  "'s signal_protocol_store_context \<Rightarrow> signal_protocol_address \<Rightarrow> ec_public_key option \<Rightarrow> 's
     \<Rightarrow> unit result \<times> 's" where
  "signal_protocol_identity_save_identity C address identity_key s =
     (case (case identity_key of None \<Rightarrow> Inr None
            | Some k \<Rightarrow> (case ec_public_key_serialize (Some k) of Inl e \<Rightarrow> Inl e | Inr d \<Rightarrow> Inr (Some d))) of
        Inl e \<Rightarrow> (Inl e, s)
      | Inr key_data \<Rightarrow>
         (case save_identity (identity_key_store C) address key_data s of
            (result, s') \<Rightarrow> (status_result result, s')))"

text \<open>The result is the callback's: 1 when the key is trusted, 0 when it is not.\<close>

definition signal_protocol_identity_is_trusted_identity ::
  "'s signal_protocol_store_context \<Rightarrow> signal_protocol_address \<Rightarrow> ec_public_key option \<Rightarrow> 's
     \<Rightarrow> int result \<times> 's" where
  "signal_protocol_identity_is_trusted_identity C address identity_key s =
     (case ec_public_key_serialize identity_key of Inl e \<Rightarrow> (Inl e, s)
      | Inr buffer \<Rightarrow>
         (case is_trusted_identity (identity_key_store C) address buffer s of
            (result, s') \<Rightarrow> ((if result < 0 then Inl (sg_error_of_code result) else Inr result), s')))"

section \<open>What the stores promise\<close>

text \<open>
  The contents of the stores, and the behaviour of the callbacks on them, again in two
  grades.  \<open>store_context_atomic\<close>: any callback may fail, as \<^verbatim>\<open>signal_protocol.h\<close> documents
  with "negative on failure"; one that reads changes nothing, one that writes changes its
  one entry, or nothing when it reports a failure.  \<open>store_context_of\<close>: stores at work, the
  hypothesis of the properties that say a run succeeds; no callback fails, a lookup hands
  out what is there, a key that is not there is \<^verbatim>\<open>SG_ERR_INVALID_KEY_ID\<close>, and identities are
  trusted on first use.
\<close>

record store_view =
  sv_sessions :: "signal_protocol_address \<Rightarrow> bytes option"
  sv_pre_keys :: "u32 \<Rightarrow> bytes option"
  sv_signed_pre_keys :: "u32 \<Rightarrow> bytes option"
  sv_identity_key_pair :: "bytes \<times> bytes"
  sv_registration_id :: u32
  sv_identities :: "signal_protocol_address \<Rightarrow> bytes option"

definition key_lookup :: "bytes option \<Rightarrow> int \<times> bytes option" where
  "key_lookup d = (case d of None \<Rightarrow> (-1003, None) | Some x \<Rightarrow> (0, Some x))"

definition trusted :: "store_view \<Rightarrow> signal_protocol_address \<Rightarrow> bytes \<Rightarrow> bool" where
  "trusted v a d \<longleftrightarrow> sv_identities v a = None \<or> sv_identities v a = Some d"

definition store_context_atomic :: "'s signal_protocol_store_context \<Rightarrow> ('s \<Rightarrow> store_view) \<Rightarrow> bool" where
  "store_context_atomic C view \<longleftrightarrow>
     (\<forall>a s. view (snd (load_session_func (session_store C) a s)) = view s) \<and>
     (\<forall>a d s. view (snd (store_session_func (session_store C) a d s))
        = (if fst (store_session_func (session_store C) a d s) < 0 then view s
           else (view s)\<lparr>sv_sessions := (sv_sessions (view s))(a := Some d)\<rparr>)) \<and>
     (\<forall>n s. view (snd (load_pre_key (pre_key_store C) n s)) = view s) \<and>
     (\<forall>n s. view (snd (remove_pre_key (pre_key_store C) n s))
        = (if fst (remove_pre_key (pre_key_store C) n s) < 0 then view s
           else (view s)\<lparr>sv_pre_keys := (sv_pre_keys (view s))(n := None)\<rparr>)) \<and>
     (\<forall>n s. view (snd (load_signed_pre_key (signed_pre_key_store C) n s)) = view s) \<and>
     (\<forall>s. view (snd (get_identity_key_pair (identity_key_store C) s)) = view s) \<and>
     (\<forall>s. view (snd (get_local_registration_id (identity_key_store C) s)) = view s) \<and>
     (\<forall>a d s. view (snd (is_trusted_identity (identity_key_store C) a d s)) = view s) \<and>
     (\<forall>a d s. view (snd (save_identity (identity_key_store C) a d s))
        = (if fst (save_identity (identity_key_store C) a d s) < 0 then view s
           else (view s)\<lparr>sv_identities := (sv_identities (view s))(a := d)\<rparr>))"

definition store_context_of :: "'s signal_protocol_store_context \<Rightarrow> ('s \<Rightarrow> store_view) \<Rightarrow> bool" where
  "store_context_of C view \<longleftrightarrow>
     session_store_of (session_store C) (sv_sessions \<circ> view) \<and>
     (\<forall>a d s. view (snd (store_session_func (session_store C) a d s))
        = (view s)\<lparr>sv_sessions := (sv_sessions (view s))(a := Some d)\<rparr>) \<and>
     (\<forall>n s. load_pre_key (pre_key_store C) n s = (key_lookup (sv_pre_keys (view s) n), s)) \<and>
     (\<forall>n s. fst (remove_pre_key (pre_key_store C) n s) = 0 \<and>
        view (snd (remove_pre_key (pre_key_store C) n s))
          = (view s)\<lparr>sv_pre_keys := (sv_pre_keys (view s))(n := None)\<rparr>) \<and>
     (\<forall>n d s. fst (store_pre_key (pre_key_store C) n d s) = 0 \<and>
        view (snd (store_pre_key (pre_key_store C) n d s))
          = (view s)\<lparr>sv_pre_keys := (sv_pre_keys (view s))(n := Some d)\<rparr>) \<and>
     (\<forall>n s. load_signed_pre_key (signed_pre_key_store C) n s = (key_lookup (sv_signed_pre_keys (view s) n), s)) \<and>
     (\<forall>n d s. fst (store_signed_pre_key (signed_pre_key_store C) n d s) = 0 \<and>
        view (snd (store_signed_pre_key (signed_pre_key_store C) n d s))
          = (view s)\<lparr>sv_signed_pre_keys := (sv_signed_pre_keys (view s))(n := Some d)\<rparr>) \<and>
     (\<forall>s. get_identity_key_pair (identity_key_store C) s
        = ((0, Some (fst (sv_identity_key_pair (view s))), Some (snd (sv_identity_key_pair (view s)))), s)) \<and>
     (\<forall>s. get_local_registration_id (identity_key_store C) s = ((0, sv_registration_id (view s)), s)) \<and>
     (\<forall>a d s. is_trusted_identity (identity_key_store C) a d s = ((if trusted (view s) a d then 1 else 0), s)) \<and>
     (\<forall>a d s. fst (save_identity (identity_key_store C) a d s) = 0 \<and>
        view (snd (save_identity (identity_key_store C) a d s))
          = (view s)\<lparr>sv_identities := (sv_identities (view s))(a := d)\<rparr>)"

lemma store_context_session: "store_context_of C view \<Longrightarrow> session_store_of (session_store C) (sv_sessions \<circ> view)"
  by (simp add: store_context_of_def)

lemma store_context_of_atomic: "store_context_of C view \<Longrightarrow> store_context_atomic C view"
  by (simp add: store_context_of_def store_context_atomic_def session_store_of_def)

text \<open>Where the wrappers leave the application's state: where the callback left it.\<close>

lemma wrapper_snd:
  "snd (signal_protocol_pre_key_load_key C n s) = snd (load_pre_key (pre_key_store C) n s)"
  "snd (signal_protocol_signed_pre_key_load_key C n s) = snd (load_signed_pre_key (signed_pre_key_store C) n s)"
  "snd (signal_protocol_identity_get_key_pair C s) = snd (get_identity_key_pair (identity_key_store C) s)"
  "snd (signal_protocol_identity_get_local_registration_id C s) = snd (get_local_registration_id (identity_key_store C) s)"
  "snd (signal_protocol_pre_key_remove_key C n s) = snd (remove_pre_key (pre_key_store C) n s)"
  by (simp_all add: signal_protocol_pre_key_load_key_def signal_protocol_signed_pre_key_load_key_def
      signal_protocol_identity_get_key_pair_def signal_protocol_identity_get_local_registration_id_def
      signal_protocol_pre_key_remove_key_def split: prod.split)

lemma pre_key_load_of:
  "store_context_of C view \<Longrightarrow> signal_protocol_pre_key_load_key C n s =
     ((case sv_pre_keys (view s) n of None \<Rightarrow> Inl SG_ERR_INVALID_KEY_ID | Some d \<Rightarrow> session_pre_key_deserialize d), s)"
  by (simp add: store_context_of_def signal_protocol_pre_key_load_key_def key_lookup_def sg_error_of_code_def
      split: option.split)

lemma signed_pre_key_load_of:
  "store_context_of C view \<Longrightarrow> signal_protocol_signed_pre_key_load_key C n s =
     ((case sv_signed_pre_keys (view s) n of None \<Rightarrow> Inl SG_ERR_INVALID_KEY_ID
       | Some d \<Rightarrow> session_signed_pre_key_deserialize d), s)"
  by (simp add: store_context_of_def signal_protocol_signed_pre_key_load_key_def key_lookup_def
      sg_error_of_code_def split: option.split)

lemma registration_id_of:
  "store_context_of C view \<Longrightarrow>
     signal_protocol_identity_get_local_registration_id C s = (Inr (sv_registration_id (view s)), s)"
  by (simp add: store_context_of_def signal_protocol_identity_get_local_registration_id_def)

lemma is_trusted_of:
  "store_context_of C view \<Longrightarrow> signal_protocol_identity_is_trusted_identity C a (Some k) s =
     (Inr (if trusted (view s) a (DJB_TYPE # pub_data k) then 1 else 0), s)"
  by (simp add: store_context_of_def signal_protocol_identity_is_trusted_identity_def ec_public_key_serialize_def)

text \<open>The identity key pair as the store keeps it.\<close>

definition identity_bytes :: "ratchet_identity_key_pair \<Rightarrow> bytes \<times> bytes" where
  "identity_bytes i = (DJB_TYPE # pub_data (ik_public_key i), priv_data (ik_private_key i))"

lemma identity_key_pair_of:
  assumes "store_context_of C view" "sv_identity_key_pair (view s) = identity_bytes i"
    and "pub_ok (ik_public_key i)" "priv_ok (ik_private_key i)"
  shows "signal_protocol_identity_get_key_pair C s = (Inr i, s)"
  using assms curve_decode_serialize [OF assms(3)] assms(4)
      curve_decode_private_inv [of "priv_data (ik_private_key i)" "ik_private_key i"]
  by (simp add: store_context_of_def signal_protocol_identity_get_key_pair_def identity_bytes_def
      ratchet_identity_key_pair_create_def)

lemma save_identity_of:
  assumes "store_context_of C view"
  shows "\<exists>s'. signal_protocol_identity_save_identity C a (Some k) s = (Inr (), s') \<and>
    view s' = (view s)\<lparr>sv_identities := (sv_identities (view s))(a := Some (DJB_TYPE # pub_data k))\<rparr>"
proof -
  obtain s' where "save_identity (identity_key_store C) a (Some (DJB_TYPE # pub_data k)) s = (0, s')"
    "view s' = (view s)\<lparr>sv_identities := (sv_identities (view s))(a := Some (DJB_TYPE # pub_data k))\<rparr>"
    using assms unfolding store_context_of_def by (metis prod.collapse)
  then show ?thesis
    by (simp add: signal_protocol_identity_save_identity_def ec_public_key_serialize_def status_result_def)
qed

lemma remove_pre_key_of:
  assumes "store_context_of C view"
  shows "\<exists>s'. signal_protocol_pre_key_remove_key C n s = (Inr (), s') \<and>
    view s' = (view s)\<lparr>sv_pre_keys := (sv_pre_keys (view s))(n := None)\<rparr>"
proof -
  obtain s' where "remove_pre_key (pre_key_store C) n s = (0, s')"
    "view s' = (view s)\<lparr>sv_pre_keys := (sv_pre_keys (view s))(n := None)\<rparr>"
    using assms unfolding store_context_of_def by (metis prod.collapse)
  then show ?thesis by (simp add: signal_protocol_pre_key_remove_key_def status_result_def)
qed

lemma store_session_of:
  assumes "store_context_of C view" "sr_ok rec"
  shows "\<exists>s' d. signal_protocol_session_store_session (session_store C) a rec s = (Inr (), s') \<and>
    session_record_serialize (Some rec) = Inr d \<and>
    view s' = (view s)\<lparr>sv_sessions := (sv_sessions (view s))(a := Some d)\<rparr>"
proof -
  obtain s' d where put: "signal_protocol_session_store_session (session_store C) a rec s = (Inr (), s')"
    "session_record_serialize (Some rec) = Inr d"
    using store_session_total [OF store_context_session [OF assms(1)] assms(2)] by blast
  then have "s' = snd (store_session_func (session_store C) a d s)"
    by (auto simp: signal_protocol_session_store_session_def split: prod.splits)
  with put assms(1) show ?thesis by (simp add: store_context_of_def)
qed

text \<open>Stored keys are loaded again.\<close>

lemma pre_key_stored:
  assumes "store_context_of C view" "kp_ok (pk_key_pair k)"
  shows "\<exists>s'. signal_protocol_pre_key_store_key C k s = (Inr (), s') \<and>
    signal_protocol_pre_key_load_key C (pk_id k) s' = (Inr k, s')"
proof -
  obtain d where d: "session_pre_key_serialize (Some k) = Inr d"
    by (simp add: session_pre_key_serialize_def ec_public_key_serialize_def ec_private_key_serialize_def spk.serialize_ok)
  obtain s' where "store_pre_key (pre_key_store C) (pk_id k) d s = (0, s')"
    "view s' = (view s)\<lparr>sv_pre_keys := (sv_pre_keys (view s))(pk_id k := Some d)\<rparr>"
    using assms(1) unfolding store_context_of_def by (metis prod.collapse)
  with d session_pre_key_roundtrip [OF d] assms(2) show ?thesis
    by (simp add: signal_protocol_pre_key_store_key_def status_result_def pre_key_load_of [OF assms(1)] kp_ok_def)
qed

lemma signed_pre_key_stored:
  assumes "store_context_of C view" "kp_ok (spk_key_pair k)" "length (spk_key_signature k) = 64"
  shows "\<exists>s'. signal_protocol_signed_pre_key_store_key C k s = (Inr (), s') \<and>
    signal_protocol_signed_pre_key_load_key C (spk_key_id k) s' = (Inr k, s')"
proof -
  let ?s = "\<lparr>ssp_id = Some (spk_key_id k),
    ssp_publickey = Some (DJB_TYPE # pub_data (kp_public_key (spk_key_pair k))),
    ssp_privatekey = Some (priv_data (kp_private_key (spk_key_pair k))),
    ssp_signature = Some (spk_key_signature k), ssp_timestamp = Some (spk_key_timestamp k)\<rparr>"
  have d: "session_signed_pre_key_serialize k = Inr (pb_pack ssp_desc (ssp_to_pb ?s))"
    by (simp add: session_signed_pre_key_serialize_def ec_public_key_serialize_def ec_private_key_serialize_def
        ssp.serialize_ok)
  have "length (pb_pack ssp_desc (ssp_to_pb ?s)) < 2 ^ 31"
    using assms(2,3) pb_bound_32 [of 1 "ssp_id ?s"] pb_bound_bytes [of 2 33 "ssp_publickey ?s"]
      pb_bound_bytes [of 3 32 "ssp_privatekey ?s"] pb_bound_bytes [of 4 64 "ssp_signature ?s"]
      pb_bound_64 [of 5 "ssp_timestamp ?s"]
    by (simp add: ssp_desc_def ssp_to_pb_def pub_ok_def priv_ok_def kp_ok_def word_less_nat_alt)
  note rt = session_signed_pre_key_roundtrip [OF d this]
  obtain s' where "store_signed_pre_key (signed_pre_key_store C) (spk_key_id k) (pb_pack ssp_desc (ssp_to_pb ?s)) s = (0, s')"
    "view s' = (view s)\<lparr>sv_signed_pre_keys := (sv_signed_pre_keys (view s))(spk_key_id k := Some (pb_pack ssp_desc (ssp_to_pb ?s)))\<rparr>"
    using assms(1) unfolding store_context_of_def by (metis prod.collapse)
  moreover have "spk_key_signature k \<noteq> []" using assms(3) by auto
  ultimately show ?thesis
    using d rt assms(2)
    by (simp add: signal_protocol_signed_pre_key_store_key_def status_result_def signed_pre_key_load_of [OF assms(1)]
        kp_ok_def)
qed

end
