(* ===== verification/Key_Exchange.thy ===== *)
theory Key_Exchange
  imports Protocol
begin

text \<open>
  The key exchange message of \<^verbatim>\<open>protocol.c\<close>.  Its \<^verbatim>\<open>serialized\<close> buffer is kept as the C code
  leaves it in memory, the length field and the bytes behind it, because
  \<^verbatim>\<open>key_exchange_message_deserialize\<close> copies the input over the buffer object from its first
  byte and so overwrites the length field.
\<close>

definition KEY_EXCHANGE_INITIATE_FLAG :: u32 where "KEY_EXCHANGE_INITIATE_FLAG = 0x01"
definition KEY_EXCHANGE_RESPONSE_FLAG :: u32 where "KEY_EXCHANGE_RESPONSE_FLAG = 0x02"
definition KEY_EXCHANGE_SIMULTAENOUS_INITIATE_FLAG :: u32 where
  "KEY_EXCHANGE_SIMULTAENOUS_INITIATE_FLAG = 0x04"

record signal_buffer =
  buf_len :: u64
  buf_data :: bytes

record key_exchange_message =
  kem_version :: u8
  kem_supported_version :: u8
  kem_sequence :: u32
  kem_flags :: u32
  kem_base_key :: ec_public_key
  kem_base_key_signature :: bytes
  kem_ratchet_key :: ec_public_key
  kem_identity_key :: ec_public_key
  kem_serialized :: signal_buffer

definition key_exchange_message_serialize ::
  "u8 \<Rightarrow> u8 \<Rightarrow> u32 \<Rightarrow> u32 \<Rightarrow> ec_public_key \<Rightarrow> bytes \<Rightarrow> ec_public_key \<Rightarrow> ec_public_key
     \<Rightarrow> bytes result" where
  "key_exchange_message_serialize version supported_version sequence flags base_key base_key_signature
       ratchet_key identity_key =
     (case ec_public_key_serialize_protobuf (Some base_key) of Inl e \<Rightarrow> Inl e
      | Inr base \<Rightarrow>
     (case ec_public_key_serialize_protobuf (Some ratchet_key) of Inl e \<Rightarrow> Inl e
      | Inr ratchet \<Rightarrow>
     (case ec_public_key_serialize_protobuf (Some identity_key) of Inl e \<Rightarrow> Inl e
      | Inr identity \<Rightarrow>
     (case pb_serialize wke_desc
             (wke_to_pb \<lparr>wke_id = Some (push_bit 5 sequence OR flags), wke_basekey = Some base,
                wke_ratchetkey = Some ratchet, wke_identitykey = Some identity,
                wke_basekeysignature = (if 3 \<le> version then Some base_key_signature else None)\<rparr>) of
        Inl e \<Rightarrow> Inl e
      | Inr body \<Rightarrow> Inr ((push_bit 4 version OR supported_version) # body)))))"

text \<open>The signature is copied from the caller's pointer, \<^verbatim>\<open>CURVE_SIGNATURE_LEN\<close> bytes of it.\<close>

definition key_exchange_message_create ::
  "u8 \<Rightarrow> u32 \<Rightarrow> u32 \<Rightarrow> ec_public_key \<Rightarrow> bytes \<Rightarrow> ec_public_key \<Rightarrow> ec_public_key
     \<Rightarrow> key_exchange_message result" where
  "key_exchange_message_create message_version sequence flags base_key base_key_signature ratchet_key
       identity_key =
     (if length base_key_signature < CURVE_SIGNATURE_LEN then Inl C_UNDEFINED
      else
       (case key_exchange_message_serialize message_version CIPHERTEXT_CURRENT_VERSION sequence flags base_key
               (take CURVE_SIGNATURE_LEN base_key_signature) ratchet_key identity_key of
          Inl e \<Rightarrow> Inl e
        | Inr serialized \<Rightarrow>
           Inr \<lparr>kem_version = message_version, kem_supported_version = CIPHERTEXT_CURRENT_VERSION,
                kem_sequence = sequence, kem_flags = flags, kem_base_key = base_key,
                kem_base_key_signature = take CURVE_SIGNATURE_LEN base_key_signature,
                kem_ratchet_key = ratchet_key, kem_identity_key = identity_key,
                kem_serialized = \<lparr>buf_len = of_nat (length serialized), buf_data = serialized\<rparr>\<rparr>))"

text \<open>
  \<^verbatim>\<open>memcpy(result_message->serialized, data, len)\<close>: the first eight bytes of the input become
  the length field (lowest byte first), the others land at the start of the data, and the
  last eight bytes of the data stay uninitialised; \<open>buf_data\<close> holds the bytes written.
\<close>

definition overwritten_buffer :: "bytes \<Rightarrow> signal_buffer" where
  "overwritten_buffer data =
     \<lparr>buf_len = of_nat (\<Sum>i<8. unat (data ! i) * 256 ^ i), buf_data = drop 8 data\<rparr>"

definition key_exchange_message_deserialize :: "bytes \<Rightarrow> key_exchange_message result" where
  "key_exchange_message_deserialize data =
     (if length data \<le> 1 then Inl SG_ERR_INVAL
      else
       (let version = version_of_byte (data ! 0)
        in if version < CIPHERTEXT_CURRENT_VERSION then Inl SG_ERR_LEGACY_MESSAGE
           else if CIPHERTEXT_CURRENT_VERSION < version then Inl SG_ERR_INVALID_VERSION
           else
            (case pb_deserialize wke_desc (drop 1 data) of Inl e \<Rightarrow> Inl e
             | Inr m \<Rightarrow>
                (let s = wke_of_pb m in
                 (case (wke_id s, wke_basekey s, wke_ratchetkey s, wke_identitykey s, wke_basekeysignature s) of
                    (Some key_id, Some base, Some ratchet, Some identity, Some signature) \<Rightarrow>
                      (if length signature \<noteq> CURVE_SIGNATURE_LEN then Inl SG_ERR_INVALID_MESSAGE
                       else
                        (case curve_decode_point base of Inl e \<Rightarrow> Inl e
                         | Inr base_key \<Rightarrow>
                        (case curve_decode_point ratchet of Inl e \<Rightarrow> Inl e
                         | Inr ratchet_key \<Rightarrow>
                        (case curve_decode_point identity of Inl e \<Rightarrow> Inl e
                         | Inr identity_key \<Rightarrow>
                            Inr \<lparr>kem_version = version, kem_supported_version = data ! 0 AND 0x0F,
                                 kem_sequence = drop_bit 5 key_id, kem_flags = key_id AND 0x1F,
                                 kem_base_key = base_key, kem_base_key_signature = signature,
                                 kem_ratchet_key = ratchet_key, kem_identity_key = identity_key,
                                 kem_serialized = overwritten_buffer data\<rparr>))))
                  | _ \<Rightarrow> Inl SG_ERR_INVALID_MESSAGE)))))"

definition key_exchange_message_is_response :: "key_exchange_message \<Rightarrow> bool" where
  "key_exchange_message_is_response m \<longleftrightarrow> kem_flags m AND KEY_EXCHANGE_RESPONSE_FLAG \<noteq> 0"

definition key_exchange_message_is_initiate :: "key_exchange_message \<Rightarrow> bool" where
  "key_exchange_message_is_initiate m \<longleftrightarrow> kem_flags m AND KEY_EXCHANGE_INITIATE_FLAG \<noteq> 0"

definition key_exchange_message_is_response_for_simultaneous_initiate :: "key_exchange_message \<Rightarrow> bool" where
  "key_exchange_message_is_response_for_simultaneous_initiate m \<longleftrightarrow>
     kem_flags m AND KEY_EXCHANGE_SIMULTAENOUS_INITIATE_FLAG \<noteq> 0"

end
