(* ===== verification/Session_Builder.thy ===== *)
theory Session_Builder
  imports Handler Key_Stores Key_Exchange Session_Cipher Ratcheting_Session
begin

text \<open>
  \<^verbatim>\<open>session_builder.c\<close>: a session from a pre-key message, from a pre-key bundle, or from a key
  exchange, and the operation of \<^verbatim>\<open>session_cipher.c\<close> that builds the session for a pre-key
  message and decrypts it.
\<close>

record 's session_builder =
  builder_store :: "'s signal_protocol_store_context"
  builder_remote_address :: signal_protocol_address

text \<open>The state a session is initialised in: a record that is in use archives its state first.\<close>

definition record_for_new_session :: "session_record \<Rightarrow> session_record" where
  "record_for_new_session record =
     (if sr_is_fresh record then record else session_record_archive_current_state record)"

definition session_record_get_state :: "session_record \<Rightarrow> session_state result" where
  "session_record_get_state record = (case sr_state record of None \<Rightarrow> Inl C_UNDEFINED | Some state \<Rightarrow> Inr state)"

section \<open>Pre-key messages\<close>

definition load_one_time_pre_key ::
  "'s signal_protocol_store_context \<Rightarrow> pre_key_signal_message \<Rightarrow> ('s, ec_key_pair option) handler" where
  "load_one_time_pre_key C message =
     (if pksm_has_pre_key_id message
      then andthen (in_store (signal_protocol_pre_key_load_key C (pksm_pre_key_id message)))
             (\<lambda>pre_key. returning (Inr (Some (pk_key_pair pre_key))))
      else returning (Inr None))"

text \<open>
  The product is the id of the one-time pre-key that was used, if any, and the record with
  the new session.
\<close>

definition session_builder_process_pre_key_signal_message_v3 ::
  "'s session_builder \<Rightarrow> signal_context \<Rightarrow> session_record \<Rightarrow> pre_key_signal_message
     \<Rightarrow> ('s, u32 option \<times> session_record) handler" where
  "session_builder_process_pre_key_signal_message_v3 builder G record message =
     (let C = builder_store builder in
      andthen (returning (session_record_has_session_state record (ucast (pksm_version message))
                 (Some (pksm_base_key message)))) (\<lambda>has_session_state.
      if has_session_state then returning (Inr (None, record))
      else
      andthen (in_store (signal_protocol_signed_pre_key_load_key C (pksm_signed_pre_key_id message)))
        (\<lambda>our_signed_pre_key.
      andthen (in_store (signal_protocol_identity_get_key_pair C)) (\<lambda>our_identity_key.
      andthen (load_one_time_pre_key C message) (\<lambda>our_one_time_pre_key.
      andthen (returning (bob_signal_protocol_parameters_create (Some our_identity_key)
                 (Some (spk_key_pair our_signed_pre_key)) our_one_time_pre_key
                 (Some (spk_key_pair our_signed_pre_key)) (Some (pksm_identity_key message))
                 (Some (pksm_base_key message)))) (\<lambda>parameters.
      andthen (returning (session_record_get_state (record_for_new_session record))) (\<lambda>state.
      andthen (returning (ratcheting_session_bob_initialize G state parameters)) (\<lambda>state1.
      andthen (in_store (signal_protocol_identity_get_local_registration_id C)) (\<lambda>local_registration_id.
      returning (Inr
        (if pksm_has_pre_key_id message \<and> pksm_pre_key_id message \<noteq> PRE_KEY_MEDIUM_MAX_VALUE
         then Some (pksm_pre_key_id message) else None,
         session_record_set_state (record_for_new_session record)
           (session_state_set_alice_base_key (pksm_base_key message)
             (session_state_set_remote_registration_id (pksm_registration_id message)
               (session_state_set_local_registration_id local_registration_id state1))))))))))))))"

definition session_builder_process_pre_key_signal_message ::
  "'s session_builder \<Rightarrow> signal_context \<Rightarrow> session_record \<Rightarrow> pre_key_signal_message
     \<Rightarrow> ('s, u32 option \<times> session_record) handler" where
  "session_builder_process_pre_key_signal_message builder G record message =
     (let C = builder_store builder; their_identity_key = pksm_identity_key message in
      andthen (in_store (signal_protocol_identity_is_trusted_identity C (builder_remote_address builder)
                 (Some their_identity_key))) (\<lambda>result.
      if result = 0 then returning (Inl SG_ERR_UNTRUSTED_IDENTITY)
      else
      andthen (session_builder_process_pre_key_signal_message_v3 builder G record message) (\<lambda>product.
      andthen (in_store (signal_protocol_identity_save_identity C (builder_remote_address builder)
                 (Some their_identity_key))) (\<lambda>_.
      returning (Inr product)))))"

text \<open>The session cipher's builder works on the cipher's own store and address.\<close>

definition session_cipher_decrypt_pre_key_signal_message ::
  "'s signal_protocol_store_context \<Rightarrow> signal_context \<Rightarrow> 's session_cipher \<Rightarrow> pre_key_signal_message
     \<Rightarrow> ('s, bytes) handler" where
  "session_cipher_decrypt_pre_key_signal_message C G cipher ciphertext =
     (let address = cipher_remote_address cipher;
          builder = \<lparr>builder_store = C, builder_remote_address = address\<rparr> in
      if cipher_inside_callback cipher then returning (Inl SG_ERR_INVAL)
      else
      andthen (in_store (signal_protocol_session_load_session (session_store C) address)) (\<lambda>record.
      andthen (session_builder_process_pre_key_signal_message builder G record ciphertext)
        (\<lambda>(unsigned_pre_key_id, record1).
      andthen (draw (session_cipher_decrypt_from_record_and_signal_message G record1 (pksm_message ciphertext)))
        (\<lambda>(plaintext, record2).
      andthen (in_store (session_cipher_decrypt_callback cipher plaintext)) (\<lambda>_.
      andthen (in_store (signal_protocol_session_store_session (session_store C) address record2)) (\<lambda>_.
      andthen (case unsigned_pre_key_id of None \<Rightarrow> returning (Inr ())
               | Some pre_key_id \<Rightarrow> in_store (signal_protocol_pre_key_remove_key C pre_key_id)) (\<lambda>_.
      returning (Inr plaintext))))))))"

section \<open>Pre-key bundles\<close>

text \<open>The check of the bundle's signed pre-key, which must be there and be signed by the identity key.\<close>

definition verified_signed_pre_key :: "signal_context \<Rightarrow> session_pre_key_bundle \<Rightarrow> ec_public_key result" where
  "verified_signed_pre_key G bundle =
     (case pkb_signed_pre_key_public bundle of None \<Rightarrow> Inl SG_ERR_INVALID_KEY
      | Some signed_pre_key \<Rightarrow>
     (case ec_public_key_serialize (Some signed_pre_key) of Inl e \<Rightarrow> Inl e
      | Inr serialized_signed_pre_key \<Rightarrow>
     (case (pkb_identity_key bundle, pkb_signed_pre_key_signature bundle) of
        (Some identity_key, Some signature) \<Rightarrow>
          (case curve_verify_signature G identity_key serialized_signed_pre_key signature of Inl e \<Rightarrow> Inl e
           | Inr verified \<Rightarrow> (if verified then Inr signed_pre_key else Inl SG_ERR_INVALID_KEY))
      | _ \<Rightarrow> Inl C_UNDEFINED)))"

definition session_builder_process_pre_key_bundle ::
  "'s session_builder \<Rightarrow> signal_context \<Rightarrow> session_pre_key_bundle \<Rightarrow> ('s, unit) handler" where
  "session_builder_process_pre_key_bundle builder G bundle =
     (let C = builder_store builder; address = builder_remote_address builder in
      andthen (in_store (signal_protocol_identity_is_trusted_identity C address (pkb_identity_key bundle)))
        (\<lambda>result.
      if result = 0 then returning (Inl SG_ERR_UNTRUSTED_IDENTITY)
      else
      andthen (returning (verified_signed_pre_key G bundle)) (\<lambda>their_signed_pre_key.
      andthen (in_store (signal_protocol_session_load_session (session_store C) address)) (\<lambda>record.
      andthen (draw (curve_generate_key_pair G)) (\<lambda>our_base_key.
      andthen (in_store (signal_protocol_identity_get_key_pair C)) (\<lambda>our_identity_key.
      andthen (returning (alice_signal_protocol_parameters_create (Some our_identity_key) (Some our_base_key)
                 (pkb_identity_key bundle) (Some their_signed_pre_key) (pkb_pre_key_public bundle)
                 (Some their_signed_pre_key))) (\<lambda>parameters.
      andthen (returning (session_record_get_state (record_for_new_session record))) (\<lambda>state.
      andthen (draw (ratcheting_session_alice_initialize G state parameters)) (\<lambda>state1.
      andthen (in_store (signal_protocol_identity_get_local_registration_id C)) (\<lambda>local_registration_id.
      andthen (in_store (signal_protocol_session_store_session (session_store C) address
          (session_record_set_state (record_for_new_session record)
            (session_state_set_alice_base_key (kp_public_key our_base_key)
              (session_state_set_remote_registration_id (pkb_registration_id bundle)
                (session_state_set_local_registration_id local_registration_id
                  (session_state_set_unacknowledged_pre_key_message
                    (if pkb_pre_key_public bundle = None then None else Some (pkb_pre_key_id bundle))
                    (pkb_signed_pre_key_id bundle) (kp_public_key our_base_key) state1))))))) (\<lambda>_.
      in_store (signal_protocol_identity_save_identity C address (pkb_identity_key bundle)))))))))))))"

section \<open>Key exchanges\<close>

definition verified_base_key :: "signal_context \<Rightarrow> key_exchange_message \<Rightarrow> unit result" where
  "verified_base_key G message =
     (case ec_public_key_serialize (Some (kem_base_key message)) of Inl e \<Rightarrow> Inl e
      | Inr message_base_key_serialized \<Rightarrow>
     (case curve_verify_signature G (kem_identity_key message) message_base_key_serialized
             (kem_base_key_signature message) of Inl e \<Rightarrow> Inl e
      | Inr verified \<Rightarrow> (if verified then Inr () else Inl SG_ERR_INVALID_KEY)))"

text \<open>Our half of an exchange that the other side started: the pending one, or new keys.\<close>

definition initiate_parameters ::
  "'s session_builder \<Rightarrow> signal_context \<Rightarrow> session_state \<Rightarrow> key_exchange_message
     \<Rightarrow> ('s, symmetric_signal_protocol_parameters \<times> u32) handler" where
  "initiate_parameters builder G state message =
     (if \<not> ss_has_pending_key_exchange state then
        andthen (in_store (signal_protocol_identity_get_key_pair (builder_store builder))) (\<lambda>identity_key_pair.
        andthen (draw (curve_generate_key_pair G)) (\<lambda>our_base_key.
        andthen (draw (curve_generate_key_pair G)) (\<lambda>our_ratchet_key.
        andthen (returning (symmetric_signal_protocol_parameters_create (Some identity_key_pair)
                   (Some our_base_key) (Some our_ratchet_key) (Some (kem_base_key message))
                   (Some (kem_ratchet_key message)) (Some (kem_identity_key message)))) (\<lambda>parameters.
        returning (Inr (parameters, KEY_EXCHANGE_RESPONSE_FLAG))))))
      else
        andthen (returning (symmetric_signal_protocol_parameters_create
                   (session_state_get_pending_key_exchange_identity_key state)
                   (session_state_get_pending_key_exchange_base_key state)
                   (session_state_get_pending_key_exchange_ratchet_key state) (Some (kem_base_key message))
                   (Some (kem_ratchet_key message)) (Some (kem_identity_key message)))) (\<lambda>parameters.
        returning (Inr (parameters, KEY_EXCHANGE_RESPONSE_FLAG OR KEY_EXCHANGE_SIMULTAENOUS_INITIATE_FLAG))))"

definition session_builder_process_initiate ::
  "'s session_builder \<Rightarrow> signal_context \<Rightarrow> key_exchange_message \<Rightarrow> ('s, key_exchange_message) handler" where
  "session_builder_process_initiate builder G message =
     (let C = builder_store builder; address = builder_remote_address builder in
      andthen (in_store (signal_protocol_session_load_session (session_store C) address)) (\<lambda>record.
      andthen (returning (verified_base_key G message)) (\<lambda>_.
      andthen (returning (session_record_get_state record)) (\<lambda>state.
      andthen (initiate_parameters builder G state message) (\<lambda>(parameters, flags).
      andthen (returning (session_record_get_state (record_for_new_session record))) (\<lambda>state1.
      andthen (draw (ratcheting_session_symmetric_initialize G state1 parameters)) (\<lambda>state2.
      andthen (in_store (signal_protocol_session_store_session (session_store C) address
                 (session_record_set_state (record_for_new_session record) state2))) (\<lambda>_.
      andthen (in_store (signal_protocol_identity_save_identity C address (Some (kem_identity_key message)))) (\<lambda>_.
      andthen (returning (ec_public_key_serialize (Some (kp_public_key (symp_our_base_key parameters)))))
        (\<lambda>public_base_key_serialized.
      andthen (draw (curve_calculate_signature G (ik_private_key (symp_our_identity_key parameters))
                 public_base_key_serialized)) (\<lambda>base_key_signature.
      returning (key_exchange_message_create (ucast (ss_session_version state2)) (kem_sequence message) flags
        (kp_public_key (symp_our_base_key parameters)) base_key_signature
        (kp_public_key (symp_our_ratchet_key parameters))
        (ik_public_key (symp_our_identity_key parameters))))))))))))))"

definition session_builder_process_response ::
  "'s session_builder \<Rightarrow> signal_context \<Rightarrow> key_exchange_message \<Rightarrow> ('s, unit) handler" where
  "session_builder_process_response builder G message =
     (let C = builder_store builder; address = builder_remote_address builder in
      andthen (in_store (signal_protocol_session_load_session (session_store C) address)) (\<lambda>record.
      andthen (returning (session_record_get_state record)) (\<lambda>state.
      if \<not> ss_has_pending_key_exchange state \<or>
         session_state_get_pending_key_exchange_sequence state \<noteq> kem_sequence message then
        returning (if \<not> key_exchange_message_is_response_for_simultaneous_initiate message
                   then Inl SG_ERR_STALE_KEY_EXCHANGE else Inr ())
      else
      andthen (returning (symmetric_signal_protocol_parameters_create
                 (session_state_get_pending_key_exchange_identity_key state)
                 (session_state_get_pending_key_exchange_base_key state)
                 (session_state_get_pending_key_exchange_ratchet_key state) (Some (kem_base_key message))
                 (Some (kem_ratchet_key message)) (Some (kem_identity_key message)))) (\<lambda>parameters.
      andthen (returning (session_record_get_state (record_for_new_session record))) (\<lambda>state1.
      andthen (draw (ratcheting_session_symmetric_initialize G state1 parameters)) (\<lambda>state2.
      andthen (in_store (signal_protocol_session_store_session (session_store C) address
                 (session_record_set_state (record_for_new_session record) state2))) (\<lambda>_.
      andthen (returning (if 3 \<le> ss_session_version state2 then verified_base_key G message else Inr ())) (\<lambda>_.
      andthen (in_store (signal_protocol_session_store_session (session_store C) address
                 (session_record_set_state (record_for_new_session record) state2))) (\<lambda>_.
      in_store (signal_protocol_identity_save_identity C address (Some (kem_identity_key message))))))))))))"

definition session_builder_process_key_exchange_message ::
  "'s session_builder \<Rightarrow> signal_context \<Rightarrow> key_exchange_message \<Rightarrow> ('s, key_exchange_message option) handler" where
  "session_builder_process_key_exchange_message builder G message =
     (andthen (in_store (signal_protocol_identity_is_trusted_identity (builder_store builder)
                 (builder_remote_address builder) (Some (kem_identity_key message)))) (\<lambda>result.
      if result = 0 then returning (Inl SG_ERR_UNTRUSTED_IDENTITY)
      else if key_exchange_message_is_initiate message then
        andthen (session_builder_process_initiate builder G message) (\<lambda>response_message.
        returning (Inr (Some response_message)))
      else
        andthen (session_builder_process_response builder G message) (\<lambda>_. returning (Inr None))))"

text \<open>Starting an exchange; every failure is reported as \<^verbatim>\<open>SG_ERR_INVALID_KEY\<close>.\<close>

definition start_key_exchange ::
  "'s session_builder \<Rightarrow> signal_context \<Rightarrow> ('s, key_exchange_message) handler" where
  "start_key_exchange builder G =
     (let C = builder_store builder; address = builder_remote_address builder in
      andthen (draw (signal_protocol_key_helper_get_random_sequence G 65534)) (\<lambda>random_value.
      andthen (draw (curve_generate_key_pair G)) (\<lambda>base_key.
      andthen (draw (curve_generate_key_pair G)) (\<lambda>ratchet_key.
      andthen (in_store (signal_protocol_identity_get_key_pair C)) (\<lambda>identity_key.
      andthen (returning (ec_public_key_serialize (Some (kp_public_key base_key)))) (\<lambda>base_key_public_serialized.
      andthen (draw (curve_calculate_signature G (ik_private_key identity_key) base_key_public_serialized))
        (\<lambda>base_key_signature.
      if length base_key_signature \<noteq> CURVE_SIGNATURE_LEN then returning (Inl SG_ERR_UNKNOWN)
      else
      andthen (in_store (signal_protocol_session_load_session (session_store C) address)) (\<lambda>record.
      andthen (returning (session_record_get_state record)) (\<lambda>state.
      andthen (in_store (signal_protocol_session_store_session (session_store C) address
                 (session_record_set_state record (session_state_set_pending_key_exchange
                   (of_int random_value + 1) base_key ratchet_key identity_key state)))) (\<lambda>_.
      returning (key_exchange_message_create CIPHERTEXT_CURRENT_VERSION (of_int random_value + 1)
        KEY_EXCHANGE_INITIATE_FLAG (kp_public_key base_key) base_key_signature (kp_public_key ratchet_key)
        (ik_public_key identity_key))))))))))))"

definition session_builder_process ::
  "'s session_builder \<Rightarrow> signal_context \<Rightarrow> ('s, key_exchange_message) handler" where
  "session_builder_process builder G w =
     (case start_key_exchange builder G w of
        (Inl e, w') \<Rightarrow> (Inl (if e = C_UNDEFINED then C_UNDEFINED else SG_ERR_INVALID_KEY), w')
      | (Inr message, w') \<Rightarrow> (Inr message, w'))"

end
