(* ===== verification/Double_Ratchet.thy ===== *)
theory Double_Ratchet
  imports Conversation
begin

text \<open>
  The double ratchet as a whole: two sessions that send and receive in any order over a
  network that delays, reorders and loses messages.  The steps of the conversation are an
  inductive relation over the two states and the messages in flight; its invariant says
  of each direction which chains the receiver knows and how the sender's newest one is
  linked to the receiver's state.
\<close>

section \<open>The other receiving chains\<close>

definition receiver_keys :: "session_state \<Rightarrow> ec_public_key option list" where
  "receiver_keys st = map rc_sender_ratchet_key (ss_receiver_chains st)"

lemma ss_ok_chain_keys: "\<lbrakk>ss_ok st; c \<in> set (ss_receiver_chains st)\<rbrakk> \<Longrightarrow> pred_option pub_ok (rc_sender_ratchet_key c)"
  by (auto simp: ss_ok_def list_all_iff rc_ok_def)

lemma rc_matches_iff:
  "\<lbrakk>pred_option pub_ok (rc_sender_ratchet_key c); pub_ok k\<rbrakk> \<Longrightarrow> rc_matches k c \<longleftrightarrow> rc_sender_ratchet_key c = Some k"
  by (simp add: rc_matches_def ec_public_key_compare_eq)

lemma find_None_keys:
  assumes "ss_ok st" "pub_ok k"
  shows "session_state_find_receiver_chain st k = None \<longleftrightarrow> Some k \<notin> set (receiver_keys st)"
  using assms rc_matches_iff [OF ss_ok_chain_keys [OF assms(1)] assms(2)]
  by (auto simp: session_state_find_receiver_chain_def find_None_iff receiver_keys_def image_iff)

text \<open>A change to the chain of \<open>k\<close> alone.\<close>

definition only_chain :: "ec_public_key \<Rightarrow> session_state \<Rightarrow> session_state \<Rightarrow> bool" where
  "only_chain k st st' \<longleftrightarrow>
     receiver_keys st' = receiver_keys st \<and>
     (\<forall>k'. pub_ok k' \<longrightarrow> k' \<noteq> k \<longrightarrow> session_state_find_receiver_chain st' k' = session_state_find_receiver_chain st k')"

lemma only_chain_refl: "only_chain k st st"
  by (simp add: only_chain_def)

lemma only_chain_trans: "\<lbrakk>only_chain k st st1; only_chain k st1 st'\<rbrakk> \<Longrightarrow> only_chain k st st'"
  by (simp add: only_chain_def)

lemma update_first_keys:
  "(\<And>x. g (f x) = g x) \<Longrightarrow> map g (update_first P f xs) = map g xs"
  by (induction xs) auto

lemma only_chain_update:
  assumes ok: "\<And>c. c \<in> set (ss_receiver_chains st) \<Longrightarrow> pred_option pub_ok (rc_sender_ratchet_key c)" and k: "pub_ok k"
    and f: "\<And>n. rc_sender_ratchet_key (f n) = rc_sender_ratchet_key n"
  shows "only_chain k st (update_receiver_chain k f st)"
proof -
  have "List.find (rc_matches k') (update_first (rc_matches k) f cs) = List.find (rc_matches k') cs"
    if "pub_ok k'" "k' \<noteq> k" "\<And>c. c \<in> set cs \<Longrightarrow> pred_option pub_ok (rc_sender_ratchet_key c)" for k' cs
    using that by (induction cs) (auto simp: rc_matches_iff k f)
  with ok show ?thesis
    by (simp add: only_chain_def receiver_keys_def session_state_find_receiver_chain_def update_receiver_chain_def
        update_first_keys [of rc_sender_ratchet_key f, OF f])
qed

lemma only_chain_set_message_keys:
  "\<lbrakk>ss_ok st; pub_ok k\<rbrakk> \<Longrightarrow> only_chain k st (session_state_set_message_keys st k mk)"
  by (auto simp: session_state_set_message_keys_def only_chain_refl split: option.split
      intro: only_chain_update ss_ok_chain_keys)

lemma only_chain_skip:
  "\<lbrakk>skip_message_keys G k n ck st = Inr (ck', st'); ss_ok st; pub_ok k\<rbrakk> \<Longrightarrow> only_chain k st st'"
proof (induction G k n ck st rule: skip_message_keys.induct)
  case (1 G k n ck st)
  show ?case
  proof (cases "ck_index ck < n")
    case True
    with 1(2) obtain mk c1 where mk: "ck_keys G ck = Inr mk" and c1: "next_ck G ck = Inr c1"
      and run: "skip_message_keys G k n c1 (session_state_set_message_keys st k mk) = Inr (ck', st')"
      by (auto simp: skip_message_keys.simps [of G k n ck st] result_simps)
    have "ss_ok (session_state_set_message_keys st k mk)"
      using 1(3) ratchet_chain_key_get_message_keys_ok [OF mk] by (intro ss_ok_intros) auto
    from only_chain_trans [OF only_chain_set_message_keys [OF 1(3,4)] 1(1) [OF True mk c1 run this 1(4)]]
    show ?thesis .
  qed (use 1 in \<open>simp add: skip_message_keys.simps [of G k n ck st] only_chain_refl\<close>)
qed

lemma only_chain_message_keys:
  assumes run: "session_cipher_get_or_create_message_keys G st k ck n = Inr (mk, st')" and ok: "ss_ok st" "pub_ok k"
  shows "only_chain k st st'"
  using run
proof (cases rule: get_or_create_message_keys_cases)
  case stored
  then show ?thesis
    using ok by (auto simp: session_state_remove_message_keys_def split: option.splits
        intro!: only_chain_update ss_ok_chain_keys)
next
  case (ahead c1 st1 c2)
  have "only_chain k st1 st'"
    using ahead(4) skip_message_keys_ok [OF ahead(2) ok(1)] ok(2)
    by (auto simp: session_state_set_receiver_chain_key_def split: option.splits
        intro!: only_chain_update ss_ok_chain_keys)
  with only_chain_skip [OF ahead(2) ok] show ?thesis by (rule only_chain_trans)
qed

text \<open>A new chain leaves each of the others alone or, being one too many, drops it.\<close>

lemma receiver_keys_add:
  "receiver_keys (session_state_add_receiver_chain k ck st)
     = drop (Suc (length (ss_receiver_chains st)) - MAX_RECEIVER_CHAINS) (receiver_keys st) @ [Some k]"
  by (simp add: receiver_keys_def session_state_add_receiver_chain_def receiver_chains_add_def append_bounded_def
      dl_trim_head_drop drop_map MAX_RECEIVER_CHAINS_def)

lemma find_drop_distinct:
  assumes "distinct (map g xs)" "List.find (\<lambda>x. g x = y) xs = Some c"
  shows "List.find (\<lambda>x. g x = y) (drop i xs) = Some c \<or> List.find (\<lambda>x. g x = y) (drop i xs) = None"
  using assms
proof (induction xs arbitrary: i)
  case (Cons x xs)
  show ?case
  proof (cases i)
    case (Suc j)
    show ?thesis
    proof (cases "g x = y")
      case True
      then have "\<forall>z \<in> set (drop j xs). g z \<noteq> y" using Cons.prems(1)
        by (metis distinct.simps(2) image_eqI in_set_dropD list.set_map list.simps(9))
      then show ?thesis by (simp add: Suc find_None_iff)
    qed (use Cons Suc in auto)
  qed (use Cons in auto)
qed simp

lemma find_add_other:
  assumes ok: "ss_ok st" "distinct (receiver_keys st)" and k: "pub_ok k'" "k' \<noteq> k" "pub_ok k"
  shows "session_state_find_receiver_chain (session_state_add_receiver_chain k ck st) k' = None \<or>
    session_state_find_receiver_chain (session_state_add_receiver_chain k ck st) k' = session_state_find_receiver_chain st k'"
proof -
  let ?n = "\<lparr>rc_sender_ratchet_key = Some k, rc_chain_key = Some ck, rc_message_keys = []\<rparr>"
  let ?i = "Suc (length (ss_receiver_chains st)) - MAX_RECEIVER_CHAINS" and ?cs = "ss_receiver_chains st"
  have cs: "ss_receiver_chains (session_state_add_receiver_chain k ck st) = drop ?i ?cs @ [?n]"
    by (simp add: session_state_add_receiver_chain_def receiver_chains_add_def append_bounded_def
      dl_trim_head_drop MAX_RECEIVER_CHAINS_def)
  have eq: "List.find (rc_matches k') xs = List.find (\<lambda>c. rc_sender_ratchet_key c = Some k') xs"
    if "\<And>c. c \<in> set xs \<Longrightarrow> pred_option pub_ok (rc_sender_ratchet_key c)" for xs
    using that by (intro find_cong) (auto simp: rc_matches_iff k(1))
  note keys = ss_ok_chain_keys [OF ok(1)]
  have new: "List.find (rc_matches k') (drop ?i ?cs @ [?n]) = List.find (\<lambda>c. rc_sender_ratchet_key c = Some k') (drop ?i ?cs)"
  proof -
    have "\<not> rc_matches k' ?n" using k by (simp add: rc_matches_iff)
    moreover have "List.find P (xs @ [x]) = List.find P xs" if "\<not> P x" for P xs and x :: session_state_receiver_chain
      using that by (induction xs) auto
    ultimately show ?thesis using eq [of "drop ?i ?cs"] keys in_set_dropD by metis
  qed
  show ?thesis
    using find_drop_distinct [of rc_sender_ratchet_key ?cs "Some k'" _ ?i] ok(2) eq [of ?cs] keys
    by (cases "List.find (\<lambda>c. rc_sender_ratchet_key c = Some k') ?cs")
       (auto simp: session_state_find_receiver_chain_def cs new receiver_keys_def find_None_iff dest: in_set_dropD)
qed

section \<open>Receiving\<close>

text \<open>On a known chain the receiver changes that chain and forgets its unacknowledged pre-key, nothing else.\<close>

lemma receive_known:
  assumes hm: "hmac_sha256_of G hm" and inv: "cipher_inverse G" and base: "ck_ok v base" "pub_ok k"
    and del: "delivery_inv G base k R sb" "paired v A B sb" "ss_ok sb" and sent: "sent_as G base k v A B m p"
    and n: "unat (ck_index base) \<le> unat (sm_counter m)"
      "unat (sm_counter m) < unat (ck_index base) + MAX_MESSAGE_KEYS" "unat (sm_counter m) \<notin> R" "sm_counter m \<noteq> - 1"
  shows "\<exists>cs sb1. session_cipher_decrypt_from_state_and_signal_message G sb m r = (Inr (p, sb1), r) \<and>
    sb1 = session_state_clear_unacknowledged_pre_key_message (sb\<lparr>ss_receiver_chains := cs\<rparr>) \<and>
    delivery_inv G base k (insert (unat (sm_counter m)) R) sb1 \<and> only_chain k sb sb1"
proof -
  from key_available [OF hm base(1) del(1) n] obtain ck mk sb0 cs
    where a: "session_state_get_receiver_chain_key sb k = Some ck"
      "session_cipher_get_or_create_message_keys G sb k ck (sm_counter m) = Inr (mk, sb0)"
      "message_at (next_ck G) (ck_keys G) base (unat (sm_counter m) - unat (ck_index base)) = Inr mk"
      "delivery_inv G base k (insert (unat (sm_counter m)) R) sb0" "sb0 = sb\<lparr>ss_receiver_chains := cs\<rparr>" by blast
  have "only_chain k sb (session_state_clear_unacknowledged_pre_key_message sb0)"
    using only_chain_message_keys [OF a(2) del(3) base(2)]
    by (simp add: only_chain_def receiver_keys_def session_state_clear_unacknowledged_pre_key_message_def
        session_state_find_receiver_chain_def)
  with decrypt_sent [OF inv sent del(2) a(1-3)] a(4,5) show ?thesis by (auto simp: delivery_inv_clear)
qed

text \<open>On the sender's newest chain, still unknown, the receiver makes its own new chain as well.\<close>

lemma receive_turn:
  assumes hm: "hmac_sha256_of G hm" and inv: "cipher_inverse G" and dh: "curve25519_dh G"
    and can: "can_send v A B sa" "can_send v B A sb"
    and base: "ck_ok v base" "pub_ok k" "ck_index base = 0" and k: "session_state_get_sender_ratchet_key sa = Some k"
    and new: "session_state_find_receiver_chain sb k = None" "dh_linked G base sa sb"
    and rnd: "curve_generate_key_pair G r = (Inr pb, r')"
    and sent: "sent_as G base k v A B m p" "unat (sm_counter m) < 2000"
  shows "\<exists>sb1 sb' ck1. session_cipher_decrypt_from_state_and_signal_message G sb m r = (Inr (p, sb'), r') \<and>
    session_cipher_get_or_create_chain_key G sb k r = (Inr (base, sb1), r') \<and>
    delivery_inv G base k {unat (sm_counter m)} sb' \<and> only_chain k sb1 sb' \<and>
    session_state_get_sender_ratchet_key sb' = Some (kp_public_key pb) \<and>
    sc_chain_key (ss_sender_chain sb') = Some ck1 \<and> ck_index ck1 = 0 \<and> dh_linked G ck1 sb' sa"
proof -
  have paired: "paired v A B sb" using can(2) by (auto simp: can_send_def paired_def)
  have okb: "ss_ok sb" "sc_chain_key (ss_sender_chain sb) \<noteq> None" using can(2) by (auto simp: can_send_def)
  obtain sb1 where turn: "session_cipher_get_or_create_chain_key G sb k r = (Inr (base, sb1), r')"
    using turn_total [OF hm dh new(2) okb k new(1) rnd] by blast
  have del: "delivery_inv G base k {} sb1" "paired v A B sb1"
    using turn_delivery [OF new(1) base(2) paired turn] by auto
  have ok1: "ss_ok sb1" using get_or_create_chain_key_ok [OF hm dh okb(1) base(2) turn] by simp
  obtain ck1 where ck1: "sc_chain_key (ss_sender_chain sb1) = Some ck1" "dh_linked G ck1 sb1 sa"
    using ratchet_turn [OF dh new(2) k new(1) turn] by blast
  have mk: "sm_sender_ratchet_key m = k" "sm_message_version m = ucast v"
    using sent(1) by (auto simp: sent_as_def dest!: signal_message_create_fields)
  have "session_cipher_decrypt_from_state_and_signal_message G sb m r
      = session_cipher_decrypt_from_state_and_signal_message G sb1 m r'"
    using paired mk version_casts [of v]
    by (intro decrypt_after_turn [OF new(1) base(2) _ turn]) (auto simp: paired_def)
  moreover have "sm_counter m \<noteq> - 1"
  proof
    assume "sm_counter m = - 1"
    with sent(2) show False by (simp add: unsigned_minus_1_eq_mask mask_eq_exp_minus_1)
  qed
  then obtain cs sb' where sb': "session_cipher_decrypt_from_state_and_signal_message G sb1 m r' = (Inr (p, sb'), r')"
    "sb' = session_state_clear_unacknowledged_pre_key_message (sb1\<lparr>ss_receiver_chains := cs\<rparr>)"
    "delivery_inv G base k {unat (sm_counter m)} sb'" "only_chain k sb1 sb'"
    using receive_known [OF hm inv base(1,2) del ok1 sent(1), of r'] base(3) sent(2)
    by (auto simp: MAX_MESSAGE_KEYS_def)
  moreover have "sc_sender_ratchet_key_pair (ss_sender_chain sb1) = Some pb \<and> ck_index ck1 = 0"
    using turn
  proof (cases rule: get_or_create_chain_key_cases)
    case known
    with new(1) show ?thesis by (simp add: session_state_get_receiver_chain_key_def)
  next
    case (turn rk pb0 rk1 pb' rk2 ck2 cks)
    have eq: "pb' = pb" "ck2 = ck1" using turn(5,8) rnd ck1(1) by (auto simp: session_state_set_sender_chain_def)
    have "rk_ok v rk" "kp_ok pb0" using okb(1) turn(2,3) can(2) by (auto simp: ss_ok_def sc_ok_def can_send_def)
    then have "rk_ok v rk1"
      using ratchet_root_key_create_chain_total [OF hm dh _ base(2)] turn(4) by (fastforce simp: kp_ok_def)
    then have "ck_index ck1 = 0"
      using ratchet_root_key_create_chain_total [OF hm dh _ base(2), of v rk1 "kp_private_key pb'"] turn(6)
        key_pair_okD [OF curve_generate_key_pair_ok [OF dh turn(5)]] eq by auto
    then show ?thesis
      using turn(8) eq by (simp add: session_state_set_sender_chain_def)
  qed
  ultimately show ?thesis
    using turn ck1
    by (intro exI [of _ sb1] exI [of _ sb'] exI [of _ ck1])
       (simp add: session_state_get_sender_ratchet_key_def session_state_clear_unacknowledged_pre_key_message_def
         dh_linked_def)
qed

section \<open>One direction\<close>

text \<open>
  The chains a party has sent on, newest first, each with its ratchet key and its start
  (\<open>sends\<close>); the messages in flight, with positions \<open>R\<close> already received (\<open>flight\<close>); and what
  the other party knows: of every chain it still holds it can serve all positions but
  those in \<open>R\<close>, and the newest one, if it does not hold it yet, is linked to its state
  (\<open>knows\<close>).
\<close>

type_synonym chain_list = "(ec_public_key \<times> ratchet_chain_key) list"

definition sends ::
  "signal_context \<Rightarrow> u32 \<Rightarrow> ec_public_key \<Rightarrow> ec_public_key \<Rightarrow> chain_list \<Rightarrow> nat \<Rightarrow> session_state \<Rightarrow> bool" where
  "sends G v A B cs i X \<longleftrightarrow>
     cs \<noteq> [] \<and> distinct (map fst cs) \<and> (\<forall>c \<in> set cs. ck_ok v (snd c) \<and> pub_ok (fst c) \<and> ck_index (snd c) = 0) \<and>
     sender_on G (snd (hd cs)) (fst (hd cs)) v A B i X"

definition position :: "signal_message \<times> bytes \<Rightarrow> ec_public_key \<times> nat" where
  "position x = (sm_sender_ratchet_key (fst x), unat (sm_counter (fst x)))"

definition in_flight ::
  "signal_context \<Rightarrow> u32 \<Rightarrow> ec_public_key \<Rightarrow> ec_public_key \<Rightarrow> chain_list \<Rightarrow> (ec_public_key \<Rightarrow> nat set) \<Rightarrow> nat
     \<Rightarrow> signal_message \<times> bytes \<Rightarrow> bool" where
  "in_flight G v A B cs R i x \<longleftrightarrow>
     (\<exists>b. (fst (position x), b) \<in> set cs \<and> sent_as G b (fst (position x)) v A B (fst x) (snd x)) \<and>
     snd (position x) < 2000 \<and> snd (position x) \<notin> R (fst (position x)) \<and>
     (fst (position x) = fst (hd cs) \<longrightarrow> snd (position x) < i)"

definition flight ::
  "signal_context \<Rightarrow> u32 \<Rightarrow> ec_public_key \<Rightarrow> ec_public_key \<Rightarrow> chain_list \<Rightarrow> (ec_public_key \<Rightarrow> nat set) \<Rightarrow> nat
     \<Rightarrow> (signal_message \<times> bytes) list \<Rightarrow> bool" where
  "flight G v A B cs R i net \<longleftrightarrow>
     distinct (map position net) \<and> list_all (in_flight G v A B cs R i) net \<and> R (fst (hd cs)) \<subseteq> {..<i}"

definition knows ::
  "signal_context \<Rightarrow> chain_list \<Rightarrow> (ec_public_key \<Rightarrow> nat set) \<Rightarrow> session_state \<Rightarrow> session_state \<Rightarrow> bool" where
  "knows G cs R X Y \<longleftrightarrow>
     distinct (receiver_keys Y) \<and> set (receiver_keys Y) \<subseteq> Some ` fst ` set cs \<and>
     (\<forall>c \<in> set cs. session_state_find_receiver_chain Y (fst c) \<noteq> None \<longrightarrow>
        delivery_inv G (snd c) (fst c) (R (fst c)) Y) \<and>
     (session_state_find_receiver_chain Y (fst (hd cs)) = None \<longrightarrow> dh_linked G (snd (hd cs)) X Y)"

definition way ::
  "signal_context \<Rightarrow> u32 \<Rightarrow> ec_public_key \<Rightarrow> ec_public_key \<Rightarrow> ec_public_key list
     \<Rightarrow> (signal_message \<times> bytes) list \<Rightarrow> session_state \<Rightarrow> session_state \<Rightarrow> bool" where
  "way G v A B ks net X Y \<longleftrightarrow>
     (\<exists>cs R i. map fst cs = ks \<and> sends G v A B cs i X \<and> flight G v A B cs R i net \<and> knows G cs R X Y)"

subsection \<open>Frames\<close>

definition sender_part :: "session_state \<Rightarrow> session_state_sender_chain \<times> ratchet_root_key option \<times> u32 \<times>
    ec_public_key option \<times> ec_public_key option" where
  "sender_part st = (ss_sender_chain st, ss_root_key st, ss_session_version st,
     ss_local_identity_public st, ss_remote_identity_public st)"

definition receiver_part :: "session_state \<Rightarrow> session_state_receiver_chain list \<times> ratchet_root_key option \<times> ec_key_pair option" where
  "receiver_part st = (ss_receiver_chains st, ss_root_key st, sc_sender_ratchet_key_pair (ss_sender_chain st))"

lemma way_sender_frame: "sender_part X' = sender_part X \<Longrightarrow> way G v A B ks net X' Y = way G v A B ks net X Y"
  by (simp add: way_def sends_def knows_def sender_on_def dh_linked_def sender_part_def
      session_state_get_sender_ratchet_key_def)

lemma way_receiver_frame: "receiver_part Y' = receiver_part Y \<Longrightarrow> way G v A B ks net X Y' = way G v A B ks net X Y"
  by (simp add: way_def knows_def delivery_inv_def dh_linked_def receiver_part_def receiver_keys_def
      session_state_find_receiver_chain_def)

lemma flight_drop: "flight G v A B cs R i net \<Longrightarrow> flight G v A B cs R i (remove1 x net)"
  by (auto simp: flight_def list_all_iff distinct_map distinct_remove1 dest: notin_set_remove1
      intro: inj_on_diff)

lemma way_drop: "way G v A B ks net X Y \<Longrightarrow> way G v A B ks (remove1 x net) X Y"
  unfolding way_def using flight_drop by blast

subsection \<open>Sending\<close>

lemma way_send:
  assumes way: "way G v A B ks net X Y" and enc: "encrypt_from_state G X p = Inr (em, X')"
    and n: "sm_counter (signal_part em) < 2000"
  shows "way G v A B ks ((signal_part em, p) # net) X' Y"
proof -
  obtain cs R i where w: "map fst cs = ks" "sends G v A B cs i X" "flight G v A B cs R i net" "knows G cs R X Y"
    using way by (auto simp: way_def)
  let ?k = "fst (hd cs)" and ?b = "snd (hd cs)" and ?m = "signal_part em"
  have on: "sender_on G ?b ?k v A B i X" and hd: "hd cs \<in> set cs" "ck_index ?b = 0"
    using w(2) by (auto simp: sends_def)
  have i: "i < 2 ^ 32 - 1"
  proof -
    obtain ck where ck: "sc_chain_key (ss_sender_chain X) = Some ck" "unat (ck_index ck) = i"
      using on by (auto simp: sender_on_def)
    have "sm_counter ?m = ck_index ck"
      by (rule encrypt_from_state_cases [OF enc]) (use ck in \<open>auto dest!: signal_message_create_fields\<close>)
    with n ck(2) show ?thesis by (simp add: word_less_nat_alt)
  qed
  have s: "sent_as G ?b ?k v A B ?m p" "unat (sm_counter ?m) = i" "sender_on G ?b ?k v A B (Suc i) X'"
    using encrypt_sent [OF on i enc] by auto
  have key: "sm_sender_ratchet_key ?m = ?k" using s(1) by (auto simp: sent_as_def dest!: signal_message_create_fields)
  have "sends G v A B cs (Suc i) X'" using w(2) s(3) by (simp add: sends_def)
  moreover have "flight G v A B cs R (Suc i) ((?m, p) # net)"
  proof -
    have "in_flight G v A B cs R (Suc i) (?m, p)"
      using s(1,2) key hd(1) n w(3)
      by (auto simp: in_flight_def position_def flight_def word_less_nat_alt intro!: exI [of _ ?b])
    moreover have "in_flight G v A B cs R (Suc i) x" if "in_flight G v A B cs R i x" for x
      using that by (auto simp: in_flight_def)
    moreover have "position (?m, p) \<notin> set (map position net)"
      using w(3) key s(2) by (auto simp: flight_def in_flight_def list_all_iff position_def)
    ultimately show ?thesis using w(3) by (auto simp: flight_def list_all_iff)
  qed
  moreover have "knows G cs R X' Y"
  proof -
    obtain nx where "X' = X\<lparr>ss_sender_chain := (ss_sender_chain X)\<lparr>sc_chain_key := Some nx\<rparr>\<rparr>"
      by (rule encrypt_from_state_cases [OF enc])
    with w(4) show ?thesis by (auto simp: knows_def dh_linked_def)
  qed
  ultimately show ?thesis using w(1) unfolding way_def by blast
qed

subsection \<open>Receiving\<close>

lemma flight_receive:
  assumes "flight G v A B cs R i net" "x \<in> set net"
  shows "flight G v A B cs (R(fst (position x) := insert (snd (position x)) (R (fst (position x))))) i (remove1 x net)"
proof -
  have d: "distinct (map position net)" "list_all (in_flight G v A B cs R i) net" "R (fst (hd cs)) \<subseteq> {..<i}"
    using assms(1) by (auto simp: flight_def)
  have "in_flight G v A B cs (R(fst (position x) := insert (snd (position x)) (R (fst (position x))))) i y"
    if y: "y \<in> set (remove1 x net)" for y
  proof -
    have "position y \<noteq> position x" using y d(1) assms(2) by (auto simp: distinct_map dest: inj_onD)
    moreover have "in_flight G v A B cs R i y" using y d(2) by (auto simp: list_all_iff dest: notin_set_remove1)
    ultimately show ?thesis by (auto simp: in_flight_def prod_eq_iff)
  qed
  moreover have "fst (position x) = fst (hd cs) \<longrightarrow> snd (position x) < i"
    using d(2) assms(2) by (auto simp: in_flight_def list_all_iff)
  ultimately show ?thesis
    using flight_drop [OF assms(1), of x] d(3) by (auto simp: flight_def list_all_iff)
qed

lemma delivery_inv_find:
  "session_state_find_receiver_chain Y' k = session_state_find_receiver_chain Y k \<Longrightarrow>
     delivery_inv G b k R Y' = delivery_inv G b k R Y"
  by (simp add: delivery_inv_def)

text \<open>A change to the chain of one message keeps what is known of the other chains.\<close>

lemma knows_receive:
  assumes kn: "knows G cs R X Y" and cs: "\<forall>c \<in> set cs. pub_ok (fst c)" "distinct (map fst cs)" "(k, b) \<in> set cs"
    and only: "only_chain k Y Y'" and del: "delivery_inv G b k (insert n (R k)) Y'"
    and link: "session_state_find_receiver_chain Y (fst (hd cs)) = None \<Longrightarrow> fst (hd cs) \<noteq> k \<Longrightarrow>
      dh_linked G (snd (hd cs)) X Y'"
  shows "knows G cs (R(k := insert n (R k))) X Y'"
proof -
  have one: "snd c = b" if "c \<in> set cs" "fst c = k" for c
    using that cs(2,3) by (metis eq_key_imp_eq_value prod.collapse)
  have found: "session_state_find_receiver_chain Y' k \<noteq> None" using del by (auto simp: delivery_inv_def)
  have same: "session_state_find_receiver_chain Y' (fst c) = session_state_find_receiver_chain Y (fst c)"
    if "c \<in> set cs" "fst c \<noteq> k" for c
    using that cs(1) only by (simp add: only_chain_def)
  have "delivery_inv G (snd c) (fst c) ((R(k := insert n (R k))) (fst c)) Y'"
    if "c \<in> set cs" "session_state_find_receiver_chain Y' (fst c) \<noteq> None" for c
    using that kn del one same delivery_inv_find [OF same] by (cases "fst c = k") (auto simp: knows_def)
  moreover have "dh_linked G (snd (hd cs)) X Y'" if "session_state_find_receiver_chain Y' (fst (hd cs)) = None"
  proof -
    have ne: "fst (hd cs) \<noteq> k" using that found by auto
    moreover have "hd cs \<in> set cs" using cs(3) by (cases cs) auto
    ultimately show ?thesis using link same that by simp
  qed
  moreover have "receiver_keys Y' = receiver_keys Y" using only by (simp add: only_chain_def)
  ultimately show ?thesis using kn by (simp add: knows_def)
qed

lemma way_deliver:
  assumes hm: "hmac_sha256_of G hm" and inv: "cipher_inverse G" and can: "can_send v B A Y"
    and way: "way G v A B ks net X Y" and x: "(m, p) \<in> set net"
    and known: "session_state_find_receiver_chain Y (sm_sender_ratchet_key m) \<noteq> None"
  shows "\<exists>Y'. session_cipher_decrypt_from_state_and_signal_message G Y m r = (Inr (p, Y'), r) \<and>
    way G v A B ks (remove1 (m, p) net) X Y' \<and> sender_part Y' = sender_part Y"
proof -
  obtain cs R i where w: "map fst cs = ks" "sends G v A B cs i X" "flight G v A B cs R i net" "knows G cs R X Y"
    using way by (auto simp: way_def)
  let ?k = "sm_sender_ratchet_key m" and ?n = "unat (sm_counter m)"
  have "in_flight G v A B cs R i (m, p)" using w(3) x by (auto simp: flight_def list_all_iff)
  then obtain b where b: "(?k, b) \<in> set cs" "sent_as G b ?k v A B m p" "?n < 2000" "?n \<notin> R ?k"
    by (auto simp: in_flight_def position_def)
  have cs: "\<forall>c \<in> set cs. pub_ok (fst c)" "distinct (map fst cs)" "ck_ok v b" "pub_ok ?k" "ck_index b = 0"
    using w(2) b(1) by (auto simp: sends_def)
  have del: "delivery_inv G b ?k (R ?k) Y" using w(4) b(1) known by (auto simp: knows_def)
  have p: "paired v A B Y" "ss_ok Y" using can by (auto simp: can_send_def paired_def)
  have "sm_counter m \<noteq> - 1"
  proof
    assume "sm_counter m = - 1"
    with b(3) show False by (simp add: unsigned_minus_1_eq_mask mask_eq_exp_minus_1)
  qed
  then obtain chs Y' where run: "session_cipher_decrypt_from_state_and_signal_message G Y m r = (Inr (p, Y'), r)"
    and Y': "Y' = session_state_clear_unacknowledged_pre_key_message (Y\<lparr>ss_receiver_chains := chs\<rparr>)"
      "delivery_inv G b ?k (insert ?n (R ?k)) Y'" "only_chain ?k Y Y'"
    using receive_known [OF hm inv cs(3,4) del p b(2), where r = r] b(3,4) cs(5) by (auto simp: MAX_MESSAGE_KEYS_def)
  have "knows G cs (R(?k := insert ?n (R ?k))) X Y'"
    using w(4) Y' by (intro knows_receive [OF w(4) cs(1,2) b(1) Y'(3,2)])
      (auto simp: knows_def dh_linked_def session_state_clear_unacknowledged_pre_key_message_def)
  moreover have "flight G v A B cs (R(?k := insert ?n (R ?k))) i (remove1 (m, p) net)"
    using flight_receive [OF w(3) x] by (simp add: position_def)
  ultimately have "way G v A B ks (remove1 (m, p) net) X Y'" using w(1,2) unfolding way_def by blast
  moreover have "sender_part Y' = sender_part Y"
    by (simp add: Y'(1) sender_part_def session_state_clear_unacknowledged_pre_key_message_def)
  ultimately show ?thesis using run by blast
qed

subsection \<open>The turn of the ratchet\<close>

lemma knows_turn:
  assumes kn: "knows G cs R X Y" and cs: "\<forall>c \<in> set cs. pub_ok (fst c)" "distinct (map fst cs)" "cs \<noteq> []"
    and ok: "ss_ok Y" and new: "session_state_find_receiver_chain Y (fst (hd cs)) = None"
    and turn: "session_cipher_get_or_create_chain_key G Y (fst (hd cs)) r = (Inr (snd (hd cs), Y1), r')"
  shows "knows G cs R X Y1"
proof -
  let ?k = "fst (hd cs)"
  have hd: "hd cs \<in> set cs" "pub_ok ?k" using cs by auto
  from turn obtain ck1 pb rk n where Y1: "Y1 = session_state_set_sender_chain pb ck1
      (session_state_set_previous_counter n
        (session_state_add_receiver_chain ?k (snd (hd cs)) (session_state_set_root_key rk Y)))"
    by (cases rule: get_or_create_chain_key_cases) (use new in \<open>auto simp: session_state_get_receiver_chain_key_def\<close>)
  let ?Y0 = "session_state_add_receiver_chain ?k (snd (hd cs)) Y"
  have eq: "ss_receiver_chains Y1 = ss_receiver_chains ?Y0"
    by (simp add: Y1 session_state_set_sender_chain_def session_state_set_previous_counter_def
        session_state_add_receiver_chain_def session_state_set_root_key_def)
  have d: "distinct (receiver_keys Y)" "set (receiver_keys Y) \<subseteq> Some ` fst ` set cs" using kn by (auto simp: knows_def)
  have fresh: "Some ?k \<notin> set (receiver_keys Y)" using new find_None_keys [OF ok hd(2)] by simp
  have keys: "receiver_keys Y1 = drop (Suc (length (ss_receiver_chains Y)) - MAX_RECEIVER_CHAINS) (receiver_keys Y) @ [Some ?k]"
    using receiver_keys_add [of ?k "snd (hd cs)" Y] eq by (simp add: receiver_keys_def)
  have "distinct (receiver_keys Y1)" "set (receiver_keys Y1) \<subseteq> Some ` fst ` set cs"
    using d fresh hd(1) unfolding keys by (auto dest: in_set_dropD)
  moreover have find: "session_state_find_receiver_chain Y1 k = session_state_find_receiver_chain ?Y0 k" for k
    by (simp add: session_state_find_receiver_chain_def eq)
  have "delivery_inv G (snd c) (fst c) (R (fst c)) Y1"
    if c: "c \<in> set cs" "session_state_find_receiver_chain Y1 (fst c) \<noteq> None" for c
  proof (cases "fst c = ?k")
    case True
    then have "snd c = snd (hd cs)" using c(1) hd(1) cs(2) by (metis eq_key_imp_eq_value prod.collapse)
    moreover have "chain_inv ck_index (next_ck G) (ck_keys G) mk_counter b b []" for b by (simp add: chain_inv_def)
    ultimately show ?thesis
      using True find find_add_receiver_chain [OF new hd(2)] by (auto simp: delivery_inv_def)
  next
    case False
    then have "session_state_find_receiver_chain Y1 (fst c) = session_state_find_receiver_chain Y (fst c)"
      using find_add_other [OF ok d(1), of "fst c" ?k "snd (hd cs)"] cs(1) hd(2) c find [of "fst c"] by auto
    with c kn delivery_inv_find [OF this] show ?thesis by (auto simp: knows_def)
  qed
  moreover have "session_state_find_receiver_chain Y1 ?k \<noteq> None" using find find_add_receiver_chain [OF new hd(2)] by simp
  ultimately show ?thesis by (auto simp: knows_def)
qed

lemma way_turn:
  assumes hm: "hmac_sha256_of G hm" and inv: "cipher_inverse G" and dh: "curve25519_dh G"
    and can: "can_send v A B X" "can_send v B A Y"
    and way: "way G v A B ks net X Y" "way G v B A ks' net' Y X" and x: "(m, p) \<in> set net"
    and key: "session_state_get_sender_ratchet_key X = Some (sm_sender_ratchet_key m)"
    and new: "session_state_find_receiver_chain Y (sm_sender_ratchet_key m) = None"
    and rnd: "curve_generate_key_pair G r = (Inr pb, r')"
  shows "\<exists>Y'. session_cipher_decrypt_from_state_and_signal_message G Y m r = (Inr (p, Y'), r') \<and>
    session_state_get_sender_ratchet_key Y' = Some (kp_public_key pb) \<and>
    (\<exists>ck. sc_chain_key (ss_sender_chain Y') = Some ck \<and> ck_index ck = 0) \<and>
    way G v A B ks (remove1 (m, p) net) X Y' \<and>
    (can_send v B A Y' \<longrightarrow> kp_public_key pb \<notin> set ks' \<longrightarrow> way G v B A (kp_public_key pb # ks') net' Y' X)"
proof -
  obtain cs R i where w: "map fst cs = ks" "sends G v A B cs i X" "flight G v A B cs R i net" "knows G cs R X Y"
    using way(1) by (auto simp: way_def)
  let ?k = "sm_sender_ratchet_key m" and ?n = "unat (sm_counter m)" and ?b = "snd (hd cs)"
  have hd: "fst (hd cs) = ?k" "(?k, ?b) \<in> set cs" "cs \<noteq> []"
    using w(2) key by (auto simp: sends_def sender_on_def dest: hd_in_set)
  have cs: "\<forall>c \<in> set cs. pub_ok (fst c)" "distinct (map fst cs)" "ck_ok v ?b" "pub_ok ?k" "ck_index ?b = 0"
    using w(2) hd by (auto simp: sends_def)
  have "in_flight G v A B cs R i (m, p)" using w(3) x by (auto simp: flight_def list_all_iff)
  then obtain b where "(?k, b) \<in> set cs" "sent_as G b ?k v A B m p" "?n < 2000"
    by (auto simp: in_flight_def position_def)
  with hd(2) cs(2) have sent: "sent_as G ?b ?k v A B m p" "?n < 2000" by (metis eq_key_imp_eq_value)+
  have link: "dh_linked G ?b X Y" using w(4) hd(1) new by (simp add: knows_def)
  obtain Y1 Y' ck1 where run: "session_cipher_decrypt_from_state_and_signal_message G Y m r = (Inr (p, Y'), r')"
    and turn: "session_cipher_get_or_create_chain_key G Y ?k r = (Inr (?b, Y1), r')"
    and Y': "delivery_inv G ?b ?k {?n} Y'" "only_chain ?k Y1 Y'"
      "session_state_get_sender_ratchet_key Y' = Some (kp_public_key pb)"
      "sc_chain_key (ss_sender_chain Y') = Some ck1" "ck_index ck1 = 0" "dh_linked G ck1 Y' X"
    using receive_turn [OF hm inv dh can cs(3-5) key new link rnd sent] by blast
  have "ss_ok Y" using can(2) by (simp add: can_send_def)
  then have kn1: "knows G cs R X Y1"
    using turn new hd(1) by (intro knows_turn [OF w(4) cs(1,2) hd(3)]) auto
  have "session_state_find_receiver_chain Y1 ?k \<noteq> None" using find_after_turn [OF new cs(4) turn] by simp
  then have "knows G cs (R(?k := insert ?n (R ?k))) X Y'"
    using Y'(1) by (intro knows_receive [OF kn1 cs(1,2) hd(2) Y'(2)])
      (auto simp: hd(1) delivery_inv_def)
  moreover have "flight G v A B cs (R(?k := insert ?n (R ?k))) i (remove1 (m, p) net)"
    using flight_receive [OF w(3) x] by (simp add: position_def)
  ultimately have "way G v A B ks (remove1 (m, p) net) X Y'" using w(1,2) unfolding way_def by blast
  moreover have "way G v B A (kp_public_key pb # ks') net' Y' X"
    if can': "can_send v B A Y'" and fresh: "kp_public_key pb \<notin> set ks'"
  proof -
    obtain cs' R' j where w': "map fst cs' = ks'" "sends G v B A cs' j Y" "flight G v B A cs' R' j net'" "knows G cs' R' Y X"
      using way(2) by (auto simp: way_def)
    let ?k' = "kp_public_key pb" and ?R = "R'(kp_public_key pb := {})"
    have keys: "?k' \<notin> fst ` set cs'" using fresh w'(1) by (metis list.set_map)
    note on = sender_on_start [OF can' Y'(3,4)]
    have "sends G v B A ((?k', ck1) # cs') 0 Y'"
      using on w'(2) keys Y'(5) by (simp add: sends_def)
    moreover have "in_flight G v B A ((?k', ck1) # cs') ?R 0 y" if "in_flight G v B A cs' R' j y" for y
    proof -
      have "fst (position y) \<noteq> ?k'" using that keys by (force simp: in_flight_def)
      with that show ?thesis by (auto simp: in_flight_def)
    qed
    then have "flight G v B A ((?k', ck1) # cs') ?R 0 net'" using w'(3) by (auto simp: flight_def list_all_iff)
    moreover have "knows G ((?k', ck1) # cs') ?R Y' X"
    proof -
      have "ss_ok X" using can(1) by (simp add: can_send_def)
      moreover have "Some ?k' \<notin> set (receiver_keys X)" using w'(4) keys by (auto simp: knows_def)
      ultimately have "session_state_find_receiver_chain X ?k' = None" using find_None_keys on(3) by blast
      with w'(4) keys Y'(6) show ?thesis by (auto simp: knows_def)
    qed
    ultimately show ?thesis using w'(1) unfolding way_def
      by (intro exI [of _ "(?k', ck1) # cs'"] exI [of _ ?R] exI [of _ 0]) simp
  qed
  ultimately show ?thesis using run Y'(3-5) by blast
qed

section \<open>Conversations\<close>

text \<open>
  The two parties are \<open>True\<close> and \<open>False\<close>; \<open>cv_net c p\<close> are the messages of \<open>p\<close> in flight, each
  with the plaintext it was made from, and \<open>cv_keys c p\<close> the ratchet keys \<open>p\<close> has sent with.
  A party may send at any time, up to 2000 messages on a chain.  The network may hand over
  any message in flight: one of a chain the receiver holds (\<open>deliver\<close>), or the first to
  arrive of the sender's newest chain (\<open>turn\<close>), where the ratchet key drawn by the receiver
  is one it has not used before; a message may be refused by the code (\<open>refuse\<close>), which
  then keeps its state, or be lost (\<open>lose\<close>).
\<close>

record conversation =
  cv_state :: "bool \<Rightarrow> session_state"
  cv_rng :: "bool \<Rightarrow> rng"
  cv_net :: "bool \<Rightarrow> (signal_message \<times> bytes) list"
  cv_keys :: "bool \<Rightarrow> ec_public_key list"

definition cv_take :: "conversation \<Rightarrow> bool \<Rightarrow> signal_message \<times> bytes \<Rightarrow> conversation" where
  "cv_take c p x = c\<lparr>cv_net := (cv_net c)(p := remove1 x (cv_net c p))\<rparr>"

inductive conv_step :: "signal_context \<Rightarrow> conversation \<Rightarrow> conversation \<Rightarrow> bool" for G where
  send: "\<lbrakk>encrypt_from_state G (cv_state c p) pt = Inr (em, st); sm_counter (signal_part em) < 2000\<rbrakk> \<Longrightarrow>
    conv_step G c (c\<lparr>cv_state := (cv_state c)(p := st),
      cv_net := (cv_net c)(p := (signal_part em, pt) # cv_net c p)\<rparr>)"
| deliver: "\<lbrakk>(m, pt) \<in> set (cv_net c p);
    session_state_find_receiver_chain (cv_state c (\<not> p)) (sm_sender_ratchet_key m) \<noteq> None;
    session_cipher_decrypt_from_state_and_signal_message G (cv_state c (\<not> p)) m (cv_rng c (\<not> p)) = (Inr (q, st), r)\<rbrakk> \<Longrightarrow>
    conv_step G c ((cv_take c p (m, pt))\<lparr>cv_state := (cv_state c)(\<not> p := st), cv_rng := (cv_rng c)(\<not> p := r)\<rparr>)"
| turn: "\<lbrakk>(m, pt) \<in> set (cv_net c p);
    session_state_find_receiver_chain (cv_state c (\<not> p)) (sm_sender_ratchet_key m) = None;
    session_state_get_sender_ratchet_key (cv_state c p) = Some (sm_sender_ratchet_key m);
    session_cipher_decrypt_from_state_and_signal_message G (cv_state c (\<not> p)) m (cv_rng c (\<not> p)) = (Inr (q, st), r);
    session_state_get_sender_ratchet_key st = Some k; k \<notin> set (cv_keys c (\<not> p))\<rbrakk> \<Longrightarrow>
    conv_step G c ((cv_take c p (m, pt))\<lparr>cv_state := (cv_state c)(\<not> p := st), cv_rng := (cv_rng c)(\<not> p := r),
      cv_keys := (cv_keys c)(\<not> p := k # cv_keys c (\<not> p))\<rparr>)"
| refuse: "\<lbrakk>(m, pt) \<in> set (cv_net c p);
    session_cipher_decrypt_from_state_and_signal_message G (cv_state c (\<not> p)) m (cv_rng c (\<not> p)) = (Inl e, r)\<rbrakk> \<Longrightarrow>
    conv_step G c ((cv_take c p (m, pt))\<lparr>cv_rng := (cv_rng c)(\<not> p := r)\<rparr>)"
| lose: "conv_step G c (cv_take c p x)"

definition conv_inv :: "signal_context \<Rightarrow> u32 \<Rightarrow> (bool \<Rightarrow> ec_public_key) \<Rightarrow> conversation \<Rightarrow> bool" where
  "conv_inv G v I c \<longleftrightarrow>
     (\<forall>p. can_send v (I p) (I (\<not> p)) (cv_state c p) \<and>
        way G v (I p) (I (\<not> p)) (cv_keys c p) (cv_net c p) (cv_state c p) (cv_state c (\<not> p)))"

lemma conv_inv_both:
  "conv_inv G v I c \<longleftrightarrow>
     can_send v (I p) (I (\<not> p)) (cv_state c p) \<and> can_send v (I (\<not> p)) (I p) (cv_state c (\<not> p)) \<and>
     way G v (I p) (I (\<not> p)) (cv_keys c p) (cv_net c p) (cv_state c p) (cv_state c (\<not> p)) \<and>
     way G v (I (\<not> p)) (I p) (cv_keys c (\<not> p)) (cv_net c (\<not> p)) (cv_state c (\<not> p)) (cv_state c p)"
  by (cases p) (auto simp: conv_inv_def all_bool_eq)

text \<open>What decryption keeps of a party's readiness to send.\<close>

lemma decrypt_can_send:
  assumes hm: "hmac_sha256_of G hm" and dh: "curve25519_dh G" and can: "can_send v A B st"
    and k: "pub_ok (sm_sender_ratchet_key m)"
    and run: "session_cipher_decrypt_from_state_and_signal_message G st m r = (Inr (p, st'), r')"
  shows "can_send v A B st'"
proof -
  have "ss_ok st'" using decrypt_from_state_ok [OF hm dh _ k run] can by (simp add: can_send_def)
  moreover obtain ck st1 mk st2 where
    c: "session_cipher_get_or_create_chain_key G st (sm_sender_ratchet_key m) r = (Inr (ck, st1), r')"
    and g: "session_cipher_get_or_create_message_keys G st1 (sm_sender_ratchet_key m) ck (sm_counter m) = Inr (mk, st2)"
    and st': "st' = session_state_clear_unacknowledged_pre_key_message st2"
    by (rule decrypt_from_state_cases [OF run])
  moreover have "\<exists>cs. st2 = st1\<lparr>ss_receiver_chains := cs\<rparr>"
    using g by (cases rule: get_or_create_message_keys_cases)
      (auto simp: session_state_remove_message_keys_def session_state_set_receiver_chain_key_def update_receiver_chain_def
        split: option.splits dest!: skip_message_keys_frame)
  moreover have "sc_chain_key (ss_sender_chain st1) \<noteq> None \<and> sc_sender_ratchet_key_pair (ss_sender_chain st1) \<noteq> None"
    using c can unfolding can_send_def by (cases rule: get_or_create_chain_key_cases) (auto simp: session_state_set_sender_chain_def)
  ultimately show ?thesis
    using can turn_frame [OF c]
    by (auto simp: can_send_def session_state_clear_unacknowledged_pre_key_message_def)
qed

lemma way_key_ok:
  assumes "way G v A B ks net X Y" "(m, p) \<in> set net"
  shows "pub_ok (sm_sender_ratchet_key m)"
  using assms by (force simp: way_def sends_def flight_def in_flight_def list_all_iff position_def)

lemma conv_inv_sent:
  assumes c: "conv_inv G v I c" and enc: "encrypt_from_state G (cv_state c p) pt = Inr (em, st)"
    and hm: "hmac_sha256_of G hm" and n: "sm_counter (signal_part em) < 2000"
  shows "conv_inv G v I (c\<lparr>cv_state := (cv_state c)(p := st),
      cv_net := (cv_net c)(p := (signal_part em, pt) # cv_net c p)\<rparr>)"
proof -
  note both = c [unfolded conv_inv_both [of G v I c p]]
  obtain nx where st: "st = (cv_state c p)\<lparr>ss_sender_chain := (ss_sender_chain (cv_state c p))\<lparr>sc_chain_key := Some nx\<rparr>\<rparr>"
    by (rule encrypt_from_state_cases [OF enc])
  have "ss_ok st" using encrypt_from_state_ok [OF hm _ enc] both by (simp add: can_send_def)
  with both have "can_send v (I p) (I (\<not> p)) st" by (simp add: can_send_def st)
  moreover have "way G v (I (\<not> p)) (I p) (cv_keys c (\<not> p)) (cv_net c (\<not> p)) (cv_state c (\<not> p)) st"
    using both way_receiver_frame [of st "cv_state c p"] by (simp add: receiver_part_def st)
  moreover have "way G v (I p) (I (\<not> p)) (cv_keys c p) ((signal_part em, pt) # cv_net c p) st (cv_state c (\<not> p))"
    using both way_send [OF _ enc n] by blast
  ultimately show ?thesis using both by (simp add: conv_inv_both [of _ _ _ _ p])
qed

lemma conv_inv_received:
  assumes "conv_inv G v I c" "can_send v (I (\<not> p)) (I p) st"
    and "way G v (I p) (I (\<not> p)) (cv_keys c p) (remove1 x (cv_net c p)) (cv_state c p) st"
    and "way G v (I (\<not> p)) (I p) ks (cv_net c (\<not> p)) st (cv_state c p)"
  shows "conv_inv G v I ((cv_take c p x)\<lparr>cv_state := (cv_state c)(\<not> p := st), cv_rng := f,
      cv_keys := (cv_keys c)(\<not> p := ks)\<rparr>)"
  using assms by (simp add: conv_inv_both [of _ _ _ _ p] cv_take_def)

lemma conv_inv_lost: "conv_inv G v I c \<Longrightarrow> conv_inv G v I (cv_take c p x)"
  by (simp add: conv_inv_both [of _ _ _ _ p] cv_take_def way_drop)

text \<open>In every state that satisfies the invariant the messages in flight can be read.\<close>

lemma conv_deliver:
  assumes hm: "hmac_sha256_of G hm" and inv: "cipher_inverse G" and c: "conv_inv G v I c"
    and x: "(m, pt) \<in> set (cv_net c p)"
    and known: "session_state_find_receiver_chain (cv_state c (\<not> p)) (sm_sender_ratchet_key m) \<noteq> None"
  shows "\<exists>st. session_cipher_decrypt_from_state_and_signal_message G (cv_state c (\<not> p)) m r = (Inr (pt, st), r) \<and>
    way G v (I p) (I (\<not> p)) (cv_keys c p) (remove1 (m, pt) (cv_net c p)) (cv_state c p) st \<and>
    way G v (I (\<not> p)) (I p) (cv_keys c (\<not> p)) (cv_net c (\<not> p)) st (cv_state c p)"
  using c way_deliver [OF hm inv _ _ x known] way_sender_frame unfolding conv_inv_both [of G v I c p] by metis

lemma conv_turn:
  assumes hm: "hmac_sha256_of G hm" and inv: "cipher_inverse G" and dh: "curve25519_dh G" and c: "conv_inv G v I c"
    and x: "(m, pt) \<in> set (cv_net c p)"
    and key: "session_state_get_sender_ratchet_key (cv_state c p) = Some (sm_sender_ratchet_key m)"
    and new: "session_state_find_receiver_chain (cv_state c (\<not> p)) (sm_sender_ratchet_key m) = None"
    and rnd: "curve_generate_key_pair G r = (Inr pb, r')"
  shows "\<exists>st. session_cipher_decrypt_from_state_and_signal_message G (cv_state c (\<not> p)) m r = (Inr (pt, st), r') \<and>
    session_state_get_sender_ratchet_key st = Some (kp_public_key pb) \<and>
    (\<exists>ck. sc_chain_key (ss_sender_chain st) = Some ck \<and> ck_index ck = 0) \<and>
    way G v (I p) (I (\<not> p)) (cv_keys c p) (remove1 (m, pt) (cv_net c p)) (cv_state c p) st \<and>
    (can_send v (I (\<not> p)) (I p) st \<longrightarrow> kp_public_key pb \<notin> set (cv_keys c (\<not> p)) \<longrightarrow>
      way G v (I (\<not> p)) (I p) (kp_public_key pb # cv_keys c (\<not> p)) (cv_net c (\<not> p)) st (cv_state c p))"
  using c way_turn [OF hm inv dh _ _ _ _ x key new rnd] unfolding conv_inv_both [of G v I c p] by blast

lemma decrypt_turn_draws:
  assumes "session_cipher_decrypt_from_state_and_signal_message G st m r = (Inr (p, st'), r')"
    and "session_state_find_receiver_chain st (sm_sender_ratchet_key m) = None"
  shows "\<exists>pb. curve_generate_key_pair G r = (Inr pb, r')"
proof -
  obtain ck st1 where
    "session_cipher_get_or_create_chain_key G st (sm_sender_ratchet_key m) r = (Inr (ck, st1), r')"
    by (rule decrypt_from_state_cases [OF assms(1)])
  then show ?thesis
    by (cases rule: get_or_create_chain_key_cases) (use assms(2) in \<open>auto simp: session_state_get_receiver_chain_key_def\<close>)
qed

lemma conv_inv_step:
  assumes hm: "hmac_sha256_of G hm" and inv: "cipher_inverse G" and dh: "curve25519_dh G"
  shows "\<lbrakk>conv_step G c c'; conv_inv G v I c\<rbrakk> \<Longrightarrow> conv_inv G v I c'"
proof (induction rule: conv_step.induct)
  case (send c p pt em st)
  then show ?case by (intro conv_inv_sent [OF _ _ hm]) auto
next
  case (deliver m pt c p q st r)
  note x = conv_deliver [OF hm inv deliver(4,1,2), of "cv_rng c (\<not> p)"]
  have can: "can_send v (I (\<not> p)) (I p) (cv_state c (\<not> p))"
    and way: "way G v (I p) (I (\<not> p)) (cv_keys c p) (cv_net c p) (cv_state c p) (cv_state c (\<not> p))"
    using deliver(4) unfolding conv_inv_both [of G v I c p] by auto
  have "can_send v (I (\<not> p)) (I p) st"
    by (rule decrypt_can_send [OF hm dh can way_key_ok [OF way deliver(1)] deliver(3)])
  with x deliver(3,4) conv_inv_received [of G v I c p st "(m, pt)" "cv_keys c (\<not> p)" "(cv_rng c)(\<not> p := r)"]
  show ?case by (simp add: conv_inv_def cv_take_def)
next
  case (turn m pt c p q st r k)
  obtain pb where pb: "curve_generate_key_pair G (cv_rng c (\<not> p)) = (Inr pb, r)"
    using decrypt_turn_draws [OF turn(4,2)] by blast
  note x = conv_turn [OF hm inv dh turn(7,1,3,2) pb]
  have can: "can_send v (I (\<not> p)) (I p) (cv_state c (\<not> p))"
    and way: "way G v (I p) (I (\<not> p)) (cv_keys c p) (cv_net c p) (cv_state c p) (cv_state c (\<not> p))"
    using turn(7) unfolding conv_inv_both [of G v I c p] by auto
  have "can_send v (I (\<not> p)) (I p) st"
    by (rule decrypt_can_send [OF hm dh can way_key_ok [OF way turn(1)] turn(4)])
  with x turn(4-7) conv_inv_received [of G v I c p st "(m, pt)" "k # cv_keys c (\<not> p)" "(cv_rng c)(\<not> p := r)"]
  show ?case by auto
next
  case (refuse m pt c p e r)
  then show ?case using conv_inv_lost [of G v I c p "(m, pt)"] by (simp add: conv_inv_def)
next
  case (lose c p x)
  then show ?case by (rule conv_inv_lost)
qed

lemma conv_inv_reachable:
  assumes "hmac_sha256_of G hm" "cipher_inverse G" "curve25519_dh G" "(conv_step G)\<^sup>*\<^sup>* c c'" "conv_inv G v I c"
  shows "conv_inv G v I c'"
  using assms(4,5) by (induction rule: rtranclp_induct) (auto intro: conv_inv_step [OF assms(1-3)])

section \<open>The start of a conversation\<close>

definition conv_start :: "session_state \<Rightarrow> session_state \<Rightarrow> rng \<Rightarrow> rng \<Rightarrow> ec_public_key \<Rightarrow> ec_public_key \<Rightarrow> conversation" where
  "conv_start sa sb ra rb ka kb =
     \<lparr>cv_state = (\<lambda>p. if p then sa else sb), cv_rng = (\<lambda>p. if p then ra else rb), cv_net = (\<lambda>_. []),
      cv_keys = (\<lambda>p. if p then [ka] else [kb])\<rparr>"

lemma way_start:
  assumes "sender_on G base k v A B (unat (ck_index base)) X" "ck_ok v base" "pub_ok k" "ck_index base = 0"
    and "distinct (receiver_keys Y)" "set (receiver_keys Y) \<subseteq> {Some k}"
    and "session_state_find_receiver_chain Y k \<noteq> None \<Longrightarrow> delivery_inv G base k {} Y"
    and "session_state_find_receiver_chain Y k = None \<Longrightarrow> dh_linked G base X Y"
  shows "way G v A B [k] [] X Y"
  unfolding way_def using assms
  by (intro exI [of _ "[(k, base)]"] exI [of _ "\<lambda>_. {}"] exI [of _ 0]) (auto simp: sends_def flight_def knows_def)

lemma bob_chain_start:
  assumes hm: "hmac_sha256_of G hm" and bob: "ratcheting_session_bob_initialize G st b = Inr sb"
    and ck: "sc_chain_key (ss_sender_chain sb) = Some ck"
  shows "ck_index ck = 0"
proof -
  obtain secret dr dc where "ratcheting_session_calculate_derived_keys G secret = Inr (dr, dc)"
    "sc_chain_key (ss_sender_chain sb) = Some dc"
    using bob by (auto simp: ratcheting_session_bob_initialize_def result_simps session_state_set_root_key_def
        session_state_set_sender_chain_def)
  then show ?thesis using ratcheting_session_calculate_derived_keys_total [OF hm, of secret] ck by auto
qed

lemma initialized_conversation:
  assumes dh: "curve25519_dh G" and hm: "hmac_sha256_of G hm" and m: "matched_parameters G a b"
    and alice: "ratcheting_session_alice_initialize G session_state_create a r = (Inr sa, r')"
    and bob: "ratcheting_session_bob_initialize G session_state_create b = Inr sb"
  shows "\<exists>ka kb. session_state_get_sender_ratchet_key sa = Some ka \<and> session_state_get_sender_ratchet_key sb = Some kb \<and>
    conv_inv G 3 (\<lambda>p. if p then ik_public_key (ap_our_identity_key a) else ik_public_key (bp_our_identity_key b))
      (conv_start sa sb ra rb ka kb)"
proof -
  let ?A = "ik_public_key (ap_our_identity_key a)" and ?B = "ik_public_key (bp_our_identity_key b)"
  let ?kb = "kp_public_key (bp_our_ratchet_key b)"
  note ra = alice_initialize_ready [OF dh hm m alice] and rb = bob_initialize_ready [OF dh hm m bob]
  obtain ka where ka: "session_state_get_sender_ratchet_key sa = Some ka" using ra(2) by blast
  obtain ck0 where ck0: "sc_chain_key (ss_sender_chain sa) = Some ck0" "dh_linked G ck0 sa sb"
    using initialized_linked [OF dh m _ alice bob] by (auto simp: session_state_create_def)
  note on = sender_on_start [OF ra(1) ka ck0(1)]
  obtain ck where ck: "sc_chain_key (ss_sender_chain sb) = Some ck" "session_state_get_receiver_chain_key sa ?kb = Some ck"
      "session_state_get_sender_ratchet_key sb = Some ?kb"
    using x3dh_agreement [OF dh m _ alice bob]
    by (auto simp: session_state_create_def session_state_find_receiver_chain_def session_state_get_sender_ratchet_key_def)
  note onb = sender_on_start [OF rb(1) ck(3,1)]
  have cki: "ck_index ck = 0" by (rule bob_chain_start [OF hm bob ck(1)])
  have chains: "ss_receiver_chains sa = [\<lparr>rc_sender_ratchet_key = Some ?kb, rc_chain_key = Some ck, rc_message_keys = []\<rparr>]"
  proof -
    obtain kp secret dr dc sr sc where sa: "sa = session_state_set_root_key sr
      (session_state_set_sender_chain kp sc
        (session_state_add_receiver_chain (ap_their_ratchet_key a) dc
          (session_state_set_local_identity_key (ik_public_key (ap_our_identity_key a))
            (session_state_set_remote_identity_key (ap_their_identity_key a)
              (session_state_set_session_version 3 session_state_create)))))"
      by (rule alice_initialize_cases [OF alice])
    have "ap_their_ratchet_key a = ?kb" using m by (simp add: matched_parameters_def)
    then have chs: "ss_receiver_chains sa = [\<lparr>rc_sender_ratchet_key = Some ?kb, rc_chain_key = Some dc, rc_message_keys = []\<rparr>]"
      by (simp add: sa session_state_set_root_key_def session_state_set_sender_chain_def session_state_create_def
        session_state_add_receiver_chain_def session_state_set_local_identity_key_def MAX_RECEIVER_CHAINS_def
        session_state_set_remote_identity_key_def session_state_set_session_version_def receiver_chains_add_def append_bounded_room)
    with ck(2) show ?thesis
      by (auto simp: session_state_get_receiver_chain_key_def session_state_find_receiver_chain_def split: if_splits)
  qed
  have "chain_inv ck_index (next_ck G) (ck_keys G) mk_counter ck ck []" by (simp add: chain_inv_def)
  then have "delivery_inv G ck ?kb {} sa"
    using chains onb(3) by (simp add: delivery_inv_def session_state_find_receiver_chain_def rc_matches_iff)
  then have "way G 3 ?B ?A [?kb] [] sb sa"
    using onb cki chains by (intro way_start) (auto simp: receiver_keys_def delivery_inv_def)
  moreover have "way G 3 ?A ?B [ka] [] sa sb"
  proof -
    have "ss_receiver_chains sb = []"
      using bob by (auto simp: ratcheting_session_bob_initialize_def result_simps session_state_set_root_key_def
          session_state_set_sender_chain_def session_state_set_local_identity_key_def
          session_state_set_remote_identity_key_def session_state_set_session_version_def session_state_create_def)
    with on alice_chain_start [OF dh hm m alice ck0(1)] ck0(2) rb(2) show ?thesis
      by (intro way_start) (auto simp: receiver_keys_def)
  qed
  ultimately have "conv_inv G 3 (\<lambda>p. if p then ?A else ?B) (conv_start sa sb ra rb ka ?kb)"
    using ra(1) rb(1) by (simp add: conv_inv_both [of _ _ _ _ True] conv_start_def)
  with ka ck(3) show ?thesis by blast
qed

end
