(* ===== verification/Session_Builder_Laws.thy ===== *)
theory Session_Builder_Laws
  imports Session_Builder Double_Ratchet Group_Message
begin

text \<open>
  Sessions from pre-keys, end to end: the keys behind a published bundle, the two handlers
  that build the session, and the first message through them.
\<close>

section \<open>Records in the store\<close>

definition holds_session :: "store_view \<Rightarrow> signal_protocol_address \<Rightarrow> session_record \<Rightarrow> bool" where
  "holds_session v a rec \<longleftrightarrow> sr_ok rec \<and>
     (case sv_sessions v a of None \<Rightarrow> rec = session_record_create None
      | Some d \<Rightarrow> session_record_deserialize d = Inr rec)"

lemma load_session_holds:
  assumes "store_context_of C view" "holds_session (view s) a rec"
  shows "signal_protocol_session_load_session (session_store C) a s = (Inr rec, s)"
  using assms(2) load_session_of [OF store_context_session [OF assms(1)], of a s]
  by (auto simp: holds_session_def split: option.splits)

lemma deserialize_not_fresh: "session_record_deserialize d = Inr rec \<Longrightarrow> \<not> sr_is_fresh rec"
  by (auto simp: session_record_deserialize_def result_simps)

lemma record_for_new_session_holds:
  assumes "holds_session v a rec"
  shows "sr_state (record_for_new_session rec) = Some session_state_create" "sr_ok (record_for_new_session rec)"
  using assms sr_ok_archive [of rec] deserialize_not_fresh
  by (auto simp: holds_session_def record_for_new_session_def session_record_create_def
      session_record_archive_current_state_def session_record_promote_state_def split: option.splits)

lemma store_session_holds:
  assumes "store_context_of C view" "sr_ok rec"
  shows "\<exists>s' d. signal_protocol_session_store_session (session_store C) a rec s = (Inr (), s') \<and>
    view s' = (view s)\<lparr>sv_sessions := (sv_sessions (view s))(a := Some d)\<rparr> \<and>
    session_record_deserialize d = Inr (rec\<lparr>sr_is_fresh := False\<rparr>) \<and>
    holds_session (view s') a (rec\<lparr>sr_is_fresh := False\<rparr>)"
proof -
  obtain s' d where s': "signal_protocol_session_store_session (session_store C) a rec s = (Inr (), s')"
    "session_record_serialize (Some rec) = Inr d"
    "view s' = (view s)\<lparr>sv_sessions := (sv_sessions (view s))(a := Some d)\<rparr>"
    using store_session_of [OF assms] by blast
  moreover have "session_record_deserialize d = Inr (rec\<lparr>sr_is_fresh := False\<rparr>)"
    by (rule session_record_roundtrip [OF assms(2) s'(2)])
  moreover have "sr_ok (rec\<lparr>sr_is_fresh := False\<rparr>)" using assms(2) by (simp add: sr_ok_def)
  ultimately show ?thesis by (intro exI [of _ s'] exI [of _ d]) (simp add: holds_session_def)
qed

section \<open>What the builder adds to a session\<close>

text \<open>The fields set after the key agreement do not touch what the cipher relies on.\<close>

definition registered :: "u32 \<Rightarrow> u32 \<Rightarrow> ec_public_key \<Rightarrow> session_state \<Rightarrow> session_state" where
  "registered here there base_key st =
     session_state_set_alice_base_key base_key (session_state_set_remote_registration_id there
       (session_state_set_local_registration_id here st))"

lemmas registered_defs = registered_def session_state_set_alice_base_key_def
  session_state_set_remote_registration_id_def session_state_set_local_registration_id_def
  session_state_set_unacknowledged_pre_key_message_def

lemma ss_ok_registered: "\<lbrakk>ss_ok st; pub_ok k\<rbrakk> \<Longrightarrow> ss_ok (registered n m k st)"
  unfolding registered_def by (intro ss_ok_intros)

lemma registered_sender [simp]:
  "sender_on G base k v A B i (registered n m bk st) = sender_on G base k v A B i st"
  "dh_linked G ck (registered n m bk st) sb = dh_linked G ck st sb"
  "can_send v A B (registered n m bk st) \<longleftrightarrow>
     can_send v A B st \<and> ss_ok (registered n m bk st)" if "ss_ok st"
  using that by (auto simp: sender_on_def dh_linked_def can_send_def registered_defs session_state_get_sender_ratchet_key_def)

lemma registered_receiver [simp]:
  "delivery_inv G base k R (registered n m bk st) = delivery_inv G base k R st"
  "dh_linked G ck sa (registered n m bk st) = dh_linked G ck sa st"
  "session_state_find_receiver_chain (registered n m bk st) k = session_state_find_receiver_chain st k"
  by (auto simp: delivery_inv_def dh_linked_def registered_defs session_state_find_receiver_chain_def)

abbreviation unacknowledged :: "u32 option \<Rightarrow> u32 \<Rightarrow> ec_public_key \<Rightarrow> session_state \<Rightarrow> session_state" where
  "unacknowledged \<equiv> session_state_set_unacknowledged_pre_key_message"

lemma unacknowledged_sender [simp]:
  "sender_on G base k v A B i (unacknowledged pid sid bk st) = sender_on G base k v A B i st"
  "dh_linked G ck (unacknowledged pid sid bk st) sb = dh_linked G ck st sb"
  by (auto simp: sender_on_def dh_linked_def registered_defs session_state_get_sender_ratchet_key_def)

lemma can_send_unacknowledged: "\<lbrakk>can_send v A B st; pub_ok bk\<rbrakk> \<Longrightarrow> can_send v A B (unacknowledged pid sid bk st)"
  using ss_ok_setters(10) [of st bk pid sid] by (auto simp: can_send_def registered_defs)

lemma in_step_sender:
  assumes "in_step G v A B sa sb r r'" "pub_ok k"
  shows "in_step G v A B (registered n m k (unacknowledged pid sid k sa)) sb r r'"
proof -
  have can: "can_send v A B (unacknowledged pid sid k sa)"
    using assms by (intro can_send_unacknowledged) (simp_all add: in_step_def)
  then have ok: "ss_ok (unacknowledged pid sid k sa)" by (simp add: can_send_def)
  show ?thesis
    using assms(1) can ss_ok_registered [OF ok assms(2)] by (simp add: in_step_def registered_sender [OF ok])
qed

lemma in_step_receiver:
  assumes "in_step G v A B sa sb r r'" "pub_ok k"
  shows "in_step G v A B sa (registered n m k sb) r r'"
proof -
  have ok: "ss_ok sb" using assms(1) by (simp add: in_step_def can_send_def)
  show ?thesis
    using assms(1) ss_ok_registered [OF ok assms(2)] by (simp add: in_step_def registered_sender [OF ok])
qed

text \<open>A session that waits for its acknowledgement sends pre-key messages.\<close>

lemma pre_key_signal_message_recreate:
  "pre_key_signal_message_create v rid pid sid bk ik m = Inr pm \<Longrightarrow>
     pre_key_signal_message_create v rid pid sid bk ik (pksm_message pm) = Inr pm"
  using pre_key_signal_message_create_message by blast

lemma encrypt_pending:
  assumes "encrypt_from_state G st p = Inr (em, st')" "ss_has_pending_pre_key st"
    and "ss_local_identity_public st = Some A" "ppk_base_key (ss_pending_pre_key st) = Some bk"
  shows "\<exists>pm. em = CIPHERTEXT_PREKEY pm \<and>
    pre_key_signal_message_create (ucast (ss_session_version st)) (ss_local_registration_id st)
      (if ppk_has_pre_key_id (ss_pending_pre_key st) then Some (ppk_pre_key_id (ss_pending_pre_key st)) else None)
      (ppk_signed_pre_key_id (ss_pending_pre_key st)) bk A (pksm_message pm) = Inr pm"
  using assms
  by (auto simp: encrypt_from_state_def result_simps Let_def intro: pre_key_signal_message_recreate)

lemma pre_key_signal_message_create_fields:
  assumes "pre_key_signal_message_create v rid pid sid bk ik m = Inr pm"
  shows "pksm_version pm = v" "pksm_registration_id pm = rid" "pksm_has_pre_key_id pm \<longleftrightarrow> pid \<noteq> None"
    "pid = Some n \<Longrightarrow> pksm_pre_key_id pm = n" "pksm_signed_pre_key_id pm = sid" "pksm_base_key pm = bk"
    "pksm_identity_key pm = ik" "pksm_message pm = m"
  using assms by (auto simp: pre_key_signal_message_create_def result_simps)

section \<open>Published keys\<close>

text \<open>
  A bundle advertises keys that its owner's store holds: the identity \<open>j\<close>, a signed pre-key
  with a signature that verifies, and possibly a one-time pre-key.
\<close>

definition published ::
  "signal_context \<Rightarrow> store_view \<Rightarrow> ratchet_identity_key_pair \<Rightarrow> session_signed_pre_key \<Rightarrow> session_pre_key option
     \<Rightarrow> session_pre_key_bundle \<Rightarrow> bool" where
  "published G v j sp op bundle \<longleftrightarrow>
     ik_ok G j \<and> sv_identity_key_pair v = identity_bytes j \<and> pkb_identity_key bundle = Some (ik_public_key j) \<and>
     key_pair_ok G (spk_key_pair sp) \<and>
     (\<exists>d. sv_signed_pre_keys v (spk_key_id sp) = Some d \<and> session_signed_pre_key_deserialize d = Inr sp) \<and>
     pkb_signed_pre_key_id bundle = spk_key_id sp \<and>
     pkb_signed_pre_key_public bundle = Some (kp_public_key (spk_key_pair sp)) \<and>
     pkb_signed_pre_key_signature bundle = Some (spk_key_signature sp) \<and> length (spk_key_signature sp) = 64 \<and>
     curve25519_verify G (spk_key_signature sp) (pub_data (ik_public_key j))
       (DJB_TYPE # pub_data (kp_public_key (spk_key_pair sp))) = 0 \<and>
     pkb_pre_key_public bundle = map_option (kp_public_key \<circ> pk_key_pair) op \<and>
     (\<forall>k. op = Some k \<longrightarrow> key_pair_ok G (pk_key_pair k) \<and> pkb_pre_key_id bundle = pk_id k \<and>
        (\<exists>d. sv_pre_keys v (pk_id k) = Some d \<and> session_pre_key_deserialize d = Inr k))"

definition bundle_parameters ::
  "ratchet_identity_key_pair \<Rightarrow> ec_key_pair \<Rightarrow> ratchet_identity_key_pair \<Rightarrow> session_signed_pre_key \<Rightarrow> session_pre_key option
     \<Rightarrow> alice_signal_protocol_parameters" where
  "bundle_parameters i base_pair j sp op =
     \<lparr>ap_our_identity_key = i, ap_our_base_key = base_pair, ap_their_identity_key = ik_public_key j,
      ap_their_signed_pre_key = kp_public_key (spk_key_pair sp),
      ap_their_one_time_pre_key = map_option (kp_public_key \<circ> pk_key_pair) op,
      ap_their_ratchet_key = kp_public_key (spk_key_pair sp)\<rparr>"

definition message_parameters ::
  "ratchet_identity_key_pair \<Rightarrow> session_signed_pre_key \<Rightarrow> session_pre_key option \<Rightarrow> ec_public_key \<Rightarrow> ec_public_key
     \<Rightarrow> bob_signal_protocol_parameters" where
  "message_parameters j sp op A base_key =
     \<lparr>bp_our_identity_key = j, bp_our_signed_pre_key = spk_key_pair sp,
      bp_our_one_time_pre_key = map_option pk_key_pair op, bp_our_ratchet_key = spk_key_pair sp,
      bp_their_identity_key = A, bp_their_base_key = base_key\<rparr>"

lemma published_matched:
  assumes "published G v j sp op bundle" "ik_ok G i" "key_pair_ok G bp"
  shows "matched_parameters G (bundle_parameters i bp j sp op)
    (message_parameters j sp op (ik_public_key i) (kp_public_key bp))"
  using assms
  by (cases op) (auto simp: matched_parameters_def published_def bundle_parameters_def message_parameters_def)

lemma published_verified:
  assumes "published G v j sp op bundle"
  shows "verified_signed_pre_key G bundle = Inr (kp_public_key (spk_key_pair sp))"
  using assms
  by (simp add: published_def verified_signed_pre_key_def ec_public_key_serialize_def curve_verify_signature_def)

section \<open>The two handlers\<close>

lemma process_bundle:
  assumes dh: "curve25519_dh G" and hm: "hmac_sha256_of G hm" and rnd: "random_total G"
    and C: "store_context_of C view" and rec: "holds_session (view s) a rec"
    and tr: "trusted (view s) a (DJB_TYPE # pub_data (ik_public_key j))"
    and me: "sv_identity_key_pair (view s) = identity_bytes i" "ik_ok G i"
    and pub: "published G v j sp op bundle"
  shows "\<exists>bp sa s'. curve_generate_key_pair G r = (Inr bp, Suc r) \<and>
    ratcheting_session_alice_initialize G session_state_create (bundle_parameters i bp j sp op) (Suc r)
      = (Inr sa, Suc (Suc r)) \<and>
    session_builder_process_pre_key_bundle \<lparr>builder_store = C, builder_remote_address = a\<rparr> G bundle
      \<lparr>w_store = s, w_rng = r\<rparr> = (Inr (), \<lparr>w_store = s', w_rng = Suc (Suc r)\<rparr>) \<and>
    holds_session (view s') a ((session_record_set_state (record_for_new_session rec)
      (registered (sv_registration_id (view s)) (pkb_registration_id bundle) (kp_public_key bp)
        (unacknowledged (map_option pk_id op) (spk_key_id sp) (kp_public_key bp) sa)))\<lparr>sr_is_fresh := False\<rparr>) \<and>
    sv_identities (view s') a = Some (DJB_TYPE # pub_data (ik_public_key j))"
proof -
  obtain bp where bp: "curve_generate_key_pair G r = (Inr bp, Suc r)"
    using curve_generate_key_pair_total [OF dh rnd] by blast
  note bpo = curve_generate_key_pair_ok [OF dh bp]
  let ?a = "bundle_parameters i bp j sp op"
  note m = published_matched [OF pub me(2) bpo]
  obtain sa where sa: "ratcheting_session_alice_initialize G session_state_create ?a (Suc r) = (Inr sa, Suc (Suc r))"
    using alice_initialize_total [OF dh hm m] curve_generate_key_pair_total [OF dh rnd] by blast
  have "ss_ok sa" using alice_initialize_ready(1) [OF dh hm m sa] by (simp add: can_send_def)
  then have ok: "ss_ok (registered (sv_registration_id (view s)) (pkb_registration_id bundle) (kp_public_key bp)
      (unacknowledged (map_option pk_id op) (spk_key_id sp) (kp_public_key bp) sa))" (is "ss_ok ?st")
    using key_pair_okD [OF bpo] by (intro ss_ok_registered ss_ok_intros) auto
  note new = record_for_new_session_holds [OF rec]
  obtain s1 d where s1: "signal_protocol_session_store_session (session_store C) a
      (session_record_set_state (record_for_new_session rec) ?st) s = (Inr (), s1)"
    "holds_session (view s1) a ((session_record_set_state (record_for_new_session rec) ?st)\<lparr>sr_is_fresh := False\<rparr>)"
    using store_session_holds [OF C sr_ok_set_state [OF new(2) ok]] by blast
  obtain s2 where s2: "signal_protocol_identity_save_identity C a (Some (ik_public_key j)) s1 = (Inr (), s2)"
    "view s2 = (view s1)\<lparr>sv_identities := (sv_identities (view s1))(a := Some (DJB_TYPE # pub_data (ik_public_key j)))\<rparr>"
    using save_identity_of [OF C] by blast
  have one: "(if pkb_pre_key_public bundle = None then None else Some (pkb_pre_key_id bundle)) = map_option pk_id op"
    using pub by (cases op) (auto simp: published_def)
  have par: "alice_signal_protocol_parameters_create (Some i) (Some bp) (Some (ik_public_key j))
      (Some (kp_public_key (spk_key_pair sp))) (pkb_pre_key_public bundle) (Some (kp_public_key (spk_key_pair sp))) = Inr ?a"
    using pub by (simp add: alice_signal_protocol_parameters_create_def bundle_parameters_def published_def)
  have idk: "pkb_identity_key bundle = Some (ik_public_key j)" "pkb_signed_pre_key_id bundle = spk_key_id sp"
    using pub by (auto simp: published_def)
  have "session_builder_process_pre_key_bundle \<lparr>builder_store = C, builder_remote_address = a\<rparr> G bundle
      \<lparr>w_store = s, w_rng = r\<rparr> = (Inr (), \<lparr>w_store = s2, w_rng = Suc (Suc r)\<rparr>)"
    using tr me(1) ik_okD [OF me(2)] bp sa s1(1) s2(1) one par new(1) load_session_holds [OF C rec]
      is_trusted_of [OF C, of a "ik_public_key j" s] published_verified [OF pub] registration_id_of [OF C, of s]
      identity_key_pair_of [OF C me(1)]
    by (simp add: session_builder_process_pre_key_bundle_def Let_def andthen_def in_store_def draw_def returning_def
        idk session_record_get_state_def registered_def)
  moreover have "holds_session (view s2) a ((session_record_set_state (record_for_new_session rec) ?st)\<lparr>sr_is_fresh := False\<rparr>)"
    using s1(2) by (simp add: s2(2) holds_session_def)
  ultimately show ?thesis using bp sa s2(2) by auto
qed

text \<open>The id of the one-time pre-key that a message uses up; the last resort key stays.\<close>

definition used_pre_key :: "session_pre_key option \<Rightarrow> u32 option" where
  "used_pre_key op =
     (case op of None \<Rightarrow> None | Some k \<Rightarrow> if pk_id k = PRE_KEY_MEDIUM_MAX_VALUE then None else Some (pk_id k))"

lemma process_pre_key_message:
  assumes C: "store_context_of C view" and rec: "holds_session (view s) a rec"
    and new: "session_record_has_session_state rec 3 (Some (pksm_base_key pm)) = Inr False"
    and tr: "trusted (view s) a (DJB_TYPE # pub_data (pksm_identity_key pm))"
    and pub: "published G (view s) j sp op bundle"
    and pm: "pksm_version pm = 3" "pksm_signed_pre_key_id pm = spk_key_id sp"
      "pksm_has_pre_key_id pm \<longleftrightarrow> op \<noteq> None" "\<And>k. op = Some k \<Longrightarrow> pksm_pre_key_id pm = pk_id k"
    and bob: "ratcheting_session_bob_initialize G session_state_create
      (message_parameters j sp op (pksm_identity_key pm) (pksm_base_key pm)) = Inr sb"
  shows "\<exists>s'. session_builder_process_pre_key_signal_message \<lparr>builder_store = C, builder_remote_address = a\<rparr> G rec pm
      \<lparr>w_store = s, w_rng = r\<rparr> = (Inr (used_pre_key op, session_record_set_state (record_for_new_session rec)
        (registered (sv_registration_id (view s)) (pksm_registration_id pm) (pksm_base_key pm) sb)),
        \<lparr>w_store = s', w_rng = r\<rparr>) \<and>
    view s' = (view s)\<lparr>sv_identities := (sv_identities (view s))(a := Some (DJB_TYPE # pub_data (pksm_identity_key pm)))\<rparr>"
proof -
  obtain s' where s': "signal_protocol_identity_save_identity C a (Some (pksm_identity_key pm)) s = (Inr (), s')"
    "view s' = (view s)\<lparr>sv_identities := (sv_identities (view s))(a := Some (DJB_TYPE # pub_data (pksm_identity_key pm)))\<rparr>"
    using save_identity_of [OF C] by blast
  have sgn: "signal_protocol_signed_pre_key_load_key C (pksm_signed_pre_key_id pm) s = (Inr sp, s)"
    using pub pm(2) by (auto simp: signed_pre_key_load_of [OF C] published_def)
  have idk: "signal_protocol_identity_get_key_pair C s = (Inr j, s)"
    using pub by (intro identity_key_pair_of [OF C]) (auto simp: published_def dest: ik_okD)
  have one: "load_one_time_pre_key C pm \<lparr>w_store = s, w_rng = r\<rparr>
    = (Inr (map_option pk_key_pair op), \<lparr>w_store = s, w_rng = r\<rparr>)"
    using pub pm(3,4) by (cases op)
      (auto simp: load_one_time_pre_key_def pre_key_load_of [OF C] published_def andthen_def in_store_def returning_def)
  have used: "(if pksm_has_pre_key_id pm \<and> pksm_pre_key_id pm \<noteq> PRE_KEY_MEDIUM_MAX_VALUE
      then Some (pksm_pre_key_id pm) else None) = used_pre_key op"
    using pm(3,4) by (cases op) (auto simp: used_pre_key_def)
  have "session_builder_process_pre_key_signal_message_v3 \<lparr>builder_store = C, builder_remote_address = a\<rparr> G rec pm
      \<lparr>w_store = s, w_rng = r\<rparr> = (Inr (used_pre_key op, session_record_set_state (record_for_new_session rec)
        (registered (sv_registration_id (view s)) (pksm_registration_id pm) (pksm_base_key pm) sb)),
        \<lparr>w_store = s, w_rng = r\<rparr>)"
    unfolding session_builder_process_pre_key_signal_message_v3_def Let_def used
    using new pm(1) sgn idk one bob record_for_new_session_holds(1) [OF rec] registration_id_of [OF C, of s]
    by (simp add: andthen_def in_store_def returning_def session_record_get_state_def registered_def
        bob_signal_protocol_parameters_create_def message_parameters_def)
  with s' tr is_trusted_of [OF C, of a "pksm_identity_key pm" s] show ?thesis
    by (simp add: session_builder_process_pre_key_signal_message_def Let_def andthen_def in_store_def returning_def)
qed

lemma decrypt_pre_key_message:
  assumes hm: "hmac_sha256_of G hm" and dh: "curve25519_dh G" and C: "store_context_of C view"
    and rec: "holds_session (view s) (cipher_remote_address c) rec"
    and idle: "\<not> cipher_inside_callback c" "cipher_decrypt_callback c = None"
    and build: "session_builder_process_pre_key_signal_message
        \<lparr>builder_store = C, builder_remote_address = cipher_remote_address c\<rparr> G rec pm \<lparr>w_store = s, w_rng = r\<rparr>
      = (Inr (used, rec1), \<lparr>w_store = s1, w_rng = r\<rparr>)" and ok: "sr_ok rec1"
    and k: "pub_ok (sm_sender_ratchet_key (pksm_message pm))"
    and dec: "session_cipher_decrypt_from_record_and_signal_message G rec1 (pksm_message pm) r = (Inr (p, rec2), r')"
  shows "\<exists>s' d. session_cipher_decrypt_pre_key_signal_message C G c pm \<lparr>w_store = s, w_rng = r\<rparr>
      = (Inr p, \<lparr>w_store = s', w_rng = r'\<rparr>) \<and>
    view s' = (view s1)\<lparr>sv_sessions := (sv_sessions (view s1))(cipher_remote_address c := Some d),
      sv_pre_keys := (case used of None \<Rightarrow> sv_pre_keys (view s1) | Some n \<Rightarrow> (sv_pre_keys (view s1))(n := None))\<rparr> \<and>
    holds_session (view s') (cipher_remote_address c) (rec2\<lparr>sr_is_fresh := False\<rparr>)"
proof -
  have ok2: "sr_ok rec2" by (rule decrypt_from_record_ok [OF hm dh k ok dec])
  obtain s2 d where s2: "signal_protocol_session_store_session (session_store C) (cipher_remote_address c) rec2 s1 = (Inr (), s2)"
    "view s2 = (view s1)\<lparr>sv_sessions := (sv_sessions (view s1))(cipher_remote_address c := Some d)\<rparr>"
    "holds_session (view s2) (cipher_remote_address c) (rec2\<lparr>sr_is_fresh := False\<rparr>)"
    using store_session_holds [OF C ok2] by blast
  obtain s3 where s3: "(case used of None \<Rightarrow> returning (Inr ())
      | Some pre_key_id \<Rightarrow> in_store (signal_protocol_pre_key_remove_key C pre_key_id)) \<lparr>w_store = s2, w_rng = r'\<rparr>
      = (Inr (), \<lparr>w_store = s3, w_rng = r'\<rparr>)"
    "view s3 = (view s2)\<lparr>sv_pre_keys := (case used of None \<Rightarrow> sv_pre_keys (view s2) | Some n \<Rightarrow> (sv_pre_keys (view s2))(n := None))\<rparr>"
    using remove_pre_key_of [OF C, of "the used" s2] by (cases used) (auto simp: returning_def in_store_def)
  have "session_cipher_decrypt_pre_key_signal_message C G c pm \<lparr>w_store = s, w_rng = r\<rparr>
      = (Inr p, \<lparr>w_store = s3, w_rng = r'\<rparr>)"
    using idle load_session_holds [OF C rec] build dec s2(1) s3(1)
    by (simp add: session_cipher_decrypt_pre_key_signal_message_def Let_def andthen_def in_store_def draw_def
        returning_def session_cipher_decrypt_callback_def)
  moreover have "holds_session (view s3) (cipher_remote_address c) (rec2\<lparr>sr_is_fresh := False\<rparr>)"
    using s2(3) by (simp add: s3(2) holds_session_def)
  moreover have "view s3 = (view s1)\<lparr>sv_sessions := (sv_sessions (view s1))(cipher_remote_address c := Some d),
      sv_pre_keys := (case used of None \<Rightarrow> sv_pre_keys (view s1) | Some n \<Rightarrow> (sv_pre_keys (view s1))(n := None))\<rparr>"
    by (cases used) (simp_all add: s3(2) s2(2))
  ultimately show ?thesis by blast
qed

section \<open>The first exchange\<close>

lemma encrypt_counter:
  assumes "encrypt_from_state G st p = Inr (em, st')" "sc_chain_key (ss_sender_chain st) = Some ck"
    and "session_state_get_sender_ratchet_key st = Some k"
  shows "sm_counter (signal_part em) = ck_index ck" "sm_sender_ratchet_key (signal_part em) = k"
  by (rule encrypt_from_state_cases [OF assms(1)], use assms(2,3) in \<open>auto dest!: signal_message_create_fields\<close>)+

text \<open>
  Seen from the states: the first message makes the receiver's Diffie-Hellman step, and the
  reply, on the chain it has just made, is read by the first sender.
\<close>

lemma first_exchange:
  assumes hm: "hmac_sha256_of G hm" and inv: "cipher_inverse G" and dh: "curve25519_dh G" and rnd: "random_total G"
    and c: "conv_inv G v I (conv_start sa sb ra rb ka kb)"
    and a: "session_state_get_sender_ratchet_key sa = Some ka" "sc_chain_key (ss_sender_chain sa) = Some ck0" "ck_index ck0 = 0"
    and new: "session_state_find_receiver_chain sb ka = None"
    and enc: "encrypt_from_state G sa p = Inr (em, sa1)"
    and fresh: "\<And>pb. curve_generate_key_pair G rb = (Inr pb, Suc rb) \<Longrightarrow> kp_public_key pb \<noteq> kb"
  shows "\<exists>sb1. session_cipher_decrypt_from_state_and_signal_message G sb (signal_part em) rb = (Inr (p, sb1), Suc rb) \<and>
    can_send v (I False) (I True) sb1 \<and>
    (\<forall>q em2 sb2. encrypt_from_state G sb1 q = Inr (em2, sb2) \<longrightarrow>
      (\<exists>sa2. session_cipher_decrypt_from_state_and_signal_message G sa1 (signal_part em2) ra = (Inr (q, sa2), Suc ra)) \<and>
      pub_ok (sm_sender_ratchet_key (signal_part em2)))"
proof -
  let ?c = "conv_start sa sb ra rb ka kb" and ?m = "signal_part em"
  let ?c1 = "?c\<lparr>cv_state := (cv_state ?c)(True := sa1), cv_net := (cv_net ?c)(True := (?m, p) # cv_net ?c True)\<rparr>"
  note m = encrypt_counter [OF enc a(2,1)]
  have c1: "conv_inv G v I ?c1"
    using m(1) a(3) enc by (intro conv_inv_sent [OF c _ hm]) (auto simp: conv_start_def)
  have a1: "session_state_get_sender_ratchet_key sa1 = Some ka"
    by (rule encrypt_from_state_cases [OF enc]) (use a(1) in \<open>simp add: session_state_get_sender_ratchet_key_def\<close>)
  obtain pb where pb: "curve_generate_key_pair G rb = (Inr pb, Suc rb)"
    using curve_generate_key_pair_total [OF dh rnd] by blast
  obtain sb1 ck where sb1: "session_cipher_decrypt_from_state_and_signal_message G sb ?m rb = (Inr (p, sb1), Suc rb)"
      "session_state_get_sender_ratchet_key sb1 = Some (kp_public_key pb)"
      "sc_chain_key (ss_sender_chain sb1) = Some ck" "ck_index ck = 0"
    and way: "way G v (I True) (I False) [ka] [] sa1 sb1"
      "can_send v (I False) (I True) sb1 \<Longrightarrow> way G v (I False) (I True) [kp_public_key pb, kb] [] sb1 sa1"
    using conv_turn [OF hm inv dh c1, of ?m p True rb pb "Suc rb"] m a1 new pb fresh [OF pb]
    by (auto simp: conv_start_def)
  have "pub_ok ka" using c by (auto simp: conv_inv_both [of _ _ _ _ True] conv_start_def way_def sends_def)
  then have can: "can_send v (I False) (I True) sb1"
    using c m(2) by (intro decrypt_can_send [OF hm dh _ _ sb1(1)]) (auto simp: conv_inv_both [of _ _ _ _ True] conv_start_def)
  let ?c2 = "conv_start sa1 sb1 ra (Suc rb) ka kb\<lparr>cv_keys := (\<lambda>p. if p then [ka] else [kp_public_key pb, kb])\<rparr>"
  have c2: "conv_inv G v I ?c2"
    using c1 can way by (simp add: conv_inv_both [of _ _ _ _ True] conv_start_def)
  have kk: "pub_ok (kp_public_key pb)" using key_pair_okD [OF curve_generate_key_pair_ok [OF dh pb]] by simp
  have "(\<exists>sa2. session_cipher_decrypt_from_state_and_signal_message G sa1 (signal_part em2) ra = (Inr (q, sa2), Suc ra)) \<and>
      pub_ok (sm_sender_ratchet_key (signal_part em2))"
    if enc2: "encrypt_from_state G sb1 q = Inr (em2, sb2)" for q em2 sb2
  proof -
    let ?c3 = "?c2\<lparr>cv_state := (cv_state ?c2)(False := sb2),
      cv_net := (cv_net ?c2)(False := (signal_part em2, q) # cv_net ?c2 False)\<rparr>"
    note m2 = encrypt_counter [OF enc2 sb1(3,2)]
    have c3: "conv_inv G v I ?c3"
      using m2(1) sb1(4) enc2 by (intro conv_inv_sent [OF c2 _ hm]) (auto simp: conv_start_def)
    have b2: "session_state_get_sender_ratchet_key sb2 = Some (kp_public_key pb)"
      by (rule encrypt_from_state_cases [OF enc2]) (use sb1(2) in \<open>simp add: session_state_get_sender_ratchet_key_def\<close>)
    have "set (receiver_keys sa1) \<subseteq> {Some kb}"
    proof -
      have "way G v (I False) (I True) [kb] [] sb sa"
        using c by (simp add: conv_inv_both [of _ _ _ _ True] conv_start_def)
      then have "set (receiver_keys sa) \<subseteq> {Some kb}" by (auto simp: way_def knows_def map_eq_Cons_conv)
      moreover have "receiver_keys sa1 = receiver_keys sa"
        by (rule encrypt_from_state_cases [OF enc]) (simp add: receiver_keys_def)
      ultimately show ?thesis by simp
    qed
    moreover have "ss_ok sa1" using c1 by (simp add: conv_inv_both [of _ _ _ _ True] conv_start_def can_send_def)
    ultimately have "session_state_find_receiver_chain sa1 (kp_public_key pb) = None"
      using find_None_keys [OF _ kk] fresh [OF pb] by blast
    with conv_turn [OF hm inv dh c3, of "signal_part em2" q False ra] m2 b2 curve_generate_key_pair_total [OF dh rnd, of ra] kk
    show ?thesis by (fastforce simp: conv_start_def)
  qed
  with sb1(1) can show ?thesis by blast
qed

section \<open>A session from a bundle\<close>

text \<open>The two built states start a conversation.\<close>

lemma conv_start_frame:
  assumes c: "conv_inv G v I (conv_start sa sb ra rb ka kb)"
    and a: "sender_part sa' = sender_part sa" "receiver_part sa' = receiver_part sa" "can_send v (I True) (I False) sa'"
    and b: "sender_part sb' = sender_part sb" "receiver_part sb' = receiver_part sb" "can_send v (I False) (I True) sb'"
  shows "conv_inv G v I (conv_start sa' sb' ra rb ka kb)"
  using c a(3) b(3)
  by (simp add: conv_inv_both [of _ _ _ _ True] conv_start_def way_sender_frame [OF a(1)] way_sender_frame [OF b(1)]
      way_receiver_frame [OF a(2)] way_receiver_frame [OF b(2)])

lemma registered_parts [simp]:
  "sender_part (registered n m bk st) = sender_part st" "receiver_part (registered n m bk st) = receiver_part st"
  "sender_part (unacknowledged pid sid bk st) = sender_part st" "receiver_part (unacknowledged pid sid bk st) = receiver_part st"
  by (simp_all add: sender_part_def receiver_part_def registered_defs)

lemma can_send_registered: "\<lbrakk>can_send v A B st; pub_ok bk\<rbrakk> \<Longrightarrow> can_send v A B (registered n m bk st)"
  using registered_sender(3) [of st v A B n m bk] ss_ok_registered [of st bk n m] by (simp add: can_send_def)

lemma built_conversation:
  assumes dh: "curve25519_dh G" and hm: "hmac_sha256_of G hm" and m: "matched_parameters G a b" and bk: "pub_ok bk"
    and alice: "ratcheting_session_alice_initialize G session_state_create a r = (Inr sa, r')"
    and bob: "ratcheting_session_bob_initialize G session_state_create b = Inr sb"
  shows "\<exists>ka ck. session_state_get_sender_ratchet_key sa = Some ka \<and>
    sc_chain_key (ss_sender_chain sa) = Some ck \<and> ck_index ck = 0 \<and>
    conv_inv G 3 (\<lambda>p. if p then ik_public_key (ap_our_identity_key a) else ik_public_key (bp_our_identity_key b))
      (conv_start (registered n k bk (unacknowledged pid sid bk sa)) (registered n' k' bk sb) ra rb
        ka (kp_public_key (bp_our_ratchet_key b)))"
proof -
  obtain ka kb where c: "session_state_get_sender_ratchet_key sa = Some ka" "session_state_get_sender_ratchet_key sb = Some kb"
    "conv_inv G 3 (\<lambda>p. if p then ik_public_key (ap_our_identity_key a) else ik_public_key (bp_our_identity_key b))
      (conv_start sa sb ra rb ka kb)"
    using initialized_conversation [OF dh hm m alice bob] by blast
  have kb: "kb = kp_public_key (bp_our_ratchet_key b)"
    using bob c(2) by (auto simp: ratcheting_session_bob_initialize_def result_simps session_state_set_root_key_def
        session_state_set_sender_chain_def session_state_get_sender_ratchet_key_def)
  have can: "can_send 3 (ik_public_key (ap_our_identity_key a)) (ik_public_key (bp_our_identity_key b)) sa"
    "can_send 3 (ik_public_key (bp_our_identity_key b)) (ik_public_key (ap_our_identity_key a)) sb"
    using c(3) by (simp_all add: conv_inv_both [of _ _ _ _ True] conv_start_def)
  obtain ck where ck: "sc_chain_key (ss_sender_chain sa) = Some ck" using can(1) by (auto simp: can_send_def)
  with alice_chain_start [OF dh hm m alice ck] c(1) can bk conv_start_frame [OF c(3)] show ?thesis
    by (intro exI [of _ ka] exI [of _ ck]) (simp add: can_send_registered can_send_unacknowledged kb)
qed

lemma holds_session_record:
  assumes "store_context_of C view" "holds_session (view s) a rec" "\<not> sr_is_fresh rec"
  shows "holds_record (session_store C) (sv_sessions \<circ> view) a rec s"
  using assms store_context_session [OF assms(1)]
  by (auto simp: holds_session_def holds_record_def session_record_create_def split: option.splits)

lemma decrypt_current_state:
  assumes "sr_ok rec" "sr_state rec = Some st"
    and "session_cipher_decrypt_from_state_and_signal_message G st m r = (Inr (p, st'), r')"
  shows "session_cipher_decrypt_from_record_and_signal_message G rec m r = (Inr (p, session_record_set_state rec st'), r')"
proof -
  have "ss_ok st" using assms(1,2) by (simp add: sr_ok_def)
  with assms(2,3) show ?thesis
    by (simp add: session_cipher_decrypt_from_record_and_signal_message_def session_state_copy_id)
qed

text \<open>Until the session is acknowledged its messages carry the keys it was built from.\<close>

lemma built_encrypt:
  assumes enc: "encrypt_from_state G (registered n k bk (unacknowledged pid sid bk sa)) p = Inr (em, st')"
    and can: "can_send 3 A B sa"
  shows "\<exists>pm. em = CIPHERTEXT_PREKEY pm \<and> pksm_version pm = 3 \<and> pksm_signed_pre_key_id pm = sid \<and>
    (pksm_has_pre_key_id pm \<longleftrightarrow> pid \<noteq> None) \<and> (\<forall>x. pid = Some x \<longrightarrow> pksm_pre_key_id pm = x) \<and>
    pksm_base_key pm = bk \<and> pksm_identity_key pm = A \<and> pksm_registration_id pm = n \<and>
    pre_key_signal_message_create 3 n pid sid bk A (pksm_message pm) = Inr pm"
proof -
  let ?st = "registered n k bk (unacknowledged pid sid bk sa)"
  have f: "ss_has_pending_pre_key ?st" "ss_local_identity_public ?st = Some A" "ppk_base_key (ss_pending_pre_key ?st) = Some bk"
    "ss_session_version ?st = 3" "ss_local_registration_id ?st = n" "ppk_signed_pre_key_id (ss_pending_pre_key ?st) = sid"
    "(if ppk_has_pre_key_id (ss_pending_pre_key ?st) then Some (ppk_pre_key_id (ss_pending_pre_key ?st)) else None) = pid"
    using can by (auto simp: can_send_def registered_defs split: option.splits)
  obtain pm where pm: "em = CIPHERTEXT_PREKEY pm"
    "pre_key_signal_message_create 3 n pid sid bk A (pksm_message pm) = Inr pm"
    using encrypt_pending [OF enc f(1-3)] f(4-7) by auto
  with pre_key_signal_message_create_fields [OF pm(2)] show ?thesis by auto
qed

lemma pre_key_session_codec:
  assumes "encrypt_from_state G st p = Inr (CIPHERTEXT_PREKEY pm, st')" "ss_session_version st = 3"
    and "pre_key_signal_message_create 3 n pid sid bk A (pksm_message pm) = Inr pm"
    and "pub_ok bk" "pub_ok A" "pub_ok (sm_sender_ratchet_key (pksm_message pm))"
    and "length (sm_serialized (pksm_message pm)) < 2 ^ 30"
  shows "pre_key_signal_message_deserialize (pksm_serialized pm) = Inr pm"
proof -
  have "signal_message_deserialize (sm_serialized (pksm_message pm)) = Inr (pksm_message pm)"
    using encrypted_message_roundtrip [OF assms(1)] assms(2,6,7) by simp
  moreover have "sm_message_version (pksm_message pm) = 3"
    by (rule encrypt_from_state_cases [OF assms(1)]) (use assms(2) in \<open>auto dest!: signal_message_create_fields\<close>)
  moreover have "length (pksm_serialized pm) < 2 ^ 31"
    using pre_key_signal_message_length [OF assms(3-5)] assms(7) by simp
  ultimately show ?thesis by (rule pre_key_signal_message_roundtrip [OF assms(3-5)])
qed

lemma set_state_record [simp]:
  "sr_state ((session_record_set_state rec st)\<lparr>sr_is_fresh := x\<rparr>) = Some st"
  "sr_is_fresh ((session_record_set_state rec st)\<lparr>sr_is_fresh := x\<rparr>) = x"
  "sr_state (session_record_set_state rec st) = Some st"
  by (simp_all add: session_record_set_state_def)

lemma built_sender [simp]:
  "session_state_get_sender_ratchet_key (registered n k bk st) = session_state_get_sender_ratchet_key st"
  "session_state_get_sender_ratchet_key (unacknowledged pid sid bk st) = session_state_get_sender_ratchet_key st"
  "ss_sender_chain (registered n k bk st) = ss_sender_chain st"
  "ss_sender_chain (unacknowledged pid sid bk st) = ss_sender_chain st"
  by (simp_all add: registered_defs session_state_get_sender_ratchet_key_def)

text \<open>Both handlers, from the stored records to the stored records, between two states that can talk.\<close>

lemma reply_delivered:
  assumes hm: "hmac_sha256_of G hm" and inv: "cipher_inverse G" and dh: "curve25519_dh G"
    and b: "holds_record SB getB (cipher_remote_address cb) recb (w_store wb)" "sr_state recb = Some sb"
      "can_send v B A sb" "\<not> cipher_inside_callback cb"
    and a: "holds_record SA getA (cipher_remote_address ca) reca (w_store wa)" "sr_state reca = Some sa"
      "\<not> cipher_inside_callback ca" "cipher_decrypt_callback ca = None"
    and reply: "\<And>em sb'. encrypt_from_state G sb q = Inr (em, sb') \<Longrightarrow>
      (\<exists>sa'. session_cipher_decrypt_from_state_and_signal_message G sa (signal_part em) (w_rng wa) = (Inr (q, sa'), r')) \<and>
      pub_ok (sm_sender_ratchet_key (signal_part em))"
  shows "\<exists>em wb' wa'. session_cipher_encrypt SB G cb q wb = (Inr em, wb') \<and>
    session_cipher_decrypt_signal_message SA G ca (signal_part em) wa = (Inr q, wa')"
proof -
  obtain em sb' wb' where e: "encrypt_from_state G sb q = Inr (em, sb')" "session_cipher_encrypt SB G cb q wb = (Inr em, wb')"
    using encrypt_handler [OF hm inv b] by blast
  obtain sa' where "session_cipher_decrypt_from_state_and_signal_message G sa (signal_part em) (w_rng wa) = (Inr (q, sa'), r')"
    and k: "pub_ok (sm_sender_ratchet_key (signal_part em))"
    using reply [OF e(1)] by blast
  then have "session_cipher_decrypt_from_record_and_signal_message G reca (signal_part em) (w_rng wa)
      = (Inr (q, session_record_set_state reca sa'), r')"
    using a(1) by (intro decrypt_current_state [OF _ a(2)]) (auto simp: holds_record_def)
  from decrypt_handler [OF hm dh k a(1,3,4) this] e(2) show ?thesis by blast
qed

lemma parameter_fields [simp]:
  "ap_our_identity_key (bundle_parameters i bp j sp op) = i"
  "bp_our_identity_key (message_parameters j sp op A bk) = j"
  "bp_our_ratchet_key (message_parameters j sp op A bk) = spk_key_pair sp"
  by (simp_all add: bundle_parameters_def message_parameters_def)

text \<open>One side: the bundle is processed and the first message encrypted.\<close>

lemma bundle_then_encrypt:
  assumes hm: "hmac_sha256_of G hm" and inv: "cipher_inverse G" and dh: "curve25519_dh G" and rnd: "random_total G"
    and CA: "store_context_of CA viewA" "holds_session (viewA sA) (cipher_remote_address ca) recA"
      "trusted (viewA sA) (cipher_remote_address ca) (DJB_TYPE # pub_data (ik_public_key j))"
      "sv_identity_key_pair (viewA sA) = identity_bytes i" "ik_ok G i"
    and pub: "published G v j sp op bundle" and idle: "\<not> cipher_inside_callback ca"
  shows "\<exists>wa1 pm wa2 bp sa sa1 rec.
    session_builder_process_pre_key_bundle \<lparr>builder_store = CA, builder_remote_address = cipher_remote_address ca\<rparr> G bundle
      \<lparr>w_store = sA, w_rng = ra\<rparr> = (Inr (), wa1) \<and>
    session_cipher_encrypt (session_store CA) G ca p wa1 = (Inr (CIPHERTEXT_PREKEY pm), wa2) \<and>
    curve_generate_key_pair G ra = (Inr bp, Suc ra) \<and>
    ratcheting_session_alice_initialize G session_state_create (bundle_parameters i bp j sp op) (Suc ra)
      = (Inr sa, Suc (Suc ra)) \<and>
    encrypt_from_state G (registered (sv_registration_id (viewA sA)) (pkb_registration_id bundle) (kp_public_key bp)
        (unacknowledged (map_option pk_id op) (spk_key_id sp) (kp_public_key bp) sa)) p
      = Inr (CIPHERTEXT_PREKEY pm, sa1) \<and>
    holds_record (session_store CA) (sv_sessions \<circ> viewA) (cipher_remote_address ca) rec (w_store wa2) \<and>
    sr_state rec = Some sa1 \<and> w_rng wa2 = Suc (Suc ra)"
proof -
  obtain bp sa sA1 where bp: "curve_generate_key_pair G ra = (Inr bp, Suc ra)"
    and sa: "ratcheting_session_alice_initialize G session_state_create (bundle_parameters i bp j sp op) (Suc ra)
      = (Inr sa, Suc (Suc ra))"
    and run: "session_builder_process_pre_key_bundle \<lparr>builder_store = CA, builder_remote_address = cipher_remote_address ca\<rparr>
      G bundle \<lparr>w_store = sA, w_rng = ra\<rparr> = (Inr (), \<lparr>w_store = sA1, w_rng = Suc (Suc ra)\<rparr>)"
    and A1: "holds_session (viewA sA1) (cipher_remote_address ca) ((session_record_set_state (record_for_new_session recA)
      (registered (sv_registration_id (viewA sA)) (pkb_registration_id bundle) (kp_public_key bp)
        (unacknowledged (map_option pk_id op) (spk_key_id sp) (kp_public_key bp) sa)))\<lparr>sr_is_fresh := False\<rparr>)"
      (is "holds_session _ _ ?rec")
    using process_bundle [OF dh hm rnd CA pub] by blast
  let ?sa = "registered (sv_registration_id (viewA sA)) (pkb_registration_id bundle) (kp_public_key bp)
    (unacknowledged (map_option pk_id op) (spk_key_id sp) (kp_public_key bp) sa)"
  note bpo = curve_generate_key_pair_ok [OF dh bp]
  have can0: "can_send 3 (ik_public_key i) (ik_public_key j) sa"
    using alice_initialize_ready(1) [OF dh hm published_matched [OF pub CA(5) bpo] sa] by simp
  then have can: "can_send 3 (ik_public_key i) (ik_public_key j) ?sa"
    using key_pair_okD [OF bpo] by (intro can_send_registered can_send_unacknowledged) auto
  have st: "sr_state ?rec = Some ?sa" by simp
  have "holds_record (session_store CA) (sv_sessions \<circ> viewA) (cipher_remote_address ca) ?rec
      (w_store \<lparr>w_store = sA1, w_rng = Suc (Suc ra)\<rparr>)"
    using holds_session_record [OF CA(1) A1] by simp
  from encrypt_handler [OF hm inv this st can idle, of p]
  obtain em sa1 wa2 where e: "encrypt_from_state G ?sa p = Inr (em, sa1)"
      "session_cipher_encrypt (session_store CA) G ca p \<lparr>w_store = sA1, w_rng = Suc (Suc ra)\<rparr> = (Inr em, wa2)"
    and A2: "holds_record (session_store CA) (sv_sessions \<circ> viewA) (cipher_remote_address ca)
      ((session_record_set_state ?rec sa1)\<lparr>sr_is_fresh := False\<rparr>) (w_store wa2)" "w_rng wa2 = Suc (Suc ra)"
    by auto
  obtain pm where "em = CIPHERTEXT_PREKEY pm" using built_encrypt [OF e(1) can0] by blast
  with bp sa run e A2 set_state_record(1) show ?thesis by blast
qed

text \<open>The other side: the message builds the same session, is read, and can be answered.\<close>

lemma session_from_bundle:
  assumes hm: "hmac_sha256_of G hm" and inv: "cipher_inverse G" and dh: "curve25519_dh G" and rnd: "random_total G"
    and CA: "store_context_of CA viewA" "holds_session (viewA sA) (cipher_remote_address ca) recA"
      "trusted (viewA sA) (cipher_remote_address ca) (DJB_TYPE # pub_data (ik_public_key j))"
      "sv_identity_key_pair (viewA sA) = identity_bytes i" "ik_ok G i"
    and CB: "store_context_of CB viewB" "holds_session (viewB sB) (cipher_remote_address cb) recB"
      "trusted (viewB sB) (cipher_remote_address cb) (DJB_TYPE # pub_data (ik_public_key i))"
      "published G (viewB sB) j sp op bundle"
    and new: "\<And>bp. curve_generate_key_pair G ra = (Inr bp, Suc ra) \<Longrightarrow>
      session_record_has_session_state recB 3 (Some (kp_public_key bp)) = Inr False"
    and fresh: "\<And>pb. curve_generate_key_pair G rb = (Inr pb, Suc rb) \<Longrightarrow> kp_public_key pb \<noteq> kp_public_key (spk_key_pair sp)"
    and idle: "\<not> cipher_inside_callback ca" "cipher_decrypt_callback ca = None"
      "\<not> cipher_inside_callback cb" "cipher_decrypt_callback cb = None"
  shows "\<exists>wa1 pm wa2 wb1.
    session_builder_process_pre_key_bundle \<lparr>builder_store = CA, builder_remote_address = cipher_remote_address ca\<rparr> G bundle
      \<lparr>w_store = sA, w_rng = ra\<rparr> = (Inr (), wa1) \<and>
    session_cipher_encrypt (session_store CA) G ca p wa1 = (Inr (CIPHERTEXT_PREKEY pm), wa2) \<and>
    (length (sm_serialized (pksm_message pm)) < 2 ^ 30 \<longrightarrow> pre_key_signal_message_deserialize (pksm_serialized pm) = Inr pm) \<and>
    session_cipher_decrypt_pre_key_signal_message CB G cb pm \<lparr>w_store = sB, w_rng = rb\<rparr> = (Inr p, wb1) \<and>
    sv_pre_keys (viewB (w_store wb1)) = (case used_pre_key op of None \<Rightarrow> sv_pre_keys (viewB sB)
      | Some n \<Rightarrow> (sv_pre_keys (viewB sB))(n := None)) \<and>
    sv_identities (viewB (w_store wb1)) (cipher_remote_address cb) = Some (DJB_TYPE # pub_data (ik_public_key i)) \<and>
    (\<forall>q. \<exists>em wb2 wa3. session_cipher_encrypt (session_store CB) G cb q wb1 = (Inr em, wb2) \<and>
      session_cipher_decrypt_signal_message (session_store CA) G ca (signal_part em) wa2 = (Inr q, wa3))"
proof -
  let ?A = "ik_public_key i" and ?B = "ik_public_key j" and ?b = "cipher_remote_address cb"
  obtain wa1 pm wa2 bp sa sa1 rec2 where run:
      "session_builder_process_pre_key_bundle \<lparr>builder_store = CA, builder_remote_address = cipher_remote_address ca\<rparr> G bundle
        \<lparr>w_store = sA, w_rng = ra\<rparr> = (Inr (), wa1)"
      "session_cipher_encrypt (session_store CA) G ca p wa1 = (Inr (CIPHERTEXT_PREKEY pm), wa2)"
    and bp: "curve_generate_key_pair G ra = (Inr bp, Suc ra)"
    and sa: "ratcheting_session_alice_initialize G session_state_create (bundle_parameters i bp j sp op) (Suc ra)
      = (Inr sa, Suc (Suc ra))"
    and e: "encrypt_from_state G (registered (sv_registration_id (viewA sA)) (pkb_registration_id bundle) (kp_public_key bp)
      (unacknowledged (map_option pk_id op) (spk_key_id sp) (kp_public_key bp) sa)) p = Inr (CIPHERTEXT_PREKEY pm, sa1)"
      (is "encrypt_from_state G ?sa p = _")
    and A2: "holds_record (session_store CA) (sv_sessions \<circ> viewA) (cipher_remote_address ca) rec2 (w_store wa2)"
      "sr_state rec2 = Some sa1" "w_rng wa2 = Suc (Suc ra)"
    using bundle_then_encrypt [OF hm inv dh rnd CA CB(4) idle(1)] by blast
  let ?bk = "kp_public_key bp" and ?sb = "\<lambda>sb. registered (sv_registration_id (viewB sB)) (sv_registration_id (viewA sA))
    (kp_public_key bp) sb"
  note bpo = curve_generate_key_pair_ok [OF dh bp]
  have bk: "pub_ok ?bk" using key_pair_okD [OF bpo] by simp
  note m = published_matched [OF CB(4) CA(5) bpo]
  obtain sb where sb: "ratcheting_session_bob_initialize G session_state_create (message_parameters j sp op ?A ?bk) = Inr sb"
    using bob_initialize_total [OF dh hm m] by blast
  obtain ka ck where ka: "session_state_get_sender_ratchet_key ?sa = Some ka" "sc_chain_key (ss_sender_chain ?sa) = Some ck"
      "ck_index ck = 0"
    and c: "conv_inv G 3 (\<lambda>p. if p then ?A else ?B)
      (conv_start ?sa (?sb sb) (Suc (Suc ra)) rb ka (kp_public_key (spk_key_pair sp)))"
    using built_conversation [OF dh hm m bk sa sb] unfolding parameter_fields built_sender by blast
  have can: "can_send 3 ?A ?B sa" "can_send 3 ?A ?B ?sa" "can_send 3 ?B ?A (?sb sb)"
    using c alice_initialize_ready(1) [OF dh hm m sa] by (simp_all add: conv_inv_both [of _ _ _ _ True] conv_start_def)
  have pm: "pksm_version pm = 3" "pksm_signed_pre_key_id pm = spk_key_id sp"
      "pksm_has_pre_key_id pm \<longleftrightarrow> op \<noteq> None" "\<And>k. op = Some k \<Longrightarrow> pksm_pre_key_id pm = pk_id k"
      "pksm_base_key pm = ?bk" "pksm_identity_key pm = ?A" "pksm_registration_id pm = sv_registration_id (viewA sA)"
    and made: "pre_key_signal_message_create 3 (sv_registration_id (viewA sA)) (map_option pk_id op) (spk_key_id sp) ?bk ?A
      (pksm_message pm) = Inr pm"
    using built_encrypt [OF e can(1)] by auto
  have none: "session_state_find_receiver_chain (?sb sb) ka = None"
    using bob_initialize_ready(2) [OF dh hm m sb] by simp
  obtain sb1 where sb1: "session_cipher_decrypt_from_state_and_signal_message G (?sb sb) (pksm_message pm) rb
        = (Inr (p, sb1), Suc rb)" "can_send 3 ?B ?A sb1"
    and reply: "\<And>q em2 sb2. encrypt_from_state G sb1 q = Inr (em2, sb2) \<Longrightarrow>
      (\<exists>sa2. session_cipher_decrypt_from_state_and_signal_message G sa1 (signal_part em2) (w_rng wa2)
        = (Inr (q, sa2), Suc (Suc (Suc ra)))) \<and> pub_ok (sm_sender_ratchet_key (signal_part em2))"
    using first_exchange [OF hm inv dh rnd c ka none e fresh] unfolding A2(3) by simp blast
  have k: "pub_ok (sm_sender_ratchet_key (pksm_message pm))"
    using encrypt_counter(2) [OF e ka(2,1)] c by (auto simp: conv_inv_both [of _ _ _ _ True] conv_start_def way_def sends_def)
  let ?rec1 = "session_record_set_state (record_for_new_session recB) (?sb sb)"
  have okb: "sr_ok ?rec1"
    using can(3) record_for_new_session_holds(2) [OF CB(2)] by (intro sr_ok_set_state) (auto simp: can_send_def)
  obtain sB1 where B1: "session_builder_process_pre_key_signal_message \<lparr>builder_store = CB, builder_remote_address = ?b\<rparr> G recB pm
      \<lparr>w_store = sB, w_rng = rb\<rparr> = (Inr (used_pre_key op, ?rec1), \<lparr>w_store = sB1, w_rng = rb\<rparr>)"
    "viewB sB1 = (viewB sB)\<lparr>sv_identities := (sv_identities (viewB sB))(?b := Some (DJB_TYPE # pub_data ?A))\<rparr>"
    using process_pre_key_message [OF CB(1,2) _ _ CB(4) pm(1-4), of sb] new [OF bp] CB(3) sb pm(5-7) by auto
  then have B1v: "sv_pre_keys (viewB sB1) = sv_pre_keys (viewB sB)"
    "sv_identities (viewB sB1) ?b = Some (DJB_TYPE # pub_data ?A)" by simp_all
  obtain sB2 where B2: "session_cipher_decrypt_pre_key_signal_message CB G cb pm \<lparr>w_store = sB, w_rng = rb\<rparr>
      = (Inr p, \<lparr>w_store = sB2, w_rng = Suc rb\<rparr>)"
    "sv_pre_keys (viewB sB2) = (case used_pre_key op of None \<Rightarrow> sv_pre_keys (viewB sB)
      | Some n \<Rightarrow> (sv_pre_keys (viewB sB))(n := None))"
    "sv_identities (viewB sB2) ?b = Some (DJB_TYPE # pub_data ?A)"
    "holds_session (viewB sB2) ?b ((session_record_set_state ?rec1 sb1)\<lparr>sr_is_fresh := False\<rparr>)"
    using decrypt_pre_key_message [OF hm dh CB(1,2) idle(3,4) B1(1) okb k
        decrypt_current_state [OF okb set_state_record(3) sb1(1)]] unfolding B1v(1) by (auto simp: B1v(2))
  have hb: "holds_record (session_store CB) (sv_sessions \<circ> viewB) ?b ((session_record_set_state ?rec1 sb1)\<lparr>sr_is_fresh := False\<rparr>)
      (w_store \<lparr>w_store = sB2, w_rng = Suc rb\<rparr>)"
    using holds_session_record [OF CB(1) B2(4)] by simp
  note answer = reply_delivered [OF hm inv dh hb set_state_record(1) sb1(2) idle(3) A2(1,2) idle(1,2) reply]
  have "pre_key_signal_message_deserialize (pksm_serialized pm) = Inr pm"
    if "length (sm_serialized (pksm_message pm)) < 2 ^ 30"
    using can(2) ik_okD(1) [OF CA(5)]
    by (intro pre_key_session_codec [OF e _ made bk _ k that]) (auto simp: can_send_def)
  with run B2(1-3) answer show ?thesis by auto
qed

end
