(* ===== verification/Builder_Safety.thy ===== *)
theory Builder_Safety
  imports Session_Builder_Laws
begin

text \<open>
  What the session builder does not do: it leaves the entries of other contacts and the
  device's own keys alone, it takes no bundle of an untrusted identity or with a signature
  that does not verify, and a pre-key message that is refused changes no session and uses
  up no pre-key.
\<close>

section \<open>Frames of the store operations\<close>

text \<open>Everything in the stores but the session and the identity of one contact.\<close>

definition outside ::
  "signal_protocol_address \<Rightarrow> store_view \<Rightarrow> store_view" where
  "outside a v = v\<lparr>sv_sessions := (sv_sessions v)(a := None), sv_identities := (sv_identities v)(a := None)\<rparr>"

definition confined :: "signal_protocol_address \<Rightarrow> store_view \<Rightarrow> store_view \<Rightarrow> bool" where
  "confined a v v' \<longleftrightarrow>
     (\<forall>b. b \<noteq> a \<longrightarrow> sv_sessions v' b = sv_sessions v b \<and> sv_identities v' b = sv_identities v b) \<and>
     sv_pre_keys v' = sv_pre_keys v \<and> sv_signed_pre_keys v' = sv_signed_pre_keys v \<and>
     sv_identity_key_pair v' = sv_identity_key_pair v \<and> sv_registration_id v' = sv_registration_id v"

lemma confined_outside:
  assumes "outside a v' = outside a v"
  shows "confined a v v'"
proof -
  have "sv_sessions v' b = sv_sessions v b \<and> sv_identities v' b = sv_identities v b" if "b \<noteq> a" for b
    using that fun_cong [OF arg_cong [OF assms, of sv_sessions], of b]
      fun_cong [OF arg_cong [OF assms, of sv_identities], of b] by (simp add: outside_def)
  then show ?thesis
    using arg_cong [OF assms, of sv_pre_keys] arg_cong [OF assms, of sv_signed_pre_keys]
      arg_cong [OF assms, of sv_identity_key_pair] arg_cong [OF assms, of sv_registration_id]
    by (simp add: confined_def outside_def)
qed

lemma confined_pre_keys:
  assumes "(outside a v')\<lparr>sv_pre_keys := e\<rparr> = (outside a v)\<lparr>sv_pre_keys := e\<rparr>"
  shows "confined a (v\<lparr>sv_pre_keys := sv_pre_keys v'\<rparr>) v'"
proof (rule confined_outside)
  have "outside a v' = ((outside a v')\<lparr>sv_pre_keys := e\<rparr>)\<lparr>sv_pre_keys := sv_pre_keys v'\<rparr>"
    by (simp add: outside_def)
  also have "\<dots> = outside a (v\<lparr>sv_pre_keys := sv_pre_keys v'\<rparr>)" unfolding assms by (simp add: outside_def)
  finally show "outside a v' = outside a (v\<lparr>sv_pre_keys := sv_pre_keys v'\<rparr>)" .
qed

lemma keeps_part: "keeps (same_part f) m \<Longrightarrow> keeps (same_part (\<lambda>s. g (f s))) m"
  by (simp add: keeps_def)

lemma read_only: "(\<And>s. snd (g s) = s) \<Longrightarrow> keeps (same_part f) (in_store g)"
  by (simp add: part_in_store)

lemma store_reads:
  assumes "store_context_atomic C view"
  shows "keeps (same_part (\<lambda>s. f (view s))) (in_store (signal_protocol_session_load_session (session_store C) a))"
    "keeps (same_part (\<lambda>s. f (view s))) (in_store (signal_protocol_pre_key_load_key C n))"
    "keeps (same_part (\<lambda>s. f (view s))) (in_store (signal_protocol_signed_pre_key_load_key C n))"
    "keeps (same_part (\<lambda>s. f (view s))) (in_store (signal_protocol_identity_get_key_pair C))"
    "keeps (same_part (\<lambda>s. f (view s))) (in_store (signal_protocol_identity_get_local_registration_id C))"
    "keeps (same_part (\<lambda>s. f (view s))) (in_store (signal_protocol_identity_is_trusted_identity C a ik))"
proof (rule_tac [!] part_in_store)
  fix s
  show "f (view (snd (signal_protocol_session_load_session (session_store C) a s))) = f (view s)"
    "f (view (snd (signal_protocol_pre_key_load_key C n s))) = f (view s)"
    "f (view (snd (signal_protocol_signed_pre_key_load_key C n s))) = f (view s)"
    "f (view (snd (signal_protocol_identity_get_key_pair C s))) = f (view s)"
    "f (view (snd (signal_protocol_identity_get_local_registration_id C s))) = f (view s)"
    using assms by (simp_all add: load_session_snd wrapper_snd store_context_atomic_def)
  have "view (snd (signal_protocol_identity_is_trusted_identity C a ik s)) = view s"
    using assms
    by (auto simp: signal_protocol_identity_is_trusted_identity_def store_context_atomic_def split: sum.split prod.split)
       (metis snd_conv)
  then show "f (view (snd (signal_protocol_identity_is_trusted_identity C a ik s))) = f (view s)" by simp
qed

lemma atomic_writes:
  assumes "store_context_atomic C view"
  shows "view (snd (store_session_func (session_store C) a d s))
      = (if fst (store_session_func (session_store C) a d s) < 0 then view s
         else (view s)\<lparr>sv_sessions := (sv_sessions (view s))(a := Some d)\<rparr>)"
    "view (snd (remove_pre_key (pre_key_store C) n s))
      = (if fst (remove_pre_key (pre_key_store C) n s) < 0 then view s
         else (view s)\<lparr>sv_pre_keys := (sv_pre_keys (view s))(n := None)\<rparr>)"
    "view (snd (save_identity (identity_key_store C) a k s))
      = (if fst (save_identity (identity_key_store C) a k s) < 0 then view s
         else (view s)\<lparr>sv_identities := (sv_identities (view s))(a := k)\<rparr>)"
  using assms by (simp_all add: store_context_atomic_def)

lemma store_session_view:
  assumes "store_context_atomic C view"
  shows "view (snd (signal_protocol_session_store_session (session_store C) a rec s)) = view s \<or>
    (\<exists>d. view (snd (signal_protocol_session_store_session (session_store C) a rec s))
      = (view s)\<lparr>sv_sessions := (sv_sessions (view s))(a := Some d)\<rparr>)"
proof (cases "session_record_serialize (Some rec)")
  case (Inr d)
  then have "snd (signal_protocol_session_store_session (session_store C) a rec s) = snd (store_session_func (session_store C) a d s)"
    by (simp add: signal_protocol_session_store_session_def split: prod.split)
  with atomic_writes(1) [OF assms, of a d s] show ?thesis by (auto split: if_splits)
qed (simp add: signal_protocol_session_store_session_def)

lemma save_identity_view:
  assumes "store_context_atomic C view"
  shows "view (snd (signal_protocol_identity_save_identity C a ik s)) = view s \<or>
    (\<exists>d. view (snd (signal_protocol_identity_save_identity C a ik s))
      = (view s)\<lparr>sv_identities := (sv_identities (view s))(a := d)\<rparr>)"
proof -
  have "snd (signal_protocol_identity_save_identity C a ik s) = s \<or>
    (\<exists>d. snd (signal_protocol_identity_save_identity C a ik s) = snd (save_identity (identity_key_store C) a d s))"
    by (auto simp: signal_protocol_identity_save_identity_def split: prod.split sum.split) (metis snd_conv)
  with atomic_writes(3) [OF assms, of a _ s] show ?thesis by (metis (no_types, lifting))
qed

lemma outside_write [simp]:
  "outside a (v\<lparr>sv_sessions := (sv_sessions v)(a := d)\<rparr>) = outside a v"
  "outside a (v\<lparr>sv_identities := (sv_identities v)(a := d)\<rparr>) = outside a v"
  by (simp_all add: outside_def)

lemma store_writes:
  assumes "store_context_atomic C view"
  shows "keeps (same_part (\<lambda>s. outside a (view s))) (in_store (signal_protocol_session_store_session (session_store C) a rec))"
    "keeps (same_part (\<lambda>s. outside a (view s))) (in_store (signal_protocol_identity_save_identity C a ik))"
    "keeps (same_part (\<lambda>s. sv_sessions (view s))) (in_store (signal_protocol_identity_save_identity C a ik))"
    "keeps (same_part (\<lambda>s. sv_pre_keys (view s))) (in_store (signal_protocol_identity_save_identity C a ik))"
proof (rule_tac [!] part_in_store)
  fix s
  show "outside a (view (snd (signal_protocol_session_store_session (session_store C) a rec s))) = outside a (view s)"
    using store_session_view [OF assms, of a rec s] by (elim disjE exE) simp_all
  show "outside a (view (snd (signal_protocol_identity_save_identity C a ik s))) = outside a (view s)"
    "sv_sessions (view (snd (signal_protocol_identity_save_identity C a ik s))) = sv_sessions (view s)"
    "sv_pre_keys (view (snd (signal_protocol_identity_save_identity C a ik s))) = sv_pre_keys (view s)"
    using save_identity_view [OF assms, of a ik s] by (elim disjE exE; simp)+
qed

section \<open>Frames of the handlers\<close>

lemmas frame_rules = part.keeps_andthen part.keeps_returning part.keeps_if part_draw

lemma keeps_split: "(\<And>x y. keeps R (f x y)) \<Longrightarrow> keeps R (case z of (x, y) \<Rightarrow> f x y)"
  by (cases z) simp

lemma failing_split: "(\<And>x y. failing R (f x y)) \<Longrightarrow> failing R (case z of (x, y) \<Rightarrow> f x y)"
  by (cases z) simp

lemma bundle_frame:
  assumes C: "store_context_atomic C view"
  shows "keeps (same_part (\<lambda>s. outside a (view s)))
    (session_builder_process_pre_key_bundle \<lparr>builder_store = C, builder_remote_address = a\<rparr> G bundle)"
  unfolding session_builder_process_pre_key_bundle_def Let_def session_builder.simps
  by (intro frame_rules store_reads [OF C] store_writes [OF C])

lemma initiate_parameters_frame:
  assumes C: "store_context_atomic C view"
  shows "keeps (same_part (\<lambda>s. f (view s))) (initiate_parameters \<lparr>builder_store = C, builder_remote_address = a\<rparr> G state message)"
  unfolding initiate_parameters_def Let_def session_builder.simps
  by (intro frame_rules store_reads [OF C])

lemma key_exchange_frame:
  assumes C: "store_context_atomic C view"
  shows "keeps (same_part (\<lambda>s. outside a (view s)))
    (session_builder_process_key_exchange_message \<lparr>builder_store = C, builder_remote_address = a\<rparr> G message)"
  unfolding session_builder_process_key_exchange_message_def session_builder_process_initiate_def
    session_builder_process_response_def Let_def session_builder.simps
  by (intro frame_rules keeps_split store_reads [OF C] store_writes [OF C] initiate_parameters_frame [OF C])

lemma start_frame:
  assumes C: "store_context_atomic C view"
  shows "keeps (same_part (\<lambda>s. outside a (view s)))
    (session_builder_process \<lparr>builder_store = C, builder_remote_address = a\<rparr> G)"
proof -
  have "keeps (same_part (\<lambda>s. outside a (view s))) (start_key_exchange \<lparr>builder_store = C, builder_remote_address = a\<rparr> G)"
    unfolding start_key_exchange_def Let_def session_builder.simps
    by (intro frame_rules keeps_split store_reads [OF C] store_writes [OF C])
  then show ?thesis
    unfolding keeps_def session_builder_process_def by (auto split: prod.split sum.split) (metis snd_conv)+
qed

text \<open>The key agreement of a pre-key message reads only; the builder then saves the identity.\<close>

lemma pre_key_message_v3_frame:
  assumes C: "store_context_atomic C view"
  shows "keeps (same_part (\<lambda>s. f (view s))) (session_builder_process_pre_key_signal_message_v3
    \<lparr>builder_store = C, builder_remote_address = a\<rparr> G rec pm)"
  unfolding session_builder_process_pre_key_signal_message_v3_def load_one_time_pre_key_def Let_def session_builder.simps
  by (intro frame_rules store_reads [OF C])

lemma pre_key_message_frame:
  assumes C: "store_context_atomic C view"
    and f: "\<And>ik. keeps (same_part (\<lambda>s. f (view s))) (in_store (signal_protocol_identity_save_identity C a ik))"
  shows "keeps (same_part (\<lambda>s. f (view s))) (session_builder_process_pre_key_signal_message
    \<lparr>builder_store = C, builder_remote_address = a\<rparr> G rec pm)"
  unfolding session_builder_process_pre_key_signal_message_def Let_def session_builder.simps
  by (intro frame_rules store_reads [OF C] pre_key_message_v3_frame [OF C] f)

lemma remove_pre_key_view:
  assumes "store_context_atomic C view"
  shows "view (snd (signal_protocol_pre_key_remove_key C n s)) = view s \<or>
    view (snd (signal_protocol_pre_key_remove_key C n s)) = (view s)\<lparr>sv_pre_keys := (sv_pre_keys (view s))(n := None)\<rparr>"
  using atomic_writes(2) [OF assms, of n s] by (simp add: wrapper_snd)

text \<open>Decrypting a pre-key message may use up a one-time pre-key besides.\<close>

lemma decrypt_pre_key_frame:
  assumes C: "store_context_atomic C view" and cb: "cipher_decrypt_callback c = None"
  shows "keeps (same_part (\<lambda>s. (outside (cipher_remote_address c) (view s))\<lparr>sv_pre_keys := \<lambda>_. None\<rparr>))
    (session_cipher_decrypt_pre_key_signal_message C G c pm)" (is "keeps (same_part ?f) _")
proof -
  note writes = keeps_part [OF store_writes(1) [OF C], of "\<lambda>v. v\<lparr>sv_pre_keys := \<lambda>_. None\<rparr>"]
    keeps_part [OF store_writes(2) [OF C], of "\<lambda>v. v\<lparr>sv_pre_keys := \<lambda>_. None\<rparr>"]
  have "?f (snd (signal_protocol_pre_key_remove_key C n s)) = ?f s" for n s
    using remove_pre_key_view [OF C, of n s] by (auto simp: outside_def)
  then have rm: "keeps (same_part ?f) (in_store (signal_protocol_pre_key_remove_key C n))" for n
    by (rule part_in_store)
  have "keeps (same_part ?f) (in_store (session_cipher_decrypt_callback c p))" for p
    using cb by (intro read_only) (simp add: session_cipher_decrypt_callback_def)
  moreover have "keeps (same_part ?f) (case used of None \<Rightarrow> returning (Inr ())
      | Some n \<Rightarrow> in_store (signal_protocol_pre_key_remove_key C n))" for used
    using rm by (cases used) (auto intro: part.keeps_returning [where f = ?f])
  ultimately show ?thesis
    unfolding session_cipher_decrypt_pre_key_signal_message_def Let_def
    by (intro frame_rules keeps_split store_reads [OF C] writes pre_key_message_frame [OF C])
qed

section \<open>Refusals\<close>

lemma untrusted_bundle:
  assumes C: "store_context_of C view" and ik: "pkb_identity_key bundle = Some ik"
    and tr: "\<not> trusted (view (w_store w)) a (DJB_TYPE # pub_data ik)"
  shows "session_builder_process_pre_key_bundle \<lparr>builder_store = C, builder_remote_address = a\<rparr> G bundle w
    = (Inl SG_ERR_UNTRUSTED_IDENTITY, w)"
  using is_trusted_of [OF C, of a ik "w_store w"] tr ik
  by (simp add: session_builder_process_pre_key_bundle_def Let_def andthen_def in_store_def returning_def)

lemma unverified_bundle:
  assumes C: "store_context_of C view" and ik: "pkb_identity_key bundle = Some ik"
    and v: "verified_signed_pre_key G bundle = Inl e"
  shows "session_builder_process_pre_key_bundle \<lparr>builder_store = C, builder_remote_address = a\<rparr> G bundle w
    = (Inl (if trusted (view (w_store w)) a (DJB_TYPE # pub_data ik) then e else SG_ERR_UNTRUSTED_IDENTITY), w)"
  using is_trusted_of [OF C, of a ik "w_store w"] v ik
  by (simp add: session_builder_process_pre_key_bundle_def Let_def andthen_def in_store_def returning_def)

lemma missing_signed_pre_key:
  assumes C: "store_context_of C view" and rec: "holds_session (view (w_store w)) (cipher_remote_address c) rec"
    and idle: "\<not> cipher_inside_callback c"
    and tr: "trusted (view (w_store w)) (cipher_remote_address c) (DJB_TYPE # pub_data (pksm_identity_key pm))"
    and new: "session_record_has_session_state rec (ucast (pksm_version pm)) (Some (pksm_base_key pm)) = Inr False"
    and none: "sv_signed_pre_keys (view (w_store w)) (pksm_signed_pre_key_id pm) = None"
  shows "session_cipher_decrypt_pre_key_signal_message C G c pm w = (Inl SG_ERR_INVALID_KEY_ID, w)"
  using idle load_session_holds [OF C rec] tr new none is_trusted_of [OF C, of "cipher_remote_address c" "pksm_identity_key pm" "w_store w"]
    signed_pre_key_load_of [OF C, of "pksm_signed_pre_key_id pm" "w_store w"]
  by (simp add: session_cipher_decrypt_pre_key_signal_message_def session_builder_process_pre_key_signal_message_def
      session_builder_process_pre_key_signal_message_v3_def Let_def andthen_def in_store_def returning_def)

text \<open>
  A pre-key message that is refused: only the identity may have been saved, and when it is
  the removal of the one-time pre-key that fails, the session is stored already.
\<close>

lemma pre_key_message_used:
  assumes "session_builder_process_pre_key_signal_message b G rec pm w = (Inr (Some n, rec'), w')"
  shows "pksm_has_pre_key_id pm \<and> n = pksm_pre_key_id pm"
  using assms
  by (auto simp: session_builder_process_pre_key_signal_message_def session_builder_process_pre_key_signal_message_v3_def
      Let_def andthen_Inr returning_iff split: if_splits)

lemma store_session_stored:
  assumes C: "store_context_atomic C view"
    and run: "in_store (signal_protocol_session_store_session (session_store C) a rec) w = (x, w')"
  shows "x = Inl e \<Longrightarrow> view (w_store w') = view (w_store w)"
    "x = Inr () \<Longrightarrow> \<exists>d. view (w_store w') = (view (w_store w))\<lparr>sv_sessions := (sv_sessions (view (w_store w)))(a := Some d)\<rparr>"
proof -
  show "view (w_store w') = view (w_store w)" if "x = Inl e"
  proof (cases "session_record_serialize (Some rec)")
    case (Inr d)
    then show ?thesis
      using run that atomic_writes(1) [OF C, of a d "w_store w"]
      by (auto simp: in_store_iff signal_protocol_session_store_session_def status_result_def split: prod.splits if_splits)
  qed (use run that in \<open>auto simp: in_store_iff signal_protocol_session_store_session_def\<close>)
  show "\<exists>d. view (w_store w') = (view (w_store w))\<lparr>sv_sessions := (sv_sessions (view (w_store w)))(a := Some d)\<rparr>" if "x = Inr ()"
  proof (cases "session_record_serialize (Some rec)")
    case (Inr d)
    then show ?thesis
      using run that atomic_writes(1) [OF C, of a d "w_store w"]
      by (auto simp: in_store_iff signal_protocol_session_store_session_def status_result_def split: prod.splits if_splits)
  qed (use run that in \<open>auto simp: in_store_iff signal_protocol_session_store_session_def\<close>)
qed

lemma remove_pre_key_failed:
  assumes C: "store_context_atomic C view"
    and run: "in_store (signal_protocol_pre_key_remove_key C n) w = (Inl e, w')"
  obtains code where "remove_pre_key (pre_key_store C) n (w_store w) = (code, w_store w')" "code < 0"
    "e = sg_error_of_code code" "view (w_store w') = view (w_store w)"
  using run atomic_writes(2) [OF C, of n "w_store w"] that
  by (auto simp: in_store_iff signal_protocol_pre_key_remove_key_def status_result_def split: prod.splits if_splits)

lemma decrypt_pre_key_failure:
  assumes C: "store_context_atomic C view" and cb: "cipher_decrypt_callback c = None"
    and run: "session_cipher_decrypt_pre_key_signal_message C G c pm w = (Inl e, w')"
  shows "sv_pre_keys (view (w_store w')) = sv_pre_keys (view (w_store w)) \<and>
    (sv_sessions (view (w_store w')) = sv_sessions (view (w_store w)) \<or>
     (\<exists>d s code. sv_sessions (view (w_store w')) = (sv_sessions (view (w_store w)))(cipher_remote_address c := Some d) \<and>
        pksm_has_pre_key_id pm \<and> remove_pre_key (pre_key_store C) (pksm_pre_key_id pm) s = (code, w_store w') \<and>
        code < 0 \<and> e = sg_error_of_code code))"
    (is "?ok w'")
proof -
  let ?a = "cipher_remote_address c" and ?f = "\<lambda>v. (sv_sessions v, sv_pre_keys v)"
  let ?b = "\<lparr>builder_store = C, builder_remote_address = ?a\<rparr>"
  let ?same = "same_part (\<lambda>s. ?f (view s))"
  let ?load = "in_store (signal_protocol_session_load_session (session_store C) ?a)"
  let ?draw = "\<lambda>rec1. draw (session_cipher_decrypt_from_record_and_signal_message G rec1 (pksm_message pm))"
  let ?store = "\<lambda>rec2. in_store (signal_protocol_session_store_session (session_store C) ?a rec2)"
  let ?remove = "\<lambda>used. case used of None \<Rightarrow> returning (Inr ()) | Some n \<Rightarrow> in_store (signal_protocol_pre_key_remove_key C n)"
  have f: "keeps ?same (in_store (signal_protocol_identity_save_identity C ?a ik))" for ik
    using store_writes(3,4) [OF C, of ?a ik] by (simp add: keeps_def)
  have cbk: "andthen (in_store (session_cipher_decrypt_callback c p)) g = g ()" for p and g :: "unit \<Rightarrow> ('a, bytes) handler"
    using cb by (simp add: session_cipher_decrypt_callback_def andthen_def in_store_def fun_eq_iff)
  note load = keepsD [OF store_reads(1) [OF C, of ?f ?a]] and build = keepsD [OF pre_key_message_frame [OF C f, of G]]
    and drw = keepsD [OF part_draw [of "\<lambda>s. ?f (view s)"]]
  from run consider "w' = w" | "?load w = (Inl e, w')"
    | rec w1 where "?load w = (Inr rec, w1)" "session_builder_process_pre_key_signal_message ?b G rec pm w1 = (Inl e, w')"
    | rec w1 used rec1 w2 where "?load w = (Inr rec, w1)"
        "session_builder_process_pre_key_signal_message ?b G rec pm w1 = (Inr (used, rec1), w2)" "?draw rec1 w2 = (Inl e, w')"
    | rec w1 used rec1 w2 plain rec2 w3 where "?load w = (Inr rec, w1)"
        "session_builder_process_pre_key_signal_message ?b G rec pm w1 = (Inr (used, rec1), w2)"
        "?draw rec1 w2 = (Inr (plain, rec2), w3)" "?store rec2 w3 = (Inl e, w')"
    | rec w1 used rec1 w2 plain rec2 w3 w4 where "?load w = (Inr rec, w1)"
        "session_builder_process_pre_key_signal_message ?b G rec pm w1 = (Inr (used, rec1), w2)"
        "?draw rec1 w2 = (Inr (plain, rec2), w3)" "?store rec2 w3 = (Inr (), w4)" "?remove used w4 = (Inl e, w')"
    unfolding session_cipher_decrypt_pre_key_signal_message_def Let_def cbk
    by (auto simp: andthen_Inl returning_iff split: if_splits prod.splits)
  then show ?thesis
  proof cases
    case 2
    with load show ?thesis by simp
  next
    case 3
    from load [OF 3(1)] build [OF 3(2)] show ?thesis by simp
  next
    case 4
    from load [OF 4(1)] build [OF 4(2)] drw [OF 4(3)] show ?thesis by simp
  next
    case 5
    from load [OF 5(1)] build [OF 5(2)] drw [OF 5(3)] store_session_stored(1) [OF C 5(4) refl] show ?thesis by simp
  next
    case 6
    obtain n where n: "used = Some n" "in_store (signal_protocol_pre_key_remove_key C n) w4 = (Inl e, w')"
      using 6(5) by (cases used) (simp_all add: returning_def)
    obtain code where "remove_pre_key (pre_key_store C) n (w_store w4) = (code, w_store w')" "code < 0"
      "e = sg_error_of_code code" "view (w_store w') = view (w_store w4)" by (rule remove_pre_key_failed [OF C n(2)])
    moreover obtain d where "view (w_store w4) = (view (w_store w3))\<lparr>sv_sessions := (sv_sessions (view (w_store w3)))(?a := Some d)\<rparr>"
      using store_session_stored(2) [OF C 6(4) refl] by blast
    moreover have "pksm_has_pre_key_id pm \<and> n = pksm_pre_key_id pm"
      by (rule pre_key_message_used [OF 6(2) [unfolded n(1)]])
    moreover have "?f (view (w_store w3)) = ?f (view (w_store w))"
      using load [OF 6(1)] build [OF 6(2)] drw [OF 6(3)] by simp
    ultimately show ?thesis by auto
  qed simp
qed

text \<open>The same stores with a callback for removing pre-keys that always reports a failure.\<close>

definition failing_removal :: "int \<Rightarrow> 's signal_protocol_store_context \<Rightarrow> 's signal_protocol_store_context" where
  "failing_removal code C = C\<lparr>pre_key_store := (pre_key_store C)\<lparr>remove_pre_key := \<lambda>n s. (code, s)\<rparr>\<rparr>"

lemma failing_removal_fields [simp]:
  "session_store (failing_removal code C) = session_store C"
  "load_pre_key (pre_key_store (failing_removal code C)) = load_pre_key (pre_key_store C)"
  "remove_pre_key (pre_key_store (failing_removal code C)) = (\<lambda>n s. (code, s))"
  "signed_pre_key_store (failing_removal code C) = signed_pre_key_store C"
  "identity_key_store (failing_removal code C) = identity_key_store C"
  by (simp_all add: failing_removal_def)

lemma failing_removal_wrappers:
  "signal_protocol_pre_key_load_key (failing_removal code C) = signal_protocol_pre_key_load_key C"
  "signal_protocol_signed_pre_key_load_key (failing_removal code C) = signal_protocol_signed_pre_key_load_key C"
  "signal_protocol_identity_get_key_pair (failing_removal code C) = signal_protocol_identity_get_key_pair C"
  "signal_protocol_identity_get_local_registration_id (failing_removal code C) = signal_protocol_identity_get_local_registration_id C"
  "signal_protocol_identity_save_identity (failing_removal code C) = signal_protocol_identity_save_identity C"
  "signal_protocol_identity_is_trusted_identity (failing_removal code C) = signal_protocol_identity_is_trusted_identity C"
  unfolding fun_eq_iff signal_protocol_pre_key_load_key_def
      signal_protocol_signed_pre_key_load_key_def signal_protocol_identity_get_key_pair_def
      signal_protocol_identity_get_local_registration_id_def signal_protocol_identity_save_identity_def
      signal_protocol_identity_is_trusted_identity_def failing_removal_fields
  by simp_all

lemma failing_removal_build [simp]:
  "session_builder_process_pre_key_signal_message \<lparr>builder_store = failing_removal code C, builder_remote_address = a\<rparr>
     = session_builder_process_pre_key_signal_message \<lparr>builder_store = C, builder_remote_address = a\<rparr>"
  unfolding fun_eq_iff session_builder_process_pre_key_signal_message_def session_builder_process_pre_key_signal_message_v3_def
    load_one_time_pre_key_def Let_def session_builder.simps failing_removal_wrappers
  by simp

lemma failing_removal_remove [simp]:
  "code < 0 \<Longrightarrow> signal_protocol_pre_key_remove_key (failing_removal code C) n s = (Inl (sg_error_of_code code), s)"
  by (simp add: signal_protocol_pre_key_remove_key_def status_result_def)

lemma removal_failure_keeps_session:
  assumes C: "store_context_atomic C view" and cb: "cipher_decrypt_callback c = None"
    and run: "session_cipher_decrypt_pre_key_signal_message C G c pm w = (Inr p, w1)"
    and used: "sv_pre_keys (view (w_store w1)) \<noteq> sv_pre_keys (view (w_store w))" and code: "code < 0"
  shows "\<exists>w2. session_cipher_decrypt_pre_key_signal_message (failing_removal code C) G c pm w = (Inl (sg_error_of_code code), w2) \<and>
    sv_sessions (view (w_store w2)) = sv_sessions (view (w_store w1)) \<and>
    sv_pre_keys (view (w_store w2)) = sv_pre_keys (view (w_store w))"
proof -
  let ?a = "cipher_remote_address c"
  let ?b = "\<lparr>builder_store = C, builder_remote_address = ?a\<rparr>"
  have cbk: "andthen (in_store (session_cipher_decrypt_callback c p)) g = g ()" for p and g :: "unit \<Rightarrow> ('a, bytes) handler"
    using cb by (simp add: session_cipher_decrypt_callback_def andthen_def in_store_def fun_eq_iff)
  obtain rec w3 used rec1 w4 rec2 w5 w6 where idle: "\<not> cipher_inside_callback c"
    and steps: "in_store (signal_protocol_session_load_session (session_store C) ?a) w = (Inr rec, w3)"
      "session_builder_process_pre_key_signal_message ?b G rec pm w3 = (Inr (used, rec1), w4)"
      "draw (session_cipher_decrypt_from_record_and_signal_message G rec1 (pksm_message pm)) w4 = (Inr (p, rec2), w5)"
      "in_store (signal_protocol_session_store_session (session_store C) ?a rec2) w5 = (Inr (), w6)"
    and last: "(case used of None \<Rightarrow> returning (Inr ()) | Some n \<Rightarrow> in_store (signal_protocol_pre_key_remove_key C n)) w6 = (Inr (), w1)"
    using run unfolding session_cipher_decrypt_pre_key_signal_message_def Let_def cbk
    by (auto simp: andthen_Inr returning_iff split: if_splits prod.splits)
  have "keeps (same_part (\<lambda>s. sv_pre_keys (view s))) (session_builder_process_pre_key_signal_message ?b G rec pm)"
    by (rule pre_key_message_frame [OF C store_writes(4) [OF C]])
  note build = keepsD [OF this steps(2)]
  obtain d where "view (w_store w6) = (view (w_store w5))\<lparr>sv_sessions := (sv_sessions (view (w_store w5)))(?a := Some d)\<rparr>"
    using store_session_stored(2) [OF C steps(4) refl] by blast
  with keepsD [OF store_reads(1) [OF C, of sv_pre_keys ?a] steps(1)] build keepsD [OF part_draw [of "\<lambda>s. sv_pre_keys (view s)"] steps(3)]
  have same: "sv_pre_keys (view (w_store w6)) = sv_pre_keys (view (w_store w))" by simp
  with used last obtain n where n: "used = Some n" by (cases used) (auto simp: returning_iff)
  have "sv_sessions (view (w_store w1)) = sv_sessions (view (w_store w6))"
    using last n remove_pre_key_view [OF C, of n "w_store w6"] by (auto simp: in_store_def split: prod.splits)
  moreover have "session_cipher_decrypt_pre_key_signal_message (failing_removal code C) G c pm w = (Inl (sg_error_of_code code), w6)"
    using idle steps n code
    by (simp add: session_cipher_decrypt_pre_key_signal_message_def Let_def cbk andthen_step)
       (simp add: andthen_def in_store_def)
  ultimately show ?thesis using same by simp
qed

end
