(* ===== verification/Key_Exchange_Laws.thy ===== *)
theory Key_Exchange_Laws
  imports Session_Builder_Laws
begin

text \<open>
  Key exchange messages and the exchange that builds a session with them: the message as
  it travels, what is left of its buffer after parsing, and the three handlers from the
  start of an exchange to two sessions that can talk.
\<close>

section \<open>The message on the wire\<close>

lemma key_exchange_create_cases:
  assumes "key_exchange_message_create v n fl bk sig rk ik = Inr m"
  obtains body where
    "pb_serialize wke_desc (wke_to_pb \<lparr>wke_id = Some (push_bit 5 n OR fl), wke_basekey = Some (DJB_TYPE # pub_data bk),
       wke_ratchetkey = Some (DJB_TYPE # pub_data rk), wke_identitykey = Some (DJB_TYPE # pub_data ik),
       wke_basekeysignature = (if 3 \<le> v then Some (take CURVE_SIGNATURE_LEN sig) else None)\<rparr>) = Inr body"
    "CURVE_SIGNATURE_LEN \<le> length sig"
    "m = \<lparr>kem_version = v, kem_supported_version = CIPHERTEXT_CURRENT_VERSION, kem_sequence = n, kem_flags = fl,
       kem_base_key = bk, kem_base_key_signature = take CURVE_SIGNATURE_LEN sig, kem_ratchet_key = rk, kem_identity_key = ik,
       kem_serialized = \<lparr>buf_len = of_nat (Suc (length body)),
         buf_data = (push_bit 4 v OR CIPHERTEXT_CURRENT_VERSION) # body\<rparr>\<rparr>"
  using assms that
  by (auto simp: key_exchange_message_create_def key_exchange_message_serialize_def ec_public_key_serialize_protobuf_def
      result_simps not_less split: if_splits)

lemma key_exchange_create_total:
  assumes "CURVE_SIGNATURE_LEN \<le> length sig"
  shows "\<exists>m. key_exchange_message_create v n fl bk sig rk ik = Inr m"
  using assms by (simp add: key_exchange_message_create_def key_exchange_message_serialize_def
      ec_public_key_serialize_protobuf_def wke.serialize_ok)

text \<open>The sequence number and the flags share a word: 27 bits and five.\<close>

lemma sequence_and_flags:
  fixes n fl :: u32
  assumes "n < 2 ^ 27" "fl < 32"
  shows "drop_bit 5 (push_bit 5 n OR fl) = n" "(push_bit 5 n OR fl) AND 0x1F = fl"
proof -
  have fl: "fl = take_bit 5 fl" and n: "n = take_bit 27 n"
    using assms by (simp_all add: take_bit_eq_mod word_arith_nat_mod word_less_nat_alt unat_of_nat)
  have m: "(0x1F :: u32) = mask 5" by (simp add: mask_eq_exp_minus_1)
  show "drop_bit 5 (push_bit 5 n OR fl) = n"
    by (rule bit_word_eqI, subst (2) n, subst fl) (auto simp: bit_simps)
  show "(push_bit 5 n OR fl) AND 0x1F = fl"
    unfolding m by (rule bit_word_eqI, subst (2) fl) (auto simp: bit_simps)
qed

lemma key_exchange_length:
  assumes "key_exchange_message_create v n fl bk sig rk ik = Inr m" "pub_ok bk" "pub_ok rk" "pub_ok ik"
  shows "length (buf_data (kem_serialized m)) \<le> 200"
proof -
  let ?s = "\<lparr>wke_id = Some (push_bit 5 n OR fl), wke_basekey = Some (DJB_TYPE # pub_data bk),
       wke_ratchetkey = Some (DJB_TYPE # pub_data rk), wke_identitykey = Some (DJB_TYPE # pub_data ik),
       wke_basekeysignature = (if 3 \<le> v then Some (take CURVE_SIGNATURE_LEN sig) else None)\<rparr>"
  have "length (pb_pack wke_desc (wke_to_pb ?s)) \<le> 199"
    using assms(2-4) pb_bound_32 [of 1 "wke_id ?s"] pb_bound_bytes [of 2 33 "wke_basekey ?s"]
      pb_bound_bytes [of 3 33 "wke_ratchetkey ?s"] pb_bound_bytes [of 4 33 "wke_identitykey ?s"]
      pb_bound_bytes [of 5 64 "wke_basekeysignature ?s"]
    by (cases "3 \<le> v") (simp_all add: wke_desc_def wke_to_pb_def pub_ok_def word_less_nat_alt CURVE_SIGNATURE_LEN_def)
  with assms(1) show ?thesis by (rule_tac key_exchange_create_cases [OF assms(1)]) (auto simp: wke.serialize_ok)
qed

lemma key_exchange_roundtrip:
  assumes create: "key_exchange_message_create 3 n fl bk sig rk ik = Inr m"
    and keys: "pub_ok bk" "pub_ok rk" "pub_ok ik" and n: "n < 2 ^ 27" "fl < 32"
  shows "key_exchange_message_deserialize (buf_data (kem_serialized m))
    = Inr (m\<lparr>kem_serialized := overwritten_buffer (buf_data (kem_serialized m))\<rparr>)"
proof -
  obtain body where
    body: "pb_serialize wke_desc (wke_to_pb \<lparr>wke_id = Some (push_bit 5 n OR fl), wke_basekey = Some (DJB_TYPE # pub_data bk),
       wke_ratchetkey = Some (DJB_TYPE # pub_data rk), wke_identitykey = Some (DJB_TYPE # pub_data ik),
       wke_basekeysignature = Some (take CURVE_SIGNATURE_LEN sig)\<rparr>) = Inr body"
    and sig: "CURVE_SIGNATURE_LEN \<le> length sig"
    and m: "m = \<lparr>kem_version = 3, kem_supported_version = CIPHERTEXT_CURRENT_VERSION, kem_sequence = n, kem_flags = fl,
       kem_base_key = bk, kem_base_key_signature = take CURVE_SIGNATURE_LEN sig, kem_ratchet_key = rk, kem_identity_key = ik,
       kem_serialized = \<lparr>buf_len = of_nat (Suc (length body)),
         buf_data = (push_bit 4 3 OR CIPHERTEXT_CURRENT_VERSION) # body\<rparr>\<rparr>"
    by (rule key_exchange_create_cases [OF create]) simp
  have ne: "body \<noteq> []"
    using body [unfolded wke.serialize_ok]
    by (auto simp: wke_desc_def wke_to_pb_def pb_opt_def tag_pack_small word_less_nat_alt)
  have len: "length body < 2 ^ 31" using key_exchange_length [OF create keys] m by simp
  have ver: "version_of_byte (push_bit 4 3 OR CIPHERTEXT_CURRENT_VERSION) = 3"
    "(push_bit 4 3 OR CIPHERTEXT_CURRENT_VERSION) AND 0x0F = CIPHERTEXT_CURRENT_VERSION"
    by (simp_all add: version_of_byte_def CIPHERTEXT_CURRENT_VERSION_def)
  from wke.deserialize_serialize [OF body len] show ?thesis
    using ne ver sequence_and_flags [OF n] sig curve_decode_serialize [OF keys(1)] curve_decode_serialize [OF keys(2)]
      curve_decode_serialize [OF keys(3)]
    by (simp add: m key_exchange_message_deserialize_def Let_def CIPHERTEXT_CURRENT_VERSION_def)
qed

text \<open>The parsed message's buffer claims a length that is far beyond its bytes.\<close>

lemma uint32_pack_third: "(uint32_pack v @ [x, y]) ! 2 \<noteq> 0" if "x \<noteq> 0" "y \<noteq> 0"
proof -
  have top: "ucast (drop_bit 14 v) \<noteq> (0 :: u8)" if v: "0x80 \<le> drop_bit 7 v" "\<not> 0x80 \<le> drop_bit 14 v"
  proof
    assume "ucast (drop_bit 14 v) = (0 :: u8)"
    then have "unat (ucast (drop_bit 14 v) :: u8) = 0" by simp
    then have "unat (drop_bit 14 v) mod 256 = 0" unfolding unsigned_ucast_eq by (simp add: take_bit_eq_mod)
    with v(2) have "unat v div 2 ^ 14 = 0" by (simp add: word_le_nat_alt unat_drop_bit_eq drop_bit_eq_div unat_div)
    with v(1) show False by (simp add: word_le_nat_alt unat_drop_bit_eq drop_bit_eq_div unat_div)
  qed
  have high: "ucast (w OR 0x80) \<noteq> (0 :: u8)" for w :: u32
  proof
    assume "ucast (w OR 0x80) = (0 :: u8)"
    then have "bit (ucast (w OR 0x80) :: u8) 7 \<longleftrightarrow> False" by simp
    then show False by (simp add: bit_simps)
  qed
  show ?thesis using that top high by (auto simp: uint32_pack_def uint32_pack_from_numeral drop_bit_drop_bit)
qed

lemma wke_body_start:
  assumes "pb_serialize wke_desc (wke_to_pb \<lparr>wke_id = Some n, wke_basekey = Some (DJB_TYPE # pub_data bk),
       wke_ratchetkey = r, wke_identitykey = i, wke_basekeysignature = sig\<rparr>) = Inr body" "pub_ok bk"
  shows "\<exists>rest. body = 0x08 # uint32_pack n @ [0x12, 0x21] @ rest"
proof -
  have "uint32_pack 33 = [33]" by (simp add: uint32_pack_def uint32_pack_from_numeral)
  then show ?thesis
    using assms unfolding wke.serialize_ok
    by (auto simp: wke_desc_def wke_to_pb_def pb_opt_def tag_pack_small word_less_nat_alt pub_ok_def)
qed

lemma overwritten_length:
  assumes create: "key_exchange_message_create v n fl bk sig rk ik = Inr m" and k: "pub_ok bk"
  shows "2 ^ 32 \<le> buf_len (overwritten_buffer (buf_data (kem_serialized m)))"
proof -
  obtain body x where d: "buf_data (kem_serialized m) = x # body"
    and "\<exists>rest. body = 0x08 # uint32_pack (push_bit 5 n OR fl) @ [0x12, 0x21] @ rest"
    by (rule key_exchange_create_cases [OF create]) (use wke_body_start [OF _ k] in auto)
  then obtain rest where body: "body = 0x08 # uint32_pack (push_bit 5 n OR fl) @ [0x12, 0x21] @ rest" by blast
  let ?d = "buf_data (kem_serialized m)"
  have "?d ! 4 = (uint32_pack (push_bit 5 n OR fl) @ [0x12, 0x21]) ! 2"
    using uint32_pack_bounds(1) [of "push_bit 5 n OR fl"]
    by (cases "length (uint32_pack (push_bit 5 n OR fl))"; cases "length (uint32_pack (push_bit 5 n OR fl)) = 1")
       (auto simp: d body numeral_eq_Suc nth_append less_Suc_eq)
  then have "?d ! 4 \<noteq> 0" using uint32_pack_third [of "0x12" "0x21"] by simp
  then have pos: "0 < unat (?d ! 4)" by (simp add: unat_gt_0)
  have byte: "unat (?d ! i) < 256" for i using unsigned_less [of "?d ! i"] by simp
  have sum: "(\<Sum>i<8. unat (?d ! i) * 256 ^ i) = (\<Sum>i\<in>{..<8} - {4}. unat (?d ! i) * 256 ^ i) + unat (?d ! 4) * 256 ^ 4"
    by (subst sum.remove [of _ 4]) auto
  have "(\<Sum>i<k. unat (?d ! i) * 256 ^ i) < 256 ^ k" for k
  proof (induction k)
    case (Suc k)
    have "unat (?d ! k) * 256 ^ k \<le> 255 * 256 ^ k" using byte [of k] by simp
    with Suc.IH show ?case unfolding sum.lessThan_Suc power_Suc by linarith
  qed simp
  from this [of 8] have "(\<Sum>i<8. unat (?d ! i) * 256 ^ i) < 2 ^ 64" by simp
  moreover have "2 ^ 32 \<le> (\<Sum>i<8. unat (?d ! i) * 256 ^ i)" using pos unfolding sum by simp
  moreover have "2 ^ 32 \<le> (of_nat k :: u64)" if "k < 2 ^ 64" "2 ^ 32 \<le> k" for k
    using that by (simp add: word_le_nat_alt unat_of_nat)
  ultimately show ?thesis unfolding overwritten_buffer_def signal_buffer.simps by blast
qed

section \<open>The two sessions\<close>

lemma way_in_step:
  assumes way: "way G v A B ks net X Y" and can: "can_send v A B X" "can_send v B A Y"
    and ck: "sc_chain_key (ss_sender_chain X) = Some ck" "ck_index ck = 0"
    and rnd: "\<exists>pb. curve_generate_key_pair G r = (Inr pb, Suc r)"
  shows "\<exists>r'. in_step G v A B X Y r r'"
proof -
  obtain cs R i where w: "sends G v A B cs i X" "flight G v A B cs R i net" "knows G cs R X Y"
    using way by (auto simp: way_def)
  let ?k = "fst (hd cs)" and ?b = "snd (hd cs)"
  have hd: "hd cs \<in> set cs" "sender_on G ?b ?k v A B i X" "ck_ok v ?b" "pub_ok ?k" "ck_index ?b = 0"
    using w(1) by (auto simp: sends_def)
  have "i = 0" using hd(2) ck by (simp add: sender_on_def)
  moreover have "delivery_inv G ?b ?k (R ?k) Y" "0 \<notin> R ?k" if "session_state_find_receiver_chain Y ?k \<noteq> None"
    using w(2,3) hd(1) that \<open>i = 0\<close> by (auto simp: knows_def flight_def)
  moreover have "dh_linked G ?b X Y" if "session_state_find_receiver_chain Y ?k = None"
    using w(3) that by (simp add: knows_def)
  ultimately show ?thesis
    using can hd(2-5) rnd
    by (cases "session_state_find_receiver_chain Y ?k = None") (fastforce simp: in_step_def MAX_MESSAGE_KEYS_def)+
qed

lemma initialized_both_in_step:
  assumes dh: "curve25519_dh G" and hm: "hmac_sha256_of G hm" and rnd: "random_total G" and m: "matched_parameters G a b"
    and alice: "ratcheting_session_alice_initialize G session_state_create a r = (Inr sa, r')"
    and bob: "ratcheting_session_bob_initialize G session_state_create b = Inr sb"
  shows "\<exists>r1'. in_step G 3 (ik_public_key (ap_our_identity_key a)) (ik_public_key (bp_our_identity_key b)) sa sb r1 r1'"
    and "\<exists>r2'. in_step G 3 (ik_public_key (bp_our_identity_key b)) (ik_public_key (ap_our_identity_key a)) sb sa r2 r2'"
proof -
  let ?A = "ik_public_key (ap_our_identity_key a)" and ?B = "ik_public_key (bp_our_identity_key b)"
  obtain ka kb where "conv_inv G 3 (\<lambda>p. if p then ?A else ?B) (conv_start sa sb 0 0 ka kb)"
    using initialized_conversation [OF dh hm m alice bob] by blast
  then have c: "can_send 3 ?A ?B sa" "can_send 3 ?B ?A sb" "way G 3 ?A ?B [ka] [] sa sb" "way G 3 ?B ?A [kb] [] sb sa"
    by (simp_all add: conv_inv_both [of _ _ _ _ True] conv_start_def)
  obtain cka ckb where ck: "sc_chain_key (ss_sender_chain sa) = Some cka" "sc_chain_key (ss_sender_chain sb) = Some ckb"
    using c(1,2) by (auto simp: can_send_def)
  show "\<exists>r1'. in_step G 3 ?A ?B sa sb r1 r1'"
    by (rule way_in_step [OF c(3,1,2) ck(1) alice_chain_start [OF dh hm m alice ck(1)] curve_generate_key_pair_total [OF dh rnd]])
  show "\<exists>r2'. in_step G 3 ?B ?A sb sa r2 r2'"
    by (rule way_in_step [OF c(4,2,1) ck(2) bob_chain_start [OF hm bob ck(2)] curve_generate_key_pair_total [OF dh rnd]])
qed

lemma partners_sym: "symmetric_partners G p q \<Longrightarrow> symmetric_partners G q p"
  by (auto simp: symmetric_partners_def)

lemma symmetric_total:
  assumes dh: "curve25519_dh G" and hm: "hmac_sha256_of G hm" and rnd: "random_total G" and pq: "symmetric_partners G p q"
  shows "\<exists>sp r'. ratcheting_session_symmetric_initialize G session_state_create p r = (Inr sp, r') \<and>
    can_send 3 (ik_public_key (symp_our_identity_key p)) (ik_public_key (symp_our_identity_key q)) sp"
proof (cases "ratcheting_session_symmetric_is_alice p")
  case True
  from symmetric_roles [OF pq True] obtain a b where ab: "matched_parameters G a b"
    "ap_our_identity_key a = symp_our_identity_key p" "bp_our_identity_key b = symp_our_identity_key q"
    "\<And>st r. ratcheting_session_symmetric_initialize G st p r = ratcheting_session_alice_initialize G st a r" by blast
  obtain sa where "ratcheting_session_alice_initialize G session_state_create a r = (Inr sa, Suc r)"
    using alice_initialize_total [OF dh hm ab(1) curve_generate_key_pair_total [OF dh rnd]] by blast
  with alice_initialize_ready(1) [OF dh hm ab(1) this] ab show ?thesis by auto
next
  case False
  then have q: "ratcheting_session_symmetric_is_alice q" using symmetric_one_alice [OF pq] by blast
  from symmetric_roles [OF partners_sym [OF pq] q] obtain a b where ab: "matched_parameters G a b"
    "ap_our_identity_key a = symp_our_identity_key q" "bp_our_identity_key b = symp_our_identity_key p"
    "\<And>st r. ratcheting_session_symmetric_initialize G st p r = (ratcheting_session_bob_initialize G st b, r)" by blast
  obtain sb where "ratcheting_session_bob_initialize G session_state_create b = Inr sb"
    using bob_initialize_total [OF dh hm ab(1)] by blast
  with bob_initialize_ready(1) [OF dh hm ab(1) this] ab show ?thesis by auto
qed

lemma symmetric_in_step:
  assumes dh: "curve25519_dh G" and hm: "hmac_sha256_of G hm" and rnd: "random_total G" and pq: "symmetric_partners G p q"
    and p: "ratcheting_session_symmetric_initialize G session_state_create p rp = (Inr sp, rp')"
    and q: "ratcheting_session_symmetric_initialize G session_state_create q rq = (Inr sq, rq')"
  shows "\<exists>r'. in_step G 3 (ik_public_key (symp_our_identity_key p)) (ik_public_key (symp_our_identity_key q)) sp sq r r'"
proof (cases "ratcheting_session_symmetric_is_alice p")
  case True
  from symmetric_roles [OF pq True] obtain a b where ab: "matched_parameters G a b"
    "ap_our_identity_key a = symp_our_identity_key p" "bp_our_identity_key b = symp_our_identity_key q"
    "ratcheting_session_alice_initialize G session_state_create a rp = (Inr sp, rp')"
    "ratcheting_session_bob_initialize G session_state_create b = Inr sq"
    using p q by auto
  with initialized_both_in_step(1) [OF dh hm rnd ab(1,4,5)] show ?thesis by simp
next
  case False
  then have "ratcheting_session_symmetric_is_alice q" using symmetric_one_alice [OF pq] by blast
  from symmetric_roles [OF partners_sym [OF pq] this] obtain a b where ab: "matched_parameters G a b"
    "ap_our_identity_key a = symp_our_identity_key q" "bp_our_identity_key b = symp_our_identity_key p"
    "ratcheting_session_alice_initialize G session_state_create a rq = (Inr sq, rq')"
    "ratcheting_session_bob_initialize G session_state_create b = Inr sp"
    using p q by auto
  with initialized_both_in_step(2) [OF dh hm rnd ab(1,4,5)] show ?thesis by simp
qed

section \<open>The three steps of an exchange\<close>

text \<open>
  A message offers keys: it carries the public halves of key pairs and the identity that
  its sender holds, and the signature on the base key verifies.
\<close>

definition offers ::
  "signal_context \<Rightarrow> ratchet_identity_key_pair \<Rightarrow> ec_key_pair \<Rightarrow> ec_key_pair \<Rightarrow> key_exchange_message \<Rightarrow> bool" where
  "offers G i bk rk m \<longleftrightarrow>
     ik_ok G i \<and> key_pair_ok G bk \<and> key_pair_ok G rk \<and> kem_base_key m = kp_public_key bk \<and>
     kem_ratchet_key m = kp_public_key rk \<and> kem_identity_key m = ik_public_key i \<and> verified_base_key G m = Inr ()"

definition exchange_parameters ::
  "ratchet_identity_key_pair \<Rightarrow> ec_key_pair \<Rightarrow> ec_key_pair \<Rightarrow> key_exchange_message \<Rightarrow> symmetric_signal_protocol_parameters" where
  "exchange_parameters i bk rk m =
     \<lparr>symp_our_identity_key = i, symp_our_base_key = bk, symp_our_ratchet_key = rk, symp_their_base_key = kem_base_key m,
      symp_their_ratchet_key = kem_ratchet_key m, symp_their_identity_key = kem_identity_key m\<rparr>"

lemma offers_partners:
  assumes "offers G i bk rk m" "offers G j bk' rk' m'" "kp_public_key bk \<noteq> kp_public_key bk'"
  shows "symmetric_partners G (exchange_parameters i bk rk m') (exchange_parameters j bk' rk' m)"
  using assms by (simp add: symmetric_partners_def offers_def exchange_parameters_def)

lemma offer_created:
  assumes laws: "curve25519_signs G" "random_total G" and k: "ik_ok G i" "key_pair_ok G bk" "key_pair_ok G rk"
    and n: "n < 2 ^ 27" "fl < 32" and cl: "clamped (priv_data (ik_private_key i))"
  shows "\<exists>sig m m'. curve_calculate_signature G (ik_private_key i) (DJB_TYPE # pub_data (kp_public_key bk)) r = (Inr sig, Suc r) \<and>
    length sig = CURVE_SIGNATURE_LEN \<and>
    key_exchange_message_create 3 n fl (kp_public_key bk) sig (kp_public_key rk) (ik_public_key i) = Inr m \<and>
    key_exchange_message_deserialize (buf_data (kem_serialized m)) = Inr m' \<and>
    offers G i bk rk m' \<and> kem_sequence m' = n \<and> kem_flags m' = fl"
proof -
  let ?p = "ec_key_pair_create (ik_public_key i) (ik_private_key i)" and ?d = "DJB_TYPE # pub_data (kp_public_key bk)"
  have "signing_pair_ok G ?p"
    using k(1) cl by (simp add: ik_ok_def signing_pair_ok_def key_pair_ok_def ec_key_pair_create_def)
  from curve_calculate_signature_total [OF laws this, of ?d r] obtain sig where
    sig: "curve_calculate_signature G (ik_private_key i) ?d r = (Inr sig, Suc r)" "length sig = CURVE_SIGNATURE_LEN"
      "curve_verify_signature G (ik_public_key i) ?d sig = Inr True"
    by (auto simp: ec_key_pair_create_def CURVE_SIGNATURE_LEN_def)
  obtain m where m: "key_exchange_message_create 3 n fl (kp_public_key bk) sig (kp_public_key rk) (ik_public_key i) = Inr m"
    using key_exchange_create_total [OF eq_refl [OF sig(2) [symmetric]]] by blast
  have keys: "pub_ok (kp_public_key bk)" "pub_ok (kp_public_key rk)" "pub_ok (ik_public_key i)"
    using key_pair_okD [OF k(2)] key_pair_okD [OF k(3)] ik_okD [OF k(1)] by auto
  have f: "kem_base_key m = kp_public_key bk" "kem_ratchet_key m = kp_public_key rk" "kem_identity_key m = ik_public_key i"
    "kem_sequence m = n" "kem_flags m = fl" "kem_base_key_signature m = sig"
    by (rule key_exchange_create_cases [OF m], simp add: sig(2))+
  let ?m' = "m\<lparr>kem_serialized := overwritten_buffer (buf_data (kem_serialized m))\<rparr>"
  have "offers G i bk rk ?m'"
    using k f sig(3) by (simp add: offers_def verified_base_key_def ec_public_key_serialize_def)
  with sig(1,2) m key_exchange_roundtrip [OF m keys n] f show ?thesis
    by (intro exI [of _ sig] exI [of _ m] exI [of _ ?m']) simp
qed

lemma start_exchange:
  assumes laws: "curve25519_dh G" "curve25519_signs G" "random_total G"
    and C: "store_context_of C view" and rec: "holds_session (view s) a rec" "sr_state rec = Some st"
    and me: "sv_identity_key_pair (view s) = identity_bytes i" "ik_ok G i" "clamped (priv_data (ik_private_key i))"
  shows "\<exists>m m' s' n bk rk. session_builder_process \<lparr>builder_store = C, builder_remote_address = a\<rparr> G
      \<lparr>w_store = s, w_rng = r\<rparr> = (Inr m, \<lparr>w_store = s', w_rng = r + 4\<rparr>) \<and>
    key_exchange_message_deserialize (buf_data (kem_serialized m)) = Inr m' \<and> offers G i bk rk m' \<and>
    kem_sequence m' = n \<and> n < 2 ^ 27 \<and> kem_flags m' = KEY_EXCHANGE_INITIATE_FLAG \<and>
    curve_generate_key_pair G (Suc r) = (Inr bk, Suc (Suc r)) \<and>
    holds_session (view s') a ((session_record_set_state rec (session_state_set_pending_key_exchange n bk rk i st))
      \<lparr>sr_is_fresh := False\<rparr>) \<and>
    sv_identities (view s') = sv_identities (view s)"
proof -
  obtain d where d: "signal_crypto_random G 4 r = (Inr d, Suc r)" using signal_crypto_random_total [OF laws(3)] by blast
  let ?v = "uint (random_u32 d AND 0x7FFFFFFF) mod 65534" and ?n = "of_int (uint (random_u32 d AND 0x7FFFFFFF) mod 65534) + 1 :: u32"
  have rv: "signal_protocol_key_helper_get_random_sequence G 65534 r = (Inr ?v, Suc r)"
    by (simp add: signal_protocol_key_helper_get_random_sequence_def d)
  have n: "?n < 2 ^ 27"
  proof -
    have "(of_int v + 1 :: u32) < 2 ^ 27" if "0 \<le> v" "v < 65534" for v
      using that by (simp add: word_less_def uint_word_ariths uint_word_of_int)
    then show ?thesis by simp
  qed
  obtain bk where bk: "curve_generate_key_pair G (Suc r) = (Inr bk, Suc (Suc r))"
    using curve_generate_key_pair_total [OF laws(1,3)] by blast
  obtain rk where rk: "curve_generate_key_pair G (Suc (Suc r)) = (Inr rk, Suc (Suc (Suc r)))"
    using curve_generate_key_pair_total [OF laws(1,3)] by blast
  note ok = curve_generate_key_pair_ok [OF laws(1) bk] curve_generate_key_pair_ok [OF laws(1) rk]
  obtain sig m m' where m:
    "curve_calculate_signature G (ik_private_key i) (DJB_TYPE # pub_data (kp_public_key bk)) (Suc (Suc (Suc r)))
       = (Inr sig, Suc (Suc (Suc (Suc r))))" "length sig = CURVE_SIGNATURE_LEN"
    "key_exchange_message_create 3 ?n KEY_EXCHANGE_INITIATE_FLAG (kp_public_key bk) sig (kp_public_key rk) (ik_public_key i) = Inr m"
    "key_exchange_message_deserialize (buf_data (kem_serialized m)) = Inr m'"
    "offers G i bk rk m'" "kem_sequence m' = ?n" "kem_flags m' = KEY_EXCHANGE_INITIATE_FLAG"
    using offer_created [OF laws(2,3) me(2) ok n _ me(3), of KEY_EXCHANGE_INITIATE_FLAG "Suc (Suc (Suc r))"]
    by (auto simp: KEY_EXCHANGE_INITIATE_FLAG_def)
  let ?st = "session_state_set_pending_key_exchange ?n bk rk i st"
  have "ss_ok ?st"
    using rec key_pair_okD [OF ok(1)] key_pair_okD [OF ok(2)] ik_okD [OF me(2)]
    by (intro ss_ok_intros) (auto simp: holds_session_def sr_ok_def kp_ok_def)
  then have "sr_ok (session_record_set_state rec ?st)" using rec(1) by (intro sr_ok_set_state) (simp_all add: holds_session_def)
  from store_session_holds [OF C this, of a s] obtain s' d' where
    s': "signal_protocol_session_store_session (session_store C) a (session_record_set_state rec ?st) s = (Inr (), s')"
      "view s' = (view s)\<lparr>sv_sessions := (sv_sessions (view s))(a := Some d')\<rparr>"
      "holds_session (view s') a ((session_record_set_state rec ?st)\<lparr>sr_is_fresh := False\<rparr>)" by blast
  have "session_builder_process \<lparr>builder_store = C, builder_remote_address = a\<rparr> G \<lparr>w_store = s, w_rng = r\<rparr>
      = (Inr m, \<lparr>w_store = s', w_rng = Suc (Suc (Suc (Suc r)))\<rparr>)"
    using rv bk rk identity_key_pair_of [OF C me(1)] ik_okD [OF me(2)] m(1-3) load_session_holds [OF C rec(1)] rec(2) s'(1)
    by (simp add: session_builder_process_def start_key_exchange_def Let_def andthen_def draw_def in_store_def returning_def
        ec_public_key_serialize_def session_record_get_state_def CIPHERTEXT_CURRENT_VERSION_def)
  with m(4-7) n bk s'(2,3) show ?thesis
    by (intro exI [of _ m] exI [of _ m'] exI [of _ s'] exI [of _ ?n] exI [of _ bk] exI [of _ rk]) (simp add: eval_nat_numeral)
qed

lemma new_session_stored:
  assumes C: "store_context_of C view" and rec: "holds_session v a rec" and ok: "ss_ok st"
  shows "\<exists>s' d. signal_protocol_session_store_session (session_store C) a
      (session_record_set_state (record_for_new_session rec) st) s = (Inr (), s') \<and>
    view s' = (view s)\<lparr>sv_sessions := (sv_sessions (view s))(a := Some d)\<rparr> \<and>
    holds_session (view s') a ((session_record_set_state (record_for_new_session rec) st)\<lparr>sr_is_fresh := False\<rparr>)"
  using store_session_holds [OF C sr_ok_set_state [OF record_for_new_session_holds(2) [OF rec] ok]] by blast

lemma answer_exchange:
  assumes laws: "curve25519_dh G" "hmac_sha256_of G hm" "curve25519_signs G" "random_total G"
    and C: "store_context_of C view" and rec: "holds_session (view s) a rec" "sr_state rec = Some st"
      "\<not> ss_has_pending_key_exchange st"
    and me: "sv_identity_key_pair (view s) = identity_bytes j" "ik_ok G j" "clamped (priv_data (ik_private_key j))"
    and tr: "trusted (view s) a (DJB_TYPE # pub_data (ik_public_key i))"
    and m: "offers G i bk rk m" "kem_sequence m = n" "n < 2 ^ 27" "kem_flags m = KEY_EXCHANGE_INITIATE_FLAG"
    and new: "\<And>bk'. curve_generate_key_pair G r = (Inr bk', Suc r) \<Longrightarrow> kp_public_key bk \<noteq> kp_public_key bk'"
  shows "\<exists>m2 m2' s' r' r1 bk' rk' sb rec'. session_builder_process_key_exchange_message
      \<lparr>builder_store = C, builder_remote_address = a\<rparr> G m \<lparr>w_store = s, w_rng = r\<rparr> = (Inr (Some m2), \<lparr>w_store = s', w_rng = r'\<rparr>) \<and>
    key_exchange_message_deserialize (buf_data (kem_serialized m2)) = Inr m2' \<and> offers G j bk' rk' m2' \<and>
    kem_sequence m2' = n \<and> kem_flags m2' = KEY_EXCHANGE_RESPONSE_FLAG \<and> kp_public_key bk \<noteq> kp_public_key bk' \<and>
    (\<exists>r2. ratcheting_session_symmetric_initialize G session_state_create (exchange_parameters j bk' rk' m) r1 = (Inr sb, r2)) \<and>
    holds_session (view s') a rec' \<and> sr_state rec' = Some sb \<and> \<not> sr_is_fresh rec'"
proof -
  obtain bk' where bk': "curve_generate_key_pair G r = (Inr bk', Suc r)" using curve_generate_key_pair_total [OF laws(1,4)] by blast
  obtain rk' where rk': "curve_generate_key_pair G (Suc r) = (Inr rk', Suc (Suc r))"
    using curve_generate_key_pair_total [OF laws(1,4)] by blast
  note ok = curve_generate_key_pair_ok [OF laws(1) bk'] curve_generate_key_pair_ok [OF laws(1) rk']
  let ?p = "exchange_parameters j bk' rk' m" and ?f = KEY_EXCHANGE_RESPONSE_FLAG
  have f: "?f < 32" by (simp add: KEY_EXCHANGE_RESPONSE_FLAG_def)
  obtain x where x: "offers G j bk' rk' x" "symmetric_partners G ?p (exchange_parameters i bk rk x)"
    using offer_created [OF laws(3,4) me(2) ok m(3) f me(3)] offers_partners [OF _ m(1)] new [OF bk'] by metis
  obtain sb r2 where sb: "ratcheting_session_symmetric_initialize G session_state_create ?p (Suc (Suc r)) = (Inr sb, r2)"
      "can_send 3 (ik_public_key j) (ik_public_key i) sb"
    using symmetric_total [OF laws(1,2,4) x(2)] by (fastforce simp: exchange_parameters_def)
  obtain sig m2 m2' where m2:
    "curve_calculate_signature G (ik_private_key j) (DJB_TYPE # pub_data (kp_public_key bk')) r2 = (Inr sig, Suc r2)"
    "key_exchange_message_create 3 n ?f (kp_public_key bk') sig (kp_public_key rk') (ik_public_key j) = Inr m2"
    "key_exchange_message_deserialize (buf_data (kem_serialized m2)) = Inr m2'"
    "offers G j bk' rk' m2'" "kem_sequence m2' = n" "kem_flags m2' = ?f"
    using offer_created [OF laws(3,4) me(2) ok m(3) f me(3), of r2] by blast
  let ?rec = "(session_record_set_state (record_for_new_session rec) sb)\<lparr>sr_is_fresh := False\<rparr>"
  have sbo: "ss_ok sb" "ss_session_version sb = 3" using sb(2) by (simp_all add: can_send_def)
  obtain s1 d where s1: "signal_protocol_session_store_session (session_store C) a
      (session_record_set_state (record_for_new_session rec) sb) s = (Inr (), s1)" "holds_session (view s1) a ?rec"
    using new_session_stored [OF C rec(1) sbo(1)] by blast
  obtain s2 where s2: "signal_protocol_identity_save_identity C a (Some (ik_public_key i)) s1 = (Inr (), s2)"
    "view s2 = (view s1)\<lparr>sv_identities := (sv_identities (view s1))(a := Some (DJB_TYPE # pub_data (ik_public_key i)))\<rparr>"
    using save_identity_of [OF C] by blast
  have mi: "kem_identity_key m = ik_public_key i" "verified_base_key G m = Inr ()" using m(1) by (simp_all add: offers_def)
  have init: "key_exchange_message_is_initiate m"
    by (simp add: key_exchange_message_is_initiate_def m(4) KEY_EXCHANGE_INITIATE_FLAG_def)
  have par: "initiate_parameters \<lparr>builder_store = C, builder_remote_address = a\<rparr> G st m \<lparr>w_store = s, w_rng = r\<rparr>
      = (Inr (?p, ?f), \<lparr>w_store = s, w_rng = Suc (Suc r)\<rparr>)"
    using rec(3) bk' rk' identity_key_pair_of [OF C me(1)] ik_okD [OF me(2)]
    by (simp add: initiate_parameters_def andthen_def in_store_def draw_def returning_def exchange_parameters_def
        symmetric_signal_protocol_parameters_create_def)
  have pf: "symp_our_base_key ?p = bk'" "symp_our_identity_key ?p = j" "symp_our_ratchet_key ?p = rk'"
    by (simp_all add: exchange_parameters_def)
  have "session_builder_process_initiate \<lparr>builder_store = C, builder_remote_address = a\<rparr> G m \<lparr>w_store = s, w_rng = r\<rparr>
      = (Inr m2, \<lparr>w_store = s2, w_rng = Suc r2\<rparr>)"
    using load_session_holds [OF C rec(1)] rec(2) mi par sb(1) record_for_new_session_holds(1) [OF rec(1)] s1(1) s2(1) m2(1,2) sbo(2) m(2)
    by (simp add: session_builder_process_initiate_def Let_def andthen_def in_store_def draw_def returning_def
        session_record_get_state_def ec_public_key_serialize_def pf)
  then have "session_builder_process_key_exchange_message \<lparr>builder_store = C, builder_remote_address = a\<rparr> G m
      \<lparr>w_store = s, w_rng = r\<rparr> = (Inr (Some m2), \<lparr>w_store = s2, w_rng = Suc r2\<rparr>)"
    using init tr mi(1) is_trusted_of [OF C, of a "ik_public_key i" s]
    by (simp add: session_builder_process_key_exchange_message_def andthen_def in_store_def returning_def)
  moreover have "holds_session (view s2) a ?rec" using s1(2) by (simp add: s2(2) holds_session_def)
  ultimately show ?thesis using m2(3-6) new [OF bk'] sb(1) set_state_record by blast
qed

text \<open>
  The response: the new session is stored, then the signature is looked at.  If it does not
  verify, the stored session stays.
\<close>

lemma process_response:
  assumes C: "store_context_of C view"
    and rec: "holds_session (view s) a rec" "sr_state rec = Some (session_state_set_pending_key_exchange n bk rk i st)"
    and tr: "trusted (view s) a (DJB_TYPE # pub_data (kem_identity_key m))"
    and m: "kem_sequence m = n" "kem_flags m = KEY_EXCHANGE_RESPONSE_FLAG"
    and sa: "ratcheting_session_symmetric_initialize G session_state_create (exchange_parameters i bk rk m) r = (Inr sa, r')"
      "ss_ok sa" "ss_session_version sa = 3"
  shows "\<exists>s' rec'. session_builder_process_key_exchange_message \<lparr>builder_store = C, builder_remote_address = a\<rparr> G m
      \<lparr>w_store = s, w_rng = r\<rparr> = (case verified_base_key G m of Inl e \<Rightarrow> Inl e | Inr _ \<Rightarrow> Inr None, \<lparr>w_store = s', w_rng = r'\<rparr>) \<and>
    holds_session (view s') a rec' \<and> sr_state rec' = Some sa \<and> \<not> sr_is_fresh rec'"
proof -
  let ?rec = "(session_record_set_state (record_for_new_session rec) sa)\<lparr>sr_is_fresh := False\<rparr>"
  obtain s1 d where s1: "signal_protocol_session_store_session (session_store C) a
      (session_record_set_state (record_for_new_session rec) sa) s = (Inr (), s1)" "holds_session (view s1) a ?rec"
    using new_session_stored [OF C rec(1) sa(2)] by blast
  obtain s2 d where s2: "signal_protocol_session_store_session (session_store C) a
      (session_record_set_state (record_for_new_session rec) sa) s1 = (Inr (), s2)" "holds_session (view s2) a ?rec"
    using new_session_stored [OF C rec(1) sa(2)] by blast
  obtain s3 where s3: "signal_protocol_identity_save_identity C a (Some (kem_identity_key m)) s2 = (Inr (), s3)"
    "view s3 = (view s2)\<lparr>sv_identities := (sv_identities (view s2))(a := Some (DJB_TYPE # pub_data (kem_identity_key m)))\<rparr>"
    using save_identity_of [OF C] by blast
  have s3': "holds_session (view s3) a ?rec" using s2(2) by (simp add: s3(2) holds_session_def)
  have par: "symmetric_signal_protocol_parameters_create (Some i) (Some bk) (Some rk) (Some (kem_base_key m))
      (Some (kem_ratchet_key m)) (Some (kem_identity_key m)) = Inr (exchange_parameters i bk rk m)"
    by (simp add: symmetric_signal_protocol_parameters_create_def exchange_parameters_def)
  have "session_builder_process_response \<lparr>builder_store = C, builder_remote_address = a\<rparr> G m \<lparr>w_store = s, w_rng = r\<rparr>
      = (case verified_base_key G m of Inl e \<Rightarrow> (Inl e, \<lparr>w_store = s1, w_rng = r'\<rparr>) | Inr _ \<Rightarrow> (Inr (), \<lparr>w_store = s3, w_rng = r'\<rparr>))"
    using load_session_holds [OF C rec(1)] rec(2) m(1) par sa record_for_new_session_holds(1) [OF rec(1)] s1(1) s2(1) s3(1)
    by (simp add: session_builder_process_response_def Let_def andthen_def in_store_def draw_def returning_def
        session_record_get_state_def session_state_set_pending_key_exchange_def session_state_get_pending_key_exchange_sequence_def
        session_state_get_pending_key_exchange_identity_key_def session_state_get_pending_key_exchange_base_key_def
        session_state_get_pending_key_exchange_ratchet_key_def split: sum.split)
  moreover have "\<not> key_exchange_message_is_initiate m"
    by (simp add: key_exchange_message_is_initiate_def m(2) KEY_EXCHANGE_INITIATE_FLAG_def KEY_EXCHANGE_RESPONSE_FLAG_def)
  ultimately have "session_builder_process_key_exchange_message \<lparr>builder_store = C, builder_remote_address = a\<rparr> G m
      \<lparr>w_store = s, w_rng = r\<rparr> = (case verified_base_key G m of Inl e \<Rightarrow> (Inl e, \<lparr>w_store = s1, w_rng = r'\<rparr>)
      | Inr _ \<Rightarrow> (Inr None, \<lparr>w_store = s3, w_rng = r'\<rparr>))"
    using tr is_trusted_of [OF C, of a "kem_identity_key m" s]
    by (simp add: session_builder_process_key_exchange_message_def andthen_def in_store_def returning_def split: sum.split)
  note run = this
  have "sr_state ?rec = Some sa" "\<not> sr_is_fresh ?rec" by simp_all
  with run s1(2) s3' show ?thesis
    by (intro exI [of _ "if isl (verified_base_key G m) then s1 else s3"] exI [of _ ?rec]) (auto split: sum.split)
qed

section \<open>The whole exchange\<close>

lemma key_exchange_sessions:
  assumes laws: "curve25519_dh G" "hmac_sha256_of G hm" "cipher_inverse G" "curve25519_signs G" "random_total G"
    and CA: "store_context_of CA viewA" "holds_session (viewA sA) (cipher_remote_address ca) recA"
      "trusted (viewA sA) (cipher_remote_address ca) (DJB_TYPE # pub_data (ik_public_key j))"
      "sv_identity_key_pair (viewA sA) = identity_bytes i" "ik_ok G i" "clamped (priv_data (ik_private_key i))"
    and CB: "store_context_of CB viewB" "holds_session (viewB sB) (cipher_remote_address cb) recB"
      "trusted (viewB sB) (cipher_remote_address cb) (DJB_TYPE # pub_data (ik_public_key i))"
      "sv_identity_key_pair (viewB sB) = identity_bytes j" "ik_ok G j"
      "\<And>st. sr_state recB = Some st \<Longrightarrow> \<not> ss_has_pending_key_exchange st" "clamped (priv_data (ik_private_key j))"
    and new: "\<And>bk bk'. \<lbrakk>curve_generate_key_pair G (Suc ra) = (Inr bk, Suc (Suc ra));
      curve_generate_key_pair G rb = (Inr bk', Suc rb)\<rbrakk> \<Longrightarrow> kp_public_key bk \<noteq> kp_public_key bk'"
    and idle: "\<not> cipher_inside_callback ca" "cipher_decrypt_callback ca = None"
      "\<not> cipher_inside_callback cb" "cipher_decrypt_callback cb = None"
  shows "\<exists>m1 m1' wa1 m2 m2' wb1 wa2.
    session_builder_process \<lparr>builder_store = CA, builder_remote_address = cipher_remote_address ca\<rparr> G
      \<lparr>w_store = sA, w_rng = ra\<rparr> = (Inr m1, wa1) \<and>
    key_exchange_message_deserialize (buf_data (kem_serialized m1)) = Inr m1' \<and>
    session_builder_process_key_exchange_message \<lparr>builder_store = CB, builder_remote_address = cipher_remote_address cb\<rparr> G m1'
      \<lparr>w_store = sB, w_rng = rb\<rparr> = (Inr (Some m2), wb1) \<and>
    key_exchange_message_deserialize (buf_data (kem_serialized m2)) = Inr m2' \<and>
    session_builder_process_key_exchange_message \<lparr>builder_store = CA, builder_remote_address = cipher_remote_address ca\<rparr> G m2'
      wa1 = (Inr None, wa2) \<and>
    (\<forall>p. \<exists>em wa3 wb2. session_cipher_encrypt (session_store CA) G ca p wa2 = (Inr em, wa3) \<and>
      session_cipher_decrypt_signal_message (session_store CB) G cb (signal_part em) wb1 = (Inr p, wb2)) \<and>
    (\<forall>q. \<exists>em wb3 wa4. session_cipher_encrypt (session_store CB) G cb q wb1 = (Inr em, wb3) \<and>
      session_cipher_decrypt_signal_message (session_store CA) G ca (signal_part em) wa2 = (Inr q, wa4))"
proof -
  let ?a = "cipher_remote_address ca" and ?b = "cipher_remote_address cb" and ?A = "ik_public_key i" and ?B = "ik_public_key j"
  obtain stA stB where st: "sr_state recA = Some stA" "sr_state recB = Some stB"
    using CA(2) CB(2) by (auto simp: holds_session_def sr_ok_def)
  obtain m1 m1' sA1 n bk rk where A1: "session_builder_process \<lparr>builder_store = CA, builder_remote_address = ?a\<rparr> G
      \<lparr>w_store = sA, w_rng = ra\<rparr> = (Inr m1, \<lparr>w_store = sA1, w_rng = ra + 4\<rparr>)"
      "key_exchange_message_deserialize (buf_data (kem_serialized m1)) = Inr m1'"
    and m1: "offers G i bk rk m1'" "kem_sequence m1' = n" "n < 2 ^ 27" "kem_flags m1' = KEY_EXCHANGE_INITIATE_FLAG"
    and bk: "curve_generate_key_pair G (Suc ra) = (Inr bk, Suc (Suc ra))"
    and hA1: "holds_session (viewA sA1) ?a ((session_record_set_state recA (session_state_set_pending_key_exchange n bk rk i stA))
      \<lparr>sr_is_fresh := False\<rparr>)" "sv_identities (viewA sA1) = sv_identities (viewA sA)"
    using start_exchange [OF laws(1,4,5) CA(1,2) st(1) CA(4,5,6)] by blast
  obtain m2 m2' sB1 rb1 r1 bk' rk' sb recB1 where
    B1: "session_builder_process_key_exchange_message \<lparr>builder_store = CB, builder_remote_address = ?b\<rparr> G m1'
      \<lparr>w_store = sB, w_rng = rb\<rparr> = (Inr (Some m2), \<lparr>w_store = sB1, w_rng = rb1\<rparr>)"
      "key_exchange_message_deserialize (buf_data (kem_serialized m2)) = Inr m2'"
    and m2: "offers G j bk' rk' m2'" "kem_sequence m2' = n" "kem_flags m2' = KEY_EXCHANGE_RESPONSE_FLAG"
      "kp_public_key bk \<noteq> kp_public_key bk'"
    and sb: "\<exists>r2. ratcheting_session_symmetric_initialize G session_state_create (exchange_parameters j bk' rk' m1') r1 = (Inr sb, r2)"
    and hB1: "holds_session (viewB sB1) ?b recB1" "sr_state recB1 = Some sb" "\<not> sr_is_fresh recB1"
    using answer_exchange [OF laws(1,2,4,5) CB(1,2) st(2) CB(6) [OF st(2)] CB(4,5,7,3) m1, where r = rb] new [OF bk] by blast
  let ?p = "exchange_parameters i bk rk m2'" and ?q = "exchange_parameters j bk' rk' m1'"
  have pq: "symmetric_partners G ?p ?q" by (rule offers_partners [OF m1(1) m2(1,4)])
  have ids: "symp_our_identity_key ?p = i" "symp_our_identity_key ?q = j" by (simp_all add: exchange_parameters_def)
  obtain sa r2 where sa: "ratcheting_session_symmetric_initialize G session_state_create ?p (ra + 4) = (Inr sa, r2)"
      "can_send 3 ?A ?B sa"
    using symmetric_total [OF laws(1,2,5) pq, of "ra + 4"] unfolding ids by blast
  have ok: "ss_ok sa" "ss_session_version sa = 3" using sa(2) by (simp_all add: can_send_def)
  have m2i: "kem_identity_key m2' = ?B" "verified_base_key G m2' = Inr ()" using m2(1) by (simp_all add: offers_def)
  have tr: "trusted (viewA sA1) ?a (DJB_TYPE # pub_data (kem_identity_key m2'))"
    using CA(3) hA1(2) m2i(1) by (simp add: trusted_def)
  obtain sA2 recA2 where A2: "session_builder_process_key_exchange_message \<lparr>builder_store = CA, builder_remote_address = ?a\<rparr> G m2'
      \<lparr>w_store = sA1, w_rng = ra + 4\<rparr> = (Inr None, \<lparr>w_store = sA2, w_rng = r2\<rparr>)"
    and hA2: "holds_session (viewA sA2) ?a recA2" "sr_state recA2 = Some sa" "\<not> sr_is_fresh recA2"
    using process_response [OF CA(1) hA1(1) set_state_record(1) tr m2(2,3) sa(1) ok] m2i(2) by auto
  have recs: "holds_record (session_store CA) (sv_sessions \<circ> viewA) ?a recA2 (w_store \<lparr>w_store = sA2, w_rng = r2\<rparr>)"
    "holds_record (session_store CB) (sv_sessions \<circ> viewB) ?b recB1 (w_store \<lparr>w_store = sB1, w_rng = rb1\<rparr>)"
    using holds_session_record [OF CA(1) hA2(1,3)] holds_session_record [OF CB(1) hB1(1,3)] by simp_all
  obtain r3 where "in_step G 3 ?A ?B sa sb (w_rng \<lparr>w_store = sB1, w_rng = rb1\<rparr>) r3"
    using symmetric_in_step [OF laws(1,2,5) pq sa(1)] sb unfolding ids by blast
  then have ab: "\<forall>p. \<exists>em wa3 wb2. session_cipher_encrypt (session_store CA) G ca p \<lparr>w_store = sA2, w_rng = r2\<rparr> = (Inr em, wa3) \<and>
      session_cipher_decrypt_signal_message (session_store CB) G cb (signal_part em) \<lparr>w_store = sB1, w_rng = rb1\<rparr> = (Inr p, wb2)"
    using handlers_deliver [OF laws(2,3,1) recs(1) hA2(2) idle(1) recs(2) hB1(2) idle(3,4)] by blast
  obtain r4 where "in_step G 3 ?B ?A sb sa (w_rng \<lparr>w_store = sA2, w_rng = r2\<rparr>) r4"
    using symmetric_in_step [OF laws(1,2,5) partners_sym [OF pq] _ sa(1)] sb unfolding ids by blast
  then have ba: "\<forall>q. \<exists>em wb3 wa4. session_cipher_encrypt (session_store CB) G cb q \<lparr>w_store = sB1, w_rng = rb1\<rparr> = (Inr em, wb3) \<and>
      session_cipher_decrypt_signal_message (session_store CA) G ca (signal_part em) \<lparr>w_store = sA2, w_rng = r2\<rparr> = (Inr q, wa4)"
    using handlers_deliver [OF laws(2,3,1) recs(2) hB1(2) idle(3) recs(1) hA2(2) idle(1,2)] by blast
  from A1 B1 A2 ab ba show ?thesis by blast
qed

end
