(* ===== verification/Builder_Properties.thy ===== *)
theory Builder_Properties
  imports Group_Properties Builder_Safety Key_Exchange_Laws
begin

text \<open>
  The properties of sessions that are built from pre-keys or by a key exchange, with sample
  stores on both sides.
\<close>

section \<open>Sample stores\<close>

text \<open>The application's state is the contents of the stores itself.\<close>

definition sample_store_context :: "store_view signal_protocol_store_context" where
  "sample_store_context =
     \<lparr>session_store =
        \<lparr>load_session_func = \<lambda>a s. ((case sv_sessions s a of None \<Rightarrow> (0, None) | Some d \<Rightarrow> (1, Some d)), s),
         get_sub_device_sessions_func = \<lambda>nm s. ((0, []), s),
         store_session_func = \<lambda>a d s. (0, s\<lparr>sv_sessions := (sv_sessions s)(a := Some d)\<rparr>),
         contains_session_func = \<lambda>a s. ((case sv_sessions s a of None \<Rightarrow> 0 | Some _ \<Rightarrow> 1), s),
         delete_session_func = \<lambda>a s. (1, s\<lparr>sv_sessions := (sv_sessions s)(a := None)\<rparr>),
         delete_all_sessions_func = \<lambda>nm s. (0, s\<lparr>sv_sessions := \<lambda>a. if addr_name a = nm then None else sv_sessions s a\<rparr>)\<rparr>,
      pre_key_store =
        \<lparr>load_pre_key = \<lambda>n s. (key_lookup (sv_pre_keys s n), s),
         store_pre_key = \<lambda>n d s. (0, s\<lparr>sv_pre_keys := (sv_pre_keys s)(n := Some d)\<rparr>),
         contains_pre_key = \<lambda>n s. ((case sv_pre_keys s n of None \<Rightarrow> 0 | Some _ \<Rightarrow> 1), s),
         remove_pre_key = \<lambda>n s. (0, s\<lparr>sv_pre_keys := (sv_pre_keys s)(n := None)\<rparr>)\<rparr>,
      signed_pre_key_store =
        \<lparr>load_signed_pre_key = \<lambda>n s. (key_lookup (sv_signed_pre_keys s n), s),
         store_signed_pre_key = \<lambda>n d s. (0, s\<lparr>sv_signed_pre_keys := (sv_signed_pre_keys s)(n := Some d)\<rparr>),
         contains_signed_pre_key = \<lambda>n s. ((case sv_signed_pre_keys s n of None \<Rightarrow> 0 | Some _ \<Rightarrow> 1), s),
         remove_signed_pre_key = \<lambda>n s. (0, s\<lparr>sv_signed_pre_keys := (sv_signed_pre_keys s)(n := None)\<rparr>)\<rparr>,
      identity_key_store =
        \<lparr>get_identity_key_pair = \<lambda>s. ((0, Some (fst (sv_identity_key_pair s)), Some (snd (sv_identity_key_pair s))), s),
         get_local_registration_id = \<lambda>s. ((0, sv_registration_id s), s),
         save_identity = \<lambda>a d s. (0, s\<lparr>sv_identities := (sv_identities s)(a := d)\<rparr>),
         is_trusted_identity = \<lambda>a d s. ((if trusted s a d then 1 else 0), s)\<rparr>\<rparr>"

lemma sample_store_context_ok: "store_context_of sample_store_context (\<lambda>s. s)"
  by (simp add: store_context_of_def sample_store_context_def session_store_of_def)

definition sample_view :: "nat \<Rightarrow> store_view" where
  "sample_view n = \<lparr>sv_sessions = \<lambda>_. None, sv_pre_keys = \<lambda>_. None, sv_signed_pre_keys = \<lambda>_. None,
     sv_identity_key_pair = identity_bytes (sample_identity n), sv_registration_id = of_nat n, sv_identities = \<lambda>_. None\<rparr>"

lemma sample_view_holds: "holds_session (sample_view n) a (session_record_create None)"
  by (simp add: holds_session_def sample_view_def sr_ok_create)

definition sample_pre_key :: session_pre_key where
  "sample_pre_key = \<lparr>pk_id = 9, pk_key_pair = sample_pair 5\<rparr>"

definition sample_signed_pre_key :: session_signed_pre_key where
  "sample_signed_pre_key = \<lparr>spk_key_id = 7, spk_key_pair = sample_pair 4, spk_key_timestamp = 100,
     spk_key_signature = pub_data (kp_public_key (sample_pair 3)) @ pub_data (kp_public_key (sample_pair 3))\<rparr>"

definition sample_bundle :: session_pre_key_bundle where
  "sample_bundle = \<lparr>pkb_registration_id = 3, pkb_device_id = 1, pkb_pre_key_id = 9,
     pkb_pre_key_public = Some (kp_public_key (sample_pair 5)), pkb_signed_pre_key_id = 7,
     pkb_signed_pre_key_public = Some (kp_public_key (sample_pair 4)),
     pkb_signed_pre_key_signature = Some (spk_key_signature sample_signed_pre_key),
     pkb_identity_key = Some (ik_public_key (sample_identity 3))\<rparr>"

text \<open>The publisher's store after its keys have been stored.\<close>

definition sample_published :: store_view where
  "sample_published = snd (signal_protocol_signed_pre_key_store_key sample_store_context sample_signed_pre_key
     (snd (signal_protocol_pre_key_store_key sample_store_context sample_pre_key (sample_view 3))))"

lemma sample_published_ok:
  "published sample_context sample_published (sample_identity 3) sample_signed_pre_key (Some sample_pre_key) sample_bundle"
proof -
  have ok: "kp_ok (sample_pair n)" for n using key_pair_okD [OF sample_pair_ok, of n] by (simp add: kp_ok_def)
  have sig: "length (pub_data (kp_public_key (sample_pair n))) = 32" for n
    using key_pair_okD [OF sample_pair_ok, of n] by (simp add: pub_ok_def)
  obtain s1 where s1: "signal_protocol_pre_key_store_key sample_store_context sample_pre_key (sample_view 3) = (Inr (), s1)"
    "signal_protocol_pre_key_load_key sample_store_context 9 s1 = (Inr sample_pre_key, s1)"
    using pre_key_stored [OF sample_store_context_ok, of sample_pre_key "sample_view 3"] ok
    by (auto simp: sample_pre_key_def)
  obtain s2 where s2: "signal_protocol_signed_pre_key_store_key sample_store_context sample_signed_pre_key s1 = (Inr (), s2)"
    "signal_protocol_signed_pre_key_load_key sample_store_context 7 s2 = (Inr sample_signed_pre_key, s2)"
    using signed_pre_key_stored [OF sample_store_context_ok, of sample_signed_pre_key s1] ok sig
    by (auto simp: sample_signed_pre_key_def)
  have v: "sample_published = s2" by (simp add: sample_published_def s1(1) s2(1))
  have same: "sv_pre_keys s2 = sv_pre_keys s1" "sv_identity_key_pair s2 = identity_bytes (sample_identity 3)"
    using s1(1) s2(1)
    by (auto simp: signal_protocol_signed_pre_key_store_key_def signal_protocol_pre_key_store_key_def
        sample_store_context_def sample_view_def split: sum.splits)
  have pk: "\<exists>d. sv_pre_keys s2 9 = Some d \<and> session_pre_key_deserialize d = Inr sample_pre_key"
    using s1(2) same(1) by (simp add: pre_key_load_of [OF sample_store_context_ok] split: option.splits)
  have sp: "\<exists>d. sv_signed_pre_keys s2 7 = Some d \<and> session_signed_pre_key_deserialize d = Inr sample_signed_pre_key"
    using s2(2) by (simp add: signed_pre_key_load_of [OF sample_store_context_ok] split: option.splits)
  have "curve25519_verify sample_context (spk_key_signature sample_signed_pre_key) (pub_data (kp_public_key (sample_pair 3))) m = 0" for m
    by (simp add: sample_context_def sample_signed_pre_key_def sig)
  then show ?thesis
    using sample_pair_ok sample_identity_ok pk sp same(2) sig
    by (simp add: published_def v sample_bundle_def) (simp add: sample_signed_pre_key_def sample_pre_key_def sample_identity_def)
qed

definition sample_session_cipher :: "store_view session_cipher" where
  "sample_session_cipher =
     \<lparr>cipher_remote_address = sample_address, cipher_decrypt_callback = None, cipher_inside_callback = False\<rparr>"

lemma sample_session_cipher_fields:
  "cipher_remote_address sample_session_cipher = sample_address" "cipher_decrypt_callback sample_session_cipher = None"
  "\<not> cipher_inside_callback sample_session_cipher"
  by (simp_all add: sample_session_cipher_def)

lemma sample_published_fields:
  "sv_sessions sample_published = (\<lambda>_. None)" "sv_identities sample_published = (\<lambda>_. None)"
  "sv_signed_pre_keys sample_published 8 = None"
  by (auto simp: sample_published_def signal_protocol_signed_pre_key_store_key_def signal_protocol_pre_key_store_key_def
      sample_store_context_def sample_view_def sample_signed_pre_key_def split: sum.split)

lemma fresh_record_has_no_state: "session_record_has_session_state (session_record_create None) 3 k = Inr False"
  by (simp add: session_record_has_session_state_def session_record_create_def state_matches_def session_state_create_def)

text \<open>What the sample worlds satisfy of the hypotheses below, in the order in which they stand there.\<close>

lemma sample_bundle_fresh:
  "curve_generate_key_pair sample_context 50 = (Inr pb, Suc 50) \<Longrightarrow> kp_public_key pb \<noteq> kp_public_key (spk_key_pair sample_signed_pre_key)"
proof -
  assume pb: "curve_generate_key_pair sample_context 50 = (Inr pb, Suc 50)"
  have "kp_public_key (projr (fst (curve_generate_key_pair sample_context 50))) \<noteq> kp_public_key (sample_pair 4)"
    by code_simp
  with pb show ?thesis by (simp add: sample_signed_pre_key_def)
qed

lemma sample_bundle_sides:
  "holds_session sample_published a (session_record_create None)" "trusted (sample_view n) a d" "trusted sample_published a d"
  "sv_identity_key_pair (sample_view n) = identity_bytes (sample_identity n)"
  "used_pre_key (Some sample_pre_key) = Some 9"
  by (simp_all add: holds_session_def sample_published_fields sr_ok_create trusted_def sample_view_def used_pre_key_def
      sample_pre_key_def PRE_KEY_MEDIUM_MAX_VALUE_def)

lemma sample_bundle_session:
  "\<exists>pm wb1. session_cipher_decrypt_pre_key_signal_message sample_store_context sample_context sample_session_cipher pm
      \<lparr>w_store = sample_published, w_rng = 50\<rparr> = (Inr [42], wb1) \<and>
    sv_pre_keys (w_store wb1) = (sv_pre_keys sample_published)(9 := None)"
  using session_from_bundle [OF sample_hmac_ok sample_cipher_ok sample_dh_ok sample_random_total
      sample_store_context_ok sample_view_holds sample_bundle_sides(2,4) sample_identity_ok sample_store_context_ok
      sample_bundle_sides(1,3) sample_published_ok fresh_record_has_no_state sample_bundle_fresh
      sample_session_cipher_fields(3,2) sample_session_cipher_fields(3,2), where ra = 20 and p = "[42]"]
  unfolding sample_bundle_sides(5) sample_session_cipher_fields(1) option.case by metis

section \<open>Sessions from bundles\<close>

text \<open>
  C4. A session can be started with a published bundle and nothing else.  When the
  publisher's stores hold the keys that a bundle advertises, the bundle's signature verifies
  and both sides trust each other's identity, \<^verbatim>\<open>session_builder_process_pre_key_bundle\<close>
  succeeds, \<^verbatim>\<open>session_cipher_encrypt\<close> then yields a pre-key message that survives
  serialisation, \<^verbatim>\<open>session_cipher_decrypt_pre_key_signal_message\<close> on the publisher's side
  returns the plaintext, uses up the one-time pre-key and saves the sender's identity, and
  whatever the publisher then encrypts is decrypted by the first party.
\<close>

theorem pre_key_session_established:
  assumes hm: "hmac_sha256_of G hm" and inv: "cipher_inverse G" and dh: "curve25519_dh G" and rnd: "random_total G"
    and CA: "store_context_of CA viewA" "holds_session (viewA sA) (cipher_remote_address ca) recA"
      "trusted (viewA sA) (cipher_remote_address ca) (DJB_TYPE # pub_data (ik_public_key j))"
      "sv_identity_key_pair (viewA sA) = identity_bytes i" "ik_ok G i"
    and CB: "store_context_of CB viewB" "holds_session (viewB sB) (cipher_remote_address cb) recB"
      "trusted (viewB sB) (cipher_remote_address cb) (DJB_TYPE # pub_data (ik_public_key i))"
      "published G (viewB sB) j sp op bundle"
    and new: "\<And>bp. curve_generate_key_pair G ra = (Inr bp, Suc ra) \<Longrightarrow>
      session_record_has_session_state recB 3 (Some (kp_public_key bp)) = Inr False"
    and fresh: "\<And>pb. curve_generate_key_pair G rb = (Inr pb, Suc rb) \<Longrightarrow> kp_public_key pb \<noteq> kp_public_key (spk_key_pair sp)"
    and idle: "\<not> cipher_inside_callback ca" "cipher_decrypt_callback ca = None"
      "\<not> cipher_inside_callback cb" "cipher_decrypt_callback cb = None"
  shows "\<exists>wa1 pm wa2 wb1.
    session_builder_process_pre_key_bundle \<lparr>builder_store = CA, builder_remote_address = cipher_remote_address ca\<rparr> G bundle
      \<lparr>w_store = sA, w_rng = ra\<rparr> = (Inr (), wa1) \<and>
    session_cipher_encrypt (session_store CA) G ca p wa1 = (Inr (CIPHERTEXT_PREKEY pm), wa2) \<and>
    (length (sm_serialized (pksm_message pm)) < 2 ^ 30 \<longrightarrow> pre_key_signal_message_deserialize (pksm_serialized pm) = Inr pm) \<and>
    session_cipher_decrypt_pre_key_signal_message CB G cb pm \<lparr>w_store = sB, w_rng = rb\<rparr> = (Inr p, wb1) \<and>
    sv_pre_keys (viewB (w_store wb1)) = (case used_pre_key op of None \<Rightarrow> sv_pre_keys (viewB sB)
      | Some n \<Rightarrow> (sv_pre_keys (viewB sB))(n := None)) \<and>
    sv_identities (viewB (w_store wb1)) (cipher_remote_address cb) = Some (DJB_TYPE # pub_data (ik_public_key i)) \<and>
    (\<forall>q. \<exists>em wb2 wa3. session_cipher_encrypt (session_store CB) G cb q wb1 = (Inr em, wb2) \<and>
      session_cipher_decrypt_signal_message (session_store CA) G ca (signal_part em) wa2 = (Inr q, wa3))"
  using assms by (rule session_from_bundle)

theorem pre_key_session_established_witness:
  "\<exists>wa1 pm wa2 wb1 em wb2 wa3.
    session_builder_process_pre_key_bundle \<lparr>builder_store = sample_store_context, builder_remote_address = sample_address\<rparr>
      sample_context sample_bundle \<lparr>w_store = sample_view 1, w_rng = 20\<rparr> = (Inr (), wa1) \<and>
    session_cipher_encrypt (session_store sample_store_context) sample_context sample_session_cipher [42] wa1
      = (Inr (CIPHERTEXT_PREKEY pm), wa2) \<and>
    session_cipher_decrypt_pre_key_signal_message sample_store_context sample_context sample_session_cipher pm
      \<lparr>w_store = sample_published, w_rng = 50\<rparr> = (Inr [42], wb1) \<and>
    sv_pre_keys (w_store wb1) 9 = None \<and>
    session_cipher_encrypt (session_store sample_store_context) sample_context sample_session_cipher [43] wb1 = (Inr em, wb2) \<and>
    session_cipher_decrypt_signal_message (session_store sample_store_context) sample_context sample_session_cipher
      (signal_part em) wa2 = (Inr [43], wa3)"
proof -
  obtain wa1 pm wa2 wb1 where run: "session_builder_process_pre_key_bundle
      \<lparr>builder_store = sample_store_context, builder_remote_address = sample_address\<rparr>
      sample_context sample_bundle \<lparr>w_store = sample_view 1, w_rng = 20\<rparr> = (Inr (), wa1)"
    "session_cipher_encrypt (session_store sample_store_context) sample_context sample_session_cipher [42] wa1
      = (Inr (CIPHERTEXT_PREKEY pm), wa2)"
    "session_cipher_decrypt_pre_key_signal_message sample_store_context sample_context sample_session_cipher pm
      \<lparr>w_store = sample_published, w_rng = 50\<rparr> = (Inr [42], wb1)"
    "sv_pre_keys (w_store wb1) = (sv_pre_keys sample_published)(9 := None)"
    and reply: "\<And>q. \<exists>em wb2 wa3. session_cipher_encrypt (session_store sample_store_context) sample_context
        sample_session_cipher q wb1 = (Inr em, wb2) \<and>
      session_cipher_decrypt_signal_message (session_store sample_store_context) sample_context sample_session_cipher
        (signal_part em) wa2 = (Inr q, wa3)"
    using pre_key_session_established [OF sample_hmac_ok sample_cipher_ok sample_dh_ok sample_random_total
        sample_store_context_ok sample_view_holds sample_bundle_sides(2,4) sample_identity_ok sample_store_context_ok
        sample_bundle_sides(1,3) sample_published_ok fresh_record_has_no_state sample_bundle_fresh
        sample_session_cipher_fields(3,2) sample_session_cipher_fields(3,2), where ra = 20 and p = "[42]"]
    unfolding sample_bundle_sides(5) sample_session_cipher_fields(1) option.case by metis
  from run reply [of "[43]"] show ?thesis by auto
qed

section \<open>What the builder refuses and leaves alone\<close>

text \<open>
  C21. A bundle is taken only from a trusted identity that signed it.  If the store does not
  trust the bundle's identity key, \<^verbatim>\<open>session_builder_process_pre_key_bundle\<close> returns
  \<^verbatim>\<open>SG_ERR_UNTRUSTED_IDENTITY\<close>, whatever else the bundle holds.  If it does, a bundle with no
  signed pre-key is refused with \<^verbatim>\<open>SG_ERR_INVALID_KEY\<close>, a signature that is not 64 bytes long
  with \<^verbatim>\<open>SG_ERR_INVAL\<close>, and one of 64 bytes that does not verify with \<^verbatim>\<open>SG_ERR_INVALID_KEY\<close>; in
  each case the stores and the random source are as before.  A signed pre-key that comes with
  no signature at all makes the code read through a null pointer.  So a bundle that is
  accepted has a trusted identity and a signed pre-key with a signature of that identity.
\<close>

theorem bundle_is_authenticated:
  fixes C :: "'s signal_protocol_store_context"
  assumes C: "store_context_of C view" and ik: "pkb_identity_key bundle = Some ik"
    and run: "run = session_builder_process_pre_key_bundle \<lparr>builder_store = C, builder_remote_address = a\<rparr> G bundle w"
  shows "(\<not> trusted (view (w_store w)) a (DJB_TYPE # pub_data ik) \<longrightarrow> run = (Inl SG_ERR_UNTRUSTED_IDENTITY, w)) \<and>
    (trusted (view (w_store w)) a (DJB_TYPE # pub_data ik) \<longrightarrow>
      (pkb_signed_pre_key_public bundle = None \<longrightarrow> run = (Inl SG_ERR_INVALID_KEY, w)) \<and>
      (\<forall>k sig. pkb_signed_pre_key_public bundle = Some k \<and> pkb_signed_pre_key_signature bundle = Some sig \<longrightarrow>
        (length sig \<noteq> CURVE_SIGNATURE_LEN \<longrightarrow> run = (Inl SG_ERR_INVAL, w)) \<and>
        (length sig = CURVE_SIGNATURE_LEN \<and> curve25519_verify G sig (pub_data ik) (DJB_TYPE # pub_data k) \<noteq> 0 \<longrightarrow>
          run = (Inl SG_ERR_INVALID_KEY, w))) \<and>
      (\<forall>k. pkb_signed_pre_key_public bundle = Some k \<and> pkb_signed_pre_key_signature bundle = None \<longrightarrow>
        run = (Inl C_UNDEFINED, w))) \<and>
    (fst run = Inr () \<longrightarrow> trusted (view (w_store w)) a (DJB_TYPE # pub_data ik) \<and>
      (\<exists>k sig. pkb_signed_pre_key_public bundle = Some k \<and> pkb_signed_pre_key_signature bundle = Some sig \<and>
        length sig = CURVE_SIGNATURE_LEN \<and> curve25519_verify G sig (pub_data ik) (DJB_TYPE # pub_data k) = 0))"
proof -
  let ?v = "verified_signed_pre_key G bundle" and ?tr = "trusted (view (w_store w)) a (DJB_TYPE # pub_data ik)"
  have refused: "run = (Inl (if ?tr then e else SG_ERR_UNTRUSTED_IDENTITY), w)" if "?v = Inl e" for e
    unfolding run by (rule unverified_bundle [OF C ik that])
  have untrusted: "run = (Inl SG_ERR_UNTRUSTED_IDENTITY, w)" if "\<not> ?tr" unfolding run by (rule untrusted_bundle [OF C ik that])
  have none: "?v = Inl SG_ERR_INVALID_KEY" if "pkb_signed_pre_key_public bundle = None"
    using that by (simp add: verified_signed_pre_key_def)
  have unsigned: "?v = Inl C_UNDEFINED" if "pkb_signed_pre_key_public bundle = Some k" "pkb_signed_pre_key_signature bundle = None" for k
    using that ik by (simp add: verified_signed_pre_key_def ec_public_key_serialize_def)
  have sig: "?v = (if length sig \<noteq> CURVE_SIGNATURE_LEN then Inl SG_ERR_INVAL
      else if curve25519_verify G sig (pub_data ik) (DJB_TYPE # pub_data k) = 0 then Inr k else Inl SG_ERR_INVALID_KEY)"
    if "pkb_signed_pre_key_public bundle = Some k" "pkb_signed_pre_key_signature bundle = Some sig" for k sig
    using that ik
    by (simp add: verified_signed_pre_key_def ec_public_key_serialize_def curve_verify_signature_def CURVE_SIGNATURE_LEN_def)
  have "?tr \<and> (\<exists>k. ?v = Inr k)" if "fst run = Inr ()"
    using that refused untrusted by (cases ?tr; cases ?v) auto
  then have accepted: "?tr \<and> (\<exists>k sig. pkb_signed_pre_key_public bundle = Some k \<and> pkb_signed_pre_key_signature bundle = Some sig \<and>
      length sig = CURVE_SIGNATURE_LEN \<and> curve25519_verify G sig (pub_data ik) (DJB_TYPE # pub_data k) = 0)" if "fst run = Inr ()"
    using that none unsigned sig
    by (cases "pkb_signed_pre_key_public bundle"; cases "pkb_signed_pre_key_signature bundle") (auto split: if_splits)
  show ?thesis using untrusted refused [OF none] refused [OF unsigned] refused sig accepted by simp
qed

theorem bundle_is_authenticated_witness:
  "session_builder_process_pre_key_bundle \<lparr>builder_store = sample_store_context, builder_remote_address = sample_address\<rparr>
      sample_context (sample_bundle\<lparr>pkb_signed_pre_key_signature := Some (replicate 64 0)\<rparr>)
      \<lparr>w_store = sample_view 1, w_rng = 20\<rparr> = (Inl SG_ERR_INVALID_KEY, \<lparr>w_store = sample_view 1, w_rng = 20\<rparr>) \<and>
   session_builder_process_pre_key_bundle \<lparr>builder_store = sample_store_context, builder_remote_address = sample_address\<rparr>
      sample_context (sample_bundle\<lparr>pkb_signed_pre_key_signature := Some [0]\<rparr>)
      \<lparr>w_store = sample_view 1, w_rng = 20\<rparr> = (Inl SG_ERR_INVAL, \<lparr>w_store = sample_view 1, w_rng = 20\<rparr>) \<and>
   session_builder_process_pre_key_bundle \<lparr>builder_store = sample_store_context, builder_remote_address = sample_address\<rparr>
      sample_context (sample_bundle\<lparr>pkb_signed_pre_key_public := None, pkb_signed_pre_key_signature := None\<rparr>)
      \<lparr>w_store = sample_view 1, w_rng = 20\<rparr> = (Inl SG_ERR_INVALID_KEY, \<lparr>w_store = sample_view 1, w_rng = 20\<rparr>)"
proof -
  let ?b = "sample_bundle\<lparr>pkb_signed_pre_key_signature := Some (replicate 64 0)\<rparr>"
  let ?b' = "sample_bundle\<lparr>pkb_signed_pre_key_signature := Some [0]\<rparr>"
  let ?b'' = "sample_bundle\<lparr>pkb_signed_pre_key_public := None, pkb_signed_pre_key_signature := None\<rparr>"
  let ?ik = "ik_public_key (sample_identity 3)"
  have "replicate 64 0 \<noteq> take 64 (pub_data (kp_public_key (sample_pair 3)) @ pub_data (kp_public_key (sample_pair 3)))"
    by code_simp
  then have bad: "curve25519_verify sample_context (replicate 64 0) (pub_data ?ik) m \<noteq> 0" for m
    by (simp add: sample_context_def sample_identity_def)
  have ik: "pkb_identity_key ?b = Some ?ik" "pkb_identity_key ?b' = Some ?ik" "pkb_identity_key ?b'' = Some ?ik"
    by (simp_all add: sample_bundle_def)
  have tr: "trusted (w_store \<lparr>w_store = sample_view 1, w_rng = 20\<rparr>) sample_address d" for d by (simp add: trusted_def sample_view_def)
  note run = bundle_is_authenticated [OF sample_store_context_ok _ refl, where w = "\<lparr>w_store = sample_view 1, w_rng = 20\<rparr>"
    and a = sample_address and G = sample_context]
  show ?thesis using run [OF ik(1)] run [OF ik(2)] run [OF ik(3)] bad tr
    by (simp add: sample_bundle_def CURVE_SIGNATURE_LEN_def)
qed

text \<open>
  C10. Whatever the outcome, and whichever store callback reports a failure, the session builder writes to the session and the identity of
  the one contact it was made for: processing a bundle or a key exchange message, starting
  a key exchange and decrypting a pre-key message leave the sessions and identities of every
  other contact, the signed pre-keys and the device's own identity as they were, and only
  the last of them touches the one-time pre-keys.
\<close>

theorem builder_touches_one_contact:
  assumes C: "store_context_atomic C view" and cb: "cipher_decrypt_callback c = None"
    and b: "builder = \<lparr>builder_store = C, builder_remote_address = cipher_remote_address c\<rparr>"
  shows "confined (cipher_remote_address c) (view (w_store w))
      (view (w_store (snd (session_builder_process_pre_key_bundle builder G offer w)))) \<and>
    confined (cipher_remote_address c) (view (w_store w))
      (view (w_store (snd (session_builder_process_key_exchange_message builder G kem w)))) \<and>
    confined (cipher_remote_address c) (view (w_store w))
      (view (w_store (snd (session_builder_process builder G w)))) \<and>
    (let v = view (w_store (snd (session_cipher_decrypt_pre_key_signal_message C G c pm w))) in
      confined (cipher_remote_address c) ((view (w_store w))\<lparr>sv_pre_keys := sv_pre_keys v\<rparr>) v)"
proof -
  let ?a = "cipher_remote_address c" and ?v = "view (w_store w)"
  have "outside ?a (view (w_store (snd (session_builder_process_pre_key_bundle builder G offer w)))) = outside ?a ?v"
    using bundle_frame [OF C, of ?a G offer] by (simp add: keeps_def b)
  moreover have "outside ?a (view (w_store (snd (session_builder_process_key_exchange_message builder G kem w)))) = outside ?a ?v"
    using key_exchange_frame [OF C, of ?a G kem] by (simp add: keeps_def b)
  moreover have "outside ?a (view (w_store (snd (session_builder_process builder G w)))) = outside ?a ?v"
    using start_frame [OF C, of ?a G] by (simp add: keeps_def b)
  moreover have "(outside ?a (view (w_store (snd (session_cipher_decrypt_pre_key_signal_message C G c pm w)))))
      \<lparr>sv_pre_keys := \<lambda>_. None\<rparr> = (outside ?a ?v)\<lparr>sv_pre_keys := \<lambda>_. None\<rparr>"
    using decrypt_pre_key_frame [OF C cb, of G pm] by (simp add: keeps_def)
  ultimately show ?thesis unfolding Let_def using confined_outside confined_pre_keys by blast
qed

theorem builder_touches_one_contact_witness:
  "\<exists>w'. session_builder_process_pre_key_bundle \<lparr>builder_store = sample_store_context, builder_remote_address = sample_address\<rparr>
      sample_context sample_bundle \<lparr>w_store = sample_published, w_rng = 20\<rparr> = w' \<and>
    confined sample_address sample_published (w_store (snd w')) \<and> sv_pre_keys (w_store (snd w')) 9 \<noteq> None"
proof -
  have c: "cipher_decrypt_callback sample_session_cipher = None" "cipher_remote_address sample_session_cipher = sample_address"
    by (simp_all add: sample_session_cipher_def)
  note one = conjunct1 [OF builder_touches_one_contact [OF store_context_of_atomic [OF sample_store_context_ok] c(1) refl,
    where w = "\<lparr>w_store = sample_published, w_rng = 20\<rparr>" and G = sample_context and offer = sample_bundle, unfolded c(2)]]
  moreover have "sv_pre_keys sample_published 9 \<noteq> None"
    using sample_published_ok by (auto simp: published_def sample_pre_key_def)
  ultimately show ?thesis by (simp add: confined_def)
qed

text \<open>
  C19. What a refused pre-key message may change.  When
  \<^verbatim>\<open>session_cipher_decrypt_pre_key_signal_message\<close> fails, for whatever reason and with stores
  whose every callback may fail, no one-time pre-key has been used up.  No stored session has
  changed either, with one exception: after the sender's new session is stored, the callback
  that removes the message's one-time pre-key reports a negative code.  Then that code is the
  error, and the one session that has changed is the sender's.  The exception is real: a run
  that would return the plaintext and use up a pre-key returns the code instead when the
  removal reports one, with the session that it would have stored in the store.
\<close>

theorem refused_pre_key_message:
  assumes C: "store_context_atomic C view" and cb: "cipher_decrypt_callback c = None"
  shows "(\<forall>e w'. session_cipher_decrypt_pre_key_signal_message C G c pm w = (Inl e, w') \<longrightarrow>
      sv_pre_keys (view (w_store w')) = sv_pre_keys (view (w_store w)) \<and>
      (sv_sessions (view (w_store w')) = sv_sessions (view (w_store w)) \<or>
       (\<exists>d s code. sv_sessions (view (w_store w')) = (sv_sessions (view (w_store w)))(cipher_remote_address c := Some d) \<and>
          pksm_has_pre_key_id pm \<and> remove_pre_key (pre_key_store C) (pksm_pre_key_id pm) s = (code, w_store w') \<and>
          code < 0 \<and> e = sg_error_of_code code))) \<and>
    (\<forall>p w1 code. session_cipher_decrypt_pre_key_signal_message C G c pm w = (Inr p, w1) \<and>
      sv_pre_keys (view (w_store w1)) \<noteq> sv_pre_keys (view (w_store w)) \<and> code < 0 \<longrightarrow>
      (\<exists>w2. session_cipher_decrypt_pre_key_signal_message (failing_removal code C) G c pm w = (Inl (sg_error_of_code code), w2) \<and>
        sv_sessions (view (w_store w2)) = sv_sessions (view (w_store w1)) \<and>
        sv_pre_keys (view (w_store w2)) = sv_pre_keys (view (w_store w))))"
  using decrypt_pre_key_failure [OF C cb] removal_failure_keeps_session [OF C cb] by blast

theorem refused_pre_key_message_witness:
  "(\<exists>w'. session_cipher_decrypt_pre_key_signal_message sample_store_context sample_context sample_session_cipher
      \<lparr>pksm_version = 3, pksm_registration_id = 1, pksm_has_pre_key_id = True, pksm_pre_key_id = 9,
       pksm_signed_pre_key_id = 8, pksm_base_key = kp_public_key (sample_pair 2),
       pksm_identity_key = kp_public_key (sample_pair 1), pksm_message = sample_message [1], pksm_serialized = []\<rparr>
      \<lparr>w_store = sample_published, w_rng = 20\<rparr> = (Inl SG_ERR_INVALID_KEY_ID, w') \<and>
    sv_pre_keys (w_store w') = sv_pre_keys sample_published) \<and>
   (\<exists>pm wb1 wb2. session_cipher_decrypt_pre_key_signal_message sample_store_context sample_context sample_session_cipher pm
      \<lparr>w_store = sample_published, w_rng = 50\<rparr> = (Inr [42], wb1) \<and>
    session_cipher_decrypt_pre_key_signal_message (failing_removal (-12) sample_store_context) sample_context sample_session_cipher pm
      \<lparr>w_store = sample_published, w_rng = 50\<rparr> = (Inl (sg_error_of_code (-12)), wb2) \<and>
    sv_sessions (w_store wb2) = sv_sessions (w_store wb1) \<and> sv_pre_keys (w_store wb2) = sv_pre_keys sample_published)"
  (is "(\<exists>w'. session_cipher_decrypt_pre_key_signal_message _ _ _ ?pm ?w = _ \<and> _) \<and> _")
proof
  note c = sample_session_cipher_fields and pub = sample_published_fields
  note refused = refused_pre_key_message [OF store_context_of_atomic [OF sample_store_context_ok] c(2)]
  have "session_cipher_decrypt_pre_key_signal_message sample_store_context sample_context sample_session_cipher ?pm ?w
      = (Inl SG_ERR_INVALID_KEY_ID, ?w)"
    using c fresh_record_has_no_state
    by (intro missing_signed_pre_key [OF sample_store_context_ok, of _ _ "session_record_create None"])
      (simp_all add: holds_session_def trusted_def pub sr_ok_create)
  with conjunct1 [OF refused] show "\<exists>w'. session_cipher_decrypt_pre_key_signal_message sample_store_context sample_context
      sample_session_cipher ?pm ?w = (Inl SG_ERR_INVALID_KEY_ID, w') \<and> sv_pre_keys (w_store w') = sv_pre_keys sample_published"
    by fastforce
  obtain pm wb1 where run: "session_cipher_decrypt_pre_key_signal_message sample_store_context sample_context sample_session_cipher pm
      \<lparr>w_store = sample_published, w_rng = 50\<rparr> = (Inr [42], wb1)"
      "sv_pre_keys (w_store wb1) = (sv_pre_keys sample_published)(9 := None)"
    using sample_bundle_session by blast
  have "sv_pre_keys sample_published 9 \<noteq> None"
    using sample_published_ok by (auto simp: published_def sample_pre_key_def)
  then have "sv_pre_keys (w_store wb1) \<noteq> sv_pre_keys sample_published" using run(2) by (metis fun_upd_same)
  then obtain w2 where "session_cipher_decrypt_pre_key_signal_message (failing_removal (-12) sample_store_context) sample_context
      sample_session_cipher pm \<lparr>w_store = sample_published, w_rng = 50\<rparr> = (Inl (sg_error_of_code (-12)), w2)"
      "sv_sessions (w_store w2) = sv_sessions (w_store wb1)" "sv_pre_keys (w_store w2) = sv_pre_keys sample_published"
    using conjunct2 [OF refused, of sample_context pm "\<lparr>w_store = sample_published, w_rng = 50\<rparr>", rule_format, of "[42]" wb1 "-12"] run(1)
    by auto
  with run(1) show "\<exists>pm wb1 wb2. session_cipher_decrypt_pre_key_signal_message sample_store_context sample_context sample_session_cipher pm
      \<lparr>w_store = sample_published, w_rng = 50\<rparr> = (Inr [42], wb1) \<and>
    session_cipher_decrypt_pre_key_signal_message (failing_removal (-12) sample_store_context) sample_context sample_session_cipher pm
      \<lparr>w_store = sample_published, w_rng = 50\<rparr> = (Inl (sg_error_of_code (-12)), wb2) \<and>
    sv_sessions (w_store wb2) = sv_sessions (w_store wb1) \<and> sv_pre_keys (w_store wb2) = sv_pre_keys sample_published"
    by blast
qed

section \<open>Sessions from key exchanges\<close>

text \<open>
  C5. A key exchange gives a session to both sides.  \<^verbatim>\<open>session_builder_process\<close> makes an initiate
  message; parsed from its bytes by the other side, \<^verbatim>\<open>session_builder_process_key_exchange_message\<close>
  answers with a response; parsed and processed by the first side it completes the exchange.
  Whichever side then takes the Alice role, what either encrypts with \<^verbatim>\<open>session_cipher_encrypt\<close>
  the other decrypts.
\<close>

theorem key_exchange_session:
  assumes laws: "curve25519_dh G" "hmac_sha256_of G hm" "cipher_inverse G" "curve25519_signs G" "random_total G"
    and CA: "store_context_of CA viewA" "holds_session (viewA sA) (cipher_remote_address ca) recA"
      "trusted (viewA sA) (cipher_remote_address ca) (DJB_TYPE # pub_data (ik_public_key j))"
      "sv_identity_key_pair (viewA sA) = identity_bytes i" "ik_ok G i" "clamped (priv_data (ik_private_key i))"
    and CB: "store_context_of CB viewB" "holds_session (viewB sB) (cipher_remote_address cb) recB"
      "trusted (viewB sB) (cipher_remote_address cb) (DJB_TYPE # pub_data (ik_public_key i))"
      "sv_identity_key_pair (viewB sB) = identity_bytes j" "ik_ok G j"
      "\<And>st. sr_state recB = Some st \<Longrightarrow> \<not> ss_has_pending_key_exchange st" "clamped (priv_data (ik_private_key j))"
    and new: "\<And>bk bk'. \<lbrakk>curve_generate_key_pair G (Suc ra) = (Inr bk, Suc (Suc ra));
      curve_generate_key_pair G rb = (Inr bk', Suc rb)\<rbrakk> \<Longrightarrow> kp_public_key bk \<noteq> kp_public_key bk'"
    and idle: "\<not> cipher_inside_callback ca" "cipher_decrypt_callback ca = None"
      "\<not> cipher_inside_callback cb" "cipher_decrypt_callback cb = None"
  shows "\<exists>m1 m1' wa1 m2 m2' wb1 wa2.
    session_builder_process \<lparr>builder_store = CA, builder_remote_address = cipher_remote_address ca\<rparr> G
      \<lparr>w_store = sA, w_rng = ra\<rparr> = (Inr m1, wa1) \<and>
    key_exchange_message_deserialize (buf_data (kem_serialized m1)) = Inr m1' \<and>
    session_builder_process_key_exchange_message \<lparr>builder_store = CB, builder_remote_address = cipher_remote_address cb\<rparr> G m1'
      \<lparr>w_store = sB, w_rng = rb\<rparr> = (Inr (Some m2), wb1) \<and>
    key_exchange_message_deserialize (buf_data (kem_serialized m2)) = Inr m2' \<and>
    session_builder_process_key_exchange_message \<lparr>builder_store = CA, builder_remote_address = cipher_remote_address ca\<rparr> G m2'
      wa1 = (Inr None, wa2) \<and>
    (\<forall>p. \<exists>em wa3 wb2. session_cipher_encrypt (session_store CA) G ca p wa2 = (Inr em, wa3) \<and>
      session_cipher_decrypt_signal_message (session_store CB) G cb (signal_part em) wb1 = (Inr p, wb2)) \<and>
    (\<forall>q. \<exists>em wb3 wa4. session_cipher_encrypt (session_store CB) G cb q wb1 = (Inr em, wb3) \<and>
      session_cipher_decrypt_signal_message (session_store CA) G ca (signal_part em) wa2 = (Inr q, wa4))"
  using assms by (rule key_exchange_sessions)

theorem key_exchange_session_witness:
  "\<exists>m1 m1' wa1 m2 m2' wb1 wa2 em wa3 wb2 em' wb3 wa4.
    session_builder_process \<lparr>builder_store = sample_store_context, builder_remote_address = sample_address\<rparr> sample_context
      \<lparr>w_store = sample_view 1, w_rng = 20\<rparr> = (Inr m1, wa1) \<and>
    key_exchange_message_deserialize (buf_data (kem_serialized m1)) = Inr m1' \<and>
    session_builder_process_key_exchange_message \<lparr>builder_store = sample_store_context, builder_remote_address = sample_address\<rparr>
      sample_context m1' \<lparr>w_store = sample_view 3, w_rng = 50\<rparr> = (Inr (Some m2), wb1) \<and>
    key_exchange_message_deserialize (buf_data (kem_serialized m2)) = Inr m2' \<and>
    session_builder_process_key_exchange_message \<lparr>builder_store = sample_store_context, builder_remote_address = sample_address\<rparr>
      sample_context m2' wa1 = (Inr None, wa2) \<and>
    session_cipher_encrypt (session_store sample_store_context) sample_context sample_session_cipher [1] wa2 = (Inr em, wa3) \<and>
    session_cipher_decrypt_signal_message (session_store sample_store_context) sample_context sample_session_cipher
      (signal_part em) wb1 = (Inr [1], wb2) \<and>
    session_cipher_encrypt (session_store sample_store_context) sample_context sample_session_cipher [2] wb1 = (Inr em', wb3) \<and>
    session_cipher_decrypt_signal_message (session_store sample_store_context) sample_context sample_session_cipher
      (signal_part em') wa2 = (Inr [2], wa4)"
proof -
  have c: "cipher_remote_address sample_session_cipher = sample_address" "cipher_decrypt_callback sample_session_cipher = None"
    "\<not> cipher_inside_callback sample_session_cipher" by (simp_all add: sample_session_cipher_def)
  have tr: "trusted (sample_view n) a d" for n a d by (simp add: trusted_def sample_view_def)
  have me: "sv_identity_key_pair (sample_view n) = identity_bytes (sample_identity n)" for n by (simp add: sample_view_def)
  have "kp_public_key (projr (fst (curve_generate_key_pair sample_context 21)))
      \<noteq> kp_public_key (projr (fst (curve_generate_key_pair sample_context 50)))" by code_simp
  then have new: "kp_public_key bk \<noteq> kp_public_key bk'"
    if "curve_generate_key_pair sample_context (Suc 20) = (Inr bk, Suc (Suc 20))"
      "curve_generate_key_pair sample_context 50 = (Inr bk', Suc 50)" for bk bk' using that by simp
  have np: "\<not> ss_has_pending_key_exchange st" if "sr_state (session_record_create None) = Some st" for st
    using that by (auto simp: session_record_create_def session_state_create_def)
  note run = key_exchange_session [OF sample_dh_ok sample_hmac_ok sample_cipher_ok sample_signs_ok sample_random_total
    sample_store_context_ok sample_view_holds [of 1] tr me sample_identity_ok sample_identity_clamped
    sample_store_context_ok sample_view_holds [of 3] tr me sample_identity_ok _ sample_identity_clamped _ c(3,2) c(3,2), where ra = 20 and rb = 50, unfolded c(1)]
  show ?thesis using run np new by blast
qed

text \<open>
  C39. The response of a key exchange is acted upon before it is authenticated: while an
  exchange is pending, a response with the pending sequence number whose base key signature
  does not verify is refused with \<^verbatim>\<open>SG_ERR_INVALID_KEY\<close>, but the session derived from its keys
  has already replaced the current one in the store.
\<close>

theorem response_stored_before_verified:
  assumes C: "store_context_of C view"
    and rec: "holds_session (view s) a rec" "sr_state rec = Some (session_state_set_pending_key_exchange n bk rk i st)"
    and tr: "trusted (view s) a (DJB_TYPE # pub_data (kem_identity_key m))"
    and m: "kem_sequence m = n" "kem_flags m = KEY_EXCHANGE_RESPONSE_FLAG" "length (kem_base_key_signature m) = CURVE_SIGNATURE_LEN"
    and bad: "curve25519_verify G (kem_base_key_signature m) (pub_data (kem_identity_key m)) (DJB_TYPE # pub_data (kem_base_key m)) \<noteq> 0"
    and sa: "ratcheting_session_symmetric_initialize G session_state_create (exchange_parameters i bk rk m) r = (Inr sa, r')"
      "ss_ok sa" "ss_session_version sa = 3"
  shows "\<exists>s' rec'. session_builder_process_key_exchange_message \<lparr>builder_store = C, builder_remote_address = a\<rparr> G m
      \<lparr>w_store = s, w_rng = r\<rparr> = (Inl SG_ERR_INVALID_KEY, \<lparr>w_store = s', w_rng = r'\<rparr>) \<and>
    signal_protocol_session_load_session (session_store C) a s' = (Inr rec', s') \<and> sr_state rec' = Some sa"
proof -
  have "verified_base_key G m = Inl SG_ERR_INVALID_KEY"
    using bad m(3) by (simp add: verified_base_key_def ec_public_key_serialize_def curve_verify_signature_def)
  with process_response [OF C rec tr m(1,2) sa] load_session_holds [OF C] show ?thesis by fastforce
qed

theorem response_stored_before_verified_witness:
  "\<exists>s m s' r' rec sa. session_builder_process_key_exchange_message
      \<lparr>builder_store = sample_store_context, builder_remote_address = sample_address\<rparr> sample_context m
      \<lparr>w_store = s, w_rng = 24\<rparr> = (Inl SG_ERR_INVALID_KEY, \<lparr>w_store = s', w_rng = r'\<rparr>) \<and>
    signal_protocol_session_load_session (session_store sample_store_context) sample_address s' = (Inr rec, s') \<and>
    sr_state rec = Some sa \<and> ss_remote_identity_public sa = Some (ik_public_key (sample_identity 3))"
proof -
  let ?i = "sample_identity 1" and ?j = "sample_identity 3" and ?st = session_state_create
  have st: "sr_state (session_record_create None) = Some ?st" by (simp add: session_record_create_def)
  have me: "sv_identity_key_pair (sample_view 1) = identity_bytes ?i" by (simp add: sample_view_def)
  obtain m' s' n bk rk where k: "offers sample_context ?i bk rk m'"
      "curve_generate_key_pair sample_context (Suc 20) = (Inr bk, Suc (Suc 20))"
    and hs: "holds_session s' sample_address ((session_record_set_state (session_record_create None)
        (session_state_set_pending_key_exchange n bk rk ?i ?st))\<lparr>sr_is_fresh := False\<rparr>)"
      "sv_identities s' = sv_identities (sample_view 1)"
    using start_exchange [OF sample_dh_ok sample_signs_ok sample_random_total sample_store_context_ok sample_view_holds st me
        sample_identity_ok sample_identity_clamped, where r = 20 and a = sample_address] by blast
  let ?m = "\<lparr>kem_version = 3, kem_supported_version = 3, kem_sequence = n, kem_flags = KEY_EXCHANGE_RESPONSE_FLAG,
    kem_base_key = kp_public_key (sample_pair 8), kem_base_key_signature = replicate 64 0,
    kem_ratchet_key = kp_public_key (sample_pair 6), kem_identity_key = ik_public_key ?j,
    kem_serialized = \<lparr>buf_len = 0, buf_data = []\<rparr>\<rparr>"
  let ?q = "\<lparr>symp_our_identity_key = ?j, symp_our_base_key = sample_pair 8, symp_our_ratchet_key = sample_pair 6,
    symp_their_base_key = kp_public_key bk, symp_their_ratchet_key = kp_public_key rk, symp_their_identity_key = ik_public_key ?i\<rparr>"
  have "kp_public_key (projr (fst (curve_generate_key_pair sample_context 21))) \<noteq> kp_public_key (sample_pair 8)" by code_simp
  then have pq: "symmetric_partners sample_context (exchange_parameters ?i bk rk ?m) ?q"
    using k sample_pair_ok sample_identity_ok by (simp add: symmetric_partners_def exchange_parameters_def offers_def)
  obtain sa r' where sa: "ratcheting_session_symmetric_initialize sample_context ?st (exchange_parameters ?i bk rk ?m) 24 = (Inr sa, r')"
      "can_send 3 (ik_public_key ?i) (ik_public_key ?j) sa"
    using symmetric_total [OF sample_dh_ok sample_hmac_ok sample_random_total pq, of 24] by (auto simp: exchange_parameters_def)
  have ok: "ss_ok sa" "ss_session_version sa = 3" "ss_remote_identity_public sa = Some (ik_public_key ?j)"
    using sa(2) by (simp_all add: can_send_def)
  have "replicate 64 0 \<noteq> take 64 (pub_data (kp_public_key (sample_pair 3)) @ pub_data (kp_public_key (sample_pair 3)))"
    by code_simp
  then have bad: "curve25519_verify sample_context (kem_base_key_signature ?m) (pub_data (kem_identity_key ?m)) d \<noteq> 0" for d
    by (simp add: sample_context_def sample_identity_def)
  have tr: "trusted s' sample_address d" for d using hs(2) by (simp add: trusted_def sample_view_def)
  have "\<exists>s1 rec'. session_builder_process_key_exchange_message
      \<lparr>builder_store = sample_store_context, builder_remote_address = sample_address\<rparr> sample_context ?m
      \<lparr>w_store = s', w_rng = 24\<rparr> = (Inl SG_ERR_INVALID_KEY, \<lparr>w_store = s1, w_rng = r'\<rparr>) \<and>
    signal_protocol_session_load_session (session_store sample_store_context) sample_address s1 = (Inr rec', s1) \<and>
    sr_state rec' = Some sa"
    by (rule response_stored_before_verified [OF sample_store_context_ok hs(1) set_state_record(1) tr _ _ _ bad sa(1) ok(1,2)])
       (simp_all add: CURVE_SIGNATURE_LEN_def)
  with ok(3) show ?thesis by blast
qed

text \<open>
  C30. A created key exchange message is read back with all its fields by
  \<^verbatim>\<open>key_exchange_message_deserialize\<close> as long as the sequence number has at most 27 bits and
  the flags five; but the buffer that the parsed message keeps claims a length of at least
  \<open>2 ^ 32\<close>, because the input was copied over the buffer's header.
\<close>

theorem key_exchange_message_codec:
  assumes "key_exchange_message_create 3 n fl bk sig rk ik = Inr m" "pub_ok bk" "pub_ok rk" "pub_ok ik"
    and "n < 2 ^ 27" "fl < 32"
  shows "\<exists>m'. key_exchange_message_deserialize (buf_data (kem_serialized m)) = Inr m' \<and>
    m'\<lparr>kem_serialized := kem_serialized m\<rparr> = m \<and>
    buf_len (kem_serialized m) = of_nat (length (buf_data (kem_serialized m))) \<and> buf_len (kem_serialized m) \<le> 200 \<and>
    2 ^ 32 \<le> buf_len (kem_serialized m')"
proof -
  have "length (buf_data (kem_serialized m)) \<le> 200" by (rule key_exchange_length [OF assms(1-4)])
  moreover have "buf_len (kem_serialized m) = of_nat (length (buf_data (kem_serialized m)))"
    by (rule key_exchange_create_cases [OF assms(1)]) simp
  ultimately show ?thesis
    using key_exchange_roundtrip [OF assms] overwritten_length [OF assms(1,2)]
    by (simp add: word_le_nat_alt unat_of_nat)
qed

theorem key_exchange_message_codec_witness:
  "\<exists>m m'. key_exchange_message_create 3 70000 KEY_EXCHANGE_RESPONSE_FLAG (kp_public_key (sample_pair 1)) (replicate 64 9)
      (kp_public_key (sample_pair 2)) (kp_public_key (sample_pair 3)) = Inr m \<and>
    key_exchange_message_deserialize (buf_data (kem_serialized m)) = Inr m' \<and> kem_sequence m' = 70000 \<and>
    buf_len (kem_serialized m) \<le> 200 \<and> 2 ^ 32 \<le> buf_len (kem_serialized m')"
proof -
  have ok: "pub_ok (kp_public_key (sample_pair n))" for n using key_pair_okD [OF sample_pair_ok] by blast
  obtain m where m: "key_exchange_message_create 3 70000 KEY_EXCHANGE_RESPONSE_FLAG (kp_public_key (sample_pair 1)) (replicate 64 9)
      (kp_public_key (sample_pair 2)) (kp_public_key (sample_pair 3)) = Inr m"
    using key_exchange_create_total [of "replicate 64 9" 3 70000 KEY_EXCHANGE_RESPONSE_FLAG "kp_public_key (sample_pair 1)"
        "kp_public_key (sample_pair 2)" "kp_public_key (sample_pair 3)"] by (auto simp: CURVE_SIGNATURE_LEN_def)
  obtain m' where m': "key_exchange_message_deserialize (buf_data (kem_serialized m)) = Inr m'"
    "m'\<lparr>kem_serialized := kem_serialized m\<rparr> = m" "buf_len (kem_serialized m) \<le> 200" "2 ^ 32 \<le> buf_len (kem_serialized m')"
    using key_exchange_message_codec [OF m ok ok ok] by (auto simp: KEY_EXCHANGE_RESPONSE_FLAG_def word_less_nat_alt)
  have "kem_sequence m = 70000" by (rule key_exchange_create_cases [OF m]) simp
  with m'(2) have "kem_sequence m' = 70000" by (metis key_exchange_message.select_convs(3) key_exchange_message.surjective
      key_exchange_message.update_convs(9))
  with m m' show ?thesis by blast
qed

end
