(* ===== verification/Fingerprint.thy ===== *)
theory Fingerprint
  imports Curve Structures
begin

text \<open>
  \<^verbatim>\<open>fingerprint.c\<close> with the message types of \<^verbatim>\<open>FingerprintProtocol.pb-c.c\<close>: the number that two
  users compare by eye and the code that they scan.  A C string is the bytes before its
  terminator; what is read from a buffer ends at the first zero byte.
\<close>

section \<open>FingerprintProtocol\<close>

subsection \<open>FingerprintData\<close>

definition fpd_desc :: "pb_field list" where
  "fpd_desc =
     [PB_Field 1 LABEL_OPTIONAL TYPE_BYTES,
      PB_Field 2 LABEL_OPTIONAL TYPE_BYTES]"

record FingerprintData =
  fpd_publickey :: "bytes option"
  fpd_identifier :: "bytes option"

definition fpd_to_pb :: "FingerprintData \<Rightarrow> pb_message" where
  "fpd_to_pb s =
     [pb_opt PV_bytes (fpd_publickey s),
      pb_opt PV_bytes (fpd_identifier s)]"

definition fpd_of_pb :: "pb_message \<Rightarrow> FingerprintData" where
  "fpd_of_pb m =
     \<lparr>fpd_publickey = pb_get_bytes (m ! 0),
      fpd_identifier = pb_get_bytes (m ! 1)\<rparr>"

interpretation fpd: pb_flat_codec fpd_desc fpd_to_pb fpd_of_pb
proof
  show "pb_desc_ok fpd_desc"
    by (simp add: pb_desc_ok_def fpd_desc_def)
  show "pb_singular_type (TYPE_MESSAGE fpd_desc)"
    by (simp add: fpd_desc_def)
  fix s
  show "pb_fits fpd_desc (fpd_to_pb s)"
    by (simp add: fpd_desc_def fpd_to_pb_def split: option.split)
  show "fpd_of_pb (fpd_to_pb s) = s"
    by (simp add: fpd_of_pb_def fpd_to_pb_def)
qed

subsection \<open>CombinedFingerprint\<close>

definition fpc_desc :: "pb_field list" where
  "fpc_desc =
     [PB_Field 1 LABEL_OPTIONAL TYPE_UINT32,
      PB_Field 2 LABEL_OPTIONAL (TYPE_MESSAGE fpd_desc),
      PB_Field 3 LABEL_OPTIONAL (TYPE_MESSAGE fpd_desc)]"

record CombinedFingerprint =
  fpc_version :: "u32 option"
  fpc_localfingerprint :: "FingerprintData option"
  fpc_remotefingerprint :: "FingerprintData option"

definition fpc_to_pb :: "CombinedFingerprint \<Rightarrow> pb_message" where
  "fpc_to_pb s =
     [pb_opt PV_32 (fpc_version s),
      pb_opt (\<lambda>x. PV_msg (fpd_to_pb x)) (fpc_localfingerprint s),
      pb_opt (\<lambda>x. PV_msg (fpd_to_pb x)) (fpc_remotefingerprint s)]"

definition fpc_of_pb :: "pb_message \<Rightarrow> CombinedFingerprint" where
  "fpc_of_pb m =
     \<lparr>fpc_version = pb_get_32 (m ! 0),
      fpc_localfingerprint = pb_get_msg fpd_of_pb (m ! 1),
      fpc_remotefingerprint = pb_get_msg fpd_of_pb (m ! 2)\<rparr>"

interpretation fpc: pb_flat_codec fpc_desc fpc_to_pb fpc_of_pb
proof
  show "pb_desc_ok fpc_desc"
    using fpd.desc_ok by (simp add: pb_desc_ok_def fpc_desc_def)
  show "pb_singular_type (TYPE_MESSAGE fpc_desc)"
    by (simp add: fpc_desc_def fpd_desc_def)
  fix s
  show "pb_fits fpc_desc (fpc_to_pb s)"
    by (simp add: fpc_desc_def fpc_to_pb_def fpd.fits split: option.split)
  show "fpc_of_pb (fpc_to_pb s) = s"
    by (simp add: fpc_of_pb_def fpc_to_pb_def fpd.of_to)
qed

section \<open>Strings\<close>

definition c_string :: "bytes \<Rightarrow> bytes" where
  "c_string d = takeWhile (\<lambda>b. b \<noteq> 0) d"

fun strcmp :: "bytes \<Rightarrow> bytes \<Rightarrow> int" where
  "strcmp [] [] = 0"
| "strcmp [] (y # ys) = - 1"
| "strcmp (x # xs) [] = 1"
| "strcmp (x # xs) (y # ys) = (if x = y then strcmp xs ys else if x < y then - 1 else 1)"

definition signal_protocol_str_serialize_protobuf :: "bytes \<Rightarrow> bytes" where
  "signal_protocol_str_serialize_protobuf str = str"

definition signal_protocol_str_deserialize_protobuf :: "bytes \<Rightarrow> bytes" where
  "signal_protocol_str_deserialize_protobuf buffer = c_string (buffer @ [0])"

section \<open>Fingerprints\<close>

definition VERSION :: nat where "VERSION = 0"
definition SHA512_DIGEST_LENGTH :: nat where "SHA512_DIGEST_LENGTH = 64"

record displayable_fingerprint =
  dfp_local_fingerprint :: bytes
  dfp_remote_fingerprint :: bytes
  dfp_display_text :: bytes

record scannable_fingerprint =
  sfp_version :: u32
  sfp_local_stable_identifier :: "bytes option"
  sfp_local_identity_key :: "ec_public_key option"
  sfp_remote_stable_identifier :: "bytes option"
  sfp_remote_identity_key :: "ec_public_key option"

record fingerprint =
  fp_displayable :: "displayable_fingerprint option"
  fp_scannable :: "scannable_fingerprint option"

record fingerprint_generator =
  fg_iterations :: int

definition fingerprint_generator_create :: "int \<Rightarrow> fingerprint_generator" where
  "fingerprint_generator_create iterations = \<lparr>fg_iterations = iterations\<rparr>"

definition signal_sha512_digest :: "signal_context \<Rightarrow> bytes \<Rightarrow> bytes result" where
  "signal_sha512_digest G data = sha512_digest_func G data"

text \<open>The loop over the digest, \<open>n\<close> rounds to go.\<close>

fun hash_rounds :: "signal_context \<Rightarrow> bytes \<Rightarrow> nat \<Rightarrow> bytes \<Rightarrow> bytes result" where
  "hash_rounds G identity_buffer 0 hash_buffer = Inr hash_buffer"
| "hash_rounds G identity_buffer (Suc n) hash_buffer =
     (case signal_sha512_digest G (hash_buffer @ identity_buffer) of Inl e \<Rightarrow> Inl e
      | Inr hash_out_buffer \<Rightarrow>
         (if length hash_out_buffer \<noteq> SHA512_DIGEST_LENGTH then Inl SG_ERR_INVAL
          else hash_rounds G identity_buffer n hash_out_buffer))"

definition digest_chunk :: "bytes \<Rightarrow> nat \<Rightarrow> u64" where
  "digest_chunk data i =
     push_bit 32 (ucast (data ! i) AND 0xFF) OR push_bit 24 (ucast (data ! (i + 1)) AND 0xFF) OR
     push_bit 16 (ucast (data ! (i + 2)) AND 0xFF) OR push_bit 8 (ucast (data ! (i + 3)) AND 0xFF) OR
     (ucast (data ! (i + 4)) AND 0xFF)"

text \<open>\<^verbatim>\<open>snprintf(.., "%05d", n)\<close> for a number below 100000.\<close>

definition five_digits :: "nat \<Rightarrow> bytes" where
  "five_digits n =
     map (\<lambda>d. of_nat (48 + d))
       [n div 10000 mod 10, n div 1000 mod 10, n div 100 mod 10, n div 10 mod 10, n mod 10]"

definition fingerprint_generator_create_display_string ::
  "signal_context \<Rightarrow> fingerprint_generator \<Rightarrow> bytes \<Rightarrow> ec_public_key \<Rightarrow> bytes result" where
  "fingerprint_generator_create_display_string G generator stable_identifier identity_key =
     (case ec_public_key_serialize (Some identity_key) of Inl e \<Rightarrow> Inl e
      | Inr identity_buffer \<Rightarrow>
     (case hash_rounds G identity_buffer (nat (fg_iterations generator))
             ([0, of_nat VERSION] @ identity_buffer @ stable_identifier) of Inl e \<Rightarrow> Inl e
      | Inr data \<Rightarrow>
         (if length data < 30 then Inl SG_ERR_UNKNOWN
          else Inr (concat (map (\<lambda>i. five_digits (unat (digest_chunk data i mod 100000)))
                 [0, 5, 10, 15, 20, 25])))))"

definition displayable_fingerprint_create ::
  "bytes option \<Rightarrow> bytes option \<Rightarrow> displayable_fingerprint result" where
  "displayable_fingerprint_create local_fingerprint remote_fingerprint =
     (case (local_fingerprint, remote_fingerprint) of
        (Some l, Some r) \<Rightarrow>
          Inr \<lparr>dfp_local_fingerprint = l, dfp_remote_fingerprint = r,
               dfp_display_text = (if strcmp l r \<le> 0 then l @ r else r @ l)\<rparr>
      | _ \<Rightarrow> Inl SG_ERR_INVAL)"

definition scannable_fingerprint_create ::
  "u32 \<Rightarrow> bytes option \<Rightarrow> ec_public_key option \<Rightarrow> bytes option \<Rightarrow> ec_public_key option
     \<Rightarrow> scannable_fingerprint result" where
  "scannable_fingerprint_create version local_stable_identifier local_identity_key remote_stable_identifier
       remote_identity_key =
     (if local_stable_identifier = None \<or> local_identity_key = None \<or> remote_stable_identifier = None \<or>
         remote_identity_key = None then Inl SG_ERR_INVAL
      else Inr \<lparr>sfp_version = version, sfp_local_stable_identifier = local_stable_identifier,
                sfp_local_identity_key = local_identity_key,
                sfp_remote_stable_identifier = remote_stable_identifier,
                sfp_remote_identity_key = remote_identity_key\<rparr>)"

definition fingerprint_create ::
  "displayable_fingerprint option \<Rightarrow> scannable_fingerprint option \<Rightarrow> fingerprint" where
  "fingerprint_create displayable scannable = \<lparr>fp_displayable = displayable, fp_scannable = scannable\<rparr>"

definition fingerprint_generator_create_for ::
  "signal_context \<Rightarrow> fingerprint_generator \<Rightarrow> bytes \<Rightarrow> ec_public_key \<Rightarrow> bytes \<Rightarrow> ec_public_key
     \<Rightarrow> fingerprint result" where
  "fingerprint_generator_create_for G generator local_stable_identifier local_identity_key
       remote_stable_identifier remote_identity_key =
     (case fingerprint_generator_create_display_string G generator local_stable_identifier local_identity_key of
        Inl e \<Rightarrow> Inl e
      | Inr displayable_local \<Rightarrow>
     (case fingerprint_generator_create_display_string G generator remote_stable_identifier remote_identity_key of
        Inl e \<Rightarrow> Inl e
      | Inr displayable_remote \<Rightarrow>
     (case displayable_fingerprint_create (Some displayable_local) (Some displayable_remote) of Inl e \<Rightarrow> Inl e
      | Inr displayable \<Rightarrow>
     (case scannable_fingerprint_create (of_nat VERSION) (Some local_stable_identifier)
             (Some local_identity_key) (Some remote_stable_identifier) (Some remote_identity_key) of
        Inl e \<Rightarrow> Inl e
      | Inr scannable \<Rightarrow> Inr (fingerprint_create (Some displayable) (Some scannable))))))"

section \<open>The scannable form\<close>

definition fingerprint_data_of :: "bytes option \<Rightarrow> ec_public_key option \<Rightarrow> FingerprintData option result" where
  "fingerprint_data_of stable_identifier identity_key =
     (case (stable_identifier, identity_key) of
        (Some str, Some key) \<Rightarrow>
          (case ec_public_key_serialize_protobuf (Some key) of Inl e \<Rightarrow> Inl e
           | Inr d \<Rightarrow> Inr (Some \<lparr>fpd_publickey = Some d,
                fpd_identifier = Some (signal_protocol_str_serialize_protobuf str)\<rparr>))
      | _ \<Rightarrow> Inr None)"

definition scannable_fingerprint_serialize :: "scannable_fingerprint \<Rightarrow> bytes result" where
  "scannable_fingerprint_serialize scannable =
     (case fingerprint_data_of (sfp_local_stable_identifier scannable) (sfp_local_identity_key scannable) of
        Inl e \<Rightarrow> Inl e
      | Inr local_fingerprint \<Rightarrow>
     (case fingerprint_data_of (sfp_remote_stable_identifier scannable) (sfp_remote_identity_key scannable) of
        Inl e \<Rightarrow> Inl e
      | Inr remote_fingerprint \<Rightarrow>
          pb_serialize fpc_desc (fpc_to_pb \<lparr>fpc_version = Some (sfp_version scannable),
            fpc_localfingerprint = local_fingerprint, fpc_remotefingerprint = remote_fingerprint\<rparr>)))"

definition identifier_of_data :: "FingerprintData option \<Rightarrow> bytes option" where
  "identifier_of_data d =
     (case d of None \<Rightarrow> None
      | Some f \<Rightarrow> map_option signal_protocol_str_deserialize_protobuf (fpd_identifier f))"

definition key_of_data :: "FingerprintData option \<Rightarrow> ec_public_key option result" where
  "key_of_data d = (case d of None \<Rightarrow> Inr None | Some f \<Rightarrow> opt_result curve_decode_point (fpd_publickey f))"

definition scannable_fingerprint_deserialize :: "bytes \<Rightarrow> scannable_fingerprint result" where
  "scannable_fingerprint_deserialize data =
     (case pb_deserialize fpc_desc data of Inl e \<Rightarrow> Inl e
      | Inr m \<Rightarrow>
         (let s = fpc_of_pb m in
          (case key_of_data (fpc_localfingerprint s) of Inl e \<Rightarrow> Inl e
           | Inr local_identity_key \<Rightarrow>
          (case key_of_data (fpc_remotefingerprint s) of Inl e \<Rightarrow> Inl e
           | Inr remote_identity_key \<Rightarrow>
              scannable_fingerprint_create (case fpc_version s of None \<Rightarrow> 0 | Some v \<Rightarrow> v)
                (identifier_of_data (fpc_localfingerprint s)) local_identity_key
                (identifier_of_data (fpc_remotefingerprint s)) remote_identity_key))))"

definition identifiers_differ :: "bytes option \<Rightarrow> bytes option \<Rightarrow> bool result" where
  "identifiers_differ a b =
     (case (a, b) of (Some x, Some y) \<Rightarrow> Inr (strcmp x y \<noteq> 0) | _ \<Rightarrow> Inl C_UNDEFINED)"

definition scannable_fingerprint_compare ::
  "scannable_fingerprint \<Rightarrow> scannable_fingerprint \<Rightarrow> bool result" where
  "scannable_fingerprint_compare scannable other_scannable =
     (if sfp_remote_identity_key other_scannable = None \<or> sfp_local_identity_key other_scannable = None \<or>
         sfp_version other_scannable \<noteq> sfp_version scannable then Inl SG_ERR_FP_VERSION_MISMATCH
      else
      (case identifiers_differ (sfp_local_stable_identifier scannable)
              (sfp_remote_stable_identifier other_scannable) of Inl e \<Rightarrow> Inl e
       | Inr d1 \<Rightarrow> (if d1 then Inl SG_ERR_FP_IDENT_MISMATCH
      else
      (case identifiers_differ (sfp_remote_stable_identifier scannable)
              (sfp_local_stable_identifier other_scannable) of Inl e \<Rightarrow> Inl e
       | Inr d2 \<Rightarrow> (if d2 then Inl SG_ERR_FP_IDENT_MISMATCH
      else if ec_public_key_compare (sfp_local_identity_key scannable)
                (sfp_remote_identity_key other_scannable) \<noteq> 0 then Inr False
      else if ec_public_key_compare (sfp_remote_identity_key scannable)
                (sfp_local_identity_key other_scannable) \<noteq> 0 then Inr False
      else Inr True)))))"

end
