(* ===== verification/Fingerprint_Properties.thy ===== *)
theory Fingerprint_Properties
  imports Samples Fingerprint
begin

text \<open>
  Fingerprints: the number that both users read is the same, its digits are the digest's
  chunks, and the scanned code is accepted exactly when both devices name the same two keys.
\<close>

section \<open>Strings\<close>

lemma c_string_no_zero: "0 \<notin> set s \<Longrightarrow> c_string (s @ [0]) = s"
  by (induction s) (auto simp: c_string_def)

lemma c_string_zero_free: "0 \<notin> set (c_string d)"
  using set_takeWhileD by (fastforce simp: c_string_def)

lemma strcmp_zero [simp]: "strcmp s t = 0 \<longleftrightarrow> s = t"
  by (induction s t rule: strcmp.induct) auto

lemma strcmp_flip: "strcmp t s = - strcmp s t"
  by (induction s t rule: strcmp.induct) auto

lemma identifier_roundtrip:
  "0 \<notin> set s \<Longrightarrow> signal_protocol_str_deserialize_protobuf (signal_protocol_str_serialize_protobuf s) = s"
  by (simp add: signal_protocol_str_deserialize_protobuf_def signal_protocol_str_serialize_protobuf_def c_string_no_zero)

section \<open>The displayed number\<close>

text \<open>What the library relies on of SHA-512: it does not fail and gives 64 bytes.\<close>

definition sha512_of :: "signal_context \<Rightarrow> (bytes \<Rightarrow> bytes) \<Rightarrow> bool" where
  "sha512_of G h \<longleftrightarrow> (\<forall>d. sha512_digest_func G d = Inr (h d) \<and> length (h d) = 64)"

lemma hash_rounds_total:
  "sha512_of G h \<Longrightarrow> hash_rounds G k n d = Inr (((\<lambda>x. h (x @ k)) ^^ n) d)"
  by (induction n arbitrary: d)
     (simp_all add: signal_sha512_digest_def sha512_of_def SHA512_DIGEST_LENGTH_def funpow_Suc_right del: funpow.simps(2))

text \<open>A chunk is the big-endian number of five bytes.\<close>

lemma or_append: "n < 2 ^ k \<Longrightarrow> push_bit k m OR n = m * 2 ^ k + (n :: nat)"
proof -
  assume "n < 2 ^ k"
  then have "n = take_bit k n" by (simp add: take_bit_nat_eq_self)
  moreover have "push_bit k m AND take_bit k n = 0" by (rule bit_eqI) (simp add: bit_simps)
  ultimately show ?thesis using disjunctive_add_eq_or [of "push_bit k m" n] by (simp add: push_bit_eq_mult)
qed

lemma digest_chunk_value:
  "unat (digest_chunk d i) = (((unat (d ! i) * 256 + unat (d ! (i + 1))) * 256 + unat (d ! (i + 2))) * 256 +
     unat (d ! (i + 3))) * 256 + unat (d ! (i + 4))"
proof -
  have o: "x * 256 + unat b = push_bit 8 x OR unat (b :: u8)" for x b
    using or_append [of "unat b" 8 x] unsigned_less [of b, where ?'a = nat] by simp
  have u: "unat (push_bit n (ucast (b :: u8) AND 0xFF) :: u64) = push_bit n (unat b)" if "n \<le> 32" for n b
  proof -
    have m: "(0xFF :: u64) = mask 8" by (simp add: mask_eq_exp_minus_1)
    have "(ucast b AND 0xFF :: u64) = ucast b"
      unfolding m using bit_imp_le_length [of b] by (intro bit_word_eqI) (auto simp: bit_simps)
    moreover have "take_bit 64 (push_bit k (unat b)) = push_bit k (unat b)" if "k \<le> 32" for k
      using that by (intro bit_eqI) (fastforce simp: bit_simps bit_unsigned_iff dest: bit_imp_le_length)
    from this [OF that] this [of 0] calculation show ?thesis by (simp add: unsigned_push_bit_eq unsigned_ucast_eq)
  qed
  have us: "unat (push_bit 32 (ucast (b :: u8) AND 0xFF) :: u64) = push_bit 32 (unat b)"
    "unat (push_bit 24 (ucast b AND 0xFF) :: u64) = push_bit 24 (unat b)"
    "unat (push_bit 16 (ucast b AND 0xFF) :: u64) = push_bit 16 (unat b)"
    "unat (push_bit 8 (ucast b AND 0xFF) :: u64) = push_bit 8 (unat b)" for b by (rule u, simp)+
  have u0: "unat (ucast (b :: u8) AND 0xFF :: u64) = unat b" for b using u [of 0 b] by simp
  show ?thesis
    unfolding o digest_chunk_def unsigned_or_eq us u0 by (simp add: push_bit_or or.assoc)
qed

lemma five_digits_length [simp]: "length (five_digits n) = 5"
  by (simp add: five_digits_def)

lemma digit_byte: "d < 10 \<Longrightarrow> unat (of_nat (48 + d) :: u8) = 48 + d"
  by (simp add: unat_of_nat del: of_nat_add)

lemma five_digits_value:
  "n < 100000 \<Longrightarrow> foldl (\<lambda>a b. a * 10 + (unat b - 48)) 0 (five_digits n) = n"
proof -
  assume n: "n < 100000"
  define a b c d where "a = n div 10" and "b = a div 10" and "c = b div 10" and "d = c div 10"
  then have e: "n div 10 = a" "n div 100 = b" "n div 1000 = c" "n div 10000 = d" by (simp_all add: div_mult2_eq [symmetric])
  have "n = 10 * a + n mod 10" "a = 10 * b + a mod 10" "b = 10 * c + b mod 10" "c = 10 * d + c mod 10"
    unfolding a_def b_def c_def d_def by (rule mult_div_mod_eq [symmetric])+
  moreover have "d mod 10 = d" using n e by simp
  ultimately show ?thesis unfolding five_digits_def by (simp add: digit_byte e del: of_nat_add)
qed
lemma five_digits_decimal: "b \<in> set (five_digits n) \<Longrightarrow> 48 \<le> b \<and> b \<le> 57"
  by (auto simp: five_digits_def word_le_nat_alt digit_byte simp del: of_nat_add)

text \<open>The thirty digits of one key, as a function of the hash.\<close>

definition display_of :: "(bytes \<Rightarrow> bytes) \<Rightarrow> nat \<Rightarrow> bytes \<Rightarrow> ec_public_key \<Rightarrow> bytes" where
  "display_of h n s k =
     (let d = ((\<lambda>x. h (x @ DJB_TYPE # pub_data k)) ^^ n) ([0, 0] @ (DJB_TYPE # pub_data k) @ s) in
      concat (map (\<lambda>i. five_digits (unat (digest_chunk d i mod 100000))) [0, 5, 10, 15, 20, 25]))"

lemma funpow_hash_length:
  "\<lbrakk>sha512_of G h; pub_ok k\<rbrakk> \<Longrightarrow> 30 \<le> length (((\<lambda>x. h (x @ DJB_TYPE # pub_data k)) ^^ n) ([0, 0] @ (DJB_TYPE # pub_data k) @ s))"
  by (cases n) (simp_all add: sha512_of_def pub_ok_def DJB_KEY_LEN_def)

lemma display_string_total:
  assumes "sha512_of G h" "pub_ok k"
  shows "fingerprint_generator_create_display_string G g s k = Inr (display_of h (nat (fg_iterations g)) s k)"
  using funpow_hash_length [OF assms, of "nat (fg_iterations g)" s]
  by (simp add: fingerprint_generator_create_display_string_def ec_public_key_serialize_def hash_rounds_total [OF assms(1)]
      display_of_def VERSION_def Let_def not_less)

lemma display_of_digits: "length (display_of h n s k) = 30" "\<forall>b \<in> set (display_of h n s k). 48 \<le> b \<and> b \<le> 57"
  using five_digits_decimal by (auto simp: display_of_def Let_def)

lemma take_five: "n + 5 \<le> length d \<Longrightarrow> take 5 (drop n d) = [d ! n, d ! (n + 1), d ! (n + 2), d ! (n + 3), d ! (n + 4)]"
  by (rule nth_equalityI) (auto simp: less_Suc_eq numeral_eq_Suc)

lemma display_group:
  "j < 6 \<Longrightarrow> take 5 (drop (5 * j) (concat (map (\<lambda>i. five_digits (f i)) [0, 5, 10, 15, 20, 25]))) = five_digits (f (5 * j))"
proof -
  assume "j < 6"
  then consider "j = 0" | "j = 1" | "j = 2" | "j = 3" | "j = 4" | "j = 5" by linarith
  then show ?thesis by cases simp_all
qed

section \<open>The scanned code\<close>

lemma fingerprint_create_total:
  assumes "sha512_of G h" "pub_ok ka" "pub_ok kb"
  shows "\<exists>d. fingerprint_generator_create_for G g sa ka sb kb = Inr \<lparr>fp_displayable = Some d,
      fp_scannable = Some \<lparr>sfp_version = 0, sfp_local_stable_identifier = Some sa, sfp_local_identity_key = Some ka,
        sfp_remote_stable_identifier = Some sb, sfp_remote_identity_key = Some kb\<rparr>\<rparr> \<and>
    dfp_display_text d = (let a = display_of h (nat (fg_iterations g)) sa ka; b = display_of h (nat (fg_iterations g)) sb kb in
      if strcmp a b \<le> 0 then a @ b else b @ a)"
  using assms by (simp add: fingerprint_generator_create_for_def display_string_total displayable_fingerprint_create_def
      scannable_fingerprint_create_def fingerprint_create_def VERSION_def Let_def)

lemma display_order: "(if strcmp a b \<le> 0 then a @ b else b @ a) = (if strcmp b a \<le> 0 then b @ a else a @ b)"
  using strcmp_flip [of a b] strcmp_zero [of a b] by (auto simp del: strcmp_zero)

lemma scannable_codec:
  fixes v :: u32
  assumes "pub_ok ka" "pub_ok kb" "0 \<notin> set sa" "0 \<notin> set sb" "length sa + length sb < 2 ^ 30"
  defines "s \<equiv> \<lparr>sfp_version = v, sfp_local_stable_identifier = Some sa, sfp_local_identity_key = Some ka,
        sfp_remote_stable_identifier = Some sb, sfp_remote_identity_key = Some kb\<rparr>"
  shows "\<exists>d. scannable_fingerprint_serialize s = Inr d \<and> scannable_fingerprint_deserialize d = Inr s"
proof -
  let ?a = "\<lparr>fpd_publickey = Some (DJB_TYPE # pub_data ka), fpd_identifier = Some sa\<rparr>"
  let ?b = "\<lparr>fpd_publickey = Some (DJB_TYPE # pub_data kb), fpd_identifier = Some sb\<rparr>"
  let ?c = "\<lparr>fpc_version = Some v, fpc_localfingerprint = Some ?a, fpc_remotefingerprint = Some ?b\<rparr>"
  have part: "length (pb_pack fpd_desc (fpd_to_pb \<lparr>fpd_publickey = Some (DJB_TYPE # pub_data k), fpd_identifier = Some t\<rparr>))
      \<le> 45 + length t" if "pub_ok k" for k t
    using that pb_bound_bytes [of 1 33 "Some (DJB_TYPE # pub_data k)"] pb_bound_bytes [of 2 "length t" "Some t"]
    by (simp add: fpd_desc_def fpd_to_pb_def pub_ok_def word_less_nat_alt)
  have len: "length (pb_pack fpc_desc (fpc_to_pb ?c)) < 2 ^ 31"
    using assms(5) pb_bound_32 [of 1 "Some v"] pb_bound_msg [of 2 fpd_desc fpd_to_pb "45 + length sa" "Some ?a"] part [OF assms(1)]
      pb_bound_msg [of 3 fpd_desc fpd_to_pb "45 + length sb" "Some ?b"] part [OF assms(2)]
    by (simp add: fpc_desc_def fpc_to_pb_def word_less_nat_alt)
  have d: "pb_serialize fpc_desc (fpc_to_pb ?c) = Inr (pb_pack fpc_desc (fpc_to_pb ?c))" by (rule fpc.serialize_ok)
  have "scannable_fingerprint_serialize s = Inr (pb_pack fpc_desc (fpc_to_pb ?c))"
    by (simp add: scannable_fingerprint_serialize_def fingerprint_data_of_def s_def ec_public_key_serialize_protobuf_def
        signal_protocol_str_serialize_protobuf_def d del: DJB_TYPE_def)
  moreover have "scannable_fingerprint_deserialize (pb_pack fpc_desc (fpc_to_pb ?c)) = Inr s"
    using fpc.deserialize_serialize [OF d len] curve_decode_serialize [OF assms(1)] curve_decode_serialize [OF assms(2)]
      assms(3,4)
    by (simp add: scannable_fingerprint_deserialize_def key_of_data_def identifier_of_data_def
        signal_protocol_str_deserialize_protobuf_def c_string_no_zero scannable_fingerprint_create_def s_def del: DJB_TYPE_def)
  ultimately show ?thesis by blast
qed

lemma key_of_data_ok: "key_of_data f = Inr (Some k) \<Longrightarrow> pub_ok k"
  by (auto simp: key_of_data_def opt_result_def curve_decode_point_inv split: option.splits sum.splits)

lemma scanned_fields:
  assumes "scannable_fingerprint_deserialize d = Inr c"
  shows "\<exists>ta ja tb jb. c = \<lparr>sfp_version = sfp_version c, sfp_local_stable_identifier = Some ta, sfp_local_identity_key = Some ja,
        sfp_remote_stable_identifier = Some tb, sfp_remote_identity_key = Some jb\<rparr> \<and> pub_ok ja \<and> pub_ok jb"
  using assms by (auto simp: scannable_fingerprint_deserialize_def scannable_fingerprint_create_def Let_def result_simps
      dest: key_of_data_ok split: if_splits)

section \<open>Properties\<close>

lemma sample_sha512_ok: "sha512_of sample_context (\<lambda>d. take 64 (d @ replicate 64 0))"
  by (auto simp: sha512_of_def sample_context_def min_def)

lemma sample_pub_ok: "pub_ok (kp_public_key (sample_pair n))"
  using key_pair_okD [OF sample_pair_ok] by blast

text \<open>
  C7. Two users who hold each other's identity key make fingerprints that match: the number
  shown on both devices is the same, sixty decimal digits, and the code that one device
  serialises is read by the other and compares as equal, whatever the number of iterations.
\<close>

theorem fingerprints_match:
  assumes "sha512_of G h" "pub_ok ka" "pub_ok kb" "0 \<notin> set sa" "0 \<notin> set sb" "length sa + length sb < 2 ^ 30"
  shows "\<exists>fa fb da db ca cb d.
    fingerprint_generator_create_for G g sa ka sb kb = Inr fa \<and> fp_displayable fa = Some da \<and> fp_scannable fa = Some ca \<and>
    fingerprint_generator_create_for G g sb kb sa ka = Inr fb \<and> fp_displayable fb = Some db \<and> fp_scannable fb = Some cb \<and>
    dfp_display_text da = dfp_display_text db \<and> length (dfp_display_text da) = 60 \<and>
    (\<forall>b \<in> set (dfp_display_text da). 48 \<le> b \<and> b \<le> 57) \<and>
    scannable_fingerprint_serialize ca = Inr d \<and> scannable_fingerprint_deserialize d = Inr ca \<and>
    scannable_fingerprint_compare cb ca = Inr True"
proof -
  let ?a = "display_of h (nat (fg_iterations g)) sa ka" and ?b = "display_of h (nat (fg_iterations g)) sb kb"
  let ?ca = "\<lparr>sfp_version = 0, sfp_local_stable_identifier = Some sa, sfp_local_identity_key = Some ka,
        sfp_remote_stable_identifier = Some sb, sfp_remote_identity_key = Some kb\<rparr>"
  let ?cb = "\<lparr>sfp_version = 0, sfp_local_stable_identifier = Some sb, sfp_local_identity_key = Some kb,
        sfp_remote_stable_identifier = Some sa, sfp_remote_identity_key = Some ka\<rparr>"
  obtain da where da: "fingerprint_generator_create_for G g sa ka sb kb = Inr \<lparr>fp_displayable = Some da, fp_scannable = Some ?ca\<rparr>"
      "dfp_display_text da = (if strcmp ?a ?b \<le> 0 then ?a @ ?b else ?b @ ?a)"
    using fingerprint_create_total [OF assms(1-3), of g sa sb] by (auto simp: Let_def)
  obtain db where db: "fingerprint_generator_create_for G g sb kb sa ka = Inr \<lparr>fp_displayable = Some db, fp_scannable = Some ?cb\<rparr>"
      "dfp_display_text db = (if strcmp ?b ?a \<le> 0 then ?b @ ?a else ?a @ ?b)"
    using fingerprint_create_total [OF assms(1,3,2), of g sb sa] by (auto simp: Let_def)
  obtain d where d: "scannable_fingerprint_serialize ?ca = Inr d" "scannable_fingerprint_deserialize d = Inr ?ca"
    using scannable_codec [OF assms(2-6)] by blast
  have "dfp_display_text da = dfp_display_text db" unfolding da(2) db(2) by (rule display_order)
  moreover have "length (dfp_display_text da) = 60" "\<forall>b \<in> set (dfp_display_text da). 48 \<le> b \<and> b \<le> 57"
    using display_of_digits [of h "nat (fg_iterations g)" sa ka] display_of_digits [of h "nat (fg_iterations g)" sb kb]
    unfolding da(2) by (auto split: if_splits)
  moreover have "scannable_fingerprint_compare ?cb ?ca = Inr True"
    by (simp add: scannable_fingerprint_compare_def identifiers_differ_def ec_public_key_compare_eq assms)
  ultimately show ?thesis using da(1) db(1) d by fastforce
qed

theorem fingerprints_match_witness:
  "\<exists>fa fb da db. fingerprint_generator_create_for sample_context (fingerprint_generator_create 2) [43, 49] (kp_public_key (sample_pair 1))
      [43, 50] (kp_public_key (sample_pair 3)) = Inr fa \<and> fp_displayable fa = Some da \<and>
    fingerprint_generator_create_for sample_context (fingerprint_generator_create 2) [43, 50] (kp_public_key (sample_pair 3))
      [43, 49] (kp_public_key (sample_pair 1)) = Inr fb \<and> fp_displayable fb = Some db \<and>
    dfp_display_text da = dfp_display_text db \<and> length (dfp_display_text da) = 60"
  using fingerprints_match [OF sample_sha512_ok sample_pub_ok [of 1] sample_pub_ok [of 3], of "[43, 49]" "[43, 50]"
      "fingerprint_generator_create 2"] by auto

text \<open>
  C12. What scanning a code tells: for every byte string that parses, the comparison with
  the device's own fingerprint gives a version error, an identifier error, or the exact
  answer whether both devices name the same two identity keys, each as the other's.
\<close>

theorem scanned_fingerprint_verdict:
  assumes "scannable_fingerprint_deserialize d = Inr c" "pub_ok ka" "pub_ok kb"
    and "scannable_fingerprint_create v (Some sa) (Some ka) (Some sb) (Some kb) = Inr own"
  shows "\<exists>ta ja tb jb. c = \<lparr>sfp_version = sfp_version c, sfp_local_stable_identifier = Some ta, sfp_local_identity_key = Some ja,
        sfp_remote_stable_identifier = Some tb, sfp_remote_identity_key = Some jb\<rparr> \<and>
    scannable_fingerprint_compare own c =
      (if sfp_version c \<noteq> v then Inl SG_ERR_FP_VERSION_MISMATCH
       else if sa \<noteq> tb \<or> sb \<noteq> ta then Inl SG_ERR_FP_IDENT_MISMATCH
       else Inr (ka = jb \<and> kb = ja))"
proof -
  obtain ta ja tb jb where c: "c = \<lparr>sfp_version = sfp_version c, sfp_local_stable_identifier = Some ta,
      sfp_local_identity_key = Some ja, sfp_remote_stable_identifier = Some tb, sfp_remote_identity_key = Some jb\<rparr>"
    and ok: "pub_ok ja" "pub_ok jb"
    using scanned_fields [OF assms(1)] by blast
  have own: "own = \<lparr>sfp_version = v, sfp_local_stable_identifier = Some sa, sfp_local_identity_key = Some ka,
        sfp_remote_stable_identifier = Some sb, sfp_remote_identity_key = Some kb\<rparr>"
    using assms(4) by (simp add: scannable_fingerprint_create_def)
  have "scannable_fingerprint_compare own c =
      (if sfp_version c \<noteq> v then Inl SG_ERR_FP_VERSION_MISMATCH
       else if sa \<noteq> tb \<or> sb \<noteq> ta then Inl SG_ERR_FP_IDENT_MISMATCH
       else Inr (ka = jb \<and> kb = ja))"
    by (subst (1) c) (simp add: own scannable_fingerprint_compare_def identifiers_differ_def ec_public_key_compare_eq ok assms(2,3))
  with c show ?thesis by blast
qed

theorem scanned_fingerprint_verdict_witness:
  "\<exists>d c own. scannable_fingerprint_deserialize d = Inr c \<and>
    scannable_fingerprint_create 0 (Some [43, 50]) (Some (kp_public_key (sample_pair 3))) (Some [43, 49])
      (Some (kp_public_key (sample_pair 9))) = Inr own \<and>
    scannable_fingerprint_compare own c = Inr False"
proof -
  let ?c = "\<lparr>sfp_version = 0, sfp_local_stable_identifier = Some [43, 49], sfp_local_identity_key = Some (kp_public_key (sample_pair 1)),
        sfp_remote_stable_identifier = Some [43, 50], sfp_remote_identity_key = Some (kp_public_key (sample_pair 3))\<rparr>"
  obtain d where d: "scannable_fingerprint_deserialize d = Inr ?c"
    using scannable_codec [OF sample_pub_ok [of 1] sample_pub_ok [of 3], of "[43, 49]" "[43, 50]" 0] by auto
  obtain own where own: "scannable_fingerprint_create 0 (Some [43, 50]) (Some (kp_public_key (sample_pair 3))) (Some [43, 49])
      (Some (kp_public_key (sample_pair 9))) = Inr own"
    by (simp add: scannable_fingerprint_create_def)
  have "kp_public_key (sample_pair 9) \<noteq> kp_public_key (sample_pair 1)" by code_simp
  with scanned_fingerprint_verdict [OF d sample_pub_ok sample_pub_ok own] d own show ?thesis by auto
qed

text \<open>
  The digits of one key: the string has six groups of five, and group \<open>j\<close> is the decimal
  number of the \<open>j\<close>-th five bytes of the digest, read as a big-endian number, modulo 100000.
  The digest is SHA-512 applied as often as the generator was told, each time to the last
  digest and the serialised key; it starts from the version, the key and the identifier.
\<close>

lemma displayed_digits:
  fixes n :: int and s :: bytes
  assumes "sha512_of G h" "pub_ok k" "j < 6"
  defines "d \<equiv> ((\<lambda>x. h (x @ DJB_TYPE # pub_data k)) ^^ nat n) ([0, 0] @ (DJB_TYPE # pub_data k) @ s)"
  shows "\<exists>t. fingerprint_generator_create_display_string G (fingerprint_generator_create n) s k = Inr t \<and> length t = 30 \<and>
    foldl (\<lambda>a b. a * 10 + (unat b - 48)) 0 (take 5 (drop (5 * j) t))
      = foldl (\<lambda>a b. a * 256 + unat b) 0 (take 5 (drop (5 * j) d)) mod 100000"
proof -
  have "unat (c mod 100000) = unat c mod 100000" for c :: u64 by (simp add: unat_mod)
  moreover have "take 5 (drop (5 * j) d) = [d ! (5 * j), d ! (5 * j + 1), d ! (5 * j + 2), d ! (5 * j + 3), d ! (5 * j + 4)]"
    using funpow_hash_length [OF assms(1,2), of "nat n" s] assms(3) unfolding d_def by (intro take_five) simp
  ultimately have "foldl (\<lambda>a b. a * 10 + (unat b - 48)) 0 (take 5 (drop (5 * j) (display_of h (nat n) s k)))
      = foldl (\<lambda>a b. a * 256 + unat b) 0 (take 5 (drop (5 * j) d)) mod 100000"
    unfolding display_of_def Let_def display_group [OF assms(3)] d_def [symmetric]
    by (simp only: five_digits_value mod_less_divisor zero_less_numeral digest_chunk_value foldl.simps mult_0 add_0)
  then show ?thesis
    using display_string_total [OF assms(1,2), of "fingerprint_generator_create n" s] display_of_digits(1)
    by (simp add: fingerprint_generator_create_def)
qed

end
