(* ===== verification/Machine_Ints.thy ===== *)
theory Machine_Ints
  imports Prelude
begin

text \<open>
  Signed machine integers: a word is read with \<open>sint\<close>, and under a bound on the exact result
  the wrapping operations give that result.  Numbers with mixed radix, the limbs of a field
  element, and their little-endian byte form.
\<close>

section \<open>Exact results\<close>

lemma sint_of_int_exact: "\<bar>v\<bar> < 2 ^ (LENGTH('a :: len) - 1) \<Longrightarrow> sint (of_int v :: 'a word) = v"
  by (simp only: sint_sbintrunc') (rule signed_take_bit_int_eq_self, auto)

lemma sint_exact:
  fixes x y :: "'a :: len word"
  shows "\<bar>sint x + sint y\<bar> < 2 ^ (LENGTH('a) - 1) \<Longrightarrow> sint (x + y) = sint x + sint y"
    and "\<bar>sint x - sint y\<bar> < 2 ^ (LENGTH('a) - 1) \<Longrightarrow> sint (x - y) = sint x - sint y"
    and "\<bar>sint x * sint y\<bar> < 2 ^ (LENGTH('a) - 1) \<Longrightarrow> sint (x * y) = sint x * sint y"
    and "\<bar>sint x\<bar> < 2 ^ (LENGTH('a) - 1) \<Longrightarrow> sint (- x) = - sint x"
  using sint_of_int_exact [of "sint x + sint y", where ?'a = 'a] sint_of_int_exact [of "sint x - sint y", where ?'a = 'a]
    sint_of_int_exact [of "sint x * sint y", where ?'a = 'a] sint_of_int_exact [of "- sint x", where ?'a = 'a]
  by simp_all

lemma sint_push_bit_exact:
  fixes x :: "'a :: len word"
  shows "\<bar>sint x * 2 ^ n\<bar> < 2 ^ (LENGTH('a) - 1) \<Longrightarrow> sint (push_bit n x) = sint x * 2 ^ n"
  using sint_of_int_exact [of "sint x * 2 ^ n", where ?'a = 'a] by (simp add: push_bit_eq_mult)

lemma sint_signed_drop_bit: "sint (signed_drop_bit n x) = sint x div 2 ^ n"
  by (simp add: sint_signed_drop_bit_eq drop_bit_eq_div)

section \<open>Mixed radix\<close>

text \<open>
  The value of a list of limbs that are alternately 26 and 25 bits wide, the least significant
  first; the flag says whether the first limb is a wide one.
\<close>

abbreviation limb_bits :: "bool \<Rightarrow> nat" where
  "limb_bits e \<equiv> if e then 26 else 25"

fun limbs_value :: "bool \<Rightarrow> int list \<Rightarrow> int" where
  "limbs_value e [] = 0"
| "limbs_value e (x # xs) = x + 2 ^ limb_bits e * limbs_value (\<not> e) xs"

fun le_value :: "bytes \<Rightarrow> int" where
  "le_value [] = 0"
| "le_value (b # bs) = uint b + 256 * le_value bs"

lemma le_value_bounds: "0 \<le> le_value bs" "le_value bs < 256 ^ length bs"
proof (induction bs)
  case (Cons b bs)
  have "0 \<le> uint b" "uint b < 256" using uint_lt2p [of b] by simp_all
  with Cons show "0 \<le> le_value (b # bs)" "le_value (b # bs) < 256 ^ length (b # bs)" by simp_all
qed simp_all

lemma length_10:
  "length xs = 10 \<longleftrightarrow> (\<exists>a b c d e f g h i j. xs = [a, b, c, d, e, f, g, h, i, j])"
  by (auto simp: length_Suc_conv numeral_eq_Suc)

section \<open>Bounds\<close>

abbreviation within :: "int \<Rightarrow> int list \<Rightarrow> bool" where
  "within B \<equiv> list_all (\<lambda>v. \<bar>v\<bar> < B)"

lemma abs_le_combine:
  fixes x y a b :: int
  shows "\<lbrakk>\<bar>x\<bar> \<le> a; \<bar>y\<bar> \<le> b\<rbrakk> \<Longrightarrow> \<bar>x + y\<bar> \<le> a + b"
    and "\<lbrakk>\<bar>x\<bar> \<le> a; \<bar>y\<bar> \<le> b\<rbrakk> \<Longrightarrow> \<bar>x * y\<bar> \<le> a * b"
    and "\<bar>numeral n :: int\<bar> \<le> numeral n"
  by (simp_all add: abs_mult mult_mono')

lemma map_sint_of_int:
  "within (2 ^ (LENGTH('a :: len) - 1)) vs \<Longrightarrow> map (sint \<circ> (of_int :: int \<Rightarrow> 'a word)) vs = vs"
  by (induction vs) (simp_all add: sint_of_int_exact)

end
