(* ===== verification/Curve25519_Field.thy ===== *)
theory Curve25519_Field
  imports Machine_Ints
begin

text \<open>
  Field arithmetic of \<^verbatim>\<open>curve25519/curve25519-donna.c\<close>.  A field element is an array of 64-bit
  signed limbs, alternately 26 and 25 bits wide: ten in short form, nineteen for a product
  that has not been reduced.  The value of an array is a number modulo \<open>2 ^ 255 - 19\<close>; every
  operation computes the sum, difference or product of the values it is given, as long as the
  limbs keep the bounds that the comments of the source state.
\<close>

type_synonym limb = "64 word"

definition p25519 :: int where "p25519 = 2 ^ 255 - 19"

section \<open>Sums and products\<close>

definition fsum :: "limb list \<Rightarrow> limb list \<Rightarrow> limb list" where
  "fsum out inp = map2 (+) out inp"

definition fdifference :: "limb list \<Rightarrow> limb list \<Rightarrow> limb list" where
  "fdifference out inp = map2 (-) inp out"

definition fscalar_product :: "limb list \<Rightarrow> limb \<Rightarrow> limb list" where
  "fscalar_product inp scalar = map (\<lambda>x. x * scalar) inp"

text \<open>The conversion \<^verbatim>\<open>(limb) ((s32) x)\<close>.\<close>

definition s32 :: "limb \<Rightarrow> limb" where
  "s32 x = scast (ucast x :: 32 word)"

text \<open>The nineteen sums of products of \<^verbatim>\<open>fproduct\<close>, over any ring.\<close>

definition product_limbs :: "'a :: comm_ring_1 list \<Rightarrow> 'a list \<Rightarrow> 'a list" where
  "product_limbs in2 inp =
     [in2 ! 0 * inp ! 0,
      in2 ! 0 * inp ! 1 + in2 ! 1 * inp ! 0,
      2 * (in2 ! 1 * inp ! 1) + in2 ! 0 * inp ! 2 + in2 ! 2 * inp ! 0,
      in2 ! 1 * inp ! 2 + in2 ! 2 * inp ! 1 + in2 ! 0 * inp ! 3 + in2 ! 3 * inp ! 0,
      in2 ! 2 * inp ! 2 + 2 * (in2 ! 1 * inp ! 3 + in2 ! 3 * inp ! 1) + in2 ! 0 * inp ! 4 + in2 ! 4 * inp ! 0,
      in2 ! 2 * inp ! 3 + in2 ! 3 * inp ! 2 + in2 ! 1 * inp ! 4 + in2 ! 4 * inp ! 1 + in2 ! 0 * inp ! 5 +
        in2 ! 5 * inp ! 0,
      2 * (in2 ! 3 * inp ! 3 + in2 ! 1 * inp ! 5 + in2 ! 5 * inp ! 1) + in2 ! 2 * inp ! 4 + in2 ! 4 * inp ! 2 +
        in2 ! 0 * inp ! 6 + in2 ! 6 * inp ! 0,
      in2 ! 3 * inp ! 4 + in2 ! 4 * inp ! 3 + in2 ! 2 * inp ! 5 + in2 ! 5 * inp ! 2 + in2 ! 1 * inp ! 6 +
        in2 ! 6 * inp ! 1 + in2 ! 0 * inp ! 7 + in2 ! 7 * inp ! 0,
      in2 ! 4 * inp ! 4 + 2 * (in2 ! 3 * inp ! 5 + in2 ! 5 * inp ! 3 + in2 ! 1 * inp ! 7 + in2 ! 7 * inp ! 1) +
        in2 ! 2 * inp ! 6 + in2 ! 6 * inp ! 2 + in2 ! 0 * inp ! 8 + in2 ! 8 * inp ! 0,
      in2 ! 4 * inp ! 5 + in2 ! 5 * inp ! 4 + in2 ! 3 * inp ! 6 + in2 ! 6 * inp ! 3 + in2 ! 2 * inp ! 7 +
        in2 ! 7 * inp ! 2 + in2 ! 1 * inp ! 8 + in2 ! 8 * inp ! 1 + in2 ! 0 * inp ! 9 + in2 ! 9 * inp ! 0,
      2 * (in2 ! 5 * inp ! 5 + in2 ! 3 * inp ! 7 + in2 ! 7 * inp ! 3 + in2 ! 1 * inp ! 9 + in2 ! 9 * inp ! 1) +
        in2 ! 4 * inp ! 6 + in2 ! 6 * inp ! 4 + in2 ! 2 * inp ! 8 + in2 ! 8 * inp ! 2,
      in2 ! 5 * inp ! 6 + in2 ! 6 * inp ! 5 + in2 ! 4 * inp ! 7 + in2 ! 7 * inp ! 4 + in2 ! 3 * inp ! 8 +
        in2 ! 8 * inp ! 3 + in2 ! 2 * inp ! 9 + in2 ! 9 * inp ! 2,
      in2 ! 6 * inp ! 6 + 2 * (in2 ! 5 * inp ! 7 + in2 ! 7 * inp ! 5 + in2 ! 3 * inp ! 9 + in2 ! 9 * inp ! 3) +
        in2 ! 4 * inp ! 8 + in2 ! 8 * inp ! 4,
      in2 ! 6 * inp ! 7 + in2 ! 7 * inp ! 6 + in2 ! 5 * inp ! 8 + in2 ! 8 * inp ! 5 + in2 ! 4 * inp ! 9 +
        in2 ! 9 * inp ! 4,
      2 * (in2 ! 7 * inp ! 7 + in2 ! 5 * inp ! 9 + in2 ! 9 * inp ! 5) + in2 ! 6 * inp ! 8 + in2 ! 8 * inp ! 6,
      in2 ! 7 * inp ! 8 + in2 ! 8 * inp ! 7 + in2 ! 6 * inp ! 9 + in2 ! 9 * inp ! 6,
      in2 ! 8 * inp ! 8 + 2 * (in2 ! 7 * inp ! 9 + in2 ! 9 * inp ! 7),
      in2 ! 8 * inp ! 9 + in2 ! 9 * inp ! 8,
      2 * (in2 ! 9 * inp ! 9)]"

definition fproduct :: "limb list \<Rightarrow> limb list \<Rightarrow> limb list" where
  "fproduct in2 inp = product_limbs (map s32 in2) (map s32 inp)"

section \<open>Reduction\<close>

definition times_19_added :: "limb \<Rightarrow> limb \<Rightarrow> limb" where
  "times_19_added lo hi = lo + push_bit 4 hi + push_bit 1 hi + hi"

text \<open>Limbs 10 to 18 are added to limbs 0 to 8; limb 9 stays.\<close>

definition freduce_degree :: "limb list \<Rightarrow> limb list" where
  "freduce_degree out = map2 times_19_added (take 9 out) (drop 10 out) @ drop 9 out"

definition div_by_2_26 :: "limb \<Rightarrow> limb" where
  "div_by_2_26 v =
     (let highword = ucast (drop_bit 32 v) :: 32 word;
          sign = signed_drop_bit 31 highword;
          roundoff = drop_bit 6 sign
      in signed_drop_bit 26 (v + scast roundoff))"

definition div_by_2_25 :: "limb \<Rightarrow> limb" where
  "div_by_2_25 v =
     (let highword = ucast (drop_bit 32 v) :: 32 word;
          sign = signed_drop_bit 31 highword;
          roundoff = drop_bit 7 sign
      in signed_drop_bit 25 (v + scast roundoff))"

text \<open>
  The loop of \<^verbatim>\<open>freduce_coefficients\<close> carries from every limb into the next one; the flag
  says whether the first limb of the rest is a wide one.
\<close>

fun carry_limbs :: "bool \<Rightarrow> limb list \<Rightarrow> limb list" where
  "carry_limbs e (x # y # xs) =
     (let over = (if e then div_by_2_26 x else div_by_2_25 x)
      in (x - push_bit (limb_bits e) over) # carry_limbs (\<not> e) ((y + over) # xs))"
| "carry_limbs e xs = xs"

definition freduce_coefficients :: "limb list \<Rightarrow> limb list" where
  "freduce_coefficients out =
     (let out1 = carry_limbs True (take 10 out @ [0]);
          x0 = times_19_added (out1 ! 0) (out1 ! 10);
          over = div_by_2_26 x0
      in [x0 - push_bit 26 over, out1 ! 1 + over] @ take 8 (drop 2 out1) @ [0] @ drop 11 out)"

definition fmul :: "limb list \<Rightarrow> limb list \<Rightarrow> limb list" where
  "fmul inp in2 = take 10 (freduce_coefficients (freduce_degree (fproduct inp in2)))"

section \<open>Sums and products of values\<close>

abbreviation field_value :: "limb list \<Rightarrow> int" where
  "field_value xs \<equiv> limbs_value True (map sint xs)"

lemma sint_narrowed: "\<bar>sint (x :: limb)\<bar> < 2 ^ 31 \<Longrightarrow> sint (ucast x :: 32 word) = sint x"
proof -
  have "(ucast x :: 32 word) = of_int (sint x)" by (rule bit_word_eqI) (simp add: bit_simps)
  then show "sint (ucast x :: 32 word) = sint x" if "\<bar>sint x\<bar> < 2 ^ 31"
    using sint_of_int_exact [of "sint x", where ?'a = 32] that by simp
qed

lemma s32_exact: "\<bar>sint x\<bar> < 2 ^ 31 \<Longrightarrow> s32 x = x"
  unfolding s32_def by (metis of_int_sint scast_id sint_narrowed)

lemma product_limbs_of_int:
  assumes "length A = 10" "length B = 10"
  shows "product_limbs (map of_int A) (map of_int B) = map of_int (product_limbs A B)"
  using assms by (simp add: product_limbs_def)

lemma product_limbs_value:
  assumes "length A = 10" "length B = 10"
  shows "limbs_value True (product_limbs A B) = limbs_value True A * limbs_value True B"
proof -
  obtain a0 a1 a2 a3 a4 a5 a6 a7 a8 a9 where A: "A = [a0, a1, a2, a3, a4, a5, a6, a7, a8, a9]"
    using assms(1) unfolding length_10 by blast
  obtain b0 b1 b2 b3 b4 b5 b6 b7 b8 b9 where B: "B = [b0, b1, b2, b3, b4, b5, b6, b7, b8, b9]"
    using assms(2) unfolding length_10 by blast
  show ?thesis unfolding A B product_limbs_def by (simp add: algebra_simps)
qed

lemma product_limbs_mono:
  fixes A B :: "int list"
  assumes "length A = 10" "length B = 10" "list_all (\<lambda>v. \<bar>v\<bar> \<le> m) A" "list_all (\<lambda>v. \<bar>v\<bar> \<le> n) B"
  shows "list_all2 (\<lambda>v b. \<bar>v\<bar> \<le> b) (product_limbs A B) (product_limbs (replicate 10 m) (replicate 10 n))"
proof -
  have "\<bar>A ! i\<bar> \<le> replicate 10 m ! i" "\<bar>B ! i\<bar> \<le> replicate 10 n ! i" if "i < 10" for i
    using assms that by (auto simp: list_all_length)
  note nth = this(1) [of 0] this(1) [of 1] this(1) [of 2] this(1) [of 3] this(1) [of 4] this(1) [of 5] this(1) [of 6]
    this(1) [of 7] this(1) [of 8] this(1) [of 9] this(2) [of 0] this(2) [of 1] this(2) [of 2] this(2) [of 3] this(2) [of 4]
    this(2) [of 5] this(2) [of 6] this(2) [of 7] this(2) [of 8] this(2) [of 9]
  show ?thesis
    unfolding product_limbs_def list.rel_inject list_all2_Nil
    by (intro conjI TrueI abs_le_combine nth) simp_all
qed

text \<open>With limbs below \<open>2 ^ 27\<close> no sum of products leaves 64 bits.\<close>

lemma product_limbs_bound:
  fixes A B :: "int list"
  assumes "length A = 10" "length B = 10" "within (2 ^ 27) A" "within (2 ^ 27) B"
  shows "within (14 * 2 ^ 54) (product_limbs A B)"
proof -
  have "list_all (\<lambda>v. \<bar>v\<bar> \<le> 2 ^ 27 - 1) A" "list_all (\<lambda>v. \<bar>v\<bar> \<le> 2 ^ 27 - 1) B"
    using assms(3,4) by (auto elim!: list.pred_mono_strong)
  from product_limbs_mono [OF assms(1,2) this]
  have "list_all2 (\<lambda>v b. \<bar>v\<bar> \<le> b) (product_limbs A B) (product_limbs (replicate 10 (2 ^ 27 - 1)) (replicate 10 (2 ^ 27 - 1)))" .
  moreover have "list_all (\<lambda>b. b < 14 * 2 ^ 54) (product_limbs (replicate 10 (2 ^ 27 - 1)) (replicate 10 (2 ^ 27 - 1 :: int)))"
    by (simp add: product_limbs_def)
  ultimately show ?thesis by (fastforce simp: list_all2_conv_all_nth list_all_length)
qed

lemma fproduct_exact:
  assumes "length a = 10" "length b = 10" "within (2 ^ 27) (map sint a)" "within (2 ^ 27) (map sint b)"
  shows "map sint (fproduct a b) = product_limbs (map sint a) (map sint b)"
proof -
  have s: "map s32 xs = map of_int (map sint xs)" if "within (2 ^ 27) (map sint xs)" for xs
    using that by (induction xs) (simp_all add: s32_exact)
  have "within (2 ^ (64 - 1)) (product_limbs (map sint a) (map sint b))"
    using product_limbs_bound [of "map sint a" "map sint b"] assms by (fastforce simp: list_all_iff)
  with assms show ?thesis
    unfolding fproduct_def s [OF assms(3)] s [OF assms(4)]
    by (subst product_limbs_of_int) (simp_all add: map_sint_of_int [where ?'a = 64, simplified])
qed

section \<open>Reduction keeps the value\<close>

text \<open>Rounding towards zero: the remainder is below the divisor and the quotient does not grow.\<close>

lemma round_to_zero:
  fixes v :: int and n :: nat
  defines "q \<equiv> (v + (if v < 0 then 2 ^ n - 1 else 0)) div 2 ^ n"
  shows "\<bar>v - q * 2 ^ n\<bar> < 2 ^ n" "\<bar>q\<bar> * 2 ^ n \<le> \<bar>v\<bar>"
proof -
  define w r where "w = v + (if v < 0 then 2 ^ n - 1 else 0)" and "r = w mod 2 ^ n"
  have "q = w div 2 ^ n" by (simp add: q_def w_def)
  then have eq: "w = q * 2 ^ n + r" "0 \<le> r" "r < 2 ^ n" by (simp_all add: r_def div_mult_mod_eq)
  moreover have wv: "v < 0 \<Longrightarrow> w = v + 2 ^ n - 1" "\<not> v < 0 \<Longrightarrow> w = v" by (simp_all add: w_def)
  ultimately show "\<bar>v - q * 2 ^ n\<bar> < 2 ^ n" by linarith
  have "if v < 0 then q \<le> 0 else 0 \<le> q"
  proof (cases "v < 0")
    case True
    then have "w < 2 ^ n" by (simp add: w_def)
    then have "w div 2 ^ n \<le> (2 ^ n - 1) div 2 ^ n" by (intro zdiv_mono1) simp_all
    also have "\<dots> = 0" by (simp add: div_pos_pos_trivial)
    finally have "w div 2 ^ n \<le> 0" .
    with True show ?thesis by (simp add: q_def w_def)
  qed (simp add: q_def pos_imp_zdiv_nonneg_iff)
  then have "\<bar>q\<bar> * 2 ^ n = (if v < 0 then - (q * 2 ^ n) else q * 2 ^ n)" by simp
  with eq wv show "\<bar>q\<bar> * 2 ^ n \<le> \<bar>v\<bar>" by (cases "v < 0") simp_all
qed

lemma sign_word: "signed_drop_bit 31 (ucast (drop_bit 32 (v :: limb)) :: 32 word) = (if sint v < 0 then - 1 else 0)"
proof -
  have "bit (ucast (drop_bit 32 v) :: 32 word) 31 = bit v 63" by (simp add: bit_simps)
  also have "\<dots> = (sint v < 0)" using bit_last_iff [of v] by simp
  finally show ?thesis by (intro bit_word_eqI) (auto simp: bit_signed_drop_bit_iff Suc_le_eq)
qed

lemma div_by_exact:
  "sint (div_by_2_26 v) = (sint v + (if sint v < 0 then 2 ^ 26 - 1 else 0)) div 2 ^ 26"
  "sint (div_by_2_25 v) = (sint v + (if sint v < 0 then 2 ^ 25 - 1 else 0)) div 2 ^ 25"
proof -
  have r: "(scast (mask 26 :: 32 word) :: limb) = 67108863" "(scast (mask 25 :: 32 word) :: limb) = 33554431"
    by code_simp+
  have b: "- (2 ^ 63) \<le> sint v" "sint v < 2 ^ 63" using sint_ge [of v] sint_lt [of v] by simp_all
  have "sint v < 0 \<Longrightarrow> sint (v + 67108863) = sint v + 67108863" "sint v < 0 \<Longrightarrow> sint (v + 33554431) = sint v + 33554431"
    using sint_exact(1) [of v 67108863] sint_exact(1) [of v 33554431] b by simp_all
  then show "sint (div_by_2_26 v) = (sint v + (if sint v < 0 then 2 ^ 26 - 1 else 0)) div 2 ^ 26"
    "sint (div_by_2_25 v) = (sint v + (if sint v < 0 then 2 ^ 25 - 1 else 0)) div 2 ^ 25"
    by (simp_all add: div_by_2_26_def div_by_2_25_def Let_def sign_word sint_signed_drop_bit r)
qed

lemma over_bounds:
  fixes v :: limb and e :: bool
  defines "q \<equiv> sint (if e then div_by_2_26 v else div_by_2_25 v)"
  shows "\<bar>sint v - q * 2 ^ limb_bits e\<bar> < 2 ^ limb_bits e" "\<bar>q\<bar> * 2 ^ limb_bits e \<le> \<bar>sint v\<bar>"
  using round_to_zero [of "sint v" "limb_bits e"] unfolding q_def by (cases e; simp only: div_by_exact if_True if_False)+

text \<open>Limbs within their width.\<close>

fun reduced :: "bool \<Rightarrow> int list \<Rightarrow> bool" where
  "reduced e [] = True"
| "reduced e (x # xs) = (\<bar>x\<bar> < 2 ^ limb_bits e \<and> reduced (\<not> e) xs)"

lemma length_carry_limbs [simp]: "length (carry_limbs e xs) = length xs"
  by (induction e xs rule: carry_limbs.induct) (simp_all add: Let_def)

text \<open>One pass of carries, for limbs up to \<open>B\<close> where \<open>C\<close> is the largest carry.\<close>

lemma carry_limbs_exact:
  assumes "\<bar>sint x\<bar> \<le> B + C" "list_all (\<lambda>y. \<bar>sint y\<bar> \<le> B) ys" "B + C \<le> C * 2 ^ 25" "B + C < 2 ^ 63"
  shows "limbs_value e (map sint (carry_limbs e (x # ys))) = limbs_value e (map sint (x # ys)) \<and>
    reduced e (map sint (butlast (carry_limbs e (x # ys)))) \<and>
    (ys \<noteq> [] \<longrightarrow> \<bar>sint (last (carry_limbs e (x # ys)))\<bar> \<le> \<bar>sint (last ys)\<bar> + C)"
  using assms(1,2)
proof (induction ys arbitrary: x e)
  case Nil
  then show ?case by simp
next
  case (Cons y ys)
  define q where "q = (if e then div_by_2_26 x else div_by_2_25 x)"
  note ob = over_bounds [where e = e and v = x, folded q_def]
  have w: "(2 :: int) ^ 25 \<le> 2 ^ limb_bits e" by simp
  have "\<bar>sint q\<bar> * 2 ^ 25 \<le> \<bar>sint q\<bar> * 2 ^ limb_bits e" by (rule mult_left_mono [OF w]) simp
  with ob(2) Cons.prems(1) assms(3) have q: "\<bar>sint q\<bar> \<le> C" by simp
  have "\<bar>sint q * 2 ^ limb_bits e\<bar> < 2 ^ 63"
    using ob(2) Cons.prems(1) assms(4) by (simp only: abs_mult power_abs abs_numeral)
  then have sh: "sint (push_bit (limb_bits e) q) = sint q * 2 ^ limb_bits e" using sint_push_bit_exact [of q "limb_bits e"] by simp
  have "(2 :: int) ^ limb_bits e < 2 ^ 63" by simp
  then have "\<bar>sint x - sint (push_bit (limb_bits e) q)\<bar> < 2 ^ 63" using ob(1) unfolding sh by linarith
  then have x': "sint (x - push_bit (limb_bits e) q) = sint x - sint q * 2 ^ limb_bits e"
    using sint_exact(2) [of x "push_bit (limb_bits e) q"] by (simp add: sh)
  have ysum: "\<bar>sint y + sint q\<bar> \<le> B + C" using Cons.prems(2) q by simp linarith
  define z where "z = y + q"
  have z: "sint z = sint y + sint q" using sint_exact(1) [of y q] assms(4) ysum by (simp add: z_def)
  have step: "carry_limbs e (x # y # ys) = (x - push_bit (limb_bits e) q) # carry_limbs (\<not> e) (z # ys)"
    by (simp add: q_def z_def Let_def)
  note IH = Cons.IH [of z "\<not> e", unfolded z, OF ysum]
  have ne: "carry_limbs (\<not> e) (z # ys) \<noteq> []" by (metis length_carry_limbs length_0_conv list.distinct(1))
  show ?case unfolding step using IH Cons.prems(2) ob(1) ne q
    by (cases "ys = []") (auto simp: x' z algebra_simps simp del: carry_limbs.simps(1))
qed

lemma times_19_exact:
  assumes "\<bar>sint lo\<bar> + 19 * \<bar>sint hi\<bar> < 2 ^ 63"
  shows "sint (times_19_added lo hi) = sint lo + 19 * sint hi"
proof -
  have "times_19_added lo hi = of_int (sint lo + 19 * sint hi)"
    by (simp add: times_19_added_def push_bit_eq_mult algebra_simps)
  moreover have "\<bar>sint lo + 19 * sint hi\<bar> < 2 ^ 63" using assms by linarith
  ultimately show ?thesis using sint_of_int_exact [of "sint lo + 19 * sint hi", where ?'a = 64] by simp
qed

lemma length_19:
  "length xs = 19 \<longleftrightarrow> (\<exists>a b c d e f g h i j k l m n p q r s t. xs = [a, b, c, d, e, f, g, h, i, j, k, l, m, n, p, q, r, s, t])"
  by (auto simp: length_Suc_conv numeral_eq_Suc)

abbreviation field_eq :: "int \<Rightarrow> int \<Rightarrow> bool" where
  "field_eq a b \<equiv> a mod p25519 = b mod p25519"

lemma field_eq_multiple: "a = b + p25519 * c \<Longrightarrow> field_eq a b"
  by simp

lemma freduce_degree_exact:
  assumes "length t = 19" "within (14 * 2 ^ 54) (map sint t)"
  shows "length (freduce_degree t) = 19" "within (280 * 2 ^ 54) (map sint (take 10 (freduce_degree t)))"
    and "field_eq (field_value (take 10 (freduce_degree t))) (field_value t)"
proof -
  obtain a b c d e f g h i j k l m n p q r s u where
    t: "t = [a, b, c, d, e, f, g, h, i, j, k, l, m, n, p, q, r, s, u]" using assms(1) unfolding length_19 by blast
  have x: "sint (times_19_added x y) = sint x + 19 * sint y" if "x \<in> set t" "y \<in> set t" for x y
  proof (rule times_19_exact)
    have "\<bar>sint x\<bar> < 14 * 2 ^ 54" "\<bar>sint y\<bar> < 14 * 2 ^ 54" using assms(2) that by (simp_all add: list_all_iff)
    then show "\<bar>sint x\<bar> + 19 * \<bar>sint y\<bar> < 2 ^ 63" by simp
  qed
  note ex = x [unfolded t, simplified]
  show "length (freduce_degree t) = 19" by (simp add: freduce_degree_def assms)
  have b: "\<bar>sint x + 19 * sint y\<bar> < 280 * 2 ^ 54" if "x \<in> set t" "y \<in> set t" for x y
  proof -
    have "\<bar>sint x\<bar> < 14 * 2 ^ 54" "\<bar>sint y\<bar> < 14 * 2 ^ 54" using assms(2) that by (simp_all add: list_all_iff)
    then show ?thesis by linarith
  qed
  show "within (280 * 2 ^ 54) (map sint (take 10 (freduce_degree t)))"
    using assms(2) b [unfolded t, simplified] by (simp add: freduce_degree_def t ex)
  show "field_eq (field_value (take 10 (freduce_degree t))) (field_value t)"
    by (rule field_eq_multiple [where c = "- limbs_value True (map sint [k, l, m, n, p, q, r, s, u])"])
       (simp add: freduce_degree_def t ex p25519_def algebra_simps)
qed

lemma reduced_bound: "reduced e xs \<Longrightarrow> within (2 ^ 26) xs"
  by (induction e xs rule: reduced.induct) (auto split: if_splits)

lemma freduce_coefficients_exact:
  assumes "10 \<le> length t" "within (280 * 2 ^ 54 + 1) (map sint (take 10 t))"
  shows "within (2 ^ 26) (map sint (take 10 (freduce_coefficients t)))"
    and "field_eq (field_value (take 10 (freduce_coefficients t))) (field_value (take 10 t))"
    and "length (take 10 (freduce_coefficients t)) = 10"
proof -
  let ?C = "281 * 2 ^ 29 :: int" and ?o = "carry_limbs True (take 10 t @ [0])"
  obtain x ys where t: "take 10 t = x # ys" using assms(1) by (cases t) auto
  have "list_all (\<lambda>y. \<bar>sint y\<bar> \<le> 280 * 2 ^ 54) (x # ys)"
    using assms(2) unfolding t by (auto elim!: list.pred_mono_strong simp: list.pred_map)
  then have b: "\<bar>sint x\<bar> \<le> 280 * 2 ^ 54 + ?C" "list_all (\<lambda>y. \<bar>sint y\<bar> \<le> 280 * 2 ^ 54) (ys @ [0])" by simp_all
  have pass: "field_value ?o = field_value (take 10 t @ [0])" "reduced True (map sint (butlast ?o))" "\<bar>sint (last ?o)\<bar> \<le> ?C"
    using carry_limbs_exact [OF b, of True] by (simp_all add: t)
  have "length (butlast ?o) = 10" using assms(1) by simp
  then obtain c0 c1 c2 c3 c4 c5 c6 c7 c8 c9 where c: "butlast ?o = [c0, c1, c2, c3, c4, c5, c6, c7, c8, c9]"
    unfolding length_10 by blast
  have "?o \<noteq> []" using assms(1) by (metis length_carry_limbs append_is_Nil_conv length_0_conv list.distinct(1))
  then obtain c10 where o: "?o = [c0, c1, c2, c3, c4, c5, c6, c7, c8, c9, c10]" using c by (metis append_butlast_last_id append_Cons append_Nil)
  have red: "reduced True (map sint [c0, c1, c2, c3, c4, c5, c6, c7, c8, c9])" and c10: "\<bar>sint c10\<bar> \<le> ?C" using pass(2,3) by (simp_all add: o)
  define x0 where "x0 = times_19_added c0 c10"
  have x0: "sint x0 = sint c0 + 19 * sint c10" unfolding x0_def using red c10 by (intro times_19_exact) simp
  define q where "q = div_by_2_26 x0"
  note ob = over_bounds [where e = True and v = x0, simplified, folded q_def]
  have "\<bar>sint c0\<bar> < 67108864" using red by simp
  with ob(2) c10 x0 have q: "\<bar>sint q\<bar> < 2 ^ 16" by simp
  have r0: "sint (x0 - push_bit 26 q) = sint x0 - sint q * 2 ^ 26"
    using sint_push_bit_exact [of q 26] sint_exact(2) [of x0 "push_bit 26 q"] q ob(1) by simp
  have c1: "\<bar>sint c1\<bar> < 33554432" using red by simp
  with q have r1: "sint (c1 + q) = sint c1 + sint q" by (intro sint_exact) simp
  have res: "take 10 (freduce_coefficients t) = [x0 - push_bit 26 q, c1 + q, c2, c3, c4, c5, c6, c7, c8, c9]"
    by (simp add: freduce_coefficients_def o Let_def x0_def q_def)
  show "length (take 10 (freduce_coefficients t)) = 10" by (simp add: res)
  show "within (2 ^ 26) (map sint (take 10 (freduce_coefficients t)))" unfolding res using red q c1 ob(1) by (simp add: r0 r1)
  have v: "limbs_value e (xs @ [0]) = limbs_value e xs" for e xs by (induction e xs rule: limbs_value.induct) simp_all
  have "field_value (take 10 (freduce_coefficients t)) = field_value ?o - p25519 * sint c10"
    unfolding res o by (simp add: r0 r1 x0 p25519_def algebra_simps)
  with pass(1) show "field_eq (field_value (take 10 (freduce_coefficients t))) (field_value (take 10 t))"
    using v [of True "map sint (take 10 t)"] by (intro field_eq_multiple [where c = "- sint c10"]) simp
qed

text \<open>Multiplication: the product of the values, with limbs below \<open>2 ^ 26\<close> again.\<close>

lemma fmul_exact:
  assumes "length a = 10" "length b = 10" "within (2 ^ 27) (map sint a)" "within (2 ^ 27) (map sint b)"
  shows "length (fmul a b) = 10" "within (2 ^ 26) (map sint (fmul a b))"
    and "field_eq (field_value (fmul a b)) (field_value a * field_value b)"
proof -
  let ?t = "fproduct a b"
  have t: "length ?t = 19" by (simp add: fproduct_def product_limbs_def)
  have "within (14 * 2 ^ 54) (map sint ?t)"
    unfolding fproduct_exact [OF assms] by (rule product_limbs_bound) (use assms in simp_all)
  note d = freduce_degree_exact [OF t this]
  have "within (280 * 2 ^ 54 + 1) (map sint (take 10 (freduce_degree ?t)))" using d(2) by (auto elim!: list.pred_mono_strong)
  note r = freduce_coefficients_exact [OF _ this]
  show "length (fmul a b) = 10" "within (2 ^ 26) (map sint (fmul a b))" using r(1,3) d(1) by (simp_all add: fmul_def)
  have "field_value ?t = field_value a * field_value b"
    unfolding fproduct_exact [OF assms] using assms by (simp add: product_limbs_value)
  with r(2) d(1,3) show "field_eq (field_value (fmul a b)) (field_value a * field_value b)" by (simp add: fmul_def)
qed

end
