(* ===== verification/Curve25519_Ladder.thy ===== *)
theory Curve25519_Ladder
  imports Curve25519_Field
begin

text \<open>
  The Montgomery ladder and the inversion of \<^verbatim>\<open>curve25519/curve25519-donna.c\<close>, against the
  formulas of RFC 7748 over the integers modulo \<open>2 ^ 255 - 19\<close>.
\<close>

section \<open>Squaring\<close>

text \<open>The nineteen sums of \<^verbatim>\<open>fsquare_inner\<close>, over any ring.\<close>

definition square_limbs :: "'a :: comm_ring_1 list \<Rightarrow> 'a list" where
  "square_limbs inp =
     [inp ! 0 * inp ! 0,
      2 * (inp ! 0 * inp ! 1),
      2 * (inp ! 1 * inp ! 1 + inp ! 0 * inp ! 2),
      2 * (inp ! 1 * inp ! 2 + inp ! 0 * inp ! 3),
      inp ! 2 * inp ! 2 + 4 * (inp ! 1 * inp ! 3) + 2 * (inp ! 0 * inp ! 4),
      2 * (inp ! 2 * inp ! 3 + inp ! 1 * inp ! 4 + inp ! 0 * inp ! 5),
      2 * (inp ! 3 * inp ! 3 + inp ! 2 * inp ! 4 + inp ! 0 * inp ! 6 + 2 * (inp ! 1 * inp ! 5)),
      2 * (inp ! 3 * inp ! 4 + inp ! 2 * inp ! 5 + inp ! 1 * inp ! 6 + inp ! 0 * inp ! 7),
      inp ! 4 * inp ! 4 + 2 * (inp ! 2 * inp ! 6 + inp ! 0 * inp ! 8 + 2 * (inp ! 1 * inp ! 7 + inp ! 3 * inp ! 5)),
      2 * (inp ! 4 * inp ! 5 + inp ! 3 * inp ! 6 + inp ! 2 * inp ! 7 + inp ! 1 * inp ! 8 + inp ! 0 * inp ! 9),
      2 * (inp ! 5 * inp ! 5 + inp ! 4 * inp ! 6 + inp ! 2 * inp ! 8 + 2 * (inp ! 3 * inp ! 7 + inp ! 1 * inp ! 9)),
      2 * (inp ! 5 * inp ! 6 + inp ! 4 * inp ! 7 + inp ! 3 * inp ! 8 + inp ! 2 * inp ! 9),
      inp ! 6 * inp ! 6 + 2 * (inp ! 4 * inp ! 8 + 2 * (inp ! 5 * inp ! 7 + inp ! 3 * inp ! 9)),
      2 * (inp ! 6 * inp ! 7 + inp ! 5 * inp ! 8 + inp ! 4 * inp ! 9),
      2 * (inp ! 7 * inp ! 7 + inp ! 6 * inp ! 8 + 2 * (inp ! 5 * inp ! 9)),
      2 * (inp ! 7 * inp ! 8 + inp ! 6 * inp ! 9),
      inp ! 8 * inp ! 8 + 4 * (inp ! 7 * inp ! 9),
      2 * (inp ! 8 * inp ! 9),
      2 * (inp ! 9 * inp ! 9)]"

definition fsquare_inner :: "limb list \<Rightarrow> limb list" where
  "fsquare_inner inp = square_limbs (map s32 inp)"

definition fsquare :: "limb list \<Rightarrow> limb list" where
  "fsquare inp = take 10 (freduce_coefficients (freduce_degree (fsquare_inner inp)))"

lemma square_limbs_product: "square_limbs xs = product_limbs xs xs"
  by (simp add: square_limbs_def product_limbs_def algebra_simps)

lemma fsquare_fmul: "fsquare inp = fmul inp inp"
  by (simp add: fsquare_def fsquare_inner_def fmul_def fproduct_def square_limbs_product)

section \<open>Representing a number\<close>

definition field_rep :: "int \<Rightarrow> limb list \<Rightarrow> int \<Rightarrow> bool" where
  "field_rep B xs v \<longleftrightarrow> length xs = 10 \<and> within B (map sint xs) \<and> field_eq (field_value xs) v"

abbreviation tight :: "limb list \<Rightarrow> int \<Rightarrow> bool" where "tight \<equiv> field_rep (2 ^ 26)"
abbreviation loose :: "limb list \<Rightarrow> int \<Rightarrow> bool" where "loose \<equiv> field_rep (2 ^ 27)"

named_theorems field_intros

lemma loose_of_tight [field_intros]: "tight xs v \<Longrightarrow> loose xs v"
  by (auto simp: field_rep_def elim!: list.pred_mono_strong)

lemma field_rep_cong: "field_rep B xs v \<Longrightarrow> field_eq v w \<Longrightarrow> field_rep B xs w"
  by (simp add: field_rep_def)

lemma tight_fmul [field_intros]:
  assumes "loose a u" "loose b v"
  shows "tight (fmul a b) (u * v)"
proof -
  have "field_eq (field_value a * field_value b) (u * v)" using assms by (intro mod_mult_cong) (simp_all add: field_rep_def)
  with fmul_exact [of a b] assms show ?thesis by (simp add: field_rep_def)
qed

lemma tight_fsquare [field_intros]: "loose a u \<Longrightarrow> tight (fsquare a) (u * u)"
  unfolding fsquare_fmul by (rule tight_fmul)

lemma map2_sint:
  assumes "\<And>x y. \<lbrakk>\<bar>sint x\<bar> < 2 ^ 26; \<bar>sint y\<bar> < 2 ^ 26\<rbrakk> \<Longrightarrow> sint (f x y) = g (sint x) (sint y)"
    and "length a = length b" "within (2 ^ 26) (map sint a)" "within (2 ^ 26) (map sint b)"
  shows "map sint (map2 f a b) = map2 g (map sint a) (map sint b)"
  using assms(2-4) by (induction a b rule: list_induct2) (simp_all add: assms(1))

lemma limbs_value_sum:
  "length xs = length ys \<Longrightarrow> limbs_value e (map2 (+) xs ys) = limbs_value e xs + limbs_value e ys"
  "length xs = length ys \<Longrightarrow> limbs_value e (map2 (-) xs ys) = limbs_value e xs - limbs_value e ys"
  by (induction xs ys arbitrary: e rule: list_induct2) (simp_all add: distrib_left right_diff_distrib)

lemma within_sum:
  assumes "length xs = length ys" "within B xs" "within B ys"
  shows "within (B + B) (map2 (+) xs ys)" "within (B + B) (map2 (-) xs ys)"
  using assms by (induction xs ys rule: list_induct2) auto

lemma loose_fsum [field_intros]:
  assumes "tight a u" "tight b v"
  shows "loose (fsum a b) (u + v)"
proof -
  have "map sint (fsum a b) = map2 (+) (map sint a) (map sint b)"
    unfolding fsum_def using assms by (intro map2_sint sint_exact) (simp_all add: field_rep_def)
  moreover have "field_eq (field_value a + field_value b) (u + v)" using assms by (intro mod_add_cong) (simp_all add: field_rep_def)
  ultimately show ?thesis
    using assms within_sum(1) [of "map sint a" "map sint b" "2 ^ 26"]
    by (simp add: field_rep_def limbs_value_sum) (simp add: fsum_def)
qed

lemma loose_fdifference [field_intros]:
  assumes "tight a u" "tight b v"
  shows "loose (fdifference a b) (v - u)"
proof -
  have "map sint (fdifference a b) = map2 (-) (map sint b) (map sint a)"
    unfolding fdifference_def using assms by (intro map2_sint sint_exact) (simp_all add: field_rep_def)
  moreover have "field_eq (field_value b - field_value a) (v - u)" using assms by (intro mod_diff_cong) (simp_all add: field_rep_def)
  ultimately show ?thesis
    using assms within_sum(2) [of "map sint b" "map sint a" "2 ^ 26"]
    by (simp add: field_rep_def limbs_value_sum) (simp add: fdifference_def)
qed

lemma tight_scalar [field_intros]:
  assumes "loose a u"
  shows "tight (take 10 (freduce_coefficients (fscalar_product a 121665))) (u * 121665)"
proof -
  have a: "length a = 10" "within (2 ^ 27) (map sint a)" "field_eq (field_value a) u" using assms by (simp_all add: field_rep_def)
  have m: "map sint (fscalar_product a 121665) = map (\<lambda>v. v * 121665) (map sint a)"
    using a(2) by (auto simp: fscalar_product_def list_all_iff intro!: sint_exact(3) [where y = "121665 :: limb", simplified])
  have v: "limbs_value e (map (\<lambda>v. v * c) xs) = limbs_value e xs * c" for e xs c
    by (induction e xs rule: limbs_value.induct) (simp_all add: algebra_simps)
  have "within (280 * 2 ^ 54 + 1) (map (\<lambda>v. v * 121665) (map sint a))" using a(2) by (auto simp: list_all_iff abs_mult)
  then have "within (280 * 2 ^ 54 + 1) (map sint (take 10 (fscalar_product a 121665)))"
    unfolding m [symmetric] using a(1) by (simp add: fscalar_product_def)
  note r = freduce_coefficients_exact [OF _ this]
  have "length (fscalar_product a 121665) = 10" by (simp add: fscalar_product_def a)
  moreover have "field_eq (field_value a * 121665) (u * 121665)" using a(3) by (rule mod_mult_cong) simp
  ultimately show ?thesis using r by (simp add: field_rep_def m v del: map_map)
qed

section \<open>Inversion\<close>

text \<open>\<open>n\<close> squarings in a row, the loops of \<^verbatim>\<open>crecip\<close> included.\<close>

definition fsquare_times :: "nat \<Rightarrow> limb list \<Rightarrow> limb list" where
  "fsquare_times n x = (fsquare ^^ n) x"

definition crecip :: "limb list \<Rightarrow> limb list" where
  "crecip z =
     (let z2 = fsquare z;
          t1 = fsquare z2;
          t0 = fsquare t1;
          z9 = fmul t0 z;
          z11 = fmul z9 z2;
          t0 = fsquare z11;
          z2_5_0 = fmul t0 z9;
          t0 = fsquare_times 5 z2_5_0;
          z2_10_0 = fmul t0 z2_5_0;
          t1 = fsquare_times 10 z2_10_0;
          z2_20_0 = fmul t1 z2_10_0;
          t1 = fsquare_times 20 z2_20_0;
          t0 = fmul t1 z2_20_0;
          t0 = fsquare_times 10 t0;
          z2_50_0 = fmul t0 z2_10_0;
          t1 = fsquare_times 50 z2_50_0;
          z2_100_0 = fmul t1 z2_50_0;
          t0 = fsquare_times 100 z2_100_0;
          t1 = fmul t0 z2_100_0;
          t1 = fsquare_times 50 t1;
          t0 = fmul t1 z2_50_0;
          t1 = fsquare_times 5 t0
      in fmul t1 z11)"

lemma power_fmul: "\<lbrakk>tight x (z ^ a); tight y (z ^ b); c = a + b\<rbrakk> \<Longrightarrow> tight (fmul x y) (z ^ c)"
  using tight_fmul [OF loose_of_tight loose_of_tight, of x "z ^ a" y "z ^ b"] by (simp add: power_add)

lemma power_fsquare: "\<lbrakk>tight x (z ^ a); c = a * 2\<rbrakk> \<Longrightarrow> tight (fsquare x) (z ^ c)"
  using tight_fsquare [OF loose_of_tight, of x "z ^ a"] by (simp add: mult_2_right power_add)

lemma power_fsquare_times: "\<lbrakk>tight x (z ^ a); c = a * 2 ^ n\<rbrakk> \<Longrightarrow> tight (fsquare_times n x) (z ^ c)"
  unfolding fsquare_times_def
proof (induction n arbitrary: c)
  case (Suc n)
  then show ?case using power_fsquare [OF Suc.IH [OF Suc.prems(1) refl] refl] by (simp add: mult_ac)
qed simp

lemma crecip_exact:
  assumes "tight z v"
  shows "tight (crecip z) (v ^ nat (p25519 - 2))"
proof -
  have z: "tight z (v ^ 1)" using assms by simp
  note powers = power_fmul power_fsquare power_fsquare_times
  define z2 z9 z11 where "z2 = fsquare z" and "z9 = fmul (fsquare (fsquare z2)) z" and "z11 = fmul z9 z2"
  define z5 z10 z20 where "z5 = fmul (fsquare z11) z9" and "z10 = fmul (fsquare_times 5 z5) z5" and "z20 = fmul (fsquare_times 10 z10) z10"
  define z50 z100 where "z50 = fmul (fsquare_times 10 (fmul (fsquare_times 20 z20) z20)) z10" and "z100 = fmul (fsquare_times 50 z50) z50"
  have z2: "tight z2 (v ^ 2)" unfolding z2_def by (rule power_fsquare [OF z]) simp
  have z9: "tight z9 (v ^ 9)" unfolding z9_def by (rule power_fmul [OF power_fsquare [OF power_fsquare [OF z2 refl] refl] z]) simp
  have z11: "tight z11 (v ^ 11)" unfolding z11_def by (rule power_fmul [OF z9 z2]) simp
  have z5: "tight z5 (v ^ (2 ^ 5 - 1))" unfolding z5_def by (rule power_fmul [OF power_fsquare [OF z11 refl] z9]) simp
  have z10: "tight z10 (v ^ (2 ^ 10 - 1))" unfolding z10_def by (rule power_fmul [OF power_fsquare_times [OF z5 refl] z5]) simp
  have z20: "tight z20 (v ^ (2 ^ 20 - 1))" unfolding z20_def by (rule power_fmul [OF power_fsquare_times [OF z10 refl] z10]) simp
  have z50: "tight z50 (v ^ (2 ^ 50 - 1))" unfolding z50_def
    by (rule power_fmul [OF power_fsquare_times [OF power_fmul [OF power_fsquare_times [OF z20 refl] z20 refl] refl] z10]) simp
  have z100: "tight z100 (v ^ (2 ^ 100 - 1))" unfolding z100_def by (rule power_fmul [OF power_fsquare_times [OF z50 refl] z50]) simp
  have "tight (fmul (fsquare_times 50 (fmul (fsquare_times 100 z100) z100)) z50) (v ^ (2 ^ 250 - 1))"
    by (rule power_fmul [OF power_fsquare_times [OF power_fmul [OF power_fsquare_times [OF z100 refl] z100 refl] refl] z50]) simp
  from power_fmul [OF power_fsquare_times [OF this refl, of 5] z11]
  have "tight (fmul (fsquare_times 5 (fmul (fsquare_times 50 (fmul (fsquare_times 100 z100) z100)) z50)) z11) (v ^ nat (p25519 - 2))"
    by (simp add: p25519_def)
  then show ?thesis by (simp only: crecip_def Let_def z2_def z9_def z11_def z5_def z10_def z20_def z50_def z100_def)
qed

section \<open>A step of the ladder\<close>

definition fmonty :: "limb list \<Rightarrow> limb list \<Rightarrow> limb list \<Rightarrow> limb list \<Rightarrow> limb list
    \<Rightarrow> limb list \<times> limb list \<times> limb list \<times> limb list" where
  "fmonty x z xprime zprime qmqp =
     (let short = (\<lambda>t. take 10 (freduce_coefficients (freduce_degree t)));
          origx = x;
          x = fsum x z;
          z = fdifference z origx;
          origxprime = xprime;
          xprime = fsum xprime zprime;
          zprime = fdifference zprime origxprime;
          xxprime = short (fproduct xprime z);
          zzprime = short (fproduct x zprime);
          origxprime = xxprime;
          xxprime = fsum xxprime zzprime;
          zzprime = fdifference zzprime origxprime;
          xxxprime = fsquare xxprime;
          zzzprime = fsquare zzprime;
          zzprime = short (fproduct zzzprime qmqp);
          xx = fsquare x;
          zz = fsquare z;
          x2 = short (fproduct xx zz);
          zz = fdifference zz xx;
          zzz = take 10 (freduce_coefficients (fscalar_product zz 121665));
          zzz = fsum zzz xx;
          z2 = short (fproduct zz zzz)
      in (x2, z2, xxxprime, zzprime))"

text \<open>The formulas of RFC 7748, section 5.\<close>

definition mont_double_add :: "int \<Rightarrow> int \<times> int \<times> int \<times> int \<Rightarrow> int \<times> int \<times> int \<times> int" where
  "mont_double_add x1 s =
     (let (x2, z2, x3, z3) = s;
          A = x2 + z2; AA = A * A; B = x2 - z2; BB = B * B; E = AA - BB;
          C = x3 + z3; D = x3 - z3; DA = D * A; CB = C * B
      in (AA * BB mod p25519, E * (AA + 121665 * E) mod p25519,
          (DA + CB) ^ 2 mod p25519, x1 * (DA - CB) ^ 2 mod p25519))"

definition tight4 :: "limb list \<times> limb list \<times> limb list \<times> limb list \<Rightarrow> int \<times> int \<times> int \<times> int \<Rightarrow> bool" where
  "tight4 s t \<longleftrightarrow> (case (s, t) of ((a, b, c, d), (u, v, w, x)) \<Rightarrow> tight a u \<and> tight b v \<and> tight c w \<and> tight d x)"

lemma fmonty_exact:
  assumes "tight x x2" "tight z z2" "tight xprime x3" "tight zprime z3" "tight q x1"
  shows "tight4 (fmonty x z xprime zprime q) (mont_double_add x1 (x2, z2, x3, z3))"
proof -
  define A B C D where "A = x2 + z2" and "B = x2 - z2" and "C = x3 + z3" and "D = x3 - z3"
  note intros = field_intros assms
  define fA fB fC fD where "fA = fsum x z" and "fB = fdifference z x" and "fC = fsum xprime zprime" and "fD = fdifference zprime xprime"
  have l: "loose fA A" "loose fB B" "loose fC C" "loose fD D"
    unfolding fA_def fB_def fC_def fD_def A_def B_def C_def D_def by (intro intros)+
  define fE where "fE = fdifference (fsquare fB) (fsquare fA)"
  have E: "loose fE (A * A - B * B)" unfolding fE_def by (intro loose_fdifference tight_fsquare l)
  have P: "tight (fmul fC fB) (C * B)" "tight (fmul fA fD) (A * D)" by (intro tight_fmul l)+
  have "tight (fmul (fsquare fA) (fsquare fB)) (A * A * (B * B))"
    "tight (fmul fE (fsum (take 10 (freduce_coefficients (fscalar_product fE 121665))) (fsquare fA)))
       ((A * A - B * B) * ((A * A - B * B) * 121665 + A * A))"
    "tight (fsquare (fsum (fmul fC fB) (fmul fA fD))) ((C * B + A * D) * (C * B + A * D))"
    "tight (fmul (fsquare (fdifference (fmul fA fD) (fmul fC fB))) q) ((C * B - A * D) * (C * B - A * D) * x1)"
    by (blast intro: field_intros assms l E P)+
  moreover have "fmonty x z xprime zprime q = (fmul (fsquare fA) (fsquare fB),
      fmul fE (fsum (take 10 (freduce_coefficients (fscalar_product fE 121665))) (fsquare fA)),
      fsquare (fsum (fmul fC fB) (fmul fA fD)), fmul (fsquare (fdifference (fmul fA fD) (fmul fC fB))) q)"
    by (simp add: fmonty_def Let_def fmul_def fA_def fB_def fC_def fD_def fE_def)
  moreover have "mont_double_add x1 (x2, z2, x3, z3) = (A * A * (B * B) mod p25519,
      (A * A - B * B) * ((A * A - B * B) * 121665 + A * A) mod p25519, (C * B + A * D) * (C * B + A * D) mod p25519,
      (C * B - A * D) * (C * B - A * D) * x1 mod p25519)"
    unfolding mont_double_add_def A_def B_def C_def D_def Let_def by (simp add: power2_eq_square algebra_simps)
  ultimately show ?thesis by (simp add: tight4_def) (simp add: field_rep_def)
qed

section \<open>Swapping\<close>

definition swap_limbs :: "limb \<Rightarrow> limb \<Rightarrow> limb \<Rightarrow> limb \<times> limb" where
  "swap_limbs iswap a b =
     (let swap = ucast (- iswap) :: 32 word;
          x = swap AND (ucast a XOR ucast b)
      in (scast (ucast a XOR x), scast (ucast b XOR x)))"

definition swap_conditional :: "limb list \<Rightarrow> limb list \<Rightarrow> limb \<Rightarrow> limb list \<times> limb list" where
  "swap_conditional a b iswap = (map2 (\<lambda>x y. fst (swap_limbs iswap x y)) a b, map2 (\<lambda>x y. snd (swap_limbs iswap x y)) a b)"

lemma swap_limbs_exact:
  assumes "\<bar>sint a\<bar> < 2 ^ 31" "\<bar>sint b\<bar> < 2 ^ 31"
  shows "swap_limbs (of_bool c) a b = (if c then (b, a) else (a, b))"
proof (cases c)
  case True
  have x: "y XOR (y XOR z) = z" "z XOR (y XOR z) = y" for y z :: "32 word" by (rule bit_word_eqI, auto simp: bit_simps)+
  have m: "(ucast (- 1 :: limb) :: 32 word) = - 1" by (rule bit_word_eqI) (simp add: bit_simps)
  from True show ?thesis using s32_exact [OF assms(1)] s32_exact [OF assms(2)] by (simp add: swap_limbs_def s32_def x m Let_def)
next
  case False
  then show ?thesis using s32_exact [OF assms(1)] s32_exact [OF assms(2)] by (simp add: swap_limbs_def s32_def)
qed

lemma swap_conditional_exact:
  assumes "tight a u" "tight b v"
  shows "swap_conditional a b (of_bool c) = (if c then (b, a) else (a, b))"
proof -
  have "length a = length b" "within (2 ^ 31) (map sint a)" "within (2 ^ 31) (map sint b)"
    using assms by (auto simp: field_rep_def elim!: list.pred_mono_strong)
  then show ?thesis
    by (induction a b rule: list_induct2) (simp_all add: swap_conditional_def swap_limbs_exact split: if_splits)
qed

section \<open>The ladder\<close>

definition ladder_step :: "limb list \<Rightarrow> limb \<Rightarrow> limb list \<times> limb list \<times> limb list \<times> limb list
    \<Rightarrow> limb list \<times> limb list \<times> limb list \<times> limb list" where
  "ladder_step q b s =
     (let (nqx, nqz, nqpqx, nqpqz) = s;
          (nqx, nqpqx) = swap_conditional nqx nqpqx b;
          (nqz, nqpqz) = swap_conditional nqz nqpqz b;
          (nqx2, nqz2, nqpqx2, nqpqz2) = fmonty nqx nqz nqpqx nqpqz q;
          (nqx2, nqpqx2) = swap_conditional nqx2 nqpqx2 b;
          (nqz2, nqpqz2) = swap_conditional nqz2 nqpqz2 b
      in (nqx2, nqz2, nqpqx2, nqpqz2))"

text \<open>The inner loop over the bits of a byte, \<open>j\<close> of them to go.\<close>

fun cmult_byte :: "limb list \<Rightarrow> nat \<Rightarrow> u8 \<Rightarrow> limb list \<times> limb list \<times> limb list \<times> limb list
    \<Rightarrow> limb list \<times> limb list \<times> limb list \<times> limb list" where
  "cmult_byte q 0 byte s = s"
| "cmult_byte q (Suc j) byte s = cmult_byte q j (push_bit 1 byte) (ladder_step q (ucast (drop_bit 7 byte)) s)"

definition cmult :: "bytes \<Rightarrow> limb list \<Rightarrow> limb list \<times> limb list" where
  "cmult n q =
     (let one = 1 # replicate 9 0; zero = replicate 10 0;
          (resultx, resultz, _, _) = fold (cmult_byte q 8) (rev (take 32 n)) (one, zero, q, one)
      in (resultx, resultz))"

definition mont_step :: "int \<Rightarrow> bool \<Rightarrow> int \<times> int \<times> int \<times> int \<Rightarrow> int \<times> int \<times> int \<times> int" where
  "mont_step x1 b s =
     (let cswap = (\<lambda>(x2, z2, x3, z3). if b then (x3, z3, x2, z2) else (x2, z2, x3, z3))
      in cswap (mont_double_add x1 (cswap s)))"

lemma ladder_step_exact:
  assumes "tight q x1" "tight4 s t"
  shows "tight4 (ladder_step q (of_bool b) s) (mont_step x1 b t)"
proof -
  obtain x z x' z' where s: "s = (x, z, x', z')" by (cases s)
  obtain x2 z2 x3 z3 where t: "t = (x2, z2, x3, z3)" by (cases t)
  have tt: "tight x x2" "tight z z2" "tight x' x3" "tight z' z3" using assms(2) by (simp_all add: tight4_def s t)
  obtain y2 w2 y3 w3 where m: "(if b then fmonty x' z' x z q else fmonty x z x' z' q) = (y2, w2, y3, w3)" by (cases "if b then fmonty x' z' x z q else fmonty x z x' z' q")
  obtain u2 v2 u3 v3 where r: "mont_double_add x1 (if b then (x3, z3, x2, z2) else (x2, z2, x3, z3)) = (u2, v2, u3, v3)"
    by (cases "mont_double_add x1 (if b then (x3, z3, x2, z2) else (x2, z2, x3, z3))")
  have "tight4 (y2, w2, y3, w3) (u2, v2, u3, v3)"
    using fmonty_exact [OF tt assms(1)] fmonty_exact [OF tt(3,4,1,2) assms(1)] m r by (cases b) simp_all
  then have o: "tight y2 u2" "tight w2 v2" "tight y3 u3" "tight w3 v3" by (simp_all add: tight4_def)
  note sw = swap_conditional_exact [OF tt(1,3)] swap_conditional_exact [OF tt(2,4)] swap_conditional_exact [OF o(1,3)]
    swap_conditional_exact [OF o(2,4)]
  note sw01 = sw [of True, simplified] sw [of False, simplified]
  show ?thesis
    using m r o by (cases b) (simp_all add: ladder_step_def mont_step_def s t tight4_def Let_def sw01)
qed

lemma top_bit_of_byte: "(ucast (drop_bit 7 (b :: u8)) :: limb) = of_bool (bit b 7)"
proof (rule bit_word_eqI)
  fix n
  show "bit (ucast (drop_bit 7 b) :: limb) n = bit (of_bool (bit b 7) :: limb) n" if "n < LENGTH(64)"
    using that bit_imp_le_length [of b "7 + n"] by (cases n) (auto simp: bit_simps)
qed

lemma cmult_byte_exact:
  assumes "tight q x1" "tight4 s t" "j \<le> 8"
  shows "tight4 (cmult_byte q j byte s) (fold (\<lambda>i. mont_step x1 (bit byte i)) (rev [8 - j..<8]) t)"
  using assms(2,3)
proof (induction j arbitrary: byte s t)
  case (Suc j)
  let ?is = "rev [7 - j..<7]"
  have up: "rev [8 - j..<8] = map Suc ?is" using Suc.prems(2) by (simp add: map_Suc_upt flip: Suc_diff_le rev_map)
  have "[7 - j..<8] = [7 - j..<7] @ [7]" using upt_Suc [of "7 - j" 7] by simp
  then have top: "rev [8 - Suc j..<8] = 7 # ?is" by simp
  have sh: "bit (push_bit 1 byte) (Suc x) = bit byte x" if "x < 7" for x using that by (simp only: bit_push_bit_iff) simp
  have "fold (\<lambda>i. mont_step x1 (bit (push_bit 1 byte) i)) (map Suc ?is) u = fold (\<lambda>i. mont_step x1 (bit byte i)) ?is u" for u
    unfolding fold_map by (intro fold_cong) (auto simp: sh simp del: push_bit_Suc One_nat_def)
  with Suc.IH [OF ladder_step_exact [OF assms(1) Suc.prems(1), of "bit byte 7"], of "push_bit 1 byte"] Suc.prems(2)
  show ?case unfolding top up by (simp only: cmult_byte.simps top_bit_of_byte fold.simps comp_apply Suc_leD)
qed simp

lemma bit_le_value:
  "bit (le_value (b # bs)) (i + 8) = bit (le_value bs) i" "i < 8 \<Longrightarrow> bit (le_value (b # bs)) i = bit b i"
proof -
  have "0 \<le> uint b" "uint b < 256" using uint_lt2p [of b] by simp_all
  then have "drop_bit 8 (le_value (b # bs)) = le_value bs" "take_bit 8 (le_value (b # bs)) = uint b"
    by (simp_all add: drop_bit_eq_div take_bit_eq_mod)
  then show "bit (le_value (b # bs)) (i + 8) = bit (le_value bs) i" "i < 8 \<Longrightarrow> bit (le_value (b # bs)) i = bit b i"
    by (metis add.commute bit_drop_bit_eq comp_apply, metis bit_take_bit_iff bit_uint_iff bit_imp_le_length)
qed

lemma cmult_bytes_exact:
  assumes "tight q x1" "tight4 s t"
  shows "tight4 (fold (cmult_byte q 8) (rev bs) s) (fold (\<lambda>i. mont_step x1 (bit (le_value bs) i)) (rev [0..<8 * length bs]) t)"
  using assms(2)
proof (induction bs arbitrary: s t)
  case (Cons b bs)
  have u: "[0..<8 * length (b # bs)] = [0..<8] @ map (\<lambda>i. i + 8) [0..<8 * length bs]"
    by (simp add: map_add_upt upt_add_eq_append [of 0 8 "8 * length bs", simplified] add.commute)
  have "fold (\<lambda>i. mont_step x1 (bit (le_value (b # bs)) i)) (rev [0..<8]) v = fold (\<lambda>i. mont_step x1 (bit b i)) (rev [0..<8]) v" for v
    by (intro fold_cong) (simp_all only: set_rev set_upt atLeastLessThan_iff bit_le_value(2))
  then show ?case
    unfolding u using cmult_byte_exact [OF assms(1) Cons.IH [OF Cons.prems], of 8 b]
    by (simp add: rev_map fold_map comp_def bit_le_value(1) del: le_value.simps)
qed simp

text \<open>The x-coordinate of a multiple of a point, as RFC 7748 computes it, over all 256 bits of the scalar.\<close>

definition mont_ladder :: "int \<Rightarrow> int \<Rightarrow> int \<times> int" where
  "mont_ladder k u =
     (let (x2, z2, x3, z3) = fold (\<lambda>t. mont_step u (bit k t)) (rev [0..<256]) (1, 0, u, 1) in (x2, z2))"

lemma cmult_exact:
  assumes "tight q u" "length n = 32" "cmult n q = (x, z)" "mont_ladder (le_value n) u = (x2, z2)"
  shows "tight x x2 \<and> tight z z2"
proof -
  have "tight4 (1 # replicate 9 0, replicate 10 0, q, 1 # replicate 9 0) (1, 0, u, 1)"
    using assms(1) by (simp add: tight4_def) (simp add: field_rep_def numeral_eq_Suc)
  from cmult_bytes_exact [OF assms(1) this, of n] show ?thesis
    using assms(2-4) by (auto simp: cmult_def mont_ladder_def tight4_def split: prod.splits)
qed

end
