(* ===== verification/Curve25519_Donna.thy ===== *)
theory Curve25519_Donna
  imports Curve25519_Ladder
begin

text \<open>
  The conversions between bytes and limbs of \<^verbatim>\<open>curve25519/curve25519-donna.c\<close> and the function
  \<^verbatim>\<open>curve25519_donna\<close> itself, with the proof that it computes the x-coordinate function of RFC 7748.
\<close>

section \<open>From bytes to limbs\<close>

definition expand_limb :: "bytes \<Rightarrow> nat \<Rightarrow> nat \<Rightarrow> limb \<Rightarrow> limb" where
  "expand_limb inp start shift msk =
     signed_drop_bit shift (ucast (inp ! start) OR push_bit 8 (ucast (inp ! (start + 1))) OR
       push_bit 16 (ucast (inp ! (start + 2))) OR push_bit 24 (ucast (inp ! (start + 3)))) AND msk"

definition fexpand :: "bytes \<Rightarrow> limb list" where
  "fexpand inp =
     [expand_limb inp 0 0 0x3ffffff, expand_limb inp 3 2 0x1ffffff, expand_limb inp 6 3 0x3ffffff,
      expand_limb inp 9 5 0x1ffffff, expand_limb inp 12 6 0x3ffffff, expand_limb inp 16 0 0x1ffffff,
      expand_limb inp 19 1 0x3ffffff, expand_limb inp 22 3 0x1ffffff, expand_limb inp 25 4 0x3ffffff,
      expand_limb inp 28 6 0x1ffffff]"

section \<open>From limbs to bytes\<close>

type_synonym s32 = "32 word"

definition s32_eq :: "s32 \<Rightarrow> s32 \<Rightarrow> s32" where
  "s32_eq a b =
     (let a = NOT (a XOR b);
          a = a AND push_bit 16 a;
          a = a AND push_bit 8 a;
          a = a AND push_bit 4 a;
          a = a AND push_bit 2 a;
          a = a AND push_bit 1 a
      in signed_drop_bit 31 a)"

definition s32_gte :: "s32 \<Rightarrow> s32 \<Rightarrow> s32" where
  "s32_gte a b = NOT (signed_drop_bit 31 (a - b))"

definition borrow :: "nat \<Rightarrow> s32 \<Rightarrow> s32" where
  "borrow w x = - signed_drop_bit w (x AND signed_drop_bit 31 x)"

text \<open>The first loop makes limbs 0 to 8 non-negative, each by borrowing from the next one.\<close>

fun borrow_limbs :: "bool \<Rightarrow> s32 list \<Rightarrow> s32 list" where
  "borrow_limbs e (x # y # xs) =
     (let carry = borrow (limb_bits e) x
      in (x + push_bit (limb_bits e) carry) # borrow_limbs (\<not> e) ((y - carry) # xs))"
| "borrow_limbs e xs = xs"

definition borrow_round :: "s32 list \<Rightarrow> s32 list" where
  "borrow_round inp =
     (let inp1 = borrow_limbs True inp;
          carry = borrow 25 (inp1 ! 9)
      in (inp1 ! 0 - carry * 19) # take 8 (drop 1 inp1) @ [inp1 ! 9 + push_bit 25 carry])"

fun carry_limbs_s32 :: "bool \<Rightarrow> s32 list \<Rightarrow> s32 list" where
  "carry_limbs_s32 e (x # y # xs) =
     (let carry = signed_drop_bit (limb_bits e) x
      in (x AND mask (limb_bits e)) # carry_limbs_s32 (\<not> e) ((y + carry) # xs))"
| "carry_limbs_s32 e xs = xs"

definition carry_round :: "s32 list \<Rightarrow> s32 list" where
  "carry_round inp =
     (let inp1 = carry_limbs_s32 True inp;
          carry = signed_drop_bit 25 (inp1 ! 9)
      in (inp1 ! 0 + 19 * carry) # take 8 (drop 1 inp1) @ [inp1 ! 9 AND mask 25])"

definition max_limbs :: "s32 list" where
  "max_limbs = [0x1ffffff, 0x3ffffff, 0x1ffffff, 0x3ffffff, 0x1ffffff, 0x3ffffff, 0x1ffffff, 0x3ffffff, 0x1ffffff]"

definition subtract_p :: "s32 list \<Rightarrow> s32 list" where
  "subtract_p inp =
     (let m = fold (AND) (map2 s32_eq (drop 1 inp) max_limbs) (s32_gte (inp ! 0) 0x3ffffed)
      in (inp ! 0 - (m AND 0x3ffffed)) # map2 (\<lambda>x c. x - (m AND c)) (drop 1 inp) max_limbs)"

text \<open>The macro \<^verbatim>\<open>F\<close>: four bytes of a limb, the first one added to what is there.\<close>

definition byte_of :: "nat \<Rightarrow> s32 \<Rightarrow> u8" where
  "byte_of n x = ucast (signed_drop_bit n x AND 0xff)"

definition put_limbs :: "s32 list \<Rightarrow> bytes" where
  "put_limbs inp =
     (let b = (\<lambda>i n. byte_of n (inp ! i))
      in [b 0 0, b 0 8, b 0 16, b 0 24 OR b 1 0, b 1 8, b 1 16, b 1 24 OR b 2 0, b 2 8, b 2 16, b 2 24 OR b 3 0,
          b 3 8, b 3 16, b 3 24 OR b 4 0, b 4 8, b 4 16, b 4 24,
          b 5 0, b 5 8, b 5 16, b 5 24 OR b 6 0, b 6 8, b 6 16, b 6 24 OR b 7 0, b 7 8, b 7 16, b 7 24 OR b 8 0,
          b 8 8, b 8 16, b 8 24 OR b 9 0, b 9 8, b 9 16, b 9 24])"

definition fcontract :: "limb list \<Rightarrow> bytes" where
  "fcontract input_limbs =
     (let inp = map ucast input_limbs;
          inp = borrow_round (borrow_round inp);
          carry = borrow 26 (inp ! 0);
          inp = [inp ! 0 + push_bit 26 carry, inp ! 1 - carry] @ drop 2 inp;
          inp = carry_round (carry_round inp);
          inp = subtract_p inp
      in put_limbs (map2 push_bit [0, 2, 3, 5, 6, 0, 1, 3, 4, 6] inp))"

section \<open>The function\<close>

definition curve25519_donna_c :: "bytes \<Rightarrow> bytes \<Rightarrow> int \<times> bytes" where
  "curve25519_donna_c secret basepoint =
     (let e = take 32 secret;
          bp = fexpand basepoint;
          (x, z) = cmult e bp;
          zmone = crecip z;
          z = fmul x zmone
      in (0, fcontract z))"

section \<open>Little-endian numbers\<close>

lemma le_value_drop: "le_value (drop n bs) = le_value bs div 256 ^ n"
proof (induction bs arbitrary: n)
  case (Cons b bs)
  have "uint b < 256" using uint_lt2p [of b] by simp
  then have "(uint b + 256 * le_value bs) div 256 = le_value bs" by simp
  with Cons show ?case by (cases n) (simp_all add: zdiv_zmult2_eq)
qed simp

lemma le_value_take: "le_value (take n bs) = le_value bs mod 256 ^ n"
proof (induction bs arbitrary: n)
  case (Cons b bs)
  have b: "0 \<le> uint b" "uint b < 256" using uint_lt2p [of b] by simp_all
  show ?case
  proof (cases n)
    case (Suc m)
    have "(uint b + 256 * le_value bs) mod (256 * 256 ^ m) = uint b + 256 * (le_value bs mod 256 ^ m)"
      using b by (simp add: zmod_zmult2_eq)
    then show ?thesis using Cons Suc by simp
  qed simp
qed simp

lemma le_value_inject: "\<lbrakk>le_value bs = le_value cs; length bs = length cs\<rbrakk> \<Longrightarrow> bs = cs"
proof (induction bs arbitrary: cs)
  case (Cons b bs)
  obtain c cs' where cs: "cs = c # cs'" "length bs = length cs'" using Cons.prems(2) by (cases cs) auto
  have r: "(uint x + 256 * v) mod 256 = uint x" "(uint x + 256 * v) div 256 = v" for x :: u8 and v
    using uint_lt2p [of x] by simp_all
  have "uint b + 256 * le_value bs = uint c + 256 * le_value cs'" using Cons.prems(1) by (simp add: cs)
  then have "uint b = uint c" "le_value bs = le_value cs'" using r by metis+
  with Cons.IH [of cs'] cs show ?case by (simp add: word_uint_eq_iff)
qed simp

lemma four_bytes:
  fixes a b c d :: u8
  shows "(ucast a OR push_bit 8 (ucast b) OR push_bit 16 (ucast c) OR push_bit 24 (ucast d) :: limb) = of_int (le_value [a, b, c, d])"
proof -
  have l: "bit x n \<Longrightarrow> n < 8" for x :: u8 and n using bit_imp_le_length [of x n] by simp
  have "(ucast a :: limb) AND (push_bit 8 (ucast b) OR push_bit 16 (ucast c) OR push_bit 24 (ucast d)) = 0"
    "push_bit 8 (ucast b :: limb) AND (push_bit 16 (ucast c) OR push_bit 24 (ucast d)) = 0"
    "push_bit 16 (ucast c :: limb) AND push_bit 24 (ucast d) = 0"
    by (rule bit_word_eqI, auto simp: bit_simps dest: l)+
  then have "(ucast a OR push_bit 8 (ucast b) OR push_bit 16 (ucast c) OR push_bit 24 (ucast d) :: limb)
      = ucast a + (push_bit 8 (ucast b) + (push_bit 16 (ucast c) + push_bit 24 (ucast d)))"
    by (simp add: disjunctive_add_eq_or)
  then show ?thesis by (simp add: push_bit_eq_mult algebra_simps)
qed

lemma expand_limb_exact:
  assumes "start + 4 \<le> length inp" "shift + w \<le> 32" "m = mask w"
  shows "sint (expand_limb inp start shift m) = le_value inp div 2 ^ (8 * start + shift) mod 2 ^ w"
proof -
  let ?N = "le_value (take 4 (drop start inp))"
  have "take 4 (drop start inp) = [inp ! start, inp ! (start + 1), inp ! (start + 2), inp ! (start + 3)]"
    using assms(1) by (intro nth_equalityI) (auto simp: less_Suc_eq numeral_eq_Suc)
  then have e: "expand_limb inp start shift m = signed_drop_bit shift (of_int ?N) AND m"
    by (simp only: expand_limb_def four_bytes)
  have N: "0 \<le> ?N" "?N < 2 ^ 32" using le_value_bounds [of "take 4 (drop start inp)"] assms(1) by simp_all
  then have "sint (of_int ?N :: limb) = ?N" using sint_of_int_exact [of ?N, where ?'a = 64] by simp
  then have "signed_drop_bit shift (of_int ?N :: limb) = of_int (?N div 2 ^ shift)"
    by (metis of_int_sint scast_id sint_signed_drop_bit)
  then have "expand_limb inp start shift m = of_int (?N div 2 ^ shift mod 2 ^ w)"
    using take_bit_of_int [of w "?N div 2 ^ shift", where ?'a = limb]
    unfolding e by (simp only: assms(3) take_bit_eq_mask [symmetric] take_bit_eq_mod [symmetric])
  moreover have "\<bar>?N div 2 ^ shift mod 2 ^ w\<bar> < 2 ^ 63"
  proof -
    have "?N div 2 ^ shift mod 2 ^ w < 2 ^ w" by simp
    also have "\<dots> \<le> 2 ^ 32" using assms(2) by (intro power_increasing) simp_all
    finally show ?thesis by simp
  qed
  ultimately have "sint (expand_limb inp start shift m) = ?N div 2 ^ shift mod 2 ^ w"
    using sint_of_int_exact [of "?N div 2 ^ shift mod 2 ^ w", where ?'a = 64] by simp
  also have "\<dots> = take_bit w (drop_bit shift (take_bit 32 (drop_bit (8 * start) (le_value inp))))"
    by (simp add: le_value_take le_value_drop take_bit_eq_mod drop_bit_eq_div power_mult)
  also have "\<dots> = take_bit w (drop_bit (8 * start + shift) (le_value inp))"
    using assms(2) by (intro bit_eqI) (auto simp: bit_simps algebra_simps)
  finally show ?thesis by (simp add: take_bit_eq_mod drop_bit_eq_div)
qed

text \<open>The digits of a number in the mixed radix.\<close>

fun digits :: "bool \<Rightarrow> nat \<Rightarrow> int \<Rightarrow> int list" where
  "digits e 0 v = []"
| "digits e (Suc n) v = v mod 2 ^ limb_bits e # digits (\<not> e) n (v div 2 ^ limb_bits e)"

fun digit_bits :: "bool \<Rightarrow> nat \<Rightarrow> nat" where
  "digit_bits e 0 = 0"
| "digit_bits e (Suc n) = limb_bits e + digit_bits (\<not> e) n"

lemma digits_value: "limbs_value e (digits e n v) = v mod 2 ^ digit_bits e n"
  by (induction e n v rule: digits.induct) (simp_all add: power_add zmod_zmult2_eq)

lemma digit_bits_10: "digit_bits True 10 = 255"
  by (simp add: numeral_eq_Suc)

lemma digits_10:
  "digits True 10 v = [v mod 2 ^ 26, v div 2 ^ 26 mod 2 ^ 25, v div 2 ^ 51 mod 2 ^ 26, v div 2 ^ 77 mod 2 ^ 25,
     v div 2 ^ 102 mod 2 ^ 26, v div 2 ^ 128 mod 2 ^ 25, v div 2 ^ 153 mod 2 ^ 26, v div 2 ^ 179 mod 2 ^ 25,
     v div 2 ^ 204 mod 2 ^ 26, v div 2 ^ 230 mod 2 ^ 25]"
proof -
  have ten: "(10 :: nat) = Suc (Suc (Suc (Suc (Suc (Suc (Suc (Suc (Suc (Suc 0)))))))))" by simp
  show ?thesis unfolding ten by (simp add: div_mult2_eq [symmetric] flip: zdiv_zmult2_eq)
qed

lemma fexpand_exact:
  assumes "length inp = 32"
  shows "tight (fexpand inp) (le_value inp mod 2 ^ 255)"
proof -
  let ?v = "le_value inp"
  have m: "(0x3ffffff :: limb) = mask 26" "(0x1ffffff :: limb) = mask 25" by (simp_all add: mask_eq_exp_minus_1)
  have "map sint (fexpand inp) = digits True 10 ?v"
    unfolding digits_10 fexpand_def m list.map list.inject using assms
    by (intro conjI; (subst expand_limb_exact [OF _ _ refl]; simp)?; simp)
  moreover have "limbs_value True (digits True 10 ?v) = ?v mod 2 ^ 255" by (simp only: digits_value digit_bits_10)
  moreover have "within (2 ^ 26) (digits e n v)" for e n v
    by (induction e n v rule: digits.induct) (auto intro: order.strict_trans2 [OF pos_mod_bound])
  moreover have "length (fexpand inp) = 10" by (simp add: fexpand_def)
  ultimately show ?thesis by (simp add: field_rep_def)
qed

section \<open>Borrowing\<close>

lemma sign_mask: "signed_drop_bit 31 (x :: s32) = (if sint x < 0 then - 1 else 0)"
  using bit_last_iff [of x] by (intro bit_word_eqI) (auto simp: bit_signed_drop_bit_iff Suc_le_eq)

text \<open>The quotient of a limb that is a little too large.\<close>

lemma small_quotient:
  fixes x :: int
  assumes "\<bar>x\<bar> < 2 ^ 27"
  shows "- 4 \<le> x div 2 ^ limb_bits e" "x div 2 ^ limb_bits e < 4"
proof -
  have "- (2 ^ 27) div 2 ^ limb_bits e \<le> x div 2 ^ limb_bits e" "x div 2 ^ limb_bits e \<le> (2 ^ 27 - 1) div 2 ^ limb_bits e"
    using assms by (intro zdiv_mono1; simp)+
  then show "- 4 \<le> x div 2 ^ limb_bits e" "x div 2 ^ limb_bits e < 4" by (cases e; simp)+
qed

lemma borrow_exact:
  assumes "\<bar>sint x\<bar> < 2 ^ 27"
  shows "sint (borrow (limb_bits e) x) = (if sint x < 0 then - (sint x div 2 ^ limb_bits e) else 0)"
    and "sint (x + push_bit (limb_bits e) (borrow (limb_bits e) x)) = (if sint x < 0 then sint x mod 2 ^ limb_bits e else sint x)"
proof -
  note q = small_quotient [OF assms, of e]
  have d: "sint (signed_drop_bit (limb_bits e) x) = sint x div 2 ^ limb_bits e" by (rule sint_signed_drop_bit)
  show b: "sint (borrow (limb_bits e) x) = (if sint x < 0 then - (sint x div 2 ^ limb_bits e) else 0)"
  proof -
    have "\<bar>sint x div 2 ^ limb_bits e\<bar> < 2 ^ 31" using q by simp
    then show ?thesis using sint_exact(4) [of "signed_drop_bit (limb_bits e) x"] unfolding d by (auto simp: borrow_def sign_mask)
  qed
  have w: "2 ^ limb_bits e \<le> (2 :: int) ^ 26" by simp
  have "\<bar>sint (borrow (limb_bits e) x)\<bar> \<le> 4" using q unfolding b by auto
  then have "\<bar>sint (borrow (limb_bits e) x) * 2 ^ limb_bits e\<bar> \<le> 4 * 2 ^ 26" by (cases e) (simp_all add: abs_mult)
  then have "sint (push_bit (limb_bits e) (borrow (limb_bits e) x)) = sint (borrow (limb_bits e) x) * 2 ^ limb_bits e"
    and "\<bar>sint x + sint (borrow (limb_bits e) x) * 2 ^ limb_bits e\<bar> < 2 ^ 31"
    using sint_push_bit_exact [of "borrow (limb_bits e) x" "limb_bits e"] assms by simp_all
  then show "sint (x + push_bit (limb_bits e) (borrow (limb_bits e) x)) = (if sint x < 0 then sint x mod 2 ^ limb_bits e else sint x)"
    using sint_exact(1) [of x "push_bit (limb_bits e) (borrow (limb_bits e) x)"] unfolding b
    by (auto simp: minus_div_mult_eq_mod)
qed

fun int_borrow :: "bool \<Rightarrow> int list \<Rightarrow> int list" where
  "int_borrow e (x # y # xs) = (if x < 0 then x mod 2 ^ limb_bits e else x) #
     int_borrow (\<not> e) ((y + (if x < 0 then x div 2 ^ limb_bits e else 0)) # xs)"
| "int_borrow e xs = xs"

lemma borrow_limbs_exact:
  assumes "\<bar>sint x\<bar> < 2 ^ 27" "within (2 ^ 26) (map sint ys)"
  shows "map sint (borrow_limbs e (x # ys)) = int_borrow e (map sint (x # ys))"
  using assms
proof (induction ys arbitrary: x e)
  case (Cons y ys)
  let ?c = "borrow (limb_bits e) x"
  note q = small_quotient [OF Cons.prems(1), of e] and b = borrow_exact [OF Cons.prems(1), of e]
  have c: "\<bar>sint ?c\<bar> \<le> 4" using q unfolding b by auto
  have y: "\<bar>sint y\<bar> < 2 ^ 26" using Cons.prems(2) by simp
  have z: "sint (y - ?c) = sint y - sint ?c" using sint_exact(2) [of y ?c] c y by simp
  have "\<bar>sint (y - ?c)\<bar> < 2 ^ 27" unfolding z using c y by simp
  with Cons.IH [of "y - ?c" "\<not> e"] Cons.prems(2) show ?case by (simp add: Let_def b z)
qed simp

lemma int_borrow_value: "limbs_value e (int_borrow e xs) = limbs_value e xs"
proof (induction e xs rule: int_borrow.induct)
  case (1 e x y xs)
  have "x mod 2 ^ limb_bits e = x - 2 ^ limb_bits e * (x div 2 ^ limb_bits e)" by (simp add: minus_mult_div_eq_mod)
  with 1 show ?case by (simp add: algebra_simps)
qed simp_all

lemma length_int_borrow [simp]: "length (int_borrow e xs) = length xs"
  by (induction e xs rule: int_borrow.induct) simp_all

abbreviation between :: "int \<Rightarrow> int \<Rightarrow> int list \<Rightarrow> bool" where
  "between lo hi \<equiv> list_all (\<lambda>v. lo \<le> v \<and> v < hi)"

lemma int_borrow_id: "between 0 hi xs \<Longrightarrow> int_borrow e xs = xs"
  by (induction e xs rule: int_borrow.induct) auto

text \<open>A pass of borrows, when every limb is at least \<open>- B\<close> and a borrow from there is at most \<open>C\<close>.\<close>

lemma int_borrow_range:
  assumes "- B - C \<le> x" "x < 2 ^ 26" "between (- B) (2 ^ 26) ys" "0 \<le> C"
    and "\<And>v e. - B - C \<le> v \<Longrightarrow> - C \<le> v div 2 ^ limb_bits e"
  shows "between 0 (2 ^ 26) (butlast (int_borrow e (x # ys))) \<and>
    - B - C \<le> last (int_borrow e (x # ys)) \<and> last (int_borrow e (x # ys)) < 2 ^ 26"
  using assms(1-3)
proof (induction ys arbitrary: x e)
  case (Cons y ys)
  let ?d = "if x < 0 then x div 2 ^ limb_bits e else 0"
  have w: "2 ^ limb_bits e \<le> (2 :: int) ^ 26" by simp
  have h: "0 \<le> (if x < 0 then x mod 2 ^ limb_bits e else x)" "(if x < 0 then x mod 2 ^ limb_bits e else x) < 2 ^ 26"
    using Cons.prems(2) pos_mod_bound [of "2 ^ limb_bits e" x] w by (auto simp del: pos_mod_bound)
  have d: "- C \<le> ?d" "?d \<le> 0" using assms(4,5) Cons.prems(1) by (auto simp: div_neg_pos_less0 less_imp_le)
  have y: "- B \<le> y" "y < 2 ^ 26" using Cons.prems(3) by simp_all
  then have y': "- B - C \<le> y + ?d" "y + ?d < 2 ^ 26" using d by linarith+
  note IH = Cons.IH [OF y']
  have ne: "int_borrow (\<not> e) ((y + ?d) # ys) \<noteq> []" by (metis length_int_borrow length_0_conv list.distinct(1))
  show ?case using IH Cons.prems(3) h ne by (simp del: int_borrow.simps(2) if_split)
qed simp_all

text \<open>A whole round: what limb 9 borrows is taken from limb 0, nineteen times.\<close>

lemma borrow_round_exact:
  assumes "length xs = 10" "\<bar>sint (hd xs)\<bar> < 2 ^ 27" "within (2 ^ 26) (map sint (tl xs))"
    and "int_borrow True (map sint xs) = L" "between 0 (2 ^ 26) (butlast L)" "- (2 ^ 26) - 3 \<le> last L" "last L < 2 ^ 26"
    and "c = (if last L < 0 then - (last L div 2 ^ 25) else 0)"
  shows "map sint (borrow_round xs) = (hd L - 19 * c) # tl (butlast L) @ [last L + c * 2 ^ 25]"
    and "0 \<le> last L + c * 2 ^ 25 \<and> last L + c * 2 ^ 25 < 2 ^ 26"
    and "field_eq (limbs_value True ((hd L - 19 * c) # tl (butlast L) @ [last L + c * 2 ^ 25])) (limbs_value True (map sint xs))"
proof -
  let ?M = "borrow_limbs True xs"
  have M: "map sint ?M = L" using borrow_limbs_exact [of "hd xs" "tl xs" True] assms(1-4) by (cases xs) simp_all
  have "length ?M = 10" using M assms(1,4) by (metis length_int_borrow length_map)
  then obtain m0 m1 m2 m3 m4 m5 m6 m7 m8 m9 where m: "?M = [m0, m1, m2, m3, m4, m5, m6, m7, m8, m9]" unfolding length_10 by blast
  have L: "L = map sint [m0, m1, m2, m3, m4, m5, m6, m7, m8, m9]" using M m by simp
  have b9: "\<bar>sint m9\<bar> < 2 ^ 27" and b0: "0 \<le> sint m0" "sint m0 < 2 ^ 26" using assms(5-7) by (simp_all add: L)
  have c: "sint (borrow 25 m9) = c" "sint (m9 + push_bit 25 (borrow 25 m9)) = sint m9 + c * 2 ^ 25"
    using borrow_exact [OF b9, of False] by (auto simp: assms(8) L minus_div_mult_eq_mod)
  have c4: "0 \<le> c" "c \<le> 4" using small_quotient [OF b9, of False] unfolding assms(8) L by (auto simp: div_neg_pos_less0 less_imp_le)
  have "sint (borrow 25 m9 * 19) = c * 19" using sint_exact(3) [of "borrow 25 m9" 19] c(1) c4 by simp
  then have d: "sint (m0 - borrow 25 m9 * 19) = sint m0 - 19 * c"
    using sint_exact(2) [of m0 "borrow 25 m9 * 19"] b0 c4 by simp
  show "map sint (borrow_round xs) = (hd L - 19 * c) # tl (butlast L) @ [last L + c * 2 ^ 25]"
    by (simp add: borrow_round_def m L Let_def d c)
  have "sint m9 < 0 \<Longrightarrow> sint m9 + c * 2 ^ 25 = sint m9 mod 2 ^ 25" by (simp add: assms(8) L minus_div_mult_eq_mod)
  then show "0 \<le> last L + c * 2 ^ 25 \<and> last L + c * 2 ^ 25 < 2 ^ 26"
    using assms(7) pos_mod_bound [of "2 ^ 25" "sint m9"] by (cases "sint m9 < 0") (simp_all add: L assms(8))
  have "limbs_value True ((hd L - 19 * c) # tl (butlast L) @ [last L + c * 2 ^ 25]) = limbs_value True L + p25519 * c"
    by (simp add: L p25519_def algebra_simps)
  moreover have "limbs_value True L = limbs_value True (map sint xs)" using assms(4) int_borrow_value by blast
  ultimately show "field_eq (limbs_value True ((hd L - 19 * c) # tl (butlast L) @ [last L + c * 2 ^ 25])) (limbs_value True (map sint xs))" by simp
qed

lemma two_borrow_rounds:
  assumes "length xs = 10" "within (2 ^ 26) (map sint xs)"
  defines "ys \<equiv> borrow_round (borrow_round xs)"
  shows "length ys = 10 \<and> between 0 (2 ^ 26) (map sint ys) \<and> field_eq (limbs_value True (map sint ys)) (limbs_value True (map sint xs))"
proof -
  define L where "L = int_borrow True (map sint xs)"
  define c where "c = (if last L < 0 then - (last L div 2 ^ 25) else 0)"
  obtain x xs' where xs: "xs = x # xs'" "length xs' = 9" using assms(1) by (cases xs) auto
  have h: "\<bar>sint (hd xs)\<bar> < 2 ^ 27" "within (2 ^ 26) (map sint (tl xs))" using assms(2) by (simp_all add: xs)
  have q: "- (2 ^ 26) - 3 \<le> v \<Longrightarrow> - 3 \<le> v div 2 ^ limb_bits e" for v :: int and e
    using zdiv_mono1 [of "- (2 ^ 26) - 3" v "2 ^ limb_bits e"] by (cases e) simp_all
  have "- (2 ^ 26) - 3 \<le> sint x" "sint x < 2 ^ 26" "between (- (2 ^ 26)) (2 ^ 26) (map sint xs')"
    using assms(2) by (auto simp: xs elim!: list.pred_mono_strong)
  from int_borrow_range [OF this _ q, of True]
  have r: "between 0 (2 ^ 26) (butlast L)" "- (2 ^ 26) - 3 \<le> last L" "last L < 2 ^ 26" by (simp_all add: L_def xs)
  note one = borrow_round_exact [OF assms(1) h L_def [symmetric] r c_def]
  have c3: "0 \<le> c" "c \<le> 3" using q [OF r(2), of False] r(3) unfolding c_def by (auto simp: div_neg_pos_less0 less_imp_le)
  have lL: "length L = 10" using assms(1) by (simp add: L_def)
  then obtain l0 L' where L: "butlast L = l0 # L'" "length L' = 8" by (cases "butlast L") (auto simp: Suc_length_conv dest: arg_cong [where f = length])
  have hdL: "hd L = l0" using L lL by (cases L) (auto split: if_splits)
  define ds where "ds = L' @ [last L + c * 2 ^ 25]"
  have one': "map sint (borrow_round xs) = (l0 - 19 * c) # ds" using one(1) by (simp add: hdL L ds_def)
  have l0: "0 \<le> l0" "l0 < 2 ^ 26" and ds: "between 0 (2 ^ 26) ds" "length ds = 9" using r(1) one(2) L by (simp_all add: ds_def)
  have val: "field_eq (limbs_value True (map sint (borrow_round xs))) (limbs_value True (map sint xs))" using one(1,3) by simp
  have d0: "- 57 \<le> l0 - 19 * c" "l0 - 19 * c < 2 ^ 26" using l0 c3 by linarith+
  define K where "K = int_borrow True (map sint (borrow_round xs))"
  define k where "k = (if last K < 0 then - (last K div 2 ^ 25) else 0)"
  have len: "length (borrow_round xs) = 10" using arg_cong [OF one', of length] ds(2) by simp
  have h2: "\<bar>sint (hd (borrow_round xs))\<bar> < 2 ^ 27" "within (2 ^ 26) (map sint (tl (borrow_round xs)))"
    using one' d0 ds(1) by (cases "borrow_round xs"; auto elim!: list.pred_mono_strong)+
  have KL: "K = int_borrow True ((l0 - 19 * c) # ds)" by (simp add: K_def one')
  obtain e1 ds' where ds': "ds = e1 # ds'" using ds(2) by (cases ds) auto
  have K0: "hd K = (if l0 - 19 * c < 0 then l0 - 19 * c + 2 ^ 26 else l0 - 19 * c)"
  proof -
    have "(v + 2 ^ 26) mod 2 ^ 26 = v + 2 ^ 26" if "- 57 \<le> v" "v < 0" for v :: int using that by (intro mod_pos_pos_trivial) simp_all
    with d0 show ?thesis by (simp add: KL ds')
  qed
  have K: "between 0 (2 ^ 26) (butlast K)" "- 57 \<le> last K" "last K < 2 ^ 26"
  proof -
    have "between (- 0) (2 ^ 26) ds" using ds(1) by simp
    moreover have "- 57 \<le> v div 2 ^ limb_bits e" if "- 0 - 57 \<le> v" for v :: int and e
      using zdiv_mono1 [of "- 57" v "2 ^ limb_bits e"] that by (cases e) simp_all
    ultimately have "between 0 (2 ^ 26) (butlast K) \<and> - 0 - 57 \<le> last K \<and> last K < 2 ^ 26"
      unfolding KL using d0(1) by (intro int_borrow_range [OF _ d0(2)]) simp_all
    then show "between 0 (2 ^ 26) (butlast K)" "- 57 \<le> last K" "last K < 2 ^ 26" by simp_all
  qed
  have k1: "0 \<le> k \<and> k \<le> 1 \<and> (0 < k \<longrightarrow> last K < 0)"
    using zdiv_mono1 [of "- 57" "last K" "2 ^ 25"] K(2) by (auto simp: k_def div_neg_pos_less0 less_imp_le)
  have k0: "l0 - 19 * c < 0 \<or> k = 0"
  proof (rule ccontr)
    assume "\<not> ?thesis"
    then have "K = (l0 - 19 * c) # ds" "k \<noteq> 0" unfolding KL using ds(1) d0 by (auto intro!: int_borrow_id [where hi = "2 ^ 26"])
    moreover from this have "last K \<in> set ds" using ds' by simp
    then have "0 \<le> last K" using ds(1) unfolding list_all_iff by blast
    ultimately show False by (simp add: k_def)
  qed
  have r2: "- (2 ^ 26) - 3 \<le> last K" using K by simp
  note two = borrow_round_exact [OF len h2 K_def [symmetric] K(1) r2 K(3) k_def]
  have "0 \<le> hd K - 19 * k" "hd K - 19 * k < 2 ^ 26" using K0 k0 k1 d0 by (auto split: if_splits)
  moreover have "between 0 (2 ^ 26) (tl (butlast K))" using K(1) by (cases "butlast K") simp_all
  ultimately have "between 0 (2 ^ 26) (map sint ys)" unfolding ys_def two(1) using two(2) by simp
  moreover have "length ys = 10"
    using arg_cong [OF two(1), of length] len by (simp add: ys_def K_def)
  ultimately show ?thesis using two(3) val by (simp add: ys_def two(1))
qed

section \<open>Carrying\<close>

fun int_carry :: "bool \<Rightarrow> int list \<Rightarrow> int list" where
  "int_carry e (x # y # xs) = x mod 2 ^ limb_bits e # int_carry (\<not> e) ((y + x div 2 ^ limb_bits e) # xs)"
| "int_carry e xs = xs"

fun is_digits :: "bool \<Rightarrow> int list \<Rightarrow> bool" where
  "is_digits e [] = True"
| "is_digits e (x # xs) = (0 \<le> x \<and> x < 2 ^ limb_bits e \<and> is_digits (\<not> e) xs)"

lemma length_int_carry [simp]: "length (int_carry e xs) = length xs"
  by (induction e xs rule: int_carry.induct) simp_all

lemma int_carry_value: "limbs_value e (int_carry e xs) = limbs_value e xs"
proof (induction e xs rule: int_carry.induct)
  case (1 e x y xs)
  have "x mod 2 ^ limb_bits e = x - 2 ^ limb_bits e * (x div 2 ^ limb_bits e)" by (simp add: minus_mult_div_eq_mod)
  with 1 show ?case by (simp add: algebra_simps)
qed simp_all

lemma sint_and_mask: "n < 31 \<Longrightarrow> sint ((x :: s32) AND mask n) = sint x mod 2 ^ n"
proof -
  assume "n < 31"
  then have "sint (x AND mask n) = take_bit n (sint x)"
    by (intro bit_eqI) (auto simp: bit_simps min_def)
  then show ?thesis by (simp add: take_bit_eq_mod)
qed

lemma carry_limbs_s32_exact:
  assumes "\<bar>sint x\<bar> < 2 ^ 27" "between 0 (2 ^ 26) (map sint ys)" "0 \<le> sint x"
  shows "map sint (carry_limbs_s32 e (x # ys)) = int_carry e (map sint (x # ys)) \<and>
    is_digits e (butlast (int_carry e (map sint (x # ys)))) \<and>
    0 \<le> last (int_carry e (map sint (x # ys))) \<and> (ys \<noteq> [] \<longrightarrow> last (int_carry e (map sint (x # ys))) < 2 ^ 26 + 4)"
  using assms
proof (induction ys arbitrary: x e)
  case (Cons y ys)
  let ?q = "signed_drop_bit (limb_bits e) x"
  have q: "sint ?q = sint x div 2 ^ limb_bits e" by (rule sint_signed_drop_bit)
  have q4: "0 \<le> sint ?q" "sint ?q < 4" using small_quotient(2) [OF Cons.prems(1), of e] Cons.prems(3)
    unfolding q by (simp_all add: pos_imp_zdiv_nonneg_iff)
  have y: "0 \<le> sint y" "sint y < 2 ^ 26" "between 0 (2 ^ 26) (map sint ys)" using Cons.prems(2) by simp_all
  define z where "z = y + ?q"
  have z: "sint z = sint y + sint ?q" unfolding z_def using y q4 by (intro sint_exact) simp
  have zb: "\<bar>sint z\<bar> < 2 ^ 27" "0 \<le> sint z" "sint z < 2 ^ 26 + 4" unfolding z using y q4 by simp_all
  note IH = Cons.IH [OF zb(1) y(3) zb(2), of "\<not> e"]
  have z': "sint y + sint x div 2 ^ limb_bits e = sint z" by (simp add: z q)
  have m: "sint (x AND mask (limb_bits e)) = sint x mod 2 ^ limb_bits e" by (rule sint_and_mask) simp
  have ne: "int_carry (\<not> e) (sint z # map sint ys) \<noteq> []" by (metis length_int_carry length_0_conv list.distinct(1))
  have step: "carry_limbs_s32 e (x # y # ys) = (x AND mask (limb_bits e)) # carry_limbs_s32 (\<not> e) (z # ys)"
    by (simp add: z_def Let_def)
  have istep: "int_carry e (map sint (x # y # ys)) = sint x mod 2 ^ limb_bits e # int_carry (\<not> e) (sint z # map sint ys)"
    by (simp only: list.map int_carry.simps z')
  show ?case unfolding step istep using IH ne zb
    by (cases ys) (simp_all add: m del: carry_limbs_s32.simps(1) int_carry.simps(1))
qed simp

lemma digits_bound:
  "is_digits e xs \<Longrightarrow> 0 \<le> limbs_value e xs \<and> limbs_value e xs < 2 ^ digit_bits e (length xs)"
proof (induction e xs rule: is_digits.induct)
  case (2 e x xs)
  let ?V = "limbs_value (\<not> e) xs" and ?D = "2 ^ digit_bits (\<not> e) (length xs) :: int" and ?w = "2 ^ limb_bits e :: int"
  have "?V + 1 \<le> ?D" "0 \<le> ?V" using 2 by simp_all
  then have "?w * (?V + 1) \<le> ?w * ?D" "0 \<le> ?w * ?V" by (auto intro: mult_left_mono)
  with 2 show ?case by (simp add: power_add distrib_left)
qed simp

lemma digits_between: "is_digits e xs \<Longrightarrow> between 0 (2 ^ 26) xs"
  by (induction e xs rule: is_digits.induct) (auto split: if_splits)

lemma carry_round_exact:
  assumes "length xs = 10" "0 \<le> sint (hd xs)" "sint (hd xs) < 2 ^ 27" "between 0 (2 ^ 26) (map sint (tl xs))"
  shows "\<exists>h ds c. map sint (carry_round xs) = (h + 19 * c) # ds \<and> length ds = 9 \<and> is_digits True (h # ds) \<and> 0 \<le> c \<and> c \<le> 2 \<and>
    limbs_value True (h # ds) = limbs_value True (map sint xs) - c * 2 ^ 255"
proof -
  let ?M = "carry_limbs_s32 True xs" and ?L = "int_carry True (map sint xs)"
  have p: "map sint ?M = ?L" "is_digits True (butlast ?L)" "0 \<le> last ?L" "last ?L < 2 ^ 26 + 4"
    using carry_limbs_s32_exact [of "hd xs" "tl xs" True] assms by (cases xs; auto)+
  have "length ?M = 10" using p(1) assms(1) by (metis length_int_carry length_map)
  then obtain m0 m1 m2 m3 m4 m5 m6 m7 m8 m9 where m: "?M = [m0, m1, m2, m3, m4, m5, m6, m7, m8, m9]" unfolding length_10 by blast
  have L: "?L = map sint [m0, m1, m2, m3, m4, m5, m6, m7, m8, m9]" using p(1) m by simp
  define c where "c = sint m9 div 2 ^ 25"
  have m9: "0 \<le> sint m9" "sint m9 < 2 ^ 26 + 4" using p(3,4) by (simp_all add: L)
  have c: "0 \<le> c" "c \<le> 2" using zdiv_mono1 [of "sint m9" "2 ^ 26 + 3" "2 ^ 25"] m9 by (simp_all add: c_def pos_imp_zdiv_nonneg_iff)
  have m0: "0 \<le> sint m0" "sint m0 < 2 ^ 26" using p(2) by (simp_all add: L)
  have q: "sint (signed_drop_bit 25 m9) = c" by (simp add: sint_signed_drop_bit c_def)
  then have "sint (19 * signed_drop_bit 25 m9) = 19 * c" using sint_exact(3) [of 19 "signed_drop_bit 25 m9"] c by simp
  then have h: "sint (m0 + 19 * signed_drop_bit 25 m9) = sint m0 + 19 * c"
    using sint_exact(1) [of m0 "19 * signed_drop_bit 25 m9"] m0 c by simp
  have l: "sint (m9 AND mask 25) = sint m9 mod 2 ^ 25" by (rule sint_and_mask) simp
  let ?ds = "map sint [m1, m2, m3, m4, m5, m6, m7, m8] @ [sint m9 mod 2 ^ 25]"
  have "map sint (carry_round xs) = (sint m0 + 19 * c) # ?ds"
    by (simp add: carry_round_def m Let_def h l)
  moreover have "is_digits True (sint m0 # ?ds)" using p(2) by (simp add: L)
  moreover have "limbs_value True (sint m0 # ?ds) = limbs_value True ?L - c * 2 ^ 255"
  proof -
    have "sint m9 mod 2 ^ 25 = sint m9 - c * 2 ^ 25" by (simp add: c_def minus_div_mult_eq_mod)
    then show ?thesis by (simp add: L algebra_simps)
  qed
  ultimately show ?thesis using c int_carry_value by (intro exI [of _ "sint m0"] exI [of _ ?ds] exI [of _ c]) simp
qed

lemma two_carry_rounds:
  assumes "length xs = 10" "between 0 (2 ^ 26) (map sint xs)"
  defines "ys \<equiv> carry_round (carry_round xs)"
  shows "length ys = 10 \<and> is_digits True (map sint ys) \<and> field_eq (limbs_value True (map sint ys)) (limbs_value True (map sint xs))"
proof -
  have hd1: "0 \<le> sint (hd xs)" "sint (hd xs) < 2 ^ 27" "between 0 (2 ^ 26) (map sint (tl xs))"
    using assms(1,2) by (cases xs; simp)+
  obtain h ds c where one: "map sint (carry_round xs) = (h + 19 * c) # ds" "length ds = 9" "is_digits True (h # ds)" "0 \<le> c" "c \<le> 2"
      "limbs_value True (h # ds) = limbs_value True (map sint xs) - c * 2 ^ 255"
    using carry_round_exact [OF assms(1) hd1] by (elim exE conjE) (rule that)
  have len: "length (carry_round xs) = 10" using arg_cong [OF one(1), of length] one(2) by simp
  have h: "0 \<le> h" "h < 2 ^ 26" and tl: "is_digits False ds" using one(3) by simp_all
  have hd2: "0 \<le> sint (hd (carry_round xs))" "sint (hd (carry_round xs)) < 2 ^ 27" "between 0 (2 ^ 26) (map sint (tl (carry_round xs)))"
    using one(1) h one(4,5) digits_between [OF tl] by (cases "carry_round xs"; simp)+
  obtain h' ds' c' where two: "map sint (carry_round (carry_round xs)) = (h' + 19 * c') # ds'" "length ds' = 9" "is_digits True (h' # ds')"
      "0 \<le> c'" "c' \<le> 2" "limbs_value True (h' # ds') = limbs_value True (map sint (carry_round xs)) - c' * 2 ^ 255"
    using carry_round_exact [OF len hd2] by (elim exE conjE) (rule that)
  have D: "limbs_value True (h # ds) < 2 ^ 255" "0 \<le> limbs_value True (h' # ds')"
    using digits_bound [OF one(3)] digits_bound [OF two(3)] one(2) digit_bits_10 by simp_all
  have V: "limbs_value True (map sint (carry_round xs)) = limbs_value True (h # ds) + 19 * c" by (simp add: one(1))
  have small: "h' + 19 * c' < 2 ^ 26"
  proof (cases "c' = 0")
    case False
    then have "limbs_value True (h' # ds') < 38" using two(4-6) D V one(5) by simp
    moreover have "h' \<le> limbs_value True (h' # ds')" using digits_bound [of False ds'] two(3) by simp
    ultimately show ?thesis using two(5) by simp
  qed (use two(3) in simp)
  have "is_digits True (map sint ys)" unfolding ys_def two(1) using two(3,4) small by simp
  moreover have "length ys = 10" using arg_cong [OF two(1), of length] two(2) by (simp add: ys_def)
  moreover have "limbs_value True (map sint ys) = limbs_value True (map sint xs) + p25519 * (- c - c')"
    unfolding ys_def two(1) using two(6) V one(6) by (simp add: p25519_def algebra_simps)
  ultimately show ?thesis by simp
qed

section \<open>Subtracting the prime\<close>

lemma s32_eq_exact: "s32_eq a b = (if a = b then - 1 else 0)"
proof -
  define x where "x = NOT (a XOR b)"
  define y1 y2 y3 y4 y5 where "y1 = x AND push_bit 16 x" and "y2 = y1 AND push_bit 8 y1" and "y3 = y2 AND push_bit 4 y2"
    and "y4 = y3 AND push_bit 2 y3" and "y5 = y4 AND push_bit 1 y4"
  have "[0..<32] = [0, 1, 2, 3, 4, 5, 6, 7, 8, 9, 10, 11, 12, 13, 14, 15, 16, 17, 18, 19, 20, 21, 22, 23, 24, 25, 26, 27, 28, 29, 30, 31]" by code_simp
  then have n: "(\<forall>i<32. bit x i) \<longleftrightarrow> list_all (bit x) [0, 1, 2, 3, 4, 5, 6, 7, 8, 9, 10, 11, 12, 13, 14, 15, 16, 17, 18, 19, 20, 21, 22, 23, 24, 25, 26, 27, 28, 29, 30, 31]"
    by (metis atLeastLessThan_iff le0 list_all_iff set_upt)
  have "bit y5 31 \<longleftrightarrow> (\<forall>i<32. bit x i)"
    unfolding n y1_def y2_def y3_def y4_def y5_def bit_and_iff bit_push_bit_iff by simp blast
  moreover have "(\<forall>i<32. bit x i) \<longleftrightarrow> a = b" by (auto simp: x_def bit_eq_iff bit_simps)
  moreover have "s32_eq a b = signed_drop_bit 31 y5"
    by (simp only: s32_eq_def Let_def x_def y1_def y2_def y3_def y4_def y5_def)
  ultimately show ?thesis unfolding sign_mask using bit_last_iff [of y5] by simp
qed

lemma s32_gte_exact:
  assumes "0 \<le> sint a" "0 \<le> sint b"
  shows "s32_gte a b = (if sint b \<le> sint a then - 1 else 0)"
proof -
  have "sint a < 2 ^ 31" "sint b < 2 ^ 31" using sint_lt [of a] sint_lt [of b] by simp_all
  then have "sint (a - b) = sint a - sint b" using assms by (intro sint_exact) simp
  then show ?thesis by (simp add: s32_gte_def sign_mask)
qed

lemma at_least_p:
  fixes y0 y1 y2 y3 y4 y5 y6 y7 y8 y9 :: int
  assumes "is_digits True [y0, y1, y2, y3, y4, y5, y6, y7, y8, y9]"
  shows "p25519 \<le> limbs_value True [y0, y1, y2, y3, y4, y5, y6, y7, y8, y9] \<longleftrightarrow>
    67108845 \<le> y0 \<and> y1 = 33554431 \<and> y2 = 67108863 \<and> y3 = 33554431 \<and> y4 = 67108863 \<and> y5 = 33554431 \<and>
    y6 = 67108863 \<and> y7 = 33554431 \<and> y8 = 67108863 \<and> y9 = 33554431"
proof -
  let ?R = "limbs_value False [y1, y2, y3, y4, y5, y6, y7, y8, y9]"
  have split: "limbs_value True [y0, y1, y2, y3, y4, y5, y6, y7, y8, y9] = y0 + 2 ^ 26 * ?R" by simp
  have b: "0 \<le> y0" "y0 < 67108864" "y1 \<le> 33554431" "y2 \<le> 67108863" "y3 \<le> 33554431" "y4 \<le> 67108863" "y5 \<le> 33554431"
    "y6 \<le> 67108863" "y7 \<le> 33554431" "y8 \<le> 67108863" "y9 \<le> 33554431" using assms by simp_all
  have R: "?R = 2 ^ 229 - 1 \<longleftrightarrow> y1 = 33554431 \<and> y2 = 67108863 \<and> y3 = 33554431 \<and> y4 = 67108863 \<and> y5 = 33554431 \<and>
    y6 = 67108863 \<and> y7 = 33554431 \<and> y8 = 67108863 \<and> y9 = 33554431" (is "_ \<longleftrightarrow> ?max")
  proof
    assume "?R = 2 ^ 229 - 1"
    then show ?max using b(3-11) by simp
  qed simp
  have le: "?R \<le> 2 ^ 229 - 1" using digits_bound [of False "[y1, y2, y3, y4, y5, y6, y7, y8, y9]"] assms by simp
  have "p25519 \<le> y0 + 2 ^ 26 * v \<longleftrightarrow> 67108845 \<le> y0 \<and> v = 2 ^ 229 - 1" if "v \<le> 2 ^ 229 - 1" for v
    using that b(1,2) by (cases "v = 2 ^ 229 - 1") (simp_all add: p25519_def)
  from this [OF le] show ?thesis unfolding split R .
qed

lemma subtract_p_exact:
  assumes "length ys = 10" "is_digits True (map sint ys)"
  shows "length (subtract_p ys) = 10" "is_digits True (map sint (subtract_p ys))"
    and "limbs_value True (map sint (subtract_p ys)) = limbs_value True (map sint ys) mod p25519"
proof -
  obtain y0 y1 y2 y3 y4 y5 y6 y7 y8 y9 where y: "ys = [y0, y1, y2, y3, y4, y5, y6, y7, y8, y9]"
    using assms(1) unfolding length_10 by blast
  define V where "V = limbs_value True (map sint ys)"
  note d = assms(2) [unfolded y]
  have e: "x = c \<longleftrightarrow> sint x = sint c" for x c :: s32 by (metis of_int_sint scast_id)
  let ?m = "fold (AND) (map2 s32_eq (drop 1 ys) max_limbs) (s32_gte (ys ! 0) 0x3ffffed)"
  have "p25519 \<le> V \<longleftrightarrow> 67108845 \<le> sint y0 \<and> y1 = 33554431 \<and> y2 = 67108863 \<and> y3 = 33554431 \<and> y4 = 67108863 \<and> y5 = 33554431 \<and>
      y6 = 67108863 \<and> y7 = 33554431 \<and> y8 = 67108863 \<and> y9 = 33554431"
    unfolding V_def y e using at_least_p [of "sint y0" "sint y1" "sint y2" "sint y3" "sint y4" "sint y5" "sint y6" "sint y7" "sint y8" "sint y9"] d
    by simp
  moreover have "?m = (if 67108845 \<le> sint y0 \<and> y1 = 33554431 \<and> y2 = 67108863 \<and> y3 = 33554431 \<and> y4 = 67108863 \<and> y5 = 33554431 \<and>
      y6 = 67108863 \<and> y7 = 33554431 \<and> y8 = 67108863 \<and> y9 = 33554431 then - 1 else 0)"
    using d by (simp add: y max_limbs_def s32_eq_exact s32_gte_exact)
  ultimately have m: "?m = (if p25519 \<le> V then - 1 else 0)" by argo
  show "length (subtract_p ys) = 10" by (simp add: subtract_p_def y max_limbs_def Let_def)
  have V: "0 \<le> V" "V < 2 ^ 255" using digits_bound [OF assms(2)] assms(1) digit_bits_10 by (simp_all add: V_def)
  have "is_digits True (map sint (subtract_p ys)) \<and> limbs_value True (map sint (subtract_p ys)) = (if p25519 \<le> V then V - p25519 else V)"
  proof (cases "p25519 \<le> V")
    case True
    with \<open>p25519 \<le> V \<longleftrightarrow> _\<close> have eq: "67108845 \<le> sint y0" "y1 = 33554431" "y2 = 67108863" "y3 = 33554431" "y4 = 67108863" "y5 = 33554431"
      "y6 = 67108863" "y7 = 33554431" "y8 = 67108863" "y9 = 33554431" by argo+
    have s0: "sint (y0 - 67108845) = sint y0 - 67108845" using sint_exact(2) [of y0 67108845] d eq(1) by simp
    have "map sint (subtract_p ys) = [sint y0 - 67108845, 0, 0, 0, 0, 0, 0, 0, 0, 0]"
      unfolding subtract_p_def Let_def m using True by (simp add: y max_limbs_def eq s0)
    then show ?thesis using True eq d by (simp add: V_def y p25519_def)
  next
    case False
    then have "subtract_p ys = ys" unfolding subtract_p_def Let_def m by (simp add: y max_limbs_def)
    with False show ?thesis using assms(2) by (simp add: V_def)
  qed
  moreover have "V mod p25519 = (if p25519 \<le> V then V - p25519 else V)"
    using V mod_pos_pos_trivial [of V p25519] mod_pos_pos_trivial [of "V - p25519" p25519] mod_add_self2 [of "V - p25519" p25519]
    by (simp add: p25519_def)
  ultimately show "is_digits True (map sint (subtract_p ys))"
    "limbs_value True (map sint (subtract_p ys)) = limbs_value True (map sint ys) mod p25519" by (simp_all add: V_def)
qed

section \<open>Writing the bytes\<close>

lemma bit_byte_of: "n \<le> 24 \<Longrightarrow> bit (byte_of n x) k \<longleftrightarrow> k < 8 \<and> bit x (n + k)"
proof -
  have m: "(0xff :: s32) = mask 8" by (simp add: mask_eq_exp_minus_1)
  show ?thesis if "n \<le> 24" using that unfolding byte_of_def m by (auto simp: bit_simps bit_signed_drop_bit_iff)
qed

lemma four_parts:
  "uint (byte_of 0 x) + 256 * uint (byte_of 8 x) + 65536 * uint (byte_of 16 x) + 16777216 * uint (byte_of 24 x) = uint x"
proof -
  have u: "uint (byte_of n x) = uint x div 2 ^ n mod 256" if "n \<le> 24" for n
  proof -
    have "uint (byte_of n x) = take_bit 8 (drop_bit n (uint x))"
      using that by (intro bit_eqI) (auto simp: bit_uint_iff bit_byte_of bit_simps)
    then show ?thesis by (simp add: take_bit_eq_mod drop_bit_eq_div)
  qed
  define v q1 q2 q3 where "v = uint x" and "q1 = v div 256" and "q2 = q1 div 256" and "q3 = q2 div 256"
  have q: "v div 256 = q1" "v div 65536 = q2" "v div 16777216 = q3"
    unfolding q1_def q2_def q3_def by (simp_all flip: zdiv_zmult2_eq)
  have "0 \<le> v" "v < 4294967296" using uint_lt2p [of x] by (simp_all add: v_def)
  then have "0 \<le> q3" "q3 < 256" unfolding q(3) [symmetric] by simp_all
  then have "q3 mod 256 = q3" by simp
  moreover have "v = 256 * q1 + v mod 256" "q1 = 256 * q2 + q1 mod 256" "q2 = 256 * q3 + q2 mod 256"
    unfolding q1_def q2_def q3_def by (rule mult_div_mod_eq [symmetric])+
  ultimately show ?thesis using u [of 0] u [of 8] u [of 16] u [of 24] unfolding v_def [symmetric] by (simp add: q)
qed

text \<open>The top of a limb and the bottom of the next one share a byte without overlapping.\<close>

lemma shared_byte:
  assumes "0 \<le> sint x" "sint x < 2 ^ w" "w + s = 24 + s'" "s' \<le> 8"
  shows "uint (byte_of 24 (push_bit s x) OR byte_of 0 (push_bit s' y)) = uint (byte_of 24 (push_bit s x)) + uint (byte_of 0 (push_bit s' y))"
proof -
  have "\<not> bit x k" if "w \<le> k" for k
  proof
    assume b: "bit x k"
    then have "k < 32" using bit_imp_le_length [of x k] by simp
    with b have "bit (sint x) k" by (simp add: bit_sint_iff min_def)
    moreover have "take_bit w (sint x) = sint x" using assms(1,2) by (simp add: take_bit_eq_mod)
    ultimately show False using that by (metis bit_take_bit_iff not_le)
  qed
  then have "byte_of 24 (push_bit s x) AND byte_of 0 (push_bit s' y) = 0"
    using assms(3) by (intro bit_word_eqI) (auto simp: bit_simps bit_byte_of)
  then have "uint (byte_of 24 (push_bit s x)) AND uint (byte_of 0 (push_bit s' y)) = 0" by (metis unsigned_and_eq unsigned_0)
  then show ?thesis by (simp only: unsigned_or_eq disjunctive_add_eq_or)
qed

lemma put_limbs_exact:
  assumes "length ys = 10" "is_digits True (map sint ys)"
  shows "le_value (put_limbs (map2 push_bit [0, 2, 3, 5, 6, 0, 1, 3, 4, 6] ys)) = limbs_value True (map sint ys)"
proof -
  obtain y0 y1 y2 y3 y4 y5 y6 y7 y8 y9 where y: "ys = [y0, y1, y2, y3, y4, y5, y6, y7, y8, y9]"
    using assms(1) unfolding length_10 by blast
  note d = assms(2) [unfolded y, simplified]
  have u: "uint (push_bit s x) = sint x * 2 ^ s" if "0 \<le> sint x" "sint x < 2 ^ w" "w + s \<le> 32" for s w and x :: s32
  proof -
    have "sint x * 2 ^ s < 2 ^ w * 2 ^ s" using that(2) by simp
    also have "\<dots> \<le> 2 ^ 32" unfolding power_add [symmetric] using that(3) by (intro power_increasing) simp_all
    finally have "take_bit 32 (sint x * 2 ^ s) = sint x * 2 ^ s" using that(1) by (simp add: take_bit_eq_mod)
    moreover have "uint (push_bit s x) = take_bit 32 (sint x * 2 ^ s)"
      using uint_word_of_int_eq [of "sint x * 2 ^ s", where ?'a = 32] by (simp add: push_bit_eq_mult)
    ultimately show ?thesis by simp
  qed
  define x0 x1 x2 x3 x4 x5 x6 x7 x8 x9 where "x0 = push_bit 0 y0" and "x1 = push_bit 2 y1" and "x2 = push_bit 3 y2" and "x3 = push_bit 5 y3" and "x4 = push_bit 6 y4"
    and "x5 = push_bit 0 y5" and "x6 = push_bit 1 y6" and "x7 = push_bit 3 y7" and "x8 = push_bit 4 y8" and "x9 = push_bit 6 y9"
  note x_defs = x0_def x1_def x2_def x3_def x4_def x5_def x6_def x7_def x8_def x9_def
  have w: "0 \<le> sint y0" "sint y0 < 2 ^ 26" "0 \<le> sint y1" "sint y1 < 2 ^ 25" "0 \<le> sint y2" "sint y2 < 2 ^ 26" "0 \<le> sint y3"
    "sint y3 < 2 ^ 25" "0 \<le> sint y4" "sint y4 < 2 ^ 26" "0 \<le> sint y5" "sint y5 < 2 ^ 25" "0 \<le> sint y6" "sint y6 < 2 ^ 26"
    "0 \<le> sint y7" "sint y7 < 2 ^ 25" "0 \<le> sint y8" "sint y8 < 2 ^ 26" "0 \<le> sint y9" "sint y9 < 2 ^ 25"
    using d by simp_all
  have v: "uint x0 = sint y0 * 1" "uint x1 = sint y1 * 4" "uint x2 = sint y2 * 8" "uint x3 = sint y3 * 32" "uint x4 = sint y4 * 64"
    "uint x5 = sint y5 * 1" "uint x6 = sint y6 * 2" "uint x7 = sint y7 * 8" "uint x8 = sint y8 * 16" "uint x9 = sint y9 * 64"
    unfolding x_defs
    using u [OF w(1,2), of 0] u [OF w(3,4), of 2] u [OF w(5,6), of 3] u [OF w(7,8), of 5] u [OF w(9,10), of 6]
      u [OF w(11,12), of 0] u [OF w(13,14), of 1] u [OF w(15,16), of 3] u [OF w(17,18), of 4] u [OF w(19,20), of 6]
    by simp_all
  have o: "uint (byte_of 24 x0 OR byte_of 0 x1) = uint (byte_of 24 x0) + uint (byte_of 0 x1)"
    "uint (byte_of 24 x1 OR byte_of 0 x2) = uint (byte_of 24 x1) + uint (byte_of 0 x2)"
    "uint (byte_of 24 x2 OR byte_of 0 x3) = uint (byte_of 24 x2) + uint (byte_of 0 x3)"
    "uint (byte_of 24 x3 OR byte_of 0 x4) = uint (byte_of 24 x3) + uint (byte_of 0 x4)"
    "uint (byte_of 24 x5 OR byte_of 0 x6) = uint (byte_of 24 x5) + uint (byte_of 0 x6)"
    "uint (byte_of 24 x6 OR byte_of 0 x7) = uint (byte_of 24 x6) + uint (byte_of 0 x7)"
    "uint (byte_of 24 x7 OR byte_of 0 x8) = uint (byte_of 24 x7) + uint (byte_of 0 x8)"
    "uint (byte_of 24 x8 OR byte_of 0 x9) = uint (byte_of 24 x8) + uint (byte_of 0 x9)"
    unfolding x_defs
    by (rule shared_byte; (rule w)?; simp)+
  note sums = four_parts [of x0] four_parts [of x1] four_parts [of x2] four_parts [of x3] four_parts [of x4]
    four_parts [of x5] four_parts [of x6] four_parts [of x7] four_parts [of x8] four_parts [of x9]
  have "map2 push_bit [0, 2, 3, 5, 6, 0, 1, 3, 4, 6] ys = [x0, x1, x2, x3, x4, x5, x6, x7, x8, x9]"
    unfolding y x_defs by simp
  then have "le_value (put_limbs (map2 push_bit [0, 2, 3, 5, 6, 0, 1, 3, 4, 6] ys)) = uint x0 + 2 ^ 24 * uint x1 + 2 ^ 48 * uint x2 +
      2 ^ 72 * uint x3 + 2 ^ 96 * uint x4 + 2 ^ 128 * uint x5 + 2 ^ 152 * uint x6 + 2 ^ 176 * uint x7 + 2 ^ 200 * uint x8 + 2 ^ 224 * uint x9"
    unfolding put_limbs_def Let_def sums [symmetric] by (simp add: o)
  then show ?thesis by (simp add: v y)
qed

lemma fcontract_exact:
  assumes "tight z v"
  shows "le_value (fcontract z) = v mod p25519" "length (fcontract z) = 32"
proof -
  have z: "length z = 10" "within (2 ^ 26) (map sint z)" "field_eq (field_value z) v" using assms by (simp_all add: field_rep_def)
  define xs :: "s32 list" where "xs = map ucast z"
  have xs: "map sint xs = map sint z" "length xs = 10"
    using z(1,2) by (auto simp: xs_def list_all_iff intro!: sint_narrowed)
  define ys where "ys = borrow_round (borrow_round xs)"
  have ys: "length ys = 10" "between 0 (2 ^ 26) (map sint ys)" "field_eq (limbs_value True (map sint ys)) (field_value z)"
    using two_borrow_rounds [OF xs(2)] z(2) by (simp_all add: ys_def xs(1))
  obtain y0 y1 y2 where y: "ys = y0 # y1 # y2" using ys(1) unfolding length_10 by blast
  have "0 \<le> sint y0" using ys(2) by (simp add: y)
  then have "borrow 26 y0 = 0" by (simp add: borrow_def sign_mask)
  then have same: "[ys ! 0 + push_bit 26 (borrow 26 (ys ! 0)), ys ! 1 - borrow 26 (ys ! 0)] @ drop 2 ys = ys" by (simp add: y numeral_2_eq_2)
  define zs where "zs = carry_round (carry_round ys)"
  have zs: "length zs = 10" "is_digits True (map sint zs)" "field_eq (limbs_value True (map sint zs)) (limbs_value True (map sint ys))"
    using two_carry_rounds [OF ys(1,2)] by (simp_all add: zs_def)
  note sub = subtract_p_exact [OF zs(1,2)]
  have f: "fcontract z = put_limbs (map2 push_bit [0, 2, 3, 5, 6, 0, 1, 3, 4, 6] (subtract_p zs))"
    by (simp only: fcontract_def Let_def xs_def [symmetric] ys_def [symmetric] same zs_def [symmetric])
  show "length (fcontract z) = 32" by (simp add: f put_limbs_def Let_def)
  show "le_value (fcontract z) = v mod p25519"
    unfolding f put_limbs_exact [OF sub(1,2)] sub(3) using zs(3) ys(3) z(3) by simp
qed

section \<open>The function computes the Montgomery ladder\<close>

text \<open>The function of RFC 7748 on numbers: the ladder and the division at its end.\<close>

definition montgomery_x :: "int \<Rightarrow> int \<Rightarrow> int" where
  "montgomery_x k u = (let (x2, z2) = mont_ladder k u in x2 * z2 ^ nat (p25519 - 2) mod p25519)"

lemma donna_exact:
  assumes "length secret = 32" "length basepoint = 32"
  shows "\<exists>out. curve25519_donna_c secret basepoint = (0, out) \<and> length out = 32 \<and>
    le_value out = montgomery_x (le_value secret) (le_value basepoint mod 2 ^ 255)"
proof -
  obtain x z where c: "cmult secret (fexpand basepoint) = (x, z)" by (cases "cmult secret (fexpand basepoint)")
  obtain x2 z2 where m: "mont_ladder (le_value secret) (le_value basepoint mod 2 ^ 255) = (x2, z2)"
    by (cases "mont_ladder (le_value secret) (le_value basepoint mod 2 ^ 255)")
  have t: "tight x x2" "tight z z2" using cmult_exact [OF fexpand_exact [OF assms(2)] assms(1) c m] by simp_all
  have "tight (fmul x (crecip z)) (x2 * z2 ^ nat (p25519 - 2))"
    by (intro tight_fmul loose_of_tight t crecip_exact)
  from fcontract_exact [OF this] show ?thesis
    unfolding montgomery_x_def m using assms(1) by (simp add: curve25519_donna_c_def c)
qed

end
