(* ===== verification/Curve25519_Properties.thy ===== *)
theory Curve25519_Properties
  imports Samples Curve25519_Donna
begin

text \<open>
  The key agreement of the library with the function that it is linked with: \<^verbatim>\<open>curve.c\<close> over
  \<^verbatim>\<open>curve25519-donna.c\<close> computes the Montgomery ladder of RFC 7748, and X25519 for the private
  keys that the library generates.
\<close>

text \<open>
  X25519 of RFC 7748 on byte strings: the scalar is clamped (decodeScalar25519), the top bit
  of the coordinate is ignored (decodeUCoordinate).  The ladder visits all 256 bits of the
  scalar, as the code does; the RFC starts one lower, at the first bit that can be set in a
  clamped scalar, and the step for a leading zero bit replaces the coordinates of the two
  points by multiples.
\<close>

lemma leading_zero_step:
  "mont_step u False (1, 0, u, 1) = (1, 0, (4 * u) * u mod p25519, (4 * u) * 1 mod p25519)"
  by (simp add: mont_step_def mont_double_add_def Let_def power2_eq_square algebra_simps)
     (simp add: p25519_def)

definition x25519 :: "bytes \<Rightarrow> bytes \<Rightarrow> int" where
  "x25519 k u = montgomery_x (le_value (clamp k)) (le_value u mod 2 ^ 255)"

text \<open>
  C14. Linked with \<^verbatim>\<open>curve25519_donna\<close>, a key agreement returns 32 bytes with the value of the
  Montgomery ladder of RFC 7748 on the private key as it is and the public key without its
  top bit, and the public key of a private key is the ladder on it and the number 9: the
  loop with its 64-bit limbs, carries and swaps computes the formulas of RFC 7748 over the
  integers modulo \<open>2 ^ 255 - 19\<close>.  The clamping of the scalar is commented out in the
  function and not done by \<^verbatim>\<open>curve_decode_private_point\<close>, so the result is X25519 for a clamped
  private key; every key from \<^verbatim>\<open>curve_generate_private_key\<close> is clamped.
\<close>

theorem agreement_is_x25519:
  assumes "curve25519_donna G = curve25519_donna_c" "pub_ok pk" "priv_ok sk"
  shows "\<exists>out pub. curve_calculate_agreement G (Some pk) (Some sk) = Inr out \<and> length out = 32 \<and>
    le_value out = montgomery_x (le_value (priv_data sk)) (le_value (pub_data pk) mod 2 ^ 255) \<and>
    curve_generate_public_key G sk = Inr pub \<and> pub_ok pub \<and>
    le_value (pub_data pub) = montgomery_x (le_value (priv_data sk)) 9 \<and>
    (clamped (priv_data sk) \<longrightarrow> le_value out = x25519 (priv_data sk) (pub_data pk) \<and>
       le_value (pub_data pub) = x25519 (priv_data sk) curve25519_basepoint) \<and>
    (\<forall>r r'. curve_generate_private_key G r = (Inr sk, r') \<longrightarrow> clamped (priv_data sk))"
proof -
  have l: "length (priv_data sk) = 32" "length (pub_data pk) = 32" "length curve25519_basepoint = 32"
    using assms(2,3) by (simp_all add: priv_ok_def pub_ok_def)
  have nine: "le_value curve25519_basepoint = 9" by code_simp
  have x: "x25519 (priv_data sk) u = montgomery_x (le_value (priv_data sk)) (le_value u mod 2 ^ 255)"
    if "clamped (priv_data sk)" for u using that by (simp add: x25519_def clamped_def)
  from donna_exact [OF l(1,2)] donna_exact [OF l(1,3)] show ?thesis
    using x curve_generate_private_key_clamped
    by (auto simp: nine curve_calculate_agreement_def curve_generate_public_key_def assms(1) pub_ok_def)
qed

theorem agreement_is_x25519_witness:
  "clamped (0xF8 # replicate 30 2 @ [0x42]) \<and>
    (\<exists>out. curve_calculate_agreement (sample_context\<lparr>curve25519_donna := curve25519_donna_c\<rparr>)
        (Some (EC_Public_Key curve25519_basepoint)) (Some (EC_Private_Key (0xF8 # replicate 30 2 @ [0x42]))) = Inr out \<and>
      length out = 32 \<and> le_value out = x25519 (0xF8 # replicate 30 2 @ [0x42]) curve25519_basepoint)"
proof -
  let ?k = "0xF8 # replicate 30 2 @ [0x42] :: bytes"
  have "clamped ?k" by code_simp
  moreover have "pub_ok (EC_Public_Key curve25519_basepoint)" "priv_ok (EC_Private_Key ?k)"
    by (simp_all add: pub_ok_def priv_ok_def)
  moreover have "curve25519_donna (sample_context\<lparr>curve25519_donna := curve25519_donna_c\<rparr>) = curve25519_donna_c" by simp
  ultimately show ?thesis
    using agreement_is_x25519 [of "sample_context\<lparr>curve25519_donna := curve25519_donna_c\<rparr>"
        "EC_Public_Key curve25519_basepoint" "EC_Private_Key ?k"] by (metis ec_private_key.sel ec_public_key.sel)
qed

text \<open>
  Field multiplication: with ten limbs below \<open>2 ^ 27\<close> in absolute value no sum of products and
  no carry leaves 64 bits, the result has ten limbs below \<open>2 ^ 26\<close>, and its value is the product
  modulo \<open>2 ^ 255 - 19\<close>; squaring is multiplication with itself, and \<^verbatim>\<open>crecip\<close> raises to the power
  \<open>2 ^ 255 - 21\<close>.
\<close>

lemma field_multiplication:
  assumes "length a = 10" "length b = 10" "within (2 ^ 27) (map sint a)" "within (2 ^ 27) (map sint b)"
  shows "length (fmul a b) = 10 \<and> within (2 ^ 26) (map sint (fmul a b)) \<and>
    field_value (fmul a b) mod p25519 = field_value a * field_value b mod p25519 \<and> fsquare a = fmul a a \<and>
    field_value (crecip (fmul a b)) mod p25519 = (field_value a * field_value b) ^ nat (p25519 - 2) mod p25519"
proof -
  have t: "tight (fmul a b) (field_value a * field_value b)" using assms by (intro tight_fmul) (simp_all add: field_rep_def)
  with crecip_exact [OF t] show ?thesis by (simp add: field_rep_def fsquare_fmul)
qed

text \<open>
  Bytes and field elements: \<^verbatim>\<open>fcontract\<close> writes the 32 bytes of the unique number below
  \<open>2 ^ 255 - 19\<close> that ten limbs below \<open>2 ^ 26\<close> in absolute value stand for, so that expanding
  and contracting a byte string reduces it modulo the prime and keeps it when it is reduced.
\<close>

lemma field_bytes_canonical:
  assumes "length bs = 32" "length z = 10" "within (2 ^ 26) (map sint z)"
  shows "length (fcontract z) = 32 \<and> le_value (fcontract z) = field_value z mod p25519 \<and>
    le_value (fcontract (fexpand bs)) = le_value bs mod 2 ^ 255 mod p25519 \<and>
    (le_value bs < p25519 \<longrightarrow> fcontract (fexpand bs) = bs)"
proof -
  have t: "tight z (field_value z)" using assms by (simp add: field_rep_def)
  note e = fcontract_exact [OF fexpand_exact [OF assms(1)]]
  have "fcontract (fexpand bs) = bs" if "le_value bs < p25519"
  proof (rule le_value_inject)
    have "le_value bs mod 2 ^ 255 = le_value bs" using that le_value_bounds(1) [of bs] by (intro mod_pos_pos_trivial) (simp_all add: p25519_def)
    then show "le_value (fcontract (fexpand bs)) = le_value bs"
      unfolding e(1) using that le_value_bounds(1) [of bs] by (simp only:) (rule mod_pos_pos_trivial)
  qed (simp add: e(2) assms(1))
  with fcontract_exact [OF t] e(1) show ?thesis by blast
qed

end
