(* ===== verification/Limb_Programs.thy ===== *)
theory Limb_Programs
  imports Machine_Ints
begin

text \<open>
  Straight-line code over an array of limbs, as the reduction steps of the Ed25519 sources are
  written: a program is a list of statements, executed on words of any width.  Two checks on a
  program, both evaluated on numbers only, give its correctness: \<open>limb_bounds\<close> follows how large
  the limbs can get and fails when a statement could overflow, and \<open>limb_op_sound\<close> says that a
  statement keeps the weighted sum of the limbs modulo a number.
\<close>

section \<open>Programs\<close>

text \<open>
  \<open>Carry b r i j m\<close> is \<^verbatim>\<open>c = (h[i] + r) >> b; h[j] += c * m; h[i] -= c << b;\<close> and \<open>Fold i [(j, k), \<dots>]\<close>
  is \<^verbatim>\<open>h[j] += h[i] * k; \<dots> h[i] = 0;\<close>, and \<open>Trim b i\<close> is \<^verbatim>\<open>c = h[i] >> b; h[i] -= c << b;\<close>.
\<close>

datatype limb_op =
    Carry nat int nat nat int
  | Fold nat "(nat \<times> int) list"
  | Trim nat nat

fun limb_step :: "limb_op \<Rightarrow> 'a :: len word list \<Rightarrow> 'a word list" where
  "limb_step (Carry b r i j m) h =
     (let c = signed_drop_bit b (h ! i + of_int r); h1 = h[j := h ! j + c * of_int m]
      in h1[i := h1 ! i - push_bit b c])"
| "limb_step (Fold i ks) h = (fold (\<lambda>(j, k) h. h[j := h ! j + h ! i * of_int k]) ks h)[i := 0]"
| "limb_step (Trim b i) h = h[i := h ! i - push_bit b (signed_drop_bit b (h ! i))]"

definition limb_run :: "limb_op list \<Rightarrow> 'a :: len word list \<Rightarrow> 'a word list" where
  "limb_run ops h = fold limb_step ops h"

fun int_step :: "limb_op \<Rightarrow> int list \<Rightarrow> int list" where
  "int_step (Carry b r i j m) h =
     (let c = (h ! i + r) div 2 ^ b; h1 = h[j := h ! j + c * m]
      in h1[i := h1 ! i - c * 2 ^ b])"
| "int_step (Fold i ks) h = (fold (\<lambda>(j, k) h. h[j := h ! j + h ! i * k]) ks h)[i := 0]"
| "int_step (Trim b i) h = h[i := h ! i - h ! i div 2 ^ b * 2 ^ b]"

definition int_run :: "limb_op list \<Rightarrow> int list \<Rightarrow> int list" where
  "int_run ops h = fold int_step ops h"

section \<open>Bounds\<close>

text \<open>Every limb has an interval; a statement is refused when a result could leave \<open>w\<close> bits.\<close>

type_synonym intervals = "(int \<times> int) list"

definition fits :: "nat \<Rightarrow> int \<times> int \<Rightarrow> bool" where
  "fits w I \<longleftrightarrow> - (2 ^ (w - 1)) \<le> fst I \<and> snd I < 2 ^ (w - 1)"

fun scaled :: "int \<Rightarrow> int \<times> int \<Rightarrow> int \<times> int" where
  "scaled k (l, u) = (if 0 \<le> k then (l * k, u * k) else (u * k, l * k))"

fun plus_interval :: "int \<times> int \<Rightarrow> int \<times> int \<Rightarrow> int \<times> int" where
  "plus_interval (l, u) (l', u') = (l + l', u + u')"

fun fold_bounds :: "nat \<Rightarrow> nat \<Rightarrow> (nat \<times> int) list \<Rightarrow> intervals \<Rightarrow> intervals option" where
  "fold_bounds w i [] B = Some B"
| "fold_bounds w i ((j, k) # ks) B =
     (let I = plus_interval (B ! j) (scaled k (B ! i)) in
      if j < length B \<and> j \<noteq> i \<and> fits w (scaled k (B ! i)) \<and> fits w I then fold_bounds w i ks (B[j := I]) else None)"

fun shifted :: "nat \<Rightarrow> int \<Rightarrow> int \<times> int \<Rightarrow> int \<times> int" where
  "shifted b r (l, u) = ((l + r) div 2 ^ b, (u + r) div 2 ^ b)"

fun limb_bounds :: "nat \<Rightarrow> limb_op \<Rightarrow> intervals \<Rightarrow> intervals option" where
  "limb_bounds w (Carry b r i j m) B =
     (let C = shifted b r (B ! i); I = plus_interval (B ! j) (scaled m C) in
      if i < length B \<and> j < length B \<and> i \<noteq> j \<and> 0 \<le> r \<and> r < 2 ^ b \<and> b < w - 1 \<and> fits w (plus_interval (B ! i) (r, r)) \<and>
         fits w (scaled m C) \<and> fits w (scaled (2 ^ b) C) \<and> fits w I
      then Some (B[j := I, i := (- r, 2 ^ b - 1 - r)]) else None)"
| "limb_bounds w (Fold i ks) B =
     (if i < length B then map_option (\<lambda>B'. B'[i := (0, 0)]) (fold_bounds w i ks B) else None)"
| "limb_bounds w (Trim b i) B =
     (if i < length B \<and> b < w - 1 \<and> fits w (scaled (2 ^ b) (shifted b 0 (B ! i))) then Some (B[i := (0, 2 ^ b - 1)]) else None)"

fun run_bounds :: "nat \<Rightarrow> limb_op list \<Rightarrow> intervals \<Rightarrow> intervals option" where
  "run_bounds w [] B = Some B"
| "run_bounds w (p # ops) B = (case limb_bounds w p B of None \<Rightarrow> None | Some B' \<Rightarrow> run_bounds w ops B')"

abbreviation in_interval :: "int \<times> int \<Rightarrow> int \<Rightarrow> bool" where
  "in_interval I x \<equiv> fst I \<le> x \<and> x \<le> snd I"

abbreviation bounded :: "intervals \<Rightarrow> int list \<Rightarrow> bool" where
  "bounded B h \<equiv> list_all2 (\<lambda>x I. in_interval I x) h B"

lemma bounded_nth: "bounded B h \<Longrightarrow> i < length B \<Longrightarrow> in_interval (B ! i) (h ! i)"
  by (simp add: list_all2_conv_all_nth)

lemma bounded_update: "bounded B h \<Longrightarrow> in_interval I x \<Longrightarrow> bounded (B[i := I]) (h[i := x])"
  by (simp add: list_all2_update_cong)

lemma in_plus_interval: "in_interval I x \<Longrightarrow> in_interval J y \<Longrightarrow> in_interval (plus_interval I J) (x + y)"
  by (cases I; cases J) auto

lemma in_scaled: "in_interval I x \<Longrightarrow> in_interval (scaled k I) (x * k)"
  by (cases I) (auto simp: mult_right_mono mult_right_mono_neg)

lemma in_shifted: "in_interval I x \<Longrightarrow> in_interval (shifted b r I) ((x + r) div 2 ^ b)"
  by (cases I) (auto intro!: zdiv_mono1)

lemma sint_fits: "fits (LENGTH('a :: len)) I \<Longrightarrow> in_interval I v \<Longrightarrow> sint (of_int v :: 'a word) = v"
  by (simp only: sint_sbintrunc' fits_def) (rule signed_take_bit_int_eq_self, auto)

text \<open>\<open>x + c * m\<close> is exact when its interval fits.\<close>

lemma mult_add_exact:
  fixes x c :: "'a :: len word"
  assumes "in_interval I (sint x)" "in_interval J (sint c)" "fits (LENGTH('a)) (plus_interval I (scaled m J))"
  shows "sint (x + c * of_int m) = sint x + sint c * m" "in_interval (plus_interval I (scaled m J)) (sint x + sint c * m)"
proof -
  show b: "in_interval (plus_interval I (scaled m J)) (sint x + sint c * m)"
    by (rule in_plus_interval [OF assms(1) in_scaled [OF assms(2)]])
  have "x + c * of_int m = of_int (sint x + sint c * m)" by simp
  then show "sint (x + c * of_int m) = sint x + sint c * m" using sint_fits [OF assms(3) b] by simp
qed

lemma fold_exact:
  fixes h :: "'a :: len word list"
  assumes "bounded B (map sint h)" "i < length B" "fold_bounds (LENGTH('a)) i ks B = Some B'"
  shows "map sint (fold (\<lambda>(j, k) h. h[j := h ! j + h ! i * of_int k]) ks h)
      = fold (\<lambda>(j, k) h. h[j := h ! j + h ! i * k]) ks (map sint h) \<and>
    bounded B' (fold (\<lambda>(j, k) h. h[j := h ! j + h ! i * k]) ks (map sint h)) \<and> length B' = length B"
  using assms
proof (induction ks arbitrary: h B)
  case (Cons jk ks)
  obtain j k where jk: "jk = (j, k)" by (cases jk)
  let ?w = "LENGTH('a)" and ?I = "plus_interval (B ! j) (scaled k (B ! i))"
  have c: "j < length B" "j \<noteq> i" "fits ?w ?I" "fold_bounds ?w i ks (B[j := ?I]) = Some B'"
    using Cons.prems(3) by (auto simp: jk Let_def split: if_splits)
  have len: "length h = length B" using Cons.prems(1) by (auto dest: list_all2_lengthD)
  have x: "sint (h ! j + h ! i * of_int k) = sint (h ! j) + sint (h ! i) * k" "in_interval ?I (sint (h ! j) + sint (h ! i) * k)"
    using mult_add_exact [of "B ! j" "h ! j" "B ! i" "h ! i" k] bounded_nth [OF Cons.prems(1) c(1)]
      bounded_nth [OF Cons.prems(1,2)] c len Cons.prems(2) by simp_all
  have m: "map sint (h[j := h ! j + h ! i * of_int k]) = (map sint h)[j := map sint h ! j + map sint h ! i * k]"
    using c(1) len Cons.prems(2) x(1) by (simp add: map_update)
  have "bounded (B[j := ?I]) (map sint (h[j := h ! j + h ! i * of_int k]))"
    using bounded_update [OF Cons.prems(1) x(2), of j] x(1) by (simp add: map_update)
  from Cons.IH [OF this _ c(4)] show ?case using Cons.prems(2) by (simp add: jk m)
qed simp

lemma remainder_interval: "0 \<le> r \<Longrightarrow> in_interval (- r, 2 ^ b - 1 - r) (v - (v + r) div 2 ^ b * 2 ^ b)"
proof -
  have "v - (v + r) div 2 ^ b * 2 ^ b = (v + r) mod 2 ^ b - r" using div_mult_mod_eq [of "v + r" "2 ^ b"] by linarith
  moreover have "0 \<le> (v + r) mod 2 ^ b" "(v + r) mod 2 ^ b < 2 ^ b" by simp_all
  ultimately show ?thesis unfolding fst_conv snd_conv by linarith
qed

lemma remainder_exact:
  fixes x :: "'a :: len word"
  assumes "0 \<le> r" "r < 2 ^ b" "b < LENGTH('a) - 1" "sint q = (sint x + r) div 2 ^ b"
  shows "sint (x - push_bit b q) = sint x - sint q * 2 ^ b"
proof -
  have "(2 :: int) ^ b \<le> 2 ^ (LENGTH('a) - 1)" using assms(3) by (intro power_increasing) simp_all
  then have "fits (LENGTH('a)) (- r, 2 ^ b - 1 - r)" using assms(1,2) unfolding fits_def fst_conv snd_conv by linarith
  from sint_fits [OF this remainder_interval [OF assms(1), of b "sint x"]]
  have "sint (of_int (sint x - sint q * 2 ^ b) :: 'a word) = sint x - sint q * 2 ^ b" by (simp only: assms(4))
  then show ?thesis by (simp add: push_bit_eq_mult)
qed

text \<open>A statement whose bounds fit is exact and keeps to the computed bounds.\<close>

lemma limb_step_exact:
  fixes h :: "'a :: len word list"
  assumes "bounded B (map sint h)" "limb_bounds (LENGTH('a)) p B = Some B'"
  shows "map sint (limb_step p h) = int_step p (map sint h) \<and> bounded B' (map sint (limb_step p h))"
proof (cases p)
  case (Fold i ks)
  obtain B1 where B1: "i < length B" "fold_bounds (LENGTH('a)) i ks B = Some B1" "B' = B1[i := (0, 0)]"
    using assms(2) by (auto simp: Fold split: if_splits)
  show ?thesis
    using fold_exact [OF assms(1) B1(1,2)] by (auto simp: Fold map_update B1(3) intro: bounded_update)
next
  case (Trim b i)
  have c: "i < length B" "b < LENGTH('a) - 1" and B': "B' = B[i := (0, 2 ^ b - 1)]"
    using assms(2) by (auto simp: Trim split: if_splits)
  have len: "length h = length B" using assms(1) by (auto dest: list_all2_lengthD)
  have x: "sint (h ! i - push_bit b (signed_drop_bit b (h ! i))) = sint (h ! i) - sint (h ! i) div 2 ^ b * 2 ^ b"
    using remainder_exact [of 0 b "signed_drop_bit b (h ! i)" "h ! i"] c(2) by (simp add: sint_signed_drop_bit)
  show ?thesis
    unfolding B' using bounded_update [OF assms(1), of "(0, 2 ^ b - 1)"] remainder_interval [of 0 b "sint (h ! i)"] c(1) len
    by (simp add: Trim map_update x)
next
  case (Carry b r i j m)
  let ?w = "LENGTH('a)" and ?C = "shifted b r (B ! i)"
  let ?I = "plus_interval (B ! j) (scaled m ?C)"
  have c: "i < length B" "j < length B" "i \<noteq> j" "0 \<le> r" "r < 2 ^ b" "b < ?w - 1" "fits ?w (plus_interval (B ! i) (r, r))" "fits ?w ?I"
    and B': "B' = B[j := ?I, i := (- r, 2 ^ b - 1 - r)]"
    using assms(2) by (auto simp: Carry Let_def split: if_splits)
  have len: "length h = length B" using assms(1) by (auto dest: list_all2_lengthD)
  have hi: "in_interval (B ! i) (sint (h ! i))" "in_interval (B ! j) (sint (h ! j))" using bounded_nth [OF assms(1)] c(1,2) len by auto
  define q where "q = signed_drop_bit b (h ! i + of_int r)"
  have "sint (h ! i + of_int r) = sint (h ! i) + r"
    using sint_fits [OF c(7), of "sint (h ! i) + r"] in_plus_interval [OF hi(1), of "(r, r)" r] by simp
  then have q: "sint q = (sint (h ! i) + r) div 2 ^ b" by (simp add: q_def sint_signed_drop_bit)
  have qb: "in_interval ?C (sint q)" unfolding q by (rule in_shifted [OF hi(1)])
  note xj = mult_add_exact [OF hi(2) qb c(8)]
  note xi = remainder_exact [OF c(4-6) q]
  have step: "limb_step p h = h[j := h ! j + q * of_int m, i := h ! i - push_bit b q]"
    using c(3) by (simp add: Carry q_def Let_def)
  have "int_step p (map sint h) = (map sint h)[j := sint (h ! j) + sint q * m, i := sint (h ! i) - sint q * 2 ^ b]"
    using c(1-3) len by (simp add: Carry q Let_def)
  moreover have "bounded B' ((map sint h)[j := sint (h ! j) + sint q * m, i := sint (h ! i) - sint q * 2 ^ b])"
    unfolding B' using remainder_interval [OF c(4), of b "sint (h ! i)"] xj(2) by (intro bounded_update assms(1)) (simp_all add: q)
  ultimately show ?thesis by (simp add: step map_update xj(1) xi)
qed

lemma limb_run_exact:
  fixes h :: "'a :: len word list"
  assumes "bounded B (map sint h)" "run_bounds (LENGTH('a)) ops B = Some B'"
  shows "map sint (limb_run ops h) = int_run ops (map sint h) \<and> bounded B' (int_run ops (map sint h))"
  using assms
proof (induction ops arbitrary: h B)
  case (Cons p ops)
  obtain B1 where B1: "limb_bounds (LENGTH('a)) p B = Some B1" "run_bounds (LENGTH('a)) ops B1 = Some B'"
    using Cons.prems(2) by (auto split: option.splits)
  note st = limb_step_exact [OF Cons.prems(1) B1(1)]
  from Cons.IH [OF conjunct2 [OF st] B1(2)] st show ?case by (simp add: limb_run_def int_run_def)
qed (simp add: limb_run_def int_run_def)

section \<open>Values\<close>

definition weighted :: "int list \<Rightarrow> int list \<Rightarrow> int" where
  "weighted W h = sum_list (map2 (*) W h)"

fun limb_op_sound :: "int \<Rightarrow> int list \<Rightarrow> limb_op \<Rightarrow> bool" where
  "limb_op_sound M W (Carry b r i j m) \<longleftrightarrow>
     i < length W \<and> j < length W \<and> i \<noteq> j \<and> (m * W ! j - 2 ^ b * W ! i) mod M = 0"
| "limb_op_sound M W (Fold i ks) \<longleftrightarrow>
     i < length W \<and> list_all (\<lambda>(j, k). j < length W \<and> j \<noteq> i) ks \<and> (sum_list (map (\<lambda>(j, k). k * W ! j) ks) - W ! i) mod M = 0"
| "limb_op_sound M W (Trim b i) \<longleftrightarrow> i < length W \<and> 2 ^ b * W ! i mod M = 0"

lemma weighted_update:
  assumes "length h = length W" "i < length W"
  shows "weighted W (h[i := x]) = weighted W h + W ! i * (x - h ! i)"
  using assms
proof (induction W arbitrary: h i)
  case (Cons w W)
  then obtain y h' where h: "h = y # h'" by (cases h) auto
  show ?case
  proof (cases i)
    case (Suc n)
    then show ?thesis using Cons.IH [of h' n] Cons.prems by (simp add: h weighted_def)
  qed (simp add: h weighted_def right_diff_distrib)
qed simp

lemma fold_step_length [simp]: "length (fold (\<lambda>(j, k) h. h[j := h ! j + h ! i * k]) ks h) = length h"
  by (induction ks arbitrary: h) (auto split: prod.splits)

lemma length_int_step [simp]: "length (int_step p h) = length h"
  by (cases p) (simp_all add: Let_def)

lemma weighted_fold:
  assumes "length h = length W" "list_all (\<lambda>(j, k). j < length W \<and> j \<noteq> i) ks"
  shows "weighted W (fold (\<lambda>(j, k) h. h[j := h ! j + h ! i * k]) ks h)
      = weighted W h + h ! i * sum_list (map (\<lambda>(j, k). k * W ! j) ks) \<and>
    fold (\<lambda>(j, k) h. h[j := h ! j + h ! i * k]) ks h ! i = h ! i"
  using assms
proof (induction ks arbitrary: h)
  case (Cons jk ks)
  obtain j k where jk: "jk = (j, k)" by (cases jk)
  have "weighted W (h[j := h ! j + h ! i * k]) = weighted W h + h ! i * (k * W ! j)"
    using Cons.prems by (simp add: jk weighted_update ac_simps)
  then show ?case using Cons.IH [of "h[j := h ! j + h ! i * k]"] Cons.prems by (simp add: jk distrib_left)
qed simp

lemma weighted_Fold:
  assumes "length h = length W" "i < length W" "list_all (\<lambda>(j, k). j < length W \<and> j \<noteq> i) ks"
  shows "weighted W (int_step (Fold i ks) h) = weighted W h + h ! i * (sum_list (map (\<lambda>(j, k). k * W ! j) ks) - W ! i)"
  using weighted_fold [OF assms(1,3)] assms(1,2) by (simp add: weighted_update right_diff_distrib mult.commute [of "W ! i"])

lemma limb_op_sound_step:
  assumes "limb_op_sound M W p" "length h = length W"
  shows "weighted W (int_step p h) mod M = weighted W h mod M"
proof (cases p)
  case (Carry b r i j m)
  define c where "c = (h ! i + r) div 2 ^ b"
  have "int_step p h = h[j := h ! j + c * m, i := h ! i - c * 2 ^ b]"
    using assms by (simp add: Carry c_def Let_def)
  moreover have "weighted W (h[j := h ! j + c * m, i := h ! i - c * 2 ^ b])
      = weighted W h + W ! j * (c * m) + W ! i * (- (c * 2 ^ b))"
    using assms by (simp add: Carry weighted_update)
  ultimately have "weighted W (int_step p h) = weighted W h + c * (m * W ! j - 2 ^ b * W ! i)"
    by (simp add: algebra_simps)
  moreover have "M dvd m * W ! j - 2 ^ b * W ! i" using assms(1) by (simp add: Carry mod_eq_0_iff_dvd)
  then have "M dvd c * (m * W ! j - 2 ^ b * W ! i)" by (rule dvd_mult)
  ultimately show ?thesis by (simp add: mod_eq_dvd_iff)
next
  case (Trim b i)
  have "weighted W (int_step p h) = weighted W h - h ! i div 2 ^ b * (2 ^ b * W ! i)"
    using assms by (simp add: Trim weighted_update algebra_simps)
  moreover have "M dvd 2 ^ b * W ! i" using assms(1) by (simp add: Trim mod_eq_0_iff_dvd)
  then have "M dvd h ! i div 2 ^ b * (2 ^ b * W ! i)" by (rule dvd_mult)
  ultimately show ?thesis by (simp add: mod_eq_dvd_iff)
next
  case (Fold i ks)
  have ok: "i < length W" "list_all (\<lambda>(j, k). j < length W \<and> j \<noteq> i) ks" "M dvd sum_list (map (\<lambda>(j, k). k * W ! j) ks) - W ! i"
    using assms(1) by (simp_all add: Fold mod_eq_0_iff_dvd)
  have "weighted W (int_step p h) = weighted W h + h ! i * (sum_list (map (\<lambda>(j, k). k * W ! j) ks) - W ! i)"
    unfolding Fold by (rule weighted_Fold [OF assms(2) ok(1,2)])
  moreover have "M dvd h ! i * (sum_list (map (\<lambda>(j, k). k * W ! j) ks) - W ! i)" using ok(3) by (rule dvd_mult)
  ultimately show ?thesis by (simp add: mod_eq_dvd_iff)
qed

lemma limb_ops_sound_run:
  assumes "list_all (limb_op_sound M W) ops" "length h = length W"
  shows "weighted W (int_run ops h) mod M = weighted W h mod M" "length (int_run ops h) = length W"
proof -
  have "weighted W (fold int_step ops h) mod M = weighted W h mod M \<and> length (fold int_step ops h) = length W"
    using assms by (induction ops arbitrary: h) (simp_all add: limb_op_sound_step)
  then show "weighted W (int_run ops h) mod M = weighted W h mod M" "length (int_run ops h) = length W"
    by (simp_all add: int_run_def)
qed

lemma length_limb_run [simp]: "length (limb_run ops h) = length h"
proof -
  have f: "length (fold (\<lambda>(j, k) h. h[j := h ! j + h ! i * of_int k]) ks h) = length h" for i ks and h :: "'a word list"
    by (induction ks arbitrary: h) (auto split: prod.splits)
  have "length (limb_step p h) = length h" for p and h :: "'a word list"
    by (cases p) (simp_all add: Let_def f)
  then show ?thesis unfolding limb_run_def by (induction ops arbitrary: h) simp_all
qed

text \<open>Running one program after another, and the value of bounded limbs.\<close>

lemma limb_run_append: "limb_run (ops1 @ ops2) h = limb_run ops2 (limb_run ops1 h)"
  by (simp add: limb_run_def)

lemma limb_run_single: "int_run [p] h = int_step p h"
  by (simp add: int_run_def)

end
