(* ===== verification/Ed25519_Field.thy ===== *)
theory Ed25519_Field
  imports Curve25519_Field Limb_Programs
begin

text \<open>
  Field arithmetic of the Ed25519 sources (\<^verbatim>\<open>curve25519/ed25519/fe_*.c\<close>).  A field element is ten
  signed 32-bit limbs, alternately 26 and 25 bits wide; products are summed in 64 bits and
  carried back by a limb program.  A level \<open>k\<close> bounds the limbs: the results of a product have
  level 1, sums add levels, and a product accepts level 3.
\<close>

type_synonym fe = "32 word list"

section \<open>Linear operations\<close>

definition fe_0 :: fe where "fe_0 = [0, 0, 0, 0, 0, 0, 0, 0, 0, 0]"
definition fe_1 :: fe where "fe_1 = [1, 0, 0, 0, 0, 0, 0, 0, 0, 0]"

definition fe_add :: "fe \<Rightarrow> fe \<Rightarrow> fe" where "fe_add f g = map2 (+) f g"
definition fe_sub :: "fe \<Rightarrow> fe \<Rightarrow> fe" where "fe_sub f g = map2 (-) f g"
definition fe_neg :: "fe \<Rightarrow> fe" where "fe_neg f = map uminus f"

definition fe_cmov :: "fe \<Rightarrow> fe \<Rightarrow> u32 \<Rightarrow> fe" where
  "fe_cmov f g b = map2 (\<lambda>x y. x XOR ((x XOR y) AND - b)) f g"

section \<open>Products\<close>

text \<open>
  The ten sums of products; \<open>f2\<close>, \<open>g19\<close> and \<open>f38\<close> stand for the variables \<^verbatim>\<open>f1_2\<close>, \<^verbatim>\<open>g9_19\<close>, \<^verbatim>\<open>f9_38\<close> of the
  source, 32-bit multiples of the limbs.
\<close>

definition fe_mul_limbs :: "'a :: comm_ring_1 list \<Rightarrow> 'a list \<Rightarrow> 'a list \<Rightarrow> 'a list \<Rightarrow> 'a list" where
  "fe_mul_limbs f f2 g g19 =
     [f ! 0 * g ! 0 + f2 ! 1 * g19 ! 9 + f ! 2 * g19 ! 8 + f2 ! 3 * g19 ! 7 + f ! 4 * g19 ! 6 + f2 ! 5 * g19 ! 5 +
        f ! 6 * g19 ! 4 + f2 ! 7 * g19 ! 3 + f ! 8 * g19 ! 2 + f2 ! 9 * g19 ! 1,
      f ! 0 * g ! 1 + f ! 1 * g ! 0 + f ! 2 * g19 ! 9 + f ! 3 * g19 ! 8 + f ! 4 * g19 ! 7 + f ! 5 * g19 ! 6 +
        f ! 6 * g19 ! 5 + f ! 7 * g19 ! 4 + f ! 8 * g19 ! 3 + f ! 9 * g19 ! 2,
      f ! 0 * g ! 2 + f2 ! 1 * g ! 1 + f ! 2 * g ! 0 + f2 ! 3 * g19 ! 9 + f ! 4 * g19 ! 8 + f2 ! 5 * g19 ! 7 +
        f ! 6 * g19 ! 6 + f2 ! 7 * g19 ! 5 + f ! 8 * g19 ! 4 + f2 ! 9 * g19 ! 3,
      f ! 0 * g ! 3 + f ! 1 * g ! 2 + f ! 2 * g ! 1 + f ! 3 * g ! 0 + f ! 4 * g19 ! 9 + f ! 5 * g19 ! 8 +
        f ! 6 * g19 ! 7 + f ! 7 * g19 ! 6 + f ! 8 * g19 ! 5 + f ! 9 * g19 ! 4,
      f ! 0 * g ! 4 + f2 ! 1 * g ! 3 + f ! 2 * g ! 2 + f2 ! 3 * g ! 1 + f ! 4 * g ! 0 + f2 ! 5 * g19 ! 9 +
        f ! 6 * g19 ! 8 + f2 ! 7 * g19 ! 7 + f ! 8 * g19 ! 6 + f2 ! 9 * g19 ! 5,
      f ! 0 * g ! 5 + f ! 1 * g ! 4 + f ! 2 * g ! 3 + f ! 3 * g ! 2 + f ! 4 * g ! 1 + f ! 5 * g ! 0 +
        f ! 6 * g19 ! 9 + f ! 7 * g19 ! 8 + f ! 8 * g19 ! 7 + f ! 9 * g19 ! 6,
      f ! 0 * g ! 6 + f2 ! 1 * g ! 5 + f ! 2 * g ! 4 + f2 ! 3 * g ! 3 + f ! 4 * g ! 2 + f2 ! 5 * g ! 1 +
        f ! 6 * g ! 0 + f2 ! 7 * g19 ! 9 + f ! 8 * g19 ! 8 + f2 ! 9 * g19 ! 7,
      f ! 0 * g ! 7 + f ! 1 * g ! 6 + f ! 2 * g ! 5 + f ! 3 * g ! 4 + f ! 4 * g ! 3 + f ! 5 * g ! 2 +
        f ! 6 * g ! 1 + f ! 7 * g ! 0 + f ! 8 * g19 ! 9 + f ! 9 * g19 ! 8,
      f ! 0 * g ! 8 + f2 ! 1 * g ! 7 + f ! 2 * g ! 6 + f2 ! 3 * g ! 5 + f ! 4 * g ! 4 + f2 ! 5 * g ! 3 +
        f ! 6 * g ! 2 + f2 ! 7 * g ! 1 + f ! 8 * g ! 0 + f2 ! 9 * g19 ! 9,
      f ! 0 * g ! 9 + f ! 1 * g ! 8 + f ! 2 * g ! 7 + f ! 3 * g ! 6 + f ! 4 * g ! 5 + f ! 5 * g ! 4 +
        f ! 6 * g ! 3 + f ! 7 * g ! 2 + f ! 8 * g ! 1 + f ! 9 * g ! 0]"

definition fe_sq_limbs :: "'a :: comm_ring_1 list \<Rightarrow> 'a list \<Rightarrow> 'a list \<Rightarrow> 'a list \<Rightarrow> 'a list" where
  "fe_sq_limbs f f2 f19 f38 =
     [f ! 0 * f ! 0 + f2 ! 1 * f38 ! 9 + f2 ! 2 * f19 ! 8 + f2 ! 3 * f38 ! 7 + f2 ! 4 * f19 ! 6 + f ! 5 * f38 ! 5,
      f2 ! 0 * f ! 1 + f ! 2 * f38 ! 9 + f2 ! 3 * f19 ! 8 + f ! 4 * f38 ! 7 + f2 ! 5 * f19 ! 6,
      f2 ! 0 * f ! 2 + f2 ! 1 * f ! 1 + f2 ! 3 * f38 ! 9 + f2 ! 4 * f19 ! 8 + f2 ! 5 * f38 ! 7 + f ! 6 * f19 ! 6,
      f2 ! 0 * f ! 3 + f2 ! 1 * f ! 2 + f ! 4 * f38 ! 9 + f2 ! 5 * f19 ! 8 + f ! 6 * f38 ! 7,
      f2 ! 0 * f ! 4 + f2 ! 1 * f2 ! 3 + f ! 2 * f ! 2 + f2 ! 5 * f38 ! 9 + f2 ! 6 * f19 ! 8 + f ! 7 * f38 ! 7,
      f2 ! 0 * f ! 5 + f2 ! 1 * f ! 4 + f2 ! 2 * f ! 3 + f ! 6 * f38 ! 9 + f2 ! 7 * f19 ! 8,
      f2 ! 0 * f ! 6 + f2 ! 1 * f2 ! 5 + f2 ! 2 * f ! 4 + f2 ! 3 * f ! 3 + f2 ! 7 * f38 ! 9 + f ! 8 * f19 ! 8,
      f2 ! 0 * f ! 7 + f2 ! 1 * f ! 6 + f2 ! 2 * f ! 5 + f2 ! 3 * f ! 4 + f ! 8 * f38 ! 9,
      f2 ! 0 * f ! 8 + f2 ! 1 * f2 ! 7 + f2 ! 2 * f ! 6 + f2 ! 3 * f2 ! 5 + f ! 4 * f ! 4 + f ! 9 * f38 ! 9,
      f2 ! 0 * f ! 9 + f2 ! 1 * f ! 8 + f2 ! 2 * f ! 7 + f2 ! 3 * f ! 6 + f2 ! 4 * f ! 5]"

text \<open>\<open>carryN\<close> of the source rounds to the nearest; the last limb carries into the first, times 19.\<close>

definition fe_carry :: "nat \<Rightarrow> limb_op" where
  "fe_carry i =
     (if i = 9 then Carry 25 (2 ^ 24) 9 0 19
      else if even i then Carry 26 (2 ^ 25) i (i + 1) 1 else Carry 25 (2 ^ 24) i (i + 1) 1)"

definition fe_carries :: "limb_op list" where
  "fe_carries = map fe_carry [0, 4, 1, 5, 2, 6, 3, 7, 4, 8, 9, 0]"

definition wide_limbs :: "32 word \<Rightarrow> fe \<Rightarrow> limb list" where
  "wide_limbs c f = map (\<lambda>x. scast (c * x)) f"

definition fe_mul :: "fe \<Rightarrow> fe \<Rightarrow> fe" where
  "fe_mul f g =
     map ucast (limb_run fe_carries
       (fe_mul_limbs (wide_limbs 1 f) (wide_limbs 2 f) (wide_limbs 1 g) (wide_limbs 19 g)))"

definition fe_sq :: "fe \<Rightarrow> fe" where
  "fe_sq f =
     map ucast (limb_run fe_carries
       (fe_sq_limbs (wide_limbs 1 f) (wide_limbs 2 f) (wide_limbs 19 f) (wide_limbs 38 f)))"

definition fe_sq2 :: "fe \<Rightarrow> fe" where
  "fe_sq2 f =
     map ucast (limb_run fe_carries
       (map (\<lambda>h. h + h) (fe_sq_limbs (wide_limbs 1 f) (wide_limbs 2 f) (wide_limbs 19 f) (wide_limbs 38 f))))"

section \<open>Levels and values\<close>

definition fe_tight :: "int list" where
  "fe_tight = [33889976, 16944988, 33889976, 16944988, 33889976, 16944988, 33889976, 16944988, 33889976, 16944988]"

definition fe_ok :: "int \<Rightarrow> fe \<Rightarrow> bool" where
  "fe_ok k f \<longleftrightarrow> list_all2 (\<lambda>x b. \<bar>sint x\<bar> \<le> k * b) f fe_tight"

abbreviation fe_value :: "fe \<Rightarrow> int" where
  "fe_value f \<equiv> limbs_value True (map sint f)"

definition fe_weights :: "int list" where
  "fe_weights = [1, 2 ^ 26, 2 ^ 51, 2 ^ 77, 2 ^ 102, 2 ^ 128, 2 ^ 153, 2 ^ 179, 2 ^ 204, 2 ^ 230]"

lemma fe_ok_length: "fe_ok k f \<Longrightarrow> length f = 10"
  by (auto simp: fe_ok_def fe_tight_def dest: list_all2_lengthD)

lemma fe_tight_set: "b \<in> set fe_tight \<Longrightarrow> 0 \<le> b \<and> 63 * b < 2 ^ 31"
  by (auto simp: fe_tight_def)

lemma fe_ok_mono: "fe_ok k f \<Longrightarrow> k \<le> l \<Longrightarrow> fe_ok l f"
proof -
  assume f: "fe_ok k f" and kl: "k \<le> l"
  show "fe_ok l f" unfolding fe_ok_def list_all2_conv_all_nth
  proof (intro conjI allI impI)
    show "length f = length fe_tight" using f by (auto simp: fe_ok_def dest: list_all2_lengthD)
    fix i assume i: "i < length f"
    then have "\<bar>sint (f ! i)\<bar> \<le> k * fe_tight ! i" "fe_tight ! i \<in> set fe_tight"
      using f by (auto simp: fe_ok_def list_all2_conv_all_nth)
    then show "\<bar>sint (f ! i)\<bar> \<le> l * fe_tight ! i" using kl fe_tight_set by (meson mult_right_mono order_trans)
  qed
qed

lemma weighted_fe: "length h = 10 \<Longrightarrow> weighted fe_weights h = limbs_value True h"
  by (auto simp: length_10 weighted_def fe_weights_def)

text \<open>Sums, differences and negations are exact up to level 63.\<close>

lemma limbs_value_linear:
  "length xs = length ys \<Longrightarrow> limbs_value e (map2 (+) xs ys) = limbs_value e xs + limbs_value e ys"
  "length xs = length ys \<Longrightarrow> limbs_value e (map2 (-) xs ys) = limbs_value e xs - limbs_value e ys"
  "limbs_value e (map uminus xs) = - limbs_value e xs"
proof -
  show "length xs = length ys \<Longrightarrow> limbs_value e (map2 (+) xs ys) = limbs_value e xs + limbs_value e ys"
    by (induction xs ys arbitrary: e rule: list_induct2) (simp_all add: distrib_left)
  show "length xs = length ys \<Longrightarrow> limbs_value e (map2 (-) xs ys) = limbs_value e xs - limbs_value e ys"
    by (induction xs ys arbitrary: e rule: list_induct2) (simp_all add: right_diff_distrib)
  show "limbs_value e (map uminus xs) = - limbs_value e xs"
    by (induction xs arbitrary: e) simp_all
qed

lemma level_add:
  fixes x y :: "32 word"
  assumes "\<bar>sint x\<bar> \<le> k * b" "\<bar>sint y\<bar> \<le> l * b" "0 \<le> b" "63 * b < 2 ^ 31" "k + l \<le> 63"
  shows "sint (x + y) = sint x + sint y" "sint (x - y) = sint x - sint y"
    "\<bar>sint x + sint y\<bar> \<le> (k + l) * b" "\<bar>sint x - sint y\<bar> \<le> (k + l) * b"
proof -
  have kl: "(k + l) * b = k * b + l * b" by (rule distrib_right)
  show b: "\<bar>sint x + sint y\<bar> \<le> (k + l) * b" "\<bar>sint x - sint y\<bar> \<le> (k + l) * b" using assms(1,2) unfolding kl by linarith+
  have "(k + l) * b \<le> 63 * b" using assms(3,5) by (rule mult_right_mono [rotated])
  then show "sint (x + y) = sint x + sint y" "sint (x - y) = sint x - sint y"
    using sint_exact(1,2) [of x y] b assms(4) by simp_all
qed

lemma levels_add:
  assumes "list_all2 (\<lambda>x b. \<bar>sint x\<bar> \<le> k * b) f T" "list_all2 (\<lambda>x b. \<bar>sint x\<bar> \<le> l * b) g T"
    and "\<forall>b \<in> set T. 0 \<le> b \<and> 63 * b < 2 ^ 31" "k + l \<le> 63"
  shows "list_all2 (\<lambda>x b. \<bar>sint x\<bar> \<le> (k + l) * b) (fe_add f g) T \<and> map sint (fe_add f g) = map2 (+) (map sint f) (map sint g) \<and>
    list_all2 (\<lambda>x b. \<bar>sint x\<bar> \<le> (k + l) * b) (fe_sub f g) T \<and> map sint (fe_sub f g) = map2 (-) (map sint f) (map sint g)"
  using assms(1-3)
proof (induction T arbitrary: f g rule: list.induct)
  case (Cons b T)
  obtain x xs y ys where fg: "f = x # xs" "g = y # ys" and xy: "\<bar>sint x\<bar> \<le> k * b" "\<bar>sint y\<bar> \<le> l * b"
    and tl: "list_all2 (\<lambda>x b. \<bar>sint x\<bar> \<le> k * b) xs T" "list_all2 (\<lambda>x b. \<bar>sint x\<bar> \<le> l * b) ys T"
    using Cons.prems(1,2) by (auto simp: list_all2_Cons2)
  have b: "0 \<le> b" "63 * b < 2 ^ 31" using Cons.prems(3) by simp_all
  show ?case using Cons.IH [OF tl] Cons.prems(3) level_add [OF xy b assms(4)] by (simp add: fg fe_add_def fe_sub_def)
qed (simp add: fe_add_def fe_sub_def)

lemma fe_add_ok:
  assumes "fe_ok k f" "fe_ok l g" "k + l \<le> 63"
  shows "fe_ok (k + l) (fe_add f g)" "fe_value (fe_add f g) = fe_value f + fe_value g"
    "fe_ok (k + l) (fe_sub f g)" "fe_value (fe_sub f g) = fe_value f - fe_value g"
proof -
  have T: "\<forall>b \<in> set fe_tight. 0 \<le> b \<and> 63 * b < 2 ^ 31" using fe_tight_set by blast
  have len: "length (map sint f) = length (map sint g)" using fe_ok_length [OF assms(1)] fe_ok_length [OF assms(2)] by simp
  note l = levels_add [OF assms(1,2) [unfolded fe_ok_def] T assms(3)]
  show "fe_ok (k + l) (fe_add f g)" "fe_value (fe_add f g) = fe_value f + fe_value g"
    "fe_ok (k + l) (fe_sub f g)" "fe_value (fe_sub f g) = fe_value f - fe_value g"
    using l by (simp_all only: fe_ok_def limbs_value_linear(1,2) [OF len])
qed

lemma fe_neg_ok:
  assumes "fe_ok k f" "0 \<le> k" "k \<le> 63"
  shows "fe_ok k (fe_neg f)" "fe_value (fe_neg f) = - fe_value f"
proof -
  have z: "fe_ok 0 fe_0" by (simp add: fe_ok_def fe_0_def fe_tight_def)
  have eq: "fe_neg f = fe_sub fe_0 f"
    using fe_ok_length [OF assms(1)] by (auto simp: length_10 fe_neg_def fe_sub_def fe_0_def)
  show "fe_ok k (fe_neg f)" "fe_value (fe_neg f) = - fe_value f"
    unfolding eq using fe_add_ok(3,4) [OF z assms(1)] assms(3) by (simp_all add: fe_0_def)
qed

lemma fe_const_ok: "fe_ok 1 fe_0" "fe_value fe_0 = 0" "fe_ok 1 fe_1" "fe_value fe_1 = 1"
  by (simp_all add: fe_ok_def fe_tight_def fe_0_def fe_1_def)

lemma fe_cmov_eq: "length f = length g \<Longrightarrow> fe_cmov f g 0 = f \<and> fe_cmov f g 1 = g"
  by (induction f g rule: list_induct2) (simp_all add: fe_cmov_def word_bw_same flip: word_bw_assocs(3))

section \<open>Products are exact\<close>

lemma wide_limb_exact:
  fixes x :: "32 word"
  shows "\<bar>c * sint x\<bar> < 2 ^ 31 \<Longrightarrow> scast (of_int c * x) = (of_int (c * sint x) :: limb)"
proof -
  assume "\<bar>c * sint x\<bar> < 2 ^ 31"
  then have "sint (of_int c * x) = c * sint x" using sint_of_int_exact [of "c * sint x", where ?'a = 32] by simp
  then show ?thesis by (metis scast_eq of_int_eq_id)
qed

lemma fe_ok_nth: "fe_ok k f \<Longrightarrow> i < 10 \<Longrightarrow> \<bar>sint (f ! i)\<bar> \<le> k * fe_tight ! i"
  by (auto simp: fe_ok_def list_all2_conv_all_nth fe_tight_def)

lemma fe_tight_nth: "i < 10 \<Longrightarrow> fe_tight ! i = (if even i then 33889976 else 16944988)"
proof -
  assume "i < 10"
  then have "i = 0 \<or> i = 1 \<or> i = 2 \<or> i = 3 \<or> i = 4 \<or> i = 5 \<or> i = 6 \<or> i = 7 \<or> i = 8 \<or> i = 9" by arith
  then show ?thesis by (elim disjE) (simp_all add: fe_tight_def)
qed

lemma wide_limbs_exact:
  assumes "fe_ok 3 f" "c \<in> {1, 2, 19}"
  shows "wide_limbs (of_int c) f = map of_int (map (\<lambda>v. c * v) (map sint f))"
proof -
  have "scast (of_int c * f ! i) = (of_int (c * sint (f ! i)) :: limb)" if "i < 10" for i
  proof (rule wide_limb_exact)
    have "\<bar>sint (f ! i)\<bar> \<le> 101669928" using fe_ok_nth [OF assms(1) that] fe_tight_nth [OF that] by (simp split: if_splits)
    then show "\<bar>c * sint (f ! i)\<bar> < 2 ^ 31" using assms(2) by auto
  qed
  then show ?thesis using fe_ok_length [OF assms(1)] by (intro nth_equalityI) (simp_all add: wide_limbs_def)
qed

lemma fe_mul_limbs_of_int:
  assumes "length A = 10" "length A2 = 10" "length B = 10" "length B19 = 10"
  shows "fe_mul_limbs (map of_int A) (map of_int A2) (map of_int B) (map of_int B19) = map of_int (fe_mul_limbs A A2 B B19)"
  using assms by (simp add: fe_mul_limbs_def)

text \<open>The sums are the product with its high half folded back, modulo \<open>2 ^ 255 - 19\<close>.\<close>

lemma fe_mul_limbs_value:
  assumes "length A = 10" "length B = 10"
  shows "field_eq (limbs_value True (fe_mul_limbs A (map (\<lambda>v. 2 * v) A) B (map (\<lambda>v. 19 * v) B))) (limbs_value True A * limbs_value True B)"
proof -
  let ?P = "product_limbs A B"
  have "fe_mul_limbs A (map (\<lambda>v. 2 * v) A) B (map (\<lambda>v. 19 * v) B) = map2 (\<lambda>lo hi. lo + 19 * hi) (take 10 ?P) (drop 10 ?P @ [0])"
    using assms by (simp add: fe_mul_limbs_def product_limbs_def algebra_simps)
  moreover have "limbs_value True (map2 (\<lambda>lo hi. lo + 19 * hi) (take 10 ps) (drop 10 ps @ [0])) = limbs_value True ps - p25519 * limbs_value True (drop 10 ps)"
    if ps: "length ps = 19" for ps :: "int list"
  proof -
    obtain a b c d e f g h i j k l m n p q r s t where "ps = [a, b, c, d, e, f, g, h, i, j, k, l, m, n, p, q, r, s, t]"
      using ps unfolding length_19 by blast
    then show ?thesis by (simp add: p25519_def algebra_simps)
  qed
  moreover have "length ?P = 19" by (simp add: product_limbs_def)
  ultimately have "limbs_value True (fe_mul_limbs A (map (\<lambda>v. 2 * v) A) B (map (\<lambda>v. 19 * v) B))
      = limbs_value True A * limbs_value True B + p25519 * (- limbs_value True (drop 10 ?P))"
    using product_limbs_value [OF assms] by simp
  then show ?thesis by (rule field_eq_multiple)
qed

lemma fe_mul_limbs_mono:
  fixes A B :: "int list"
  assumes "list_all2 (\<lambda>v b. \<bar>v\<bar> \<le> b) A T" "list_all2 (\<lambda>v b. \<bar>v\<bar> \<le> b) A2 T2" "list_all2 (\<lambda>v b. \<bar>v\<bar> \<le> b) B T"
    "list_all2 (\<lambda>v b. \<bar>v\<bar> \<le> b) B19 T19" "length T = 10" "length T2 = 10" "length T19 = 10"
  shows "list_all2 (\<lambda>v b. \<bar>v\<bar> \<le> b) (fe_mul_limbs A A2 B B19) (fe_mul_limbs T T2 T T19)"
proof -
  have n: "\<bar>A ! i\<bar> \<le> T ! i" "\<bar>A2 ! i\<bar> \<le> T2 ! i" "\<bar>B ! i\<bar> \<le> T ! i" "\<bar>B19 ! i\<bar> \<le> T19 ! i" if "i < 10" for i
    using assms that by (auto simp: list_all2_conv_all_nth)
  show ?thesis
    unfolding fe_mul_limbs_def list.rel_inject list_all2_Nil
    by (intro conjI TrueI abs_le_combine n) simp_all
qed


text \<open>The carries bring any sums below \<open>2 ^ 62\<close> back to level 1.\<close>

definition symmetric :: "int list \<Rightarrow> intervals" where
  "symmetric T = map (\<lambda>b. (- b, b)) T"

lemma bounded_symmetric: "bounded (symmetric T) vs \<longleftrightarrow> list_all2 (\<lambda>v b. \<bar>v\<bar> \<le> b) vs T"
  by (auto simp: symmetric_def list_all2_map2 abs_le_iff intro: list_all2_mono)

definition fe_sums_max :: "int list" where
  "fe_sums_max = replicate 10 (3 * 2 ^ 60)"

definition fe_carried :: intervals where
  "fe_carried = the (run_bounds 64 fe_carries (symmetric fe_sums_max))"

lemma fe_carried_some: "run_bounds 64 fe_carries (symmetric fe_sums_max) = Some fe_carried"
  unfolding fe_carried_def by code_simp

lemma fe_carried_tight: "list_all2 (\<lambda>I b. - b \<le> fst I \<and> snd I \<le> b) fe_carried fe_tight"
  unfolding fe_carried_def by code_simp

lemma fe_carries_sound: "list_all (limb_op_sound p25519 fe_weights) fe_carries"
  unfolding p25519_def by code_simp

text \<open>Limbs whose intervals lie within the tight bounds, narrowed to 32 bits.\<close>

lemma narrowed_ok:
  fixes h :: "limb list"
  assumes "bounded B (map sint h)" "run_bounds 64 ops B = Some B'" "list_all2 (\<lambda>I b. - b \<le> fst I \<and> snd I \<le> b) B' fe_tight"
    and "list_all (limb_op_sound p25519 fe_weights) ops" "length h = 10"
  shows "fe_ok 1 (map ucast (limb_run ops h))" "field_eq (fe_value (map ucast (limb_run ops h))) (limbs_value True (map sint h))"
proof -
  note run = limb_run_exact [where ?'a = 64, OF assms(1), simplified, OF assms(2)]
  let ?r = "limb_run ops h"
  have bd: "list_all2 (\<lambda>v b. \<bar>v\<bar> \<le> b) (map sint ?r) fe_tight"
    using run assms(3) by (fastforce simp: list_all2_conv_all_nth abs_le_iff)
  have small: "\<bar>sint x\<bar> < 2 ^ 31" if "x \<in> set ?r" for x
  proof -
    from that obtain i where i: "i < length ?r" "?r ! i = x" by (auto simp: in_set_conv_nth)
    then have "\<bar>sint x\<bar> \<le> fe_tight ! i" "i < 10" using bd by (auto simp: list_all2_conv_all_nth fe_tight_def)
    then show ?thesis using fe_tight_nth [of i] by (simp split: if_splits)
  qed
  then have eq: "map sint (map ucast ?r :: fe) = map sint ?r" by (simp add: sint_narrowed)
  show "fe_ok 1 (map ucast ?r)" using bd unfolding fe_ok_def by (simp only: list_all2_map1 flip: eq) simp
  have "weighted fe_weights (int_run ops (map sint h)) mod p25519 = weighted fe_weights (map sint h) mod p25519"
    "length (int_run ops (map sint h)) = 10"
    using limb_ops_sound_run [OF assms(4), of "map sint h"] assms(5) by (simp_all add: fe_weights_def)
  then show "field_eq (fe_value (map ucast ?r)) (limbs_value True (map sint h))"
    unfolding eq using run assms(5) by (simp add: weighted_fe)
qed

lemma fe_reduce_ok:
  fixes h :: "limb list"
  assumes h: "map sint h = vs" and vs: "list_all2 (\<lambda>v b. \<bar>v\<bar> \<le> b) vs fe_sums_max"
  shows "fe_ok 1 (map ucast (limb_run fe_carries h))" "field_eq (fe_value (map ucast (limb_run fe_carries h))) (limbs_value True vs)"
proof -
  have "bounded (symmetric fe_sums_max) (map sint h)" using vs h by (simp add: bounded_symmetric)
  moreover have "length h = 10" using vs h by (auto simp: fe_sums_max_def dest: list_all2_lengthD)
  ultimately show "fe_ok 1 (map ucast (limb_run fe_carries h))" "field_eq (fe_value (map ucast (limb_run fe_carries h))) (limbs_value True vs)"
    using narrowed_ok [OF _ fe_carried_some fe_carried_tight fe_carries_sound] h by simp_all
qed

lemma fe_sums_max_ok:
  "list_all2 (\<le>) (fe_mul_limbs (map (\<lambda>b. 3 * b) fe_tight) (map (\<lambda>b. 6 * b) fe_tight) (map (\<lambda>b. 3 * b) fe_tight) (map (\<lambda>b. 57 * b) fe_tight)) (map (\<lambda>b. b div 2) fe_sums_max)"
  by code_simp

lemma fe_mul_sums:
  assumes "fe_ok 3 f" "fe_ok 3 g"
  defines "F \<equiv> map sint f" and "G \<equiv> map sint g"
  shows "list_all2 (\<lambda>v b. \<bar>v\<bar> \<le> b) (fe_mul_limbs F (map (\<lambda>v. 2 * v) F) G (map (\<lambda>v. 19 * v) G)) (map (\<lambda>b. b div 2) fe_sums_max)"
proof -
  have c: "list_all2 (\<lambda>v b. \<bar>v\<bar> \<le> b) (map (\<lambda>v. c * v) (map sint h)) (map (\<lambda>b. 3 * c * b) fe_tight)" if "fe_ok 3 h" "0 \<le> c" for h c
    unfolding list_all2_map1 list_all2_map2 using that(1) [unfolded fe_ok_def]
    by (rule list_all2_mono) (use that(2) in \<open>simp add: abs_mult mult_left_mono mult.assoc mult.left_commute [of _ c]\<close>)
  have F: "list_all2 (\<lambda>v b. \<bar>v\<bar> \<le> b) F (map (\<lambda>b. 3 * b) fe_tight)" "list_all2 (\<lambda>v b. \<bar>v\<bar> \<le> b) (map (\<lambda>v. 2 * v) F) (map (\<lambda>b. 6 * b) fe_tight)"
    using c [OF assms(1), of 1] c [OF assms(1), of 2] by (simp_all add: F_def comp_def)
  have G: "list_all2 (\<lambda>v b. \<bar>v\<bar> \<le> b) G (map (\<lambda>b. 3 * b) fe_tight)" "list_all2 (\<lambda>v b. \<bar>v\<bar> \<le> b) (map (\<lambda>v. 19 * v) G) (map (\<lambda>b. 57 * b) fe_tight)"
    using c [OF assms(2), of 1] c [OF assms(2), of 19] by (simp_all add: G_def comp_def)
  have "length fe_tight = 10" by (simp add: fe_tight_def)
  then have "list_all2 (\<lambda>v b. \<bar>v\<bar> \<le> b) (fe_mul_limbs F (map (\<lambda>v. 2 * v) F) G (map (\<lambda>v. 19 * v) G))
      (fe_mul_limbs (map (\<lambda>b. 3 * b) fe_tight) (map (\<lambda>b. 6 * b) fe_tight) (map (\<lambda>b. 3 * b) fe_tight) (map (\<lambda>b. 57 * b) fe_tight))"
    by (intro fe_mul_limbs_mono F G) simp_all
  from list_all2_trans [OF _ this fe_sums_max_ok] show ?thesis by (meson order_trans)
qed

lemma fe_mul_ok:
  assumes "fe_ok 3 f" "fe_ok 3 g"
  shows "fe_ok 1 (fe_mul f g)" "field_eq (fe_value (fe_mul f g)) (fe_value f * fe_value g)"
proof -
  let ?F = "map sint f" and ?G = "map sint g"
  let ?s = "fe_mul_limbs ?F (map (\<lambda>v. 2 * v) ?F) ?G (map (\<lambda>v. 19 * v) ?G)"
  let ?h = "fe_mul_limbs (wide_limbs 1 f) (wide_limbs 2 f) (wide_limbs 1 g) (wide_limbs 19 g)"
  have len: "length ?F = 10" "length ?G = 10" using fe_ok_length assms by auto
  have "?h = map of_int ?s"
    using wide_limbs_exact [OF assms(1), of 1] wide_limbs_exact [OF assms(1), of 2] wide_limbs_exact [OF assms(2), of 1]
      wide_limbs_exact [OF assms(2), of 19] fe_mul_limbs_of_int [of ?F "map (\<lambda>v. 2 * v) ?F" ?G "map (\<lambda>v. 19 * v) ?G"] len by simp
  moreover have sums: "list_all2 (\<lambda>v b. \<bar>v\<bar> \<le> b) ?s (map (\<lambda>b. b div 2) fe_sums_max)" by (rule fe_mul_sums [OF assms])
  then have "within (2 ^ (64 - 1)) ?s"
    by (auto simp: list_all_length list_all2_conv_all_nth fe_sums_max_def intro: le_less_trans)
  ultimately have h: "map sint ?h = ?s" using map_sint_of_int [where ?'a = 64, of ?s] by simp
  have "list_all2 (\<lambda>v b. \<bar>v\<bar> \<le> b) ?s fe_sums_max"
    using sums by (auto simp: list_all2_conv_all_nth fe_sums_max_def intro: order_trans)
  note red = fe_reduce_ok [OF h this]
  show "fe_ok 1 (fe_mul f g)" using red(1) by (simp add: fe_mul_def)
  show "field_eq (fe_value (fe_mul f g)) (fe_value f * fe_value g)"
    using red(2) fe_mul_limbs_value [OF len] by (simp add: fe_mul_def)
qed

text \<open>Squares are products; \<^verbatim>\<open>fe_sq2\<close> doubles the sums before the carries.\<close>

lemma fe_sq_limbs_eq:
  assumes "fe_ok 3 f"
  defines "F \<equiv> map sint f"
  shows "fe_sq_limbs (wide_limbs 1 f) (wide_limbs 2 f) (wide_limbs 19 f) (wide_limbs 38 f)
    = map of_int (fe_mul_limbs F (map (\<lambda>v. 2 * v) F) F (map (\<lambda>v. 19 * v) F))"
proof -
  have len: "length f = 10" by (rule fe_ok_length [OF assms(1)])
  have w: "wide_limbs 1 f = map of_int F" "wide_limbs 2 f = map of_int (map (\<lambda>v. 2 * v) F)" "wide_limbs 19 f = map of_int (map (\<lambda>v. 19 * v) F)"
    using wide_limbs_exact [OF assms(1), of 1] wide_limbs_exact [OF assms(1), of 2] wide_limbs_exact [OF assms(1), of 19]
    by (simp_all add: F_def comp_def)
  have "wide_limbs 38 f ! i = of_int (38 * F ! i)" if "i \<in> {5, 7, 9}" for i
  proof -
    have "i < 10" "odd i" using that by auto
    then have "\<bar>38 * sint (f ! i)\<bar> < 2 ^ 31" using fe_ok_nth [OF assms(1), of i] fe_tight_nth [of i] by simp
    then show ?thesis using wide_limb_exact [of 38 "f ! i"] len \<open>i < 10\<close> by (simp add: wide_limbs_def F_def)
  qed
  then have x: "wide_limbs 38 f ! 5 = of_int (38 * F ! 5)" "wide_limbs 38 f ! 7 = of_int (38 * F ! 7)" "wide_limbs 38 f ! 9 = of_int (38 * F ! 9)"
    by blast+
  have "length F = 10" by (simp add: F_def len)
  then show ?thesis unfolding fe_sq_limbs_def w x by (simp add: fe_mul_limbs_def algebra_simps)
qed

lemma fe_sq_ok:
  assumes "fe_ok 3 f"
  shows "fe_ok 1 (fe_sq f)" "field_eq (fe_value (fe_sq f)) (fe_value f ^ 2)"
    "fe_ok 1 (fe_sq2 f)" "field_eq (fe_value (fe_sq2 f)) (2 * fe_value f ^ 2)"
proof -
  let ?F = "map sint f"
  let ?s = "fe_mul_limbs ?F (map (\<lambda>v. 2 * v) ?F) ?F (map (\<lambda>v. 19 * v) ?F)"
  let ?h = "fe_sq_limbs (wide_limbs 1 f) (wide_limbs 2 f) (wide_limbs 19 f) (wide_limbs 38 f)"
  have len: "length ?F = 10" using fe_ok_length assms by auto
  note hs = fe_sq_limbs_eq [OF assms]
  have sums: "list_all2 (\<lambda>v b. \<bar>v\<bar> \<le> b) ?s (map (\<lambda>b. b div 2) fe_sums_max)" by (rule fe_mul_sums [OF assms assms])
  have "within (2 ^ (64 - 1)) ?s" "within (2 ^ (64 - 1)) (map (\<lambda>v. 2 * v) ?s)"
    using sums by (auto simp: list_all_length list_all2_conv_all_nth fe_sums_max_def intro: le_less_trans)
  then have h: "map sint ?h = ?s" "map sint (map (\<lambda>h. h + h) ?h) = map (\<lambda>v. 2 * v) ?s"
    unfolding hs using map_sint_of_int [where ?'a = 64, of ?s] map_sint_of_int [where ?'a = 64, of "map (\<lambda>v. 2 * v) ?s"]
    by (simp_all add: comp_def flip: mult_2)
  have b: "list_all2 (\<lambda>v b. \<bar>v\<bar> \<le> b) ?s fe_sums_max" "list_all2 (\<lambda>v b. \<bar>v\<bar> \<le> b) (map (\<lambda>v. 2 * v) ?s) fe_sums_max"
    using sums by (auto simp: list_all2_conv_all_nth fe_sums_max_def intro: order_trans)
  note red = fe_reduce_ok [OF h(1) b(1)] fe_reduce_ok [OF h(2) b(2)]
  show "fe_ok 1 (fe_sq f)" "fe_ok 1 (fe_sq2 f)" using red(1,3) by (simp_all add: fe_sq_def fe_sq2_def)
  have v: "field_eq (limbs_value True ?s) (fe_value f ^ 2)" using fe_mul_limbs_value [OF len len] by (simp add: power2_eq_square)
  show "field_eq (fe_value (fe_sq f)) (fe_value f ^ 2)" using red(2) v by (simp add: fe_sq_def)
  have "limbs_value e (map (\<lambda>v. 2 * v) vs) = 2 * limbs_value e vs" for e vs
    by (induction vs arbitrary: e) simp_all
  then show "field_eq (fe_value (fe_sq2 f)) (2 * fe_value f ^ 2)"
    using red(4) mod_mult_cong [OF refl v, of 2] by (simp add: fe_sq2_def)
qed

section \<open>Powers\<close>

text \<open>The addition chains of \<^verbatim>\<open>pow225521.h\<close> and \<^verbatim>\<open>pow22523.h\<close>, with their temporaries.\<close>

definition fe_sq_times :: "nat \<Rightarrow> fe \<Rightarrow> fe" where
  "fe_sq_times n x = (fe_sq ^^ n) x"

definition fe_invert :: "fe \<Rightarrow> fe" where
  "fe_invert z =
     (let t0 = fe_sq_times 1 z;
          t1 = fe_sq_times 2 t0;
          t1 = fe_mul z t1;
          t0 = fe_mul t0 t1;
          t2 = fe_sq_times 1 t0;
          t1 = fe_mul t1 t2;
          t2 = fe_sq_times 5 t1;
          t1 = fe_mul t2 t1;
          t2 = fe_sq_times 10 t1;
          t2 = fe_mul t2 t1;
          t3 = fe_sq_times 20 t2;
          t2 = fe_mul t3 t2;
          t2 = fe_sq_times 10 t2;
          t1 = fe_mul t2 t1;
          t2 = fe_sq_times 50 t1;
          t2 = fe_mul t2 t1;
          t3 = fe_sq_times 100 t2;
          t2 = fe_mul t3 t2;
          t2 = fe_sq_times 50 t2;
          t1 = fe_mul t2 t1;
          t1 = fe_sq_times 5 t1
      in fe_mul t1 t0)"

definition fe_pow22523 :: "fe \<Rightarrow> fe" where
  "fe_pow22523 z =
     (let t0 = fe_sq_times 1 z;
          t1 = fe_sq_times 2 t0;
          t1 = fe_mul z t1;
          t0 = fe_mul t0 t1;
          t0 = fe_sq_times 1 t0;
          t0 = fe_mul t1 t0;
          t1 = fe_sq_times 5 t0;
          t0 = fe_mul t1 t0;
          t1 = fe_sq_times 10 t0;
          t1 = fe_mul t1 t0;
          t2 = fe_sq_times 20 t1;
          t1 = fe_mul t2 t1;
          t1 = fe_sq_times 10 t1;
          t0 = fe_mul t1 t0;
          t1 = fe_sq_times 50 t0;
          t1 = fe_mul t1 t0;
          t2 = fe_sq_times 100 t1;
          t1 = fe_mul t2 t1;
          t1 = fe_sq_times 50 t1;
          t0 = fe_mul t1 t0;
          t0 = fe_sq_times 2 t0
      in fe_mul t0 z)"

text \<open>\<open>fe_is k x v\<close>: the element has level \<open>k\<close> and stands for \<open>v\<close>.\<close>

definition fe_is :: "int \<Rightarrow> fe \<Rightarrow> int \<Rightarrow> bool" where
  "fe_is k x v \<longleftrightarrow> fe_ok k x \<and> field_eq (fe_value x) v"

lemma fe_is_mono: "fe_is k x v \<Longrightarrow> k \<le> l \<Longrightarrow> fe_is l x v"
  by (auto simp: fe_is_def intro: fe_ok_mono)

lemma fe_is_mul: "fe_is 3 x u \<Longrightarrow> fe_is 3 y v \<Longrightarrow> fe_is 1 (fe_mul x y) (u * v)"
  using fe_mul_ok [of x y] by (auto simp: fe_is_def intro: mod_mult_cong)

lemma fe_is_sq: "fe_is 3 x u \<Longrightarrow> fe_is 1 (fe_sq x) (u ^ 2)"
  using fe_sq_ok(1,2) [of x] by (auto simp: fe_is_def power2_eq_square intro: mod_mult_cong)

lemma fe_is_sq2: "fe_is 3 x u \<Longrightarrow> fe_is 1 (fe_sq2 x) (2 * u ^ 2)"
  using fe_sq_ok(3,4) [of x] by (auto simp: fe_is_def power2_eq_square intro: mod_mult_cong)

lemma fe_is_add: "fe_is k x u \<Longrightarrow> fe_is l y v \<Longrightarrow> k + l \<le> 63 \<Longrightarrow> fe_is (k + l) (fe_add x y) (u + v)"
  using fe_add_ok(1,2) [of k x l y] by (auto simp: fe_is_def intro: mod_add_cong)

lemma fe_is_sub: "fe_is k x u \<Longrightarrow> fe_is l y v \<Longrightarrow> k + l \<le> 63 \<Longrightarrow> fe_is (k + l) (fe_sub x y) (u - v)"
  using fe_add_ok(3,4) [of k x l y] by (auto simp: fe_is_def intro: mod_diff_cong)

lemma fe_is_neg: "fe_is k x u \<Longrightarrow> 0 \<le> k \<Longrightarrow> k \<le> 63 \<Longrightarrow> fe_is k (fe_neg x) (- u)"
  using fe_neg_ok [of k x] mod_mult_cong [OF refl, of "fe_value x" p25519 u "- 1"] by (simp add: fe_is_def)

lemma fe_is_const: "fe_is 1 fe_0 0" "fe_is 1 fe_1 1"
  using fe_const_ok by (simp_all add: fe_is_def)

lemma fe_is_eq: "fe_is k x u \<Longrightarrow> field_eq u v \<Longrightarrow> fe_is k x v"
  by (simp add: fe_is_def)

lemma pow_mul: "\<lbrakk>fe_is 3 x (z ^ a); fe_is 3 y (z ^ b); c = a + b\<rbrakk> \<Longrightarrow> fe_is 3 (fe_mul x y) (z ^ c)"
  using fe_is_mono [OF fe_is_mul, of x "z ^ a" y "z ^ b" 3] by (simp add: power_add)

lemma pow_sq_times: "\<lbrakk>fe_is 3 x (z ^ a); c = a * 2 ^ n\<rbrakk> \<Longrightarrow> fe_is 3 (fe_sq_times n x) (z ^ c)"
  unfolding fe_sq_times_def
proof (induction n arbitrary: c)
  case (Suc n)
  have "fe_is 3 (fe_sq ((fe_sq ^^ n) x)) ((z ^ (a * 2 ^ n)) ^ 2)" by (rule fe_is_mono [OF fe_is_sq [OF Suc.IH [OF Suc.prems(1) refl]]]) simp
  then show ?case by (simp add: Suc.prems(2) mult_ac flip: power_mult)
qed simp

text \<open>The common part of the two chains: the powers \<open>2 ^ 50 - 1\<close> and \<open>2 ^ 250 - 1\<close>.\<close>

definition pow_2_250 :: "fe \<Rightarrow> fe" where
  "pow_2_250 z5 =
     (let z10 = fe_mul (fe_sq_times 5 z5) z5;
          z20 = fe_mul (fe_sq_times 10 z10) z10;
          z50 = fe_mul (fe_sq_times 10 (fe_mul (fe_sq_times 20 z20) z20)) z10;
          z100 = fe_mul (fe_sq_times 50 z50) z50
      in fe_mul (fe_sq_times 50 (fe_mul (fe_sq_times 100 z100) z100)) z50)"

lemma pow_2_250_ok:
  assumes z5: "fe_is 3 z5 (v ^ (2 ^ 5 - 1))"
  shows "fe_is 3 (pow_2_250 z5) (v ^ (2 ^ 250 - 1))"
proof -
  define z10 z20 where "z10 = fe_mul (fe_sq_times 5 z5) z5" and "z20 = fe_mul (fe_sq_times 10 z10) z10"
  define z50 z100 where "z50 = fe_mul (fe_sq_times 10 (fe_mul (fe_sq_times 20 z20) z20)) z10" and "z100 = fe_mul (fe_sq_times 50 z50) z50"
  have z10: "fe_is 3 z10 (v ^ (2 ^ 10 - 1))" unfolding z10_def by (rule pow_mul [OF pow_sq_times [OF z5 refl] z5]) simp
  have z20: "fe_is 3 z20 (v ^ (2 ^ 20 - 1))" unfolding z20_def by (rule pow_mul [OF pow_sq_times [OF z10 refl] z10]) simp
  have z50: "fe_is 3 z50 (v ^ (2 ^ 50 - 1))" unfolding z50_def
    by (rule pow_mul [OF pow_sq_times [OF pow_mul [OF pow_sq_times [OF z20 refl] z20 refl] refl] z10]) simp
  have z100: "fe_is 3 z100 (v ^ (2 ^ 100 - 1))" unfolding z100_def by (rule pow_mul [OF pow_sq_times [OF z50 refl] z50]) simp
  have "fe_is 3 (fe_mul (fe_sq_times 50 (fe_mul (fe_sq_times 100 z100) z100)) z50) (v ^ (2 ^ 250 - 1))"
    by (rule pow_mul [OF pow_sq_times [OF pow_mul [OF pow_sq_times [OF z100 refl] z100 refl] refl] z50]) simp
  then show ?thesis by (simp only: pow_2_250_def Let_def z10_def z20_def z50_def z100_def)
qed

lemma pow_start_ok:
  assumes "fe_is 3 z v"
  defines "z9 \<equiv> fe_mul z (fe_sq_times 2 (fe_sq_times 1 z))"
  defines "z11 \<equiv> fe_mul (fe_sq_times 1 z) z9"
  shows "fe_is 3 z9 (v ^ 9)" "fe_is 3 z11 (v ^ 11)" "fe_is 3 (fe_mul z9 (fe_sq_times 1 z11)) (v ^ (2 ^ 5 - 1))"
proof -
  have z: "fe_is 3 z (v ^ 1)" using assms(1) by simp
  have z2: "fe_is 3 (fe_sq_times 1 z) (v ^ 2)" by (rule pow_sq_times [OF z]) simp
  show z9: "fe_is 3 z9 (v ^ 9)" unfolding z9_def by (rule pow_mul [OF z pow_sq_times [OF z2 refl]]) simp
  show z11: "fe_is 3 z11 (v ^ 11)" unfolding z11_def by (rule pow_mul [OF z2 z9]) simp
  show "fe_is 3 (fe_mul z9 (fe_sq_times 1 z11)) (v ^ (2 ^ 5 - 1))" by (rule pow_mul [OF z9 pow_sq_times [OF z11 refl]]) simp
qed

lemma fe_is_invert:
  assumes "fe_is 3 z v"
  shows "fe_is 1 (fe_invert z) (v ^ nat (p25519 - 2))"
proof -
  define z9 z11 where "z9 = fe_mul z (fe_sq_times 2 (fe_sq_times 1 z))" and "z11 = fe_mul (fe_sq_times 1 z) z9"
  note st = pow_start_ok [OF assms, folded z9_def, folded z11_def]
  have eq: "fe_invert z = fe_mul (fe_sq_times 5 (pow_2_250 (fe_mul z9 (fe_sq_times 1 z11)))) z11"
    by (simp only: fe_invert_def pow_2_250_def Let_def z9_def z11_def)
  have "fe_is 1 (fe_invert z) (v ^ ((2 ^ 250 - 1) * 2 ^ 5) * v ^ 11)"
    unfolding eq by (rule fe_is_mul [OF pow_sq_times [OF pow_2_250_ok [OF st(3)] refl] st(2)])
  moreover have "(2 ^ 250 - 1) * 2 ^ 5 + 11 = nat (p25519 - 2)" by (simp add: p25519_def)
  ultimately show ?thesis by (simp only: flip: power_add)
qed

lemma fe_is_pow22523:
  assumes "fe_is 3 z v"
  shows "fe_is 1 (fe_pow22523 z) (v ^ nat ((p25519 - 5) div 8))"
proof -
  define z9 z11 where "z9 = fe_mul z (fe_sq_times 2 (fe_sq_times 1 z))" and "z11 = fe_mul (fe_sq_times 1 z) z9"
  note st = pow_start_ok [OF assms, folded z9_def, folded z11_def]
  have eq: "fe_pow22523 z = fe_mul (fe_sq_times 2 (pow_2_250 (fe_mul z9 (fe_sq_times 1 z11)))) z"
    by (simp only: fe_pow22523_def pow_2_250_def Let_def z9_def z11_def)
  have "fe_is 1 (fe_pow22523 z) (v ^ ((2 ^ 250 - 1) * 2 ^ 2) * v ^ 1)"
    unfolding eq power_one_right by (rule fe_is_mul [OF pow_sq_times [OF pow_2_250_ok [OF st(3)] refl] assms])
  moreover have "(2 ^ 250 - 1) * 2 ^ 2 + 1 = nat ((p25519 - 5) div 8)" by (simp add: p25519_def)
  ultimately show ?thesis by (simp only: flip: power_add)
qed

end
