(* ===== verification/Limb_Bytes.thy ===== *)
theory Limb_Bytes
  imports Curve25519_Donna Limb_Programs
begin

text \<open>
  Limbs and bytes of the Ed25519 sources: the loads of three and four bytes, and a number as
  the list of its bits, which is how the packing of limbs into bytes is checked.
\<close>

section \<open>Loads\<close>

definition load_3 :: "bytes \<Rightarrow> u64" where
  "load_3 inp = ucast (inp ! 0) OR push_bit 8 (ucast (inp ! 1)) OR push_bit 16 (ucast (inp ! 2))"

definition load_4 :: "bytes \<Rightarrow> u64" where
  "load_4 inp = ucast (inp ! 0) OR push_bit 8 (ucast (inp ! 1)) OR push_bit 16 (ucast (inp ! 2)) OR push_bit 24 (ucast (inp ! 3))"

section \<open>Bits\<close>

definition bits :: "nat \<Rightarrow> 'a :: semiring_bits \<Rightarrow> bool list" where
  "bits n x = map (bit x) [0..<n]"

abbreviation bits_value :: "bool list \<Rightarrow> int" where
  "bits_value \<equiv> horner_sum of_bool 2"

lemma bits_value_append: "bits_value (xs @ ys) = bits_value xs + 2 ^ length xs * bits_value ys"
  by (simp add: horner_sum_append)

lemma bits_value_bits: "bits_value (bits n x) = take_bit n x"
  unfolding bits_def by (rule horner_sum_bit_eq_take_bit)

lemma length_bits [simp]: "length (bits n x) = n"
  by (simp add: bits_def)

text \<open>A number given by limbs of the widths \<open>ws\<close>.\<close>

fun mixed_value :: "nat list \<Rightarrow> int list \<Rightarrow> int" where
  "mixed_value (w # ws) (v # vs) = v + 2 ^ w * mixed_value ws vs"
| "mixed_value _ _ = 0"

definition mixed_bits :: "nat list \<Rightarrow> int list \<Rightarrow> bool list" where
  "mixed_bits ws vs = concat (map2 bits ws vs)"

lemma mixed_bits_value:
  "list_all2 (\<lambda>w v. 0 \<le> v \<and> v < 2 ^ w) ws vs \<Longrightarrow> bits_value (mixed_bits ws vs) = mixed_value ws vs"
proof (induction ws vs rule: list_all2_induct)
  case (Cons w ws v vs)
  have "take_bit w v = v" using Cons.hyps(1) by (simp add: take_bit_eq_mod)
  then show ?case using Cons.IH by (simp add: mixed_bits_def bits_value_append bits_value_bits)
qed (simp add: mixed_bits_def)

lemma uint_take_8: "take_bit 8 (uint (b :: u8)) = uint b"
  using uint_lt2p [of b] by (simp add: take_bit_eq_mod)

lemma le_value_bits: "le_value bs = bits_value (concat (map (\<lambda>b. bits 8 (uint b)) bs))"
  by (induction bs) (simp_all add: bits_value_append bits_value_bits uint_take_8)

lemma high_bits:
  fixes x :: "'a :: len word"
  assumes "0 \<le> sint x" "sint x < 2 ^ w" "w \<le> k"
  shows "\<not> bit x k"
proof
  assume b: "bit x k"
  then have k: "k < LENGTH('a)" by (rule bit_imp_le_length)
  have "take_bit w (sint x) = sint x" using assms(1,2) by (simp add: take_bit_eq_mod)
  then have "\<not> bit (sint x) k" using assms(3) by (metis bit_take_bit_iff not_less)
  then show False using b k by (simp add: bit_sint_iff min_def)
qed

text \<open>The positions of a limb, spelled out.\<close>

lemma positions:
  "[0..<8] = [0, 1, 2, 3, 4, 5, 6, 7]"
  "[0..<21] = [0, 1, 2, 3, 4, 5, 6, 7, 8, 9, 10, 11, 12, 13, 14, 15, 16, 17, 18, 19, 20]"
  "[0..<25] = [0, 1, 2, 3, 4, 5, 6, 7, 8, 9, 10, 11, 12, 13, 14, 15, 16, 17, 18, 19, 20, 21, 22, 23, 24]"
  "[0..<26] = [0, 1, 2, 3, 4, 5, 6, 7, 8, 9, 10, 11, 12, 13, 14, 15, 16, 17, 18, 19, 20, 21, 22, 23, 24, 25]"
  by code_simp+

lemma bit_times_2: "bit (x * 2 :: 'a :: len word) k \<longleftrightarrow> 0 < k \<and> k < LENGTH('a) \<and> bit x (k - 1)"
  using bit_push_bit_iff [of 1 x k] by (auto simp: push_bit_eq_mult)

text \<open>The loads, exactly.\<close>

lemma load_exact:
  "3 \<le> length s \<Longrightarrow> sint (load_3 s) = le_value (take 3 s)"
  "4 \<le> length s \<Longrightarrow> sint (load_4 s) = le_value (take 4 s)"
proof -
  have three: "load_3 s = of_int (le_value (take 3 s))" if "3 \<le> length s"
  proof -
    have t: "take 3 s = [s ! 0, s ! 1, s ! 2]" using that by (intro nth_equalityI) (auto simp: less_Suc_eq numeral_eq_Suc)
    have "load_3 s = load_4 [s ! 0, s ! 1, s ! 2, 0]" by (simp add: load_3_def load_4_def)
    also have "\<dots> = of_int (le_value [s ! 0, s ! 1, s ! 2, 0])" by (simp only: load_4_def nth_Cons_0 nth_Cons_numeral four_bytes) (simp add: load_4_def four_bytes)
    finally show ?thesis by (simp add: t)
  qed
  have four: "load_4 s = of_int (le_value (take 4 s))" if "4 \<le> length s"
  proof -
    have t: "take 4 s = [s ! 0, s ! 1, s ! 2, s ! 3]" using that by (intro nth_equalityI) (auto simp: less_Suc_eq numeral_eq_Suc)
    show ?thesis by (simp only: t load_4_def four_bytes)
  qed
  have small: "sint (of_int (le_value (take n s)) :: u64) = le_value (take n s)" if "n \<le> 4" for n
  proof -
    have "le_value (take n s) < 256 ^ length (take n s)" by (rule le_value_bounds)
    also have "\<dots> \<le> 256 ^ 4" using that by (intro power_increasing) auto
    finally show ?thesis using sint_of_int_exact [of "le_value (take n s)", where ?'a = 64] le_value_bounds(1) [of "take n s"] by simp
  qed
  show "3 \<le> length s \<Longrightarrow> sint (load_3 s) = le_value (take 3 s)" using three small [of 3] by simp
  show "4 \<le> length s \<Longrightarrow> sint (load_4 s) = le_value (take 4 s)" using four small [of 4] by simp
qed

lemma le_value_split: "n \<le> length s \<Longrightarrow> le_value s = le_value (take n s) + 256 ^ n * le_value (drop n s)"
  unfolding le_value_take le_value_drop using mult_div_mod_eq [of "256 ^ n" "le_value s"] by simp

lemma load_range:
  "3 \<le> length s \<Longrightarrow> 0 \<le> sint (load_3 s) \<and> sint (load_3 s) < 2 ^ 24"
  "4 \<le> length s \<Longrightarrow> 0 \<le> sint (load_4 s) \<and> sint (load_4 s) < 2 ^ 32"
  using load_exact [of s] le_value_bounds [of "take 3 s"] le_value_bounds [of "take 4 s"] by simp_all

text \<open>A limb of 21 bits cut out of a number.\<close>

lemma sint_drop_bit: "0 \<le> sint x \<Longrightarrow> sint (drop_bit k x) = sint x div 2 ^ k" for x :: u64
proof -
  assume x: "0 \<le> sint x"
  then have "\<not> bit x 63" using bit_last_iff [of x] by simp
  then have "drop_bit k x = signed_drop_bit k x"
    by (intro bit_word_eqI) (auto simp: bit_simps bit_signed_drop_bit_iff dest: bit_imp_le_length)
  then show ?thesis by (simp add: sint_signed_drop_bit)
qed

lemma sint_mask_21: "0 \<le> sint x \<Longrightarrow> sint (2097151 AND x) = sint x mod 2 ^ 21" for x :: u64
proof -
  have "(2097151 :: u64) = mask 21" by code_simp
  then have "2097151 AND x = take_bit 21 (of_int (sint x) :: u64)" by (simp add: take_bit_eq_mask and.commute)
  also have "\<dots> = of_int (sint x mod 2 ^ 21)" by (simp only: take_bit_of_int) (simp only: take_bit_eq_mod)
  finally show ?thesis using sint_of_int_exact [of "sint x mod 2 ^ 21", where ?'a = 64] by simp
qed

lemma window: "k + 21 \<le> w \<Longrightarrow> v mod 2 ^ w div 2 ^ k mod 2 ^ 21 = v div 2 ^ k mod (2 ^ 21 :: int)"
proof -
  assume "k + 21 \<le> w"
  then have "take_bit 21 (drop_bit k (take_bit w v)) = take_bit 21 (drop_bit k v)"
    by (intro bit_eqI) (auto simp: bit_simps)
  then show ?thesis by (simp add: take_bit_eq_mod drop_bit_eq_div)
qed

lemma limb_21:
  "n + 3 \<le> length s \<Longrightarrow> k \<le> 3 \<Longrightarrow> sint (2097151 AND drop_bit k (load_3 (drop n s))) = le_value s div 2 ^ (8 * n + k) mod 2 ^ 21"
  "n + 4 \<le> length s \<Longrightarrow> k \<le> 11 \<Longrightarrow> sint (2097151 AND drop_bit k (load_4 (drop n s))) = le_value s div 2 ^ (8 * n + k) mod 2 ^ 21"
proof -
  have div: "le_value s div 256 ^ n div 2 ^ k = le_value s div 2 ^ (8 * n + k)"
    by (simp add: power_add power_mult zdiv_zmult2_eq)
  show "sint (2097151 AND drop_bit k (load_3 (drop n s))) = le_value s div 2 ^ (8 * n + k) mod 2 ^ 21" if a: "n + 3 \<le> length s" "k \<le> 3"
  proof -
    have l: "3 \<le> length (drop n s)" using a by simp
    have "0 \<le> sint (drop_bit k (load_3 (drop n s)))" using load_range(1) [OF l] by (simp add: sint_drop_bit pos_imp_zdiv_nonneg_iff)
    then show ?thesis
      using load_range(1) [OF l] load_exact(1) [OF l] window [of k 24 "le_value s div 256 ^ n"] a(2)
      by (simp add: sint_mask_21 sint_drop_bit le_value_take le_value_drop div)
  qed
  show "sint (2097151 AND drop_bit k (load_4 (drop n s))) = le_value s div 2 ^ (8 * n + k) mod 2 ^ 21" if a: "n + 4 \<le> length s" "k \<le> 11"
  proof -
    have l: "4 \<le> length (drop n s)" using a by simp
    have "0 \<le> sint (drop_bit k (load_4 (drop n s)))" using load_range(2) [OF l] by (simp add: sint_drop_bit pos_imp_zdiv_nonneg_iff)
    then show ?thesis
      using load_range(2) [OF l] load_exact(2) [OF l] window [of k 32 "le_value s div 256 ^ n"] a(2)
      by (simp add: sint_mask_21 sint_drop_bit le_value_take le_value_drop div)
  qed
qed

end
