(* ===== verification/Ed25519_Bytes.thy ===== *)
theory Ed25519_Bytes
  imports Ed25519_Field Limb_Bytes
begin

text \<open>
  Field elements and bytes: \<^verbatim>\<open>fe_frombytes.c\<close>, \<^verbatim>\<open>fe_tobytes.c\<close>, \<^verbatim>\<open>fe_isnegative.c\<close>, \<^verbatim>\<open>fe_isnonzero.c\<close> and
  \<^verbatim>\<open>compare.c\<close>.
\<close>

section \<open>The functions\<close>

definition fe_load :: "bytes \<Rightarrow> limb list" where
  "fe_load s =
     [load_4 s, push_bit 6 (load_3 (drop 4 s)), push_bit 5 (load_3 (drop 7 s)), push_bit 3 (load_3 (drop 10 s)),
      push_bit 2 (load_3 (drop 13 s)), load_4 (drop 16 s), push_bit 7 (load_3 (drop 20 s)), push_bit 5 (load_3 (drop 23 s)),
      push_bit 4 (load_3 (drop 26 s)), push_bit 2 (load_3 (drop 29 s) AND 8388607)]"

definition fe_frombytes :: "bytes \<Rightarrow> fe" where
  "fe_frombytes s = map ucast (limb_run (map fe_carry [9, 1, 3, 5, 7, 0, 2, 4, 6, 8]) (fe_load s))"

text \<open>The estimate \<^verbatim>\<open>q\<close> of the quotient by the prime.\<close>

definition tobytes_q :: "fe \<Rightarrow> 32 word" where
  "tobytes_q h =
     (let q = signed_drop_bit 25 (19 * h ! 9 + push_bit 24 1);
          q = signed_drop_bit 26 (h ! 0 + q);
          q = signed_drop_bit 25 (h ! 1 + q);
          q = signed_drop_bit 26 (h ! 2 + q);
          q = signed_drop_bit 25 (h ! 3 + q);
          q = signed_drop_bit 26 (h ! 4 + q);
          q = signed_drop_bit 25 (h ! 5 + q);
          q = signed_drop_bit 26 (h ! 6 + q);
          q = signed_drop_bit 25 (h ! 7 + q);
          q = signed_drop_bit 26 (h ! 8 + q);
          q = signed_drop_bit 25 (h ! 9 + q)
      in q)"

definition tobytes_carries :: "limb_op list" where
  "tobytes_carries =
     [Carry 26 0 0 1 1, Carry 25 0 1 2 1, Carry 26 0 2 3 1, Carry 25 0 3 4 1, Carry 26 0 4 5 1,
      Carry 25 0 5 6 1, Carry 26 0 6 7 1, Carry 25 0 7 8 1, Carry 26 0 8 9 1, Trim 25 9]"

definition fe_pack :: "fe \<Rightarrow> bytes" where
  "fe_pack h =
     (let r = (\<lambda>i n. signed_drop_bit n (h ! i)); l = (\<lambda>i n. push_bit n (h ! i))
      in map ucast
        [r 0 0, r 0 8, r 0 16, r 0 24 OR l 1 2, r 1 6, r 1 14, r 1 22 OR l 2 3, r 2 5, r 2 13, r 2 21 OR l 3 5,
         r 3 3, r 3 11, r 3 19 OR l 4 6, r 4 2, r 4 10, r 4 18, r 5 0, r 5 8, r 5 16, r 5 24 OR l 6 1,
         r 6 7, r 6 15, r 6 23 OR l 7 3, r 7 5, r 7 13, r 7 21 OR l 8 4, r 8 4, r 8 12, r 8 20 OR l 9 6,
         r 9 2, r 9 10, r 9 18])"

definition fe_tobytes :: "fe \<Rightarrow> bytes" where
  "fe_tobytes h =
     (let q = tobytes_q h
      in fe_pack (limb_run tobytes_carries (h[0 := h ! 0 + 19 * q])))"

definition crypto_verify_32 :: "bytes \<Rightarrow> bytes \<Rightarrow> int" where
  "crypto_verify_32 x y =
     (let differentbits = fold (\<lambda>i d. d OR ucast (x ! i XOR y ! i)) [0..<32] (0 :: u32)
      in uint (1 AND drop_bit 8 (differentbits - 1)) - 1)"

definition fe_isnonzero :: "fe \<Rightarrow> int" where
  "fe_isnonzero f = crypto_verify_32 (fe_tobytes f) (replicate 32 0)"

definition fe_isnegative :: "fe \<Rightarrow> u8" where
  "fe_isnegative f = fe_tobytes f ! 0 AND 1"

section \<open>Packing\<close>

lemma fe_pack_value:
  assumes "length h = 10" "is_digits True (map sint h)"
  shows "le_value (fe_pack h) = fe_value h"
proof -
  obtain h0 h1 h2 h3 h4 h5 h6 h7 h8 h9 where h: "h = [h0, h1, h2, h3, h4, h5, h6, h7, h8, h9]"
    using assms(1) unfolding length_10 by blast
  have d: "0 \<le> sint h0" "sint h0 < 2 ^ 26" "0 \<le> sint h1" "sint h1 < 2 ^ 25" "0 \<le> sint h2" "sint h2 < 2 ^ 26" "0 \<le> sint h3"
    "sint h3 < 2 ^ 25" "0 \<le> sint h4" "sint h4 < 2 ^ 26" "0 \<le> sint h5" "sint h5 < 2 ^ 25" "0 \<le> sint h6" "sint h6 < 2 ^ 26"
    "0 \<le> sint h7" "sint h7 < 2 ^ 25" "0 \<le> sint h8" "sint h8 < 2 ^ 26" "0 \<le> sint h9" "sint h9 < 2 ^ 25"
    using assms(2) by (simp_all add: h)
  note hb = high_bits [OF d(1,2)] high_bits [OF d(3,4)] high_bits [OF d(5,6)] high_bits [OF d(7,8)] high_bits [OF d(9,10)]
    high_bits [OF d(11,12)] high_bits [OF d(13,14)] high_bits [OF d(15,16)] high_bits [OF d(17,18)] high_bits [OF d(19,20)]
  let ?ws = "[26, 25, 26, 25, 26, 25, 26, 25, 26, 25]"
  have "concat (map (\<lambda>b. bits 8 (uint b)) (fe_pack h)) = mixed_bits ?ws (map sint h) @ [False]"
    by (simp add: fe_pack_def h Let_def mixed_bits_def bits_def positions bit_simps bit_sint_iff hb bit_times_2)
  then have "le_value (fe_pack h) = bits_value (mixed_bits ?ws (map sint h))"
    by (simp add: le_value_bits bits_value_append)
  also have "\<dots> = mixed_value ?ws (map sint h)" by (rule mixed_bits_value) (use d in \<open>simp add: h\<close>)
  finally show ?thesis by (simp add: h)
qed

section \<open>Canonical bytes\<close>

text \<open>The quotient estimate, exactly: nested floors are one floor.\<close>

lemma nested_floor:
  fixes a b m n :: int
  assumes "0 < m" "0 \<le> n"
  shows "(a + b div m) div n = (b + m * a) div (m * n)"
  using zdiv_zmult2_eq [OF assms(2), of "b + m * a" m] assms(1) by (simp add: add.commute)

lemma floor_quotient:
  fixes V E lead t :: int
  assumes V: "V = 2 ^ 230 * lead + E" and E: "\<bar>E\<bar> \<le> 2 ^ 231" and t: "t = (19 * lead + 2 ^ 24) div 2 ^ 25" and b: "\<bar>V\<bar> \<le> 3 * 2 ^ 255"
  shows "(V + t) div 2 ^ 255 = V div p25519"
proof -
  define Q R where "Q = V div p25519" and "R = V mod p25519"
  have p: "p25519 = 2 ^ 255 - 19" by (simp add: p25519_def)
  have eq: "V = p25519 * Q + R" by (simp add: Q_def R_def)
  have R: "0 \<le> R" "R < p25519" by (simp_all add: R_def p25519_def)
  have eq': "V = 2 ^ 255 * Q - 19 * Q + R" using eq unfolding p by (simp only: left_diff_distrib)
  have Rb: "R < 2 ^ 255 - 19" using R(2) unfolding p .
  have Q: "- 4 \<le> Q" "Q \<le> 4" 
    using eq' [simplified] R(1) Rb [simplified] b [simplified] by linarith+
  have "19 * lead + 2 ^ 24 = 2 ^ 25 * t + (19 * lead + 2 ^ 24) mod 2 ^ 25" unfolding t by simp
  moreover have "0 \<le> (19 * lead + 2 ^ 24) mod 2 ^ 25" "(19 * lead + 2 ^ 24) mod 2 ^ 25 < 2 ^ 25" by simp_all
  ultimately have tt: "2 ^ 25 * t \<le> 19 * lead + 2 ^ 24" "19 * lead + 2 ^ 24 < 2 ^ 25 * t + 2 ^ 25" by linarith+
  have lo: "0 \<le> R + t - 19 * Q" 
    using eq' [simplified] V [simplified] E [simplified] tt [simplified] R(1) Rb [simplified] Q by linarith
  have "R + t - 19 * Q < 57896044618658097711785492504343953926634992332820282019728792003956564819968" 
    using eq' [simplified] V [simplified] E [simplified] tt [simplified] R(1) Rb [simplified] Q by linarith
  then have hi: "R + t - 19 * Q < 2 ^ 255" by simp
  have "V + t = 2 ^ 255 * Q + (R + t - 19 * Q)" using eq' by linarith
  then have "(V + t) div 2 ^ 255 = Q + (R + t - 19 * Q) div 2 ^ 255" by (simp add: div_mult_self2)
  then show ?thesis using lo hi by (simp add: Q_def div_pos_pos_trivial)
qed

lemma q_step:
  fixes x q :: "32 word"
  assumes "\<bar>sint x\<bar> \<le> 2 ^ 28" "\<bar>sint q\<bar> \<le> 2 ^ 28" "b \<in> {25, 26}"
  shows "sint (signed_drop_bit b (x + q)) = (sint x + sint q) div 2 ^ b" "\<bar>sint (signed_drop_bit b (x + q))\<bar> \<le> 2 ^ 4"
proof -
  have s: "\<bar>sint x + sint q\<bar> \<le> 2 ^ 29" using assms(1,2) by simp
  then have "sint (x + q) = sint x + sint q" using sint_exact(1) [of x q] by simp
  then show e: "sint (signed_drop_bit b (x + q)) = (sint x + sint q) div 2 ^ b" by (simp add: sint_signed_drop_bit)
  have "(sint x + sint q) div 2 ^ b \<le> 2 ^ 29 div 2 ^ b" "- (2 ^ 29) div 2 ^ b \<le> (sint x + sint q) div 2 ^ b"
    using s by (auto intro!: zdiv_mono1)
  then show "\<bar>sint (signed_drop_bit b (x + q))\<bar> \<le> 2 ^ 4" unfolding e using assms(3) by auto
qed

definition quotient_is :: "32 word \<Rightarrow> int \<Rightarrow> int \<Rightarrow> bool" where
  "quotient_is q X m \<longleftrightarrow> sint q = X div m \<and> \<bar>sint q\<bar> \<le> 2 ^ 28 \<and> 0 < m"

lemma quotient_step:
  assumes "quotient_is q X m" "\<bar>sint x\<bar> \<le> 2 ^ 28" "b \<in> {25, 26}"
  shows "quotient_is (signed_drop_bit b (x + q)) (X + m * sint x) (m * 2 ^ b)"
proof -
  have q: "sint q = X div m" "\<bar>sint q\<bar> \<le> 2 ^ 28" "0 < m" using assms(1) unfolding quotient_is_def by blast+
  note st = q_step [OF assms(2) q(2) assms(3)]
  have "sint (signed_drop_bit b (x + q)) = (X + m * sint x) div (m * 2 ^ b)"
    unfolding st(1) q(1) using nested_floor [OF q(3), of "2 ^ b" "sint x" X] by simp
  moreover have "\<bar>sint (signed_drop_bit b (x + q))\<bar> \<le> 2 ^ 28" using st(2) by simp
  ultimately show ?thesis using q(3) by (simp add: quotient_is_def)
qed

lemma tobytes_q_exact:
  assumes "fe_ok 3 h"
  shows "sint (tobytes_q h) = (fe_value h + (19 * sint (h ! 9) + 2 ^ 24) div 2 ^ 25) div 2 ^ 255"
proof -
  obtain h0 h1 h2 h3 h4 h5 h6 h7 h8 h9 where h: "h = [h0, h1, h2, h3, h4, h5, h6, h7, h8, h9]"
    using fe_ok_length [OF assms] unfolding length_10 by blast
  have b: "\<bar>sint x\<bar> \<le> 2 ^ 28" if x: "x \<in> set h" for x
  proof -
    obtain i where "i < 10" "x = h ! i" using x fe_ok_length [OF assms] by (metis in_set_conv_nth)
    then show ?thesis using fe_ok_nth [OF assms, of i] fe_tight_nth [of i] by (simp split: if_splits)
  qed
  have bs: "\<bar>sint h0\<bar> \<le> 2 ^ 28" "\<bar>sint h1\<bar> \<le> 2 ^ 28" "\<bar>sint h2\<bar> \<le> 2 ^ 28" "\<bar>sint h3\<bar> \<le> 2 ^ 28" "\<bar>sint h4\<bar> \<le> 2 ^ 28"
    "\<bar>sint h5\<bar> \<le> 2 ^ 28" "\<bar>sint h6\<bar> \<le> 2 ^ 28" "\<bar>sint h7\<bar> \<le> 2 ^ 28" "\<bar>sint h8\<bar> \<le> 2 ^ 28" "\<bar>sint h9\<bar> \<le> 2 ^ 28"
    by (rule b; simp add: h)+
  have 9: "\<bar>sint h9\<bar> \<le> 50834964" using fe_ok_nth [OF assms, of 9] by (simp add: h fe_tight_def)
  define q where "q = signed_drop_bit 25 (19 * h9 + push_bit 24 1)"
  define t where "t = (19 * sint h9 + 2 ^ 24) div 2 ^ 25"
  have "19 * h9 + push_bit 24 1 = of_int (19 * sint h9 + 2 ^ 24)" by (simp add: push_bit_eq_mult)
  moreover have x: "\<bar>19 * sint h9 + 2 ^ 24\<bar> \<le> 2 ^ 30" using 9 by simp
  ultimately have q: "sint q = t"
    using sint_of_int_exact [of "19 * sint h9 + 2 ^ 24", where ?'a = 32] by (simp add: q_def t_def sint_signed_drop_bit)
  have "t \<le> 2 ^ 30 div 2 ^ 25" "- (2 ^ 30) div 2 ^ 25 \<le> t" unfolding t_def using x by (auto intro!: zdiv_mono1)
  then have "quotient_is q t 1" using q by (simp add: quotient_is_def)
  note c = quotient_step [OF this bs(1), of 26]
  note c = quotient_step [OF c bs(2), of 25]
  note c = quotient_step [OF c bs(3), of 26]
  note c = quotient_step [OF c bs(4), of 25]
  note c = quotient_step [OF c bs(5), of 26]
  note c = quotient_step [OF c bs(6), of 25]
  note c = quotient_step [OF c bs(7), of 26]
  note c = quotient_step [OF c bs(8), of 25]
  note c = quotient_step [OF c bs(9), of 26]
  note c = quotient_step [OF c bs(10), of 25]
  have tq: "tobytes_q h = signed_drop_bit 25 (h9 + signed_drop_bit 26 (h8 + signed_drop_bit 25 (h7 + signed_drop_bit 26 (h6 +
      signed_drop_bit 25 (h5 + signed_drop_bit 26 (h4 + signed_drop_bit 25 (h3 + signed_drop_bit 26 (h2 + signed_drop_bit 25 (h1 +
      signed_drop_bit 26 (h0 + q))))))))))"
    unfolding tobytes_q_def Let_def q_def h by simp
  from c have "sint (tobytes_q h) = (t + 1 * sint h0 + 1 * 2 ^ 26 * sint h1 + 1 * 2 ^ 26 * 2 ^ 25 * sint h2 + 1 * 2 ^ 26 * 2 ^ 25 * 2 ^ 26 * sint h3 +
      1 * 2 ^ 26 * 2 ^ 25 * 2 ^ 26 * 2 ^ 25 * sint h4 + 1 * 2 ^ 26 * 2 ^ 25 * 2 ^ 26 * 2 ^ 25 * 2 ^ 26 * sint h5 +
      1 * 2 ^ 26 * 2 ^ 25 * 2 ^ 26 * 2 ^ 25 * 2 ^ 26 * 2 ^ 25 * sint h6 + 1 * 2 ^ 26 * 2 ^ 25 * 2 ^ 26 * 2 ^ 25 * 2 ^ 26 * 2 ^ 25 * 2 ^ 26 * sint h7 +
      1 * 2 ^ 26 * 2 ^ 25 * 2 ^ 26 * 2 ^ 25 * 2 ^ 26 * 2 ^ 25 * 2 ^ 26 * 2 ^ 25 * sint h8 +
      1 * 2 ^ 26 * 2 ^ 25 * 2 ^ 26 * 2 ^ 25 * 2 ^ 26 * 2 ^ 25 * 2 ^ 26 * 2 ^ 25 * 2 ^ 26 * sint h9) div
      (1 * 2 ^ 26 * 2 ^ 25 * 2 ^ 26 * 2 ^ 25 * 2 ^ 26 * 2 ^ 25 * 2 ^ 26 * 2 ^ 25 * 2 ^ 26 * 2 ^ 25)"
    unfolding quotient_is_def tq by blast
  then have "sint (tobytes_q h) = (fe_value h + t) div 2 ^ 255" by (simp add: h algebra_simps)
  then show ?thesis by (simp only: t_def h) simp
qed

lemma fe_tight_length: "length fe_tight = 10"
  by (simp add: fe_tight_def)

text \<open>The whole conversion: the bytes of the unique representative below the prime.\<close>

definition tobytes_max :: intervals where
  "tobytes_max = symmetric (map (\<lambda>b. 3 * b + 1216) fe_tight)"

lemma tobytes_bounds:
  "run_bounds 32 tobytes_carries tobytes_max = Some [(0, 2 ^ 26 - 1), (0, 2 ^ 25 - 1), (0, 2 ^ 26 - 1), (0, 2 ^ 25 - 1), (0, 2 ^ 26 - 1),
     (0, 2 ^ 25 - 1), (0, 2 ^ 26 - 1), (0, 2 ^ 25 - 1), (0, 2 ^ 26 - 1), (0, 2 ^ 25 - 1)]"
  by code_simp

lemma tobytes_sound: "list_all (limb_op_sound (2 ^ 255) fe_weights) tobytes_carries"
  by code_simp

lemma fe_value_bounds:
  assumes "fe_ok 3 h"
  shows "\<bar>fe_value h - 2 ^ 230 * sint (h ! 9)\<bar> \<le> 2 ^ 231" "\<bar>fe_value h\<bar> \<le> 3 * 2 ^ 255"
proof -
  obtain h0 h1 h2 h3 h4 h5 h6 h7 h8 h9 where h: "h = [h0, h1, h2, h3, h4, h5, h6, h7, h8, h9]"
    using fe_ok_length [OF assms] unfolding length_10 by blast
  have b: "\<bar>sint h0\<bar> \<le> 101669928" "\<bar>sint h1\<bar> \<le> 50834964" "\<bar>sint h2\<bar> \<le> 101669928" "\<bar>sint h3\<bar> \<le> 50834964" "\<bar>sint h4\<bar> \<le> 101669928"
    "\<bar>sint h5\<bar> \<le> 50834964" "\<bar>sint h6\<bar> \<le> 101669928" "\<bar>sint h7\<bar> \<le> 50834964" "\<bar>sint h8\<bar> \<le> 101669928" "\<bar>sint h9\<bar> \<le> 50834964"
    using assms by (simp_all add: fe_ok_def h fe_tight_def)
  have ab: "- b \<le> x \<and> x \<le> b" if "\<bar>x\<bar> \<le> b" for x b :: int using that by linarith
  note b' = b [THEN ab]
  have "fe_value h - 2 ^ 230 * sint (h ! 9) = sint h0 + 2 ^ 26 * sint h1 + 2 ^ 51 * sint h2 + 2 ^ 77 * sint h3 + 2 ^ 102 * sint h4 +
      2 ^ 128 * sint h5 + 2 ^ 153 * sint h6 + 2 ^ 179 * sint h7 + 2 ^ 204 * sint h8" by (simp add: h)
  then show e: "\<bar>fe_value h - 2 ^ 230 * sint (h ! 9)\<bar> \<le> 2 ^ 231" using b' by (simp add: abs_le_iff)
  then show "\<bar>fe_value h\<bar> \<le> 3 * 2 ^ 255" using b'(10) by (simp add: h abs_le_iff)
qed

lemma digits_of_bounded:
  assumes "bounded [(0, 2 ^ 26 - 1), (0, 2 ^ 25 - 1), (0, 2 ^ 26 - 1), (0, 2 ^ 25 - 1), (0, 2 ^ 26 - 1),
     (0, 2 ^ 25 - 1), (0, 2 ^ 26 - 1), (0, 2 ^ 25 - 1), (0, 2 ^ 26 - 1), (0, 2 ^ 25 - 1)] vs"
  shows "is_digits True vs" "length vs = 10"
  using assms by (auto simp: list_all2_Cons2)

lemma fe_tobytes_exact:
  assumes "fe_ok 3 h"
  shows "le_value (fe_tobytes h) = fe_value h mod p25519" "length (fe_tobytes h) = 32"
proof -
  define V t q where "V = fe_value h" and "t = (19 * sint (h ! 9) + 2 ^ 24) div 2 ^ 25" and "q = tobytes_q h"
  have len: "length h = 10" by (rule fe_ok_length [OF assms])
  have "(V + t) div 2 ^ 255 = V div p25519"
    using fe_value_bounds [OF assms] by (intro floor_quotient [where lead = "sint (h ! 9)" and E = "V - 2 ^ 230 * sint (h ! 9)"]) (simp_all add: V_def t_def)
  then have q: "sint q = V div p25519" using tobytes_q_exact [OF assms] by (simp add: q_def V_def t_def)
  have "\<bar>V div p25519\<bar> \<le> 4"
  proof -
    have "(3 * 2 ^ 255) div p25519 = 3" "(- (3 * 2 ^ 255)) div p25519 = - 4" by (simp_all add: p25519_def)
    moreover have "V div p25519 \<le> (3 * 2 ^ 255) div p25519" "(- (3 * 2 ^ 255)) div p25519 \<le> V div p25519"
      using fe_value_bounds(2) [OF assms] by (auto intro!: zdiv_mono1 simp: V_def p25519_def)
    ultimately show ?thesis by simp
  qed
  then have qb: "\<bar>sint q\<bar> \<le> 4" using q by simp
  have h0: "\<bar>sint (h ! 0)\<bar> \<le> 101669928" using fe_ok_nth [OF assms, of 0] by (simp add: fe_tight_def)
  have "h ! 0 + 19 * q = of_int (sint (h ! 0) + 19 * sint q)" by simp
  then have s0: "sint (h ! 0 + 19 * q) = sint (h ! 0) + 19 * sint q"
    using sint_of_int_exact [of "sint (h ! 0) + 19 * sint q", where ?'a = 32] h0 qb by simp
  define g where "g = h[0 := h ! 0 + 19 * q]"
  have g: "map sint g = (map sint h)[0 := sint (h ! 0) + 19 * sint q]" by (simp add: g_def map_update s0)
  have "list_all2 (\<lambda>v b. \<bar>v\<bar> \<le> b) (map sint g) (map (\<lambda>b. 3 * b + 1216) fe_tight)"
    unfolding list_all2_conv_all_nth
  proof (intro conjI allI impI)
    show "length (map sint g) = length (map (\<lambda>b. 3 * b + 1216) fe_tight)" by (simp add: g_def len fe_tight_def)
    fix i assume "i < length (map sint g)"
    then have i: "i < 10" by (simp add: g_def len)
    then have "\<bar>sint (h ! i)\<bar> \<le> 3 * fe_tight ! i" by (rule fe_ok_nth [OF assms])
    then show "\<bar>map sint g ! i\<bar> \<le> map (\<lambda>b. 3 * b + 1216) fe_tight ! i"
      using i len qb by (cases "i = 0") (simp_all add: g fe_tight_nth fe_tight_length)
  qed
  then have "bounded tobytes_max (map sint g)" by (simp add: tobytes_max_def bounded_symmetric)
  note run = limb_run_exact [where ?'a = 32, OF this, simplified, OF tobytes_bounds [simplified]]
  let ?r = "limb_run tobytes_carries g"
  have dig: "is_digits True (map sint ?r)" "length ?r = 10"
    using digits_of_bounded [of "int_run tobytes_carries (map sint g)"] run by (auto dest: arg_cong [of _ _ length])
  have lg: "length (map sint g) = length fe_weights" by (simp add: g_def len fe_weights_def)
  have eq: "map sint ?r = int_run tobytes_carries (map sint g)" using run by blast
  have "weighted fe_weights (map sint ?r) mod 2 ^ 255 = weighted fe_weights (map sint g) mod 2 ^ 255"
    unfolding eq by (rule limb_ops_sound_run(1) [OF tobytes_sound lg])
  then have v: "fe_value ?r mod 2 ^ 255 = fe_value g mod 2 ^ 255"
    using weighted_fe [of "map sint g"] weighted_fe [of "map sint ?r"] dig(2) by (simp add: g_def len)
  have "0 \<le> fe_value ?r" "fe_value ?r < 2 ^ 255" using digits_bound [OF dig(1)] dig(2) digit_bits_10 by simp_all
  then have "fe_value ?r = fe_value g mod 2 ^ 255" using v by simp
  also have "fe_value g = V + 19 * (V div p25519)"
    using fe_ok_length [OF assms] by (auto simp: length_10 g V_def q)
  also have "\<dots> = V mod p25519 + 2 ^ 255 * (V div p25519)"
    using div_mult_mod_eq [of V p25519] by (simp add: p25519_def algebra_simps)
  also have "\<dots> mod 2 ^ 255 = V mod p25519"
  proof -
    have "0 \<le> V mod p25519" "V mod p25519 < 2 ^ 255" using pos_mod_bound [of p25519 V] pos_mod_sign [of p25519 V] by (simp_all add: p25519_def)
    then show ?thesis by simp
  qed
  finally have val: "fe_value ?r = V mod p25519" .
  have f: "fe_tobytes h = fe_pack ?r" by (simp add: fe_tobytes_def Let_def q_def g_def)
  show "le_value (fe_tobytes h) = fe_value h mod p25519" unfolding f using fe_pack_value [OF dig(2,1)] val by (simp add: V_def)
  show "length (fe_tobytes h) = 32" unfolding f by (simp add: fe_pack_def Let_def)
qed

section \<open>Reading bytes\<close>

lemma shifted_load:
  fixes x :: u64
  assumes "0 \<le> sint x" "sint x < 2 ^ 32" "k \<le> 7"
  shows "sint (push_bit k x) = 2 ^ k * sint x"
proof -
  have "sint x * 2 ^ k < 2 ^ 32 * 2 ^ k" using assms(2) by simp
  also have "\<dots> \<le> (2 ^ 32 * 2 ^ 7 :: int)" using assms(3) by (intro mult_left_mono power_increasing) simp_all
  finally show ?thesis using sint_push_bit_exact [of x k] assms(1) by (simp add: mult.commute)
qed

definition from_max :: intervals where
  "from_max = map (\<lambda>b. (0, b)) [2 ^ 32, 2 ^ 30, 2 ^ 29, 2 ^ 27, 2 ^ 26, 2 ^ 32, 2 ^ 31, 2 ^ 29, 2 ^ 28, 2 ^ 25]"

lemma from_bounds:
  "\<exists>B. run_bounds 64 (map fe_carry [9, 1, 3, 5, 7, 0, 2, 4, 6, 8]) from_max = Some B \<and>
    list_all2 (\<lambda>I b. - b \<le> fst I \<and> snd I \<le> b) B fe_tight"
proof (intro exI conjI)
  show "run_bounds 64 (map fe_carry [9, 1, 3, 5, 7, 0, 2, 4, 6, 8]) from_max = Some (the (run_bounds 64 (map fe_carry [9, 1, 3, 5, 7, 0, 2, 4, 6, 8]) from_max))"
    by code_simp
  show "list_all2 (\<lambda>I b. - b \<le> fst I \<and> snd I \<le> b) (the (run_bounds 64 (map fe_carry [9, 1, 3, 5, 7, 0, 2, 4, 6, 8]) from_max)) fe_tight"
    by code_simp
qed

lemma from_sound: "list_all (limb_op_sound p25519 fe_weights) (map fe_carry [9, 1, 3, 5, 7, 0, 2, 4, 6, 8])"
  unfolding p25519_def by code_simp

lemma fe_frombytes_exact:
  assumes "length s = 32"
  shows "fe_is 1 (fe_frombytes s) (le_value s mod 2 ^ 255)"
proof -
  have l3: "sint (load_3 (drop n s)) = le_value (take 3 (drop n s))" "0 \<le> le_value (take 3 (drop n s))" "le_value (take 3 (drop n s)) < 2 ^ 24"
    if "n \<le> 29" for n
    using load_exact(1) [of "drop n s"] le_value_bounds [of "take 3 (drop n s)"] that assms by simp_all
  have l4: "sint (load_4 (drop n s)) = le_value (take 4 (drop n s))" "0 \<le> le_value (take 4 (drop n s))" "le_value (take 4 (drop n s)) < 2 ^ 32"
    if "n \<le> 28" for n
    using load_exact(2) [of "drop n s"] le_value_bounds [of "take 4 (drop n s)"] that assms by simp_all
  define m where "m = load_3 (drop 29 s) AND 8388607"
  have m: "sint m = le_value (take 3 (drop 29 s)) mod 2 ^ 23"
  proof -
    have "(8388607 :: u64) = mask 23" by code_simp
    then have "m = take_bit 23 (load_3 (drop 29 s))" by (simp only: m_def take_bit_eq_mask)
    moreover have "load_3 (drop 29 s) = of_int (le_value (take 3 (drop 29 s)))" using l3(1) [of 29, symmetric] by simp
    ultimately have "m = take_bit 23 (of_int (le_value (take 3 (drop 29 s))))" by simp
    then have "m = of_int (le_value (take 3 (drop 29 s)) mod 2 ^ 23)" by (simp only: take_bit_of_int) (simp only: take_bit_eq_mod)
    then show ?thesis using sint_of_int_exact [of "le_value (take 3 (drop 29 s)) mod 2 ^ 23", where ?'a = 64] by simp
  qed
  let ?a = "\<lambda>n k. le_value (take k (drop n s))"
  have loads: "map sint (fe_load s) =
      [?a 0 4, 2 ^ 6 * ?a 4 3, 2 ^ 5 * ?a 7 3, 2 ^ 3 * ?a 10 3, 2 ^ 2 * ?a 13 3, ?a 16 4, 2 ^ 7 * ?a 20 3, 2 ^ 5 * ?a 23 3,
       2 ^ 4 * ?a 26 3, 2 ^ 2 * (?a 29 3 mod 2 ^ 23)]"
    unfolding fe_load_def m_def [symmetric]
    using l3 [of 4] l3 [of 7] l3 [of 10] l3 [of 13] l3 [of 20] l3 [of 23] l3 [of 26] l4 [of 0] l4 [of 16] m
    by (simp add: shifted_load)
  have b: "bounded from_max (map sint (fe_load s))"
  proof -
    have "?a 29 3 mod 2 ^ 23 < 2 ^ 23" "0 \<le> ?a 29 3 mod 2 ^ 23" by simp_all
    then show ?thesis unfolding loads from_max_def
      using l3 [of 4] l3 [of 7] l3 [of 10] l3 [of 13] l3 [of 20] l3 [of 23] l3 [of 26] l4 [of 0] l4 [of 16] by simp
  qed
  obtain B where B: "run_bounds 64 (map fe_carry [9, 1, 3, 5, 7, 0, 2, 4, 6, 8]) from_max = Some B"
    "list_all2 (\<lambda>I b. - b \<le> fst I \<and> snd I \<le> b) B fe_tight" using from_bounds by blast
  note ok = narrowed_ok [OF b B from_sound, folded fe_frombytes_def]
  have "le_value s = ?a 0 4 + 2 ^ 32 * ?a 4 3 + 2 ^ 56 * ?a 7 3 + 2 ^ 80 * ?a 10 3 + 2 ^ 104 * ?a 13 3 + 2 ^ 128 * ?a 16 4 +
      2 ^ 160 * ?a 20 3 + 2 ^ 184 * ?a 23 3 + 2 ^ 208 * ?a 26 3 + 2 ^ 232 * ?a 29 3"
  proof -
    define D where "D n = le_value (drop n s)" for n
    have sp: "D n = ?a n k + 256 ^ k * D (n + k)" if "n + k \<le> 32" for n k
      using le_value_split [of k "drop n s"] that assms by (simp add: D_def add.commute)
    have "D 32 = 0" by (simp add: D_def assms)
    moreover have "le_value s = D 0" by (simp add: D_def)
    moreover note sp [of 0 4] sp [of 4 3] sp [of 7 3] sp [of 10 3] sp [of 13 3] sp [of 16 4] sp [of 20 3] sp [of 23 3] sp [of 26 3] sp [of 29 3]
    ultimately show ?thesis by simp
  qed
  also have "\<dots> = limbs_value True (map sint (fe_load s)) + 2 ^ 255 * (?a 29 3 div 2 ^ 23)"
  proof -
    have "?a 29 3 = 2 ^ 23 * (?a 29 3 div 2 ^ 23) + ?a 29 3 mod 2 ^ 23" by (rule mult_div_mod_eq [symmetric])
    moreover define q r where "q = ?a 29 3 div 2 ^ 23" and "r = ?a 29 3 mod 2 ^ 23"
    ultimately have "?a 29 3 = 2 ^ 23 * q + r" by simp
    then show ?thesis unfolding loads q_def [symmetric] r_def [symmetric] by (simp add: distrib_left)
  qed
  finally have "le_value s mod 2 ^ 255 = limbs_value True (map sint (fe_load s)) mod 2 ^ 255" by simp
  moreover have "0 \<le> limbs_value True (map sint (fe_load s))" "limbs_value True (map sint (fe_load s)) < 2 ^ 255"
  proof -
    have "?a 29 3 mod 2 ^ 23 < 2 ^ 23" "0 \<le> ?a 29 3 mod 2 ^ 23" by simp_all
    then show "0 \<le> limbs_value True (map sint (fe_load s))" "limbs_value True (map sint (fe_load s)) < 2 ^ 255" unfolding loads
      using l3 [of 4] l3 [of 7] l3 [of 10] l3 [of 13] l3 [of 20] l3 [of 23] l3 [of 26] l4 [of 0] l4 [of 16] by simp_all
  qed
  ultimately have "limbs_value True (map sint (fe_load s)) = le_value s mod 2 ^ 255" by simp
  then show ?thesis using ok by (simp add: fe_is_def fe_load_def)
qed

section \<open>Tests\<close>

lemma fold_or_zero: "fold (\<lambda>i d. d OR f i) xs (d :: u32) = 0 \<longleftrightarrow> d = 0 \<and> (\<forall>i \<in> set xs. f i = 0)"
  by (induction xs arbitrary: d) (auto simp: or_eq_0_iff)

lemma differing_byte: "(ucast (a XOR b) :: u32) = 0 \<longleftrightarrow> a = b" for a b :: u8
proof
  assume "(ucast (a XOR b) :: u32) = 0"
  then have n: "\<not> bit (ucast (a XOR b) :: u32) k" for k by simp
  show "a = b" by (rule bit_word_eqI) (use n in \<open>auto simp: bit_simps\<close>)
qed simp

lemma byte_or:
  fixes d :: u32 and a :: u8
  assumes "take_bit 8 d = d"
  shows "take_bit 8 (d OR ucast a) = d OR ucast a"
proof -
  have "take_bit 8 (ucast a :: u32) = ucast a" by (rule bit_word_eqI) (auto simp: bit_simps dest: bit_imp_le_length)
  then show ?thesis using assms by (simp add: take_bit_or)
qed

lemma crypto_verify_32_iff:
  assumes "length x = 32" "length y = 32"
  shows "crypto_verify_32 x y = (if x = y then 0 else - 1)"
proof -
  define d where "d = fold (\<lambda>i d. d OR ucast (x ! i XOR y ! i)) [0..<32] (0 :: u32)"
  have "d = 0 \<longleftrightarrow> (\<forall>i < 32. x ! i = y ! i)" unfolding d_def fold_or_zero by (auto simp: differing_byte)
  then have eq: "d = 0 \<longleftrightarrow> x = y" using assms by (auto simp: list_eq_iff_nth_eq)
  have "take_bit 8 (fold (\<lambda>i d. d OR ucast (x ! i XOR y ! i)) ns e) = fold (\<lambda>i d. d OR ucast (x ! i XOR y ! i)) ns e"
    if "take_bit 8 e = e" for ns and e :: u32
    using that
  proof (induction ns arbitrary: e)
    case (Cons n ns)
    show ?case using Cons.IH [OF byte_or [OF Cons.prems]] by (simp only: fold_Cons o_apply)
  qed simp
  then have t: "take_bit 8 d = d" by (simp add: d_def)
  have small: "unat d < 256"
  proof -
    have "uint d = take_bit 8 (uint d)" by (metis t unsigned_take_bit_eq)
    moreover have "take_bit 8 (uint d) < 2 ^ 8" by (rule take_bit_int_less_exp)
    ultimately have "uint d < 256" by simp
    then have "d < 256" by (simp add: word_less_def)
    then show ?thesis by (simp add: word_less_nat_alt)
  qed
  have "uint (1 AND drop_bit 8 (d - 1)) = (if d = 0 then 1 else 0)"
  proof (cases "d = 0")
    case False
    then have "unat (d - 1) < 256" using small by (metis unat_minus_one less_imp_diff_less)
    then have "drop_bit 8 (d - 1) = 0" by (simp add: drop_bit_eq_div unat_eq_zero word_unat_eq_iff unat_div div_less)
    then show ?thesis using False by simp
  next
    case True
    have "uint (1 AND drop_bit 8 (0 - 1 :: u32)) = 1" by code_simp
    then show ?thesis using True by (simp only: refl if_True)
  qed
  then show ?thesis by (simp add: crypto_verify_32_def Let_def eq flip: d_def)
qed

lemma zero_bytes: "le_value bs = 0 \<longleftrightarrow> bs = replicate (length bs) 0"
  by (induction bs) (use le_value_bounds(1) in \<open>auto simp: add_nonneg_eq_0_iff word_uint_eq_iff\<close>)

lemma fe_isnonzero_iff:
  assumes "fe_is 3 f v"
  shows "fe_isnonzero f = (if v mod p25519 = 0 then 0 else - 1)"
proof -
  have b: "le_value (fe_tobytes f) = v mod p25519" "length (fe_tobytes f) = 32"
    using fe_tobytes_exact [of f] assms by (simp_all add: fe_is_def)
  then show ?thesis using crypto_verify_32_iff [OF b(2), of "replicate 32 0"] zero_bytes [of "fe_tobytes f"]
    by (auto simp: fe_isnonzero_def)
qed

lemma fe_isnegative_iff:
  assumes "fe_is 3 f v"
  shows "fe_isnegative f = (if odd (v mod p25519) then 1 else 0)"
proof -
  have b: "le_value (fe_tobytes f) = v mod p25519" "length (fe_tobytes f) = 32"
    using fe_tobytes_exact [of f] assms by (simp_all add: fe_is_def)
  then obtain c cs where c: "fe_tobytes f = c # cs" by (cases "fe_tobytes f") auto
  have "odd (v mod p25519) \<longleftrightarrow> odd (uint c)" using b(1) c by (metis even_add even_mult_iff even_numeral le_value.simps(2))
  moreover have "c AND 1 = (if odd c then 1 else 0)" by (simp add: and_one_eq odd_iff_mod_2_eq_one)
  moreover have "odd (uint c) \<longleftrightarrow> odd c" using bit_uint_iff [of c 0] by (simp add: bit_0)
  ultimately show ?thesis by (simp add: fe_isnegative_def c)
qed

end
