(* ===== verification/Ed25519_Group.thy ===== *)
theory Ed25519_Group
  imports Ed25519_Bytes
begin

text \<open>
  The group of the curve (\<^verbatim>\<open>ge.h\<close>, \<^verbatim>\<open>ge_*.c\<close>, \<^verbatim>\<open>ge_*.h\<close>): points in the five representations of
  the source, the formulas between them statement by statement, and what they compute: the
  addition law of the twisted Edwards curve \<open>- x^2 + y^2 = 1 + d x^2 y^2\<close>.
\<close>

section \<open>Points\<close>

record ge_p2 =
  p2_X :: fe
  p2_Y :: fe
  p2_Z :: fe

record ge_p3 =
  p3_X :: fe
  p3_Y :: fe
  p3_Z :: fe
  p3_T :: fe

record ge_p1p1 =
  p1_X :: fe
  p1_Y :: fe
  p1_Z :: fe
  p1_T :: fe

record ge_precomp =
  yplusx :: fe
  yminusx :: fe
  xy2d :: fe

record ge_cached =
  YplusX :: fe
  YminusX :: fe
  cached_Z :: fe
  T2d :: fe

definition fe_d :: fe where
  "fe_d = [- 10913610, 13857413, - 15372611, 6949391, 114729, - 8787816, - 6275908, - 3247719, - 18696448, - 12055116]"

definition fe_d2 :: fe where
  "fe_d2 = [- 21827239, - 5839606, - 30745221, 13898782, 229458, 15978800, - 12551817, - 6495438, 29715968, 9444199]"

definition fe_sqrtm1 :: fe where
  "fe_sqrtm1 = [- 32595792, - 7943725, 9377950, 3500415, 12389472, - 272473, - 25146209, - 2005654, 326686, 11406482]"

section \<open>The functions\<close>

definition ge_p2_0 :: ge_p2 where "ge_p2_0 = \<lparr>p2_X = fe_0, p2_Y = fe_1, p2_Z = fe_1\<rparr>"
definition ge_p3_0 :: ge_p3 where "ge_p3_0 = \<lparr>p3_X = fe_0, p3_Y = fe_1, p3_Z = fe_1, p3_T = fe_0\<rparr>"
definition ge_precomp_0 :: ge_precomp where "ge_precomp_0 = \<lparr>yplusx = fe_1, yminusx = fe_1, xy2d = fe_0\<rparr>"

definition ge_p3_to_p2 :: "ge_p3 \<Rightarrow> ge_p2" where
  "ge_p3_to_p2 p = \<lparr>p2_X = p3_X p, p2_Y = p3_Y p, p2_Z = p3_Z p\<rparr>"

definition ge_p3_to_cached :: "ge_p3 \<Rightarrow> ge_cached" where
  "ge_p3_to_cached p =
     \<lparr>YplusX = fe_add (p3_Y p) (p3_X p), YminusX = fe_sub (p3_Y p) (p3_X p), cached_Z = p3_Z p, T2d = fe_mul (p3_T p) fe_d2\<rparr>"

definition ge_p1p1_to_p2 :: "ge_p1p1 \<Rightarrow> ge_p2" where
  "ge_p1p1_to_p2 p =
     \<lparr>p2_X = fe_mul (p1_X p) (p1_T p), p2_Y = fe_mul (p1_Y p) (p1_Z p), p2_Z = fe_mul (p1_Z p) (p1_T p)\<rparr>"

definition ge_p1p1_to_p3 :: "ge_p1p1 \<Rightarrow> ge_p3" where
  "ge_p1p1_to_p3 p =
     \<lparr>p3_X = fe_mul (p1_X p) (p1_T p), p3_Y = fe_mul (p1_Y p) (p1_Z p), p3_Z = fe_mul (p1_Z p) (p1_T p),
      p3_T = fe_mul (p1_X p) (p1_Y p)\<rparr>"

definition ge_add :: "ge_p3 \<Rightarrow> ge_cached \<Rightarrow> ge_p1p1" where
  "ge_add p q =
     (let rX = fe_add (p3_Y p) (p3_X p);
          rY = fe_sub (p3_Y p) (p3_X p);
          rZ = fe_mul rX (YplusX q);
          rY = fe_mul rY (YminusX q);
          rT = fe_mul (T2d q) (p3_T p);
          rX = fe_mul (p3_Z p) (cached_Z q);
          t0 = fe_add rX rX;
          rX = fe_sub rZ rY;
          rY = fe_add rZ rY;
          rZ = fe_add t0 rT;
          rT = fe_sub t0 rT
      in \<lparr>p1_X = rX, p1_Y = rY, p1_Z = rZ, p1_T = rT\<rparr>)"

definition ge_sub :: "ge_p3 \<Rightarrow> ge_cached \<Rightarrow> ge_p1p1" where
  "ge_sub p q =
     (let rX = fe_add (p3_Y p) (p3_X p);
          rY = fe_sub (p3_Y p) (p3_X p);
          rZ = fe_mul rX (YminusX q);
          rY = fe_mul rY (YplusX q);
          rT = fe_mul (T2d q) (p3_T p);
          rX = fe_mul (p3_Z p) (cached_Z q);
          t0 = fe_add rX rX;
          rX = fe_sub rZ rY;
          rY = fe_add rZ rY;
          rZ = fe_sub t0 rT;
          rT = fe_add t0 rT
      in \<lparr>p1_X = rX, p1_Y = rY, p1_Z = rZ, p1_T = rT\<rparr>)"

definition ge_madd :: "ge_p3 \<Rightarrow> ge_precomp \<Rightarrow> ge_p1p1" where
  "ge_madd p q =
     (let rX = fe_add (p3_Y p) (p3_X p);
          rY = fe_sub (p3_Y p) (p3_X p);
          rZ = fe_mul rX (yplusx q);
          rY = fe_mul rY (yminusx q);
          rT = fe_mul (xy2d q) (p3_T p);
          t0 = fe_add (p3_Z p) (p3_Z p);
          rX = fe_sub rZ rY;
          rY = fe_add rZ rY;
          rZ = fe_add t0 rT;
          rT = fe_sub t0 rT
      in \<lparr>p1_X = rX, p1_Y = rY, p1_Z = rZ, p1_T = rT\<rparr>)"

definition ge_msub :: "ge_p3 \<Rightarrow> ge_precomp \<Rightarrow> ge_p1p1" where
  "ge_msub p q =
     (let rX = fe_add (p3_Y p) (p3_X p);
          rY = fe_sub (p3_Y p) (p3_X p);
          rZ = fe_mul rX (yminusx q);
          rY = fe_mul rY (yplusx q);
          rT = fe_mul (xy2d q) (p3_T p);
          t0 = fe_add (p3_Z p) (p3_Z p);
          rX = fe_sub rZ rY;
          rY = fe_add rZ rY;
          rZ = fe_sub t0 rT;
          rT = fe_add t0 rT
      in \<lparr>p1_X = rX, p1_Y = rY, p1_Z = rZ, p1_T = rT\<rparr>)"

definition ge_p2_dbl :: "ge_p2 \<Rightarrow> ge_p1p1" where
  "ge_p2_dbl p =
     (let rX = fe_sq (p2_X p);
          rZ = fe_sq (p2_Y p);
          rT = fe_sq2 (p2_Z p);
          rY = fe_add (p2_X p) (p2_Y p);
          t0 = fe_sq rY;
          rY = fe_add rZ rX;
          rZ = fe_sub rZ rX;
          rX = fe_sub t0 rY;
          rT = fe_sub rT rZ
      in \<lparr>p1_X = rX, p1_Y = rY, p1_Z = rZ, p1_T = rT\<rparr>)"

definition ge_p3_dbl :: "ge_p3 \<Rightarrow> ge_p1p1" where
  "ge_p3_dbl p = ge_p2_dbl (ge_p3_to_p2 p)"

text \<open>Bytes: \<open>None\<close> stands for the return value \<open>-1\<close>.\<close>

definition point_bytes :: "fe \<Rightarrow> fe \<Rightarrow> fe \<Rightarrow> bytes" where
  "point_bytes X Y Z =
     (let recip = fe_invert Z;
          x = fe_mul X recip;
          y = fe_mul Y recip;
          s = fe_tobytes y
      in s[31 := s ! 31 XOR push_bit 7 (fe_isnegative x)])"

definition ge_tobytes :: "ge_p2 \<Rightarrow> bytes" where
  "ge_tobytes h = point_bytes (p2_X h) (p2_Y h) (p2_Z h)"

definition ge_p3_tobytes :: "ge_p3 \<Rightarrow> bytes" where
  "ge_p3_tobytes h = point_bytes (p3_X h) (p3_Y h) (p3_Z h)"

definition negate_unless :: "fe \<Rightarrow> u8 \<Rightarrow> fe" where
  "negate_unless hX sign = (if fe_isnegative hX = sign then fe_neg hX else hX)"

definition ge_frombytes_negate_vartime :: "bytes \<Rightarrow> ge_p3 option" where
  "ge_frombytes_negate_vartime s =
     (let hY = fe_frombytes s;
          hZ = fe_1;
          u = fe_sq hY;
          v = fe_mul u fe_d;
          u = fe_sub u hZ;
          v = fe_add v hZ;
          v3 = fe_sq v;
          v3 = fe_mul v3 v;
          hX = fe_sq v3;
          hX = fe_mul hX v;
          hX = fe_mul hX u;
          hX = fe_pow22523 hX;
          hX = fe_mul hX v3;
          hX = fe_mul hX u;
          vxx = fe_sq hX;
          vxx = fe_mul vxx v;
          root = (if fe_isnonzero (fe_sub vxx u) \<noteq> 0
                  then if fe_isnonzero (fe_add vxx u) \<noteq> 0 then None else Some (fe_mul hX fe_sqrtm1)
                  else Some hX)
      in case root of
           None \<Rightarrow> None
         | Some hX \<Rightarrow>
             let hX = negate_unless hX (drop_bit 7 (s ! 31))
             in Some \<lparr>p3_X = hX, p3_Y = hY, p3_Z = hZ, p3_T = fe_mul hX hY\<rparr>)"

section \<open>The addition law\<close>

definition ed_d :: int where
  "ed_d = 37095705934669439343138083508754565189542113879843219016388785533085940283555"

lemma ed_d_quotient: "ed_d * 121666 mod p25519 = - 121665 mod p25519"
  by (simp add: ed_d_def p25519_def)

definition on_curve :: "int \<times> int \<Rightarrow> bool" where
  "on_curve P = (case P of (x, y) \<Rightarrow> field_eq (y ^ 2 - x ^ 2) (1 + ed_d * x ^ 2 * y ^ 2))"

text \<open>
  \<open>edwards_sum P Q R\<close>: the denominators of the addition law are invertible modulo the prime at
  \<open>P\<close> and \<open>Q\<close>, and \<open>R\<close> is their sum.
\<close>

definition edwards_sum :: "int \<times> int \<Rightarrow> int \<times> int \<Rightarrow> int \<times> int \<Rightarrow> bool" where
  "edwards_sum P Q R =
     (case (P, Q, R) of ((x1, y1), (x2, y2), (x3, y3)) \<Rightarrow>
        let t = ed_d * x1 * x2 * y1 * y2
        in coprime (1 + t) p25519 \<and> coprime (1 - t) p25519 \<and>
           field_eq (x3 * (1 + t)) (x1 * y2 + y1 * x2) \<and> field_eq (y3 * (1 - t)) (y1 * y2 + x1 * x2))"

definition negated :: "int \<times> int \<Rightarrow> int \<times> int" where
  "negated P = (- fst P, snd P)"

text \<open>What the representations stand for.\<close>

definition p2_is :: "ge_p2 \<Rightarrow> int \<times> int \<Rightarrow> bool" where
  "p2_is p P = (case P of (x, y) \<Rightarrow>
     \<exists>z. coprime z p25519 \<and> fe_is 1 (p2_X p) (x * z) \<and> fe_is 1 (p2_Y p) (y * z) \<and> fe_is 1 (p2_Z p) z)"

definition p3_is :: "ge_p3 \<Rightarrow> int \<times> int \<Rightarrow> bool" where
  "p3_is p P = (case P of (x, y) \<Rightarrow>
     \<exists>z. coprime z p25519 \<and> fe_is 1 (p3_X p) (x * z) \<and> fe_is 1 (p3_Y p) (y * z) \<and> fe_is 1 (p3_Z p) z \<and>
       fe_is 1 (p3_T p) (x * y * z))"

definition p1p1_is :: "ge_p1p1 \<Rightarrow> int \<times> int \<Rightarrow> bool" where
  "p1p1_is p P = (case P of (x, y) \<Rightarrow>
     \<exists>z t. coprime z p25519 \<and> coprime t p25519 \<and> fe_is 3 (p1_X p) (x * z) \<and> fe_is 3 (p1_Y p) (y * t) \<and>
       fe_is 3 (p1_Z p) z \<and> fe_is 3 (p1_T p) t)"

definition precomp_is :: "ge_precomp \<Rightarrow> int \<times> int \<Rightarrow> bool" where
  "precomp_is q P = (case P of (x, y) \<Rightarrow>
     fe_is 1 (yplusx q) (y + x) \<and> fe_is 1 (yminusx q) (y - x) \<and> fe_is 1 (xy2d q) (2 * ed_d * x * y))"

definition cached_is :: "ge_cached \<Rightarrow> int \<times> int \<Rightarrow> bool" where
  "cached_is q P = (case P of (x, y) \<Rightarrow>
     \<exists>z. coprime z p25519 \<and> fe_is 2 (YplusX q) ((y + x) * z) \<and> fe_is 2 (YminusX q) ((y - x) * z) \<and> fe_is 1 (cached_Z q) z \<and>
       fe_is 1 (T2d q) (2 * ed_d * x * y * z))"

lemma fe_constants: "fe_is 1 fe_d ed_d" "fe_is 1 fe_d2 (2 * ed_d)" "fe_is 1 fe_1 1"
proof -
  have ok: "fe_ok 1 fe_d" "fe_ok 1 fe_d2" by (simp_all add: fe_ok_def fe_d_def fe_d2_def fe_tight_def)
  have "fe_value fe_d mod p25519 = ed_d mod p25519" "fe_value fe_d2 mod p25519 = 2 * ed_d mod p25519"
    by (simp_all add: fe_d_def fe_d2_def p25519_def ed_d_def)
  then show "fe_is 1 fe_d ed_d" "fe_is 1 fe_d2 (2 * ed_d)" using ok by (simp_all add: fe_is_def)
  show "fe_is 1 fe_1 1" by (rule fe_is_const(2))
qed

lemma point_isI:
  "\<lbrakk>coprime z p25519; fe_is 1 (p2_X p) (x * z); fe_is 1 (p2_Y p) (y * z); fe_is 1 (p2_Z p) z\<rbrakk> \<Longrightarrow> p2_is p (x, y)"
  "\<lbrakk>coprime z p25519; fe_is 1 (p3_X p3) (x * z); fe_is 1 (p3_Y p3) (y * z); fe_is 1 (p3_Z p3) z; fe_is 1 (p3_T p3) (x * y * z)\<rbrakk> \<Longrightarrow> p3_is p3 (x, y)"
  "\<lbrakk>coprime z p25519; coprime t p25519; fe_is 3 (p1_X r) (x * z); fe_is 3 (p1_Y r) (y * t); fe_is 3 (p1_Z r) z; fe_is 3 (p1_T r) t\<rbrakk> \<Longrightarrow> p1p1_is r (x, y)"
  unfolding p2_is_def p3_is_def p1p1_is_def prod.case by blast+

lemma coprime_2_p: "coprime 2 p25519"
  by (simp add: p25519_def)

lemma fe_is_to: "fe_is k x u \<Longrightarrow> k \<le> l \<Longrightarrow> field_eq u v \<Longrightarrow> fe_is l x v"
  by (rule fe_is_eq [OF fe_is_mono])

text \<open>The common end of the four additions: the cross products over the completed denominators.\<close>

lemma completed_sum:
  assumes "fe_is 1 a ((y1 + x1) * (y2 + x2) * w)" "fe_is 1 b ((y1 - x1) * (y2 - x2) * w)" "coprime w p25519"
    and "fe_is 3 Z (2 * w * (1 + ed_d * x1 * x2 * y1 * y2))" "fe_is 3 T (2 * w * (1 - ed_d * x1 * x2 * y1 * y2))"
    and "edwards_sum (x1, y1) (x2, y2) R"
  shows "p1p1_is \<lparr>p1_X = fe_sub a b, p1_Y = fe_add a b, p1_Z = Z, p1_T = T\<rparr> R"
proof -
  obtain x3 y3 where R: "R = (x3, y3)" by (cases R)
  define t where "t = ed_d * x1 * x2 * y1 * y2"
  have s: "coprime (1 + t) p25519" "coprime (1 - t) p25519" "field_eq (x3 * (1 + t)) (x1 * y2 + y1 * x2)" "field_eq (y3 * (1 - t)) (y1 * y2 + x1 * x2)"
    using assms(6) by (simp_all add: R edwards_sum_def Let_def t_def)
  have x: "field_eq ((y1 + x1) * (y2 + x2) * w - (y1 - x1) * (y2 - x2) * w) (x3 * (2 * w * (1 + t)))"
    using mod_mult_cong [OF refl s(3), of "2 * w"] by (simp add: algebra_simps)
  have y: "field_eq ((y1 + x1) * (y2 + x2) * w + (y1 - x1) * (y2 - x2) * w) (y3 * (2 * w * (1 - t)))"
    using mod_mult_cong [OF refl s(4), of "2 * w"] by (simp add: algebra_simps)
  have "fe_is 3 (fe_sub a b) (x3 * (2 * w * (1 + t)))" by (rule fe_is_to [OF fe_is_sub [OF assms(1,2)] _ x]) simp_all
  moreover have "fe_is 3 (fe_add a b) (y3 * (2 * w * (1 - t)))" by (rule fe_is_to [OF fe_is_add [OF assms(1,2)] _ y]) simp_all
  moreover have "coprime (2 * w * (1 + t)) p25519" "coprime (2 * w * (1 - t)) p25519"
    using s(1,2) assms(3) coprime_2_p by simp_all
  ultimately show ?thesis using assms(4,5) unfolding R by (intro point_isI(3)) (simp_all only: ge_p1p1.simps t_def)
qed

lemma fe_is_twice: "fe_is 1 x w \<Longrightarrow> fe_is 2 (fe_add x x) (2 * w)"
  using fe_is_add [of 1 x w 1 x w] by simp

lemma fe_is_ends:
  assumes "fe_is 1 x w" "fe_is 1 c v"
  shows "fe_is 3 (fe_add (fe_add x x) c) (2 * w + v)" "fe_is 3 (fe_sub (fe_add x x) c) (2 * w - v)"
  using fe_is_add [OF fe_is_twice [OF assms(1)] assms(2)] fe_is_sub [OF fe_is_twice [OF assms(1)] assms(2)] by simp_all

lemma fe_is_sides:
  assumes "fe_is 1 Y v" "fe_is 1 X u"
  shows "fe_is 3 (fe_add Y X) (v + u)" "fe_is 3 (fe_sub Y X) (v - u)"
  using fe_is_mono [OF fe_is_add [OF assms], of 3] fe_is_mono [OF fe_is_sub [OF assms], of 3] by simp_all

lemma ge_add_is:
  assumes "p3_is p P" "cached_is q Q"
  shows "edwards_sum P Q R \<Longrightarrow> p1p1_is (ge_add p q) R" "edwards_sum P (negated Q) R \<Longrightarrow> p1p1_is (ge_sub p q) R"
proof -
  obtain x1 y1 x2 y2 where P: "P = (x1, y1)" "Q = (x2, y2)" by (cases P, cases Q)
  obtain z where p: "coprime z p25519" "fe_is 1 (p3_X p) (x1 * z)" "fe_is 1 (p3_Y p) (y1 * z)" "fe_is 1 (p3_Z p) z" "fe_is 1 (p3_T p) (x1 * y1 * z)"
    using assms(1) by (auto simp: p3_is_def P)
  obtain z' where q: "coprime z' p25519" "fe_is 3 (YplusX q) ((y2 + x2) * z')" "fe_is 3 (YminusX q) ((y2 - x2) * z')" "fe_is 1 (cached_Z q) z'"
      "fe_is 1 (T2d q) (2 * ed_d * x2 * y2 * z')"
    using assms(2) fe_is_mono [of 2 _ _ 3] by (auto simp: cached_is_def P)
  note side = fe_is_sides [OF p(3,2)]
  note m = fe_is_mul [OF side(1) q(2)] fe_is_mul [OF side(2) q(3)] fe_is_mul [OF side(1) q(3)] fe_is_mul [OF side(2) q(2)]
  note e = fe_is_ends [OF fe_is_mul [OF fe_is_mono [OF p(4)] fe_is_mono [OF q(4)]] fe_is_mul [OF fe_is_mono [OF q(5)] fe_is_mono [OF p(5)]], simplified]
  have w: "coprime (z * z') p25519" using p(1) q(1) by simp
  show "p1p1_is (ge_add p q) R" if "edwards_sum P Q R"
    unfolding ge_add_def Let_def
    by (rule completed_sum [OF fe_is_to [OF m(1)] fe_is_to [OF m(2)] w fe_is_to [OF e(1)] fe_is_to [OF e(2)] that [unfolded P]])
      (simp_all add: algebra_simps)
  show "p1p1_is (ge_sub p q) R" if "edwards_sum P (negated Q) R"
    unfolding ge_sub_def Let_def
    by (rule completed_sum [OF fe_is_to [OF m(3)] fe_is_to [OF m(4)] w fe_is_to [OF e(2)] fe_is_to [OF e(1)] that [unfolded P negated_def fst_conv snd_conv]])
      (simp_all add: algebra_simps)
qed

lemma ge_madd_is:
  assumes "p3_is p P" "precomp_is q Q"
  shows "edwards_sum P Q R \<Longrightarrow> p1p1_is (ge_madd p q) R" "edwards_sum P (negated Q) R \<Longrightarrow> p1p1_is (ge_msub p q) R"
proof -
  obtain x1 y1 x2 y2 where P: "P = (x1, y1)" "Q = (x2, y2)" by (cases P, cases Q)
  obtain z where p: "coprime z p25519" "fe_is 1 (p3_X p) (x1 * z)" "fe_is 1 (p3_Y p) (y1 * z)" "fe_is 1 (p3_Z p) z" "fe_is 1 (p3_T p) (x1 * y1 * z)"
    using assms(1) by (auto simp: p3_is_def P)
  have q: "fe_is 3 (yplusx q) (y2 + x2)" "fe_is 3 (yminusx q) (y2 - x2)" "fe_is 3 (xy2d q) (2 * ed_d * x2 * y2)"
    using assms(2) by (auto simp: precomp_is_def P intro: fe_is_mono)
  note side = fe_is_sides [OF p(3,2)]
  note m = fe_is_mul [OF side(1) q(1)] fe_is_mul [OF side(2) q(2)] fe_is_mul [OF side(1) q(2)] fe_is_mul [OF side(2) q(1)]
  note e = fe_is_ends [OF p(4) fe_is_mul [OF q(3) fe_is_mono [OF p(5)]], simplified]
  show "p1p1_is (ge_madd p q) R" if "edwards_sum P Q R"
    unfolding ge_madd_def Let_def
    by (rule completed_sum [OF fe_is_to [OF m(1)] fe_is_to [OF m(2)] p(1) fe_is_to [OF e(1)] fe_is_to [OF e(2)] that [unfolded P]])
      (simp_all add: algebra_simps)
  show "p1p1_is (ge_msub p q) R" if "edwards_sum P (negated Q) R"
    unfolding ge_msub_def Let_def
    by (rule completed_sum [OF fe_is_to [OF m(3)] fe_is_to [OF m(4)] p(1) fe_is_to [OF e(2)] fe_is_to [OF e(1)] that [unfolded P negated_def fst_conv snd_conv]])
      (simp_all add: algebra_simps)
qed

text \<open>Doubling uses the equation of the curve in place of the constant \<open>d\<close>.\<close>

lemma ge_p2_dbl_is:
  assumes "p2_is p P" "on_curve P" "edwards_sum P P R"
  shows "p1p1_is (ge_p2_dbl p) R"
proof -
  obtain x y x3 y3 where P: "P = (x, y)" "R = (x3, y3)" by (cases P, cases R)
  obtain z where p: "coprime z p25519" "fe_is 1 (p2_X p) (x * z)" "fe_is 1 (p2_Y p) (y * z)" "fe_is 1 (p2_Z p) z"
    using assms(1) by (auto simp: p2_is_def P)
  define t where "t = ed_d * x * x * y * y"
  have s: "coprime (1 + t) p25519" "coprime (1 - t) p25519" "field_eq (x3 * (1 + t)) (2 * x * y)" "field_eq (y3 * (1 - t)) (y * y + x * x)"
    using assms(3) by (simp_all add: P edwards_sum_def Let_def t_def algebra_simps)
  have c: "field_eq (y * y - x * x) (1 + t)" using assms(2) by (simp add: P on_curve_def t_def power2_eq_square algebra_simps)
  have sq: "fe_is 1 (fe_sq (p2_X p)) ((x * z) ^ 2)" "fe_is 1 (fe_sq (p2_Y p)) ((y * z) ^ 2)" "fe_is 1 (fe_sq2 (p2_Z p)) (2 * z ^ 2)"
    by (rule fe_is_sq fe_is_sq2, rule fe_is_mono, fact, simp)+
  have t0: "fe_is 1 (fe_sq (fe_add (p2_X p) (p2_Y p))) ((x * z + y * z) ^ 2)" by (rule fe_is_sq [OF fe_is_sides(1) [OF p(2,3)]])
  have yx: "fe_is 2 (fe_add (fe_sq (p2_Y p)) (fe_sq (p2_X p))) ((y * z) ^ 2 + (x * z) ^ 2)" "fe_is 2 (fe_sub (fe_sq (p2_Y p)) (fe_sq (p2_X p))) ((y * z) ^ 2 - (x * z) ^ 2)"
    using fe_is_add [OF sq(2,1)] fe_is_sub [OF sq(2,1)] by simp_all
  have Z: "field_eq ((y * z) ^ 2 - (x * z) ^ 2) (z ^ 2 * (1 + t))"
    using mod_mult_cong [OF refl c, of "z ^ 2"] by (simp add: algebra_simps power2_eq_square)
  have T: "field_eq (2 * z ^ 2 - ((y * z) ^ 2 - (x * z) ^ 2)) (z ^ 2 * (1 - t))"
    using mod_diff_cong [OF refl Z, of "2 * z ^ 2"] by (simp add: algebra_simps)
  have X: "field_eq ((x * z + y * z) ^ 2 - ((y * z) ^ 2 + (x * z) ^ 2)) (x3 * (z ^ 2 * (1 + t)))"
    using mod_mult_cong [OF refl s(3), of "z ^ 2"] by (simp add: algebra_simps power2_eq_square)
  have Y: "field_eq ((y * z) ^ 2 + (x * z) ^ 2) (y3 * (z ^ 2 * (1 - t)))"
    using mod_mult_cong [OF refl s(4), of "z ^ 2"] by (simp add: algebra_simps power2_eq_square)
  have "fe_is 3 (p1_X (ge_p2_dbl p)) (x3 * (z ^ 2 * (1 + t)))" "fe_is 3 (p1_Y (ge_p2_dbl p)) (y3 * (z ^ 2 * (1 - t)))"
    "fe_is 3 (p1_Z (ge_p2_dbl p)) (z ^ 2 * (1 + t))" "fe_is 3 (p1_T (ge_p2_dbl p)) (z ^ 2 * (1 - t))"
    using fe_is_to [OF fe_is_sub [OF t0 yx(1)] _ X] fe_is_to [OF yx(1) _ Y] fe_is_to [OF yx(2) _ Z] fe_is_to [OF fe_is_sub [OF sq(3) yx(2)] _ T]
    by (simp_all add: ge_p2_dbl_def Let_def)
  moreover have "coprime (z ^ 2 * (1 + t)) p25519" "coprime (z ^ 2 * (1 - t)) p25519" using s(1,2) p(1) by simp_all
  ultimately show ?thesis unfolding P by (intro point_isI(3))
qed

text \<open>The conversions keep the point.\<close>

lemma ge_p1p1_is:
  assumes "p1p1_is p P"
  shows "p2_is (ge_p1p1_to_p2 p) P" "p3_is (ge_p1p1_to_p3 p) P"
proof -
  obtain x y where P: "P = (x, y)" by (cases P)
  obtain z t where p: "coprime z p25519" "coprime t p25519" "fe_is 3 (p1_X p) (x * z)" "fe_is 3 (p1_Y p) (y * t)" "fe_is 3 (p1_Z p) z" "fe_is 3 (p1_T p) t"
    using assms by (auto simp: p1p1_is_def P)
  have c: "coprime (z * t) p25519" using p(1,2) by simp
  have m: "fe_is 1 (fe_mul (p1_X p) (p1_T p)) (x * (z * t))" "fe_is 1 (fe_mul (p1_Y p) (p1_Z p)) (y * (z * t))" "fe_is 1 (fe_mul (p1_Z p) (p1_T p)) (z * t)"
    "fe_is 1 (fe_mul (p1_X p) (p1_Y p)) (x * y * (z * t))"
    using fe_is_mul [OF p(3) p(6)] fe_is_mul [OF p(4) p(5)] fe_is_mul [OF p(5,6)] fe_is_mul [OF p(3,4)] by (simp_all add: algebra_simps)
  show "p2_is (ge_p1p1_to_p2 p) P" unfolding P by (rule point_isI(1) [OF c]) (simp_all only: ge_p1p1_to_p2_def ge_p2.simps m)
  show "p3_is (ge_p1p1_to_p3 p) P" unfolding P by (rule point_isI(2) [OF c]) (simp_all only: ge_p1p1_to_p3_def ge_p3.simps m)
qed

lemma ge_p3_is:
  assumes "p3_is p P"
  shows "p2_is (ge_p3_to_p2 p) P" "cached_is (ge_p3_to_cached p) P"
proof -
  obtain x y where P: "P = (x, y)" by (cases P)
  obtain z where p: "coprime z p25519" "fe_is 1 (p3_X p) (x * z)" "fe_is 1 (p3_Y p) (y * z)" "fe_is 1 (p3_Z p) z" "fe_is 1 (p3_T p) (x * y * z)"
    using assms by (auto simp: p3_is_def P)
  show "p2_is (ge_p3_to_p2 p) P" using p by (auto simp: P p2_is_def ge_p3_to_p2_def)
  have "fe_is 2 (fe_add (p3_Y p) (p3_X p)) ((y + x) * z)" "fe_is 2 (fe_sub (p3_Y p) (p3_X p)) ((y - x) * z)"
    using fe_is_add [OF p(3,2)] fe_is_sub [OF p(3,2)] by (simp_all add: algebra_simps)
  moreover have "fe_is 1 (fe_mul (p3_T p) fe_d2) (2 * ed_d * x * y * z)"
    using fe_is_mul [OF fe_is_mono [OF p(5)] fe_is_mono [OF fe_constants(2)]] by (simp add: algebra_simps)
  ultimately show "cached_is (ge_p3_to_cached p) P" using p(1,4) by (auto simp: P cached_is_def ge_p3_to_cached_def)
qed

lemma ge_zero_is: "p2_is ge_p2_0 (0, 1)" "p3_is ge_p3_0 (0, 1)" "precomp_is ge_precomp_0 (0, 1)"
  using fe_is_const by (auto simp: p2_is_def p3_is_def precomp_is_def ge_p2_0_def ge_p3_0_def ge_precomp_0_def intro!: exI [of _ 1])

lemma edwards_zero: "edwards_sum P (0, 1) P"
  by (cases P) (simp add: edwards_sum_def)

section \<open>Bytes of points\<close>

text \<open>The candidate for the square root of \<open>u / v\<close> that decompression computes.\<close>

definition root_candidate :: "int \<Rightarrow> int \<Rightarrow> int" where
  "root_candidate u v = (((v ^ 2 * v) ^ 2 * v * u) ^ nat ((p25519 - 5) div 8)) * (v ^ 2 * v) * u"

lemma sqrtm1_is: "fe_is 1 fe_sqrtm1 (fe_value fe_sqrtm1)" "field_eq (fe_value fe_sqrtm1 ^ 2) (- 1)"
proof -
  show "fe_is 1 fe_sqrtm1 (fe_value fe_sqrtm1)" by (simp add: fe_is_def fe_ok_def fe_sqrtm1_def fe_tight_def)
  show "field_eq (fe_value fe_sqrtm1 ^ 2) (- 1)" unfolding p25519_def by code_simp
qed

lemma odd_negated:
  assumes "x mod p25519 \<noteq> 0"
  shows "odd (- x mod p25519) \<longleftrightarrow> even (x mod p25519)"
proof -
  have "- x mod p25519 = p25519 - x mod p25519" using assms by (simp add: zmod_zminus1_eq_if)
  moreover have "odd p25519" by (simp add: p25519_def)
  ultimately show ?thesis by simp
qed

text \<open>The sign is chosen against the top bit of the encoding.\<close>

lemma chosen_sign:
  fixes b :: u8
  assumes "fe_is 1 hX x"
  defines "hX' \<equiv> negate_unless hX (drop_bit 7 b)"
  shows "\<exists>x'. fe_is 1 hX' x' \<and> x' ^ 2 = x ^ 2 \<and> (x' mod p25519 = 0 \<or> (odd (x' mod p25519) \<longleftrightarrow> \<not> bit b 7))"
proof -
  have b: "drop_bit 7 b = (if bit b 7 then 1 else 0)"
  proof (rule bit_word_eqI)
    fix n show "bit (drop_bit 7 b) n = bit (if bit b 7 then 1 else 0 :: u8) n"
      by (cases n) (auto simp: bit_simps dest: bit_imp_le_length)
  qed
  have neg: "fe_isnegative hX = (if odd (x mod p25519) then 1 else 0)" by (rule fe_isnegative_iff [OF fe_is_mono [OF assms(1)]]) simp
  show ?thesis
  proof (cases "fe_isnegative hX = drop_bit 7 b")
    case True
    then have "odd (x mod p25519) \<longleftrightarrow> bit b 7" by (simp add: neg b split: if_splits)
    moreover have "fe_is 1 hX' (- x)" using fe_is_neg [OF assms(1)] True by (simp add: hX'_def negate_unless_def)
    moreover have "- x mod p25519 = 0 \<or> (odd (- x mod p25519) \<longleftrightarrow> even (x mod p25519))"
      using odd_negated [of x] by (cases "x mod p25519 = 0") (simp_all add: zmod_zminus1_eq_if)
    ultimately show ?thesis by (intro exI [of _ "- x"]) auto
  next
    case False
    then have "odd (x mod p25519) \<longleftrightarrow> \<not> bit b 7" by (simp add: neg b split: if_splits)
    then show ?thesis using assms(1) False by (intro exI [of _ x]) (simp add: hX'_def negate_unless_def)
  qed
qed

lemma ge_frombytes_is:
  fixes s :: bytes
  assumes "length s = 32"
  defines "y \<equiv> le_value s mod 2 ^ 255"
  defines "u \<equiv> y ^ 2 - 1" and "v \<equiv> y ^ 2 * ed_d + 1"
  shows "case ge_frombytes_negate_vartime s of
      Some h \<Rightarrow> \<exists>x. p3_is h (x, y) \<and> on_curve (x, y) \<and> (x mod p25519 = 0 \<or> (odd (x mod p25519) \<longleftrightarrow> \<not> bit (s ! 31) 7))
    | None \<Rightarrow> \<not> field_eq (root_candidate u v ^ 2 * v) u \<and> \<not> field_eq (root_candidate u v ^ 2 * v) (- u)"
proof -
  define hY where "hY = fe_frombytes s"
  define fu fv where "fu = fe_sub (fe_sq hY) fe_1" and "fv = fe_add (fe_mul (fe_sq hY) fe_d) fe_1"
  define v3 where "v3 = fe_mul (fe_sq fv) fv"
  define r where "r = fe_mul (fe_mul (fe_pow22523 (fe_mul (fe_mul (fe_sq v3) fv) fu)) v3) fu"
  define vxx where "vxx = fe_mul (fe_sq r) fv"
  define root where "root = (if fe_isnonzero (fe_sub vxx fu) \<noteq> 0 then if fe_isnonzero (fe_add vxx fu) \<noteq> 0 then None else Some (fe_mul r fe_sqrtm1) else Some r)"
  have code: "ge_frombytes_negate_vartime s = (case root of None \<Rightarrow> None | Some hX \<Rightarrow>
      let hX = negate_unless hX (drop_bit 7 (s ! 31)) in Some \<lparr>p3_X = hX, p3_Y = hY, p3_Z = fe_1, p3_T = fe_mul hX hY\<rparr>)"
    unfolding ge_frombytes_negate_vartime_def Let_def hY_def fu_def fv_def v3_def r_def vxx_def root_def by (rule refl)
  have up: "fe_is 3 x w" if "fe_is 1 x w" for x w using fe_is_mono [OF that, of 3] by simp
  have hY: "fe_is 1 hY y" unfolding hY_def y_def by (rule fe_frombytes_exact [OF assms(1)])
  have sq: "fe_is 1 (fe_sq hY) (y ^ 2)" by (rule fe_is_sq [OF up [OF hY]])
  have fu: "fe_is 2 fu u" unfolding fu_def u_def using fe_is_sub [OF sq fe_is_const(2)] by simp
  have fv: "fe_is 2 fv v" unfolding fv_def v_def using fe_is_add [OF fe_is_mul [OF up [OF sq] up [OF fe_constants(1)]] fe_is_const(2)] by simp
  have fu3: "fe_is 3 fu u" and fv3: "fe_is 3 fv v" using fe_is_mono [OF fu] fe_is_mono [OF fv] by simp_all
  have v3: "fe_is 3 v3 (v ^ 2 * v)" unfolding v3_def by (rule up [OF fe_is_mul [OF up [OF fe_is_sq [OF fv3]] fv3]])
  have r: "fe_is 1 r (root_candidate u v)" unfolding r_def root_candidate_def
    by (intro fe_is_mul up [OF fe_is_mul] up [OF fe_is_pow22523] up [OF fe_is_sq] fu3 fv3 v3)
  have vxx: "fe_is 1 vxx (root_candidate u v ^ 2 * v)" unfolding vxx_def by (rule fe_is_mul [OF up [OF fe_is_sq [OF up [OF r]]] fv3])
  let ?r = "root_candidate u v"
  have z: "fe_isnonzero (fe_sub vxx fu) = (if (?r ^ 2 * v - u) mod p25519 = 0 then 0 else - 1)"
    "fe_isnonzero (fe_add vxx fu) = (if (?r ^ 2 * v + u) mod p25519 = 0 then 0 else - 1)"
    using fe_isnonzero_iff [of "fe_sub vxx fu"] fe_isnonzero_iff [of "fe_add vxx fu"] fe_is_sub [OF vxx fu] fe_is_add [OF vxx fu] by simp_all
  have zeq: "(a - b) mod p25519 = 0 \<longleftrightarrow> field_eq a b" for a b by (simp add: mod_eq_dvd_iff mod_eq_0_iff_dvd)
  have zeq': "(a + b) mod p25519 = 0 \<longleftrightarrow> field_eq a (- b)" for a b using zeq [of a "- b"] by simp
  show ?thesis
  proof (cases root)
    case None
    then have "\<not> field_eq (?r ^ 2 * v) u \<and> \<not> field_eq (?r ^ 2 * v) (- u)" by (simp add: root_def z zeq zeq' split: if_splits)
    then show ?thesis by (simp add: code None)
  next
    case (Some hX)
    have "\<exists>x. fe_is 1 hX x \<and> field_eq (x ^ 2 * v) u"
    proof (cases "hX = r \<and> field_eq (?r ^ 2 * v) u")
      case False
      then have hX: "hX = fe_mul r fe_sqrtm1" and n: "field_eq (?r ^ 2 * v) (- u)" using Some by (auto simp: root_def z zeq zeq' split: if_splits)
      have "field_eq (- 1 * - u) u" by simp
      then have "field_eq (fe_value fe_sqrtm1 ^ 2 * (?r ^ 2 * v)) u" using mod_mult_cong [OF sqrtm1_is(2) n] by simp
      then have "field_eq ((?r * fe_value fe_sqrtm1) ^ 2 * v) u" by (simp add: power_mult_distrib ac_simps)
      then show ?thesis using fe_is_mul [OF up [OF r] up [OF sqrtm1_is(1)]] hX by blast
    qed (use r in blast)
    then obtain x where x: "fe_is 1 hX x" "field_eq (x ^ 2 * v) u" by blast
    from chosen_sign [OF x(1), of "s ! 31"] obtain x' where
      x': "fe_is 1 (negate_unless hX (drop_bit 7 (s ! 31))) x'" "x' ^ 2 = x ^ 2"
        "x' mod p25519 = 0 \<or> (odd (x' mod p25519) \<longleftrightarrow> \<not> bit (s ! 31) 7)"
      by (elim exE conjE)
    have "x ^ 2 * v + (1 - x ^ 2) = 1 + ed_d * x ^ 2 * y ^ 2" "u + (1 - x ^ 2) = y ^ 2 - x ^ 2"
      by (simp_all add: u_def v_def algebra_simps)
    then have c: "on_curve (x', y)"
      using mod_add_cong [OF x(2) refl, of "1 - x ^ 2"] by (simp only: on_curve_def prod.case x'(2))
    have h: "p3_is \<lparr>p3_X = negate_unless hX (drop_bit 7 (s ! 31)), p3_Y = hY, p3_Z = fe_1,
        p3_T = fe_mul (negate_unless hX (drop_bit 7 (s ! 31))) hY\<rparr> (x', y)"
      by (rule point_isI(2) [of 1]) (use x'(1) hY fe_is_const(2) fe_is_mul [OF up [OF x'(1)] up [OF hY]] in simp_all)
    have s: "ge_frombytes_negate_vartime s = Some \<lparr>p3_X = negate_unless hX (drop_bit 7 (s ! 31)), p3_Y = hY, p3_Z = fe_1,
        p3_T = fe_mul (negate_unless hX (drop_bit 7 (s ! 31))) hY\<rparr>"
      unfolding code Some option.case Let_def by (rule refl)
    show ?thesis unfolding s option.case by (intro exI conjI) (rule h, rule c, rule x'(3))
  qed
qed

end
