(* ===== verification/Ed25519_Scalar.thy ===== *)
theory Ed25519_Scalar
  imports Limb_Bytes
begin

text \<open>
  Scalars modulo the order of the base point: \<^verbatim>\<open>sc_reduce.c\<close> and \<^verbatim>\<open>sc_muladd.c\<close>.  A scalar is twelve
  limbs of 21 bits, a product or a hash twenty-four; both functions end in the same limb
  program, which folds the limbs from 12 on into the lower ones with the six signed digits of
  \<open>2 ^ 252 - L\<close>.
\<close>

definition sc_order :: int where "sc_order = 2 ^ 252 + 27742317777372353535851937790883648493"

section \<open>The functions\<close>

definition sc_fold :: "nat \<Rightarrow> limb_op" where
  "sc_fold i = Fold i [(i - 12, 666643), (i - 11, 470296), (i - 10, 654183), (i - 9, - 997805), (i - 8, 136657), (i - 7, - 683901)]"

definition sc_round :: "nat \<Rightarrow> limb_op" where "sc_round i = Carry 21 (2 ^ 20) i (i + 1) 1"
definition sc_floor :: "nat \<Rightarrow> limb_op" where "sc_floor i = Carry 21 0 i (i + 1) 1"

definition sc_folds :: "limb_op list" where
  "sc_folds =
     map sc_fold [23, 22, 21, 20, 19, 18] @ map sc_round [6, 8, 10, 12, 14, 16] @ map sc_round [7, 9, 11, 13, 15] @
     map sc_fold [17, 16, 15, 14, 13, 12] @ map sc_round [0, 2, 4, 6, 8, 10] @ map sc_round [1, 3, 5, 7, 9, 11] @ [sc_fold 12]"

definition sc_floors :: "limb_op list" where
  "sc_floors = map sc_floor [0, 1, 2, 3, 4, 5, 6, 7, 8, 9, 10]"

definition sc_reduce_limbs :: "u64 list \<Rightarrow> u64 list" where
  "sc_reduce_limbs = limb_run (sc_folds @ sc_floors @ [sc_floor 11] @ [sc_fold 12] @ sc_floors)"

definition sc_load_64 :: "bytes \<Rightarrow> u64 list" where
  "sc_load_64 s =
     [2097151 AND load_3 s, 2097151 AND drop_bit 5 (load_4 (drop 2 s)),
      2097151 AND drop_bit 2 (load_3 (drop 5 s)), 2097151 AND drop_bit 7 (load_4 (drop 7 s)),
      2097151 AND drop_bit 4 (load_4 (drop 10 s)), 2097151 AND drop_bit 1 (load_3 (drop 13 s)),
      2097151 AND drop_bit 6 (load_4 (drop 15 s)), 2097151 AND drop_bit 3 (load_3 (drop 18 s)),
      2097151 AND load_3 (drop 21 s), 2097151 AND drop_bit 5 (load_4 (drop 23 s)),
      2097151 AND drop_bit 2 (load_3 (drop 26 s)), 2097151 AND drop_bit 7 (load_4 (drop 28 s)),
      2097151 AND drop_bit 4 (load_4 (drop 31 s)), 2097151 AND drop_bit 1 (load_3 (drop 34 s)),
      2097151 AND drop_bit 6 (load_4 (drop 36 s)), 2097151 AND drop_bit 3 (load_3 (drop 39 s)),
      2097151 AND load_3 (drop 42 s), 2097151 AND drop_bit 5 (load_4 (drop 44 s)),
      2097151 AND drop_bit 2 (load_3 (drop 47 s)), 2097151 AND drop_bit 7 (load_4 (drop 49 s)),
      2097151 AND drop_bit 4 (load_4 (drop 52 s)), 2097151 AND drop_bit 1 (load_3 (drop 55 s)),
      2097151 AND drop_bit 6 (load_4 (drop 57 s)), drop_bit 3 (load_4 (drop 60 s))]"

definition sc_load_32 :: "bytes \<Rightarrow> u64 list" where
  "sc_load_32 s =
     [2097151 AND load_3 s, 2097151 AND drop_bit 5 (load_4 (drop 2 s)),
      2097151 AND drop_bit 2 (load_3 (drop 5 s)), 2097151 AND drop_bit 7 (load_4 (drop 7 s)),
      2097151 AND drop_bit 4 (load_4 (drop 10 s)), 2097151 AND drop_bit 1 (load_3 (drop 13 s)),
      2097151 AND drop_bit 6 (load_4 (drop 15 s)), 2097151 AND drop_bit 3 (load_3 (drop 18 s)),
      2097151 AND load_3 (drop 21 s), 2097151 AND drop_bit 5 (load_4 (drop 23 s)),
      2097151 AND drop_bit 2 (load_3 (drop 26 s)), drop_bit 7 (load_4 (drop 28 s))]"

definition sc_pack :: "u64 list \<Rightarrow> bytes" where
  "sc_pack s =
     (let r = (\<lambda>i n. signed_drop_bit n (s ! i)); l = (\<lambda>i n. push_bit n (s ! i))
      in map ucast
        [r 0 0, r 0 8, r 0 16 OR l 1 5, r 1 3, r 1 11, r 1 19 OR l 2 2, r 2 6, r 2 14 OR l 3 7,
         r 3 1, r 3 9, r 3 17 OR l 4 4, r 4 4, r 4 12, r 4 20 OR l 5 1, r 5 7, r 5 15 OR l 6 6,
         r 6 2, r 6 10, r 6 18 OR l 7 3, r 7 5, r 7 13, r 8 0, r 8 8, r 8 16 OR l 9 5,
         r 9 3, r 9 11, r 9 19 OR l 10 2, r 10 6, r 10 14 OR l 11 7, r 11 1, r 11 9, r 11 17])"

definition sc_reduce :: "bytes \<Rightarrow> bytes" where
  "sc_reduce s = sc_pack (sc_reduce_limbs (sc_load_64 s))"

definition sc_sums :: "'a :: comm_ring_1 list \<Rightarrow> 'a list \<Rightarrow> 'a list \<Rightarrow> 'a list" where
  "sc_sums a b c =
     map (\<lambda>k. fold (\<lambda>i s. s + a ! i * b ! (k - i)) [k - 11..<Suc (min k 11)] (if k < 12 then c ! k else 0)) [0..<23] @ [0]"

definition sc_muladd_carries :: "limb_op list" where
  "sc_muladd_carries =
     map sc_round [0, 2, 4, 6, 8, 10, 12, 14, 16, 18, 20, 22] @ map sc_round [1, 3, 5, 7, 9, 11, 13, 15, 17, 19, 21]"

definition sc_muladd :: "bytes \<Rightarrow> bytes \<Rightarrow> bytes \<Rightarrow> bytes" where
  "sc_muladd a b c =
     sc_pack (sc_reduce_limbs (limb_run sc_muladd_carries (sc_sums (sc_load_32 a) (sc_load_32 b) (sc_load_32 c))))"

section \<open>Loading and packing\<close>

definition sc_weights :: "int list" where
  "sc_weights = map (\<lambda>i. 2 ^ (21 * i)) [0..<24]"

lemma positions_sc:
  "[0..<11] = [0, 1, 2, 3, 4, 5, 6, 7, 8, 9, 10]"
  "[0..<23] = [0, 1, 2, 3, 4, 5, 6, 7, 8, 9, 10, 11, 12, 13, 14, 15, 16, 17, 18, 19, 20, 21, 22]"
  by code_simp+

lemma last_limb:
  assumes "length s = n + 4" "k \<le> 7"
  shows "sint (drop_bit k (load_4 (drop n s))) = le_value s div 2 ^ (8 * n + k)"
proof -
  have l: "4 \<le> length (drop n s)" using assms by simp
  have "le_value (take 4 (drop n s)) = le_value s div 256 ^ n" using assms by (simp add: le_value_drop)
  then show ?thesis using load_range(2) [OF l] load_exact(2) [OF l]
    by (simp add: sint_drop_bit power_add power_mult zdiv_zmult2_eq)
qed

lemma sc_load_64_exact:
  assumes "length s = 64"
  shows "map sint (sc_load_64 s) = map (\<lambda>i. le_value s div 2 ^ (21 * i) mod 2 ^ 21) [0..<23] @ [le_value s div 2 ^ 483]"
proof -
  note l = limb_21(1) [of _ s] limb_21(2) [of _ s] last_limb [of s 60 3] limb_21(1) [of 0 s 0] limb_21(1) [of _ s 0]
  show ?thesis unfolding sc_load_64_def positions_sc using assms by (simp add: l [simplified])
qed

lemma sc_load_32_exact:
  assumes "length s = 32"
  shows "map sint (sc_load_32 s) = map (\<lambda>i. le_value s div 2 ^ (21 * i) mod 2 ^ 21) [0..<11] @ [le_value s div 2 ^ 231]"
proof -
  note l = limb_21(1) [of _ s] limb_21(2) [of _ s] last_limb [of s 28 7] limb_21(1) [of 0 s 0] limb_21(1) [of _ s 0]
  show ?thesis unfolding sc_load_32_def positions_sc using assms by (simp add: l [simplified])
qed

text \<open>The digits of a number in base \<open>2 ^ 21\<close>, the last one open, add up to it.\<close>

lemma digits_21: "(\<Sum>i\<leftarrow>[0..<n]. 2 ^ (21 * i) * (v div 2 ^ (21 * i) mod 2 ^ 21)) + 2 ^ (21 * n) * (v div 2 ^ (21 * n)) = (v :: int)"
proof (induction n)
  case (Suc n)
  let ?B = "2 ^ (21 * n) :: int" and ?q = "v div 2 ^ (21 * n)"
  have p: "(2 :: int) ^ (21 * Suc n) = ?B * 2 ^ 21" by (simp add: power_add)
  have "v div 2 ^ (21 * Suc n) = ?q div 2 ^ 21" unfolding p by (rule zdiv_zmult2_eq) simp
  then have "?B * (?q mod 2 ^ 21) + 2 ^ (21 * Suc n) * (v div 2 ^ (21 * Suc n)) = ?B * (2 ^ 21 * (?q div 2 ^ 21) + ?q mod 2 ^ 21)"
    by (simp only: p distrib_left mult.assoc add.commute)
  also have "\<dots> = ?B * ?q" by (simp only: mult_div_mod_eq)
  finally show ?case using Suc by (simp only: upt_Suc_append [OF le0] map_append sum_list_append list.map sum_list.Cons sum_list.Nil add_0_right)
qed simp

lemma sc_digits_value:
  "weighted sc_weights (map (\<lambda>i. v div 2 ^ (21 * i) mod 2 ^ 21) [0..<23] @ [v div 2 ^ 483]) = v"
proof -
  have "[0..<24] = [0..<23] @ [23]" by code_simp
  then have w: "sc_weights = map (\<lambda>i. 2 ^ (21 * i)) [0..<23] @ [2 ^ (21 * 23)]" by (simp only: sc_weights_def map_append list.map)
  have "weighted sc_weights (map (\<lambda>i. v div 2 ^ (21 * i) mod 2 ^ 21) [0..<23] @ [v div 2 ^ (21 * 23)])
      = (\<Sum>i\<leftarrow>[0..<23]. 2 ^ (21 * i) * (v div 2 ^ (21 * i) mod 2 ^ 21)) + 2 ^ (21 * 23) * (v div 2 ^ (21 * 23))"
    unfolding weighted_def w by (subst zip_append) (simp_all only: length_map map_append sum_list_append zip_map_map map_map comp_def zip_same_conv_map case_prod_conv list.map zip_Cons_Cons zip.simps sum_list.Cons sum_list.Nil add_0_right list.case)
  also have "\<dots> = v" by (rule digits_21)
  finally show ?thesis by simp
qed

definition sc_widths :: "nat list" where
  "sc_widths = [21, 21, 21, 21, 21, 21, 21, 21, 21, 21, 21, 25]"

lemma sc_pack_value:
  assumes "length s = 12" "list_all2 (\<lambda>w v. 0 \<le> v \<and> v < 2 ^ w) sc_widths (map sint s)"
  shows "le_value (sc_pack s) = mixed_value sc_widths (map sint s)"
proof -
  obtain s0 s1 s2 s3 s4 s5 s6 s7 s8 s9 s10 s11 where s: "s = [s0, s1, s2, s3, s4, s5, s6, s7, s8, s9, s10, s11]"
    using assms(1) by (auto simp: length_Suc_conv numeral_eq_Suc)
  have d: "0 \<le> sint s0" "sint s0 < 2 ^ 21" "0 \<le> sint s1" "sint s1 < 2 ^ 21" "0 \<le> sint s2" "sint s2 < 2 ^ 21" "0 \<le> sint s3"
    "sint s3 < 2 ^ 21" "0 \<le> sint s4" "sint s4 < 2 ^ 21" "0 \<le> sint s5" "sint s5 < 2 ^ 21" "0 \<le> sint s6" "sint s6 < 2 ^ 21"
    "0 \<le> sint s7" "sint s7 < 2 ^ 21" "0 \<le> sint s8" "sint s8 < 2 ^ 21" "0 \<le> sint s9" "sint s9 < 2 ^ 21" "0 \<le> sint s10" "sint s10 < 2 ^ 21"
    "0 \<le> sint s11" "sint s11 < 2 ^ 25"
    using assms(2) by (simp_all add: s sc_widths_def)
  note hb = high_bits [OF d(1,2)] high_bits [OF d(3,4)] high_bits [OF d(5,6)] high_bits [OF d(7,8)] high_bits [OF d(9,10)]
    high_bits [OF d(11,12)] high_bits [OF d(13,14)] high_bits [OF d(15,16)] high_bits [OF d(17,18)] high_bits [OF d(19,20)]
    high_bits [OF d(21,22)] high_bits [OF d(23,24)]
  have "concat (map (\<lambda>b. bits 8 (uint b)) (sc_pack s)) = mixed_bits sc_widths (map sint s)"
    by (simp add: sc_pack_def s Let_def mixed_bits_def bits_def positions sc_widths_def bit_simps bit_sint_iff hb bit_times_2)
      (simp add: numeral_2_eq_2 numeral_3_eq_3)
  then have "le_value (sc_pack s) = bits_value (mixed_bits sc_widths (map sint s))" by (simp add: le_value_bits)
  also have "\<dots> = mixed_value sc_widths (map sint s)" by (rule mixed_bits_value [OF assms(2)])
  finally show ?thesis .
qed

section \<open>Reduction\<close>

text \<open>The limbs the reduction starts from, those after the carry out of limb 11, and its result.\<close>

definition sc_start :: intervals where
  "sc_start = replicate 23 (- (2 ^ 20), 2 ^ 27) @ [(0, 2 ^ 29)]"

definition sc_middle :: intervals where
  "sc_middle = replicate 12 (0, 2 ^ 21 - 1) @ [(- 1, 0)] @ replicate 11 (0, 0)"

definition sc_last :: intervals where
  "sc_last = replicate 11 (0, 2 ^ 21 - 1) @ [(- 1, 2 ^ 21)] @ replicate 12 (0, 0)"

lemma sc_bounds:
  "run_bounds 64 (sc_folds @ sc_floors @ [sc_floor 11]) sc_start = Some sc_middle"
  "run_bounds 64 (sc_fold 12 # sc_floors) sc_middle = Some sc_last"
  by code_simp+

lemma sc_sound:
  "list_all (limb_op_sound sc_order sc_weights) (sc_folds @ sc_floors @ [sc_floor 11])"
  "list_all (limb_op_sound 0 sc_weights) sc_floors"
  by code_simp+

text \<open>Twenty-four limbs, spelled out with their weights.\<close>

lemma limbs_24:
  assumes "length h = 24"
  obtains h0 h1 h2 h3 h4 h5 h6 h7 h8 h9 h10 h11 h12 hs where
    "h = [h0, h1, h2, h3, h4, h5, h6, h7, h8, h9, h10, h11, h12] @ hs" "length hs = 11"
proof -
  define t where "t = take 13 h"
  have "length t = 13" using assms by (simp add: t_def)
  then obtain h0 h1 h2 h3 h4 h5 h6 h7 h8 h9 h10 h11 h12 where t: "t = [h0, h1, h2, h3, h4, h5, h6, h7, h8, h9, h10, h11, h12]"
    by (auto simp: length_Suc_conv numeral_eq_Suc)
  have "h = t @ drop 13 h" "length (drop 13 h) = 11" using assms by (simp_all add: t_def)
  then show ?thesis unfolding t by (rule that)
qed

lemma replicates: "replicate 11 x = [x, x, x, x, x, x, x, x, x, x, x]" "replicate 12 x = [x, x, x, x, x, x, x, x, x, x, x, x]"
  by (simp_all add: numeral_eq_Suc)

lemma digits_range:
  assumes "bounded (replicate 12 (0, 2 ^ 21 - 1)) [h0, h1, h2, h3, h4, h5, h6, h7, h8, h9, h10, h11]"
  defines "v \<equiv> h0 + 2 ^ 21 * h1 + 2 ^ 42 * h2 + 2 ^ 63 * h3 + 2 ^ 84 * h4 + 2 ^ 105 * h5 + 2 ^ 126 * h6 + 2 ^ 147 * h7 +
      2 ^ 168 * h8 + 2 ^ 189 * h9 + 2 ^ 210 * h10 + 2 ^ 231 * h11"
  shows "0 \<le> v" "v < 2 ^ 252"
  using assms(1) unfolding v_def by (simp_all add: replicates)

lemma weighted_zero: "bounded (replicate n (0, 0)) hs \<Longrightarrow> weighted W hs = 0"
proof (induction n arbitrary: hs W)
  case (Suc n)
  then show ?case by (cases W; cases hs) (auto simp: weighted_def)
qed (auto simp: weighted_def)

lemma sc_weighted:
  assumes "bounded (replicate 11 (0, 0)) hs"
  shows "weighted sc_weights ([h0, h1, h2, h3, h4, h5, h6, h7, h8, h9, h10, h11, h12] @ hs)
    = h0 + 2 ^ 21 * h1 + 2 ^ 42 * h2 + 2 ^ 63 * h3 + 2 ^ 84 * h4 + 2 ^ 105 * h5 + 2 ^ 126 * h6 + 2 ^ 147 * h7 +
      2 ^ 168 * h8 + 2 ^ 189 * h9 + 2 ^ 210 * h10 + 2 ^ 231 * h11 + 2 ^ 252 * h12"
proof -
  obtain W where W: "sc_weights = [1, 2 ^ 21, 2 ^ 42, 2 ^ 63, 2 ^ 84, 2 ^ 105, 2 ^ 126, 2 ^ 147, 2 ^ 168, 2 ^ 189, 2 ^ 210, 2 ^ 231, 2 ^ 252] @ W"
  proof
    show "sc_weights = [1, 2 ^ 21, 2 ^ 42, 2 ^ 63, 2 ^ 84, 2 ^ 105, 2 ^ 126, 2 ^ 147, 2 ^ 168, 2 ^ 189, 2 ^ 210, 2 ^ 231, 2 ^ 252] @ drop 13 sc_weights"
      by code_simp
  qed
  have "weighted W hs = 0" by (rule weighted_zero [OF assms])
  then show ?thesis unfolding W by (simp add: weighted_def)
qed

lemma length_sc_weights [simp]: "length sc_weights = 24"
  by (simp add: sc_weights_def)

lemma sc_fold_12:
  assumes "length h = 24"
  shows "weighted sc_weights (int_step (sc_fold 12) h) = weighted sc_weights h - h ! 12 * sc_order"
proof -
  let ?ks = "[(0, 666643), (1, 470296), (2, 654183), (3, - 997805), (4, 136657), (5, - 683901)] :: (nat \<times> int) list"
  have f: "sc_fold 12 = Fold 12 ?ks" by (simp add: sc_fold_def)
  have "sum_list (map (\<lambda>(j, k). k * sc_weights ! j) ?ks) - sc_weights ! 12 = - sc_order" by code_simp
  then show ?thesis using weighted_Fold [of h sc_weights 12 ?ks] assms by (simp add: f)
qed

text \<open>Limbs of the last stage with a value that is not negative are digits.\<close>

definition sc_digits :: intervals where
  "sc_digits = replicate 11 (0, 2 ^ 21 - 1) @ [(0, 2 ^ 21)] @ replicate 12 (0, 0)"

lemma length_sc_digits: "length sc_digits = 24"
  by (simp add: sc_digits_def)

lemma sc_last_digits:
  assumes "bounded sc_last r" "0 \<le> weighted sc_weights r"
  shows "bounded sc_digits r" "weighted sc_weights r = mixed_value sc_widths (take 12 r)"
proof -
  have "length r = 24" using list_all2_lengthD [OF assms(1)] by (simp add: sc_last_def)
  then obtain h0 h1 h2 h3 h4 h5 h6 h7 h8 h9 h10 h11 h12 hs where
    r: "r = [h0, h1, h2, h3, h4, h5, h6, h7, h8, h9, h10, h11, h12] @ hs" "length hs = 11" by (rule limbs_24)
  have b: "bounded (replicate 11 (0, 2 ^ 21 - 1)) [h0, h1, h2, h3, h4, h5, h6, h7, h8, h9, h10]" "- 1 \<le> h11 \<and> h11 \<le> 2 ^ 21"
    "h12 = 0" "bounded (replicate 11 (0, 0)) hs"
    using assms(1) unfolding r(1) sc_last_def by (simp_all add: replicates)
  note V = sc_weighted [OF b(4), of h0 h1 h2 h3 h4 h5 h6 h7 h8 h9 h10 h11 h12]
  have "bounded (replicate 12 (0, 2 ^ 21 - 1)) [h0, h1, h2, h3, h4, h5, h6, h7, h8, h9, h10, 0]"
    using b(1) by (simp add: replicates)
  have "0 \<le> h11"
  proof (rule ccontr)
    assume "\<not> 0 \<le> h11"
    then have "h11 = - 1" using b(2) by auto
    then show False using assms(2) b(1,3) unfolding r(1) V by (simp add: replicates)
  qed
  then show "bounded sc_digits r" using b unfolding r(1) sc_digits_def by (simp add: replicates)
  show "weighted sc_weights r = mixed_value sc_widths (take 12 r)"
    unfolding r(1) V by (simp add: b(3) sc_widths_def algebra_simps)
qed

lemma sc_pack_take: "24 \<le> length s \<Longrightarrow> sc_pack s = sc_pack (take 12 s)"
  by (simp add: sc_pack_def Let_def)

lemma in_digit: "0 \<le> fst I \<and> snd I < 2 ^ w \<Longrightarrow> in_interval I v \<Longrightarrow> 0 \<le> v \<and> v < (2 ^ w :: int)"
  by linarith

lemma sc_pack_digits:
  assumes "bounded sc_last (map sint s)" "0 \<le> weighted sc_weights (map sint s)"
  shows "le_value (sc_pack s) = weighted sc_weights (map sint s)" "length (sc_pack s) = 32"
proof -
  have len: "length s = 24" using list_all2_lengthD [OF assms(1)] by (simp add: sc_last_def)
  have "list_all2 (\<lambda>x I. in_interval I x) (take 12 (map sint s)) (take 12 sc_digits)"
    by (rule list_all2_takeI [OF sc_last_digits(1) [OF assms]])
  then have d: "list_all2 (\<lambda>I x. in_interval I x) (take 12 sc_digits) (map sint (take 12 s))"
    using len length_sc_digits by (auto simp: list_all2_conv_all_nth take_map)
  have w: "list_all2 (\<lambda>w I. 0 \<le> fst I \<and> snd I < 2 ^ w) sc_widths (take 12 sc_digits)" by code_simp
  have "list_all2 (\<lambda>w v. 0 \<le> v \<and> v < 2 ^ w) sc_widths (map sint (take 12 s))"
    by (rule list_all2_trans [OF in_digit w d])
  from sc_pack_value [OF _ this] show "le_value (sc_pack s) = weighted sc_weights (map sint s)"
    using len sc_last_digits(2) [OF assms] by (simp add: sc_pack_take take_map)
  show "length (sc_pack s) = 32" by (simp add: sc_pack_def Let_def)
qed

lemma sc_reduce_limbs_exact:
  assumes "bounded sc_start (map sint h)"
  defines "r \<equiv> map sint (sc_reduce_limbs h)"
  shows "weighted sc_weights r = weighted sc_weights (map sint h) mod sc_order"
    and "bounded sc_last r"
proof -
  let ?h = "map sint h" and ?L = sc_order
  have len: "length ?h = 24" using list_all2_lengthD [OF assms(1)] by (simp add: sc_start_def)
  define m where "m = limb_run (sc_folds @ sc_floors @ [sc_floor 11]) h"
  have m: "map sint m = int_run (sc_folds @ sc_floors @ [sc_floor 11]) ?h" "bounded sc_middle (map sint m)"
    using limb_run_exact [OF assms(1), of _ sc_middle] sc_bounds(1) by (simp_all add: m_def)
  have mV: "weighted sc_weights (map sint m) mod ?L = weighted sc_weights ?h mod ?L" "length (map sint m) = 24"
    using limb_ops_sound_run [OF sc_sound(1), of ?h] len by (simp_all only: m(1) length_sc_weights)
  have red: "sc_reduce_limbs h = limb_run (sc_fold 12 # sc_floors) m"
    by (simp add: sc_reduce_limbs_def m_def limb_run_def)
  have r: "r = int_run sc_floors (int_step (sc_fold 12) (map sint m))" and last: "bounded sc_last r"
    using limb_run_exact [OF m(2), of "sc_fold 12 # sc_floors" sc_last] sc_bounds(2) by (simp_all add: r_def red int_run_def)
  have rV: "weighted sc_weights r = weighted sc_weights (map sint m) - map sint m ! 12 * ?L"
    using limb_ops_sound_run(1) [OF sc_sound(2), of "int_step (sc_fold 12) (map sint m)"] sc_fold_12 [OF mV(2)] mV(2) by (simp add: r)
  show last': "bounded sc_last r" by (rule last)
  have range: "0 \<le> weighted sc_weights r \<and> weighted sc_weights r < ?L"
  proof -
    obtain h0 h1 h2 h3 h4 h5 h6 h7 h8 h9 h10 h11 h12 hs where
      h: "map sint m = [h0, h1, h2, h3, h4, h5, h6, h7, h8, h9, h10, h11, h12] @ hs" "length hs = 11" by (rule limbs_24 [OF mV(2)])
    have "bounded (replicate 12 (0, 2 ^ 21 - 1) @ [(- 1, 0)] @ replicate 11 (0, 0)) (map sint m)"
      using m(2) by (simp only: sc_middle_def)
    then have "bounded (replicate 12 (0, 2 ^ 21 - 1)) [h0, h1, h2, h3, h4, h5, h6, h7, h8, h9, h10, h11]" "- 1 \<le> h12 \<and> h12 \<le> 0"
      and b: "bounded (replicate 11 (0, 0)) hs"
      unfolding h(1) by (simp_all add: replicates)
    then have h12: "h12 = - 1 \<or> h12 = 0" by auto
    define low where "low = h0 + 2 ^ 21 * h1 + 2 ^ 42 * h2 + 2 ^ 63 * h3 + 2 ^ 84 * h4 + 2 ^ 105 * h5 + 2 ^ 126 * h6 + 2 ^ 147 * h7 +
      2 ^ 168 * h8 + 2 ^ 189 * h9 + 2 ^ 210 * h10 + 2 ^ 231 * h11"
    have low: "0 \<le> low" "low < 2 ^ 252" unfolding low_def by (rule digits_range, fact)+
    have V: "weighted sc_weights (map sint m) = low + 2 ^ 252 * h12"
      unfolding h(1) sc_weighted [OF b] low_def by (rule refl)
    have x: "map sint m ! 12 = h12" by (simp add: h(1))
    show ?thesis using h12 low rV unfolding V x sc_order_def by auto
  qed
  have "weighted sc_weights r mod ?L = weighted sc_weights ?h mod ?L"
    using mV(1) by (simp add: rV mod_diff_right_eq [symmetric] flip: mod_mult_self2)
  then show "weighted sc_weights r = weighted sc_weights ?h mod ?L" using range by simp
qed

lemma sc_order_pos: "0 < sc_order"
  by (simp add: sc_order_def)

lemma sc_pack_reduced:
  assumes "bounded sc_start (map sint h)"
  shows "le_value (sc_pack (sc_reduce_limbs h)) = weighted sc_weights (map sint h) mod sc_order"
    and "length (sc_pack (sc_reduce_limbs h)) = 32"
  using sc_pack_digits [of "sc_reduce_limbs h"] sc_reduce_limbs_exact [OF assms] sc_order_pos by simp_all

lemma bounded_upt: "(\<And>i. in_interval I (f i)) \<Longrightarrow> bounded (replicate n I) (map f [0..<n])"
  by (simp add: list_all2_conv_all_nth)

lemma digit_21: "0 \<le> v mod 2 ^ 21" "v mod 2 ^ 21 < 2 ^ 21" for v :: int
  by simp_all

lemma sc_reduce_exact:
  assumes "length s = 64"
  shows "le_value (sc_reduce s) = le_value s mod sc_order" "length (sc_reduce s) = 32"
proof -
  note e = sc_load_64_exact [OF assms]
  have "le_value s div 2 ^ 483 \<le> 2 ^ 512 div 2 ^ 483" using le_value_bounds(2) [of s] assms by (intro zdiv_mono1) simp_all
  then have "in_interval (0, 2 ^ 29) (le_value s div 2 ^ 483)" using le_value_bounds(1) [of s] by (simp add: pos_imp_zdiv_nonneg_iff)
  moreover have "bounded (replicate 23 (- (2 ^ 20), 2 ^ 27)) (map (\<lambda>i. le_value s div 2 ^ (21 * i) mod 2 ^ 21) [0..<23])"
    by (rule bounded_upt) (use digit_21 in fastforce)
  ultimately have "bounded sc_start (map sint (sc_load_64 s))"
    unfolding e sc_start_def by (intro list_all2_appendI) simp_all
  from sc_pack_reduced [OF this] show "le_value (sc_reduce s) = le_value s mod sc_order" "length (sc_reduce s) = 32"
    unfolding e sc_digits_value sc_reduce_def by simp_all
qed

section \<open>Multiply and add\<close>

definition convolution :: "'a :: comm_ring_1 list \<Rightarrow> 'a list \<Rightarrow> nat \<Rightarrow> 'a" where
  "convolution a b k = (\<Sum>i\<leftarrow>[k - 11..<Suc (min k 11)]. a ! i * b ! (k - i))"

lemma sc_sums_eq: "sc_sums a b c = map (\<lambda>k. (if k < 12 then c ! k else 0) + convolution a b k) [0..<23] @ [0]"
proof -
  have "fold (\<lambda>i s. s + f i) xs s = s + sum_list (map f xs)" for f :: "nat \<Rightarrow> 'a" and xs s
    by (induction xs arbitrary: s) (simp_all add: add.assoc)
  then show ?thesis by (simp only: sc_sums_def convolution_def)
qed

lemma convolution_range: "i \<in> set [k - 11..<Suc (min k 11)] \<Longrightarrow> k < 23 \<Longrightarrow> i < 12 \<and> k - i < 12"
  by auto

lemma sc_sums_of_int:
  assumes "length A = 12" "length B = 12" "length C = 12"
  shows "sc_sums (map of_int A) (map of_int B) (map of_int C) = map of_int (sc_sums A B C)"
proof -
  have "of_int (sum_list (map f xs)) = sum_list (map (\<lambda>i. of_int (f i)) xs)" for f :: "nat \<Rightarrow> int" and xs
    by (induction xs) simp_all
  note s = this
  have m: "map (\<lambda>i. map of_int A ! i * map of_int B ! (k - i)) [k - 11..<Suc (min k 11)]
      = map (\<lambda>i. of_int (A ! i * B ! (k - i))) [k - 11..<Suc (min k 11)]" if "k < 23" for k
    using convolution_range [OF _ that] assms by (intro map_cong) auto
  have "convolution (map of_int A) (map of_int B) k = (of_int (convolution A B k) :: 'a)" if "k < 23" for k
    unfolding convolution_def m [OF that] s by (rule refl)
  then show ?thesis unfolding sc_sums_eq using assms(3) by (auto intro!: nth_equalityI simp: nth_append)
qed

lemma sc_sums_mono:
  fixes A B C M :: "int list"
  assumes "\<And>i. i < 12 \<Longrightarrow> 0 \<le> A ! i \<and> A ! i \<le> M ! i" "\<And>i. i < 12 \<Longrightarrow> 0 \<le> B ! i \<and> B ! i \<le> M ! i" "\<And>i. i < 12 \<Longrightarrow> 0 \<le> C ! i \<and> C ! i \<le> M ! i"
  shows "list_all2 (\<lambda>x u. 0 \<le> x \<and> x \<le> u) (sc_sums A B C) (sc_sums M M M)"
proof -
  have s: "0 \<le> convolution A B k \<and> convolution A B k \<le> convolution M M k" if k: "k < 23" for k
  proof -
    have "0 \<le> A ! i * B ! (k - i) \<and> A ! i * B ! (k - i) \<le> M ! i * M ! (k - i)" if "i \<in> set [k - 11..<Suc (min k 11)]" for i
      using assms(1) [of i] assms(2) [of "k - i"] convolution_range [OF that k] by (auto intro!: mult_mono)
    then show ?thesis unfolding convolution_def by (intro conjI sum_list_nonneg sum_list_mono) auto
  qed
  show ?thesis unfolding sc_sums_eq
    by (rule list_all2_appendI) (use s assms(3) in \<open>auto simp: list_all2_map1 list_all2_map2 list_all2_same intro: add_mono\<close>)
qed

text \<open>The sums are the coefficients of a product of polynomials in \<open>2 ^ 21\<close>.\<close>

lemma weighted_sum:
  assumes "length h \<le> 24"
  shows "weighted sc_weights h = (\<Sum>i<length h. h ! i * (2 ^ 21) ^ i)"
proof -
  have "weighted sc_weights h = (\<Sum>i = 0..<length h. sc_weights ! i * h ! i)"
    using assms by (simp add: weighted_def sum_list_sum_nth min_absorb2)
  also have "\<dots> = (\<Sum>i<length h. h ! i * (2 ^ 21) ^ i)"
    unfolding atLeast0LessThan using assms by (intro sum.cong) (simp_all add: sc_weights_def power_mult)
  finally show ?thesis .
qed

lemma convolution_sum:
  assumes "k < 23"
  shows "convolution A B k = (\<Sum>i\<le>k. (if i < 12 then A ! i else 0) * (if k - i < 12 then B ! (k - i) else 0))"
proof -
  let ?I = "{k - 11..<Suc (min k 11)}"
  have "convolution A B k = (\<Sum>i\<in>?I. A ! i * B ! (k - i))"
    unfolding convolution_def by (simp only: sum_set_upt_conv_sum_list_nat [symmetric] set_upt)
  also have "\<dots> = (\<Sum>i\<in>?I. (if i < 12 then A ! i else 0) * (if k - i < 12 then B ! (k - i) else 0))"
    using assms by (intro sum.cong) auto
  also have "\<dots> = (\<Sum>i\<le>k. (if i < 12 then A ! i else 0) * (if k - i < 12 then B ! (k - i) else 0))"
    by (intro sum.mono_neutral_left) auto
  finally show ?thesis .
qed

lemma sc_sums_value:
  assumes "length A = 12" "length B = 12" "length C = 12"
  shows "weighted sc_weights (sc_sums A B C) = weighted sc_weights A * weighted sc_weights B + weighted sc_weights C"
proof -
  let ?q = "2 ^ 21 :: int"
  have upto: "{..<12 :: nat} = {..11}" "{..<23 :: nat} = {..11 + 11}" by auto
  have w: "weighted sc_weights X = (\<Sum>i\<le>11. (if i < 12 then X ! i else 0) * ?q ^ i)" if "length X = 12" for X
    unfolding weighted_sum [of X, unfolded that, simplified] upto using that by (intro sum.cong) auto
  have "weighted sc_weights (sc_sums A B C) = (\<Sum>k<24. sc_sums A B C ! k * ?q ^ k)"
    using weighted_sum [of "sc_sums A B C"] by (simp add: sc_sums_eq)
  also have "\<dots> = (\<Sum>k<23. ((if k < 12 then C ! k else 0) + convolution A B k) * ?q ^ k)"
  proof -
    have "(\<Sum>k<24. f k) = (\<Sum>k<23. f k) + f (23 :: nat)" for f :: "nat \<Rightarrow> int"
      using sum.lessThan_Suc [of f 23] by (simp add: eval_nat_numeral)
    then show ?thesis by (auto simp: sc_sums_eq nth_append intro!: sum.cong)
  qed
  also have "\<dots> = (\<Sum>k<23. convolution A B k * ?q ^ k) + (\<Sum>k<23. (if k < 12 then C ! k else 0) * ?q ^ k)"
    by (simp add: distrib_right sum.distrib add.commute)
  also have "(\<Sum>k<23. (if k < 12 then C ! k else 0) * ?q ^ k) = weighted sc_weights C"
    unfolding w [OF assms(3)] by (intro sum.mono_neutral_right) auto
  also have "(\<Sum>k<23. convolution A B k * ?q ^ k) = weighted sc_weights A * weighted sc_weights B"
    unfolding w [OF assms(1)] w [OF assms(2)] upto
    by (subst polynomial_product) (auto intro!: sum.cong simp: convolution_sum)
  finally show ?thesis .
qed

definition sc_max :: "int list" where
  "sc_max = replicate 11 (2 ^ 21 - 1) @ [2 ^ 25 - 1]"

definition sc_carried :: intervals where
  "sc_carried = the (run_bounds 64 sc_muladd_carries (map (\<lambda>u. (0, u)) (sc_sums sc_max sc_max sc_max)))"

lemma sc_carried_some: "run_bounds 64 sc_muladd_carries (map (\<lambda>u. (0, u)) (sc_sums sc_max sc_max sc_max)) = Some sc_carried"
  unfolding sc_carried_def by code_simp

lemma sc_carried_start: "list_all2 (\<lambda>I J. fst J \<le> fst I \<and> snd I \<le> snd J) sc_carried sc_start"
  unfolding sc_carried_def by code_simp

lemma sc_muladd_sound: "list_all (limb_op_sound 0 sc_weights) sc_muladd_carries"
  by code_simp

lemma sc_sums_max: "list_all (\<lambda>u. u < 2 ^ 63) (sc_sums sc_max sc_max sc_max)"
  by code_simp

lemma sc_load_32_bounds:
  assumes "length s = 32" "i < 12"
  shows "0 \<le> map sint (sc_load_32 s) ! i \<and> map sint (sc_load_32 s) ! i \<le> sc_max ! i"
proof -
  have "le_value s div 2 ^ 231 \<le> (2 ^ 256 - 1) div 2 ^ 231" using le_value_bounds(2) [of s] assms(1) by (intro zdiv_mono1) simp_all
  moreover have "0 \<le> le_value s div 2 ^ 231" using le_value_bounds(1) [of s] by (simp add: pos_imp_zdiv_nonneg_iff)
  ultimately show ?thesis
    unfolding sc_load_32_exact [OF assms(1)] sc_max_def using assms(2) digit_21 [of "le_value s div 2 ^ (21 * i)"]
    by (auto simp: nth_append)
qed

lemma sc_load_32_value:
  assumes "length s = 32"
  shows "weighted sc_weights (map sint (sc_load_32 s)) = le_value s" "length (sc_load_32 s) = 12"
proof -
  show l: "length (sc_load_32 s) = 12" by (simp add: sc_load_32_def)
  have "weighted sc_weights (map sint (sc_load_32 s)) = (\<Sum>i<12. (map sint (sc_load_32 s)) ! i * (2 ^ 21) ^ i)"
    using weighted_sum [of "map sint (sc_load_32 s)"] l by simp
  also have "\<dots> = (\<Sum>i\<leftarrow>[0..<11]. 2 ^ (21 * i) * (le_value s div 2 ^ (21 * i) mod 2 ^ 21)) + 2 ^ (21 * 11) * (le_value s div 2 ^ (21 * 11))"
  proof -
    have "(\<Sum>k<12. f k) = (\<Sum>k<11. f k) + f (11 :: nat)" for f :: "nat \<Rightarrow> int"
      using sum.lessThan_Suc [of f 11] by (simp add: eval_nat_numeral)
    moreover have "(\<Sum>i\<leftarrow>[0..<11]. f i) = (\<Sum>k<11. f k)" for f :: "nat \<Rightarrow> int"
      by (subst sum_set_upt_conv_sum_list_nat [symmetric]) (simp add: atLeast0LessThan)
    ultimately show ?thesis unfolding sc_load_32_exact [OF assms]
      by (auto simp: nth_append power_mult [of 2 21] intro!: sum.cong)
  qed
  also have "\<dots> = le_value s" by (rule digits_21)
  finally show "weighted sc_weights (map sint (sc_load_32 s)) = le_value s" .
qed

lemma sc_muladd_sums:
  assumes "length a = 32" "length b = 32" "length c = 32"
  defines "h \<equiv> sc_sums (sc_load_32 a) (sc_load_32 b) (sc_load_32 c)"
  shows "bounded (map (\<lambda>u. (0, u)) (sc_sums sc_max sc_max sc_max)) (map sint h)"
    and "weighted sc_weights (map sint h) = le_value a * le_value b + le_value c"
proof -
  let ?A = "map sint (sc_load_32 a)" and ?B = "map sint (sc_load_32 b)" and ?C = "map sint (sc_load_32 c)"
  let ?s = "sc_sums ?A ?B ?C"
  have len: "length ?A = 12" "length ?B = 12" "length ?C = 12" using sc_load_32_value(2) assms by simp_all
  have mono: "list_all2 (\<lambda>x u. 0 \<le> x \<and> x \<le> u) ?s (sc_sums sc_max sc_max sc_max)"
    by (rule sc_sums_mono) (use sc_load_32_bounds assms in blast)+
  have "map of_int (map sint xs) = (xs :: u64 list)" for xs by (simp add: comp_def)
  then have "h = map of_int ?s" using sc_sums_of_int [OF len, where ?'a = u64] by (simp only: h_def)
  moreover have "within (2 ^ (64 - 1)) ?s"
    using mono sc_sums_max by (fastforce simp: list_all_length list_all2_conv_all_nth)
  ultimately have h: "map sint h = ?s" using map_sint_of_int [where ?'a = 64, of ?s] by simp
  show "bounded (map (\<lambda>u. (0, u)) (sc_sums sc_max sc_max sc_max)) (map sint h)" using mono by (simp add: h list_all2_map2)
  show "weighted sc_weights (map sint h) = le_value a * le_value b + le_value c"
    unfolding h sc_sums_value [OF len] using sc_load_32_value(1) assms by simp
qed

lemma sc_muladd_exact:
  assumes "length a = 32" "length b = 32" "length c = 32"
  shows "le_value (sc_muladd a b c) = (le_value a * le_value b + le_value c) mod sc_order" "length (sc_muladd a b c) = 32"
proof -
  define h where "h = sc_sums (sc_load_32 a) (sc_load_32 b) (sc_load_32 c)"
  note s = sc_muladd_sums [OF assms, folded h_def]
  define r where "r = limb_run sc_muladd_carries h"
  have r: "map sint r = int_run sc_muladd_carries (map sint h)" "bounded sc_carried (map sint r)"
    using limb_run_exact [OF s(1), of sc_muladd_carries sc_carried] sc_carried_some by (simp_all add: r_def)
  have "length (map sint h) = 24" by (simp add: h_def sc_sums_eq)
  then have "weighted sc_weights (map sint r) = le_value a * le_value b + le_value c"
    using limb_ops_sound_run(1) [OF sc_muladd_sound, of "map sint h"] s(2) by (simp add: r(1))
  moreover have "bounded sc_start (map sint r)"
    by (rule list_all2_trans [OF _ r(2) sc_carried_start]) linarith
  ultimately show "le_value (sc_muladd a b c) = (le_value a * le_value b + le_value c) mod sc_order" "length (sc_muladd a b c) = 32"
    using sc_pack_reduced [of r] by (simp_all add: sc_muladd_def r_def h_def)
qed

end
