(* ===== verification/Ed25519_Properties.thy ===== *)
theory Ed25519_Properties
  imports Ed25519_Group Ed25519_Scalar
begin

text \<open>
  The arithmetic under the signatures: the field and the group of the curve, and the scalars
  modulo the order of the base point.
\<close>

text \<open>
  C25. Field arithmetic of the Ed25519 sources: with limbs of level 3 (three times the size of a
  carried limb) no product, sum or carry overflows; products, squares, doubled squares and the
  two addition chains have the value the names say modulo \<open>2 ^ 255 - 19\<close> and limbs of level 1,
  \<^verbatim>\<open>fe_tobytes\<close> writes the reduced value, \<^verbatim>\<open>fe_frombytes\<close> reads 255 bits, and the tests for zero and
  for the sign look at the reduced value.
\<close>

theorem ed25519_field_arithmetic:
  assumes "fe_ok 3 f" "fe_ok 3 g" "length s = 32"
  shows "fe_is 1 (fe_mul f g) (fe_value f * fe_value g) \<and> fe_is 1 (fe_sq f) (fe_value f ^ 2) \<and> fe_is 1 (fe_sq2 f) (2 * fe_value f ^ 2) \<and>
    fe_is 1 (fe_invert f) (fe_value f ^ nat (p25519 - 2)) \<and> fe_is 1 (fe_pow22523 f) (fe_value f ^ nat ((p25519 - 5) div 8)) \<and>
    fe_is 6 (fe_add f g) (fe_value f + fe_value g) \<and> fe_is 6 (fe_sub f g) (fe_value f - fe_value g) \<and> fe_is 3 (fe_neg f) (- fe_value f) \<and>
    length (fe_tobytes f) = 32 \<and> le_value (fe_tobytes f) = fe_value f mod p25519 \<and> fe_is 1 (fe_frombytes s) (le_value s mod 2 ^ 255) \<and>
    (fe_isnonzero f = 0 \<longleftrightarrow> fe_value f mod p25519 = 0) \<and> (fe_isnegative f = 1 \<longleftrightarrow> odd (fe_value f mod p25519))"
proof -
  have f: "fe_is 3 f (fe_value f)" and g: "fe_is 3 g (fe_value g)" using assms(1,2) by (simp_all add: fe_is_def)
  have "fe_is (3 + 3) (fe_add f g) (fe_value f + fe_value g)" "fe_is (3 + 3) (fe_sub f g) (fe_value f - fe_value g)"
    by (rule fe_is_add [OF f g], simp, rule fe_is_sub [OF f g], simp)
  then show ?thesis
    using fe_is_mul [OF f g] fe_is_sq [OF f] fe_is_sq2 [OF f] fe_is_invert [OF f] fe_is_pow22523 [OF f] fe_is_neg [OF f]
      fe_tobytes_exact [OF assms(1)] fe_frombytes_exact [OF assms(3)] fe_isnonzero_iff [OF f] fe_isnegative_iff [OF f]
    by simp
qed

theorem ed25519_field_arithmetic_witness:
  "fe_is 1 (fe_mul (replicate 10 (2 ^ 25)) (replicate 10 (- (2 ^ 25)))) (fe_value (replicate 10 (2 ^ 25)) * fe_value (replicate 10 (- (2 ^ 25)))) \<and>
    fe_is 1 (fe_frombytes (replicate 32 255)) (2 ^ 255 - 1)"
proof -
  have "fe_ok 3 (replicate 10 (2 ^ 25))" "fe_ok 3 (replicate 10 (- (2 ^ 25)))" "le_value (replicate 32 255) mod 2 ^ 255 = 2 ^ 255 - 1" by code_simp+
  then show ?thesis using ed25519_field_arithmetic [of "replicate 10 (2 ^ 25)" "replicate 10 (- (2 ^ 25))" "replicate 32 255"] by simp
qed

text \<open>
  C34. Scalars: \<^verbatim>\<open>sc_reduce\<close> maps any 64 bytes to the 32 bytes of their value modulo the order
  \<open>L\<close> of the base point, and \<^verbatim>\<open>sc_muladd\<close> any three 32-byte scalars to those of \<open>a * b + c\<close> modulo \<open>L\<close>;
  the results are fully reduced.  The products, the folding with the digits of \<open>L\<close> and all
  carries stay within 64 bits.
\<close>

theorem scalars_mod_order:
  assumes "length s = 64" "length a = 32" "length b = 32" "length c = 32"
  shows "length (sc_reduce s) = 32 \<and> le_value (sc_reduce s) = le_value s mod sc_order \<and>
    length (sc_muladd a b c) = 32 \<and> le_value (sc_muladd a b c) = (le_value a * le_value b + le_value c) mod sc_order"
  using sc_reduce_exact [OF assms(1)] sc_muladd_exact [OF assms(2-4)] by simp

theorem scalars_mod_order_witness:
  "le_value (sc_reduce (replicate 64 255)) = (2 ^ 512 - 1) mod sc_order \<and>
    le_value (sc_muladd (replicate 32 255) (replicate 32 255) (replicate 32 255)) = ((2 ^ 256 - 1) * (2 ^ 256 - 1) + (2 ^ 256 - 1)) mod sc_order"
proof -
  have "le_value (replicate 64 255) = 2 ^ 512 - 1" "le_value (replicate 32 255) = 2 ^ 256 - 1" by code_simp+
  then show ?thesis using scalars_mod_order [of "replicate 64 255" "replicate 32 255" "replicate 32 255" "replicate 32 255"] by simp
qed

text \<open>
  C40. The group: whenever \<open>P\<close> and \<open>Q\<close> have a sum, a difference and a double under the addition law
  of the twisted Edwards curve, the functions \<^verbatim>\<open>ge_add\<close>, \<^verbatim>\<open>ge_madd\<close>, \<^verbatim>\<open>ge_sub\<close>, \<^verbatim>\<open>ge_msub\<close>, \<^verbatim>\<open>ge_p3_dbl\<close> and
  the conversions between the representations compute representatives of them, with limbs
  that every following operation accepts.  \<^verbatim>\<open>ge_frombytes_negate_vartime\<close> returns a point of the
  curve with the encoded \<open>y\<close> and the sign opposite to the encoded one, and fails exactly when its
  candidate is a square root of neither \<open>u / v\<close> nor \<open>- u / v\<close>.
\<close>

theorem ed25519_group_formulas:
  assumes "p3_is p P" "on_curve P" "p3_is q Q" "precomp_is t Q" "length s = 32"
    and "edwards_sum P Q R" "edwards_sum P (negated Q) D" "edwards_sum P P E"
  shows "p3_is (ge_p1p1_to_p3 (ge_add p (ge_p3_to_cached q))) R \<and> p3_is (ge_p1p1_to_p3 (ge_madd p t)) R \<and>
    p3_is (ge_p1p1_to_p3 (ge_sub p (ge_p3_to_cached q))) D \<and> p3_is (ge_p1p1_to_p3 (ge_msub p t)) D \<and>
    p3_is (ge_p1p1_to_p3 (ge_p3_dbl p)) E \<and> p2_is (ge_p1p1_to_p2 (ge_p3_dbl p)) E \<and>
    (let y = le_value s mod 2 ^ 255; u = y ^ 2 - 1; v = y ^ 2 * ed_d + 1 in
     case ge_frombytes_negate_vartime s of
       Some h \<Rightarrow> \<exists>x. p3_is h (x, y) \<and> on_curve (x, y) \<and> (x mod p25519 = 0 \<or> (odd (x mod p25519) \<longleftrightarrow> \<not> bit (s ! 31) 7))
     | None \<Rightarrow> \<not> field_eq (root_candidate u v ^ 2 * v) u \<and> \<not> field_eq (root_candidate u v ^ 2 * v) (- u))"
proof -
  have c: "cached_is (ge_p3_to_cached q) Q" by (rule ge_p3_is(2) [OF assms(3)])
  have d: "p1p1_is (ge_p3_dbl p) E" unfolding ge_p3_dbl_def by (rule ge_p2_dbl_is [OF ge_p3_is(1) [OF assms(1)] assms(2,8)])
  show ?thesis unfolding Let_def
    by (intro conjI ge_frombytes_is [OF assms(5)] ge_p1p1_is [OF d] ge_p1p1_is(2) ge_add_is(1) [OF assms(1) c assms(6)]
        ge_add_is(2) [OF assms(1) c assms(7)] ge_madd_is(1) [OF assms(1,4,6)] ge_madd_is(2) [OF assms(1,4,7)])
qed

text \<open>The instance: a point of order four, with \<open>y = 0\<close>, and the point of order two.\<close>

theorem ed25519_group_formulas_witness:
  "p3_is (ge_p1p1_to_p3 (ge_p3_dbl \<lparr>p3_X = fe_sqrtm1, p3_Y = fe_0, p3_Z = fe_1, p3_T = fe_0\<rparr>)) (0, - 1) \<and>
    p3_is (ge_p1p1_to_p3 (ge_madd \<lparr>p3_X = fe_sqrtm1, p3_Y = fe_0, p3_Z = fe_1, p3_T = fe_0\<rparr>
      \<lparr>yplusx = fe_neg fe_1, yminusx = fe_neg fe_1, xy2d = fe_0\<rparr>)) (- fe_value fe_sqrtm1, 0)"
proof -
  let ?i = "fe_value fe_sqrtm1"
  let ?p = "\<lparr>p3_X = fe_sqrtm1, p3_Y = fe_0, p3_Z = fe_1, p3_T = fe_0\<rparr>" and ?q = "\<lparr>p3_X = fe_0, p3_Y = fe_neg fe_1, p3_Z = fe_1, p3_T = fe_0\<rparr>"
  let ?t = "\<lparr>yplusx = fe_neg fe_1, yminusx = fe_neg fe_1, xy2d = fe_0\<rparr>"
  have n: "fe_is 1 (fe_neg fe_1) (- 1)" using fe_is_neg [OF fe_is_const(2)] by simp
  have p: "p3_is ?p (?i, 0)" by (rule point_isI(2) [of 1]) (use sqrtm1_is(1) fe_is_const in simp_all)
  have q: "p3_is ?q (0, - 1)" by (rule point_isI(2) [of 1]) (use n fe_is_const in simp_all)
  have t: "precomp_is ?t (0, - 1)" using n fe_is_const by (simp add: precomp_is_def)
  have c: "on_curve (?i, 0)" using mod_mult_cong [OF refl sqrtm1_is(2), of "- 1"] by (simp add: on_curve_def)
  have s: "edwards_sum (?i, 0) (0, - 1) (- ?i, 0)" "edwards_sum (?i, 0) (negated (0, - 1)) (- ?i, 0)"
    by (simp_all add: edwards_sum_def negated_def)
  have e: "edwards_sum (?i, 0) (?i, 0) (0, - 1)" using sqrtm1_is(2) by (simp add: edwards_sum_def power2_eq_square)
  from ed25519_group_formulas [OF p c q t length_replicate [of 32 0] s e] show ?thesis by blast
qed

end
