(* ===== verification/Vpool.thy ===== *)
theory Vpool
  imports Prelude
begin

text \<open>
  \<^verbatim>\<open>vpool.c\<close>, the growable buffer in which \<^verbatim>\<open>ratchet.c\<close> collects the secrets of a key agreement.
  A pool is an allocated block, the offset of its data in the block, and the length of the
  data; sizes are 64-bit and wrap.  The abstract contents are the bytes in use: insertion,
  expansion and truncation act on them as on a list, as long as no size is rounded up past
  \<open>2 ^ 64\<close>, and what happens beyond is shown at the end.
\<close>

section \<open>The pool\<close>

datatype errno = EFBIG | ENOMEM | ERANGE

record vpool =
  v_basebuf :: "bytes option"
  v_buf :: u64
  v_off :: u64
  v_size :: u64
  v_blksize :: u64
  v_limit :: u64
  v_lasterr :: "errno option"

text \<open>
  \<^verbatim>\<open>malloc\<close> is a parameter: it fails or returns a block whose contents are arbitrary.  Copying
  into a block fails where the C program would write outside of it.
\<close>

type_synonym allocator = "u64 \<Rightarrow> bytes option"

definition copy_in :: "bytes option \<Rightarrow> nat \<Rightarrow> bytes \<Rightarrow> bytes option option" where
  "copy_in block pos data =
     (if data = [] then Some block
      else case block of None \<Rightarrow> None
      | Some b \<Rightarrow>
          if pos + length data \<le> length b then Some (Some (take pos b @ data @ drop (pos + length data) b)) else None)"

definition contents :: "vpool \<Rightarrow> bytes" where
  "contents pool =
     (case v_basebuf pool of None \<Rightarrow> [] | Some b \<Rightarrow> take (unat (v_off pool)) (drop (unat (v_buf pool)) b))"

definition vpool_shift :: "vpool \<Rightarrow> vpool" where
  "vpool_shift pool =
     (if v_buf pool \<noteq> 0 then
        pool\<lparr>v_basebuf := map_option (\<lambda>b. contents pool @ drop (unat (v_off pool)) b) (v_basebuf pool), v_buf := 0\<rparr>
      else pool)"

definition vpool_new_size :: "vpool \<Rightarrow> u64 \<Rightarrow> errno + u64" where
  "vpool_new_size pool datsize =
     (if datsize \<le> v_size pool - v_off pool then Inr (v_size pool)
      else if v_limit pool - v_off pool < datsize then Inl EFBIG
      else
        (let need = v_off pool + datsize;
             rem = need mod v_blksize pool
         in Inr (if rem \<noteq> 0 then
                   (if datsize + (v_blksize pool - rem) \<le> v_limit pool - v_off pool
                    then need + (v_blksize pool - rem) else v_limit pool)
                 else need)))"

definition vpool_resize :: "allocator \<Rightarrow> vpool \<Rightarrow> u64 \<Rightarrow> errno option \<times> vpool" where
  "vpool_resize malloc pool datsize =
     (case vpool_new_size pool datsize of Inl error \<Rightarrow> (Some error, pool)
      | Inr new_size \<Rightarrow>
         (if v_size pool < new_size then
            (case malloc new_size of None \<Rightarrow> (Some ENOMEM, pool)
             | Some ret \<Rightarrow> (None, pool\<lparr>v_basebuf := Some (contents pool @ drop (unat (v_off pool)) ret), v_buf := 0, v_size := new_size\<rparr>))
          else if v_size pool - v_off pool - v_buf pool < datsize then (None, vpool_shift pool)
          else (None, pool)))"

definition vpool_init :: "u64 \<Rightarrow> u64 \<Rightarrow> vpool" where
  "vpool_init blksize limit =
     \<lparr>v_basebuf = None, v_buf = 0, v_off = 0, v_size = 0, v_blksize = (if blksize = 0 then 4096 else blksize),
      v_limit = (if limit = 0 then - 1 else limit), v_lasterr = None\<rparr>"

definition vpool_reset :: "vpool \<Rightarrow> vpool" where
  "vpool_reset pool = pool\<lparr>v_basebuf := None, v_buf := 0, v_off := 0, v_size := 0, v_lasterr := None\<rparr>"

definition vpool_wipe :: "vpool \<Rightarrow> vpool" where
  "vpool_wipe pool = pool\<lparr>v_off := 0, v_lasterr := None\<rparr>"

text \<open>
  The outcome of \<^verbatim>\<open>vpool_insert\<close> and \<^verbatim>\<open>vpool_expand\<close>: \<open>None\<close> when the program writes outside the
  block, otherwise the offset of the returned pointer, \<open>None\<close> for a null pointer, and the pool.
  The bytes that an expansion makes room for keep what was there.
\<close>

definition clip :: "vpool \<Rightarrow> u64 \<Rightarrow> u64" where
  "clip pool at = (if v_off pool < at then v_off pool else at)"

definition make_room :: "vpool \<Rightarrow> u64 \<Rightarrow> u64 \<Rightarrow> bytes option option" where
  "make_room pool at datsize =
     copy_in (v_basebuf pool) (unat (v_buf pool) + unat at + unat datsize) (drop (unat at) (contents pool))"

definition vpool_insert :: "allocator \<Rightarrow> vpool \<Rightarrow> u64 \<Rightarrow> bytes \<Rightarrow> (nat option \<times> vpool) option" where
  "vpool_insert malloc pool at data =
     (let datsize = of_nat (length data) in
      case vpool_resize malloc pool datsize of
        (Some error, pool1) \<Rightarrow> Some (None, pool1\<lparr>v_lasterr := Some error\<rparr>)
      | (None, pool1) \<Rightarrow>
          (let at1 = clip pool1 at; ret = unat (v_buf pool1) + unat at1 in
           case make_room pool1 at1 datsize of None \<Rightarrow> None
           | Some block \<Rightarrow>
              (case copy_in block ret data of None \<Rightarrow> None
               | Some block1 \<Rightarrow>
                   Some (map_option (\<lambda>_. ret) block1,
                     pool1\<lparr>v_basebuf := block1, v_off := v_off pool1 + datsize, v_lasterr := None\<rparr>))))"

definition vpool_expand :: "allocator \<Rightarrow> vpool \<Rightarrow> u64 \<Rightarrow> u64 \<Rightarrow> (nat option \<times> vpool) option" where
  "vpool_expand malloc pool at datsize =
     (case vpool_resize malloc pool datsize of
        (Some error, pool1) \<Rightarrow> Some (None, pool1\<lparr>v_lasterr := Some error\<rparr>)
      | (None, pool1) \<Rightarrow>
          (let at1 = clip pool1 at; ret = unat (v_buf pool1) + unat at1 in
           case make_room pool1 at1 datsize of None \<Rightarrow> None
           | Some block \<Rightarrow>
               Some (map_option (\<lambda>_. ret) block,
                 pool1\<lparr>v_basebuf := block, v_off := v_off pool1 + datsize, v_lasterr := None\<rparr>)))"

datatype vpool_trunc = VPOOL_EXCLUDE | VPOOL_INCLUDE

definition vpool_truncate :: "vpool \<Rightarrow> u64 \<Rightarrow> u64 \<Rightarrow> vpool_trunc \<Rightarrow> errno option \<times> vpool" where
  "vpool_truncate pool at datsize how =
     (if v_off pool \<le> at \<or> v_off pool < datsize \<or> v_off pool - datsize < at then
        (Some ERANGE, pool\<lparr>v_lasterr := Some ERANGE\<rparr>)
      else
        (None,
         (case how of
            VPOOL_EXCLUDE \<Rightarrow>
              (if at = 0 then pool\<lparr>v_buf := v_buf pool + datsize, v_off := v_off pool - datsize\<rparr>
               else pool\<lparr>v_basebuf := map_option (\<lambda>b.
                      let c = drop (unat at + unat datsize) (contents pool); pos = unat (v_buf pool) + unat at
                      in take pos b @ c @ drop (pos + length c) b) (v_basebuf pool),
                    v_off := v_off pool - datsize\<rparr>)
          | VPOOL_INCLUDE \<Rightarrow> pool\<lparr>v_buf := v_buf pool + at, v_off := datsize\<rparr>)\<lparr>v_lasterr := None\<rparr>))"

definition vpool_export :: "vpool \<Rightarrow> bytes \<times> vpool" where
  "vpool_export pool = (contents (vpool_shift pool), vpool_reset pool)"

section \<open>Refinement of byte lists\<close>

lemma unat_lt2p_64: "unat (x :: u64) < 2 ^ 64"
  using unsigned_less [of x, where ?'a = nat] by simp

lemma unat_plus_no_wrap: "unat (x :: u64) + unat y < 2 ^ 64 \<Longrightarrow> unat (x + y) = unat x + unat y"
  by (simp add: unat_word_ariths)

definition vpool_ok :: "vpool \<Rightarrow> bool" where
  "vpool_ok pool \<longleftrightarrow>
     (case v_basebuf pool of None \<Rightarrow> v_size pool = 0 \<and> v_off pool = 0 \<and> v_buf pool = 0
      | Some b \<Rightarrow> length b = unat (v_size pool) \<and> unat (v_buf pool) + unat (v_off pool) \<le> unat (v_size pool)) \<and>
     0 < v_blksize pool \<and> v_size pool \<le> v_limit pool"

definition malloc_ok :: "allocator \<Rightarrow> bool" where
  "malloc_ok malloc \<longleftrightarrow> (\<forall>n b. malloc n = Some b \<longrightarrow> length b = unat n)"

lemma vpool_init_ok: "vpool_ok (vpool_init blksize limit)" "contents (vpool_init blksize limit) = []"
  by (simp_all add: vpool_ok_def vpool_init_def contents_def word_gt_0)

lemma length_contents: "vpool_ok pool \<Longrightarrow> length (contents pool) = unat (v_off pool)"
  by (auto simp: vpool_ok_def contents_def split: option.splits)

lemma vpool_shift_ok:
  assumes "vpool_ok pool"
  shows "vpool_ok (vpool_shift pool)" "contents (vpool_shift pool) = contents pool" "v_buf (vpool_shift pool) = 0"
    and "v_off (vpool_shift pool) = v_off pool" "v_size (vpool_shift pool) = v_size pool" "v_limit (vpool_shift pool) = v_limit pool"
    "v_blksize (vpool_shift pool) = v_blksize pool"
proof -
  show "contents (vpool_shift pool) = contents pool"
    using length_contents [OF assms] by (auto simp: vpool_shift_def contents_def split: option.splits)
  show "vpool_ok (vpool_shift pool)"
    using assms length_contents [OF assms] by (auto simp: vpool_shift_def vpool_ok_def split: option.splits)
qed (simp_all add: vpool_shift_def)

lemma off_le_size: "vpool_ok pool \<Longrightarrow> unat (v_buf pool) + unat (v_off pool) \<le> unat (v_size pool)"
  by (auto simp: vpool_ok_def split: option.splits)

text \<open>Without wrap-around the new size has room for the data and keeps the limit.\<close>

lemma vpool_new_size_exact:
  assumes "vpool_ok pool" "unat datsize + unat (v_blksize pool) < 2 ^ 64"
  shows "case vpool_new_size pool datsize of
      Inl e \<Rightarrow> e = EFBIG \<and> unat (v_limit pool) < unat (v_off pool) + unat datsize
    | Inr n \<Rightarrow> if unat (v_off pool) + unat datsize \<le> unat (v_size pool) then n = v_size pool
        else unat (v_off pool) + unat datsize \<le> unat n \<and> n \<le> v_limit pool"
proof -
  have b: "v_off pool \<le> v_size pool" "v_size pool \<le> v_limit pool" "0 < v_blksize pool"
    using off_le_size [OF assms(1)] assms(1) by (auto simp: vpool_ok_def word_le_nat_alt)
  then have d: "unat (v_size pool - v_off pool) = unat (v_size pool) - unat (v_off pool)"
    "unat (v_limit pool - v_off pool) = unat (v_limit pool) - unat (v_off pool)"
    by (simp_all add: unat_sub)
  have le: "unat (v_off pool) \<le> unat (v_size pool)" "unat (v_size pool) \<le> unat (v_limit pool)" using b by (simp_all add: word_le_nat_alt)
  show ?thesis
  proof (cases "datsize \<le> v_size pool - v_off pool")
    case True
    then show ?thesis using d le by (simp add: vpool_new_size_def word_le_nat_alt)
  next
    case False
    then have big: "unat (v_size pool) < unat (v_off pool) + unat datsize" using d le by (simp add: word_le_nat_alt)
    show ?thesis
    proof (cases "v_limit pool - v_off pool < datsize")
      case True
      then show ?thesis using False d le by (simp add: vpool_new_size_def word_less_nat_alt)
    next
      case fits: False
      then have lim: "unat (v_off pool) + unat datsize \<le> unat (v_limit pool)" using d le by (simp add: word_less_nat_alt)
      define need r where "need = v_off pool + datsize" and "r = need mod v_blksize pool"
      have need: "unat need = unat (v_off pool) + unat datsize"
        unfolding need_def using lim unat_lt2p_64 [of "v_limit pool"] by (intro unat_plus_no_wrap) simp
      have r: "r < v_blksize pool" unfolding r_def using b(3) by (rule word_mod_less_divisor)
      have pad: "unat (v_blksize pool - r) \<le> unat (v_blksize pool)" using r by (simp add: unat_sub less_imp_le)
      have sum: "unat (datsize + (v_blksize pool - r)) = unat datsize + unat (v_blksize pool - r)"
        using assms(2) pad by (intro unat_plus_no_wrap) simp
      have fit: "unat need + unat (v_blksize pool - r) \<le> unat (v_limit pool)"
        if "datsize + (v_blksize pool - r) \<le> v_limit pool - v_off pool"
        using that sum need le d(2) by (simp add: word_le_nat_alt)
      then have "unat (need + (v_blksize pool - r)) = unat need + unat (v_blksize pool - r)"
        if "datsize + (v_blksize pool - r) \<le> v_limit pool - v_off pool"
        using that unat_lt2p_64 [of "v_limit pool"] by (intro unat_plus_no_wrap) (meson le_less_trans)
      then show ?thesis
        using False fits big lim need fit
        by (simp add: vpool_new_size_def need_def [symmetric] r_def [symmetric] Let_def word_le_nat_alt)
    qed
  qed
qed

text \<open>A resized pool keeps its data and has room for the new ones behind them.\<close>

definition room_for :: "vpool \<Rightarrow> u64 \<Rightarrow> bool" where
  "room_for pool datsize \<longleftrightarrow> unat (v_buf pool) + unat (v_off pool) + unat datsize \<le> unat (v_size pool)"

lemma vpool_resize_ok:
  assumes ok: "vpool_ok pool" "malloc_ok malloc" and fits: "unat datsize + unat (v_blksize pool) < 2 ^ 64"
    and res: "vpool_resize malloc pool datsize = (None, pool')"
  shows "vpool_ok pool'" "contents pool' = contents pool" "v_off pool' = v_off pool" "room_for pool' datsize"
    "v_blksize pool' = v_blksize pool" "v_limit pool' = v_limit pool"
proof -
  obtain n where n: "vpool_new_size pool datsize = Inr n"
    using res by (cases "vpool_new_size pool datsize") (auto simp: vpool_resize_def)
  note ex = vpool_new_size_exact [OF ok(1) fits, unfolded n, simplified]
  have lim: "v_size pool \<le> v_limit pool" using ok(1) by (simp add: vpool_ok_def)
  note len = length_contents [OF ok(1)] and off = off_le_size [OF ok(1)]
  consider (grow) b where "v_size pool < n" "malloc n = Some b"
      "pool' = pool\<lparr>v_basebuf := Some (contents pool @ drop (unat (v_off pool)) b), v_buf := 0, v_size := n\<rparr>"
    | (move) "\<not> v_size pool < n" "v_size pool - v_off pool - v_buf pool < datsize" "pool' = vpool_shift pool"
    | (stay) "\<not> v_size pool < n" "\<not> v_size pool - v_off pool - v_buf pool < datsize" "pool' = pool"
    using res by (auto simp: vpool_resize_def n split: if_splits option.splits)
  then have "vpool_ok pool' \<and> contents pool' = contents pool \<and> v_off pool' = v_off pool \<and> room_for pool' datsize \<and>
      v_blksize pool' = v_blksize pool \<and> v_limit pool' = v_limit pool"
  proof cases
    case grow
    have b: "length b = unat n" using ok(2) grow(2) by (simp add: malloc_ok_def)
    have le: "unat (v_off pool) + unat datsize \<le> unat n" "n \<le> v_limit pool"
      using ex grow(1) lim by (auto simp: split: if_splits)
    then show ?thesis
      using grow(3) b len ok(1) by (simp add: vpool_ok_def contents_def room_for_def)
  next
    case move
    then have "unat (v_off pool) + unat datsize \<le> unat (v_size pool)"
      using ex by (auto simp: word_less_nat_alt word_le_nat_alt split: if_splits)
    then show ?thesis using move(3) vpool_shift_ok [OF ok(1)] by (simp add: room_for_def)
  next
    case stay
    have "unat (v_size pool - v_off pool - v_buf pool) = unat (v_size pool) - unat (v_off pool) - unat (v_buf pool)"
      using off by (simp add: unat_sub word_le_nat_alt)
    then show ?thesis using stay off ok(1) by (simp add: room_for_def word_less_nat_alt)
  qed
  then show "vpool_ok pool'" "contents pool' = contents pool" "v_off pool' = v_off pool" "room_for pool' datsize"
    "v_blksize pool' = v_blksize pool" "v_limit pool' = v_limit pool" by simp_all
qed

text \<open>It fails only past the limit or when there is no memory, and then changes nothing.\<close>

lemma vpool_resize_error:
  assumes "vpool_ok pool" "unat datsize + unat (v_blksize pool) < 2 ^ 64"
    and "vpool_resize malloc pool datsize = (Some e, pool')"
  shows "pool' = pool" "e = EFBIG \<and> unat (v_limit pool) < unat (v_off pool) + unat datsize \<or> e = ENOMEM \<and> (\<exists>n. malloc n = None)"
  using assms(3) vpool_new_size_exact [OF assms(1,2)]
  by (auto simp: vpool_resize_def split: sum.splits if_splits option.splits)

lemma copy_in_block:
  "pos + length data \<le> length b \<Longrightarrow> copy_in (Some b) pos data = Some (Some (take pos b @ data @ drop (pos + length data) b))"
  by (auto simp: copy_in_def)

lemma room_no_wrap:
  assumes "room_for pool datsize"
  shows "unat (v_off pool + datsize) = unat (v_off pool) + unat datsize"
  using assms unat_lt2p_64 [of "v_size pool"] by (intro unat_plus_no_wrap) (simp add: room_for_def)

lemma clip_le: "unat (clip pool at) \<le> unat (v_off pool)" "unat (clip pool at) = min (unat at) (unat (v_off pool))"
  by (auto simp: clip_def word_less_nat_alt)

text \<open>Moving the tail behind the gap leaves the two parts around it.\<close>

lemma make_room_ok:
  assumes "vpool_ok pool" "room_for pool datsize" "v_basebuf pool = Some b"
  obtains b' gap where "make_room pool (clip pool at) datsize = Some (Some b')" "length b' = length b" "length gap = unat datsize"
    "take (unat (v_buf pool)) b' = take (unat (v_buf pool)) b"
    "take (unat (v_off pool) + unat datsize) (drop (unat (v_buf pool)) b') =
      take (unat (clip pool at)) (contents pool) @ gap @ drop (unat (clip pool at)) (contents pool)"
proof -
  define p k d where "p = unat (v_buf pool)" and "k = unat (clip pool at)" and "d = unat datsize"
  define c where "c = contents pool"
  have len: "length c = unat (v_off pool)" "length b = unat (v_size pool)"
    using length_contents [OF assms(1)] assms(1,3) by (simp_all add: c_def vpool_ok_def)
  have k: "k \<le> length c" using clip_le(1) [of pool at] len by (simp add: k_def)
  have rm: "p + length c + d \<le> length b" using assms(2) len by (simp add: room_for_def p_def d_def)
  define b' where "b' = take (p + k + d) b @ drop k c @ drop (p + d + length c) b"
  have c: "c = take (length c) (drop p b)" unfolding len(1) using assms(3) by (simp add: c_def contents_def p_def)
  have "make_room pool (clip pool at) datsize = Some (Some b')"
    using k rm assms(3) by (simp add: make_room_def copy_in_block b'_def p_def [symmetric] k_def [symmetric] d_def [symmetric] c_def [symmetric] ac_simps)
  moreover have "length b' = length b" using k rm by (simp add: b'_def)
  moreover have "take p b' = take p b" using rm by (simp add: b'_def)
  moreover have "take (length c + d) (drop p b') = take k c @ take d (drop (p + k) b) @ drop k c"
  proof -
    have "take (k + d) (drop p b) = take k (drop p b) @ take d (drop (p + k) b)"
      by (simp only: take_add [of k d] drop_drop add.commute [of k p])
    moreover have "take k c = take k (drop p b)" using arg_cong [OF c, of "take k"] k by simp
    ultimately show ?thesis using k rm by (simp add: b'_def drop_take)
  qed
  ultimately show thesis
    using that [of b' "take d (drop (p + k) b)"] rm k len by (simp add: p_def k_def d_def c_def)
qed

lemma copy_gap:
  assumes "length b = length b'" "p + k + length data \<le> length b" "length gap = length data"
    and "take n (drop p b) = x @ gap @ y" "length x = k"
  shows "take n (drop p (take (p + k) b @ data @ drop (p + k + length data) b)) = x @ data @ y"
proof -
  have n: "k + length data \<le> n"
    using arg_cong [OF assms(4), of length] assms(3,5) by (simp add: min_def split: if_splits)
  have "take k (drop p b) = x" "drop (k + length data) (take n (drop p b)) = y"
    using arg_cong [OF assms(4), of "take k"] arg_cong [OF assms(4), of "drop (k + length data)"] n assms(3,5) by simp_all
  then show ?thesis using n assms(2,5) by (simp add: drop_take ac_simps)
qed

text \<open>Insertion into the pool is insertion into the list of its bytes.\<close>

lemma vpool_insert_ok:
  assumes ok: "vpool_ok pool" "malloc_ok malloc" and fits: "length data + unat (v_blksize pool) < 2 ^ 64"
    and res: "vpool_resize malloc pool (of_nat (length data)) = (None, pool1)"
  obtains ret pool' where "vpool_insert malloc pool at data = Some (ret, pool')" "vpool_ok pool'"
    "contents pool' = take (unat at) (contents pool) @ data @ drop (unat at) (contents pool)"
    "v_blksize pool' = v_blksize pool" "v_limit pool' = v_limit pool" "v_lasterr pool' = None"
    "ret = None \<longrightarrow> contents pool' = []"
proof -
  define datsize where "datsize = (of_nat (length data) :: u64)"
  have d: "unat datsize = length data" using fits by (simp add: datsize_def unat_of_nat take_bit_nat_eq_self)
  have res': "vpool_resize malloc pool datsize = (None, pool1)" using res by (simp add: datsize_def)
  note r = vpool_resize_ok [OF ok _ res', unfolded d, OF fits]
  note len = length_contents [OF ok(1)]
  show thesis
  proof (cases "v_basebuf pool1")
    case None
    then have z: "length data = 0" "v_off pool1 = 0" "contents pool = []"
      using r d by (auto simp: vpool_ok_def room_for_def contents_def)
    then have "vpool_insert malloc pool at data = Some (None, pool1\<lparr>v_lasterr := None\<rparr>)"
      using res None by (simp add: vpool_insert_def make_room_def copy_in_def contents_def clip_def Let_def split: if_splits)
    moreover have "vpool_ok (pool1\<lparr>v_lasterr := None\<rparr>)" "contents (pool1\<lparr>v_lasterr := None\<rparr>) = contents pool1"
      using r(1) by (simp_all add: vpool_ok_def contents_def split: option.splits)
    ultimately show thesis using r(2,5,6) z by (intro that [of None "pool1\<lparr>v_lasterr := None\<rparr>"]) simp_all
  next
    case (Some b)
    let ?k = "unat (clip pool1 at)" and ?p = "unat (v_buf pool1)"
    obtain b' gap where m: "make_room pool1 (clip pool1 at) datsize = Some (Some b')" "length b' = length b" "length gap = length data"
      "take (unat (v_off pool1) + length data) (drop ?p b') = take ?k (contents pool1) @ gap @ drop ?k (contents pool1)"
      using make_room_ok [OF r(1,4) Some, of at] by (metis d)
    have k: "?k \<le> unat (v_off pool1)" by (rule clip_le)
    have rm: "?p + unat (v_off pool1) + length data \<le> length b" "length b = unat (v_size pool1)"
      using r(1,4) Some d by (simp_all add: room_for_def vpool_ok_def)
    let ?b = "take (?p + ?k) b' @ data @ drop (?p + ?k + length data) b'"
    have ci: "copy_in (Some b') (?p + ?k) data = Some (Some ?b)" using k rm m(2) by (simp add: copy_in_block)
    define pool' where "pool' = pool1\<lparr>v_basebuf := Some ?b, v_off := v_off pool1 + datsize, v_lasterr := None\<rparr>"
    have ins: "vpool_insert malloc pool at data = Some (Some (?p + ?k), pool')"
      using res' m(1) ci by (simp add: vpool_insert_def Let_def datsize_def [symmetric] pool'_def)
    have off: "unat (v_off pool1 + datsize) = unat (v_off pool1) + length data" using room_no_wrap [OF r(4)] d by simp
    have lenc: "length (contents pool1) = unat (v_off pool1)" by (rule length_contents [OF r(1)])
    have "contents pool' = take ?k (contents pool1) @ data @ drop ?k (contents pool1)"
      using copy_gap [OF m(2) _ m(3,4), of ?k] k rm m(2) lenc
      by (simp add: pool'_def contents_def off)
    moreover have "vpool_ok pool'"
      using r(1) Some rm m(2) k off by (simp add: vpool_ok_def pool'_def)
    moreover have "take ?k (contents pool) = take (unat at) (contents pool)" "drop ?k (contents pool) = drop (unat at) (contents pool)"
      using lenc r(2) by (simp_all add: clip_le(2) min_def)
    ultimately show thesis using r(2,5,6) by (intro that [OF ins]) (simp_all add: pool'_def)
  qed
qed

text \<open>An expansion opens a gap of that size; its bytes are not specified.\<close>

lemma vpool_expand_ok:
  assumes ok: "vpool_ok pool" "malloc_ok malloc" and fits: "unat datsize + unat (v_blksize pool) < 2 ^ 64"
    and res: "vpool_resize malloc pool datsize = (None, pool1)"
  obtains ret pool' gap where "vpool_expand malloc pool at datsize = Some (ret, pool')" "vpool_ok pool'"
    "contents pool' = take (unat at) (contents pool) @ gap @ drop (unat at) (contents pool)" "length gap = unat datsize"
proof -
  note r = vpool_resize_ok [OF ok fits res]
  show thesis
  proof (cases "v_basebuf pool1")
    case None
    then have z: "datsize = 0" "v_off pool1 = 0" "contents pool = []"
      using r by (auto simp: vpool_ok_def room_for_def contents_def unat_eq_zero)
    then have "vpool_expand malloc pool at datsize = Some (None, pool1\<lparr>v_lasterr := None\<rparr>)"
      using res None by (simp add: vpool_expand_def make_room_def copy_in_def contents_def clip_def Let_def split: if_splits)
    moreover have "vpool_ok (pool1\<lparr>v_lasterr := None\<rparr>)" "contents (pool1\<lparr>v_lasterr := None\<rparr>) = contents pool1"
      using r(1) by (simp_all add: vpool_ok_def contents_def split: option.splits)
    ultimately show thesis using r(2) z by (intro that [of None "pool1\<lparr>v_lasterr := None\<rparr>" "[]"]) simp_all
  next
    case (Some b)
    let ?k = "unat (clip pool1 at)" and ?p = "unat (v_buf pool1)"
    obtain b' gap where m: "make_room pool1 (clip pool1 at) datsize = Some (Some b')" "length b' = length b" "length gap = unat datsize"
      "take (unat (v_off pool1) + unat datsize) (drop ?p b') = take ?k (contents pool1) @ gap @ drop ?k (contents pool1)"
      using make_room_ok [OF r(1,4) Some, of at] by metis
    define pool' where "pool' = pool1\<lparr>v_basebuf := Some b', v_off := v_off pool1 + datsize, v_lasterr := None\<rparr>"
    have ins: "vpool_expand malloc pool at datsize = Some (Some (?p + ?k), pool')"
      using res m(1) by (simp add: vpool_expand_def Let_def pool'_def)
    note off = room_no_wrap [OF r(4)] and lenc = length_contents [OF r(1)]
    have "contents pool' = take ?k (contents pool) @ gap @ drop ?k (contents pool)"
      using m(4) r(2) by (simp add: pool'_def contents_def off)
    moreover have "vpool_ok pool'" using r(1,4) Some m(2) by (simp add: vpool_ok_def pool'_def room_for_def off)
    moreover have "take ?k (contents pool) = take (unat at) (contents pool)" "drop ?k (contents pool) = drop (unat at) (contents pool)"
      using lenc r(2) by (simp_all add: clip_le(2) min_def)
    ultimately show thesis using m(3) by (intro that [OF ins]) simp_all
  qed
qed

text \<open>Truncation removes the range, or keeps only it, when the data contain it.\<close>

lemma vpool_truncate_ok:
  assumes ok: "vpool_ok pool" and res: "vpool_truncate pool at datsize how = (None, pool')"
  shows "vpool_ok pool'" "contents pool' =
    (let c = contents pool; n = unat at; k = unat datsize
     in case how of VPOOL_EXCLUDE \<Rightarrow> take n c @ drop (n + k) c | VPOOL_INCLUDE \<Rightarrow> take k (drop n c))"
proof -
  have rng: "\<not> v_off pool \<le> at" "\<not> v_off pool < datsize" "\<not> v_off pool - datsize < at"
    using res by (auto simp: vpool_truncate_def split: if_splits)
  have le: "unat at + unat datsize \<le> unat (v_off pool)" "unat at < unat (v_off pool)"
    using rng by (auto simp: word_le_nat_alt word_less_nat_alt unat_sub)
  then have nz: "v_off pool \<noteq> 0" by auto
  then obtain b where b: "v_basebuf pool = Some b" using ok by (auto simp: vpool_ok_def split: option.splits)
  let ?p = "unat (v_buf pool)"
  have sz: "length b = unat (v_size pool)" "?p + unat (v_off pool) \<le> unat (v_size pool)" using ok b by (simp_all add: vpool_ok_def)
  have sub: "unat (v_off pool - datsize) = unat (v_off pool) - unat datsize"
    using rng(2) by (simp add: unat_sub not_less)
  have add: "unat (v_buf pool + x) = ?p + unat x" if "unat x \<le> unat (v_off pool)" for x
    using that sz(2) unat_lt2p_64 [of "v_size pool"] by (intro unat_plus_no_wrap) simp
  note len = length_contents [OF ok]
  have "vpool_ok pool' \<and> contents pool' =
    (let c = contents pool; n = unat at; k = unat datsize
     in case how of VPOOL_EXCLUDE \<Rightarrow> take n c @ drop (n + k) c | VPOOL_INCLUDE \<Rightarrow> take k (drop n c))"
  proof (cases how)
    case VPOOL_INCLUDE
    then show ?thesis using res rng b ok le sz add [of at]
      by (auto simp: vpool_truncate_def vpool_ok_def contents_def Let_def drop_take min_def ac_simps)
  next
    case VPOOL_EXCLUDE
    show ?thesis
    proof (cases "at = 0")
      case True
      then show ?thesis using VPOOL_EXCLUDE res rng b ok le sz add [of datsize] sub
        by (auto simp: vpool_truncate_def vpool_ok_def contents_def Let_def drop_take ac_simps)
    next
      case False
      let ?c = "drop (unat at + unat datsize) (contents pool)"
      have eq: "pool' = pool\<lparr>v_basebuf := Some (take (?p + unat at) b @ ?c @ drop (?p + unat at + length ?c) b),
          v_off := v_off pool - datsize, v_lasterr := None\<rparr>"
        using False VPOOL_EXCLUDE res rng b by (simp add: vpool_truncate_def Let_def)
      have "take (unat at) (contents pool) = take (unat at) (drop ?p b)" using b le by (simp add: contents_def)
      moreover have "unat (v_off pool) - unat datsize = unat at + length ?c" using len le by simp
      moreover have "contents pool' = take (unat (v_off pool) - unat datsize)
          (drop ?p (take (?p + unat at) b @ ?c @ drop (?p + unat at + length ?c) b))"
        using sub by (simp add: eq contents_def [of "_ :: vpool"])
      ultimately have "contents pool' = take (unat at) (contents pool) @ ?c" using sz le by (simp add: drop_take)
      moreover have "vpool_ok pool'" unfolding eq using ok b le sz sub len by (simp add: vpool_ok_def)
      ultimately show ?thesis by (simp add: VPOOL_EXCLUDE Let_def)
    qed
  qed
  then show "vpool_ok pool'" "contents pool' =
    (let c = contents pool; n = unat at; k = unat datsize
     in case how of VPOOL_EXCLUDE \<Rightarrow> take n c @ drop (n + k) c | VPOOL_INCLUDE \<Rightarrow> take k (drop n c))" by simp_all
qed

lemma vpool_insert_error:
  assumes "vpool_ok pool" "length data + unat (v_blksize pool) < 2 ^ 64"
    and "vpool_resize malloc pool (of_nat (length data)) = (Some e, pool1)"
  shows "vpool_insert malloc pool at data = Some (None, pool\<lparr>v_lasterr := Some e\<rparr>)"
    "e = EFBIG \<and> unat (v_limit pool) < unat (v_off pool) + length data \<or> e = ENOMEM \<and> (\<exists>n. malloc n = None)"
proof -
  have d: "unat (of_nat (length data) :: u64) = length data" using assms(2) by (simp add: unat_of_nat take_bit_nat_eq_self)
  note err = vpool_resize_error [OF assms(1) _ assms(3), unfolded d, OF assms(2)]
  show "vpool_insert malloc pool at data = Some (None, pool\<lparr>v_lasterr := Some e\<rparr>)"
    using assms(3) err(1) by (simp add: vpool_insert_def Let_def)
  show "e = EFBIG \<and> unat (v_limit pool) < unat (v_off pool) + length data \<or> e = ENOMEM \<and> (\<exists>n. malloc n = None)"
    by (rule err(2))
qed

text \<open>
  The padding to a multiple of the block size is added to the requested size without a check:
  for a request near \<open>2 ^ 64\<close> the sum wraps, passes the comparison with the limit, and the
  expansion succeeds in a block of 1000 bytes that it leaves as it is.
\<close>

lemma vpool_expand_wraps:
  "vpool_ok \<lparr>v_basebuf = Some (replicate 1000 0), v_buf = 0, v_off = 5, v_size = 1000, v_blksize = 1000, v_limit = - 1, v_lasterr = None\<rparr>"
  "vpool_expand (\<lambda>n. None)
     \<lparr>v_basebuf = Some (replicate 1000 0), v_buf = 0, v_off = 5, v_size = 1000, v_blksize = 1000, v_limit = - 1, v_lasterr = None\<rparr> 5 (- 6)
   = Some (Some 5,
     \<lparr>v_basebuf = Some (replicate 1000 0), v_buf = 0, v_off = - 1, v_size = 1000, v_blksize = 1000, v_limit = - 1, v_lasterr = None\<rparr>)"
  by (simp_all add: vpool_ok_def vpool_expand_def vpool_resize_def vpool_new_size_def vpool_shift_def clip_def make_room_def
      contents_def copy_in_def Let_def)

end
