(* ===== verification/Secret_Pool.thy ===== *)
theory Secret_Pool
  imports Ratcheting_Session Vpool
begin

text \<open>
  How \<^verbatim>\<open>ratcheting_session_alice_initialize\<close> and \<^verbatim>\<open>ratcheting_session_bob_initialize\<close> collect
  the secret: in a \<^verbatim>\<open>vpool\<close> of block size 1024, one \<^verbatim>\<open>vpool_insert\<close> at its end per agreement.
  The locale \<open>byte_pool\<close> is what they rely on, and in it the collected secret is the one of the
  functions \<open>agreements\<close> over byte lists, unless memory runs out.
\<close>

section \<open>Collecting bytes\<close>

fun collect :: "('s \<Rightarrow> bytes \<Rightarrow> 's result) \<Rightarrow> signal_context \<Rightarrow> (ec_public_key \<times> ec_private_key) list \<Rightarrow> 's \<Rightarrow> 's result" where
  "collect add_part G [] pool = Inr pool"
| "collect add_part G ((pk, sk) # ks) pool =
     (case curve_calculate_agreement G (Some pk) (Some sk) of Inl e \<Rightarrow> Inl e
      | Inr agreement \<Rightarrow>
         (case add_part pool agreement of Inl e \<Rightarrow> Inl e | Inr pool' \<Rightarrow> collect add_part G ks pool'))"

definition vpool_append :: "allocator \<Rightarrow> vpool \<Rightarrow> bytes \<Rightarrow> vpool result" where
  "vpool_append malloc pool data =
     (case vpool_insert malloc pool (v_off pool) data of
        None \<Rightarrow> Inl C_UNDEFINED
      | Some (None, _) \<Rightarrow> Inl SG_ERR_NOMEM
      | Some (Some _, pool') \<Rightarrow> Inr pool')"

definition collect_secret :: "allocator \<Rightarrow> signal_context \<Rightarrow> (ec_public_key \<times> ec_private_key) list \<Rightarrow> bytes result" where
  "collect_secret malloc G ks =
     (case vpool_append malloc (vpool_init 1024 0) discontinuity_data of Inl e \<Rightarrow> Inl e
      | Inr pool \<Rightarrow>
         (case collect (vpool_append malloc) G ks pool of Inl e \<Rightarrow> Inl e
          | Inr pool' \<Rightarrow> if v_off pool' = 0 then Inl SG_ERR_UNKNOWN else Inr (contents pool')))"

section \<open>The interface\<close>

locale byte_pool =
  fixes mem_ok :: "'m \<Rightarrow> bool"
    and mem_total :: "'m \<Rightarrow> bool"
    and pool_ok :: "'s \<Rightarrow> bool"
    and capacity :: nat
    and bytes_of :: "'s \<Rightarrow> bytes"
    and add_part :: "'m \<Rightarrow> 's \<Rightarrow> bytes \<Rightarrow> 's result"
  assumes add_part_appends: "mem_ok m \<Longrightarrow> pool_ok s \<Longrightarrow> length (bytes_of s) + length data \<le> capacity \<Longrightarrow> data \<noteq> [] \<Longrightarrow>
      add_part m s data = Inl SG_ERR_NOMEM \<or> (\<exists>s'. add_part m s data = Inr s' \<and> pool_ok s' \<and> bytes_of s' = bytes_of s @ data)"
    and add_part_total: "mem_ok m \<Longrightarrow> mem_total m \<Longrightarrow> pool_ok s \<Longrightarrow> length (bytes_of s) + length data \<le> capacity \<Longrightarrow> data \<noteq> [] \<Longrightarrow>
      add_part m s data \<noteq> Inl SG_ERR_NOMEM"
begin

text \<open>Agreements of 32 bytes each are collected as the concatenation, or memory runs out.\<close>

lemma collect_agreements:
  assumes "mem_ok m" "\<forall>(pk, sk) \<in> set ks. \<forall>out. curve_calculate_agreement G (Some pk) (Some sk) = Inr out \<longrightarrow> length out = 32"
    and "pool_ok s" "length (bytes_of s) + 32 * length ks \<le> capacity"
  shows "\<not> mem_total m \<and> collect (add_part m) G ks s = Inl SG_ERR_NOMEM \<or>
    (case collect (add_part m) G ks s of Inl e \<Rightarrow> agreements G ks (bytes_of s) = Inl e
     | Inr s' \<Rightarrow> pool_ok s' \<and> agreements G ks (bytes_of s) = Inr (bytes_of s'))"
  using assms(2-4)
proof (induction ks arbitrary: s)
  case (Cons k ks)
  obtain pk sk where k: "k = (pk, sk)" by (cases k)
  show ?case
  proof (cases "curve_calculate_agreement G (Some pk) (Some sk)")
    case (Inl e)
    then show ?thesis by (simp add: k)
  next
    case (Inr out)
    then have out: "length out = 32" using Cons.prems(1) by (auto simp: k)
    then have ne: "out \<noteq> []" by auto
    then have cap: "length (bytes_of s) + length out \<le> capacity" using Cons.prems out by simp
    show ?thesis
      using add_part_appends [OF assms(1) Cons.prems(2) cap ne]
    proof (elim disjE exE conjE)
      assume n: "add_part m s out = Inl SG_ERR_NOMEM"
      then have "\<not> mem_total m" using add_part_total [OF assms(1) _ Cons.prems(2) cap ne] by blast
      then show ?thesis using n Inr by (simp add: k)
    next
      fix s' assume s': "add_part m s out = Inr s'" "pool_ok s'" "bytes_of s' = bytes_of s @ out"
      have eqs: "agreements G (k # ks) (bytes_of s) = agreements G ks (bytes_of s')" "collect (add_part m) G (k # ks) s = collect (add_part m) G ks s'"
        using s' Inr by (simp_all add: k)
      have "length (bytes_of s') + 32 * length ks \<le> capacity" using Cons.prems(3) s'(3) out by simp
      then show ?thesis unfolding eqs using Cons.prems(1) by (intro Cons.IH [OF _ s'(2)]) auto
    qed
  qed
qed (use assms in simp)

end

section \<open>The pool of the key agreement\<close>

definition secret_pool_ok :: "vpool \<Rightarrow> bool" where
  "secret_pool_ok pool \<longleftrightarrow> vpool_ok pool \<and> v_blksize pool = 1024 \<and> v_limit pool = - 1"

definition malloc_total :: "allocator \<Rightarrow> bool" where
  "malloc_total malloc \<longleftrightarrow> (\<forall>n. malloc n \<noteq> None)"

lemma vpool_append_ok:
  assumes "malloc_ok malloc" "secret_pool_ok pool" "length (contents pool) + length data \<le> 2 ^ 63" "data \<noteq> []"
  shows "(\<exists>n. malloc n = None) \<and> vpool_append malloc pool data = Inl SG_ERR_NOMEM \<or>
    (\<exists>pool'. vpool_append malloc pool data = Inr pool' \<and> secret_pool_ok pool' \<and> contents pool' = contents pool @ data)"
proof -
  have ok: "vpool_ok pool" "v_blksize pool = 1024" "v_limit pool = - 1" using assms(2) by (simp_all add: secret_pool_ok_def)
  have fits: "length data + unat (v_blksize pool) < 2 ^ 64" using assms(3) ok by simp
  obtain r pool1 where r: "vpool_resize malloc pool (of_nat (length data)) = (r, pool1)" by fastforce
  note len = length_contents [OF ok(1)]
  show ?thesis
  proof (cases r)
    case (Some e)
    note err = vpool_insert_error [OF ok(1) fits r [unfolded Some]]
    have "unat (v_limit pool) = 2 ^ 64 - 1" using ok(3) by (simp add: unsigned_minus_1_eq_mask mask_eq_exp_minus_1)
    then have "\<exists>n. malloc n = None" using err(2) assms(3) len by auto
    then show ?thesis using err(1) by (simp add: vpool_append_def)
  next
    case None
    obtain ret pool' where ins: "vpool_insert malloc pool (v_off pool) data = Some (ret, pool')" "vpool_ok pool'"
      "contents pool' = contents pool @ data" "v_blksize pool' = v_blksize pool" "v_limit pool' = v_limit pool"
      "ret = None \<longrightarrow> contents pool' = []"
      using vpool_insert_ok [OF ok(1) assms(1) fits r [unfolded None], of "v_off pool"] len by (metis append_Nil2 drop_all order_refl take_all)
    then obtain p where "ret = Some p" using assms(4) by (cases ret) auto
    then show ?thesis using ins ok by (auto simp: vpool_append_def secret_pool_ok_def)
  qed
qed

interpretation secret_pool: byte_pool malloc_ok malloc_total secret_pool_ok "2 ^ 63" contents vpool_append
proof unfold_locales
  fix malloc pool and data :: bytes
  assume "malloc_ok malloc" "secret_pool_ok pool" "length (contents pool) + length data \<le> 2 ^ 63" "data \<noteq> []"
  from vpool_append_ok [OF this]
  show "vpool_append malloc pool data = Inl SG_ERR_NOMEM \<or>
      (\<exists>pool'. vpool_append malloc pool data = Inr pool' \<and> secret_pool_ok pool' \<and> contents pool' = contents pool @ data)"
    and "malloc_total malloc \<Longrightarrow> vpool_append malloc pool data \<noteq> Inl SG_ERR_NOMEM"
    by (auto simp: malloc_total_def) (metis option.distinct(1))
qed

lemma secret_pool_init: "secret_pool_ok (vpool_init 1024 0)" "contents (vpool_init 1024 0) = []"
  using vpool_init_ok [of 1024 0] by (simp_all add: secret_pool_ok_def vpool_init_def)

lemma agreements_nonempty: "agreements G ks acc = Inr out \<Longrightarrow> length acc \<le> length out"
  by (induction G ks acc rule: agreements.induct) (auto simp: result_simps dest: le_trans [rotated])

lemma collect_secret_ok:
  assumes "malloc_ok malloc" "\<forall>(pk, sk) \<in> set ks. \<forall>out. curve_calculate_agreement G (Some pk) (Some sk) = Inr out \<longrightarrow> length out = 32"
    and "length ks \<le> 4"
  shows "\<not> malloc_total malloc \<and> collect_secret malloc G ks = Inl SG_ERR_NOMEM \<or>
    collect_secret malloc G ks = agreements G ks discontinuity_data"
proof -
  have d: "length discontinuity_data = 32" "discontinuity_data \<noteq> []" by (simp_all add: discontinuity_data_def)
  consider (nomem) "\<not> malloc_total malloc" "vpool_append malloc (vpool_init 1024 0) discontinuity_data = Inl SG_ERR_NOMEM"
    | (pool) pool where "vpool_append malloc (vpool_init 1024 0) discontinuity_data = Inr pool" "secret_pool_ok pool"
      "contents pool = discontinuity_data"
    using vpool_append_ok [OF assms(1) secret_pool_init(1), of discontinuity_data] d secret_pool_init(2)
    by (auto simp: malloc_total_def)
  then show ?thesis
  proof cases
    case nomem
    then show ?thesis by (simp add: collect_secret_def)
  next
    case pool
    have "length (contents pool) + 32 * length ks \<le> 2 ^ 63" using pool(3) d assms(3) by simp
    from secret_pool.collect_agreements [OF assms(1,2) pool(2) this] show ?thesis
    proof (elim disjE conjE)
      assume "\<not> malloc_total malloc" "collect (vpool_append malloc) G ks pool = Inl SG_ERR_NOMEM"
      then show ?thesis using pool(1) by (simp add: collect_secret_def)
    next
      assume c: "case collect (vpool_append malloc) G ks pool of Inl e \<Rightarrow> agreements G ks (contents pool) = Inl e
        | Inr pool' \<Rightarrow> secret_pool_ok pool' \<and> agreements G ks (contents pool) = Inr (contents pool')"
      have "v_off pool' \<noteq> 0" if "collect (vpool_append malloc) G ks pool = Inr pool'" for pool'
      proof -
        have "vpool_ok pool'" "32 \<le> length (contents pool')"
          using c that pool(3) d agreements_nonempty [of G ks discontinuity_data "contents pool'"] by (auto simp: secret_pool_ok_def)
        then show ?thesis using length_contents [of pool'] by auto
      qed
      then show ?thesis using c pool by (auto simp: collect_secret_def split: sum.splits)
    qed
  qed
qed

end
