(* ===== verification/Buffers.thy ===== *)
theory Buffers
  imports Key_Exchange Secret_Pool
begin

text \<open>
  Objects in memory of \<^verbatim>\<open>signal_protocol.c\<close>: reference counts, byte buffers with the overflow
  checks of their sizes, the lists of buffers and integers handed to the application, and the
  set-up of the two contexts.  Everywhere else in the development a buffer is the list of its
  bytes and a reference is the object; this theory justifies it.
\<close>

section \<open>Reference counts\<close>

text \<open>
  The heap maps the address of an object to its base.  The destructor is a function pointer;
  what it does to the heap is the argument \<open>code\<close>.  A failed assertion and the use of a freed
  object are \<open>C_UNDEFINED\<close>.
\<close>

record signal_type_base =
  ref_count :: u32
  destroy :: u64

type_synonym object_heap = "nat \<Rightarrow> signal_type_base option"
type_synonym destructors = "u64 \<Rightarrow> nat \<Rightarrow> object_heap \<Rightarrow> object_heap result"

definition signal_type_init :: "nat \<Rightarrow> u64 \<Rightarrow> object_heap \<Rightarrow> object_heap" where
  "signal_type_init instance' destroy_func h = h(instance' \<mapsto> \<lparr>ref_count = 1, destroy = destroy_func\<rparr>)"

definition signal_type_ref :: "nat \<Rightarrow> object_heap \<Rightarrow> object_heap result" where
  "signal_type_ref instance' h =
     (case h instance' of None \<Rightarrow> Inl C_UNDEFINED
      | Some b \<Rightarrow> if \<not> 0 < ref_count b then Inl C_UNDEFINED else Inr (h(instance' \<mapsto> b\<lparr>ref_count := ref_count b + 1\<rparr>)))"

definition signal_type_unref :: "destructors \<Rightarrow> nat option \<Rightarrow> object_heap \<Rightarrow> object_heap result" where
  "signal_type_unref code instance' h =
     (case instance' of None \<Rightarrow> Inr h
      | Some a \<Rightarrow>
         (case h a of None \<Rightarrow> Inl C_UNDEFINED
          | Some b \<Rightarrow>
             if \<not> 0 < ref_count b then Inl C_UNDEFINED
             else if 1 < ref_count b then Inr (h(a \<mapsto> b\<lparr>ref_count := ref_count b - 1\<rparr>))
             else code (destroy b) a h))"

text \<open>The owners of an object: each event takes a reference or gives one up.\<close>

datatype ownership = Take | Release

fun run_ownership :: "destructors \<Rightarrow> nat \<Rightarrow> ownership list \<Rightarrow> object_heap \<Rightarrow> object_heap result" where
  "run_ownership code a [] h = Inr h"
| "run_ownership code a (e # es) h =
     (case (case e of Take \<Rightarrow> signal_type_ref a h | Release \<Rightarrow> signal_type_unref code (Some a) h) of
        Inl err \<Rightarrow> Inl err | Inr h' \<Rightarrow> run_ownership code a es h')"

text \<open>
  \<open>owners n es\<close> counts the owners left when \<open>n\<close> owners act as in \<open>es\<close>: \<open>None\<close> as soon as one acts
  although no reference is left, or the count would not fit.
\<close>

fun owners :: "nat \<Rightarrow> ownership list \<Rightarrow> nat option" where
  "owners n [] = (if 0 < n then Some n else None)"
| "owners n (Take # es) = (if 0 < n \<and> n + 1 < 2 ^ 32 then owners (n + 1) es else None)"
| "owners n (Release # es) = (if 1 < n then owners (n - 1) es else if n = 1 \<and> es = [] then Some 0 else None)"

lemma unat_ref_count: "unat (x :: u32) + 1 < 2 ^ 32 \<Longrightarrow> unat (x + 1) = unat x + 1"
  by (simp add: unat_word_ariths)

lemma run_ownership_owners:
  assumes "h a = Some b" "owners (unat (ref_count b)) es = Some m"
  shows "if m = 0 then run_ownership code a es h = code (destroy b) a (h(a \<mapsto> b\<lparr>ref_count := 1\<rparr>))
    else \<exists>b'. run_ownership code a es h = Inr (h(a \<mapsto> b')) \<and> unat (ref_count b') = m \<and> destroy b' = destroy b"
  using assms
proof (induction es arbitrary: h b)
  case (Cons e es)
  note step = Cons.IH [where h = "h(a \<mapsto> b\<lparr>ref_count := _\<rparr>)", simplified]
  show ?case
  proof (cases e)
    case Take
    then have n: "0 < ref_count b" "unat (ref_count b + 1) = unat (ref_count b) + 1" "owners (unat (ref_count b + 1)) es = Some m"
      using Cons.prems by (auto simp: unat_ref_count word_less_nat_alt split: if_splits)
    then show ?thesis using step [of "ref_count b + 1"] Take Cons.prems(1) by (cases "m = 0") (simp_all add: signal_type_ref_def fun_upd_upd del: fun_upd_apply)
  next
    case Release
    show ?thesis
    proof (cases "1 < unat (ref_count b)")
      case True
      then have n: "unat (ref_count b - 1) = unat (ref_count b) - 1" "1 < ref_count b" "0 < ref_count b"
        by (auto simp: unat_sub word_le_nat_alt word_less_nat_alt)
      then show ?thesis
        using step [of "ref_count b - 1"] Release True Cons.prems by (cases "m = 0") (simp_all add: signal_type_unref_def fun_upd_upd del: fun_upd_apply)
    next
      case False
      then have n: "unat (ref_count b) = 1" "es = []" "m = 0" using Cons.prems Release by (auto split: if_splits)
      then have "ref_count b = 1" by (metis unat_1 word_unat_eq_iff)
      then have "h = h(a \<mapsto> b\<lparr>ref_count := 1\<rparr>)" using Cons.prems(1) by auto
      then show ?thesis using n \<open>ref_count b = 1\<close> Release Cons.prems(1) by (auto simp: signal_type_unref_def split: sum.splits)
    qed
  qed
next
  case Nil
  then have "h = h(a \<mapsto> b)" by auto
  moreover have "m = unat (ref_count b)" "m \<noteq> 0" using Nil by (auto split: if_splits)
  ultimately show ?case by (simp del: fun_upd_apply) blast
qed

section \<open>Byte buffers\<close>

lemma unat_of_nat_u64: "n < 2 ^ 64 \<Longrightarrow> unat (of_nat n :: u64) = n"
  by (simp add: unat_of_nat take_bit_nat_eq_self)

text \<open>
  A buffer object is its length field and the bytes allocated behind it; the header takes
  8 bytes.  The result of an operation is \<open>None\<close> when the program writes outside the object,
  and otherwise the pointer it returns.
\<close>

abbreviation SIZE_MAX :: u64 where "SIZE_MAX \<equiv> - 1"

definition signal_buffer_alloc :: "allocator \<Rightarrow> u64 \<Rightarrow> signal_buffer option" where
  "signal_buffer_alloc malloc len =
     (if (SIZE_MAX - 8) div 1 < len then None
      else case malloc (8 + 1 * len) of None \<Rightarrow> None
       | Some block \<Rightarrow> Some \<lparr>buf_len = len, buf_data = drop 8 block\<rparr>)"

definition signal_buffer_create :: "allocator \<Rightarrow> bytes \<Rightarrow> signal_buffer option option" where
  "signal_buffer_create malloc data =
     (case signal_buffer_alloc malloc (of_nat (length data)) of None \<Rightarrow> Some None
      | Some buffer \<Rightarrow>
         (case copy_in (Some (buf_data buffer)) 0 data of Some (Some d) \<Rightarrow> Some (Some (buffer\<lparr>buf_data := d\<rparr>)) | _ \<Rightarrow> None))"

definition signal_buffer_copy :: "allocator \<Rightarrow> signal_buffer \<Rightarrow> signal_buffer option option" where
  "signal_buffer_copy malloc buffer = signal_buffer_create malloc (take (unat (buf_len buffer)) (buf_data buffer))"

text \<open>\<^verbatim>\<open>realloc\<close> keeps the bytes of the old object up to the smaller of the two sizes.\<close>

definition signal_buffer_append :: "allocator \<Rightarrow> signal_buffer \<Rightarrow> bytes \<Rightarrow> signal_buffer option option" where
  "signal_buffer_append malloc buffer data =
     (let len = of_nat (length data);
          previous_size = buf_len buffer;
          previous_alloc = 8 + 1 * previous_size
      in if SIZE_MAX - previous_alloc < len then Some None
         else case malloc (previous_alloc + 1 * len) of None \<Rightarrow> Some None
          | Some block \<Rightarrow>
             (let fresh = drop 8 block;
                  kept = take (length fresh) (buf_data buffer) @ drop (length (buf_data buffer)) fresh
              in case copy_in (Some kept) (unat previous_size) data of
                   Some (Some d) \<Rightarrow> Some (Some \<lparr>buf_len = previous_size + len, buf_data = d\<rparr>)
                 | _ \<Rightarrow> None))"

text \<open>\<^verbatim>\<open>signal_explicit_bzero\<close>, the loop over a volatile pointer, and the release of a secret.\<close>

fun signal_explicit_bzero :: "bytes \<Rightarrow> nat \<Rightarrow> nat \<Rightarrow> bytes" where
  "signal_explicit_bzero v p 0 = v"
| "signal_explicit_bzero v p (Suc n) = signal_explicit_bzero (v[p := 0]) (Suc p) n"

definition signal_buffer_bzero_free :: "signal_buffer option \<Rightarrow> bytes option" where
  "signal_buffer_bzero_free buffer = map_option (\<lambda>b. signal_explicit_bzero (buf_data b) 0 (unat (buf_len b))) buffer"

definition buffer_ok :: "signal_buffer \<Rightarrow> bool" where
  "buffer_ok b \<longleftrightarrow> length (buf_data b) = unat (buf_len b) \<and> unat (buf_len b) + 8 < 2 ^ 64"

lemma buffer_ext: "buffer_ok b \<Longrightarrow> b = \<lparr>buf_len = of_nat (length (buf_data b)), buf_data = buf_data b\<rparr>"
  by (cases b) (simp add: buffer_ok_def)

lemma size_max_diff: "unat (SIZE_MAX - x) = 2 ^ 64 - 1 - unat (x :: u64)"
  by (simp add: unat_sub word_order.extremum unsigned_minus_1_eq_mask mask_eq_exp_minus_1)

lemma signal_buffer_create_ok:
  assumes "malloc_ok malloc" "length data < 2 ^ 64"
  shows "signal_buffer_create malloc data = Some None \<and> (2 ^ 64 \<le> length data + 8 \<or> malloc (of_nat (length data + 8)) = None) \<or>
    (\<exists>b. signal_buffer_create malloc data = Some (Some b) \<and> buffer_ok b \<and> buf_data b = data)"
proof -
  have d: "unat (of_nat (length data) :: u64) = length data" using assms(2) by (rule unat_of_nat_u64)
  have m: "unat (SIZE_MAX - 8 :: u64) = 2 ^ 64 - 9" by (simp add: size_max_diff)
  show ?thesis
  proof (cases "2 ^ 64 \<le> length data + 8")
    case True
    then have "SIZE_MAX - 8 < (of_nat (length data) :: u64)" unfolding word_less_nat_alt m d by simp
    then show ?thesis using True by (simp add: signal_buffer_create_def signal_buffer_alloc_def)
  next
    case False
    then have le: "\<not> SIZE_MAX - 8 < (of_nat (length data) :: u64)" unfolding word_less_nat_alt m d by simp
    have n: "unat (of_nat (length data + 8) :: u64) = length data + 8" using False by (intro unat_of_nat_u64) simp
    show ?thesis
    proof (cases "malloc (of_nat (length data + 8))")
      case None
      then show ?thesis using le by (simp add: signal_buffer_create_def signal_buffer_alloc_def add.commute)
    next
      case (Some block)
      then have "length block = length data + 8" using assms(1) n unfolding malloc_ok_def by metis
      then have "signal_buffer_create malloc data = Some (Some \<lparr>buf_len = of_nat (length data), buf_data = data\<rparr>)"
        using Some le by (simp add: signal_buffer_create_def signal_buffer_alloc_def copy_in_block add.commute)
      then show ?thesis using False d by (auto simp: buffer_ok_def)
    qed
  qed
qed

lemma signal_buffer_append_ok:
  assumes "malloc_ok malloc" "buffer_ok b" "length data < 2 ^ 64"
  shows "signal_buffer_append malloc b data = Some None \<and>
      (2 ^ 64 \<le> length (buf_data b) + length data + 8 \<or> malloc (of_nat (length (buf_data b) + length data + 8)) = None) \<or>
    (\<exists>b'. signal_buffer_append malloc b data = Some (Some b') \<and> buffer_ok b' \<and> buf_data b' = buf_data b @ data)"
proof -
  have d: "unat (of_nat (length data) :: u64) = length data" using assms(3) by (rule unat_of_nat_u64)
  have b: "length (buf_data b) = unat (buf_len b)" "unat (buf_len b) + 8 < 2 ^ 64" using assms(2) by (simp_all add: buffer_ok_def)
  then have p: "unat (8 + buf_len b) = unat (buf_len b) + 8" by (subst unat_plus_no_wrap) simp_all
  have m: "unat (SIZE_MAX - (8 + buf_len b)) = 2 ^ 64 - 9 - unat (buf_len b)" unfolding size_max_diff p by simp
  show ?thesis
  proof (cases "2 ^ 64 \<le> length (buf_data b) + length data + 8")
    case True
    then have "SIZE_MAX - (8 + buf_len b) < of_nat (length data)" unfolding word_less_nat_alt m d using b by simp
    then show ?thesis using True by (simp add: signal_buffer_append_def Let_def)
  next
    case False
    then have le: "\<not> SIZE_MAX - (8 + buf_len b) < of_nat (length data)" unfolding word_less_nat_alt m d using b by simp
    have n: "unat (of_nat (length (buf_data b) + length data + 8) :: u64) = length (buf_data b) + length data + 8"
      using False by (intro unat_of_nat_u64) simp
    have w: "8 + buf_len b + of_nat (length data) = of_nat (length (buf_data b) + length data + 8)" by (simp add: b(1))
    show ?thesis
    proof (cases "malloc (of_nat (length (buf_data b) + length data + 8))")
      case None
      then show ?thesis using le w by (simp add: signal_buffer_append_def Let_def del: of_nat_add)
    next
      case (Some block)
      then have "length block = length (buf_data b) + length data + 8" using assms(1) n unfolding malloc_ok_def by metis
      then have "signal_buffer_append malloc b data = Some (Some \<lparr>buf_len = buf_len b + of_nat (length data), buf_data = buf_data b @ data\<rparr>)"
        using Some le w b(1) by (simp add: signal_buffer_append_def Let_def copy_in_block del: of_nat_add)
      moreover have "unat (buf_len b + of_nat (length data)) = length (buf_data b) + length data"
        using False b d by (subst unat_plus_no_wrap) simp_all
      ultimately show ?thesis using False d b by (auto simp: buffer_ok_def)
    qed
  qed
qed

text \<open>A copy of a well-formed buffer is the same buffer.\<close>

lemma signal_buffer_copy_ok:
  assumes "malloc_ok malloc" "buffer_ok b" "malloc (of_nat (length (buf_data b) + 8)) \<noteq> None"
  shows "signal_buffer_copy malloc b = Some (Some b)"
proof -
  have l: "length (buf_data b) = unat (buf_len b)" "unat (buf_len b) + 8 < 2 ^ 64" using assms(2) by (simp_all add: buffer_ok_def)
  then obtain c where "signal_buffer_create malloc (buf_data b) = Some (Some c)" "buffer_ok c" "buf_data c = buf_data b"
    using signal_buffer_create_ok [OF assms(1), of "buf_data b"] assms(3) by auto
  moreover have "c = b" using calculation(2,3) assms(2) buffer_ext by metis
  ultimately show ?thesis using l by (simp add: signal_buffer_copy_def)
qed

lemma signal_explicit_bzero_eq: "signal_explicit_bzero v p n = take p v @ replicate (min n (length v - p)) 0 @ drop (p + n) v"
proof (induction v p n rule: signal_explicit_bzero.induct)
  case (2 v p n)
  show ?case
  proof (cases "p < length v")
    case True
    then have "min (Suc n) (length v - p) = Suc (min n (length v - Suc p))" by simp
    then show ?thesis using 2 True by (simp add: upd_conv_take_nth_drop take_Suc_conv_app_nth add.commute)
  qed (use 2 in \<open>simp add: list_update_beyond\<close>)
qed simp

text \<open>Callers that append to a buffer report a null pointer as \<open>SG_ERR_NOMEM\<close>.\<close>

definition buffer_append :: "allocator \<Rightarrow> signal_buffer \<Rightarrow> bytes \<Rightarrow> signal_buffer result" where
  "buffer_append malloc buffer data =
     (case signal_buffer_append malloc buffer data of None \<Rightarrow> Inl C_UNDEFINED
      | Some None \<Rightarrow> Inl SG_ERR_NOMEM | Some (Some b) \<Rightarrow> Inr b)"

interpretation appended_buffer: byte_pool malloc_ok malloc_total buffer_ok "2 ^ 63" buf_data buffer_append
proof unfold_locales
  fix malloc buffer and data :: bytes
  assume a: "malloc_ok malloc" "buffer_ok buffer" "length (buf_data buffer) + length data \<le> 2 ^ 63"
  then have "length data < 2 ^ 64" by simp
  from signal_buffer_append_ok [OF a(1,2) this] a(3)
  show "buffer_append malloc buffer data = Inl SG_ERR_NOMEM \<or>
      (\<exists>b. buffer_append malloc buffer data = Inr b \<and> buffer_ok b \<and> buf_data b = buf_data buffer @ data)"
    and "malloc_total malloc \<Longrightarrow> buffer_append malloc buffer data \<noteq> Inl SG_ERR_NOMEM"
    by (auto simp: malloc_total_def buffer_append_def) (metis option.distinct(1))
qed

section \<open>Lists for the application\<close>

record signal_buffer_list =
  bl_size :: u32
  bl_head :: "signal_buffer list"

definition signal_buffer_list_alloc :: signal_buffer_list where
  "signal_buffer_list_alloc = \<lparr>bl_size = 0, bl_head = []\<rparr>"

definition signal_buffer_list_push :: "signal_buffer_list \<Rightarrow> signal_buffer \<Rightarrow> signal_buffer_list" where
  "signal_buffer_list_push list buffer = list\<lparr>bl_head := buffer # bl_head list, bl_size := bl_size list + 1\<rparr>"

definition signal_buffer_list_size :: "signal_buffer_list \<Rightarrow> int" where
  "signal_buffer_list_size list = sint (bl_size list)"

text \<open>The values pushed by a store, in order; reading outside the list fails an assertion.\<close>

definition signal_int_list_push_back :: "int list \<Rightarrow> int \<Rightarrow> int list" where
  "signal_int_list_push_back list value' = list @ [value']"

definition signal_int_list_at :: "int list \<Rightarrow> u32 \<Rightarrow> int result" where
  "signal_int_list_at list index =
     (if unat index < length list then Inr (list ! unat index) else Inl C_UNDEFINED)"

lemma buffer_list_pushes:
  assumes "length bs < 2 ^ 31"
  shows "bl_head (fold (\<lambda>b l. signal_buffer_list_push l b) bs signal_buffer_list_alloc) = rev bs"
    "signal_buffer_list_size (fold (\<lambda>b l. signal_buffer_list_push l b) bs signal_buffer_list_alloc) = int (length bs)"
proof -
  have gen: "bl_head (fold (\<lambda>b l. signal_buffer_list_push l b) bs l) = rev bs @ bl_head l \<and>
      bl_size (fold (\<lambda>b l. signal_buffer_list_push l b) bs l) = bl_size l + of_nat (length bs)" for l
    by (induction bs arbitrary: l) (simp_all add: signal_buffer_list_push_def add_ac)
  show "bl_head (fold (\<lambda>b l. signal_buffer_list_push l b) bs signal_buffer_list_alloc) = rev bs"
    by (simp add: gen signal_buffer_list_alloc_def)
  have "sint (of_nat (length bs) :: u32) = int (length bs)"
    using assms signed_take_bit_int_eq_self [of 31 "int (length bs)"] by (simp add: sint_uint uint_nat unat_of_nat take_bit_nat_eq_self)
  then show "signal_buffer_list_size (fold (\<lambda>b l. signal_buffer_list_push l b) bs signal_buffer_list_alloc) = int (length bs)"
    by (simp add: gen signal_buffer_list_alloc_def signal_buffer_list_size_def)
qed

section \<open>The contexts\<close>

text \<open>
  Function pointers and user data as addresses, null being 0: the set-up functions copy them
  and check that those the library calls unconditionally, and pairs, are complete.
\<close>

record crypto_callbacks =
  cb_random_func :: u64
  cb_hmac_sha256_init_func :: u64
  cb_hmac_sha256_update_func :: u64
  cb_hmac_sha256_final_func :: u64
  cb_hmac_sha256_cleanup_func :: u64
  cb_sha512_digest_func :: u64
  cb_encrypt_func :: u64
  cb_decrypt_func :: u64
  cb_user_data :: u64

record context_object =
  cx_crypto_provider :: crypto_callbacks
  cx_lock :: u64
  cx_unlock :: u64
  cx_log :: u64
  cx_user_data :: u64

definition signal_context_create :: "u64 \<Rightarrow> context_object" where
  "signal_context_create user_data =
     \<lparr>cx_crypto_provider =
        \<lparr>cb_random_func = 0, cb_hmac_sha256_init_func = 0, cb_hmac_sha256_update_func = 0,
         cb_hmac_sha256_final_func = 0, cb_hmac_sha256_cleanup_func = 0, cb_sha512_digest_func = 0,
         cb_encrypt_func = 0, cb_decrypt_func = 0, cb_user_data = 0\<rparr>,
      cx_lock = 0, cx_unlock = 0, cx_log = 0, cx_user_data = user_data\<rparr>"

definition signal_context_set_crypto_provider :: "context_object \<Rightarrow> crypto_callbacks option \<Rightarrow> context_object result" where
  "signal_context_set_crypto_provider cx crypto_provider =
     (case crypto_provider of None \<Rightarrow> Inl SG_ERR_INVAL
      | Some p \<Rightarrow>
         if cb_hmac_sha256_init_func p = 0 \<or> cb_hmac_sha256_update_func p = 0 \<or>
            cb_hmac_sha256_final_func p = 0 \<or> cb_hmac_sha256_cleanup_func p = 0 then Inl SG_ERR_INVAL
         else Inr (cx\<lparr>cx_crypto_provider := p\<rparr>))"

definition signal_context_set_locking_functions :: "context_object \<Rightarrow> u64 \<Rightarrow> u64 \<Rightarrow> context_object result" where
  "signal_context_set_locking_functions cx lock unlock =
     (if lock \<noteq> 0 \<and> unlock = 0 \<or> lock = 0 \<and> unlock \<noteq> 0 then Inl SG_ERR_INVAL
      else Inr (cx\<lparr>cx_lock := lock, cx_unlock := unlock\<rparr>))"

definition signal_context_set_log_function :: "context_object \<Rightarrow> u64 \<Rightarrow> context_object" where
  "signal_context_set_log_function cx log = cx\<lparr>cx_log := log\<rparr>"

text \<open>Entering and leaving the lock: the calls made, with their user data.\<close>

definition signal_lock :: "context_object \<Rightarrow> (u64 \<times> u64) list" where
  "signal_lock cx = (if cx_lock cx \<noteq> 0 then [(cx_lock cx, cx_user_data cx)] else [])"

definition signal_unlock :: "context_object \<Rightarrow> (u64 \<times> u64) list" where
  "signal_unlock cx = (if cx_unlock cx \<noteq> 0 then [(cx_unlock cx, cx_user_data cx)] else [])"

definition locks_paired :: "context_object \<Rightarrow> bool" where
  "locks_paired cx \<longleftrightarrow> length (signal_lock cx) = length (signal_unlock cx)"

lemma locks_stay_paired:
  "locks_paired (signal_context_create user_data)"
  "signal_context_set_locking_functions cx lock unlock = Inr cx' \<Longrightarrow> locks_paired cx'"
  "locks_paired cx \<Longrightarrow> signal_context_set_crypto_provider cx p = Inr cx' \<Longrightarrow> locks_paired cx'"
  "locks_paired cx \<Longrightarrow> locks_paired (signal_context_set_log_function cx log)"
  by (auto simp: locks_paired_def signal_lock_def signal_unlock_def signal_context_create_def
      signal_context_set_locking_functions_def signal_context_set_crypto_provider_def signal_context_set_log_function_def
      split: option.splits if_splits)

text \<open>A callback table of a store: its functions in order, the user data and the destructor.\<close>

record store_callbacks =
  sc_functions :: "u64 list"
  sc_destroy_func :: u64
  sc_user_data :: u64

datatype store_kind = Session_Store | Pre_Key_Store | Signed_Pre_Key_Store | Identity_Key_Store | Sender_Key_Store

record store_context_object =
  so_global_context :: u64
  so_stores :: "store_kind \<Rightarrow> store_callbacks"

definition signal_protocol_store_context_create :: "u64 \<Rightarrow> store_context_object result" where
  "signal_protocol_store_context_create global_context =
     (if global_context = 0 then Inl C_UNDEFINED
      else Inr \<lparr>so_global_context = global_context,
        so_stores = (\<lambda>_. \<lparr>sc_functions = [], sc_destroy_func = 0, sc_user_data = 0\<rparr>)\<rparr>)"

definition signal_protocol_store_context_set :: "store_kind \<Rightarrow> store_context_object \<Rightarrow> store_callbacks option \<Rightarrow> store_context_object result" where
  "signal_protocol_store_context_set kind cx store =
     (case store of None \<Rightarrow> Inl SG_ERR_INVAL
      | Some s \<Rightarrow> Inr (cx\<lparr>so_stores := (so_stores cx)(kind := s)\<rparr>))"

definition signal_protocol_store_context_destroy :: "store_context_object option \<Rightarrow> (u64 \<times> u64) list" where
  "signal_protocol_store_context_destroy cx =
     (case cx of None \<Rightarrow> []
      | Some c \<Rightarrow>
         concat (map (\<lambda>k. let s = so_stores c k in if sc_destroy_func s \<noteq> 0 then [(sc_destroy_func s, sc_user_data s)] else [])
           [Session_Store, Pre_Key_Store, Signed_Pre_Key_Store, Identity_Key_Store, Sender_Key_Store]))"

end
