(* ===== verification/Memory_Properties.thy ===== *)
theory Memory_Properties
  imports Buffers Samples
begin

text \<open>
  Properties of the memory helpers: the secret that the key agreement collects in a growable
  pool, and the lifetime of reference-counted objects.
\<close>

text \<open>
  C17. The pool of \<^verbatim>\<open>vpool.c\<close> implements what the key agreement of \<^verbatim>\<open>ratchet.c\<close> needs of it: with
  matching parameters the Alice and the Bob role collect, one \<^verbatim>\<open>vpool_insert\<close> at the end of the
  pool per agreement, exactly the concatenation of the discontinuity bytes and the agreements,
  the same for both; only when \<^verbatim>\<open>malloc\<close> fails can the run end in \<open>SG_ERR_NOMEM\<close> instead, and
  no write leaves the allocated block.
\<close>

theorem secret_collected:
  assumes "malloc_ok malloc" "curve25519_dh G" "matched_parameters G a b"
  shows "\<exists>secret. agreements G (alice_agreements a) discontinuity_data = Inr secret \<and>
    agreements G (bob_agreements b) discontinuity_data = Inr secret \<and>
    list_all (\<lambda>ks. collect_secret malloc G ks = Inr secret \<or>
      \<not> malloc_total malloc \<and> collect_secret malloc G ks = Inl SG_ERR_NOMEM) [alice_agreements a, bob_agreements b]"
proof -
  obtain secret where s: "agreements G (alice_agreements a) discontinuity_data = Inr secret"
    "agreements G (bob_agreements b) discontinuity_data = Inr secret"
    using matched_agreements [OF assms(2,3), of discontinuity_data] by auto
  have len: "length (alice_agreements a) \<le> 4" "length (bob_agreements b) \<le> 4"
    by (auto simp: alice_agreements_def bob_agreements_def split: option.splits)
  have "collect_secret malloc G ks = Inr secret \<or> \<not> malloc_total malloc \<and> collect_secret malloc G ks = Inl SG_ERR_NOMEM"
    if "agreements G ks discontinuity_data = Inr secret" "length ks \<le> 4" "list_all (\<lambda>(pk, sk). pub_ok pk \<and> priv_ok sk) ks" for ks
  proof -
    have "\<forall>(pk, sk) \<in> set ks. \<forall>out. curve_calculate_agreement G (Some pk) (Some sk) = Inr out \<longrightarrow> length out = 32"
      using that(3) assms(2) by (fastforce simp: list_all_iff curve_calculate_agreement_ok agreed_length)
    from collect_secret_ok [OF assms(1) this that(2)] that(1) show ?thesis by auto
  qed
  moreover have "list_all (\<lambda>(pk, sk). pub_ok pk \<and> priv_ok sk) (alice_agreements a)"
    "list_all (\<lambda>(pk, sk). pub_ok pk \<and> priv_ok sk) (bob_agreements b)"
    using assms(3)
    by (auto simp: matched_parameters_def alice_agreements_def bob_agreements_def dest: key_pair_okD ik_okD split: option.splits)
  ultimately show ?thesis using s len by auto
qed

theorem secret_collected_witness:
  "malloc_ok (\<lambda>n. Some (replicate (unat n) 0)) \<and> malloc_total (\<lambda>n. Some (replicate (unat n) 0)) \<and>
   curve25519_dh sample_context \<and> matched_parameters sample_context sample_alice_parameters sample_bob_parameters \<and>
   (\<exists>secret. collect_secret (\<lambda>n. Some (replicate (unat n) 0)) sample_context (alice_agreements sample_alice_parameters) = Inr secret \<and>
     collect_secret (\<lambda>n. Some (replicate (unat n) 0)) sample_context (bob_agreements sample_bob_parameters) = Inr secret)"
proof -
  have m: "malloc_ok (\<lambda>n. Some (replicate (unat n) 0))" "malloc_total (\<lambda>n. Some (replicate (unat n) 0))"
    by (simp_all add: malloc_ok_def malloc_total_def)
  show ?thesis using secret_collected [OF m(1) sample_dh_ok sample_matched] m sample_dh_ok sample_matched by auto
qed

text \<open>
  C23. A reference-counted object lives as long as it has an owner: whatever the order in which
  references to a fresh object are taken and released, as long as only owners act and the
  32-bit count does not overflow, no assertion fails, the object stays in place with the
  number of its owners as its count, nothing else in memory changes, and the destructor runs
  when, and only when, the last owner releases it.
\<close>

theorem object_lifetime:
  assumes "owners 1 es = Some m"
  shows "if m = 0 then run_ownership code a es (signal_type_init a d h) = code d a (signal_type_init a d h)
    else \<exists>b. run_ownership code a es (signal_type_init a d h) = Inr (h(a \<mapsto> b)) \<and> unat (ref_count b) = m \<and> destroy b = d"
  using run_ownership_owners [of "signal_type_init a d h" a "\<lparr>ref_count = 1, destroy = d\<rparr>" es m code] assms
  by (cases "m = 0") (simp_all add: signal_type_init_def fun_upd_same del: fun_upd_apply)

theorem object_lifetime_witness:
  "owners 1 [Take, Take, Release, Take, Release, Release, Release] = Some 0 \<and>
   run_ownership (\<lambda>d a h. Inr (h(a := None))) 5 [Take, Take, Release, Take, Release, Release, Release]
     (signal_type_init 5 7 (\<lambda>_. None)) = Inr (\<lambda>_. None)"
  using object_lifetime [of "[Take, Take, Release, Take, Release, Release, Release]" 0 "\<lambda>d a h. Inr (h(a := None))" 5 7 "\<lambda>_. None"]
  by (simp add: signal_type_init_def fun_eq_iff)

end
