(* ===== verification/Spec2Isabelle.thy ===== *)
theory Spec2Isabelle
  imports Codec_Properties Builder_Properties Fingerprint_Properties Curve25519_Properties Ed25519_Properties Memory_Properties
begin

text \<open>
  A verification of libsignal-protocol-c, the C implementation of the Signal protocol
  (\<^verbatim>\<open>src/SignalProtocolC/src\<close>).

  \<^bold>\<open>The program.\<close>  A session between two devices is a \<^verbatim>\<open>session_state\<close>: a root key, one
  sending chain and up to five receiving chains, each chain a hash ratchet with an index
  and a store of message keys that were skipped.  A \<^verbatim>\<open>session_record\<close> holds the current state
  and the archived ones and is what the application's session store keeps, as bytes in a
  protobuf encoding.  \<^verbatim>\<open>session_builder.c\<close> makes a session from a published pre-key bundle,
  from the pre-key message that answers it, or from an exchange of key exchange messages;
  it relies on \<^verbatim>\<open>ratchet.c\<close>, which initialises a state from an X3DH key agreement.
  \<^verbatim>\<open>session_cipher.c\<close> loads the record, encrypts on the sending chain or decrypts with the
  receiving chain that the message names (making the Diffie-Hellman step of the double
  ratchet when its key is new), and stores the record again.  \<^verbatim>\<open>group_cipher.c\<close> does the same
  for groups, with one signed chain per sender that \<^verbatim>\<open>group_session_builder.c\<close> distributes.
  \<^verbatim>\<open>fingerprint.c\<close> lets two users compare their identity keys.  Below them are \<^verbatim>\<open>protocol.c\<close>
  (the messages on the wire), \<^verbatim>\<open>session_pre_key.c\<close> and \<^verbatim>\<open>key_helper.c\<close>, \<^verbatim>\<open>hkdf.c\<close>, \<^verbatim>\<open>curve.c\<close>, the
  protobuf runtime with its generated descriptors, and the application's crypto provider
  and stores.

  \<^bold>\<open>The theories\<close>, in the order they build on each other:
  \<^item> \<open>Prelude\<close>: error codes, results as sums, pointers that are null, live or freed where that
    matters, the list loops of \<^verbatim>\<open>utlist.h\<close>, and the locale
    \<open>bounded_list\<close>, the contract of every list that evicts its oldest entry.
  \<^item> \<open>Protobuf\<close>: \<^verbatim>\<open>protobuf-c.c\<close>, packing, sizes, scanning, merging and unpacking over a generic
    message; \<open>Protobuf_Laws\<close>: that unpacking inverts packing up to the number of members that the
    unpacker's slabs hold, that sizes are exact, that no
    input makes the scanner read outside its data, and the locales \<open>pb_codec\<close> of a record type
    with its descriptor and \<open>pb_flat_codec\<close> of one without repeated fields; \<open>Structures\<close>: the descriptors of \<^verbatim>\<open>LocalStorageProtocol.pb-c.c\<close> and
    \<^verbatim>\<open>WhisperTextProtocol.pb-c.c\<close> with an interpretation of one of the two each.
  \<^item> \<open>Crypto\<close>: the provider as the record \<open>signal_context\<close>, and the named hypotheses
    \<open>hmac_sha256_of\<close>, \<open>cipher_inverse\<close>, \<open>curve25519_dh\<close> and \<open>curve25519_signs\<close>; \<open>Curve\<close>: \<^verbatim>\<open>curve.c\<close>; \<open>Hkdf\<close>:
    \<^verbatim>\<open>hkdf.c\<close> against RFC 5869.
  \<^item> \<open>Machine_Ints\<close>: signed words and mixed radix; \<open>Curve25519_Field\<close>, \<open>Curve25519_Ladder\<close>,
    \<open>Curve25519_Donna\<close>: \<^verbatim>\<open>curve25519-donna.c\<close>, its field arithmetic on 64-bit limbs, the ladder,
    and the conversion to and from bytes, against RFC 7748.
  \<^item> \<open>Limb_Programs\<close>: runs of carries as lists of statements on words, with the checks that give
    their exactness; \<open>Limb_Bytes\<close>: limbs cut out of bytes; \<open>Ed25519_Field\<close>, \<open>Ed25519_Bytes\<close>,
    \<open>Ed25519_Scalar\<close>, \<open>Ed25519_Group\<close>: the field functions \<^verbatim>\<open>fe_*.c\<close>, the scalar functions \<^verbatim>\<open>sc_*.c\<close>
    and the point functions \<^verbatim>\<open>ge_*.c\<close> under \<^verbatim>\<open>curve25519/ed25519\<close>.  A field element of level \<open>k\<close> has
    limbs of at most \<open>k\<close> times the size that carrying leaves; \<open>p3_is p (x, y)\<close> says that \<open>p\<close>
    represents the point \<open>(x, y)\<close>.
  \<^item> \<open>Ratchet\<close> and \<open>Ratcheting_Session\<close>: \<^verbatim>\<open>ratchet.c\<close>, the keys and the initialisation of a
    session, with the agreement of the two roles.
  \<^item> \<open>Session_State\<close>, \<open>Session_State_Laws\<close>, \<open>Session_Record\<close>: \<^verbatim>\<open>session_state.c\<close> and
    \<^verbatim>\<open>session_record.c\<close>; the invariants \<open>ss_ok\<close> and \<open>sr_ok\<close>, that every operation keeps them, and
    the round trips through the store's bytes.
  \<^item> \<open>Protocol\<close>, \<open>Group_Message\<close>, \<open>Key_Exchange\<close>: the five kinds of message of \<^verbatim>\<open>protocol.c\<close>.
  \<^item> \<open>Store\<close> and \<open>Key_Stores\<close>: the stores of \<^verbatim>\<open>signal_protocol.c\<close>, the application's callbacks
    over an arbitrary state with their documented behaviour in two grades: \<open>session_store_atomic\<close>
    and \<open>store_context_atomic\<close> for stores of which any callback may report a failure, and
    \<open>session_store_of\<close> and \<open>store_context_of\<close> for stores at work; \<open>Handler\<close>: the sequencing of the longer handlers and the locale \<open>frame\<close>
    of a relation that every step of a handler keeps.
  \<^item> \<open>Session_Cipher\<close>: \<^verbatim>\<open>session_cipher.c\<close>.  \<open>Skipping_Chain\<close> states the contract of a hash chain
    with a store of skipped keys as the locales \<open>skipping_chain\<close> and \<open>retaining_chain\<close>, and
    \<open>Key_Dispenser\<close> the abstract specification of such a chain with the locale \<open>key_dispenser\<close>
    that refines it; \<open>Session_Cipher_Laws\<close> interprets them on the session's receiving chains
    and derives that a receiver has the sender's keys in any order of arrival;
    \<open>Session_Handlers\<close> shows that decryption keeps the invariants and how the Diffie-Hellman
    steps of two parties link; \<open>Conversation\<close> puts two parties together, up to the handlers
    and their stores; \<open>Double_Ratchet\<close> is the conversation as a step relation with both
    parties taking turns, and its invariant.
  \<^item> \<open>Pre_Keys\<close>: \<^verbatim>\<open>session_pre_key.c\<close> and \<^verbatim>\<open>key_helper.c\<close>.  \<open>Session_Builder\<close>: \<^verbatim>\<open>session_builder.c\<close>
    and the decryption of pre-key messages; \<open>Session_Builder_Laws\<close> and \<open>Key_Exchange_Laws\<close>: the
    sessions they make; \<open>Builder_Safety\<close>: what they leave alone and what they refuse.
  \<^item> \<open>Sender_Key\<close>, \<open>Sender_Key_State\<close>, \<open>Group_Cipher\<close>: sender keys with their records, and
    \<^verbatim>\<open>group_cipher.c\<close> with \<^verbatim>\<open>group_session_builder.c\<close>; \<open>Group_Cipher_Laws\<close> interprets
    \<open>key_dispenser\<close> a second time, on the chain of a group sender.
  \<^item> \<open>Fingerprint\<close>: \<^verbatim>\<open>fingerprint.c\<close> with the messages of \<^verbatim>\<open>FingerprintProtocol.pb-c.c\<close>.
  \<^item> \<open>Vpool\<close>: \<^verbatim>\<open>vpool.c\<close> as a refinement of byte lists; \<open>Secret_Pool\<close>: the secret of a key agreement
    collected in it, over the locale \<open>byte_pool\<close> of a buffer that bytes are appended to;
    \<open>Buffers\<close>: the reference counts, buffers, lists and contexts of \<^verbatim>\<open>signal_protocol.c\<close>, a second
    interpretation of \<open>byte_pool\<close> among them.
  \<^item> \<open>Samples\<close>: a toy provider, map-backed stores and sample sessions for the instances;
    \<open>Codec_Properties\<close>, \<open>Group_Properties\<close>, \<open>Builder_Properties\<close>, \<open>Fingerprint_Properties\<close>,
    \<open>Curve25519_Properties\<close>, \<open>Ed25519_Properties\<close>, \<open>Memory_Properties\<close> and this theory: the
    properties.

  \<^bold>\<open>Correspondence.\<close>  A struct is a record with the fields of the C struct (a nullable pointer
  is an option, a flag a bool), an enum a datatype; definitions carry the names of the C
  functions.  A function that returns a negative status returns \<open>Inl\<close> of the error, one
  that draws randomness or calls the store threads their state.  Where the C program has
  undefined behaviour the model returns \<open>Inl C_UNDEFINED\<close>: a null pointer that is read, a freed
  context that is released again, the cleanup of an HMAC context that was never initialised
  (when the provider's \<^verbatim>\<open>hmac_sha256_init_func\<close> fails), a block count of HKDF outside the range of
  \<^verbatim>\<open>int\<close>; the protobuf scanner has \<open>Unpack_Fault\<close> for a read outside its input.  Integers keep their width:
  counters are 32-bit words and wrap, the HKDF loop counter is an 8-bit word.  The HKDF
  loop is a \<open>partial_function\<close>, since it may not end; the other loops are total, the one over
  skipped keys by the distance of its counter.  No fuel is used.

  \<^bold>\<open>What is shown.\<close>
  \<^item> Delivery: fresh sessions deliver messages in any order and with any losses; in every
    state that two parties reach by talking in turns, what is in flight can be decrypted;
    handlers and stores end to end; a session from a bundle alone, from a key exchange, and
    of a group.
  \<^item> Safety: replays are refused, in sessions and groups; only authenticated messages,
    bundles and exchanges are accepted; failures and refusals leave the stores; the session
    builder touches one contact; a scanned fingerprint is accepted exactly when the keys
    agree.
  \<^item> Refinement: the receiving chains of sessions and of groups implement the abstract key
    dispenser; HKDF is the one of RFC 5869; key agreement is the Montgomery ladder of RFC 7748
    on the private key as it stands, which is X25519 for the clamped keys the library
    generates; the field and
    scalar functions of Ed25519 are exact modulo their prime and order for every input, and its
    point functions implement the addition law of the Edwards curve; the
    pool of the key agreement implements lists of bytes.
  \<^item> Invariants and bounds of states, records, lists and generated keys; the lifetime of
    reference-counted objects; the codecs of
    messages and records down to the protobuf runtime.
  \<^item> The places where the code does not do what it means to: a dropped error, a freed
    context, a counter that wraps, a header overwritten by its data, a session stored before
    its signature is checked.

  \<^bold>\<open>Hypotheses.\<close>  The provider's HMAC is a 32-byte function that does not fail and SHA-512 a
  64-byte one, its ciphers decrypt what they encrypted, Curve25519 satisfies the
  Diffie-Hellman law, signatures made with a clamped private key verify
  (\<open>curve25519_signs\<close>; the signer needs bit 255 clear and a scalar that is not zero, and the
  library clamps every key that it generates), and the random source does
  not fail (\<open>random_total\<close>).  Where a property says that a run succeeds the stores return what
  was stored, report no failure and trust an identity on first use; where it says what a
  failing or any run leaves alone, every callback may fail, and one that writes and reports a
  failure has changed nothing.  Fresh ratchet keys differ from the ones known before, where a property says so, and
  a chain carries at most 2000 messages, or less than \<open>2 ^ 32 - 1\<close> where a property speaks of
  its counters.  A message is read back when it has at most \<open>2 ^ 27 - 16\<close> members on each level,
  which every message of at most \<open>2 ^ 28 - 32\<close> bytes has.

  \<^bold>\<open>Not modelled.\<close>  Outside \<open>Vpool\<close> and \<open>Buffers\<close> allocation is taken to succeed, a reference is the
  object and a buffer the list of its bytes; the text of log lines; Ed25519 signing and
  verification and the provider, which are parameters (the scalar
  multiplications with their tables and SHA-512 are left out, the arithmetic under them is
  modelled); that \<open>2 ^ 255 - 19\<close> is prime, so that inversion is stated as a power and the
  addition law under the condition that its denominators are invertible; the group laws of
  the curves, from which the Diffie-Hellman law would follow; the vendored containers
  \<^verbatim>\<open>uthash.h\<close> and \<^verbatim>\<open>utarray.h\<close>; the field types of the protobuf runtime that no descriptor of the
  library uses, and that \<^verbatim>\<open>parse_tag_and_wiretype\<close> and \<^verbatim>\<open>scan_length_prefixed_data\<close> shift an
  \<^verbatim>\<open>int\<close> into its sign bit (the model takes the value that two's complement gives).  Secrecy is not stated.
\<close>

section \<open>Conversations\<close>

text \<open>
  C1. Two parties that initialise a session from matching parameters (the X3DH key
  agreement of \<^verbatim>\<open>ratcheting_session_alice_initialize\<close> and \<^verbatim>\<open>ratcheting_session_bob_initialize\<close>)
  can talk: Alice can encrypt any list of at most 2000 messages, and whichever of these
  messages reach Bob, in whatever order, Bob decrypts each of them to the plaintext that
  was sent; the first to arrive makes Bob's Diffie-Hellman step.
\<close>

theorem fresh_session_delivers:
  assumes dh: "curve25519_dh G" and hm: "hmac_sha256_of G hm" and inv: "cipher_inverse G"
    and m: "matched_parameters G a b"
    and alice: "ratcheting_session_alice_initialize G session_state_create a r = (Inr sa, r')"
    and bob: "ratcheting_session_bob_initialize G session_state_create b = Inr sb"
    and rnd: "curve_generate_key_pair G r1 = (Inr pb, r2)" and len: "length ps \<le> 2000"
  shows "\<exists>ms sa'. send_all G sa ps = Inr (ms, sa') \<and>
    (\<forall>xs. xs \<noteq> [] \<longrightarrow> mset xs \<subseteq># mset (zip ms ps) \<longrightarrow>
      (\<exists>sb'. receive_all G sb (map fst xs) r1 = (Inr (map snd xs, sb'), r2)))"
proof -
  note ra = alice_initialize_ready [OF dh hm m alice] and rb = bob_initialize_ready [OF dh hm m bob]
  obtain k where k: "session_state_get_sender_ratchet_key sa = Some k" using ra(2) by blast
  obtain ck0 where ck0: "sc_chain_key (ss_sender_chain sa) = Some ck0" "dh_linked G ck0 sa sb"
    using initialized_linked [OF dh m _ alice bob] by (auto simp: session_state_create_def)
  have "ck_index ck0 = 0" by (rule alice_chain_start [OF dh hm m alice ck0(1)])
  then have len': "length ps \<le> MAX_MESSAGE_KEYS" "unat (ck_index ck0) + length ps \<le> 2 ^ 32 - 1"
    using len by (simp_all add: MAX_MESSAGE_KEYS_def)
  obtain ms sa' where sent: "send_all G sa ps = Inr (ms, sa')" using send_all_total [OF hm inv ra(1)] by blast
  with receive_all_linked [OF hm inv dh ck0(2,1) k rb(2) ra(1) rb(1) rnd len' sent] show ?thesis by blast
qed

theorem fresh_session_delivers_witness:
  "\<exists>x y z sa' sb' pb. send_all sample_context sample_alice [[1], [2], [3]] = Inr ([x, y, z], sa') \<and>
    curve_generate_key_pair sample_context 7 = (Inr pb, 8) \<and>
    receive_all sample_context sample_bob [z, x, y] 7 = (Inr ([[3], [1], [2]], sb'), 8)"
proof -
  obtain pb where pb: "curve_generate_key_pair sample_context 7 = (Inr pb, 8)" using sample_random [of 7] by auto
  obtain ms sa' where s: "send_all sample_context sample_alice [[1], [2], [3]] = Inr (ms, sa')"
    "\<And>xs. \<lbrakk>xs \<noteq> []; mset xs \<subseteq># mset (zip ms [[1], [2], [3]])\<rbrakk> \<Longrightarrow>
      \<exists>sb'. receive_all sample_context sample_bob (map fst xs) 7 = (Inr (map snd xs, sb'), 8)"
    using fresh_session_delivers [OF sample_dh_ok sample_hmac_ok sample_cipher_ok sample_matched sample_alice_run
        sample_bob_run pb, of "[[1], [2], [3]]"] by auto
  obtain x y z where ms: "ms = [x, y, z]" using s(1) by (auto simp: result_simps)
  have "mset [(z, [3]), (x, [1]), (y, [2])] \<subseteq># mset (zip ms [[1], [2], [3]])" by (simp add: ms)
  from s(2) [OF _ this] obtain sb' where "receive_all sample_context sample_bob [z, x, y] 7 = (Inr ([[3], [1], [2]], sb'), 8)"
    by (auto simp del: receive_all.simps)
  with s(1) pb ms show ?thesis by blast
qed

text \<open>Two parties that have each sent one message before anything arrived.\<close>

lemma sample_first_messages:
  "\<exists>ea sa eb sb ka kb. encrypt_from_state sample_context sample_alice p = Inr (ea, sa) \<and>
    encrypt_from_state sample_context sample_bob q = Inr (eb, sb) \<and>
    session_state_get_sender_ratchet_key sample_alice = Some ka \<and> session_state_get_sender_ratchet_key sa = Some ka \<and>
    session_state_get_sender_ratchet_key sample_bob = Some kb \<and> session_state_get_sender_ratchet_key sb = Some kb \<and>
    sm_counter (signal_part ea) = 0 \<and> sm_sender_ratchet_key (signal_part ea) = ka \<and>
    sm_counter (signal_part eb) = 0 \<and> sm_sender_ratchet_key (signal_part eb) = kb"
proof -
  note init = sample_dh_ok sample_hmac_ok sample_matched
  note ready = alice_initialize_ready(1) [OF init sample_alice_run] bob_initialize_ready(1) [OF init sample_bob_run]
  obtain ka kb cka ckb where k: "session_state_get_sender_ratchet_key sample_alice = Some ka"
    "session_state_get_sender_ratchet_key sample_bob = Some kb"
    "sc_chain_key (ss_sender_chain sample_alice) = Some cka" "sc_chain_key (ss_sender_chain sample_bob) = Some ckb"
    using ready by (auto simp: can_send_def session_state_get_sender_ratchet_key_def)
  obtain ea sa where ea: "encrypt_from_state sample_context sample_alice p = Inr (ea, sa)"
    using encrypt_from_state_total [OF sample_hmac_ok sample_cipher_ok ready(1)] by blast
  obtain eb sb where eb: "encrypt_from_state sample_context sample_bob q = Inr (eb, sb)"
    using encrypt_from_state_total [OF sample_hmac_ok sample_cipher_ok ready(2)] by blast
  have "session_state_get_sender_ratchet_key sa = session_state_get_sender_ratchet_key sample_alice"
    by (rule encrypt_from_state_cases [OF ea]) (simp add: session_state_get_sender_ratchet_key_def)
  moreover have "session_state_get_sender_ratchet_key sb = session_state_get_sender_ratchet_key sample_bob"
    by (rule encrypt_from_state_cases [OF eb]) (simp add: session_state_get_sender_ratchet_key_def)
  ultimately show ?thesis
    using ea eb k encrypt_counter [OF ea k(3,1)] encrypt_counter [OF eb k(4,2)]
      alice_chain_start [OF init sample_alice_run k(3)] bob_chain_start [OF sample_hmac_ok sample_bob_run k(4)] by auto
qed

text \<open>
  C2. The double ratchet delivers.  Take any two sessions initialised from matching
  parameters, and let the parties send and receive in any order while the network delays,
  reorders and loses messages (the steps \<open>conv_step\<close>): in every state that can be reached,
  each party can encrypt, and every message in flight whose chain the receiver holds, or
  which is on the sender's newest chain, is decrypted to the plaintext it was made from.
\<close>

theorem double_ratchet_delivers:
  assumes dh: "curve25519_dh G" and hm: "hmac_sha256_of G hm" and inv: "cipher_inverse G" and rnd: "random_total G"
    and m: "matched_parameters G a b"
    and alice: "ratcheting_session_alice_initialize G session_state_create a r = (Inr sa, r')"
    and bob: "ratcheting_session_bob_initialize G session_state_create b = Inr sb"
    and keys: "session_state_get_sender_ratchet_key sa = Some ka" "session_state_get_sender_ratchet_key sb = Some kb"
    and run: "(conv_step G)\<^sup>*\<^sup>* (conv_start sa sb ra rb ka kb) c"
  shows "(\<forall>p pt. \<exists>em st. encrypt_from_state G (cv_state c p) pt = Inr (em, st)) \<and>
    (\<forall>p msg pt. (msg, pt) \<in> set (cv_net c p) \<longrightarrow>
      session_state_find_receiver_chain (cv_state c (\<not> p)) (sm_sender_ratchet_key msg) \<noteq> None \<or>
        session_state_get_sender_ratchet_key (cv_state c p) = Some (sm_sender_ratchet_key msg) \<longrightarrow>
      (\<exists>st r1. session_cipher_decrypt_from_state_and_signal_message G (cv_state c (\<not> p)) msg (cv_rng c (\<not> p))
        = (Inr (pt, st), r1)))"
proof -
  obtain I where c0: "conv_inv G 3 I (conv_start sa sb ra rb ka kb)"
    using initialized_conversation [OF dh hm m alice bob] keys by fastforce
  note c = conv_inv_reachable [OF hm inv dh run c0]
  have "\<exists>em st. encrypt_from_state G (cv_state c p) pt = Inr (em, st)" for p pt
    using c encrypt_from_state_total [OF hm inv] by (fastforce simp: conv_inv_def)
  moreover have "\<exists>st r1. session_cipher_decrypt_from_state_and_signal_message G (cv_state c (\<not> p)) msg (cv_rng c (\<not> p))
        = (Inr (pt, st), r1)"
    if "(msg, pt) \<in> set (cv_net c p)" "session_state_find_receiver_chain (cv_state c (\<not> p)) (sm_sender_ratchet_key msg) \<noteq> None \<or>
        session_state_get_sender_ratchet_key (cv_state c p) = Some (sm_sender_ratchet_key msg)" for p msg pt
    using that conv_deliver [OF hm inv c that(1)] conv_turn [OF hm inv dh c that(1)]
      curve_generate_key_pair_total [OF dh rnd] by metis
  ultimately show ?thesis by blast
qed


theorem double_ratchet_delivers_witness:
  "\<exists>c x y st st' r r'. (conv_step sample_context)\<^sup>*\<^sup>* (conv_start sample_alice sample_bob 3 5
      (the (session_state_get_sender_ratchet_key sample_alice)) (the (session_state_get_sender_ratchet_key sample_bob))) c \<and>
    cv_net c True = [(x, [1])] \<and> cv_net c False = [(y, [2])] \<and>
    session_cipher_decrypt_from_state_and_signal_message sample_context (cv_state c False) x (cv_rng c False) = (Inr ([1], st), r) \<and>
    session_cipher_decrypt_from_state_and_signal_message sample_context (cv_state c True) y (cv_rng c True) = (Inr ([2], st'), r')"
proof -
  obtain ea sa eb sb ka kb where e: "encrypt_from_state sample_context sample_alice [1] = Inr (ea, sa)"
    "encrypt_from_state sample_context sample_bob [2] = Inr (eb, sb)"
    and k: "session_state_get_sender_ratchet_key sample_alice = Some ka" "session_state_get_sender_ratchet_key sample_bob = Some kb"
      "session_state_get_sender_ratchet_key sa = Some ka" "session_state_get_sender_ratchet_key sb = Some kb"
    and m: "sm_counter (signal_part ea) = 0" "sm_sender_ratchet_key (signal_part ea) = ka"
      "sm_counter (signal_part eb) = 0" "sm_sender_ratchet_key (signal_part eb) = kb"
    using sample_first_messages [of "[1]" "[2]"] by blast
  let ?c0 = "conv_start sample_alice sample_bob 3 5 ka kb"
  let ?c1 = "?c0\<lparr>cv_state := (cv_state ?c0)(True := sa), cv_net := (cv_net ?c0)(True := (signal_part ea, [1]) # cv_net ?c0 True)\<rparr>"
  let ?c2 = "?c1\<lparr>cv_state := (cv_state ?c1)(False := sb), cv_net := (cv_net ?c1)(False := (signal_part eb, [2]) # cv_net ?c1 False)\<rparr>"
  have "conv_step sample_context ?c0 ?c1" by (rule conv_step.send) (use e(1) m(1) in \<open>simp_all add: conv_start_def\<close>)
  moreover have "conv_step sample_context ?c1 ?c2" by (rule conv_step.send) (use e(2) m(3) in \<open>simp_all add: conv_start_def\<close>)
  ultimately have run: "(conv_step sample_context)\<^sup>*\<^sup>* ?c0 ?c2" by (meson converse_rtranclp_into_rtranclp rtranclp.rtrancl_refl)
  note live = conjunct2 [OF double_ratchet_delivers [OF sample_dh_ok sample_hmac_ok sample_cipher_ok sample_random_total
      sample_matched sample_alice_run sample_bob_run k(1,2) run], rule_format]
  have n: "cv_net ?c2 True = [(signal_part ea, [1])]" "cv_net ?c2 False = [(signal_part eb, [2])]"
    "cv_state ?c2 True = sa" "cv_state ?c2 False = sb"
    by (simp_all add: conv_start_def)
  have "\<exists>st r. session_cipher_decrypt_from_state_and_signal_message sample_context (cv_state ?c2 False) (signal_part ea)
      (cv_rng ?c2 False) = (Inr ([1], st), r)"
    using live [of "signal_part ea" "[1]" True] k(3) m(2) unfolding n by simp
  moreover have "\<exists>st r. session_cipher_decrypt_from_state_and_signal_message sample_context (cv_state ?c2 True) (signal_part eb)
      (cv_rng ?c2 True) = (Inr ([2], st), r)"
    using live [of "signal_part eb" "[2]" False] k(4) m(4) unfolding n by simp
  ultimately show ?thesis using run n(1,2) k(1,2) by (metis option.sel)
qed
text \<open>
  C3. End to end through the handlers and the stores: if the two stored sessions are in step
  (the sender's chain is known to the receiver, or new and linked by the Diffie-Hellman
  ratchet), \<^verbatim>\<open>session_cipher_encrypt\<close> succeeds, the message survives serialisation, and
  \<^verbatim>\<open>session_cipher_decrypt_signal_message\<close> at the other end returns the plaintext.
\<close>

theorem handlers_end_to_end:
  assumes hm: "hmac_sha256_of G hm" and inv: "cipher_inverse G" and dh: "curve25519_dh G"
    and a: "holds_record SA getA (cipher_remote_address ca) reca (w_store wa)" "sr_state reca = Some sa"
      "\<not> cipher_inside_callback ca"
    and b: "holds_record SB getB (cipher_remote_address cb) recb (w_store wb)" "sr_state recb = Some sb"
      "\<not> cipher_inside_callback cb" "cipher_decrypt_callback cb = None"
    and step: "in_step G v A B sa sb (w_rng wb) r'"
  shows "\<exists>em wa' wb'. session_cipher_encrypt SA G ca p wa = (Inr em, wa') \<and>
    (length (sm_serialized (signal_part em)) < 2 ^ 31 \<longrightarrow>
      signal_message_deserialize (sm_serialized (signal_part em)) = Inr (signal_part em)) \<and>
    session_cipher_decrypt_signal_message SB G cb (signal_part em) wb = (Inr p, wb')"
  using handlers_deliver [OF assms] by blast

theorem handlers_end_to_end_witness:
  "\<exists>em wa' wb'. session_cipher_encrypt sample_session_store sample_context sample_cipher [42, 43] (sample_world sample_alice)
      = (Inr em, wa') \<and>
    session_cipher_decrypt_signal_message sample_session_store sample_context sample_cipher (signal_part em)
      (sample_world sample_bob) = (Inr [42, 43], wb')"
  using handlers_end_to_end [OF sample_hmac_ok sample_cipher_ok sample_dh_ok sample_holds_cipher(1) _ _
      sample_holds_cipher(2) _ _ _ sample_in_step, of "[42, 43]"]
  by (auto simp: sample_cipher_def sample_record_def)

text \<open>
  C8. A message is accepted once: when \<^verbatim>\<open>session_cipher_decrypt_signal_message\<close> has returned
  its plaintext, with the current state or an archived one, the same message is refused
  with \<^verbatim>\<open>SG_ERR_DUPLICATE_MESSAGE\<close> and the store stays as it is.
\<close>

theorem replay_is_refused:
  assumes "hmac_sha256_of G hm" "curve25519_dh G"
    and "holds_record S get (cipher_remote_address c) rec (w_store w)"
    and "pub_ok (sm_sender_ratchet_key m)" "sm_counter m \<noteq> - 1"
    and "\<And>st. \<lbrakk>sr_state rec = Some st \<or> st \<in> set (sr_previous_states rec)\<rbrakk> \<Longrightarrow>
      synced G (sm_sender_ratchet_key m) st"
    and "cipher_decrypt_callback c = None"
    and "session_cipher_decrypt_signal_message S G c m w = (Inr p, w')"
  shows "session_cipher_decrypt_signal_message S G c m w' = (Inl SG_ERR_DUPLICATE_MESSAGE, w')"
  using assms by (rule handler_replay_refused)

theorem replay_is_refused_witness:
  "\<exists>m w'. session_cipher_decrypt_signal_message sample_session_store sample_context sample_cipher m (sample_world sample_bob)
      = (Inr [42, 43], w') \<and>
    session_cipher_decrypt_signal_message sample_session_store sample_context sample_cipher m w'
      = (Inl SG_ERR_DUPLICATE_MESSAGE, w')"
proof -
  obtain em w' where d: "session_cipher_decrypt_signal_message sample_session_store sample_context sample_cipher
      (signal_part em) (sample_world sample_bob) = (Inr [42, 43], w')"
    "pub_ok (sm_sender_ratchet_key (signal_part em))" "sm_counter (signal_part em) \<noteq> - 1"
    using sample_exchange [of "[42, 43]"] by blast
  have "synced sample_context k sample_bob" for k
    using bob_initialize_ready(2) [OF sample_dh_ok sample_hmac_ok sample_matched sample_bob_run] by (simp add: synced_def)
  then have "session_cipher_decrypt_signal_message sample_session_store sample_context sample_cipher (signal_part em) w'
      = (Inl SG_ERR_DUPLICATE_MESSAGE, w')"
    using sample_holds [OF sample_states_ok(2)]
    by (intro replay_is_refused [OF sample_hmac_ok sample_dh_ok _ d(2,3) _ _ d(1), of "\<lambda>s. s" "sample_record sample_bob"])
       (auto simp: sample_cipher_def sample_record_def)
  with d(1) show ?thesis by blast
qed

text \<open>
  A message whose MAC was changed: a state that accepts the message as it was sent refuses
  it, and so does the handler on a record with no other state.
\<close>

lemma tampered_mac_refused:
  assumes hm: "hmac_sha256_of G hm"
    and run: "session_cipher_decrypt_from_state_and_signal_message G st m r = (Inr (p, st'), r')"
    and ser: "length ser = length (sm_serialized m)" "ser \<noteq> sm_serialized m"
      "take (length ser - 8) ser = take (length ser - 8) (sm_serialized m)"
  shows "session_cipher_decrypt_from_state_and_signal_message G st (m\<lparr>sm_serialized := ser\<rparr>) r = (Inl SG_ERR_INVALID_MESSAGE, r')"
proof -
  have verify: "8 \<le> length ser \<and> signal_message_verify_mac G (m\<lparr>sm_serialized := ser\<rparr>) (Some A) (Some B) key = Inr False"
    if mac: "signal_message_verify_mac G m (Some A) (Some B) key = Inr True" for A B key
  proof -
    have len: "8 \<le> length (sm_serialized m)"
      using mac by (auto simp: signal_message_verify_mac_def Let_def split: if_splits)
    have "drop (length ser - 8) ser \<noteq> drop (length ser - 8) (sm_serialized m)"
      using ser(2,3) append_take_drop_id by metis
    with len ser(1,3) verify_mac_true [OF hm mac] hmac_sha256_of_length [OF hm] show ?thesis
      by (simp add: signal_message_verify_mac_def signal_message_get_mac_hmac [OF hm] Let_def)
  qed
  from run show ?thesis
    by (auto simp: session_cipher_decrypt_from_state_and_signal_message_def dest!: verify
        split: if_splits sum.splits prod.splits option.splits)
qed

lemma tampered_message_refused:
  assumes hm: "hmac_sha256_of G hm" and holds: "holds_record S get (cipher_remote_address c) rec (w_store w)"
    and rec: "sr_state rec = Some st" "sr_previous_states rec = []"
    and run: "session_cipher_decrypt_signal_message S G c m w = (Inr p, w')"
  shows "\<exists>ser w''. session_cipher_decrypt_signal_message S G c (m\<lparr>sm_serialized := ser\<rparr>) w = (Inl SG_ERR_INVALID_MESSAGE, w'')"
proof -
  have ok: "ss_ok st" using holds rec by (auto simp: holds_record_def sr_ok_def)
  obtain rec' r' where idle: "\<not> cipher_inside_callback c"
    and d: "session_cipher_decrypt_from_record_and_signal_message G rec m (w_rng w) = (Inr (p, rec'), r')"
    using decrypt_handler_run [OF holds run] by blast
  then obtain st' where st: "session_cipher_decrypt_from_state_and_signal_message G st m (w_rng w) = (Inr (p, st'), r')"
    using rec session_state_copy_id [OF ok]
    by (auto simp: session_cipher_decrypt_from_record_and_signal_message_def split: sum.splits prod.splits if_splits)
  let ?n = "length (sm_serialized m) - 8" and ?l = "last (sm_serialized m)"
  let ?ser = "butlast (sm_serialized m) @ [?l + 1]"
  obtain A B key where "signal_message_verify_mac G m (Some A) (Some B) key = Inr True"
    by (rule decrypt_from_state_cases [OF st]) blast
  then have len: "8 \<le> length (sm_serialized m)"
    by (auto simp: signal_message_verify_mac_def Let_def split: if_splits)
  then have ne: "sm_serialized m \<noteq> []" by auto
  have "length ?ser = length (sm_serialized m)" using len by simp
  moreover have "?ser \<noteq> sm_serialized m"
  proof
    assume "?ser = sm_serialized m"
    then have "last ?ser = ?l" by simp
    then show False by simp
  qed
  moreover have "take (length ?ser - 8) ?ser = take (length ?ser - 8) (sm_serialized m)"
    using len ne by (simp add: take_butlast)
  ultimately have "session_cipher_decrypt_from_state_and_signal_message G st (m\<lparr>sm_serialized := ?ser\<rparr>) (w_rng w)
      = (Inl SG_ERR_INVALID_MESSAGE, r')"
    by (rule tampered_mac_refused [OF hm st])
  then have "session_cipher_decrypt_from_record_and_signal_message G rec (m\<lparr>sm_serialized := ?ser\<rparr>) (w_rng w)
      = (Inl SG_ERR_INVALID_MESSAGE, r')"
    using rec session_state_copy_id [OF ok] by (simp add: session_cipher_decrypt_from_record_and_signal_message_def)
  with holds_record_load [OF holds] idle show ?thesis
    by (intro exI [of _ ?ser]) (simp add: session_cipher_decrypt_signal_message_def signal_protocol_session_contains_session_def)
qed

text \<open>
  C18. A handler that fails leaves the stored sessions untouched, whether the failure is its
  own or one of a store callback: when \<^verbatim>\<open>session_cipher_decrypt_signal_message\<close> (without an
  application callback) returns an error the session store has the sessions it had, and so it
  does when \<^verbatim>\<open>session_cipher_encrypt\<close> returns one, which then has drawn no random bytes either.
\<close>

theorem failure_leaves_store:
  assumes "session_store_atomic S get" "cipher_decrypt_callback c = None"
  shows "(\<forall>e w1. session_cipher_decrypt_signal_message S G c m w = (Inl e, w1) \<longrightarrow>
      get (w_store w1) = get (w_store w)) \<and>
    (\<forall>e w1. session_cipher_encrypt S G c p w = (Inl e, w1) \<longrightarrow>
      get (w_store w1) = get (w_store w) \<and> w_rng w1 = w_rng w)"
  using decrypt_handler_failure [OF assms] encrypt_handler_failure [OF assms(1)] by blast

theorem failure_leaves_store_witness:
  "\<exists>m ser w1 w2. session_cipher_decrypt_signal_message sample_session_store sample_context sample_cipher m
      (sample_world sample_bob) = (Inr [42, 43], w1) \<and>
    session_cipher_decrypt_signal_message sample_session_store sample_context sample_cipher
      (m\<lparr>sm_serialized := ser\<rparr>) (sample_world sample_bob) = (Inl SG_ERR_INVALID_MESSAGE, w2) \<and>
    w_store w2 = w_store (sample_world sample_bob)"
proof -
  let ?w = "sample_world sample_bob"
  obtain em w1 where run: "session_cipher_decrypt_signal_message sample_session_store sample_context sample_cipher
      (signal_part em) ?w = (Inr [42, 43], w1)"
    using sample_exchange [of "[42, 43]"] by blast
  obtain ser w2 where "session_cipher_decrypt_signal_message sample_session_store sample_context sample_cipher
      ((signal_part em)\<lparr>sm_serialized := ser\<rparr>) ?w = (Inl SG_ERR_INVALID_MESSAGE, w2)"
    using tampered_message_refused [OF sample_hmac_ok sample_holds_cipher(2) _ _ run] by (auto simp: sample_record_def)
  moreover from this have "w_store w2 = w_store ?w"
    using failure_leaves_store [OF session_store_of_atomic [OF sample_session_store_ok], of sample_cipher]
    by (fastforce simp: sample_cipher_def)
  ultimately show ?thesis using run by blast
qed

section \<open>Key agreement and the Diffie-Hellman ratchet\<close>

text \<open>
  C13. X3DH agreement: the two roles derive the same root and chain.  Bob's sending chain is
  the chain under which Alice receives his ratchet key, and the root and sending chain of
  Alice are one Diffie-Hellman step from Bob's root, with the same keys seen from his side.
  Bob's state may be any; Alice's may be any that has no receiving chain for Bob's ratchet key.
\<close>

theorem x3dh_roles_agree:
  assumes "curve25519_dh G" "matched_parameters G a b"
      "session_state_find_receiver_chain sta (kp_public_key (bp_our_ratchet_key b)) = None"
    and "ratcheting_session_alice_initialize G sta a r = (Inr sa, r')"
    and "ratcheting_session_bob_initialize G stb b = Inr sb"
  shows "\<exists>rk ck kp rk' ck'. ss_root_key sb = Some rk \<and> sc_chain_key (ss_sender_chain sb) = Some ck \<and>
    session_state_get_receiver_chain_key sa (kp_public_key (bp_our_ratchet_key b)) = Some ck \<and>
    sc_sender_ratchet_key_pair (ss_sender_chain sa) = Some kp \<and>
    ratchet_root_key_create_chain G rk (Some (kp_public_key kp)) (Some (kp_private_key (bp_our_ratchet_key b)))
      = Inr (rk', ck') \<and>
    ss_root_key sa = Some rk' \<and> sc_chain_key (ss_sender_chain sa) = Some ck'"
  using x3dh_agreement [OF assms] by blast

theorem x3dh_roles_agree_witness:
  "\<exists>ck. sc_chain_key (ss_sender_chain sample_bob) = Some ck \<and>
    session_state_get_receiver_chain_key sample_alice (kp_public_key (sample_pair 4)) = Some ck"
  using x3dh_roles_agree [OF sample_dh_ok sample_matched _ sample_alice_run sample_bob_run]
  by (auto simp: session_state_create_def sample_bob_parameters_def session_state_find_receiver_chain_def)

text \<open>
  The symmetric exchange: of two parties whose base keys differ exactly one takes Alice's
  role in \<^verbatim>\<open>ratcheting_session_symmetric_initialize\<close>, and the two parameter sets they build
  match, so that the agreement of the two roles applies.
\<close>

lemma symmetric_roles_match:
  assumes "symmetric_partners G p q"
  shows "(ratcheting_session_symmetric_is_alice p \<longleftrightarrow> \<not> ratcheting_session_symmetric_is_alice q) \<and>
    (ratcheting_session_symmetric_is_alice p \<longrightarrow>
      (\<exists>a b. matched_parameters G a b \<and>
        (\<forall>st r. ratcheting_session_symmetric_initialize G st p r = ratcheting_session_alice_initialize G st a r) \<and>
        (\<forall>st r. ratcheting_session_symmetric_initialize G st q r = (ratcheting_session_bob_initialize G st b, r))))"
  using symmetric_one_alice [OF assms] symmetric_roles [OF assms] by blast

text \<open>
  The turn of the Diffie-Hellman ratchet: when a linked partner's new ratchet key arrives,
  \<^verbatim>\<open>session_cipher_get_or_create_chain_key\<close> derives exactly the chain the partner is sending
  on, installs it under that key, and makes a new sending chain of its own for which the
  roles are exchanged, so that the partner's next turn works the same way.
\<close>

lemma ratchet_turn_links:
  assumes "hmac_sha256_of G hm" "curve25519_dh G" "dh_linked G ck0 sa sb"
    and "ss_ok sb" "sc_chain_key (ss_sender_chain sb) \<noteq> None"
    and "session_state_get_sender_ratchet_key sa = Some k" "session_state_find_receiver_chain sb k = None"
    and "curve_generate_key_pair G r = (Inr pb, r')"
  shows "\<exists>sb' ck1. session_cipher_get_or_create_chain_key G sb k r = (Inr (ck0, sb'), r') \<and>
    session_state_get_receiver_chain_key sb' k = Some ck0 \<and>
    sc_chain_key (ss_sender_chain sb') = Some ck1 \<and> dh_linked G ck1 sb' sa"
proof -
  obtain sb' where t: "session_cipher_get_or_create_chain_key G sb k r = (Inr (ck0, sb'), r')"
    using turn_total [OF assms] by blast
  with ratchet_turn [OF assms(2,3,6,7) t] show ?thesis by blast
qed

section \<open>Message keys\<close>

text \<open>
  The key that \<^verbatim>\<open>session_cipher_get_or_create_message_keys\<close> returns for a counter is the
  key the sender derives at that position of the chain, whether it is taken from the store
  of skipped keys or derived now; the receiver stays in sync with the chain, and a second
  request for the same counter is answered with \<^verbatim>\<open>SG_ERR_DUPLICATE_MESSAGE\<close>.
\<close>

lemma message_key_is_the_senders:
  assumes "receiver_in_sync G base k st" "session_state_get_receiver_chain_key st k = Some ck" "n \<noteq> - 1"
    and "session_cipher_get_or_create_message_keys G st k ck n = Inr (mk, st')"
  shows "ck_index base \<le> n \<and>
    message_at (ratchet_chain_key_create_next G) (ratchet_chain_key_get_message_keys G) base
      (unat n - unat (ck_index base)) = Inr mk \<and>
    receiver_in_sync G base k st' \<and>
    (\<exists>ck'. session_state_get_receiver_chain_key st' k = Some ck' \<and>
       session_cipher_get_or_create_message_keys G st' k ck' n = Inl SG_ERR_DUPLICATE_MESSAGE)"
proof -
  note s = get_or_create_message_keys_sync [OF assms]
  then obtain ck' where "session_state_get_receiver_chain_key st' k = Some ck'"
    by (auto simp: receiver_in_sync_def session_state_get_receiver_chain_key_def)
  with s get_or_create_message_keys_once [OF assms] show ?thesis by blast
qed

text \<open>
  C15. \<^verbatim>\<open>session_cipher_get_or_create_message_keys\<close> refines the dispenser of \<open>Key_Dispenser\<close>: on
  the view of a receiving chain as its next counter and the counters passed over, it fails
  with the dispenser's error (\<^verbatim>\<open>SG_ERR_DUPLICATE_MESSAGE\<close> for a counter that was handed out or
  evicted, \<^verbatim>\<open>SG_ERR_INVALID_MESSAGE\<close> for one more than 2000 ahead), and otherwise makes the
  dispenser's step and hands out the sender's key at that counter.
\<close>

theorem session_keys_refine_dispenser:
  assumes "hmac_sha256_of G hm" "receiver_in_sync G base k st" "n \<noteq> - 1"
    and "session_state_get_receiver_chain_key st k = Some ck" "ck_ok v ck"
  shows "case dispense MAX_MESSAGE_KEYS (unat n) (ck_view k st) of
      Inl e \<Rightarrow> session_cipher_get_or_create_message_keys G st k ck n = Inl e
    | Inr d \<Rightarrow> \<exists>mk st'. session_cipher_get_or_create_message_keys G st k ck n = Inr (mk, st') \<and>
        receiver_in_sync G base k st' \<and> ck_view k st' = d \<and>
        message_at (next_ck G) (ck_keys G) base (unat n - unat (ck_index base)) = Inr mk"
  by (rule get_or_create_message_keys_refines [OF assms])

theorem session_keys_refine_dispenser_witness:
  "(\<exists>mk st'. session_cipher_get_or_create_message_keys sample_context sample_receiver sample_key sample_chain 2
      = Inr (mk, st') \<and> ck_view sample_key st' = \<lparr>d_next = 3, d_left = [0, 1]\<rparr>) \<and>
    session_cipher_get_or_create_message_keys sample_context sample_receiver sample_key sample_chain 2001
      = Inl SG_ERR_INVALID_MESSAGE"
proof -
  have view: "ck_view sample_key sample_receiver = \<lparr>d_next = 0, d_left = []\<rparr>"
    using sample_receiver_find sample_receiver_chain
    by (simp add: dispenser_view_def current_ck_def stored_keys_def sample_receiving_def) (simp add: sample_chain_def)
  have "dispense MAX_MESSAGE_KEYS 2 (ck_view sample_key sample_receiver) = Inr \<lparr>d_next = 3, d_left = [0, 1]\<rparr>"
    by (simp add: view dispense_def MAX_MESSAGE_KEYS_def append_bounded_room upt_rec)
  moreover have "dispense MAX_MESSAGE_KEYS 2001 (ck_view sample_key sample_receiver) = Inl SG_ERR_INVALID_MESSAGE"
    by (simp add: view dispense_def)
  ultimately show ?thesis
    using session_keys_refine_dispenser [OF sample_hmac_ok sample_receiver_sync _ sample_receiver_chain sample_chain_ok, of 2]
      session_keys_refine_dispenser [OF sample_hmac_ok sample_receiver_sync _ sample_receiver_chain sample_chain_ok, of 2001]
    by auto
qed

text \<open>
  C24. The lists that messages from outside can make grow are bounded: at most 2000 stored
  message keys for each of at most 5 receiving chains, and when a list is full the oldest
  entry goes.
\<close>

theorem lists_are_bounded:
  "length (message_keys_add mk mks) \<le> 2000 \<and> length (receiver_chains_add ch chs) \<le> 5 \<and>
   mk \<in> set (message_keys_add mk mks) \<and> ch \<in> set (receiver_chains_add ch chs) \<and>
   (length mks = 2000 \<longrightarrow> message_keys_add mk mks = tl mks @ [mk]) \<and>
   (length chs = 5 \<longrightarrow> receiver_chains_add ch chs = tl chs @ [ch])"
  using mks.add_bound [of mk mks] rcs.add_bound [of ch chs] mks.add_new rcs.add_new
    append_bounded_full [of 2000 mks mk] append_bounded_full [of 5 chs ch]
  by (auto simp: MAX_MESSAGE_KEYS_def MAX_RECEIVER_CHAINS_def message_keys_add_def receiver_chains_add_def)

theorem lists_are_bounded_witness:
  "receiver_chains_add sample_receiving (replicate 5 sample_receiving) = replicate 4 sample_receiving @ [sample_receiving]"
  using lists_are_bounded [of undefined "[]" sample_receiving "replicate 5 sample_receiving"]
  by (simp add: numeral_eq_Suc)

section \<open>Records\<close>

text \<open>
  C22. Decryption keeps the invariant of session records, in particular all length bounds,
  whichever state decrypts and whatever the message contains.
\<close>

theorem decryption_keeps_invariant:
  assumes "hmac_sha256_of G hm" "curve25519_dh G" "pub_ok (sm_sender_ratchet_key m)" "sr_ok rec"
    and "session_cipher_decrypt_from_record_and_signal_message G rec m r = (Inr (p, rec'), r')"
  shows "sr_ok rec' \<and> length (sr_previous_states rec') \<le> 40 \<and>
    (\<forall>st. sr_state rec' = Some st \<longrightarrow> length (ss_receiver_chains st) \<le> 5)"
  using decrypt_from_record_ok [OF assms]
  by (auto simp: sr_ok_def ARCHIVED_STATES_MAX_LENGTH_def ss_ok_def MAX_RECEIVER_CHAINS_def)

theorem decryption_keeps_invariant_witness:
  "\<exists>m p rec' r'. session_cipher_decrypt_from_record_and_signal_message sample_context (sample_record sample_bob) m 0
      = (Inr (p, rec'), r') \<and> sr_ok rec'"
proof -
  obtain em w' where d: "session_cipher_decrypt_signal_message sample_session_store sample_context sample_cipher
      (signal_part em) (sample_world sample_bob) = (Inr [1], w')" "pub_ok (sm_sender_ratchet_key (signal_part em))"
    using sample_exchange [of "[1]"] by blast
  obtain rec' r' where run: "session_cipher_decrypt_from_record_and_signal_message sample_context (sample_record sample_bob)
      (signal_part em) 0 = (Inr ([1], rec'), r')"
    using decrypt_handler_run [OF sample_holds_cipher(2) d(1)] by (auto simp: sample_world_def)
  have "sr_ok (sample_record sample_bob)" using sample_holds_cipher(2) by (simp add: holds_record_def)
  from decryption_keeps_invariant [OF sample_hmac_ok sample_dh_ok d(2) this run] run show ?thesis by blast
qed

text \<open>
  A message for an archived session still decrypts: when the current state rejects it as
  invalid and the newest archived state accepts it, the plaintext of that state is
  returned, the state becomes current, and the previous current state is archived in front
  of the others, of which at most 40 are kept.
\<close>

lemma archived_session_promoted:
  assumes ok: "sr_ok rec" and rec: "sr_state rec = Some cur" "sr_previous_states rec = st # rest"
    and rejects: "session_cipher_decrypt_from_state_and_signal_message G cur m r = (Inl SG_ERR_INVALID_MESSAGE, r1)"
    and accepts: "session_cipher_decrypt_from_state_and_signal_message G st m r1 = (Inr (p, st'), r2)"
  shows "session_cipher_decrypt_from_record_and_signal_message G rec m r
    = (Inr (p, rec\<lparr>sr_state := Some st', sr_previous_states := take 40 (cur # rest)\<rparr>), r2)"
proof -
  have "ss_ok cur" "ss_ok st" using ok rec by (auto simp: sr_ok_def)
  then show ?thesis
    using rec rejects accepts
    by (simp add: session_cipher_decrypt_from_record_and_signal_message_def session_state_copy_id
        session_record_promote_state_def session_record_get_previous_states_remove_def previous_states_add_def
        previous_states_trim_take ARCHIVED_STATES_MAX_LENGTH_def)
qed

section \<open>Authenticity\<close>

text \<open>
  C11. A message is accepted only with a valid MAC: whenever decryption with a state returns a
  plaintext, the last eight bytes of the message are the truncated HMAC, under the MAC key
  of its chain position, of what its version authenticates: for version 3 and later the two
  identity keys of the session, sender's first, and the rest of the bytes; for version 2 the
  rest of the bytes only.
\<close>

theorem accepted_message_is_authentic:
  assumes hm: "hmac_sha256_of G hm"
    and run: "session_cipher_decrypt_from_state_and_signal_message G st m r = (Inr (p, st'), r')"
  shows "\<exists>ck st1 mk st2 A B. 
    session_cipher_get_or_create_chain_key G st (sm_sender_ratchet_key m) r = (Inr (ck, st1), r') \<and>
    session_cipher_get_or_create_message_keys G st1 (sm_sender_ratchet_key m) ck (sm_counter m) = Inr (mk, st2) \<and>
    ss_remote_identity_public st2 = Some A \<and> ss_local_identity_public st2 = Some B \<and>
    drop (length (sm_serialized m) - 8) (sm_serialized m)
      = take 8 (hm (mk_mac_key mk) (let body = take (length (sm_serialized m) - 8) (sm_serialized m) in
          if 3 \<le> sm_message_version m then (DJB_TYPE # pub_data A) @ (DJB_TYPE # pub_data B) @ body else body))"
proof -
  obtain ck st1 mk st2 A B where
    k: "session_cipher_get_or_create_chain_key G st (sm_sender_ratchet_key m) r = (Inr (ck, st1), r')"
      "session_cipher_get_or_create_message_keys G st1 (sm_sender_ratchet_key m) ck (sm_counter m) = Inr (mk, st2)"
      "ss_remote_identity_public st2 = Some A" "ss_local_identity_public st2 = Some B"
    and mac: "signal_message_verify_mac G m (Some A) (Some B) (mk_mac_key mk) = Inr True"
    by (rule decrypt_from_state_cases [OF run]) blast
  from verify_mac_true [OF hm mac] k show ?thesis unfolding mac_input_def Let_def by blast
qed

theorem accepted_message_is_authentic_witness:
  "\<exists>m p st' r'. session_cipher_decrypt_from_state_and_signal_message sample_context sample_bob m 0 = (Inr (p, st'), r') \<and>
    (\<exists>key A B. drop (length (sm_serialized m) - 8) (sm_serialized m)
      = take 8 (sample_hmac key ((DJB_TYPE # pub_data A) @ (DJB_TYPE # pub_data B)
          @ take (length (sm_serialized m) - 8) (sm_serialized m))))"
proof -
  obtain em sa' where e: "encrypt_from_state sample_context sample_alice [1] = Inr (em, sa')"
    using encrypt_from_state_total [OF sample_hmac_ok sample_cipher_ok, of 3 _ _ sample_alice] sample_in_step
    unfolding in_step_def by blast
  note s = in_step_decrypt [OF sample_hmac_ok sample_cipher_ok sample_dh_ok sample_in_step e]
  obtain st' where d: "session_cipher_decrypt_from_state_and_signal_message sample_context sample_bob (signal_part em) 0
      = (Inr ([1], st'), Suc 0)"
    using s(1) by (auto simp: sample_world_def)
  have "3 \<le> sm_message_version (signal_part em)" using s(3) by simp
  with accepted_message_is_authentic [OF sample_hmac_ok d] d show ?thesis by (auto simp: Let_def)
qed

text \<open>
  Encryption always succeeds for a party that is set up, moves the sending chain by exactly
  one position, and changes nothing else of the session.
\<close>

lemma encryption_advances_chain:
  assumes "hmac_sha256_of G hm" "cipher_inverse G" "can_send v A B sa" "sc_chain_key (ss_sender_chain sa) = Some ck"
  shows "\<exists>em nx. encrypt_from_state G sa p
      = Inr (em, sa\<lparr>ss_sender_chain := (ss_sender_chain sa)\<lparr>sc_chain_key := Some nx\<rparr>\<rparr>) \<and>
    ratchet_chain_key_create_next G ck = Inr nx \<and> ck_index nx = ck_index ck + 1 \<and>
    sm_counter (signal_part em) = ck_index ck \<and>
    Some (sm_sender_ratchet_key (signal_part em)) = session_state_get_sender_ratchet_key sa"
proof -
  obtain em sa' where e: "encrypt_from_state G sa p = Inr (em, sa')"
    using encrypt_from_state_total [OF assms(1-3)] by blast
  show ?thesis
    by (rule encrypt_from_state_cases [OF e])
       (use e assms(4) in \<open>auto simp: ratchet_chain_key_create_next_index dest: signal_message_create_fields\<close>)
qed

section \<open>Where the code is not what it means to be\<close>

text \<open>
  C36. \<^verbatim>\<open>session_state_deserialize_protobuf\<close> ignores the status of the sender chain: a stored
  session whose sender chain does not parse loads without an error, as the same session
  with a sender chain that is present but has no keys, and encrypting with it fails.
\<close>

theorem sender_chain_error_dropped:
  assumes v: "sst_sessionversion t = Some v"
    and rest: "session_state_deserialize_protobuf (t\<lparr>sst_senderchain := None\<rparr>) = Inr st"
    and bad: "session_state_deserialize_protobuf_sender_chain v s = Inl e" "e \<noteq> C_UNDEFINED"
  shows "session_state_deserialize_protobuf (t\<lparr>sst_senderchain := Some s\<rparr>)
      = Inr (st\<lparr>ss_has_sender_chain := True\<rparr>) \<and>
    encrypt_from_state G (st\<lparr>ss_has_sender_chain := True\<rparr>) p = Inl SG_ERR_UNKNOWN"
proof -
  have 1: "session_state_deserialize_protobuf (t\<lparr>sst_senderchain := Some s\<rparr>) = Inr (st\<lparr>ss_has_sender_chain := True\<rparr>)"
    using v rest bad
    by (auto simp: session_state_deserialize_protobuf_def deserialize_sender_chain_unchecked_def Let_def
        split: sum.split_asm)
  have "ss_sender_chain st = sender_chain_zero"
    using rest by (auto simp: session_state_deserialize_protobuf_def deserialize_sender_chain_unchecked_def Let_def
        result_simps)
  with 1 show ?thesis by (simp add: encrypt_from_state_def sender_chain_zero_def)
qed

theorem sender_chain_error_dropped_witness:
  "session_state_deserialize_protobuf (sample_structure\<lparr>sst_senderchain := Some sample_bad_chain\<rparr>)
    = Inr (session_state_create\<lparr>ss_session_version := 3, ss_has_sender_chain := True\<rparr>)"
proof -
  have "session_state_deserialize_protobuf_sender_chain 3 sample_bad_chain = Inl SG_ERR_INVALID_KEY" by code_simp
  moreover have "session_state_deserialize_protobuf (sample_structure\<lparr>sst_senderchain := None\<rparr>)
      = Inr (session_state_create\<lparr>ss_session_version := 3\<rparr>)" by code_simp
  ultimately show ?thesis
    using sender_chain_error_dropped [of sample_structure 3 _ sample_bad_chain SG_ERR_INVALID_KEY]
    by (simp add: sample_structure_def)
qed

text \<open>
  C37. Which stored sessions are read with undefined behaviour: \<^verbatim>\<open>session_state_deserialize\<close> is
  undefined on exactly the bytes of a session whose version is neither 2 nor 3, that has no
  root key, and whose first chain that stops the run has a chain key.  There
  \<^verbatim>\<open>hkdf_create\<close> frees its context and leaves the pointer set, and the reader of the chain
  releases it once more.  With version 2 or 3 no bytes have this effect.
\<close>

theorem unknown_version_undefined:
  "session_state_deserialize d = Inl C_UNDEFINED \<longleftrightarrow>
    (\<exists>m. pb_deserialize sst_desc d = Inr m \<and> releases_freed_context (sst_of_pb m))"
  unfolding session_state_deserialize_def case_undefined session_state_undefined
  by (simp add: pb_deserialize_defined)

theorem unknown_version_undefined_witness:
  "\<exists>d. pb_serialize sst_desc (sst_to_pb (sample_structure\<lparr>sst_sessionversion := Some 4, sst_senderchain := Some sample_v4_chain\<rparr>)) = Inr d \<and>
    session_state_deserialize d = Inl C_UNDEFINED"
proof -
  let ?t = "sample_structure\<lparr>sst_sessionversion := Some 4, sst_senderchain := Some sample_v4_chain\<rparr>"
  let ?d = "pb_pack sst_desc (sst_to_pb ?t)"
  have "length ?d < 100" by code_simp
  then have "pb_deserialize sst_desc ?d = Inr (sst_to_pb ?t) \<and> sst_of_pb (sst_to_pb ?t) = ?t"
    by (intro sst.deserialize_small) (simp_all add: sst.serialize_ok)
  moreover have "releases_freed_context ?t" by code_simp
  ultimately show ?thesis using unknown_version_undefined [of ?d] by (auto simp: sst.serialize_ok)
qed

text \<open>
  \<^verbatim>\<open>session_cipher_get_session_version\<close> reports success and version 0 when the store's
  \<^verbatim>\<open>contains_session\<close> callback answers with a positive number other than 1, without
  looking at the session.
\<close>

lemma session_version_zero:
  assumes "contains_session_func S (cipher_remote_address c) s = (n, s')" "1 < n"
  shows "session_cipher_get_session_version S c s = (Inr 0, s')"
  using assms by (simp add: session_cipher_get_session_version_def signal_protocol_session_contains_session_def)

end
